(* ===== verification/Rv_Prelude.thy ===== *)
theory Rv_Prelude
  imports Main "HOL-Library.Word" "HOL-Library.Char_ord" "HOL-Library.List_Lexorder"
begin

text \<open>
  Shared vocabulary of the development: the strings, times and machine integers the Rust crates
  use, the two container idioms that recur in every in-memory backend
  (\<^verbatim>\<open>HashMap<K, HashSet<V>>\<close> and \<^verbatim>\<open>HashMap<K, Vec<V>>\<close>), the early-return
  operator that stands for Rust's \<^verbatim>\<open>?\<close>, and the iteration order of a hash
  container, which the standard library leaves open and which is therefore a parameter.
\<close>

named_theorems rv_defs \<open>definitions a component proof unfolds\<close>
named_theorems ms_simps \<open>lookups in maps to sets and maps to vectors\<close>

section \<open>Scalars\<close>

type_synonym str = string
type_synonym u32 = "32 word"
type_synonym u64 = "64 word"

text \<open>\<^verbatim>\<open>chrono::DateTime<Utc>\<close> and \<^verbatim>\<open>tokio::time::Instant\<close>: nanoseconds on one axis.\<close>

type_synonym time = int

abbreviation ns_per_sec :: int where
  "ns_per_sec \<equiv> 1000000000"

text \<open>Decimal printing of an unsigned integer.\<close>

fun show_nat :: "nat \<Rightarrow> str" where
  "show_nat n = (if n < 10 then [''0123456789'' ! n] else show_nat (n div 10) @ [''0123456789'' ! (n mod 10)])"

declare show_nat.simps [simp del]

text \<open>\<^verbatim>\<open>TimeDelta::num_seconds\<close> truncates toward zero.\<close>

definition num_seconds :: "int \<Rightarrow> int" where
  "num_seconds d = sgn d * (\<bar>d\<bar> div ns_per_sec)"

lemma num_seconds_nonneg: "0 \<le> d \<Longrightarrow> num_seconds d = d div ns_per_sec"
  by (cases "d = 0") (auto simp: num_seconds_def)

lemma int_less_div_iff:
  assumes "0 < (n :: int)"
  shows "k < d div n \<longleftrightarrow> (k + 1) * n \<le> d"
proof
  assume "k < d div n"
  then have "(k + 1) * n \<le> (d div n) * n"
    using assms by (intro mult_right_mono) auto
  also have "\<dots> \<le> d"
    using assms pos_mod_sign [of n d] div_mult_mod_eq [of d n] by linarith
  finally show "(k + 1) * n \<le> d" .
next
  assume "(k + 1) * n \<le> d"
  then have "((k + 1) * n) div n \<le> d div n"
    using assms by (intro zdiv_mono1) auto
  then show "k < d div n" using assms by simp
qed

lemma num_seconds_gt_iff:
  assumes "0 \<le> k"
  shows "num_seconds d > k \<longleftrightarrow> (k + 1) * ns_per_sec \<le> d"
proof (cases "0 < d")
  case True
  then show ?thesis by (simp only: num_seconds_nonneg int_less_div_iff less_imp_le zero_less_numeral)
next
  case False
  then have "num_seconds d \<le> 0"
    by (auto simp: num_seconds_def sgn_if div_int_pos_iff)
  with False assms show ?thesis by auto
qed

abbreviation i64_max :: int where
  "i64_max \<equiv> 9223372036854775807"

text \<open>\<^verbatim>\<open>i64::try_from(secs).unwrap_or(i64::MAX)\<close> of an unsigned 64-bit count.\<close>

definition clamp_i64 :: "u64 \<Rightarrow> int" where
  "clamp_i64 w = (if uint w \<le> i64_max then uint w else i64_max)"

lemma clamp_i64_bounds: "0 \<le> clamp_i64 w \<and> clamp_i64 w \<le> i64_max"
  by (simp add: clamp_i64_def)

section \<open>Maps to sets: entry-or-default, get-or-default, remove-and-prune\<close>

definition ms_get :: "('k \<rightharpoonup> 'v set) \<Rightarrow> 'k \<Rightarrow> 'v set" where
  "ms_get m k = (case m k of None \<Rightarrow> {} | Some s \<Rightarrow> s)"

definition ms_insert :: "'k \<Rightarrow> 'v \<Rightarrow> ('k \<rightharpoonup> 'v set) \<Rightarrow> ('k \<rightharpoonup> 'v set)" where
  "ms_insert k v m = m(k \<mapsto> insert v (ms_get m k))"

text \<open>\<^verbatim>\<open>if let Some(s) = m.get_mut(k) { s.remove(v); if s.is_empty() { m.remove(k) } }\<close>\<close>

definition ms_prune :: "'k \<Rightarrow> 'v \<Rightarrow> ('k \<rightharpoonup> 'v set) \<Rightarrow> ('k \<rightharpoonup> 'v set)" where
  "ms_prune k v m =
     (case m k of
        None \<Rightarrow> m
      | Some s \<Rightarrow> (if s - {v} = {} then m(k := None) else m(k \<mapsto> s - {v})))"

text \<open>\<^verbatim>\<open>for s in m.values_mut() { s.remove(v) }\<close>\<close>

definition ms_remove_all :: "'v \<Rightarrow> ('k \<rightharpoonup> 'v set) \<Rightarrow> ('k \<rightharpoonup> 'v set)" where
  "ms_remove_all v m = (\<lambda>k. map_option (\<lambda>s. s - {v}) (m k))"

lemma ms_get_empty [ms_simps]: "ms_get Map.empty k = {}"
  by (simp add: ms_get_def)

lemma ms_get_upd [ms_simps]: "ms_get (m(k \<mapsto> s)) k' = (if k' = k then s else ms_get m k')"
  by (simp add: ms_get_def)

lemma ms_get_del [ms_simps]: "ms_get (m(k := None)) k' = (if k' = k then {} else ms_get m k')"
  by (simp add: ms_get_def)

lemma ms_get_insert [ms_simps]:
  "ms_get (ms_insert k v m) k' = (if k' = k then insert v (ms_get m k) else ms_get m k')"
  by (simp add: ms_insert_def ms_get_def)

lemma ms_get_prune [ms_simps]:
  "ms_get (ms_prune k v m) k' = (if k' = k then ms_get m k - {v} else ms_get m k')"
  by (auto simp: ms_prune_def ms_get_def split: option.splits)

lemma ms_get_remove_all [ms_simps]: "ms_get (ms_remove_all v m) k = ms_get m k - {v}"
  by (auto simp: ms_remove_all_def ms_get_def split: option.splits)

lemma ms_insert_dom [ms_simps]: "dom (ms_insert k v m) = insert k (dom m)"
  by (simp add: ms_insert_def)

text \<open>The fold of \<open>ms_prune\<close> over a list of keys: what unindexing an invocation does.\<close>

definition ms_prune_keys :: "'k list \<Rightarrow> 'v \<Rightarrow> ('k \<rightharpoonup> 'v set) \<Rightarrow> ('k \<rightharpoonup> 'v set)" where
  "ms_prune_keys ks v m = fold (\<lambda>k acc. ms_prune k v acc) ks m"

lemma ms_get_prune_keys [ms_simps]:
  "ms_get (ms_prune_keys ks v m) k' = (if k' \<in> set ks then ms_get m k' - {v} else ms_get m k')"
proof (induction ks arbitrary: m)
  case Nil
  then show ?case by (simp add: ms_prune_keys_def)
next
  case (Cons k ks)
  then show ?case by (auto simp: ms_prune_keys_def ms_get_prune)
qed

text \<open>Indexing an invocation under a list of keys.\<close>

definition ms_insert_keys :: "'k list \<Rightarrow> 'v \<Rightarrow> ('k \<rightharpoonup> 'v set) \<Rightarrow> ('k \<rightharpoonup> 'v set)" where
  "ms_insert_keys ks v m = fold (\<lambda>k acc. ms_insert k v acc) ks m"

lemma ms_get_insert_keys [ms_simps]:
  "ms_get (ms_insert_keys ks v m) k' = (if k' \<in> set ks then insert v (ms_get m k') else ms_get m k')"
proof (induction ks arbitrary: m)
  case Nil
  then show ?case by (simp add: ms_insert_keys_def)
next
  case (Cons k ks)
  then show ?case by (auto simp: ms_insert_keys_def ms_get_insert)
qed

lemma ms_insert_keys_Nil [simp]: "ms_insert_keys [] v m = m"
  by (simp add: ms_insert_keys_def)

section \<open>Maps to vectors\<close>

definition ml_get :: "('k \<rightharpoonup> 'v list) \<Rightarrow> 'k \<Rightarrow> 'v list" where
  "ml_get m k = (case m k of None \<Rightarrow> [] | Some xs \<Rightarrow> xs)"

definition ml_push :: "'k \<Rightarrow> 'v \<Rightarrow> ('k \<rightharpoonup> 'v list) \<Rightarrow> ('k \<rightharpoonup> 'v list)" where
  "ml_push k v m = m(k \<mapsto> ml_get m k @ [v])"

text \<open>\<^verbatim>\<open>if !vec.contains(&v) { vec.push(v) }\<close> on \<^verbatim>\<open>entry(k).or_default()\<close>.\<close>

definition ml_push_new :: "'k \<Rightarrow> 'v \<Rightarrow> ('k \<rightharpoonup> 'v list) \<Rightarrow> ('k \<rightharpoonup> 'v list)" where
  "ml_push_new k v m = m(k \<mapsto> (if v \<in> set (ml_get m k) then ml_get m k else ml_get m k @ [v]))"

definition ml_extend :: "'k \<Rightarrow> 'v list \<Rightarrow> ('k \<rightharpoonup> 'v list) \<Rightarrow> ('k \<rightharpoonup> 'v list)" where
  "ml_extend k vs m = m(k \<mapsto> ml_get m k @ vs)"

lemma ml_get_empty [ms_simps]: "ml_get Map.empty k = []"
  by (simp add: ml_get_def)

lemma ml_get_upd [ms_simps]: "ml_get (m(k \<mapsto> s)) k' = (if k' = k then s else ml_get m k')"
  by (simp add: ml_get_def)

lemma ml_get_del [ms_simps]: "ml_get (m(k := None)) k' = (if k' = k then [] else ml_get m k')"
  by (simp add: ml_get_def)

lemma ml_get_push [ms_simps]:
  "ml_get (ml_push k v m) k' = (if k' = k then ml_get m k @ [v] else ml_get m k')"
  by (simp add: ml_push_def ml_get_def)

lemma ml_get_extend [ms_simps]:
  "ml_get (ml_extend k vs m) k' = (if k' = k then ml_get m k @ vs else ml_get m k')"
  by (simp add: ml_extend_def ml_get_def)

lemma set_ml_get_push_new [ms_simps]:
  "set (ml_get (ml_push_new k v m) k') = (if k' = k then insert v (set (ml_get m k)) else set (ml_get m k'))"
  by (auto simp: ml_push_new_def ml_get_def)

lemma distinct_ml_push_new:
  "distinct (ml_get m k') \<Longrightarrow> distinct (ml_get (ml_push_new k v m) k')"
  by (auto simp: ml_push_new_def ml_get_def)

lemma set_map_filter: "set (List.map_filter f xs) = {y. \<exists>x \<in> set xs. f x = Some y}"
  by (induction xs) (auto simp: List.map_filter_simps split: option.splits)

section \<open>Fallible operations on a state\<close>

text \<open>
  An operation returns its result or error together with the state it leaves behind, so the writes
  made before an error stay visible. \<open>and_then\<close> is the \<^verbatim>\<open>?\<close> operator: an error
  returns at once with the state reached so far.
\<close>

definition and_then ::
    "('e + 'a) \<times> 's \<Rightarrow> ('a \<Rightarrow> 's \<Rightarrow> ('e + 'b) \<times> 's) \<Rightarrow> ('e + 'b) \<times> 's" where
  "and_then r f = (case r of (Inl e, s) \<Rightarrow> (Inl e, s) | (Inr x, s) \<Rightarrow> f x s)"

lemma and_then_simps [simp]:
  "and_then (Inl e, s) f = (Inl e, s)"
  "and_then (Inr x, s) f = f x s"
  by (simp_all add: and_then_def)

lemma and_then_Inr:
  "and_then r f = (Inr y, s') \<longleftrightarrow> (\<exists>x s. r = (Inr x, s) \<and> f x s = (Inr y, s'))"
  by (cases r; cases "fst r") (auto simp: and_then_def)

lemma and_then_split:
  "P (and_then r f) \<longleftrightarrow>
     (\<forall>e s. r = (Inl e, s) \<longrightarrow> P (Inl e, s)) \<and> (\<forall>x s. r = (Inr x, s) \<longrightarrow> P (f x s))"
  by (cases r; cases "fst r") (auto simp: and_then_def)

section \<open>Hash iteration order and the clock\<close>

text \<open>
  What an operation reads from its surroundings: the wall clock, the order in which this call
  iterates over a hash container, and the two date operations of the \<^verbatim>\<open>chrono\<close> crate,
  \<^verbatim>\<open>t - Duration::seconds(s)\<close> (\<^const>\<open>None\<close> where it panics) and
  \<^verbatim>\<open>num_seconds\<close>. The Rust standard library documents that the iteration order is arbitrary
  and visits every element once, which is what \<open>hash_order_ok\<close> says; \<open>chrono_ok\<close> is the
  documented meaning of the date operations where they return.
\<close>

record env =
  now :: time
  hash_order :: "str set \<Rightarrow> str list"
  sub_secs :: "time \<Rightarrow> int \<Rightarrow> time option"
  whole_secs :: "int \<Rightarrow> int"

definition hash_order_ok :: "(str set \<Rightarrow> str list) \<Rightarrow> bool" where
  "hash_order_ok ord \<longleftrightarrow> (\<forall>A. finite A \<longrightarrow> set (ord A) = A \<and> distinct (ord A))"

definition chrono_ok :: "env \<Rightarrow> bool" where
  "chrono_ok e \<longleftrightarrow>
     (\<forall>t s r. sub_secs e t s = Some r \<longrightarrow> r = t - s * ns_per_sec) \<and>
     (\<forall>d. whole_secs e d = num_seconds d)"

text \<open>An environment that meets both, for evaluating examples.\<close>

definition sorted_env :: "time \<Rightarrow> env" where
  "sorted_env t =
     \<lparr>now = t, hash_order = sorted_list_of_set, sub_secs = (\<lambda>t s. Some (t - s * ns_per_sec)),
      whole_secs = num_seconds\<rparr>"

lemma hash_order_set: "hash_order_ok ord \<Longrightarrow> finite A \<Longrightarrow> set (ord A) = A"
  by (simp add: hash_order_ok_def)

lemma hash_order_distinct: "hash_order_ok ord \<Longrightarrow> finite A \<Longrightarrow> distinct (ord A)"
  by (simp add: hash_order_ok_def)

lemma hash_order_length: "hash_order_ok ord \<Longrightarrow> finite A \<Longrightarrow> length (ord A) = card A"
  by (metis distinct_card hash_order_distinct hash_order_set)

lemma hash_order_empty: "hash_order_ok ord \<Longrightarrow> ord {} = []"
  using hash_order_set [of ord "{}"] by simp

lemma sorted_env_ok [simp]:
  "hash_order_ok sorted_list_of_set" "chrono_ok (sorted_env t)" "now (sorted_env t) = t"
  "hash_order (sorted_env t) = sorted_list_of_set"
  by (simp_all add: sorted_env_def hash_order_ok_def chrono_ok_def)

end
