(* ===== verification/Status_Machine.thy ===== *)
theory Status_Machine
  imports Rv_Prelude
begin

text \<open>
  The invocation status machine: \<^verbatim>\<open>rustvello-proto/src/status/mod.rs\<close> (the statuses and
  the declarative table of rules) and \<^verbatim>\<open>status/machine.rs\<close> (validation of a transition and
  of runner ownership, the new owner, the composed record transition). Error messages are not
  modelled; the structured fields of the errors are.
\<close>

section \<open>Statuses\<close>

datatype invocation_status =
    Registered
  | ConcurrencyControlled
  | ConcurrencyControlledFinal
  | Rerouted
  | Pending
  | PendingRecovery
  | Running
  | RunningRecovery
  | Paused
  | Killed
  | Success
  | Failed
  | Retry
  | Cancelled

definition ALL_STATUSES :: "invocation_status list" where
  "ALL_STATUSES =
     [Registered, ConcurrencyControlled, ConcurrencyControlledFinal, Rerouted, Pending,
      PendingRecovery, Running, RunningRecovery, Paused, Killed, Success, Failed, Retry, Cancelled]"

fun display_status :: "invocation_status \<Rightarrow> str" where
  "display_status Registered = ''REGISTERED''"
| "display_status ConcurrencyControlled = ''CONCURRENCY_CONTROLLED''"
| "display_status ConcurrencyControlledFinal = ''CONCURRENCY_CONTROLLED_FINAL''"
| "display_status Rerouted = ''REROUTED''"
| "display_status Pending = ''PENDING''"
| "display_status PendingRecovery = ''PENDING_RECOVERY''"
| "display_status Running = ''RUNNING''"
| "display_status RunningRecovery = ''RUNNING_RECOVERY''"
| "display_status Paused = ''PAUSED''"
| "display_status Killed = ''KILLED''"
| "display_status Success = ''SUCCESS''"
| "display_status Failed = ''FAILED''"
| "display_status Retry = ''RETRY''"
| "display_status Cancelled = ''CANCELLED''"

text \<open>
  \<^verbatim>\<open>FromStr\<close>: the argument \<open>up\<close> is \<^verbatim>\<open>str::to_uppercase\<close>, whose Unicode
  tables are not modelled.
\<close>

definition parse_status :: "(str \<Rightarrow> str) \<Rightarrow> str \<Rightarrow> invocation_status option" where
  "parse_status up s =
     (let u = up s in
      if u = ''REGISTERED'' then Some Registered
      else if u = ''CONCURRENCY_CONTROLLED'' then Some ConcurrencyControlled
      else if u = ''CONCURRENCY_CONTROLLED_FINAL'' then Some ConcurrencyControlledFinal
      else if u = ''REROUTED'' then Some Rerouted
      else if u = ''PENDING'' then Some Pending
      else if u = ''PENDING_RECOVERY'' then Some PendingRecovery
      else if u = ''RUNNING'' then Some Running
      else if u = ''RUNNING_RECOVERY'' then Some RunningRecovery
      else if u = ''PAUSED'' then Some Paused
      else if u = ''KILLED'' then Some Killed
      else if u = ''SUCCESS'' then Some Success
      else if u = ''FAILED'' then Some Failed
      else if u = ''RETRY'' then Some Retry
      else if u = ''CANCELLED'' then Some Cancelled
      else None)"

section \<open>The table of rules\<close>

record status_definition =
  allowed_transitions :: "invocation_status list"
  is_final :: bool
  available_for_run :: bool
  requires_ownership :: bool
  acquires_ownership :: bool
  releases_ownership :: bool
  overrides_ownership :: bool

definition status_definition_new :: status_definition where
  "status_definition_new =
     \<lparr>allowed_transitions = [], is_final = False, available_for_run = False,
      requires_ownership = False, acquires_ownership = False, releases_ownership = False,
      overrides_ownership = False\<rparr>"

record status_configuration =
  initial_definition :: status_definition
  definitions :: "(invocation_status \<times> status_definition) list"
  final_statuses :: "invocation_status list"
  available_for_run_statuses :: "invocation_status list"

definition config_definitions :: "(invocation_status \<times> status_definition) list" where
  "config_definitions =
    [(Registered, status_definition_new
        \<lparr>allowed_transitions := [Pending, ConcurrencyControlled, ConcurrencyControlledFinal, Cancelled],
         available_for_run := True, releases_ownership := True\<rparr>),
     (ConcurrencyControlled, status_definition_new
        \<lparr>allowed_transitions := [Rerouted, Cancelled], releases_ownership := True\<rparr>),
     (Rerouted, status_definition_new
        \<lparr>allowed_transitions := [Pending, ConcurrencyControlled, Cancelled],
         available_for_run := True, releases_ownership := True\<rparr>),
     (Pending, status_definition_new
        \<lparr>allowed_transitions := [Running, Killed, Rerouted, PendingRecovery, Cancelled],
         requires_ownership := True, acquires_ownership := True\<rparr>),
     (PendingRecovery, status_definition_new
        \<lparr>allowed_transitions := [Rerouted, Failed, Cancelled],
         releases_ownership := True, overrides_ownership := True\<rparr>),
     (Running, status_definition_new
        \<lparr>allowed_transitions :=
           [Paused, Killed, Retry, Success, Failed, RunningRecovery, Cancelled],
         requires_ownership := True\<rparr>),
     (RunningRecovery, status_definition_new
        \<lparr>allowed_transitions := [Rerouted, Failed, Cancelled],
         releases_ownership := True, overrides_ownership := True\<rparr>),
     (Paused, status_definition_new
        \<lparr>allowed_transitions := [Running, Killed, Cancelled], requires_ownership := True\<rparr>),
     (Killed, status_definition_new
        \<lparr>allowed_transitions := [Rerouted, Cancelled], releases_ownership := True\<rparr>),
     (Retry, status_definition_new
        \<lparr>allowed_transitions := [Pending, Cancelled],
         available_for_run := True, releases_ownership := True\<rparr>),
     (Success, status_definition_new \<lparr>is_final := True, releases_ownership := True\<rparr>),
     (Failed, status_definition_new \<lparr>is_final := True, releases_ownership := True\<rparr>),
     (Cancelled, status_definition_new
        \<lparr>is_final := True, releases_ownership := True, overrides_ownership := True\<rparr>),
     (ConcurrencyControlledFinal, status_definition_new
        \<lparr>is_final := True, releases_ownership := True\<rparr>)]"

definition build_config :: status_configuration where
  "build_config =
     \<lparr>initial_definition = status_definition_new \<lparr>allowed_transitions := [Registered]\<rparr>,
      definitions = config_definitions,
      final_statuses = map fst (filter (\<lambda>(_, d). is_final d) config_definitions),
      available_for_run_statuses =
        map fst (filter (\<lambda>(_, d). available_for_run d) config_definitions)\<rparr>"

text \<open>\<^verbatim>\<open>StatusConfiguration::definition\<close>: \<open>None\<close> is its panic on a missing entry.\<close>

definition config_definition ::
    "status_configuration \<Rightarrow> invocation_status \<Rightarrow> status_definition option" where
  "config_definition cfg s = map_option snd (find (\<lambda>(s', _). s' = s) (definitions cfg))"

definition get_status_definition :: "invocation_status \<Rightarrow> status_definition" where
  "get_status_definition s = the (config_definition build_config s)"

definition is_terminal :: "invocation_status \<Rightarrow> bool" where
  "is_terminal s = is_final (get_status_definition s)"

definition is_available_for_run :: "invocation_status \<Rightarrow> bool" where
  "is_available_for_run s = available_for_run (get_status_definition s)"

definition valid_transitions :: "invocation_status \<Rightarrow> invocation_status list" where
  "valid_transitions s = allowed_transitions (get_status_definition s)"

definition can_transition_to :: "invocation_status \<Rightarrow> invocation_status \<Rightarrow> bool" where
  "can_transition_to s next \<longleftrightarrow> next \<in> set (valid_transitions s)"

section \<open>The machine\<close>

type_synonym runner = str

record status_record =
  sr_status :: invocation_status
  sr_runner :: "runner option"
  sr_timestamp :: time

definition status_record_new ::
    "time \<Rightarrow> invocation_status \<Rightarrow> runner option \<Rightarrow> status_record" where
  "status_record_new t s r = \<lparr>sr_status = s, sr_runner = r, sr_timestamp = t\<rparr>"

record transition_error =
  te_from :: "invocation_status option"
  te_to :: invocation_status
  te_allowed :: "invocation_status list"

record ownership_error =
  oe_from :: invocation_status
  oe_to :: invocation_status
  oe_current_owner :: "runner option"
  oe_attempted_owner :: "runner option"

datatype status_machine_error =
    Transition transition_error
  | Ownership ownership_error

definition validate_transition ::
    "invocation_status option \<Rightarrow> invocation_status \<Rightarrow> transition_error + unit" where
  "validate_transition from to =
     (let d = (case from of Some s \<Rightarrow> get_status_definition s
                          | None \<Rightarrow> initial_definition build_config)
      in if to \<in> set (allowed_transitions d) then Inr ()
         else Inl \<lparr>te_from = from, te_to = to, te_allowed = allowed_transitions d\<rparr>)"

definition validate_ownership ::
    "status_record option \<Rightarrow> invocation_status \<Rightarrow> runner option \<Rightarrow> ownership_error + unit" where
  "validate_ownership current new_status r =
     (case current of
        None \<Rightarrow> Inr ()
      | Some cur \<Rightarrow>
          (let new_def = get_status_definition new_status;
               cur_def = get_status_definition (sr_status cur)
           in if overrides_ownership new_def then Inr ()
              else if requires_ownership cur_def \<and> r \<noteq> sr_runner cur then
                Inl \<lparr>oe_from = sr_status cur, oe_to = new_status,
                     oe_current_owner = sr_runner cur, oe_attempted_owner = r\<rparr>
              else if acquires_ownership new_def \<and> r = None then
                Inl \<lparr>oe_from = sr_status cur, oe_to = new_status,
                     oe_current_owner = sr_runner cur, oe_attempted_owner = None\<rparr>
              else Inr ()))"

definition compute_new_owner ::
    "status_record option \<Rightarrow> invocation_status \<Rightarrow> runner option \<Rightarrow> runner option" where
  "compute_new_owner current new_status r =
     (let new_def = get_status_definition new_status
      in if releases_ownership new_def then None
         else if acquires_ownership new_def then r
         else Option.bind current sr_runner)"

definition status_record_transition ::
    "time \<Rightarrow> status_record option \<Rightarrow> invocation_status \<Rightarrow> runner option
       \<Rightarrow> status_machine_error + status_record" where
  "status_record_transition t current new_status r =
     (case validate_transition (map_option sr_status current) new_status of
        Inl e \<Rightarrow> Inl (Transition e)
      | Inr _ \<Rightarrow>
          (case validate_ownership current new_status r of
             Inl e \<Rightarrow> Inl (Ownership e)
           | Inr _ \<Rightarrow>
               Inr (status_record_new t new_status (compute_new_owner current new_status r))))"

section \<open>The table, evaluated once\<close>

lemma get_status_definition_simps [simp]:
  "get_status_definition Registered = status_definition_new
     \<lparr>allowed_transitions := [Pending, ConcurrencyControlled, ConcurrencyControlledFinal, Cancelled],
      available_for_run := True, releases_ownership := True\<rparr>"
  "get_status_definition ConcurrencyControlled = status_definition_new
     \<lparr>allowed_transitions := [Rerouted, Cancelled], releases_ownership := True\<rparr>"
  "get_status_definition Rerouted = status_definition_new
     \<lparr>allowed_transitions := [Pending, ConcurrencyControlled, Cancelled],
      available_for_run := True, releases_ownership := True\<rparr>"
  "get_status_definition Pending = status_definition_new
     \<lparr>allowed_transitions := [Running, Killed, Rerouted, PendingRecovery, Cancelled],
      requires_ownership := True, acquires_ownership := True\<rparr>"
  "get_status_definition PendingRecovery = status_definition_new
     \<lparr>allowed_transitions := [Rerouted, Failed, Cancelled],
      releases_ownership := True, overrides_ownership := True\<rparr>"
  "get_status_definition Running = status_definition_new
     \<lparr>allowed_transitions := [Paused, Killed, Retry, Success, Failed, RunningRecovery, Cancelled],
      requires_ownership := True\<rparr>"
  "get_status_definition RunningRecovery = status_definition_new
     \<lparr>allowed_transitions := [Rerouted, Failed, Cancelled],
      releases_ownership := True, overrides_ownership := True\<rparr>"
  "get_status_definition Paused = status_definition_new
     \<lparr>allowed_transitions := [Running, Killed, Cancelled], requires_ownership := True\<rparr>"
  "get_status_definition Killed = status_definition_new
     \<lparr>allowed_transitions := [Rerouted, Cancelled], releases_ownership := True\<rparr>"
  "get_status_definition Retry = status_definition_new
     \<lparr>allowed_transitions := [Pending, Cancelled],
      available_for_run := True, releases_ownership := True\<rparr>"
  "get_status_definition Success = status_definition_new
     \<lparr>is_final := True, releases_ownership := True\<rparr>"
  "get_status_definition Failed = status_definition_new
     \<lparr>is_final := True, releases_ownership := True\<rparr>"
  "get_status_definition Cancelled = status_definition_new
     \<lparr>is_final := True, releases_ownership := True, overrides_ownership := True\<rparr>"
  "get_status_definition ConcurrencyControlledFinal = status_definition_new
     \<lparr>is_final := True, releases_ownership := True\<rparr>"
  by (simp_all add: get_status_definition_def config_definition_def build_config_def
      config_definitions_def)

lemmas status_simps =
  is_terminal_def is_available_for_run_def valid_transitions_def can_transition_to_def
  status_definition_new_def

lemmas machine_defs =
  status_record_transition_def validate_transition_def validate_ownership_def
  compute_new_owner_def status_record_new_def status_simps Let_def

lemma is_terminal_simps [simp]:
  "is_terminal Success" "is_terminal Failed" "is_terminal Cancelled"
  "is_terminal ConcurrencyControlledFinal"
  "\<not> is_terminal Registered" "\<not> is_terminal ConcurrencyControlled" "\<not> is_terminal Rerouted"
  "\<not> is_terminal Pending" "\<not> is_terminal PendingRecovery" "\<not> is_terminal Running"
  "\<not> is_terminal RunningRecovery" "\<not> is_terminal Paused" "\<not> is_terminal Killed"
  "\<not> is_terminal Retry"
  by (simp_all add: status_simps)

lemma is_available_for_run_iff: "is_available_for_run s \<longleftrightarrow> s = Registered \<or> s = Rerouted \<or> s = Retry"
  by (cases s) (simp_all add: status_simps)

lemma definition_present: "\<exists>d. config_definition build_config s = Some d"
  by (cases s) (simp_all add: config_definition_def build_config_def config_definitions_def)

text \<open>The record transition on a present record, with its three outcomes spelled out.\<close>

lemma transition_Inr_iff:
  "status_record_transition t (Some cur) s r = Inr rec' \<longleftrightarrow>
     can_transition_to (sr_status cur) s \<and>
     (overrides_ownership (get_status_definition s) \<or>
      (requires_ownership (get_status_definition (sr_status cur)) \<longrightarrow> r = sr_runner cur) \<and>
      (s = Pending \<longrightarrow> r \<noteq> None)) \<and>
     rec' = \<lparr>sr_status = s, sr_runner = compute_new_owner (Some cur) s r, sr_timestamp = t\<rparr>"
  by (cases s) (auto simp: status_record_transition_def validate_transition_def
      validate_ownership_def status_record_new_def can_transition_to_def valid_transitions_def
      status_definition_new_def Let_def split: if_splits)

lemma transition_Transition_iff:
  "(\<exists>e. status_record_transition t (Some cur) s r = Inl (Transition e)) \<longleftrightarrow>
     \<not> can_transition_to (sr_status cur) s"
  by (auto simp: status_record_transition_def validate_transition_def validate_ownership_def
      can_transition_to_def valid_transitions_def Let_def split: if_splits sum.splits)

lemma compute_new_owner_simps:
  "compute_new_owner cur Pending r = r"
  "compute_new_owner cur Running r = Option.bind cur sr_runner"
  "compute_new_owner cur Paused r = Option.bind cur sr_runner"
  "s \<notin> {Pending, Running, Paused} \<Longrightarrow> compute_new_owner cur s r = None"
  by (cases s; simp add: compute_new_owner_def status_definition_new_def)+

section \<open>What a client of the machine relies on\<close>

text \<open>
  The contract between the machine and a backend that stores records: a transition stamps the
  requested status and time, a final record accepts nothing, and an owned record is only changed
  by its owner or by a status that overrides ownership.
\<close>

locale status_rules =
  fixes trans :: "time \<Rightarrow> status_record option \<Rightarrow> invocation_status \<Rightarrow> runner option
                    \<Rightarrow> 'e + status_record"
    and final :: "invocation_status \<Rightarrow> bool"
    and owned :: "invocation_status \<Rightarrow> bool"
    and overrides :: "invocation_status \<Rightarrow> bool"
  assumes stamps: "trans t c s r = Inr rec' \<Longrightarrow> sr_status rec' = s \<and> sr_timestamp rec' = t"
    and final_rejects: "final (sr_status cur) \<Longrightarrow> trans t (Some cur) s r \<noteq> Inr rec'"
    and fenced: "trans t (Some cur) s r = Inr rec' \<Longrightarrow> owned (sr_status cur) \<Longrightarrow>
                   \<not> overrides s \<Longrightarrow> r = sr_runner cur"
begin

text \<open>Requests that are applied when the machine accepts them and ignored otherwise.\<close>

lemma final_forever:
  assumes "final (sr_status cur)"
  shows "fold (\<lambda>(t, s, r) rec.
           case trans t (Some rec) s r of Inl _ \<Rightarrow> rec | Inr rec' \<Rightarrow> rec') reqs cur = cur"
proof (induction reqs)
  case Nil
  then show ?case by simp
next
  case (Cons q reqs)
  obtain t s r where q: "q = (t, s, r)" by (cases q)
  from assms have "(case trans t (Some cur) s r of Inl _ \<Rightarrow> cur | Inr rec' \<Rightarrow> rec') = cur"
    using final_rejects by (auto split: sum.splits)
  with Cons q show ?case by simp
qed

lemma outsider_needs_override:
  assumes "trans t (Some cur) s r = Inr rec'" and "owned (sr_status cur)" and "r \<noteq> sr_runner cur"
  shows "overrides s"
  using assms fenced by blast

end

interpretation sm: status_rules status_record_transition is_terminal
  "\<lambda>s. s \<in> {Pending, Running, Paused}" "\<lambda>s. s \<in> {PendingRecovery, RunningRecovery, Cancelled}"
proof unfold_locales
  fix t and cur :: "status_record option" and s r rec'
  assume "status_record_transition t cur s r = Inr rec'"
  then show "sr_status rec' = s \<and> sr_timestamp rec' = t"
    by (auto simp: status_record_transition_def status_record_new_def split: sum.splits)
next
  fix cur :: status_record and t s r rec'
  assume "is_terminal (sr_status cur)"
  then show "status_record_transition t (Some cur) s r \<noteq> Inr rec'"
    by (cases "sr_status cur") (auto simp: transition_Inr_iff status_simps)
next
  fix t and cur :: status_record and s r rec'
  assume "status_record_transition t (Some cur) s r = Inr rec'"
    and "sr_status cur \<in> {Pending, Running, Paused}"
    and "s \<notin> {PendingRecovery, RunningRecovery, Cancelled}"
  then show "r = sr_runner cur"
    by (cases s) (auto simp: transition_Inr_iff status_definition_new_def)
qed

section \<open>Runs of the machine\<close>

inductive status_step :: "status_record \<Rightarrow> status_record \<Rightarrow> bool" where
  step: "status_record_transition t (Some cur) s r = Inr rec' \<Longrightarrow> status_step cur rec'"

text \<open>
  A record starts as \<^verbatim>\<open>Registered\<close>, with whatever runner the registering backend wrote
  into it (\<^verbatim>\<open>register_invocation_with_id\<close> stores the submitting runner).
\<close>

inductive reachable_record :: "status_record \<Rightarrow> bool" where
  registered: "sr_status cur = Registered \<Longrightarrow> reachable_record cur"
| stepped: "reachable_record cur \<Longrightarrow> status_step cur rec' \<Longrightarrow> reachable_record rec'"

inductive_cases status_stepE: "status_step cur rec'"

definition owner_inv :: "status_record \<Rightarrow> bool" where
  "owner_inv cur \<longleftrightarrow>
     sr_status cur = Registered \<or>
     (sr_runner cur \<noteq> None \<longleftrightarrow> sr_status cur \<in> {Pending, Running, Paused})"

lemma no_way_back_to_registered: "\<not> can_transition_to s Registered"
  by (cases s) (simp_all add: status_simps)

lemma transition_owner_inv:
  assumes "owner_inv cur" and "status_record_transition t (Some cur) s r = Inr rec'"
  shows "owner_inv rec'"
  using assms
  by (cases s; cases "sr_status cur")
     (auto simp: transition_Inr_iff owner_inv_def compute_new_owner_simps status_simps)

lemma reachable_owner_inv: "reachable_record cur \<Longrightarrow> owner_inv cur"
proof (induction rule: reachable_record.induct)
  case (registered cur)
  then show ?case by (simp add: owner_inv_def)
next
  case (stepped cur rec')
  then show ?case by (blast elim: status_stepE intro: transition_owner_inv)
qed

section \<open>Properties\<close>

text \<open>No panic in the table lookup, and the table's shape: a status is terminal exactly when it
  has no outgoing transition, and cancellation is possible from exactly the non-terminal ones.\<close>

theorem terminal_iff_stuck:
  "config_definition build_config s \<noteq> None \<and>
   is_terminal s = (valid_transitions s = []) \<and>
   can_transition_to s Cancelled = (\<not> is_terminal s)"
  using definition_present [of s] by (cases s) (simp_all add: status_simps)

text \<open>The two notions of ``can be picked up'' that the retrieval paths use agree: a status is
  available for run exactly when \<^verbatim>\<open>Pending\<close> is one of its transitions, and the cached
  list of available statuses holds exactly those.\<close>

theorem available_iff_pending_allowed:
  "is_available_for_run s = can_transition_to s Pending \<and>
   is_available_for_run s = (s \<in> set (available_for_run_statuses build_config)) \<and>
   is_terminal s = (s \<in> set (final_statuses build_config))"
  by (cases s) (simp_all add: status_simps build_config_def config_definitions_def)

text \<open>Ownership fence: when a record is \<^verbatim>\<open>Pending\<close>, \<^verbatim>\<open>Running\<close> or
  \<^verbatim>\<open>Paused\<close> and a caller that is not its recorded owner changes it, the new status is one of
  the two recovery statuses or \<^verbatim>\<open>Cancelled\<close>, and the record ends up without an owner.\<close>

theorem outsider_only_recovers_or_cancels:
  assumes "status_record_transition t (Some cur) s r = Inr rec'"
    and "sr_status cur \<in> {Pending, Running, Paused}" and "r \<noteq> sr_runner cur"
  shows "s \<in> {PendingRecovery, RunningRecovery, Cancelled} \<and> sr_status rec' = s \<and> sr_runner rec' = None"
proof -
  have s: "s \<in> {PendingRecovery, RunningRecovery, Cancelled}"
    using sm.outsider_needs_override [OF assms(1)] assms(2,3) by blast
  moreover have "sr_status rec' = s \<and> sr_runner rec' = compute_new_owner (Some cur) s r"
    using assms(1) by (simp add: transition_Inr_iff)
  ultimately show ?thesis by (auto simp: compute_new_owner_simps)
qed

theorem outsider_only_recovers_or_cancels_witness:
  "RunningRecovery \<in> {PendingRecovery, RunningRecovery, Cancelled} \<and>
   sr_runner (status_record_new 9 RunningRecovery None) = None"
  using outsider_only_recovers_or_cancels
    [of 9 "status_record_new 1 Running (Some ''r1'')" RunningRecovery "Some ''r2''"
        "status_record_new 9 RunningRecovery None"]
  by (simp add: machine_defs)

text \<open>In every reachable record an owner is stored exactly while the status is
  \<^verbatim>\<open>Pending\<close>, \<^verbatim>\<open>Running\<close> or \<^verbatim>\<open>Paused\<close> (a freshly registered record
  keeps the submitting runner); so no status that requires ownership is ever ownerless.\<close>

theorem reachable_owner_iff_owned_status:
  assumes "reachable_record cur" and "sr_status cur \<noteq> Registered"
  shows "(sr_runner cur \<noteq> None) = (sr_status cur \<in> {Pending, Running, Paused})"
  using reachable_owner_inv [OF assms(1)] assms(2) by (simp add: owner_inv_def)

theorem reachable_owner_iff_owned_status_witness:
  "(sr_runner (status_record_new 2 Pending (Some ''r1'')) \<noteq> None) = (Pending \<in> {Pending, Running, Paused})"
proof -
  let ?reg = "status_record_new 1 Registered (Some ''client'')"
  let ?pen = "status_record_new 2 Pending (Some ''r1'')"
  have "status_step ?reg ?pen"
    by (rule status_step.step [of 2 _ Pending "Some ''r1''"]) (simp add: machine_defs)
  then have "reachable_record ?pen"
    by (rule reachable_record.stepped [rotated]) (simp add: reachable_record.registered status_record_new_def)
  from reachable_owner_iff_owned_status [OF this]
  show ?thesis by (simp add: status_record_new_def)
qed

text \<open>No dead end: from every non-terminal status some path of allowed transitions leads to
  \<^verbatim>\<open>Success\<close>.\<close>

theorem success_reachable:
  assumes "\<not> is_terminal s"
  shows "can_transition_to\<^sup>*\<^sup>* s Success"
proof -
  have run: "can_transition_to\<^sup>*\<^sup>* Running Success"
    by (rule r_into_rtranclp) (simp add: status_simps)
  have pen: "can_transition_to\<^sup>*\<^sup>* Pending Success"
    by (rule converse_rtranclp_into_rtranclp [OF _ run]) (simp add: status_simps)
  have rer: "can_transition_to\<^sup>*\<^sup>* Rerouted Success"
    by (rule converse_rtranclp_into_rtranclp [OF _ pen]) (simp add: status_simps)
  have "\<exists>m \<in> {Running, Pending, Rerouted}. can_transition_to s m \<or> s = m"
    using assms by (cases s) (simp_all add: status_simps)
  with run pen rer show ?thesis
    by (auto intro: converse_rtranclp_into_rtranclp)
qed

theorem success_reachable_witness: "can_transition_to\<^sup>*\<^sup>* ConcurrencyControlled Success"
  using success_reachable [of ConcurrencyControlled] by simp

text \<open>Printing and parsing a status round trip, for any \<^verbatim>\<open>to_uppercase\<close> that leaves
  strings of upper-case ASCII letters and underscores alone.\<close>

theorem status_display_parse:
  assumes "\<And>s. set s \<subseteq> insert CHR ''_'' (set ''ABCDEFGHIJKLMNOPQRSTUVWXYZ'') \<Longrightarrow> up s = s"
  shows "parse_status up (display_status st) = Some st"
proof -
  have "up (display_status st) = display_status st"
    by (rule assms) (cases st; simp)
  then show ?thesis by (cases st) (simp_all add: parse_status_def)
qed

theorem status_display_parse_witness: "parse_status id ''PENDING_RECOVERY'' = Some PendingRecovery"
  using status_display_parse [of id PendingRecovery] by simp

end
