(* ===== verification/Identifiers.thy ===== *)
theory Identifiers
  imports Rv_Prelude
begin

text \<open>
  Identifiers of \<^verbatim>\<open>rustvello-proto/src/identifiers.rs\<close>: task languages, executor kinds,
  the packed task id with its printer and parser, and the call id. Strings are byte strings, as
  the byte offsets of the code are. A failed \<^verbatim>\<open>assert!\<close> is the error value
  \<open>Panicked\<close>; the text of an error message is replaced by which check failed.
\<close>

section \<open>Searching in strings\<close>

text \<open>\<^verbatim>\<open>s.find("::")\<close>, as the pair of slices around the first occurrence.\<close>

fun split_dcolon :: "str \<Rightarrow> (str \<times> str) option" where
  "split_dcolon (a # b # s) =
     (if a = CHR '':'' \<and> b = CHR '':'' then Some ([], s)
      else map_option (apfst (Cons a)) (split_dcolon (b # s)))"
| "split_dcolon _ = None"

definition contains_dcolon :: "str \<Rightarrow> bool" where
  "contains_dcolon s \<longleftrightarrow> split_dcolon s \<noteq> None"

text \<open>\<^verbatim>\<open>s.rfind(c)\<close>, as the pair of slices around the last occurrence.\<close>

definition rsplit_char :: "char \<Rightarrow> str \<Rightarrow> (str \<times> str) option" where
  "rsplit_char c s =
     (if c \<in> set s
      then Some (rev (tl (dropWhile (\<lambda>x. x \<noteq> c) (rev s))), rev (takeWhile (\<lambda>x. x \<noteq> c) (rev s)))
      else None)"

lemma rsplit_char_append [simp]:
  "c \<notin> set n \<Longrightarrow> rsplit_char c (m @ c # n) = Some (m, n)"
proof -
  assume c: "c \<notin> set n"
  then have "takeWhile (\<lambda>x. x \<noteq> c) (rev n @ c # rev m) = rev n"
    by (subst takeWhile_append2) auto
  moreover have "dropWhile (\<lambda>x. x \<noteq> c) (rev n @ c # rev m) = c # rev m"
    using c by (subst dropWhile_append2) auto
  ultimately show ?thesis by (simp add: rsplit_char_def)
qed

lemma rsplit_char_Some: "rsplit_char c s = Some (m, n) \<Longrightarrow> s = m @ c # n \<and> c \<notin> set n"
proof -
  assume a: "rsplit_char c s = Some (m, n)"
  then have "c \<in> set s" by (auto simp: rsplit_char_def split: if_splits)
  then obtain m' n' where "s = m' @ c # n'" and "c \<notin> set n'"
    by (meson split_list_last)
  with a show ?thesis by simp
qed

lemma split_dcolon_append:
  "CHR '':'' \<notin> set l \<Longrightarrow> split_dcolon (l @ CHR '':'' # CHR '':'' # r) = Some (l, r)"
proof (induction l)
  case Nil
  then show ?case by simp
next
  case (Cons a l)
  then show ?case by (cases l) auto
qed

lemma split_dcolon_Some:
  "split_dcolon s = Some (l, r) \<Longrightarrow> s = l @ CHR '':'' # CHR '':'' # r"
  by (induction s arbitrary: l rule: split_dcolon.induct) (auto split: if_splits)

lemma contains_dcolon_infix: "contains_dcolon (l @ CHR '':'' # CHR '':'' # r)"
proof (induction l)
  case Nil
  then show ?case by (simp add: contains_dcolon_def)
next
  case (Cons a l)
  then show ?case by (cases l) (auto simp: contains_dcolon_def)
qed

section \<open>Languages and executors\<close>

datatype task_language = Rust | Python

fun language_as_str :: "task_language \<Rightarrow> str" where
  "language_as_str Rust = ''rust''"
| "language_as_str Python = ''python''"

datatype id_error =
    UnsupportedLanguage str
  | UnsupportedExecutor str
  | EmptyName
  | NameHasSeparator str
  | EmptyModule
  | ModuleHasSeparator str
  | EmptyTaskIdString
  | EmptyLanguage
  | NoDotSeparator str
  | Panicked

definition parse_language :: "str \<Rightarrow> id_error + task_language" where
  "parse_language s =
     (if s = ''rust'' \<or> s = ''Rust'' then Inr Rust
      else if s = ''python'' \<or> s = ''Python'' then Inr Python
      else Inl (UnsupportedLanguage s))"

datatype executor_kind = Tokio | TokioBlocking | Rayon | PythonExecutor

fun executor_as_str :: "executor_kind \<Rightarrow> str" where
  "executor_as_str Tokio = ''tokio''"
| "executor_as_str TokioBlocking = ''tokio_blocking''"
| "executor_as_str Rayon = ''rayon''"
| "executor_as_str PythonExecutor = ''python''"

definition parse_executor :: "str \<Rightarrow> id_error + executor_kind" where
  "parse_executor s =
     (if s = ''tokio'' then Inr Tokio
      else if s = ''tokio_blocking'' \<or> s = ''tokio-blocking'' then Inr TokioBlocking
      else if s = ''rayon'' then Inr Rayon
      else if s = ''python'' then Inr PythonExecutor
      else Inl (UnsupportedExecutor s))"

section \<open>Task ids\<close>

record task_id =
  tid_language :: task_language
  tid_packed :: str
  tid_module_end :: "16 word"

text \<open>\<^verbatim>\<open>from_parts\<close> asserts that the module's length fits in a \<^verbatim>\<open>u16\<close>.\<close>

definition task_id_from_parts :: "task_language \<Rightarrow> str \<Rightarrow> str \<Rightarrow> id_error + task_id" where
  "task_id_from_parts lang module name =
     (if length module \<le> 65535
      then Inr \<lparr>tid_language = lang, tid_packed = module @ name,
                tid_module_end = of_nat (length module)\<rparr>
      else Inl Panicked)"

definition try_for_language :: "task_language \<Rightarrow> str \<Rightarrow> str \<Rightarrow> id_error + task_id" where
  "try_for_language lang module name =
     (if name = [] then Inl EmptyName
      else if CHR ''.'' \<in> set name \<or> contains_dcolon name then Inl (NameHasSeparator name)
      else if module = [] then Inl EmptyModule
      else if contains_dcolon module then Inl (ModuleHasSeparator module)
      else task_id_from_parts lang module name)"

definition tid_module :: "task_id \<Rightarrow> str" where
  "tid_module t = take (unat (tid_module_end t)) (tid_packed t)"

definition tid_name :: "task_id \<Rightarrow> str" where
  "tid_name t = drop (unat (tid_module_end t)) (tid_packed t)"

definition config_key :: "task_id \<Rightarrow> str" where
  "config_key t =
     language_as_str (tid_language t) @ ''_'' @
     map (\<lambda>c. if c = CHR ''.'' then CHR ''_'' else c) (tid_module t) @ ''_'' @ tid_name t"

definition display_task_id :: "task_id \<Rightarrow> str" where
  "display_task_id t =
     language_as_str (tid_language t) @ ''::'' @ tid_module t @ ''.'' @ tid_name t"

definition parse_task_id :: "str \<Rightarrow> id_error + task_id" where
  "parse_task_id s =
     (if s = [] then Inl EmptyTaskIdString
      else
        (case (case split_dcolon s of
                 Some (lang, rest) \<Rightarrow>
                   (if lang = [] then Inl EmptyLanguage
                    else (case parse_language lang of
                            Inl e \<Rightarrow> Inl e
                          | Inr l \<Rightarrow> Inr (l, rest)))
               | None \<Rightarrow> Inr (Rust, s)) of
           Inl e \<Rightarrow> Inl e
         | Inr (lang, rest) \<Rightarrow>
             (case rsplit_char (CHR ''.'') rest of
                None \<Rightarrow> Inl (NoDotSeparator s)
              | Some (module, name) \<Rightarrow>
                  (if module = [] then Inl EmptyModule
                   else if name = [] then Inl EmptyName
                   else try_for_language lang module name))))"

text \<open>What every task id built by the public constructors satisfies.\<close>

definition valid_task_id :: "task_id \<Rightarrow> bool" where
  "valid_task_id t \<longleftrightarrow>
     unat (tid_module_end t) \<le> length (tid_packed t) \<and>
     tid_name t \<noteq> [] \<and> CHR ''.'' \<notin> set (tid_name t) \<and> \<not> contains_dcolon (tid_name t) \<and>
     tid_module t \<noteq> [] \<and> \<not> contains_dcolon (tid_module t)"

lemma unat_of_nat_u16: "n \<le> 65535 \<Longrightarrow> unat (of_nat n :: 16 word) = n"
  by (simp add: unsigned_of_nat take_bit_nat_eq_self)

lemma from_parts_accessors:
  assumes "task_id_from_parts l m n = Inr t"
  shows "tid_language t = l \<and> tid_module t = m \<and> tid_name t = n \<and> length m \<le> 65535"
  using assms
  by (auto simp: task_id_from_parts_def tid_module_def tid_name_def unat_of_nat_u16 split: if_splits)

lemma try_for_language_accessors:
  assumes "try_for_language l m n = Inr t"
  shows "tid_language t = l \<and> tid_module t = m \<and> tid_name t = n"
  using assms from_parts_accessors by (auto simp: try_for_language_def split: if_splits)

lemma try_for_language_valid:
  assumes "try_for_language l m n = Inr t"
  shows "valid_task_id t"
proof -
  have "unat (tid_module_end t) \<le> length (tid_packed t)"
    using assms
    by (auto simp: try_for_language_def task_id_from_parts_def unat_of_nat_u16 split: if_splits)
  then show ?thesis
    using try_for_language_accessors [OF assms] assms
    by (auto simp: valid_task_id_def try_for_language_def split: if_splits)
qed

lemma valid_task_id_rebuild:
  assumes "valid_task_id t"
  shows "try_for_language (tid_language t) (tid_module t) (tid_name t) = Inr t"
proof -
  have le: "unat (tid_module_end t) \<le> length (tid_packed t)"
    using assms by (simp add: valid_task_id_def)
  have len: "length (tid_module t) = unat (tid_module_end t)"
    using le by (simp add: tid_module_def)
  have "length (tid_module t) \<le> 65535"
    unfolding len using unsigned_less [of "tid_module_end t"] by (simp add: less_Suc_eq_le [symmetric])
  moreover have "of_nat (length (tid_module t)) = tid_module_end t"
    using len by simp
  moreover have "tid_module t @ tid_name t = tid_packed t"
    by (simp add: tid_module_def tid_name_def)
  ultimately have "task_id_from_parts (tid_language t) (tid_module t) (tid_name t) = Inr t"
    by (simp add: task_id_from_parts_def)
  with assms show ?thesis by (simp add: try_for_language_def valid_task_id_def)
qed

lemma language_no_colon: "CHR '':'' \<notin> set (language_as_str l) \<and> language_as_str l \<noteq> []"
  by (cases l) simp_all

lemma parse_language_str: "parse_language (language_as_str l) = Inr l"
  by (cases l) (simp_all add: parse_language_def)

lemma display_split:
  "split_dcolon (display_task_id t) =
     Some (language_as_str (tid_language t), tid_module t @ CHR ''.'' # tid_name t)"
  using split_dcolon_append [of "language_as_str (tid_language t)"] language_no_colon
  by (simp add: display_task_id_def)

lemma parse_display_task_id:
  assumes "valid_task_id t"
  shows "parse_task_id (display_task_id t) = Inr t"
proof -
  have nodot: "CHR ''.'' \<notin> set (tid_name t)" and ne: "tid_module t \<noteq> []" "tid_name t \<noteq> []"
    using assms by (auto simp: valid_task_id_def)
  have "display_task_id t \<noteq> []" by (simp add: display_task_id_def)
  then show ?thesis
    using nodot ne language_no_colon [of "tid_language t"] valid_task_id_rebuild [OF assms]
    by (simp add: parse_task_id_def display_split parse_language_str)
qed

lemma display_task_id_inj:
  assumes "valid_task_id t" and "valid_task_id u" and "display_task_id t = display_task_id u"
  shows "t = u"
proof -
  have "Inr t = parse_task_id (display_task_id t)"
    using parse_display_task_id [OF assms(1)] by (rule sym)
  also have "\<dots> = (Inr u :: id_error + task_id)"
    using parse_display_task_id [OF assms(2)] assms(3) by simp
  finally show ?thesis by simp
qed

lemma parse_task_id_valid: "parse_task_id s = Inr t \<Longrightarrow> valid_task_id t"
  by (simp add: parse_task_id_def split: if_splits option.splits sum.splits prod.splits)
    (blast intro: try_for_language_valid)+

text \<open>A task id used in the examples of the development.\<close>

definition ex_task :: task_id where
  "ex_task = \<lparr>tid_language = Rust, tid_packed = ''mf'', tid_module_end = 1\<rparr>"

lemma ex_task_valid: "valid_task_id ex_task"
  by (rule try_for_language_valid [of Rust "''m''" "''f''"])
    (simp add: try_for_language_def task_id_from_parts_def contains_dcolon_def ex_task_def)

section \<open>Call ids\<close>

record call_id =
  cid_task_id :: task_id
  cid_args_id :: str

definition call_id_new :: "task_id \<Rightarrow> str \<Rightarrow> call_id" where
  "call_id_new t a = \<lparr>cid_task_id = t, cid_args_id = a\<rparr>"

definition display_call_id :: "call_id \<Rightarrow> str" where
  "display_call_id c = display_task_id (cid_task_id c) @ '':'' @ cid_args_id c"

datatype call_id_error = CallIdFormat str | CallIdTask id_error

definition parse_call_id :: "str \<Rightarrow> call_id_error + call_id" where
  "parse_call_id s =
     (case rsplit_char (CHR '':'') s of
        None \<Rightarrow> Inl (CallIdFormat s)
      | Some (task_str, args) \<Rightarrow>
          (if args = [] then Inl (CallIdFormat s)
           else (case parse_task_id task_str of
                   Inl e \<Rightarrow> Inl (CallIdTask e)
                 | Inr t \<Rightarrow> Inr (call_id_new t args))))"

definition valid_call_id :: "call_id \<Rightarrow> bool" where
  "valid_call_id c \<longleftrightarrow>
     valid_task_id (cid_task_id c) \<and> cid_args_id c \<noteq> [] \<and> CHR '':'' \<notin> set (cid_args_id c)"

lemma parse_display_call_id:
  assumes "valid_call_id c"
  shows "parse_call_id (display_call_id c) = Inr c"
  using assms
  by (simp add: parse_call_id_def display_call_id_def valid_call_id_def parse_display_task_id
      call_id_new_def)

lemma display_call_id_inj:
  assumes "valid_call_id c" and "valid_call_id d" and "display_call_id c = display_call_id d"
  shows "c = d"
proof -
  have "Inr c = parse_call_id (display_call_id c)"
    using parse_display_call_id [OF assms(1)] by (rule sym)
  also have "\<dots> = (Inr d :: call_id_error + call_id)"
    using parse_display_call_id [OF assms(2)] assms(3) by simp
  finally show ?thesis by simp
qed

section \<open>Properties\<close>

text \<open>Task ids round trip: whatever the fallible constructor accepts is printed as
  \<^verbatim>\<open>language::module.name\<close> and parsed back to the same id, with the three components it was
  built from.\<close>

lemma task_id_round_trip:
  assumes "try_for_language l m n = Inr t"
  shows "parse_task_id (display_task_id t) = Inr t \<and>
         tid_language t = l \<and> tid_module t = m \<and> tid_name t = n"
  using parse_display_task_id [OF try_for_language_valid [OF assms]]
    try_for_language_accessors [OF assms] by simp

text \<open>The in-memory indexes are keyed by the printed task id: two valid ids with the same
  printed form are the same id, so no two tasks share an index entry; and parsing only ever yields
  valid ids.\<close>

theorem printed_task_ids_are_keys:
  assumes "parse_task_id s = Inr t" and "parse_task_id s' = Inr u"
  shows "(display_task_id t = display_task_id u) = (t = u)"
  using display_task_id_inj parse_task_id_valid [OF assms(1)] parse_task_id_valid [OF assms(2)]
  by blast

theorem printed_task_ids_are_keys_witness:
  "(display_task_id \<lparr>tid_language = Rust, tid_packed = ''mf'', tid_module_end = 1\<rparr> =
    display_task_id \<lparr>tid_language = Rust, tid_packed = ''mg'', tid_module_end = 1\<rparr>) = False"
proof -
  have 1: "parse_task_id ''m.f'' = Inr \<lparr>tid_language = Rust, tid_packed = ''mf'', tid_module_end = 1\<rparr>"
    by (simp add: parse_task_id_def rsplit_char_def try_for_language_def task_id_from_parts_def
        contains_dcolon_def)
  have 2: "parse_task_id ''m.g'' = Inr \<lparr>tid_language = Rust, tid_packed = ''mg'', tid_module_end = 1\<rparr>"
    by (simp add: parse_task_id_def rsplit_char_def try_for_language_def task_id_from_parts_def
        contains_dcolon_def)
  from printed_task_ids_are_keys [OF 1 2] show ?thesis by simp
qed

text \<open>The constructor documented as fallible can still panic: it returns the panic value exactly
  when the components pass every check and the module is longer than 65535 bytes.\<close>

theorem try_for_language_panics_iff:
  "(try_for_language l m n = Inl Panicked) =
     (n \<noteq> [] \<and> CHR ''.'' \<notin> set n \<and> \<not> contains_dcolon n \<and> \<not> contains_dcolon m \<and> 65535 < length m)"
  by (auto simp: try_for_language_def task_id_from_parts_def)

end
