(* ===== verification/Calls.thy ===== *)
theory Calls
  imports Identifiers
begin

text \<open>
  Calls and their arguments: \<^verbatim>\<open>rustvello-proto/src/call.rs\<close> and
  \<^verbatim>\<open>hex.rs\<close>, the concurrency modes of \<^verbatim>\<open>status/concurrency.rs\<close> with the key
  projection \<^verbatim>\<open>concurrency_arguments\<close> of \<^verbatim>\<open>rustvello/src/task_config.rs\<close>, and the
  idempotency-key ids of \<^verbatim>\<open>identifiers.rs\<close>. A \<^verbatim>\<open>BTreeMap<String, String>\<close> is an
  association list with strictly increasing keys. SHA-256, UUID v5 and the JSON string printer
  are parameters.
\<close>

section \<open>Hexadecimal\<close>

definition hex_digit :: "nat \<Rightarrow> char" where
  "hex_digit n = ''0123456789abcdef'' ! (n mod 16)"

definition lower_hex :: "str \<Rightarrow> str" where
  "lower_hex bytes = concat (map (\<lambda>b. [hex_digit (of_char b div 16), hex_digit (of_char b)]) bytes)"

lemma hex_digit_lt: "n < 16 \<Longrightarrow> m < 16 \<Longrightarrow> hex_digit n = hex_digit m \<Longrightarrow> n = m"
proof -
  have d: "distinct ''0123456789abcdef''" and l: "length ''0123456789abcdef'' = 16" by simp_all
  assume "n < 16" "m < 16" "hex_digit n = hex_digit m"
  then show "n = m"
    using nth_eq_iff_index_eq [OF d] l by (simp add: hex_digit_def del: nth_Cons_numeral)
qed

lemma hex_digit_mem: "hex_digit n \<in> set ''0123456789abcdef''"
proof -
  have "n mod 16 < length ''0123456789abcdef''" by simp
  then show ?thesis unfolding hex_digit_def by (rule nth_mem)
qed

lemma hex_pair_inj:
  fixes a b :: char
  assumes "hex_digit (of_char a div 16) = hex_digit (of_char b div 16)"
    and "hex_digit (of_char a) = hex_digit (of_char b)"
  shows "a = b"
proof -
  have lt: "of_char a < (256 :: nat)" "of_char b < (256 :: nat)"
    by (simp_all add: nat_of_char_less_256)
  have "of_char a div 16 = (of_char b div 16 :: nat)"
    using assms(1) lt by (intro hex_digit_lt) (auto intro: less_mult_imp_div_less)
  moreover have "of_char a mod 16 = (of_char b mod 16 :: nat)"
    using assms(2) by (intro hex_digit_lt) (auto simp: hex_digit_def)
  ultimately have "of_char a = (of_char b :: nat)"
    by (metis div_mult_mod_eq)
  then show ?thesis by simp
qed

lemma length_lower_hex [simp]: "length (lower_hex bs) = 2 * length bs"
  by (induction bs) (simp_all add: lower_hex_def)

lemma lower_hex_inj: "lower_hex xs = lower_hex ys \<Longrightarrow> xs = ys"
proof (induction xs arbitrary: ys)
  case Nil
  then show ?case by (cases ys) (auto simp: lower_hex_def)
next
  case (Cons x xs)
  then show ?case by (cases ys) (auto simp: lower_hex_def intro: hex_pair_inj)
qed

lemma lower_hex_set: "set (lower_hex bs) \<subseteq> set ''0123456789abcdef''"
proof
  fix x assume "x \<in> set (lower_hex bs)"
  then obtain n where "x = hex_digit n" by (auto simp: lower_hex_def)
  then show "x \<in> set ''0123456789abcdef''" using hex_digit_mem by simp
qed

section \<open>Serialized arguments\<close>

type_synonym serialized_arguments = "(str \<times> str) list"

definition args_wf :: "serialized_arguments \<Rightarrow> bool" where
  "args_wf a \<longleftrightarrow> sorted_wrt (<) (map fst a)"

fun args_insert :: "str \<Rightarrow> str \<Rightarrow> serialized_arguments \<Rightarrow> serialized_arguments" where
  "args_insert k v [] = [(k, v)]"
| "args_insert k v ((k', v') # a) =
     (if k < k' then (k, v) # (k', v') # a
      else if k = k' then (k, v) # a
      else (k', v') # args_insert k v a)"

text \<open>The bytes that \<^verbatim>\<open>compute_args_id\<close> feeds to the hasher.\<close>

definition args_preimage :: "(str \<Rightarrow> str) \<Rightarrow> serialized_arguments \<Rightarrow> str" where
  "args_preimage json a = concat (map (\<lambda>(k, v). json k @ ''='' @ json v @ '';'') a)"

definition compute_args_id :: "(str \<Rightarrow> str) \<Rightarrow> (str \<Rightarrow> str) \<Rightarrow> serialized_arguments \<Rightarrow> str" where
  "compute_args_id sha json a =
     (if a = [] then ''no_args'' else lower_hex (sha (args_preimage json a)))"

definition cc_arg_pairs :: "serialized_arguments \<Rightarrow> (str \<times> str) list" where
  "cc_arg_pairs a = (if a = [] then [([], [])] else a)"

definition cc_key :: "(str \<Rightarrow> str) \<Rightarrow> (str \<Rightarrow> str) \<Rightarrow> serialized_arguments option \<Rightarrow> str" where
  "cc_key sha json args =
     (case args of
        None \<Rightarrow> []
      | Some a \<Rightarrow> (if a = [] then [] else compute_args_id sha json a))"

datatype argument_print_mode = Full | Keys | Truncated | Hidden

fun join :: "str \<Rightarrow> str list \<Rightarrow> str" where
  "join sep [] = []"
| "join sep [x] = x"
| "join sep (x # xs) = x @ sep @ join sep xs"

text \<open>
  \<^verbatim>\<open>char_indices\<close>: the byte offsets where a character of UTF-8 text starts, which are those
  of the bytes that are not continuation bytes.
\<close>

definition char_starts :: "str \<Rightarrow> nat list" where
  "char_starts s = filter (\<lambda>i. (of_char (s ! i) :: nat) div 64 \<noteq> 2) [0..<length s]"

definition truncate_at :: "nat \<Rightarrow> str \<Rightarrow> str" where
  "truncate_at n v =
     (let ends = char_starts v in take (if n < length ends then ends ! n else length v) v)"

definition display_arguments :: "argument_print_mode \<Rightarrow> nat \<Rightarrow> serialized_arguments \<Rightarrow> str" where
  "display_arguments mode n a =
     (if a = [] then ''<no_args>''
      else (case mode of
              Hidden \<Rightarrow> ''<arguments hidden>''
            | Keys \<Rightarrow> ''{'' @ join '', '' (map fst a) @ ''}''
            | Full \<Rightarrow> ''{'' @ join '', '' (map (\<lambda>(k, v). k @ '': '' @ v) a) @ ''}''
            | Truncated \<Rightarrow>
                ''{'' @ join '', ''
                  (map (\<lambda>(k, v). if n < length v then k @ '': '' @ truncate_at n v @ ''...''
                                  else k @ '': '' @ v) a) @ ''}''))"

record call_dto =
  cd_call_id :: call_id
  cd_task_id :: task_id
  cd_serialized_arguments :: serialized_arguments

definition call_dto_new ::
    "(str \<Rightarrow> str) \<Rightarrow> (str \<Rightarrow> str) \<Rightarrow> task_id \<Rightarrow> serialized_arguments \<Rightarrow> call_dto" where
  "call_dto_new sha json t a =
     \<lparr>cd_call_id = call_id_new t (compute_args_id sha json a), cd_task_id = t,
      cd_serialized_arguments = a\<rparr>"

section \<open>Concurrency modes\<close>

datatype concurrency_control_type = Unlimited | TaskCC | ArgumentCC | NoneCC

fun display_cc :: "concurrency_control_type \<Rightarrow> str" where
  "display_cc Unlimited = ''Unlimited''"
| "display_cc TaskCC = ''Task''"
| "display_cc ArgumentCC = ''Argument''"
| "display_cc NoneCC = ''None''"

definition parse_cc :: "(str \<Rightarrow> str) \<Rightarrow> str \<Rightarrow> concurrency_control_type option" where
  "parse_cc up s =
     (let u = up s in
      if u = ''UNLIMITED'' \<or> u = ''DISABLED'' then Some Unlimited
      else if u = ''TASK'' then Some TaskCC
      else if u = ''ARGUMENT'' \<or> u = ''ARGUMENTS'' \<or> u = ''KEYS'' then Some ArgumentCC
      else if u = ''NONE'' then Some NoneCC
      else None)"

definition concurrency_arguments ::
    "concurrency_control_type \<Rightarrow> str list \<Rightarrow> serialized_arguments \<Rightarrow> serialized_arguments option" where
  "concurrency_arguments mode key_arguments a =
     (case mode of
        Unlimited \<Rightarrow> None
      | TaskCC \<Rightarrow> Some []
      | ArgumentCC \<Rightarrow>
          (if key_arguments = [] then Some a
           else Some (fold (\<lambda>key filtered.
                        case map_of a key of
                          None \<Rightarrow> filtered
                        | Some v \<Rightarrow> args_insert key v filtered) key_arguments []))
      | NoneCC \<Rightarrow> Some a)"

section \<open>Idempotency keys\<close>

text \<open>\<^verbatim>\<open>InvocationId::from_key\<close>; the parameter is UUID v5 in the fixed namespace.\<close>

definition from_key :: "(str \<Rightarrow> str) \<Rightarrow> task_id \<Rightarrow> str \<Rightarrow> str" where
  "from_key uuid5 t key = uuid5 (display_task_id t @ ''\<newline>'' @ key)"

section \<open>Insertion into the sorted map\<close>

lemma args_insert_keys: "set (map fst (args_insert k v a)) = insert k (set (map fst a))"
proof (induction a)
  case Nil
  then show ?case by simp
next
  case (Cons p a)
  then show ?case by (cases p) (simp add: insert_commute insert_absorb2)
qed

lemma args_insert_wf: "args_wf a \<Longrightarrow> args_wf (args_insert k v a)"
proof (induction a)
  case Nil
  then show ?case by (simp add: args_wf_def)
next
  case (Cons p a)
  obtain k' v' where p: "p = (k', v')" by force
  have "args_wf (args_insert k v a)" using Cons by (simp add: args_wf_def)
  then show ?case
    using Cons.prems args_insert_keys [of k v a] by (auto simp: args_wf_def p)
qed

lemma args_insert_lookup: "args_wf a \<Longrightarrow> map_of (args_insert k v a) = (map_of a)(k \<mapsto> v)"
  by (induction a) (auto simp: args_wf_def fun_eq_iff)

lemma args_wf_distinct: "args_wf a \<Longrightarrow> distinct (map fst a)"
  by (simp add: args_wf_def strict_sorted_iff)

lemma args_wf_ext:
  assumes "args_wf a" and "args_wf b" and "map_of a = map_of b"
  shows "a = b"
proof -
  have da: "distinct (map fst a)" and db: "distinct (map fst b)"
    using assms by (simp_all add: args_wf_distinct)
  then have s: "set a = set b" using assms(3) by (simp add: map_of_inject_set)
  then have "map fst a = map fst b"
    using assms(1,2) by (intro strict_sorted_equal) (auto simp: args_wf_def)
  then show ?thesis using s da by (metis inj_on_map_eq_map distinct_map sup.idem set_append)
qed

lemma args_build:
  assumes "args_wf a"
  shows "args_wf (fold (\<lambda>(k, v). args_insert k v) kvs a) \<and>
         map_of (fold (\<lambda>(k, v). args_insert k v) kvs a) = map_of a ++ map_of (rev kvs)"
  using assms
proof (induction kvs arbitrary: a)
  case Nil
  then show ?case by simp
next
  case (Cons p kvs)
  obtain k v where p: "p = (k, v)" by force
  have "map_of (args_insert k v a) = map_of a ++ map_of [(k, v)]"
    using Cons.prems by (simp add: args_insert_lookup)
  then show ?case
    using Cons.IH [OF args_insert_wf [OF Cons.prems]] unfolding p
    by (simp only: fold_Cons comp_apply prod.case rev.simps map_of_append map_add_assoc simp_thms)
qed


section \<open>The JSON printer\<close>

text \<open>
  A JSON string literal is self-delimiting and determines the string: its closing quote is its
  first unescaped one. \<open>quote_all\<close> is one such printer.
\<close>

definition json_string_ok :: "(str \<Rightarrow> str) \<Rightarrow> bool" where
  "json_string_ok json \<longleftrightarrow> (\<forall>a b r r'. json a @ r = json b @ r' \<longrightarrow> a = b \<and> r = r')"

definition quote_all :: "str \<Rightarrow> str" where
  "quote_all s = CHR 0x22 # concat (map (\<lambda>c. [CHR 0x5C, c]) s) @ [CHR 0x22]"

lemma quote_all_ok: "json_string_ok quote_all"
proof -
  have *: "a = b \<and> r = r'"
    if "concat (map (\<lambda>c. [CHR 0x5C, c]) a) @ CHR 0x22 # r =
        concat (map (\<lambda>c. [CHR 0x5C, c]) b) @ CHR 0x22 # r'" for a b r r' :: str
    using that
  proof (induction a arbitrary: b)
    case Nil
    then show ?case by (cases b) auto
  next
    case (Cons c a)
    then show ?case by (cases b) auto
  qed
  show ?thesis
    unfolding json_string_ok_def
  proof (intro allI impI)
    fix a b r r' assume "quote_all a @ r = quote_all b @ r'"
    then show "a = b \<and> r = r'" by (intro *) (simp add: quote_all_def)
  qed
qed

lemma json_string_cancel:
  "json_string_ok json \<Longrightarrow> (json a @ r = json b @ r') = (a = b \<and> r = r')"
  unfolding json_string_ok_def by blast

lemma json_string_ne: "json_string_ok json \<Longrightarrow> json a \<noteq> []"
proof
  assume ok: "json_string_ok json" and "json a = []"
  then have "json a @ (json ''x'') = json ''x'' @ []" by simp
  moreover have "json a @ json ''y'' = json ''y'' @ []" using \<open>json a = []\<close> by simp
  ultimately have "a = ''x''" "a = ''y''" using json_string_cancel [OF ok] by blast+
  then show False by simp
qed

lemma args_preimage_inj:
  assumes ok: "json_string_ok json" and eq: "args_preimage json a = args_preimage json b"
  shows "a = b"
  using eq
proof (induction a arbitrary: b)
  case Nil
  then show ?case using json_string_ne [OF ok] by (cases b) (auto simp: args_preimage_def)
next
  case (Cons p a)
  obtain q b' where b: "b = q # b'"
    using Cons.prems json_string_ne [OF ok] by (cases b) (auto simp: args_preimage_def split: prod.splits)
  then show ?case
    using Cons by (cases p; cases q)
      (simp add: args_preimage_def json_string_cancel [OF ok])
qed

lemma args_id_chars:
  assumes "\<forall>x. length (sha x) = 32"
  shows "CHR '':'' \<notin> set (compute_args_id sha json a) \<and> compute_args_id sha json a \<noteq> []"
proof (cases "a = []")
  case True
  then show ?thesis by (simp add: compute_args_id_def)
next
  case False
  have "CHR '':'' \<notin> set (lower_hex (sha (args_preimage json a)))"
    using lower_hex_set [of "sha (args_preimage json a)"] by auto
  moreover have "lower_hex (sha (args_preimage json a)) \<noteq> []"
  proof
    assume "lower_hex (sha (args_preimage json a)) = []"
    then have "length (lower_hex (sha (args_preimage json a))) = 0" by (simp only: list.size)
    then show False using assms by simp
  qed
  ultimately show ?thesis using False by (simp add: compute_args_id_def)
qed

lemma key_filter:
  "args_wf f0 \<Longrightarrow>
   args_wf (fold (\<lambda>key f. case map_of a key of None \<Rightarrow> f | Some v \<Rightarrow> args_insert key v f) ks f0) \<and>
   map_of (fold (\<lambda>key f. case map_of a key of None \<Rightarrow> f | Some v \<Rightarrow> args_insert key v f) ks f0) =
     map_of f0 ++ (map_of a |` set ks)"
proof (induction ks arbitrary: f0)
  case Nil
  then show ?case by simp
next
  case (Cons k ks)
  let ?g = "case map_of a k of None \<Rightarrow> f0 | Some v \<Rightarrow> args_insert k v f0"
  have wf: "args_wf ?g" using Cons.prems by (simp add: args_insert_wf split: option.splits)
  have "map_of ?g ++ (map_of a |` set ks) = map_of f0 ++ (map_of a |` set (k # ks))"
    using args_insert_lookup [OF Cons.prems]
    by (auto simp: fun_eq_iff map_add_def restrict_map_def split: option.splits)
  then show ?case using Cons.IH [OF wf] by simp
qed

section \<open>Properties\<close>

text \<open>The argument hash does not depend on the order in which arguments were inserted: two
  insertion sequences with the same set of pairs and no repeated key build the same map, and so the
  same \<^verbatim>\<open>args_id\<close>.\<close>

theorem args_id_order_independent:
  assumes "distinct (map fst kvs)" and "distinct (map fst kvs')" and "set kvs = set kvs'"
  shows "compute_args_id sha json (fold (\<lambda>(k, v). args_insert k v) kvs []) =
         compute_args_id sha json (fold (\<lambda>(k, v). args_insert k v) kvs' [])"
proof -
  have "map_of (rev kvs) = map_of (rev kvs')"
    using assms by (simp add: map_of_inject_set rev_map [symmetric])
  then have "fold (\<lambda>(k, v). args_insert k v) kvs [] = fold (\<lambda>(k, v). args_insert k v) kvs' []"
    using args_build [of "[]" kvs] args_build [of "[]" kvs'] by (intro args_wf_ext) (auto simp: args_wf_def)
  then show ?thesis by simp
qed

theorem args_id_order_independent_witness:
  "compute_args_id id id (args_insert ''b'' ''2'' (args_insert ''a'' ''1'' [])) =
   compute_args_id id id (args_insert ''a'' ''1'' (args_insert ''b'' ''2'' []))"
  using args_id_order_independent [of "[(''a'', ''1''), (''b'', ''2'')]" "[(''b'', ''2''), (''a'', ''1'')]" id id]
  by (simp add: insert_commute)

text \<open>Two different argument maps get the same \<^verbatim>\<open>args_id\<close> only through a collision of
  SHA-256: escaping keys and values makes the hashed bytes determine the arguments, and the
  sentinel for no arguments is not a digest.\<close>

theorem args_id_collision_is_sha_collision:
  assumes "json_string_ok json" and "\<forall>x. length (sha x) = 32"
    and "compute_args_id sha json a = compute_args_id sha json b"
  shows "a = b \<or>
         (args_preimage json a \<noteq> args_preimage json b \<and>
          sha (args_preimage json a) = sha (args_preimage json b))"
proof -
  have "length ''no_args'' \<noteq> length (lower_hex (sha x))" for x using assms(2) by simp
  then have ne: "''no_args'' \<noteq> lower_hex (sha x)" for x by metis
  show ?thesis
  proof (cases "a = [] \<or> b = []")
    case True
    then show ?thesis using assms(3) ne unfolding compute_args_id_def by metis
  next
    case False
    then have "lower_hex (sha (args_preimage json a)) = lower_hex (sha (args_preimage json b))"
      using assms(3) by (simp add: compute_args_id_def)
    then have "sha (args_preimage json a) = sha (args_preimage json b)" by (rule lower_hex_inj)
    then show ?thesis using args_preimage_inj [OF assms(1), of a b] by blast
  qed
qed

theorem args_id_collision_is_sha_collision_witness:
  "args_preimage quote_all [(''a'', ''1'')] \<noteq> args_preimage quote_all [(''a'', ''2'')] \<and>
   (\<lambda>_. replicate 32 CHR ''x'') (args_preimage quote_all [(''a'', ''1'')]) =
   (\<lambda>_. replicate 32 CHR ''x'') (args_preimage quote_all [(''a'', ''2'')])"
  using args_id_collision_is_sha_collision [of quote_all "\<lambda>_. replicate 32 CHR ''x''"
      "[(''a'', ''1'')]" "[(''a'', ''2'')]"] quote_all_ok
  by (simp add: compute_args_id_def)

text \<open>The call id of a call built by \<^verbatim>\<open>CallDTO::new\<close> on a valid task id round trips
  through its printed form, which is what the call index stores.\<close>

theorem call_id_round_trip:
  assumes "valid_task_id t" and "\<forall>x. length (sha x) = 32"
  shows "parse_call_id (display_call_id (cd_call_id (call_dto_new sha json t a))) =
         Inr (cd_call_id (call_dto_new sha json t a))"
  using assms(1) args_id_chars [OF assms(2), of json a]
  by (intro parse_display_call_id) (simp add: valid_call_id_def call_dto_new_def call_id_new_def)

theorem call_id_round_trip_witness:
  "parse_call_id (display_call_id (cd_call_id
      (call_dto_new (\<lambda>_. replicate 32 CHR ''x'') quote_all ex_task []))) =
   Inr \<lparr>cid_task_id = ex_task, cid_args_id = ''no_args''\<rparr>"
  using call_id_round_trip [OF ex_task_valid, of "\<lambda>_. replicate 32 CHR ''x''" quote_all "[]"]
  by (simp add: call_dto_new_def call_id_new_def compute_args_id_def)

text \<open>Argument-keyed concurrency control: when key arguments are configured, two calls get the
  same concurrency key exactly when they agree on every key argument (a missing one included).\<close>

theorem argument_key_agreement:
  assumes "ks \<noteq> []"
  shows "(concurrency_arguments ArgumentCC ks a = concurrency_arguments ArgumentCC ks b) =
         (\<forall>k. k \<in> set ks \<longrightarrow> map_of a k = map_of b k)"
proof -
  let ?f = "\<lambda>a. fold (\<lambda>key f. case map_of a key of None \<Rightarrow> f | Some v \<Rightarrow> args_insert key v f) ks []"
  have m: "args_wf (?f a) \<and> map_of (?f a) = map_of a |` set ks" for a
    using key_filter [of "[]"] by (simp add: args_wf_def)
  have "(?f a = ?f b) = (map_of a |` set ks = map_of b |` set ks)"
  proof
    assume "?f a = ?f b"
    then show "map_of a |` set ks = map_of b |` set ks" using m [of a] m [of b] by simp
  next
    assume "map_of a |` set ks = map_of b |` set ks"
    then show "?f a = ?f b" using m [of a] m [of b] by (intro args_wf_ext) simp_all
  qed
  also have "\<dots> = (\<forall>k. k \<in> set ks \<longrightarrow> map_of a k = map_of b k)"
    by (auto simp: fun_eq_iff restrict_map_def)
  finally show ?thesis using assms by (simp add: concurrency_arguments_def)
qed

theorem argument_key_agreement_witness:
  "concurrency_arguments ArgumentCC [''k''] [(''a'', ''1''), (''k'', ''v'')] =
   concurrency_arguments ArgumentCC [''k''] [(''a'', ''2''), (''k'', ''v'')]"
  using argument_key_agreement [of "[''k'']" "[(''a'', ''1''), (''k'', ''v'')]" "[(''a'', ''2''), (''k'', ''v'')]"]
  by simp

text \<open>One idempotency key used with two different valid tasks names two different
  invocations, unless UUID v5 collides on two different names.\<close>

theorem from_key_separates_tasks:
  assumes "valid_task_id t" and "valid_task_id u" and "from_key uuid5 t key = from_key uuid5 u key"
  shows "t = u \<or> (\<exists>x y. x \<noteq> y \<and> uuid5 x = uuid5 y)"
proof (cases "display_task_id t = display_task_id u")
  case True
  then show ?thesis using display_task_id_inj [OF assms(1,2)] by simp
next
  case False
  then have "display_task_id t @ ''\<newline>'' @ key \<noteq> display_task_id u @ ''\<newline>'' @ key" by simp
  then show ?thesis using assms(3) unfolding from_key_def by blast
qed

theorem from_key_separates_tasks_witness:
  "let t = \<lparr>tid_language = Rust, tid_packed = ''mf'', tid_module_end = 1\<rparr>;
       u = \<lparr>tid_language = Rust, tid_packed = ''mg'', tid_module_end = 1\<rparr>
   in from_key id t ''k'' \<noteq> from_key id u ''k''"
proof -
  have t: "valid_task_id \<lparr>tid_language = Rust, tid_packed = ''mf'', tid_module_end = 1\<rparr>"
    by (rule try_for_language_valid [of Rust "''m''" "''f''"])
      (simp add: try_for_language_def task_id_from_parts_def contains_dcolon_def)
  have u: "valid_task_id \<lparr>tid_language = Rust, tid_packed = ''mg'', tid_module_end = 1\<rparr>"
    by (rule try_for_language_valid [of Rust "''m''" "''g''"])
      (simp add: try_for_language_def task_id_from_parts_def contains_dcolon_def)
  from from_key_separates_tasks [OF t u, of id "''k''"] show ?thesis by (auto simp: Let_def)
qed

end
