(* ===== verification/F64_Bits.thy ===== *)
theory F64_Bits
  imports Rv_Prelude
begin

text \<open>
  The operations on \<^verbatim>\<open>f64\<close> that broker priorities need, on the 64-bit pattern of IEEE 754:
  \<^verbatim>\<open>is_finite\<close>, \<^verbatim>\<open>is_nan\<close>, the comparison \<^verbatim>\<open><=\<close> and the total order
  \<^verbatim>\<open>total_cmp\<close>. No arithmetic on floats is modelled.
\<close>

type_synonym f64 = "64 word"

definition f64_negative :: "f64 \<Rightarrow> bool" where
  "f64_negative w \<longleftrightarrow> 2 ^ 63 \<le> uint w"

definition f64_magnitude :: "f64 \<Rightarrow> int" where
  "f64_magnitude w = uint w mod 2 ^ 63"

text \<open>The pattern of positive infinity; finite magnitudes are below it, NaNs above.\<close>

definition f64_inf_magnitude :: int where
  "f64_inf_magnitude = 0x7FF0000000000000"

definition f64_is_finite :: "f64 \<Rightarrow> bool" where
  "f64_is_finite w \<longleftrightarrow> f64_magnitude w < f64_inf_magnitude"

definition f64_is_nan :: "f64 \<Rightarrow> bool" where
  "f64_is_nan w \<longleftrightarrow> f64_inf_magnitude < f64_magnitude w"

text \<open>The position of a number on the line, with the two zeros at the same place.\<close>

definition f64_rank :: "f64 \<Rightarrow> int" where
  "f64_rank w = (if f64_negative w then - f64_magnitude w else f64_magnitude w)"

definition f64_le :: "f64 \<Rightarrow> f64 \<Rightarrow> bool" where
  "f64_le a b \<longleftrightarrow> \<not> f64_is_nan a \<and> \<not> f64_is_nan b \<and> f64_rank a \<le> f64_rank b"

definition f64_eq :: "f64 \<Rightarrow> f64 \<Rightarrow> bool" where
  "f64_eq a b \<longleftrightarrow> \<not> f64_is_nan a \<and> \<not> f64_is_nan b \<and> f64_rank a = f64_rank b"

text \<open>\<^verbatim>\<open>total_cmp\<close> compares these keys: negative patterns in reverse, below all others.\<close>

definition f64_total_key :: "f64 \<Rightarrow> int" where
  "f64_total_key w = (if f64_negative w then - 1 - f64_magnitude w else f64_magnitude w)"

lemma f64_magnitude_nonneg: "0 \<le> f64_magnitude w"
  by (simp add: f64_magnitude_def)

lemma split_top_bit:
  fixes u m :: int
  assumes "0 \<le> u" and "u < 2 * m"
  shows "u = (if m \<le> u then m else 0) + u mod m"
proof (cases "m \<le> u")
  case True
  have "u mod m = (u - m) mod m" by simp
  also have "\<dots> = u - m" using assms True by (intro mod_pos_pos_trivial) auto
  finally show ?thesis using True by simp
next
  case False
  then show ?thesis using assms by simp
qed

lemma f64_uint: "uint w = (if f64_negative w then 2 ^ 63 else 0) + f64_magnitude w"
proof -
  have "uint w < 2 * 2 ^ 63" using unsigned_less [of w, where ?'a = int] by simp
  then show ?thesis
    unfolding f64_negative_def f64_magnitude_def by (intro split_top_bit) simp_all
qed

lemma f64_total_key_inj: "f64_total_key a = f64_total_key b \<Longrightarrow> a = b"
proof -
  assume k: "f64_total_key a = f64_total_key b"
  have "f64_negative a = f64_negative b \<and> f64_magnitude a = f64_magnitude b"
    using k f64_magnitude_nonneg [of a] f64_magnitude_nonneg [of b]
    by (auto simp: f64_total_key_def split: if_splits)
  then have "uint a = uint b" by (simp add: f64_uint)
  then show "a = b" by (rule word_uint_eq_iff [THEN iffD2])
qed

lemma f64_total_key_rank: "f64_total_key a \<le> f64_total_key b \<Longrightarrow> f64_rank a \<le> f64_rank b"
  using f64_magnitude_nonneg [of a] f64_magnitude_nonneg [of b]
  by (auto simp: f64_total_key_def f64_rank_def split: if_splits)

lemma f64_finite_not_nan: "f64_is_finite a \<Longrightarrow> \<not> f64_is_nan a"
  by (simp add: f64_is_finite_def f64_is_nan_def)

lemma f64_total_le:
  "f64_is_finite a \<Longrightarrow> f64_is_finite b \<Longrightarrow> f64_total_key a \<le> f64_total_key b \<Longrightarrow> f64_le a b"
  by (simp add: f64_le_def f64_finite_not_nan f64_total_key_rank)

end
