(* ===== verification/Protocol.thy ===== *)
theory Protocol
  imports Status_Machine Calls
begin

text \<open>
  The records that travel between the components: the error type of
  \<^verbatim>\<open>rustvello-core/src/error.rs\<close> and the data transfer objects of
  \<^verbatim>\<open>rustvello-proto/src/invocation.rs\<close>. Free-form message texts of errors are not modelled;
  \<open>Panic\<close> stands for a panic of the Rust code and is not a value of the Rust type.
\<close>

section \<open>Errors\<close>

datatype infra_error_kind = Connection | Timeout | Query | DataCorruption | Other

fun infra_is_retriable :: "infra_error_kind \<Rightarrow> bool" where
  "infra_is_retriable Connection = True"
| "infra_is_retriable Timeout = True"
| "infra_is_retriable _ = False"

datatype rv_error =
    RetryError
  | ConcurrencyRetry task_id
  | Serialization
  | TaskNotFound task_id
  | TaskNotRegistered task_id
  | CycleDetected task_id
  | RunnerNotExecutable task_id
  | TaskClassNotFound task_id
  | InvocationNotFound str
  | InvalidStatusTransition str invocation_status invocation_status "invocation_status list"
  | OwnershipViolation str invocation_status invocation_status str str
  | StatusRaceCondition str invocation_status invocation_status invocation_status
  | InvocationCancelled str
  | TaskExecution str str "str option"
  | Infrastructure infra_error_kind
  | Configuration
  | WorkflowContextUnavailable
  | WorkflowMembershipRequired str
  | WorkflowRootRequired str str
  | Internal
  | NotSupported str str
  | Panic

type_synonym 'a result = "rv_error + 'a"

record task_error =
  err_type :: str
  err_message :: str
  err_traceback :: "str option"

definition status_machine_error_to_rustvello ::
    "status_machine_error \<Rightarrow> str \<Rightarrow> invocation_status \<Rightarrow> rv_error" where
  "status_machine_error_to_rustvello e invocation_id fallback =
     (case e of
        Transition t \<Rightarrow>
          InvalidStatusTransition invocation_id
            (case te_from t of None \<Rightarrow> fallback | Some s \<Rightarrow> s) (te_to t) (te_allowed t)
      | Ownership oe \<Rightarrow>
          OwnershipViolation invocation_id (oe_from oe) (oe_to oe)
            (case oe_current_owner oe of None \<Rightarrow> [] | Some r \<Rightarrow> r)
            (case oe_attempted_owner oe of None \<Rightarrow> [] | Some r \<Rightarrow> r))"

section \<open>Invocations\<close>

record trace_context =
  traceparent :: "str option"
  tracestate :: "str option"

definition trace_context_default :: trace_context where
  "trace_context_default = \<lparr>traceparent = None, tracestate = None\<rparr>"

definition trace_context_is_empty :: "trace_context \<Rightarrow> bool" where
  "trace_context_is_empty c \<longleftrightarrow> traceparent c = None \<and> tracestate c = None"

record workflow_identity =
  workflow_id :: str
  workflow_type :: task_id
  wf_parent_id :: "str option"
  wf_depth :: u32

definition workflow_root :: "str \<Rightarrow> task_id \<Rightarrow> workflow_identity" where
  "workflow_root w t = \<lparr>workflow_id = w, workflow_type = t, wf_parent_id = None, wf_depth = 0\<rparr>"

definition workflow_child :: "str \<Rightarrow> task_id \<Rightarrow> str \<Rightarrow> u32 \<Rightarrow> workflow_identity" where
  "workflow_child w t p d = \<lparr>workflow_id = w, workflow_type = t, wf_parent_id = Some p, wf_depth = d\<rparr>"

definition sub_workflow :: "str \<Rightarrow> task_id \<Rightarrow> str \<Rightarrow> workflow_identity" where
  "sub_workflow w t p = \<lparr>workflow_id = w, workflow_type = t, wf_parent_id = Some p, wf_depth = 0\<rparr>"

definition is_sub_workflow :: "workflow_identity \<Rightarrow> bool" where
  "is_sub_workflow w \<longleftrightarrow> wf_parent_id w \<noteq> None"

record invocation_dto =
  inv_id :: str
  inv_task_id :: task_id
  inv_call_id :: call_id
  inv_status :: invocation_status
  inv_created_at :: time
  inv_updated_at :: time
  inv_parent :: "str option"
  inv_workflow :: "workflow_identity option"
  inv_trace :: trace_context

definition invocation_dto_new :: "time \<Rightarrow> str \<Rightarrow> task_id \<Rightarrow> call_id \<Rightarrow> invocation_dto" where
  "invocation_dto_new t i tid cid =
     \<lparr>inv_id = i, inv_task_id = tid, inv_call_id = cid, inv_status = Registered,
      inv_created_at = t, inv_updated_at = t, inv_parent = None, inv_workflow = None,
      inv_trace = trace_context_default\<rparr>"

definition with_workflow ::
    "time \<Rightarrow> str \<Rightarrow> task_id \<Rightarrow> call_id \<Rightarrow> str option \<Rightarrow> workflow_identity \<Rightarrow> invocation_dto" where
  "with_workflow t i tid cid parent w =
     \<lparr>inv_id = i, inv_task_id = tid, inv_call_id = cid, inv_status = Registered,
      inv_created_at = t, inv_updated_at = t, inv_parent = parent, inv_workflow = Some w,
      inv_trace = trace_context_default\<rparr>"

definition with_trace_context :: "trace_context \<Rightarrow> invocation_dto \<Rightarrow> invocation_dto" where
  "with_trace_context c d = d\<lparr>inv_trace := c\<rparr>"

definition is_workflow_defining :: "invocation_dto \<Rightarrow> bool" where
  "is_workflow_defining d \<longleftrightarrow>
     (case inv_workflow d of None \<Rightarrow> False | Some w \<Rightarrow> workflow_id w = inv_id d)"

record invocation_history =
  h_invocation_id :: str
  h_status_record :: status_record
  h_message :: "str option"
  h_runner_id :: "str option"
  h_registered_by :: "str option"
  h_timestamp :: "time option"

definition history_new :: "str \<Rightarrow> status_record \<Rightarrow> str option \<Rightarrow> invocation_history" where
  "history_new i r m =
     \<lparr>h_invocation_id = i, h_status_record = r, h_message = m, h_runner_id = None,
      h_registered_by = None, h_timestamp = None\<rparr>"

definition with_runner :: "str \<Rightarrow> invocation_history \<Rightarrow> invocation_history" where
  "with_runner r h = h\<lparr>h_runner_id := Some r\<rparr>"

definition with_registered_by :: "str \<Rightarrow> invocation_history \<Rightarrow> invocation_history" where
  "with_registered_by i h = h\<lparr>h_registered_by := Some i\<rparr>"

end
