(* ===== verification/Task_Config.thy ===== *)
theory Task_Config
  imports Protocol F64_Bits
begin

text \<open>
  Task configuration: \<^verbatim>\<open>TaskConfig\<close>, \<^verbatim>\<open>RetryJitter\<close>, the queue strategy and the
  head of \<^verbatim>\<open>AppConfig\<close> (\<^verbatim>\<open>rustvello-proto/src/config.rs\<close>), the layered
  overrides and the environment variables of \<^verbatim>\<open>rustvello/src/task_config.rs\<close>, and the task
  catalog that resolves them (\<^verbatim>\<open>task_catalog.rs\<close>, over the registry of
  \<^verbatim>\<open>rustvello-core/src/task.rs\<close>). A registered task is its configuration: task bodies are
  opaque to this development.
\<close>

section \<open>Configuration records\<close>

datatype retry_jitter = JitterNone | JitterFull | JitterEqual

datatype queue_selection_strategy = RoundRobin | Ordered | Random

record broker_priority_rule =
  rule_task_id :: str
  rule_priority :: f64

abbreviation DEFAULT_QUEUE :: str where
  "DEFAULT_QUEUE \<equiv> ''default''"

abbreviation MIN_PRIORITY :: f64 where
  "MIN_PRIORITY \<equiv> 0xC059000000000000"

abbreviation MAX_PRIORITY :: f64 where
  "MAX_PRIORITY \<equiv> 0x4059000000000000"

record task_config =
  queue :: str
  priority :: f64
  max_retries :: u32
  retry_for_errors :: "str list"
  concurrency_control :: concurrency_control_type
  running_concurrency :: "u32 option"
  registration_concurrency :: concurrency_control_type
  cache_results :: bool
  key_arguments :: "str list"
  disable_cache_args :: "str list"
  on_diff_non_key_args_raise :: bool
  parallel_batch_size :: u64
  is_workflow_task :: bool
  reroute_on_cc :: bool
  blocking :: bool
  retry_delay_ms :: u64
  retry_max_delay_ms :: u64
  retry_backoff :: f64
  retry_jitter :: retry_jitter
  timeout_ms :: "u64 option"
  retry_on_timeout :: bool

text \<open>The float constants 0.0 and 2.0 by their bit patterns.\<close>

definition task_config_default :: task_config where
  "task_config_default =
     \<lparr>queue = DEFAULT_QUEUE, priority = 0, max_retries = 0, retry_for_errors = [],
      concurrency_control = Unlimited, running_concurrency = None,
      registration_concurrency = Unlimited, cache_results = False, key_arguments = [],
      disable_cache_args = [], on_diff_non_key_args_raise = False, parallel_batch_size = 100,
      is_workflow_task = False, reroute_on_cc = False, blocking = False, retry_delay_ms = 0,
      retry_max_delay_ms = 300000, retry_backoff = 0x4000000000000000,
      retry_jitter = JitterEqual, timeout_ms = None, retry_on_timeout = True\<rparr>"

text \<open>\<^verbatim>\<open>TaskConfig::timeout\<close>, in milliseconds.\<close>

definition config_timeout :: "task_config \<Rightarrow> u64 option" where
  "config_timeout c =
     (case timeout_ms c of None \<Rightarrow> None | Some ms \<Rightarrow> (if 0 < ms then Some ms else None))"

text \<open>The fields of \<^verbatim>\<open>AppConfig\<close> that the modelled services read.\<close>

record app_config =
  app_id :: str
  broker_queues :: "str list"
  runner_queues :: "str list"
  queue_selection :: queue_selection_strategy
  priority_rules :: "broker_priority_rule list"
  dev_mode_force_sync :: bool
  max_pending_seconds :: u64
  heartbeat_interval_seconds :: u64
  runner_dead_after_seconds :: u64
  recovery_check_interval_seconds :: u64
  max_invocation_recoveries :: u32

section \<open>Overrides\<close>

record task_config_override =
  ov_queue :: "str option"
  ov_priority :: "f64 option"
  ov_max_retries :: "u32 option"
  ov_concurrency_control :: "concurrency_control_type option"
  ov_running_concurrency :: "u32 option option"
  ov_registration_concurrency :: "concurrency_control_type option"
  ov_cache_results :: "bool option"
  ov_key_arguments :: "str list option"
  ov_retry_for_errors :: "str list option"
  ov_disable_cache_args :: "str list option"
  ov_on_diff_non_key_args_raise :: "bool option"
  ov_parallel_batch_size :: "u64 option"
  ov_is_workflow_task :: "bool option"
  ov_reroute_on_cc :: "bool option"
  ov_blocking :: "bool option"
  ov_retry_delay_ms :: "u64 option"
  ov_retry_max_delay_ms :: "u64 option"
  ov_retry_backoff :: "f64 option"
  ov_retry_jitter :: "retry_jitter option"
  ov_timeout_ms :: "u64 option option"
  ov_retry_on_timeout :: "bool option"

definition or_else :: "'a option \<Rightarrow> 'a \<Rightarrow> 'a" where
  "or_else x d = (case x of None \<Rightarrow> d | Some v \<Rightarrow> v)"

lemma or_else_simps [simp]: "or_else None d = d" "or_else (Some v) d = v"
  by (simp_all add: or_else_def)

definition apply_to :: "task_config_override \<Rightarrow> task_config \<Rightarrow> task_config" where
  "apply_to v c =
     c\<lparr>queue := or_else (ov_queue v) (queue c),
       priority := or_else (ov_priority v) (priority c),
       max_retries := or_else (ov_max_retries v) (max_retries c),
       concurrency_control := or_else (ov_concurrency_control v) (concurrency_control c),
       running_concurrency := or_else (ov_running_concurrency v) (running_concurrency c),
       registration_concurrency :=
         or_else (ov_registration_concurrency v) (registration_concurrency c),
       cache_results := or_else (ov_cache_results v) (cache_results c),
       key_arguments := or_else (ov_key_arguments v) (key_arguments c),
       retry_for_errors := or_else (ov_retry_for_errors v) (retry_for_errors c),
       disable_cache_args := or_else (ov_disable_cache_args v) (disable_cache_args c),
       on_diff_non_key_args_raise :=
         or_else (ov_on_diff_non_key_args_raise v) (on_diff_non_key_args_raise c),
       parallel_batch_size := or_else (ov_parallel_batch_size v) (parallel_batch_size c),
       is_workflow_task := or_else (ov_is_workflow_task v) (is_workflow_task c),
       reroute_on_cc := or_else (ov_reroute_on_cc v) (reroute_on_cc c),
       blocking := or_else (ov_blocking v) (blocking c),
       retry_delay_ms := or_else (ov_retry_delay_ms v) (retry_delay_ms c),
       retry_max_delay_ms := or_else (ov_retry_max_delay_ms v) (retry_max_delay_ms c),
       retry_backoff := or_else (ov_retry_backoff v) (retry_backoff c),
       retry_jitter := or_else (ov_retry_jitter v) (retry_jitter c),
       timeout_ms := or_else (ov_timeout_ms v) (timeout_ms c),
       retry_on_timeout := or_else (ov_retry_on_timeout v) (retry_on_timeout c)\<rparr>"

definition override_default :: task_config_override where
  "override_default =
     \<lparr>ov_queue = None, ov_priority = None, ov_max_retries = None, ov_concurrency_control = None,
      ov_running_concurrency = None, ov_registration_concurrency = None, ov_cache_results = None,
      ov_key_arguments = None, ov_retry_for_errors = None, ov_disable_cache_args = None,
      ov_on_diff_non_key_args_raise = None, ov_parallel_batch_size = None,
      ov_is_workflow_task = None, ov_reroute_on_cc = None, ov_blocking = None,
      ov_retry_delay_ms = None, ov_retry_max_delay_ms = None, ov_retry_backoff = None,
      ov_retry_jitter = None, ov_timeout_ms = None, ov_retry_on_timeout = None\<rparr>"

section \<open>Environment variables\<close>

text \<open>
  \<^verbatim>\<open>str::parse\<close> for the unsigned integers and for \<^verbatim>\<open>bool\<close>: an optional plus sign and
  at least one decimal digit, rejected when the value does not fit.
\<close>

fun parse_digits :: "nat \<Rightarrow> str \<Rightarrow> nat option" where
  "parse_digits acc [] = Some acc"
| "parse_digits acc (c # s) =
     (let d = of_char c :: nat in
      if 48 \<le> d \<and> d \<le> 57 then parse_digits (10 * acc + (d - 48)) s else None)"

definition parse_unsigned :: "nat \<Rightarrow> str \<Rightarrow> nat option" where
  "parse_unsigned bits s =
     (let ds = (case s of [] \<Rightarrow> [] | c # r \<Rightarrow> (if c = CHR ''+'' then r else s)) in
      if ds = [] then None
      else (case parse_digits 0 ds of
              None \<Rightarrow> None
            | Some n \<Rightarrow> (if n < 2 ^ bits then Some n else None)))"

definition parse_bool :: "str \<Rightarrow> bool option" where
  "parse_bool s = (if s = ''true'' then Some True else if s = ''false'' then Some False else None)"

text \<open>
  What is read from outside the crate: the process environment, Unicode case mapping, float
  parsing, and wildcard matching of the \<^verbatim>\<open>glob\<close> crate (an invalid pattern matches nothing).
\<close>

record host =
  env_var :: "str \<Rightarrow> str option"
  to_uppercase :: "str \<Rightarrow> str"
  to_lowercase :: "str \<Rightarrow> str"
  parse_f64 :: "str \<Rightarrow> f64 option"
  glob_matches :: "str \<Rightarrow> str \<Rightarrow> bool"

definition ascii_lower :: "char \<Rightarrow> char" where
  "ascii_lower c =
     (let n = of_char c :: nat in if 65 \<le> n \<and> n \<le> 90 then char_of (n + 32) else c)"

definition parse_jitter :: "str \<Rightarrow> retry_jitter option" where
  "parse_jitter s =
     (let l = map ascii_lower s in
      if l = ''none'' then Some JitterNone
      else if l = ''full'' then Some JitterFull
      else if l = ''equal'' then Some JitterEqual
      else None)"

fun display_jitter :: "retry_jitter \<Rightarrow> str" where
  "display_jitter JitterNone = ''none''"
| "display_jitter JitterFull = ''full''"
| "display_jitter JitterEqual = ''equal''"

definition parse_queue_selection :: "str \<Rightarrow> queue_selection_strategy option" where
  "parse_queue_selection s =
     (let l = map ascii_lower s in
      if l = ''round_robin'' then Some RoundRobin
      else if l = ''ordered'' then Some Ordered
      else if l = ''random'' then Some Random
      else None)"

definition parse_concurrency_control_type :: "host \<Rightarrow> str \<Rightarrow> concurrency_control_type option" where
  "parse_concurrency_control_type h s =
     (let l = to_lowercase h s in
      if l = ''unlimited'' then Some Unlimited
      else if l = ''task'' then Some TaskCC
      else if l = ''argument'' then Some ArgumentCC
      else if l = ''none'' then Some NoneCC
      else None)"

definition parse_priority_rule :: "host \<Rightarrow> str \<Rightarrow> broker_priority_rule option" where
  "parse_priority_rule h s =
     (case rsplit_char (CHR ''='') s of
        None \<Rightarrow> None
      | Some (pat, p) \<Rightarrow>
          (case parse_f64 h p of
             None \<Rightarrow> None
           | Some x \<Rightarrow>
               (if pat = [] \<or> \<not> f64_is_finite x \<or> \<not> (f64_le MIN_PRIORITY x \<and> f64_le x MAX_PRIORITY)
                then None
                else Some \<lparr>rule_task_id = pat, rule_priority = x\<rparr>)))"

text \<open>The variable's value where it is set and parses, the current value otherwise.\<close>

definition env_or :: "host \<Rightarrow> str \<Rightarrow> str \<Rightarrow> (str \<Rightarrow> 'a option) \<Rightarrow> 'a \<Rightarrow> 'a" where
  "env_or h prefix key parse cur =
     (case env_var h (prefix @ key) of
        None \<Rightarrow> cur
      | Some val \<Rightarrow> or_else (parse val) cur)"

definition apply_task_env_overrides :: "host \<Rightarrow> str \<Rightarrow> task_config \<Rightarrow> task_config" where
  "apply_task_env_overrides h p c =
     c\<lparr>max_retries := env_or h p ''MAX_RETRIES''
         (\<lambda>v. map_option of_nat (parse_unsigned 32 v)) (max_retries c),
       queue := env_or h p ''QUEUE'' Some (queue c),
       priority := env_or h p ''PRIORITY'' (parse_f64 h) (priority c),
       concurrency_control := env_or h p ''CONCURRENCY_CONTROL''
         (parse_concurrency_control_type h) (concurrency_control c),
       running_concurrency := env_or h p ''RUNNING_CONCURRENCY''
         (\<lambda>v. Some (map_option of_nat (parse_unsigned 32 v))) (running_concurrency c),
       cache_results := env_or h p ''CACHE_RESULTS'' parse_bool (cache_results c),
       is_workflow_task := env_or h p ''IS_WORKFLOW_TASK'' parse_bool (is_workflow_task c),
       reroute_on_cc := env_or h p ''REROUTE_ON_CC'' parse_bool (reroute_on_cc c),
       retry_delay_ms := env_or h p ''RETRY_DELAY_MS''
         (\<lambda>v. map_option of_nat (parse_unsigned 64 v)) (retry_delay_ms c),
       retry_max_delay_ms := env_or h p ''RETRY_MAX_DELAY_MS''
         (\<lambda>v. map_option of_nat (parse_unsigned 64 v)) (retry_max_delay_ms c),
       retry_backoff := env_or h p ''RETRY_BACKOFF'' (parse_f64 h) (retry_backoff c),
       retry_jitter := env_or h p ''RETRY_JITTER'' parse_jitter (retry_jitter c),
       timeout_ms := env_or h p ''TIMEOUT_MS''
         (\<lambda>v. Some (case map_option of_nat (parse_unsigned 64 v) of
                     None \<Rightarrow> None | Some ms \<Rightarrow> (if 0 < ms then Some ms else None))) (timeout_ms c),
       retry_on_timeout := env_or h p ''RETRY_ON_TIMEOUT'' parse_bool (retry_on_timeout c)\<rparr>"

section \<open>The task catalog\<close>

text \<open>
  The registry maps a task id to its registered configuration; a second index holds the
  definitions registered through the closure-based interface.
\<close>

record task_registry =
  reg_tasks :: "task_id \<rightharpoonup> task_config"
  reg_legacy :: "task_id \<rightharpoonup> task_config"

definition registry_new :: task_registry where
  "registry_new = \<lparr>reg_tasks = Map.empty, reg_legacy = Map.empty\<rparr>"

definition registry_register :: "task_id \<Rightarrow> task_config \<Rightarrow> task_registry \<Rightarrow> unit result \<times> task_registry" where
  "registry_register t c r =
     (if t \<in> dom (reg_tasks r) then (Inl Configuration, r)
      else (Inr (), r\<lparr>reg_tasks := (reg_tasks r)(t \<mapsto> c), reg_legacy := (reg_legacy r)(t \<mapsto> c)\<rparr>))"

definition registry_register_proxy ::
    "task_id \<Rightarrow> task_config \<Rightarrow> task_registry \<Rightarrow> unit result \<times> task_registry" where
  "registry_register_proxy t c r =
     (if t \<in> dom (reg_tasks r) then (Inl Configuration, r)
      else (Inr (), r\<lparr>reg_tasks := (reg_tasks r)(t \<mapsto> c)\<rparr>))"

definition registry_unregister :: "task_id \<Rightarrow> task_registry \<Rightarrow> bool \<times> task_registry" where
  "registry_unregister t r =
     (t \<in> dom (reg_tasks r),
      r\<lparr>reg_legacy := (reg_legacy r)(t := None), reg_tasks := (reg_tasks r)(t := None)\<rparr>)"

definition registry_get_dyn :: "task_id \<Rightarrow> task_registry \<Rightarrow> task_config option" where
  "registry_get_dyn t r = reg_tasks r t"

definition registry_get :: "task_id \<Rightarrow> task_registry \<Rightarrow> task_config option" where
  "registry_get t r = reg_legacy r t"

record task_catalog =
  registry :: task_registry
  task_config_overrides :: "str \<rightharpoonup> task_config_override"
  task_defaults_override :: task_config_override
  env_override_cache :: "str \<rightharpoonup> task_config_override"

definition catalog_new :: task_catalog where
  "catalog_new =
     \<lparr>registry = registry_new, task_config_overrides = Map.empty,
      task_defaults_override = override_default, env_override_cache = Map.empty\<rparr>"

definition set_config_overrides ::
    "(str \<rightharpoonup> task_config_override) \<Rightarrow> task_config_override \<Rightarrow> task_catalog \<Rightarrow> task_catalog" where
  "set_config_overrides ovs defaults c =
     c\<lparr>task_config_overrides := ovs, task_defaults_override := defaults,
       env_override_cache := Map.empty\<rparr>"

definition changed :: "'a \<Rightarrow> 'a \<Rightarrow> 'a option" where
  "changed new old = (if new \<noteq> old then Some new else None)"

definition changed_f64 :: "f64 \<Rightarrow> f64 \<Rightarrow> f64 option" where
  "changed_f64 new old = (if f64_eq new old then None else Some new)"

text \<open>The override read from the environment: the fields that differ from the global default.\<close>

definition env_override :: "host \<Rightarrow> str \<Rightarrow> task_config_override" where
  "env_override h task_name =
     (let base = task_config_default;
          c = apply_task_env_overrides h
                (''RUSTVELLO__TASK__'' @ to_uppercase h task_name @ ''__'') base
      in \<lparr>ov_queue = changed (queue c) (queue base),
          ov_priority = changed_f64 (priority c) (priority base),
          ov_max_retries = changed (max_retries c) (max_retries base),
          ov_concurrency_control = changed (concurrency_control c) (concurrency_control base),
          ov_running_concurrency = changed (running_concurrency c) (running_concurrency base),
          ov_registration_concurrency = None,
          ov_cache_results = changed (cache_results c) (cache_results base),
          ov_key_arguments = None, ov_retry_for_errors = None, ov_disable_cache_args = None,
          ov_on_diff_non_key_args_raise = None, ov_parallel_batch_size = None,
          ov_is_workflow_task = changed (is_workflow_task c) (is_workflow_task base),
          ov_reroute_on_cc = changed (reroute_on_cc c) (reroute_on_cc base),
          ov_blocking = changed (blocking c) (blocking base),
          ov_retry_delay_ms = changed (retry_delay_ms c) (retry_delay_ms base),
          ov_retry_max_delay_ms = changed (retry_max_delay_ms c) (retry_max_delay_ms base),
          ov_retry_backoff = changed_f64 (retry_backoff c) (retry_backoff base),
          ov_retry_jitter = changed (retry_jitter c) (retry_jitter base),
          ov_timeout_ms = changed (timeout_ms c) (timeout_ms base),
          ov_retry_on_timeout = changed (retry_on_timeout c) (retry_on_timeout base)\<rparr>)"

definition get_or_load_env_override ::
    "host \<Rightarrow> str \<Rightarrow> task_catalog \<Rightarrow> task_config_override \<times> task_catalog" where
  "get_or_load_env_override h task_name c =
     (case env_override_cache c task_name of
        Some cached \<Rightarrow> (cached, c)
      | None \<Rightarrow>
          (let v = env_override h task_name
           in (v, c\<lparr>env_override_cache := (env_override_cache c)(task_name \<mapsto> v)\<rparr>)))"

text \<open>\<^verbatim>\<open>max_by(f64::total_cmp)\<close> keeps the later of two equal elements.\<close>

fun max_by_total :: "f64 list \<Rightarrow> f64 option" where
  "max_by_total [] = None"
| "max_by_total (x # xs) =
     Some (fold (\<lambda>y m. if f64_total_key m \<le> f64_total_key y then y else m) xs x)"

definition resolve_config ::
    "host \<Rightarrow> app_config \<Rightarrow> task_id \<Rightarrow> task_config \<Rightarrow> task_catalog \<Rightarrow> task_config \<times> task_catalog" where
  "resolve_config h app t base cat =
     (let c1 = apply_to (task_defaults_override cat) base;
          c2 = (case task_config_overrides cat (tid_name t) of
                  None \<Rightarrow> c1 | Some per_task \<Rightarrow> apply_to per_task c1);
          (ov, cat') = get_or_load_env_override h (tid_name t) cat;
          c3 = apply_to ov c2;
          matching = filter (\<lambda>r. glob_matches h (rule_task_id r) (display_task_id t)) (priority_rules app)
      in (c3\<lparr>priority := or_else (max_by_total (map rule_priority matching)) (priority c3)\<rparr>, cat'))"

definition routing_for ::
    "host \<Rightarrow> app_config \<Rightarrow> task_id \<Rightarrow> task_catalog \<Rightarrow> (str \<times> f64) option \<times> task_catalog" where
  "routing_for h app t cat =
     (case registry_get_dyn t (registry cat) of
        None \<Rightarrow> (None, cat)
      | Some c \<Rightarrow>
          (let (c', cat') = resolve_config h app t c cat in (Some (queue c', priority c'), cat')))"

section \<open>Lemmas\<close>

lemma max_by_total_spec:
  assumes "xs \<noteq> []"
  shows "\<exists>m \<in> set xs. max_by_total xs = Some m \<and> (\<forall>x \<in> set xs. f64_total_key x \<le> f64_total_key m)"
proof -
  obtain x ys where xs: "xs = x # ys" using assms by (cases xs) auto
  let ?f = "\<lambda>y m. if f64_total_key m \<le> f64_total_key y then y else m"
  have "fold ?f ys x \<in> insert x (set ys) \<and>
        (\<forall>z \<in> insert x (set ys). f64_total_key z \<le> f64_total_key (fold ?f ys x))" for x
  proof (induction ys arbitrary: x)
    case Nil
    then show ?case by simp
  next
    case (Cons y ys)
    show ?case using Cons.IH [of "?f y x"] by (auto split: if_splits)
  qed
  then show ?thesis by (simp add: xs)
qed

lemma get_or_load_twice:
  "get_or_load_env_override h n (snd (get_or_load_env_override h' n c)) =
     (fst (get_or_load_env_override h' n c), snd (get_or_load_env_override h' n c))"
  by (simp add: get_or_load_env_override_def Let_def split: option.splits)

lemma get_or_load_frame:
  "task_config_overrides (snd (get_or_load_env_override h n c)) = task_config_overrides c"
  "task_defaults_override (snd (get_or_load_env_override h n c)) = task_defaults_override c"
  "registry (snd (get_or_load_env_override h n c)) = registry c"
  by (simp_all add: get_or_load_env_override_def Let_def split: option.splits)

lemma resolve_config_snd:
  "snd (resolve_config h app t base cat) = snd (get_or_load_env_override h (tid_name t) cat)"
  by (simp add: resolve_config_def Let_def split: prod.splits)

section \<open>Properties\<close>

text \<open>Resolution is stable: once a task's environment override has been read it is cached, so
  a second resolution gives the same configuration even if the environment has changed, and
  resolving never alters the registered tasks.\<close>

theorem resolve_config_stable:
  "resolve_config (h\<lparr>env_var := vars\<rparr>) app t base (snd (resolve_config h app t base cat)) =
     resolve_config h app t base cat \<and>
   registry (snd (resolve_config h app t base cat)) = registry cat"
  by (simp add: resolve_config_snd get_or_load_frame)
    (simp add: resolve_config_def get_or_load_twice get_or_load_frame Let_def split: prod.splits)

text \<open>Priority rules: when at least one wildcard rule matches the task id, the resolved
  priority is that of a matching rule and no matching rule has a higher one, whatever the task's own
  priority; with no matching rule the layered priority is kept.\<close>

theorem resolve_config_priority:
  "let matching = filter (\<lambda>r. glob_matches h (rule_task_id r) (display_task_id t)) (priority_rules app);
       p = priority (fst (resolve_config h app t base cat));
       p0 = priority (fst (resolve_config h (app\<lparr>priority_rules := []\<rparr>) t base cat))
   in (if matching = [] then p = p0
       else (\<exists>r \<in> set matching. p = rule_priority r) \<and>
            list_all (\<lambda>r. f64_total_key (rule_priority r) \<le> f64_total_key p) matching)"
proof -
  let ?m = "filter (\<lambda>r. glob_matches h (rule_task_id r) (display_task_id t)) (priority_rules app)"
  show ?thesis
  proof (cases "?m = []")
    case True
    then show ?thesis by (simp add: resolve_config_def Let_def split: prod.splits)
  next
    case False
    then obtain m where m: "m \<in> set (map rule_priority ?m)" "max_by_total (map rule_priority ?m) = Some m"
      "\<forall>x \<in> set (map rule_priority ?m). f64_total_key x \<le> f64_total_key m"
      using max_by_total_spec [of "map rule_priority ?m"] by auto
    have "priority (fst (resolve_config h app t base cat)) = m"
      using m(2) by (simp add: resolve_config_def Let_def split: prod.splits)
    then show ?thesis using False m(1,3) by (auto simp: list_all_iff Let_def)
  qed
qed

text \<open>An environment variable cannot restore a default: \<^verbatim>\<open>TIMEOUT_MS=0\<close>, documented
  to clear the deadline, leaves a deadline configured in code in force, because only fields that
  differ from the global default survive into the override.\<close>

theorem env_cannot_clear_timeout:
  assumes "env_var h (''RUSTVELLO__TASK__'' @ to_uppercase h (tid_name t) @ ''__TIMEOUT_MS'') = Some ''0''"
    and "task_config_overrides cat (tid_name t) = None"
    and "task_defaults_override cat = override_default"
    and "env_override_cache cat (tid_name t) = None"
  shows "timeout_ms (fst (resolve_config h app t base cat)) = timeout_ms base"
  using assms
  by (simp add: resolve_config_def get_or_load_env_override_def env_override_def Let_def
      apply_task_env_overrides_def env_or_def parse_unsigned_def changed_def apply_to_def
      override_default_def task_config_default_def)

theorem env_cannot_clear_timeout_witness:
  "timeout_ms (fst (resolve_config
      \<lparr>env_var = (\<lambda>v. if v = ''RUSTVELLO__TASK__f__TIMEOUT_MS'' then Some ''0'' else None),
       to_uppercase = id, to_lowercase = id, parse_f64 = (\<lambda>_. None), glob_matches = (=)\<rparr>
      \<lparr>app_id = ''a'', broker_queues = [], runner_queues = [], queue_selection = Ordered,
       priority_rules = [], dev_mode_force_sync = False, max_pending_seconds = 300,
       heartbeat_interval_seconds = 30, runner_dead_after_seconds = 300,
       recovery_check_interval_seconds = 60, max_invocation_recoveries = 3\<rparr>
      \<lparr>tid_language = Rust, tid_packed = ''f'', tid_module_end = 0\<rparr>
      (task_config_default\<lparr>timeout_ms := Some 5000\<rparr>) catalog_new)) = Some 5000"
  by (subst env_cannot_clear_timeout) (simp_all add: catalog_new_def tid_name_def)

end
