(* ===== verification/Mem_Orchestrator.thy ===== *)
theory Mem_Orchestrator
  imports Task_Config
begin

text \<open>
  The in-memory orchestrator, \<^verbatim>\<open>rustvello-mem/src/orchestrator/\<close>: its state
  (\<^verbatim>\<open>mod.rs\<close>) and the operations of \<^verbatim>\<open>status.rs\<close>,
  \<^verbatim>\<open>concurrency.rs\<close> and \<^verbatim>\<open>blocking.rs\<close>. Every operation holds the state's mutex
  for its whole body, so an operation is one atomic function on the state; \<^verbatim>\<open>run_auto_purge\<close>
  takes it several times and is a composition. The clock is read once per operation.
\<close>

section \<open>State\<close>

record atomic_service_execution =
  ase_runner_id :: str
  ase_start :: time
  ase_end :: time

type_synonym cc_triple = "str \<times> str \<times> str"

record orch_state =
  invocations :: "str \<rightharpoonup> invocation_dto"
  status_records :: "str \<rightharpoonup> status_record"
  task_invocations :: "str \<rightharpoonup> str set"
  call_invocations :: "str \<rightharpoonup> str set"
  waiting_for :: "str \<rightharpoonup> str"
  waiters :: "str \<rightharpoonup> str set"
  cc_index :: "cc_triple \<rightharpoonup> str set"
  cc_reverse :: "str \<rightharpoonup> cc_triple list"
  retries :: "str \<rightharpoonup> u32"
  heartbeats :: "str \<rightharpoonup> time"
  runner_created :: "str \<rightharpoonup> time"
  runner_atomic_eligible :: "str \<rightharpoonup> bool"
  runner_last_service_start :: "str \<rightharpoonup> time"
  runner_last_service_end :: "str \<rightharpoonup> time"
  atomic_timeline :: "atomic_service_execution list"
  auto_purge_queue :: "str \<rightharpoonup> time"

definition orch_new :: orch_state where
  "orch_new =
     \<lparr>invocations = Map.empty, status_records = Map.empty, task_invocations = Map.empty,
      call_invocations = Map.empty, waiting_for = Map.empty, waiters = Map.empty,
      cc_index = Map.empty, cc_reverse = Map.empty, retries = Map.empty, heartbeats = Map.empty,
      runner_created = Map.empty, runner_atomic_eligible = Map.empty,
      runner_last_service_start = Map.empty, runner_last_service_end = Map.empty,
      atomic_timeline = [], auto_purge_queue = Map.empty\<rparr>"

section \<open>Status operations\<close>

definition register_invocation_with_id ::
    "env \<Rightarrow> str \<Rightarrow> call_dto \<Rightarrow> str option \<Rightarrow> orch_state \<Rightarrow> status_record result \<times> orch_state" where
  "register_invocation_with_id e i call runner s =
     (let dto = invocation_dto_new (now e) i (cd_task_id call) (cd_call_id call);
          status_record = status_record_new (now e) Registered runner
      in (Inr status_record,
          s\<lparr>invocations := (invocations s)(i \<mapsto> dto),
            status_records := (status_records s)(i \<mapsto> status_record),
            task_invocations := ms_insert (display_task_id (cd_task_id call)) i (task_invocations s),
            call_invocations := ms_insert (display_call_id (cd_call_id call)) i (call_invocations s)\<rparr>))"

text \<open>\<^verbatim>\<open>InvocationId::new\<close> draws a random UUID, the argument \<open>fresh\<close>.\<close>

definition register_invocation ::
    "env \<Rightarrow> str \<Rightarrow> call_dto \<Rightarrow> orch_state \<Rightarrow> str result \<times> orch_state" where
  "register_invocation e fresh call s =
     and_then (register_invocation_with_id e fresh call None s) (\<lambda>_ s. (Inr fresh, s))"

text \<open>The counter wraps as a release build does.\<close>

definition increment_invocation_retries :: "str \<Rightarrow> orch_state \<Rightarrow> u32 result \<times> orch_state" where
  "increment_invocation_retries i s =
     (let count = or_else (retries s i) 0 + 1
      in (Inr count, s\<lparr>retries := (retries s)(i \<mapsto> count)\<rparr>))"

definition get_invocation_retries :: "str \<Rightarrow> orch_state \<Rightarrow> u32" where
  "get_invocation_retries i s = or_else (retries s i) 0"

text \<open>
  The block that recurs in \<^verbatim>\<open>status.rs\<close> and \<^verbatim>\<open>concurrency.rs\<close>: take the
  invocation's triples out of the reverse map and prune it from each of their sets.
\<close>

definition cc_unindex :: "str \<Rightarrow> orch_state \<Rightarrow> orch_state" where
  "cc_unindex i s =
     (case cc_reverse s i of
        None \<Rightarrow> s
      | Some triples \<Rightarrow>
          s\<lparr>cc_reverse := (cc_reverse s)(i := None),
            cc_index := ms_prune_keys triples i (cc_index s)\<rparr>)"

definition remove_invocation :: "str \<Rightarrow> orch_state \<Rightarrow> unit result \<times> orch_state" where
  "remove_invocation i s =
     (let s1 = s\<lparr>invocations := (invocations s)(i := None),
                 status_records := (status_records s)(i := None),
                 retries := (retries s)(i := None),
                 task_invocations := ms_remove_all i (task_invocations s),
                 call_invocations := ms_remove_all i (call_invocations s)\<rparr>;
          s2 = cc_unindex i s1
      in (Inr (), s2\<lparr>waiting_for := (waiting_for s2)(i := None),
                     waiters := (waiters s2)(i := None)\<rparr>))"

definition get_invocation_status :: "str \<Rightarrow> orch_state \<Rightarrow> status_record result" where
  "get_invocation_status i s =
     (case status_records s i of None \<Rightarrow> Inl (InvocationNotFound i) | Some r \<Rightarrow> Inr r)"

text \<open>The two writes of a status change: the record, and the status copied into the DTO.\<close>

definition write_status ::
    "env \<Rightarrow> str \<Rightarrow> invocation_status \<Rightarrow> status_record \<Rightarrow> orch_state \<Rightarrow> orch_state" where
  "write_status e i status new_record s =
     s\<lparr>status_records := (status_records s)(i \<mapsto> new_record),
       invocations := (case invocations s i of
                         None \<Rightarrow> invocations s
                       | Some dto \<Rightarrow> (invocations s)
                           (i \<mapsto> dto\<lparr>inv_status := status, inv_updated_at := now e\<rparr>))\<rparr>"

definition set_invocation_status ::
    "env \<Rightarrow> str \<Rightarrow> invocation_status \<Rightarrow> str option \<Rightarrow> orch_state
       \<Rightarrow> status_record result \<times> orch_state" where
  "set_invocation_status e i status runner s =
     (case status_records s i of
        None \<Rightarrow> (Inl (InvocationNotFound i), s)
      | Some current \<Rightarrow>
          (case status_record_transition (now e) (Some current) status runner of
             Inl err \<Rightarrow> (Inl (status_machine_error_to_rustvello err i (sr_status current)), s)
           | Inr new_record \<Rightarrow>
               (let s' = write_status e i status new_record s
                in (Inr new_record, if is_terminal status then cc_unindex i s' else s'))))"

definition orch_purge :: "orch_state \<Rightarrow> unit result \<times> orch_state" where
  "orch_purge s =
     (Inr (), s\<lparr>invocations := Map.empty, status_records := Map.empty,
                task_invocations := Map.empty, call_invocations := Map.empty,
                waiting_for := Map.empty, waiters := Map.empty, cc_index := Map.empty,
                cc_reverse := Map.empty, retries := Map.empty, auto_purge_queue := Map.empty\<rparr>)"

definition schedule_auto_purge :: "env \<Rightarrow> str \<Rightarrow> orch_state \<Rightarrow> unit result \<times> orch_state" where
  "schedule_auto_purge e i s =
     (Inr (), s\<lparr>auto_purge_queue := (auto_purge_queue s)(i \<mapsto> now e)\<rparr>)"

text \<open>The loop that removes the expired invocations; a removal never fails.\<close>

fun purge_all :: "str list \<Rightarrow> orch_state \<Rightarrow> str list \<times> orch_state" where
  "purge_all [] s = ([], s)"
| "purge_all (i # is) s =
     (case remove_invocation i s of
        (Inr _, s') \<Rightarrow> (let (ps, s'') = purge_all is s' in (i # ps, s''))
      | (Inl _, s') \<Rightarrow> purge_all is s')"

definition run_auto_purge :: "env \<Rightarrow> u64 \<Rightarrow> orch_state \<Rightarrow> str list result \<times> orch_state" where
  "run_auto_purge e max_age_secs s =
     (case sub_secs e (now e) (clamp_i64 max_age_secs) of
        None \<Rightarrow> (Inl Panic, s)
      | Some threshold \<Rightarrow>
          (let expired = filter (\<lambda>i. case auto_purge_queue s i of
                                        None \<Rightarrow> False | Some at \<Rightarrow> at \<le> threshold)
                          (hash_order e (dom (auto_purge_queue s)));
               s1 = s\<lparr>auto_purge_queue := fold (\<lambda>i q. q(i := None)) expired (auto_purge_queue s)\<rparr>;
               (purged, s2) = purge_all expired s1
           in (Inr purged, s2)))"

section \<open>Concurrency control\<close>

text \<open>
  The candidate set of a list of argument pairs: the set of the first pair, then
  \<^verbatim>\<open>retain\<close> by each further pair, leaving the loop once it is empty.
\<close>

fun cc_retain :: "(cc_triple \<rightharpoonup> str set) \<Rightarrow> str \<Rightarrow> str set \<Rightarrow> (str \<times> str) list \<Rightarrow> str set" where
  "cc_retain idx t result [] = result"
| "cc_retain idx t result ((k, v) # ps) =
     (let result' = result \<inter> ms_get idx (t, k, v)
      in if result' = {} then result' else cc_retain idx t result' ps)"

definition cc_candidates :: "task_id \<Rightarrow> serialized_arguments option \<Rightarrow> orch_state \<Rightarrow> str set" where
  "cc_candidates t cc_args s =
     (case cc_args of
        Some a \<Rightarrow>
          (case (if a = [] then [([], [])] else a) of
             [] \<Rightarrow> {}
           | (k, v) # ps \<Rightarrow>
               cc_retain (cc_index s) (display_task_id t)
                 (ms_get (cc_index s) (display_task_id t, k, v)) ps)
      | None \<Rightarrow> ms_get (task_invocations s) (display_task_id t))"

definition cc_limit :: "task_config \<Rightarrow> nat" where
  "cc_limit c = unat (or_else (running_concurrency c) 1)"

definition check_running_concurrency ::
    "task_id \<Rightarrow> task_config \<Rightarrow> serialized_arguments option \<Rightarrow> orch_state \<Rightarrow> bool" where
  "check_running_concurrency t c cc_args s =
     (if concurrency_control c = Unlimited then True
      else card {i \<in> cc_candidates t cc_args s.
                   case status_records s i of
                     None \<Rightarrow> False | Some r \<Rightarrow> sr_status r = Pending \<or> sr_status r = Running}
             < cc_limit c)"

definition cc_triples :: "task_id \<Rightarrow> (str \<times> str) list \<Rightarrow> cc_triple list" where
  "cc_triples t ps = map (\<lambda>(k, v). (display_task_id t, k, v)) ps"

definition index_for_concurrency_control ::
    "str \<Rightarrow> task_id \<Rightarrow> serialized_arguments option \<Rightarrow> orch_state \<Rightarrow> unit result \<times> orch_state" where
  "index_for_concurrency_control i t cc_args s =
     (let pairs = (case cc_args of
                     Some a \<Rightarrow> (if a \<noteq> [] then a else [([], [])])
                   | None \<Rightarrow> []);
          triples = cc_triples t pairs;
          s1 = s\<lparr>cc_index := ms_insert_keys triples i (cc_index s)\<rparr>
      in (Inr (), if triples \<noteq> [] then s1\<lparr>cc_reverse := ml_extend i triples (cc_reverse s1)\<rparr> else s1))"

text \<open>The invocations that hold every one of the given pairs.\<close>

definition cc_intersection :: "task_id \<Rightarrow> (str \<times> str) list \<Rightarrow> orch_state \<Rightarrow> str set option" where
  "cc_intersection t pairs s =
     fold (\<lambda>(k, v) acc.
             let indexed = ms_get (cc_index s) (display_task_id t, k, v)
             in Some (case acc of Some previous \<Rightarrow> previous \<inter> indexed | None \<Rightarrow> indexed))
          pairs None"

definition try_acquire_concurrency_slot ::
    "str \<Rightarrow> task_id \<Rightarrow> task_config \<Rightarrow> serialized_arguments option \<Rightarrow> orch_state
       \<Rightarrow> bool result \<times> orch_state" where
  "try_acquire_concurrency_slot i t c cc_args s =
     (if concurrency_control c = Unlimited then (Inr True, s)
      else
        (let pairs = cc_arg_pairs (or_else cc_args []);
             reserved = (case cc_intersection t pairs s of
                           None \<Rightarrow> 0 | Some members \<Rightarrow> card (members - {i}))
         in if cc_limit c \<le> reserved then (Inr False, s)
            else (Inr True,
                  s\<lparr>cc_index := ms_insert_keys (cc_triples t pairs) i (cc_index s),
                    cc_reverse := ml_extend i (cc_triples t pairs) (cc_reverse s)\<rparr>)))"

definition remove_from_concurrency_index :: "str \<Rightarrow> orch_state \<Rightarrow> unit result \<times> orch_state" where
  "remove_from_concurrency_index i s = (Inr (), cc_unindex i s)"

section \<open>Blocking\<close>

definition set_waiting_for :: "str \<Rightarrow> str \<Rightarrow> orch_state \<Rightarrow> unit result \<times> orch_state" where
  "set_waiting_for waiter waited_on s =
     (Inr (), s\<lparr>waiting_for := (waiting_for s)(waiter \<mapsto> waited_on),
                waiters := ms_insert waited_on waiter (waiters s)\<rparr>)"

definition get_waiters :: "env \<Rightarrow> str \<Rightarrow> orch_state \<Rightarrow> str list" where
  "get_waiters e waited_on s =
     (case waiters s waited_on of None \<Rightarrow> [] | Some ids \<Rightarrow> hash_order e ids)"

definition release_waiters :: "env \<Rightarrow> str \<Rightarrow> orch_state \<Rightarrow> str list result \<times> orch_state" where
  "release_waiters e completed s =
     (let waiter_ids = or_else (waiters s completed) {};
          released = hash_order e waiter_ids
      in (Inr released,
          s\<lparr>waiters := (waiters s)(completed := None),
            waiting_for := fold (\<lambda>i w. w(i := None)) released (waiting_for s)\<rparr>))"

section \<open>Heartbeats and the service timeline\<close>

definition register_heartbeat :: "env \<Rightarrow> str \<Rightarrow> bool \<Rightarrow> orch_state \<Rightarrow> unit result \<times> orch_state" where
  "register_heartbeat e r can_run_atomic_service s =
     (Inr (), s\<lparr>heartbeats := (heartbeats s)(r \<mapsto> now e),
                runner_created := (case runner_created s r of
                                     None \<Rightarrow> (runner_created s)(r \<mapsto> now e)
                                   | Some _ \<Rightarrow> runner_created s),
                runner_atomic_eligible := (runner_atomic_eligible s)(r \<mapsto> can_run_atomic_service)\<rparr>)"

definition record_atomic_service_execution ::
    "str \<Rightarrow> time \<Rightarrow> time \<Rightarrow> orch_state \<Rightarrow> unit result \<times> orch_state" where
  "record_atomic_service_execution r start end_time s =
     (let timeline = atomic_timeline s @ [\<lparr>ase_runner_id = r, ase_start = start, ase_end = end_time\<rparr>];
          len = length timeline
      in (Inr (), s\<lparr>runner_last_service_start := (runner_last_service_start s)(r \<mapsto> start),
                     runner_last_service_end := (runner_last_service_end s)(r \<mapsto> end_time),
                     atomic_timeline := (if 200 < len then drop (len - 200) timeline else timeline)\<rparr>))"

end
