(* ===== verification/Mem_Orchestrator_Inv.thy ===== *)
theory Mem_Orchestrator_Inv
  imports Mem_Orchestrator
begin

text \<open>
  The invariant of the in-memory orchestrator and its preservation by every operation, the
  refinement of \<^verbatim>\<open>set_invocation_status\<close> by the status machine, the concurrency-slot
  bound and the waiting relation. Sequences of operations are lists of \<open>orch_op\<close>.
\<close>

section \<open>The invariant\<close>

text \<open>
  Each clause is a predicate on the fields it is about, so that an operation only has to show the
  clauses whose fields it writes: status records and DTOs agree; every index entry names a stored
  invocation and every stored invocation is under its key; the concurrency index and its reverse
  map are converse; every stored record is reachable in the status machine; containers are finite.
\<close>

definition dto_ok :: "(str \<rightharpoonup> invocation_dto) \<Rightarrow> (str \<rightharpoonup> status_record) \<Rightarrow> bool" where
  "dto_ok iv sr \<longleftrightarrow>
     (\<forall>i. case iv i of
            None \<Rightarrow> sr i = None
          | Some d \<Rightarrow> inv_id d = i \<and> map_option sr_status (sr i) = Some (inv_status d))"

definition index_ok ::
    "(invocation_dto \<Rightarrow> str) \<Rightarrow> (str \<rightharpoonup> invocation_dto) \<Rightarrow> (str \<rightharpoonup> str set) \<Rightarrow> bool" where
  "index_ok key iv idx \<longleftrightarrow>
     (\<forall>i d. iv i = Some d \<longrightarrow> i \<in> ms_get idx (key d)) \<and>
     (\<forall>i k. i \<in> ms_get idx k \<longrightarrow> iv i \<noteq> None)"

definition cc_ok :: "(cc_triple \<rightharpoonup> str set) \<Rightarrow> (str \<rightharpoonup> cc_triple list) \<Rightarrow> bool" where
  "cc_ok ci cr \<longleftrightarrow>
     (\<forall>k. finite (ms_get ci k) \<and> (\<forall>i. (i \<in> ms_get ci k) = (k \<in> set (ml_get cr i))))"

definition owners_ok :: "(str \<rightharpoonup> status_record) \<Rightarrow> bool" where
  "owners_ok sr \<longleftrightarrow> (\<forall>i r. sr i = Some r \<longrightarrow> reachable_record r)"

definition sets_finite :: "('k \<rightharpoonup> 'v set) \<Rightarrow> bool" where
  "sets_finite m \<longleftrightarrow> finite (dom m) \<and> (\<forall>k. finite (ms_get m k))"

abbreviation task_key_of :: "invocation_dto \<Rightarrow> str" where
  "task_key_of d \<equiv> display_task_id (inv_task_id d)"

abbreviation call_key_of :: "invocation_dto \<Rightarrow> str" where
  "call_key_of d \<equiv> display_call_id (inv_call_id d)"

definition orch_inv :: "orch_state \<Rightarrow> bool" where
  "orch_inv s \<longleftrightarrow>
     dto_ok (invocations s) (status_records s) \<and>
     index_ok task_key_of (invocations s) (task_invocations s) \<and>
     index_ok call_key_of (invocations s) (call_invocations s) \<and>
     cc_ok (cc_index s) (cc_reverse s) \<and>
     owners_ok (status_records s) \<and>
     finite (dom (status_records s)) \<and> sets_finite (waiters s) \<and>
     finite (dom (heartbeats s)) \<and> finite (dom (auto_purge_queue s)) \<and>
     length (atomic_timeline s) \<le> 200"

section \<open>Sequences of operations\<close>

datatype orch_op =
    Register str call_dto "str option"
  | SetStatus str invocation_status "str option"
  | IncrementRetries str
  | RemoveInvocation str
  | Purge
  | ScheduleAutoPurge str
  | RunAutoPurge u64
  | IndexCC str task_id "serialized_arguments option"
  | AcquireSlot str task_id task_config "serialized_arguments option"
  | RemoveCC str
  | SetWaitingFor str str
  | ReleaseWaiters str
  | Heartbeat str bool
  | RecordAtomicService str time time

fun orch_exec :: "env \<Rightarrow> orch_op \<Rightarrow> orch_state \<Rightarrow> orch_state" where
  "orch_exec e (Register i call r) s = snd (register_invocation_with_id e i call r s)"
| "orch_exec e (SetStatus i st r) s = snd (set_invocation_status e i st r s)"
| "orch_exec e (IncrementRetries i) s = snd (increment_invocation_retries i s)"
| "orch_exec e (RemoveInvocation i) s = snd (remove_invocation i s)"
| "orch_exec e Purge s = snd (orch_purge s)"
| "orch_exec e (ScheduleAutoPurge i) s = snd (schedule_auto_purge e i s)"
| "orch_exec e (RunAutoPurge m) s = snd (run_auto_purge e m s)"
| "orch_exec e (IndexCC i t a) s = snd (index_for_concurrency_control i t a s)"
| "orch_exec e (AcquireSlot i t c a) s = snd (try_acquire_concurrency_slot i t c a s)"
| "orch_exec e (RemoveCC i) s = snd (remove_from_concurrency_index i s)"
| "orch_exec e (SetWaitingFor w x) s = snd (set_waiting_for w x s)"
| "orch_exec e (ReleaseWaiters x) s = snd (release_waiters e x s)"
| "orch_exec e (Heartbeat r b) s = snd (register_heartbeat e r b s)"
| "orch_exec e (RecordAtomicService r a b) s = snd (record_atomic_service_execution r a b s)"

definition orch_run :: "(env \<times> orch_op) list \<Rightarrow> orch_state \<Rightarrow> orch_state" where
  "orch_run ops s = fold (\<lambda>(e, op). orch_exec e op) ops s"

section \<open>Preservation, clause by clause\<close>

lemma dto_ok_insert: "dto_ok iv sr \<Longrightarrow> inv_id d = i \<Longrightarrow> inv_status d = sr_status r \<Longrightarrow>
    dto_ok (iv(i \<mapsto> d)) (sr(i \<mapsto> r))"
  by (simp add: dto_ok_def cong: option.case_cong)

lemma dto_ok_delete: "dto_ok iv sr \<Longrightarrow> dto_ok (iv(i := None)) (sr(i := None))"
  by (simp add: dto_ok_def cong: option.case_cong)

lemma dto_ok_lookup: "dto_ok iv sr \<Longrightarrow> iv i = Some d \<Longrightarrow>
    inv_id d = i \<and> (\<exists>r. sr i = Some r \<and> sr_status r = inv_status d)"
  by (auto simp: dto_ok_def dest!: spec [of _ i])

lemma dto_ok_dom:
  assumes "dto_ok iv sr"
  shows "dom iv = dom sr"
proof -
  have "(iv i = None) = (sr i = None)" for i
    using assms unfolding dto_ok_def by (cases "iv i") (auto dest!: spec [of _ i])
  then show ?thesis by (auto simp: dom_def)
qed

lemma index_ok_insert: "index_ok key iv idx \<Longrightarrow> index_ok key (iv(i \<mapsto> d)) (ms_insert (key d) i idx)"
  by (auto simp: index_ok_def ms_simps) metis

lemma index_ok_delete: "index_ok key iv idx \<Longrightarrow> index_ok key (iv(i := None)) (ms_remove_all i idx)"
  by (auto simp: index_ok_def ms_simps)

lemma index_ok_update:
  "index_ok key iv idx \<Longrightarrow> iv i = Some d0 \<Longrightarrow> key d = key d0 \<Longrightarrow> index_ok key (iv(i \<mapsto> d)) idx"
  by (auto simp: index_ok_def)

lemma cc_ok_add: "cc_ok ci cr \<Longrightarrow> cc_ok (ms_insert_keys ts i ci) (ml_extend i ts cr)"
  by (auto simp: cc_ok_def ms_simps simp del: split_paired_All)

lemma cc_ok_none: "cc_ok ci cr \<Longrightarrow> cr i = None \<Longrightarrow> i \<notin> ms_get ci k"
proof -
  assume "cc_ok ci cr" and "cr i = None"
  then have "(i \<in> ms_get ci k) = (k \<in> set (ml_get cr i))" and "ml_get cr i = []"
    unfolding cc_ok_def ml_get_def by (blast, simp)
  then show ?thesis by simp
qed

lemma cc_ok_prune:
  assumes "cc_ok ci cr" and "cr i = Some ts"
  shows "ms_get (ms_prune_keys ts i ci) k = ms_get ci k - {i}"
proof -
  have "(i \<in> ms_get ci k) = (k \<in> set (ml_get cr i))" using assms(1) unfolding cc_ok_def by blast
  then show ?thesis using assms(2) by (auto simp: ms_get_prune_keys ml_get_def)
qed

lemma cc_ok_remove:
  assumes "cc_ok ci cr" and "cr i = Some ts"
  shows "cc_ok (ms_prune_keys ts i ci) (cr(i := None))"
  using assms(1)
  by (auto simp: cc_ok_def cc_ok_prune [OF assms] ml_get_del simp del: split_paired_All)

lemma owners_ok_insert: "owners_ok sr \<Longrightarrow> reachable_record r \<Longrightarrow> owners_ok (sr(i \<mapsto> r))"
  by (simp add: owners_ok_def)

lemma owners_ok_delete: "owners_ok sr \<Longrightarrow> owners_ok (sr(i := None))"
  by (simp add: owners_ok_def)

lemma sets_finite_simps [simp]:
  "sets_finite Map.empty"
  "sets_finite m \<Longrightarrow> sets_finite (ms_insert k v m)"
  "sets_finite m \<Longrightarrow> sets_finite (m(k := None))"
  by (simp_all add: sets_finite_def ms_simps)

lemmas clause_intros =
  dto_ok_insert dto_ok_delete index_ok_insert index_ok_delete cc_ok_add cc_ok_remove
  owners_ok_insert owners_ok_delete

lemma empty_clauses [simp]:
  "dto_ok Map.empty Map.empty" "index_ok key Map.empty Map.empty" "cc_ok Map.empty Map.empty"
  "owners_ok Map.empty"
  by (simp_all add: dto_ok_def index_ok_def cc_ok_def owners_ok_def ms_simps)

section \<open>Preservation, operation by operation\<close>

lemma orch_new_inv: "orch_inv orch_new"
  by (simp add: orch_inv_def orch_new_def)

lemma cc_unindex_frame [simp]:
  "invocations (cc_unindex i s) = invocations s"
  "status_records (cc_unindex i s) = status_records s"
  "task_invocations (cc_unindex i s) = task_invocations s"
  "call_invocations (cc_unindex i s) = call_invocations s"
  "waiting_for (cc_unindex i s) = waiting_for s"
  "waiters (cc_unindex i s) = waiters s"
  "retries (cc_unindex i s) = retries s"
  "heartbeats (cc_unindex i s) = heartbeats s"
  "auto_purge_queue (cc_unindex i s) = auto_purge_queue s"
  "atomic_timeline (cc_unindex i s) = atomic_timeline s"
  by (simp_all add: cc_unindex_def split: option.splits)

lemma cc_unindex_ok:
  assumes "cc_ok (cc_index s) (cc_reverse s)"
  shows "cc_ok (cc_index (cc_unindex i s)) (cc_reverse (cc_unindex i s))"
  using assms by (auto simp: cc_unindex_def cc_ok_remove split: option.splits)

lemma cc_unindex_index:
  assumes "cc_ok (cc_index s) (cc_reverse s)"
  shows "ms_get (cc_index (cc_unindex i s)) k = ms_get (cc_index s) k - {i}"
  using assms cc_ok_none [OF assms]
  by (auto simp: cc_unindex_def cc_ok_prune split: option.splits)

lemma cc_unindex_inv: "orch_inv s \<Longrightarrow> orch_inv (cc_unindex i s)"
  by (simp add: orch_inv_def cc_unindex_ok)

lemma register_inv:
  assumes "orch_inv s"
  shows "orch_inv (snd (register_invocation_with_id e i call r s))"
proof -
  let ?d = "invocation_dto_new (now e) i (cd_task_id call) (cd_call_id call)"
  have "index_ok task_key_of ((invocations s)(i \<mapsto> ?d))
      (ms_insert (display_task_id (cd_task_id call)) i (task_invocations s))"
    using assms index_ok_insert [of task_key_of "invocations s" "task_invocations s" i ?d]
    by (simp add: orch_inv_def invocation_dto_new_def)
  moreover have "index_ok call_key_of ((invocations s)(i \<mapsto> ?d))
      (ms_insert (display_call_id (cd_call_id call)) i (call_invocations s))"
    using assms index_ok_insert [of call_key_of "invocations s" "call_invocations s" i ?d]
    by (simp add: orch_inv_def invocation_dto_new_def)
  ultimately show ?thesis
    using assms
    by (simp add: orch_inv_def register_invocation_with_id_def Let_def)
      (simp add: dto_ok_insert owners_ok_insert invocation_dto_new_def status_record_new_def
        reachable_record.registered)
qed

text \<open>The two outcomes of a status change, as used by every later proof.\<close>

lemma set_invocation_status_Inr:
  "set_invocation_status e i st r s = (Inr rec', s') \<longleftrightarrow>
     (\<exists>cur. status_records s i = Some cur \<and>
        status_record_transition (now e) (Some cur) st r = Inr rec') \<and>
     s' = (if is_terminal st then cc_unindex i (write_status e i st rec' s)
           else write_status e i st rec' s)"
  by (auto simp: set_invocation_status_def Let_def split: option.splits sum.splits)

lemma set_invocation_status_Inl:
  "set_invocation_status e i st r s = (Inl err, s') \<Longrightarrow> s' = s"
  by (auto simp: set_invocation_status_def Let_def split: option.splits sum.splits)

lemma set_invocation_status_cases:
  obtains (failed) err where "set_invocation_status e i st r s = (Inl err, s)"
  | (changed) rec' s' where "set_invocation_status e i st r s = (Inr rec', s')"
  by (metis set_invocation_status_Inl surj_pair sum.exhaust)

lemma write_status_frame [simp]:
  "status_records (write_status e i st rec s) = (status_records s)(i \<mapsto> rec)"
  "task_invocations (write_status e i st rec s) = task_invocations s"
  "call_invocations (write_status e i st rec s) = call_invocations s"
  "cc_index (write_status e i st rec s) = cc_index s"
  "cc_reverse (write_status e i st rec s) = cc_reverse s"
  "waiting_for (write_status e i st rec s) = waiting_for s"
  "waiters (write_status e i st rec s) = waiters s"
  "heartbeats (write_status e i st rec s) = heartbeats s"
  "auto_purge_queue (write_status e i st rec s) = auto_purge_queue s"
  "atomic_timeline (write_status e i st rec s) = atomic_timeline s"
  "dom (invocations (write_status e i st rec s)) = dom (invocations s)"
  by (auto simp: write_status_def split: option.splits)

lemma write_status_inv:
  assumes inv: "orch_inv s" and i: "status_records s i \<noteq> None"
    and rec: "sr_status rec = st" "reachable_record rec"
  shows "orch_inv (write_status e i st rec s)"
proof -
  have "i \<in> dom (invocations s)"
    using inv i dto_ok_dom [of "invocations s" "status_records s"] by (auto simp: orch_inv_def)
  then obtain d where d: "invocations s i = Some d" by auto
  then have "inv_id d = i" using inv dto_ok_lookup by (auto simp: orch_inv_def)
  moreover have "invocations (write_status e i st rec s) =
      (invocations s)(i \<mapsto> d\<lparr>inv_status := st, inv_updated_at := now e\<rparr>)"
    using d by (simp add: write_status_def)
  ultimately show ?thesis
    using inv rec d
      index_ok_update [of task_key_of "invocations s" "task_invocations s" i d]
      index_ok_update [of call_key_of "invocations s" "call_invocations s" i d]
    by (simp add: orch_inv_def dto_ok_insert owners_ok_insert)
qed

lemma set_status_inv:
  assumes "orch_inv s"
  shows "orch_inv (snd (set_invocation_status e i st r s))"
proof (cases e i st r s rule: set_invocation_status_cases)
  case (failed err)
  then show ?thesis using assms by simp
next
  case (changed rec' s')
  then obtain cur where cur: "status_records s i = Some cur"
    and tr: "status_record_transition (now e) (Some cur) st r = Inr rec'"
    by (auto simp: set_invocation_status_Inr)
  have "reachable_record cur" using assms cur by (auto simp: orch_inv_def owners_ok_def)
  then have "reachable_record rec'" using tr status_step.step reachable_record.stepped by blast
  moreover have "sr_status rec' = st" using sm.stamps [OF tr] by simp
  ultimately have "orch_inv (write_status e i st rec' s)"
    using assms cur by (intro write_status_inv) auto
  moreover have "s' = (if is_terminal st then cc_unindex i (write_status e i st rec' s)
      else write_status e i st rec' s)"
    using changed by (simp add: set_invocation_status_Inr)
  ultimately show ?thesis using changed cc_unindex_inv by simp
qed

lemma remove_invocation_eqs:
  "invocations (snd (remove_invocation i s)) = (invocations s)(i := None)"
  "status_records (snd (remove_invocation i s)) = (status_records s)(i := None)"
  "task_invocations (snd (remove_invocation i s)) = ms_remove_all i (task_invocations s)"
  "call_invocations (snd (remove_invocation i s)) = ms_remove_all i (call_invocations s)"
  "waiting_for (snd (remove_invocation i s)) = (waiting_for s)(i := None)"
  "waiters (snd (remove_invocation i s)) = (waiters s)(i := None)"
  "retries (snd (remove_invocation i s)) = (retries s)(i := None)"
  "heartbeats (snd (remove_invocation i s)) = heartbeats s"
  "auto_purge_queue (snd (remove_invocation i s)) = auto_purge_queue s"
  "atomic_timeline (snd (remove_invocation i s)) = atomic_timeline s"
  "cc_index (snd (remove_invocation i s)) = cc_index (cc_unindex i s)"
  "cc_reverse (snd (remove_invocation i s)) = cc_reverse (cc_unindex i s)"
  by (simp_all add: remove_invocation_def Let_def)
    (simp_all add: cc_unindex_def split: option.splits)

lemma remove_inv: "orch_inv s \<Longrightarrow> orch_inv (snd (remove_invocation i s))"
  by (simp add: orch_inv_def remove_invocation_eqs clause_intros cc_unindex_ok)

lemma remove_invocation_ok: "remove_invocation i s = (Inr (), snd (remove_invocation i s))"
  by (simp add: remove_invocation_def Let_def)

lemma purge_all_eq: "purge_all is s = (is, fold (\<lambda>i s. snd (remove_invocation i s)) is s)"
proof (induction "is" arbitrary: s)
  case Nil
  then show ?case by simp
next
  case (Cons i "is")
  then show ?case by (subst purge_all.simps, subst remove_invocation_ok) simp
qed

lemma fold_remove_inv: "orch_inv s \<Longrightarrow> orch_inv (fold (\<lambda>i s. snd (remove_invocation i s)) is s)"
  by (induction "is" arbitrary: s) (simp_all add: remove_inv)

lemma fold_del: "fold (\<lambda>i q. q(i := None)) xs m = m |` (- set xs)"
  by (induction xs arbitrary: m) (auto simp: fun_eq_iff restrict_map_def)

lemma run_auto_purge_inv:
  assumes "orch_inv s"
  shows "orch_inv (snd (run_auto_purge e m s))"
proof -
  have "orch_inv (s\<lparr>auto_purge_queue := fold (\<lambda>i q. q(i := None)) xs (auto_purge_queue s)\<rparr>)" for xs
    using assms by (simp add: orch_inv_def fold_del)
  then show ?thesis
    using assms
    by (auto simp: run_auto_purge_def Let_def purge_all_eq fold_remove_inv split: option.splits)
qed

lemma acquire_inv: "orch_inv s \<Longrightarrow> orch_inv (snd (try_acquire_concurrency_slot i t c a s))"
  by (simp add: try_acquire_concurrency_slot_def Let_def orch_inv_def cc_ok_add)

lemma index_cc_inv: "orch_inv s \<Longrightarrow> orch_inv (snd (index_for_concurrency_control i t a s))"
  by (auto simp: index_for_concurrency_control_def Let_def orch_inv_def cc_ok_add ms_insert_keys_Nil
      cc_triples_def split: option.splits)

lemmas simple_op_defs =
  increment_invocation_retries_def orch_purge_def schedule_auto_purge_def set_waiting_for_def
  release_waiters_def register_heartbeat_def record_atomic_service_execution_def
  remove_from_concurrency_index_def

lemma orch_exec_inv: "orch_inv s \<Longrightarrow> orch_inv (orch_exec e op s)"
  by (cases op)
    (simp_all add: register_inv set_status_inv remove_inv run_auto_purge_inv index_cc_inv acquire_inv
      cc_unindex_inv simple_op_defs, simp_all add: orch_inv_def Let_def)

lemma orch_run_inv: "orch_inv s \<Longrightarrow> orch_inv (orch_run ops s)"
  by (induction ops arbitrary: s) (auto simp: orch_run_def orch_exec_inv)

lemma reachable_inv: "orch_inv (orch_run ops orch_new)"
  by (rule orch_run_inv [OF orch_new_inv])

end
