(* ===== verification/Mem_Orchestrator_Props.thy ===== *)
theory Mem_Orchestrator_Props
  imports Mem_Orchestrator_Inv
begin

text \<open>
  What the in-memory orchestrator promises its callers: the contract of a status store and its
  consequences for racing claims, the bound on concurrency slots under any interleaving of
  operations, and the release of waiters.
\<close>

section \<open>The contract of a status store\<close>

locale status_store =
  fixes record_of :: "'s \<Rightarrow> str \<Rightarrow> status_record option"
    and set_status :: "env \<Rightarrow> str \<Rightarrow> invocation_status \<Rightarrow> str option \<Rightarrow> 's
                         \<Rightarrow> status_record result \<times> 's"
  assumes accepted: "set_status e i st r s = (Inr rec', s') \<Longrightarrow>
      (\<exists>cur. record_of s i = Some cur \<and>
         status_record_transition (now e) (Some cur) st r = Inr rec') \<and>
      record_of s' = (record_of s)(i \<mapsto> rec')"
    and rejected: "set_status e i st r s = (Inl err, s') \<Longrightarrow> s' = s"
    and total: "record_of s i = Some cur \<Longrightarrow>
      status_record_transition (now e) (Some cur) st r = Inr rec' \<Longrightarrow>
      fst (set_status e i st r s) = Inr rec'"
begin

lemma terminal_rejects:
  assumes "record_of s i = Some cur" and "is_terminal (sr_status cur)"
  shows "\<exists>err. set_status e i st r s = (Inl err, s)"
proof -
  obtain res s' where rs: "set_status e i st r s = (res, s')" by force
  show ?thesis
  proof (cases res)
    case (Inl err)
    then show ?thesis using rs rejected by blast
  next
    case (Inr rec')
    then show ?thesis using accepted rs assms sm.final_rejects by fastforce
  qed
qed

lemma terminal_frozen:
  assumes "record_of s i = Some cur" and "is_terminal (sr_status cur)"
  shows "record_of (fold (\<lambda>(e, j, st, r) s. snd (set_status e j st r s)) reqs s) i = Some cur"
  using assms
proof (induction reqs arbitrary: s)
  case Nil
  then show ?case by simp
next
  case (Cons q reqs)
  obtain e j st r where q: "q = (e, j, st, r)" by (metis prod_cases4)
  obtain res s' where rs: "set_status e j st r s = (res, s')" by force
  have "record_of s' i = Some cur"
  proof (cases "j = i")
    case True
    then show ?thesis using terminal_rejects [OF Cons.prems] rs by (metis Cons.prems(1) prod.inject)
  next
    case False
    then show ?thesis
    proof (cases res)
      case (Inl err)
      then show ?thesis using rs rejected Cons.prems(1) by blast
    next
      case (Inr rec')
      then show ?thesis using accepted [of e j st r s rec' s'] rs Cons.prems(1) False by simp
    qed
  qed
  then show ?case using Cons.IH Cons.prems(2) by (simp add: q rs)
qed

text \<open>A status that has no transition to itself is won by one of several racing callers.\<close>

lemma won_once:
  assumes win: "set_status e i st r s = (Inr rec', s')" and "\<not> can_transition_to st st"
  shows "\<exists>err. set_status e' i st r' s' = (Inl err, s')"
proof -
  have "record_of s' i = Some rec'" and tr: "\<exists>cur. status_record_transition (now e) (Some cur) st r = Inr rec'"
    using accepted [OF win] by auto
  moreover have "sr_status rec' = st" using tr sm.stamps by blast
  ultimately have "status_record_transition (now e') (Some rec') st r' \<noteq> Inr x" for x
    using assms(2) by (simp add: transition_Inr_iff)
  then obtain err s'' where "set_status e' i st r' s' = (Inl err, s'')"
    using accepted [of e' i st r' s'] \<open>record_of s' i = Some rec'\<close>
    by (cases "set_status e' i st r' s'"; cases "fst (set_status e' i st r' s')") fastforce+
  then show ?thesis using rejected by blast
qed

lemma losers_change_nothing:
  assumes win: "set_status e i st r s = (Inr rec', s')" and ns: "\<not> can_transition_to st st"
  shows "fold (\<lambda>(e, r) s. snd (set_status e i st r s)) rivals s' = s'"
proof (induction rivals)
  case Nil
  then show ?case by simp
next
  case (Cons q rivals)
  obtain e' r' where "q = (e', r')" by force
  then show ?case using won_once [OF win ns, of e' r'] Cons by auto
qed

end

interpretation mem: status_store "\<lambda>s. status_records s" set_invocation_status
proof unfold_locales
  fix e i st r s rec' s'
  assume "set_invocation_status e i st r s = (Inr rec', s')"
  then show "(\<exists>cur. status_records s i = Some cur \<and>
         status_record_transition (now e) (Some cur) st r = Inr rec') \<and>
      status_records s' = (status_records s)(i \<mapsto> rec')"
    by (auto simp: set_invocation_status_Inr)
next
  fix e i st r s err s'
  assume "set_invocation_status e i st r s = (Inl err, s')"
  then show "s' = s" by (rule set_invocation_status_Inl)
next
  fix s :: orch_state and i cur and e :: env and st r rec'
  assume "status_records s i = Some cur"
    and "status_record_transition (now e) (Some cur) st r = Inr rec'"
  then show "fst (set_invocation_status e i st r s) = Inr rec'"
    by (simp add: set_invocation_status_def Let_def)
qed

section \<open>Concurrency slots\<close>

text \<open>The holders of a concurrency key: the invocations indexed under each of its pairs.\<close>

definition slot_holders :: "str \<Rightarrow> (str \<times> str) list \<Rightarrow> orch_state \<Rightarrow> str set" where
  "slot_holders tk ps s = {i. \<forall>p \<in> set ps. i \<in> ms_get (cc_index s) (tk, p)}"

lemma cc_intersection_holders:
  assumes "ps \<noteq> []"
  shows "cc_intersection t ps s = Some (slot_holders (display_task_id t) ps s)"
proof -
  let ?f = "\<lambda>(k, v) acc. let indexed = ms_get (cc_index s) (display_task_id t, k, v)
              in Some (case acc of Some previous \<Rightarrow> previous \<inter> indexed | None \<Rightarrow> indexed)"
  have "fold ?f qs (Some A) = Some (A \<inter> slot_holders (display_task_id t) qs s)" for qs A
    by (induction qs arbitrary: A) (auto simp: slot_holders_def)
  then show ?thesis
    using assms by (cases ps) (auto simp: cc_intersection_def slot_holders_def)
qed

lemma cc_retain_holders:
  "cc_retain (cc_index s) tk A ps = A \<inter> slot_holders tk ps s"
proof (induction ps arbitrary: A)
  case Nil
  then show ?case by (simp add: slot_holders_def)
next
  case (Cons p ps)
  obtain k v where p: "p = (k, v)" by force
  have "slot_holders tk (p # ps) s = ms_get (cc_index s) (tk, k, v) \<inter> slot_holders tk ps s"
    by (auto simp: slot_holders_def p)
  then show ?case using Cons by (auto simp: p Let_def)
qed

lemma cc_candidates_holders:
  "cc_candidates t (Some a) s = slot_holders (display_task_id t) (cc_arg_pairs a) s"
  by (auto simp: cc_candidates_def cc_arg_pairs_def cc_retain_holders slot_holders_def
      split: list.splits)
















section \<open>The waiting relation\<close>

definition wait_ok :: "orch_state \<Rightarrow> bool" where
  "wait_ok s \<longleftrightarrow> (\<forall>w x. waiting_for s w = Some x \<longrightarrow> w \<in> ms_get (waiters s) x)"

fun removes :: "orch_op \<Rightarrow> bool" where
  "removes (RemoveInvocation i) = True"
| "removes (RunAutoPurge m) = True"
| "removes _ = False"

lemma set_status_waiting [simp]:
  "waiting_for (snd (set_invocation_status e i st r s)) = waiting_for s"
  "waiters (snd (set_invocation_status e i st r s)) = waiters s"
  by (auto simp: set_invocation_status_def Let_def split: option.splits sum.splits)

lemma exec_wait_ok:
  assumes "wait_ok s" and "\<not> removes op" and "orch_inv s" and "hash_order_ok (hash_order e)"
  shows "wait_ok (orch_exec e op s)"
proof -
  have fin: "finite (ms_get (waiters s) x)" for x
    using assms(3) by (simp add: orch_inv_def sets_finite_def)
  have rel: "set (hash_order e (or_else (waiters s x) {})) = ms_get (waiters s) x" for x
    using hash_order_set [OF assms(4) fin [of x]] by (simp add: ms_get_def or_else_def)
  show ?thesis
    using assms(1,2) rel
    by (cases op) (auto simp: wait_ok_def register_invocation_with_id_def simple_op_defs Let_def ms_simps
        fold_del restrict_map_def index_for_concurrency_control_def try_acquire_concurrency_slot_def
        split: if_splits)
qed

lemma run_wait_ok:
  assumes "wait_ok s" and "orch_inv s"
    and "list_all (\<lambda>(e, op). \<not> removes op \<and> hash_order_ok (hash_order e)) ops"
  shows "wait_ok (orch_run ops s)"
  using assms
proof (induction ops arbitrary: s)
  case Nil
  then show ?case by (simp add: orch_run_def)
next
  case (Cons x ops)
  obtain e op where x: "x = (e, op)" by force
  show ?case
    using Cons.IH [of "orch_exec e op s"] Cons.prems orch_exec_inv exec_wait_ok
    by (simp add: x orch_run_def)
qed

section \<open>Properties\<close>

text \<open>C1. The invariant of the in-memory orchestrator holds after any sequence of operations, at any
  clock readings and hash orders: status records and DTOs agree, the task and call indexes hold
  exactly stored invocations and every stored one, the concurrency index and its reverse map are
  converse, and every record is reachable in the status machine.\<close>

theorem orchestrator_invariant: "orch_inv (orch_run ops orch_new)"
  by (rule reachable_inv)

text \<open>The operations that leave a claim of \<open>i\<close> by \<open>r\<close> alone: all but registering \<open>i\<close> anew, removals of it, purges, the statuses that override
  ownership (recovery and cancellation), and a status by which the owner itself gives it back.\<close>

fun keeps_claim :: "str \<Rightarrow> str \<Rightarrow> orch_op \<Rightarrow> bool" where
  "keeps_claim i r (Register j _ _) \<longleftrightarrow> j \<noteq> i"
| "keeps_claim i r (SetStatus j st q) \<longleftrightarrow>
     j \<noteq> i \<or> (\<not> overrides_ownership (get_status_definition st) \<and> (q = Some r \<longrightarrow> st \<in> {Pending, Running, Paused}))"
| "keeps_claim i r (RemoveInvocation j) \<longleftrightarrow> j \<noteq> i"
| "keeps_claim i r Purge \<longleftrightarrow> False"
| "keeps_claim i r (RunAutoPurge _) \<longleftrightarrow> False"
| "keeps_claim i r _ \<longleftrightarrow> True"

definition claimed_by :: "str \<Rightarrow> str \<Rightarrow> orch_state \<Rightarrow> bool" where
  "claimed_by i r s \<longleftrightarrow>
     (\<exists>rec. status_records s i = Some rec \<and> sr_runner rec = Some r \<and> sr_status rec \<in> {Pending, Running, Paused})"

lemma owner_moves:
  assumes "status_record_transition t (Some cur) st q = Inr rec" "sr_runner cur = Some r" "sr_status cur \<in> {Pending, Running, Paused}"
    and "\<not> overrides_ownership (get_status_definition st)" "q = Some r \<longrightarrow> st \<in> {Pending, Running, Paused}"
  shows "sr_runner rec = Some r \<and> sr_status rec \<in> {Pending, Running, Paused}"
  using assms by (cases st) (auto simp: transition_Inr_iff status_simps compute_new_owner_simps split: if_splits)

lemma claim_kept:
  assumes "claimed_by i r s" "keeps_claim i r op"
  shows "claimed_by i r (orch_exec e op s)"
proof (cases op)
  case (SetStatus j st q)
  show ?thesis
  proof (cases e j st q s rule: set_invocation_status_cases)
    case (changed rec s')
    then obtain cur where cur: "status_records s j = Some cur" "status_record_transition (now e) (Some cur) st q = Inr rec"
      and s': "status_records s' = (status_records s)(j \<mapsto> rec)"
      by (auto simp: set_invocation_status_Inr)
    show ?thesis
    proof (cases "j = i")
      case True
      then have "sr_runner rec = Some r \<and> sr_status rec \<in> {Pending, Running, Paused}"
        using assms SetStatus cur(1) by (intro owner_moves [OF cur(2)]) (auto simp: claimed_by_def)
      then show ?thesis using True SetStatus changed s' by (simp add: claimed_by_def)
    next
      case False
      then show ?thesis using assms(1) SetStatus changed s' by (simp add: claimed_by_def)
    qed
  qed (use assms SetStatus in simp)
qed (use assms in \<open>auto simp: claimed_by_def simple_op_defs register_invocation_with_id_def index_for_concurrency_control_def
      try_acquire_concurrency_slot_def remove_invocation_eqs Let_def split: option.splits\<close>)

lemma claim_kept_run: "claimed_by i r s \<Longrightarrow> list_all (\<lambda>(e, op). keeps_claim i r op) ops \<Longrightarrow> claimed_by i r (orch_run ops s)"
  by (induction ops arbitrary: s) (auto simp: orch_run_def claim_kept)

lemma claimed_refuses:
  assumes "claimed_by i r s"
  shows "\<exists>err. set_invocation_status e i Pending q s = (Inl err, s)"
proof (cases e i Pending q s rule: set_invocation_status_cases)
  case (changed rec s')
  then show ?thesis using assms by (auto simp: claimed_by_def set_invocation_status_Inr transition_Inr_iff status_simps)
qed auto

text \<open>C26. A claim is exclusive until it is given up: after a runner's claim of an invocation has succeeded, whatever
  operations follow, by any runners and on any invocations, claims included, the runner stays the owner and every claim, by
  anybody, fails and changes nothing, as long as the owner does not give the invocation back, nobody recovers, cancels,
  registers anew or removes it, and the store is not purged.\<close>

theorem claim_won_once:
  assumes "set_invocation_status e i Pending (Some r) s = (Inr rec', s')" "list_all (\<lambda>(e, op). keeps_claim i r op) ops"
  shows "claimed_by i r (orch_run ops s') \<and> (\<exists>err. set_invocation_status e2 i Pending r2 (orch_run ops s') = (Inl err, orch_run ops s'))"
proof -
  have "claimed_by i r s'"
    using assms(1) by (auto simp: claimed_by_def set_invocation_status_Inr transition_Inr_iff status_simps compute_new_owner_simps)
  then have "claimed_by i r (orch_run ops s')" using claim_kept_run assms(2) by blast
  then show ?thesis using claimed_refuses by blast
qed

theorem claim_won_once_witness:
  "\<exists>err. fst (set_invocation_status (sorted_env 5) ''i'' Pending (Some ''r2'')
     (orch_run [(sorted_env 3, SetStatus ''i'' Running (Some ''r1'')), (sorted_env 4, SetStatus ''i'' Failed (Some ''r2''))]
       (snd (set_invocation_status (sorted_env 2) ''i'' Pending (Some ''r1'')
         (orch_new\<lparr>status_records := [''i'' \<mapsto> status_record_new 1 Registered None]\<rparr>))))) = Inl err"
proof -
  let ?s = "orch_new\<lparr>status_records := [''i'' \<mapsto> status_record_new 1 Registered None]\<rparr>"
  let ?ops = "[(sorted_env 3, SetStatus ''i'' Running (Some ''r1'')), (sorted_env 4, SetStatus ''i'' Failed (Some ''r2''))]"
  have claim: "set_invocation_status (sorted_env 2) ''i'' Pending (Some ''r1'') ?s =
      (Inr (status_record_new 2 Pending (Some ''r1'')),
       snd (set_invocation_status (sorted_env 2) ''i'' Pending (Some ''r1'') ?s))"
    by (simp add: set_invocation_status_def machine_defs)
  have "list_all (\<lambda>(e, op). keeps_claim ''i'' ''r1'' op) ?ops" by (simp add: status_simps)
  from claim_won_once [OF claim this, of "sorted_env 5" "Some ''r2''"] show ?thesis by (metis fst_conv)
qed

text \<open>Terminal statuses are final in the store: after an invocation has reached one, no sequence
  of status requests, for this or other invocations, changes its record.\<close>

theorem terminal_record_frozen:
  assumes "status_records s i = Some cur" and "is_terminal (sr_status cur)"
  shows "status_records (fold (\<lambda>(e, j, st, r) s. snd (set_invocation_status e j st r s)) reqs s) i = Some cur"
  by (rule mem.terminal_frozen [OF assms])

theorem terminal_record_frozen_witness:
  "status_records (snd (set_invocation_status (sorted_env 2) ''i'' Rerouted None
       (orch_new\<lparr>status_records := [''i'' \<mapsto> status_record_new 1 Success None]\<rparr>))) ''i'' =
     Some (status_record_new 1 Success None)"
  using terminal_record_frozen [of "orch_new\<lparr>status_records := [''i'' \<mapsto> status_record_new 1 Success None]\<rparr>"
      "''i''" "status_record_new 1 Success None" "[(sorted_env 2, ''i'', Rerouted, None)]"]
  by (simp add: status_record_new_def)


text \<open>A configuration for the examples: one slot for the whole task.\<close>

definition ex_config :: task_config where
  "ex_config = task_config_default\<lparr>concurrency_control := TaskCC, running_concurrency := Some 1\<rparr>"

lemma ex_config_limit: "cc_limit ex_config = 1" "concurrency_control ex_config = TaskCC"
  by (simp_all add: cc_limit_def ex_config_def)


text \<open>A granted slot is held, a refused one changes nothing and means the limit is taken by
  others: the two outcomes of a slot request on a state that satisfies the invariant.\<close>

theorem slot_request_outcomes:
  assumes "orch_inv s" and "concurrency_control c \<noteq> Unlimited"
  shows "let ps = cc_arg_pairs (or_else a []);
             others = card (slot_holders (display_task_id t) ps s - {i});
             (r, s') = try_acquire_concurrency_slot i t c a s
         in (if cc_limit c \<le> others then r = Inr False \<and> s' = s
             else r = Inr True \<and> i \<in> slot_holders (display_task_id t) ps s')"
  using assms(2)
  by (auto simp: try_acquire_concurrency_slot_def Let_def cc_intersection_holders cc_arg_pairs_def
      slot_holders_def ms_simps cc_triples_def)

theorem slot_request_outcomes_witness:
  "''i'' \<in> slot_holders (display_task_id ex_task) [([], [])]
     (snd (try_acquire_concurrency_slot ''i'' ex_task ex_config None orch_new))"
  using slot_request_outcomes [OF orch_new_inv, of ex_config None ex_task "''i''"]
  by (simp add: ex_config_limit cc_arg_pairs_def slot_holders_def orch_new_def ms_simps Let_def
      split: prod.splits)

text \<open>Completion releases every waiter: when invocations are not deleted from under their waiters,
  releasing an invocation returns exactly the recorded waiters, and afterwards nobody waits for it.\<close>

theorem release_leaves_no_waiter:
  assumes "list_all (\<lambda>(e, op). \<not> removes op \<and> hash_order_ok (hash_order e)) ops"
    and "hash_order_ok (hash_order e)"
  shows "\<exists>released s'. release_waiters e x (orch_run ops orch_new) = (Inr released, s') \<and>
           set released = ms_get (waiters (orch_run ops orch_new)) x \<and>
           {w. waiting_for (orch_run ops orch_new) w = Some x} \<subseteq> set released \<and>
           {w. waiting_for s' w = Some x} = {}"
proof -
  let ?s = "orch_run ops orch_new"
  have "wait_ok orch_new" by (simp add: wait_ok_def orch_new_def)
  then have w: "wait_ok ?s" by (rule run_wait_ok [OF _ orch_new_inv assms(1)])
  have "finite (ms_get (waiters ?s) x)"
    using reachable_inv [of ops] by (simp add: orch_inv_def sets_finite_def)
  then have "set (hash_order e (or_else (waiters ?s x) {})) = ms_get (waiters ?s) x"
    using hash_order_set [OF assms(2)] by (simp add: ms_get_def or_else_def)
  then show ?thesis
    using w by (auto simp: release_waiters_def Let_def wait_ok_def fold_del restrict_map_def)
qed

theorem release_leaves_no_waiter_witness:
  "{w. waiting_for (snd (release_waiters (sorted_env 2) ''x''
      (orch_run [(sorted_env 1, SetWaitingFor ''w'' ''x'')] orch_new))) w = Some ''x''} = {}"
  using release_leaves_no_waiter [of "[(sorted_env 1, SetWaitingFor ''w'' ''x'')]" "sorted_env 2" "''x''"]
  by auto

text \<open>Deleting an invocation strands its waiters: the waiter still points to it, but a later
  release of the deleted invocation finds nobody.\<close>

theorem removal_strands_waiters:
  assumes "waiting_for s w = Some x" and "w \<noteq> x" and "hash_order_ok (hash_order e)"
  shows "waiting_for (snd (release_waiters e x (snd (remove_invocation x s)))) w = Some x \<and>
         fst (release_waiters e x (snd (remove_invocation x s))) = Inr []"
  using assms hash_order_empty [OF assms(3)]
  by (simp add: release_waiters_def Let_def remove_invocation_eqs)

theorem removal_strands_waiters_witness:
  "fst (release_waiters (sorted_env 2) ''x''
     (snd (remove_invocation ''x'' (snd (set_waiting_for ''w'' ''x'' orch_new))))) = Inr []"
  using removal_strands_waiters [of "snd (set_waiting_for ''w'' ''x'' orch_new)" "''w''" "''x''" "sorted_env 2"]
  by (simp add: set_waiting_for_def)

end
