(* ===== verification/Mem_Orchestrator_Query.thy ===== *)
theory Mem_Orchestrator_Query
  imports Mem_Orchestrator_Inv
begin

text \<open>
  The read-only operations of the in-memory orchestrator: \<^verbatim>\<open>orchestrator/query.rs\<close> and
  the scans of \<^verbatim>\<open>orchestrator/recovery.rs\<close>. A scan of a hash map is a filter over the
  order in which this call iterates the map.
\<close>

section \<open>Queries\<close>

definition get_invocations_by_task :: "env \<Rightarrow> task_id \<Rightarrow> orch_state \<Rightarrow> str list" where
  "get_invocations_by_task e t s =
     (case task_invocations s (display_task_id t) of None \<Rightarrow> [] | Some ids \<Rightarrow> hash_order e ids)"

definition get_invocations_by_call :: "env \<Rightarrow> call_id \<Rightarrow> orch_state \<Rightarrow> str list" where
  "get_invocations_by_call e c s =
     (case call_invocations s (display_call_id c) of None \<Rightarrow> [] | Some ids \<Rightarrow> hash_order e ids)"

definition in_task :: "task_id option \<Rightarrow> orch_state \<Rightarrow> str \<Rightarrow> bool" where
  "in_task t s i \<longleftrightarrow>
     (case t of
        None \<Rightarrow> True
      | Some tid \<Rightarrow>
          (case task_invocations s (display_task_id tid) of None \<Rightarrow> False | Some ids \<Rightarrow> i \<in> ids))"

definition has_status :: "invocation_status list \<Rightarrow> orch_state \<Rightarrow> str \<Rightarrow> bool" where
  "has_status sts s i \<longleftrightarrow>
     (case status_records s i of None \<Rightarrow> False | Some r \<Rightarrow> sr_status r \<in> set sts)"

definition get_invocations_by_status ::
    "env \<Rightarrow> invocation_status \<Rightarrow> task_id option \<Rightarrow> orch_state \<Rightarrow> str list" where
  "get_invocations_by_status e st t s =
     filter (\<lambda>i. has_status [st] s i \<and> in_task t s i) (hash_order e (dom (status_records s)))"

text \<open>The filter shared by counting and pagination: no status list means every status.\<close>

definition matches ::
    "task_id option \<Rightarrow> invocation_status list option \<Rightarrow> orch_state \<Rightarrow> str \<Rightarrow> bool" where
  "matches t sts s i \<longleftrightarrow>
     (case sts of None \<Rightarrow> True | Some ss \<Rightarrow> has_status ss s i) \<and> in_task t s i"

definition count_invocations ::
    "env \<Rightarrow> task_id option \<Rightarrow> invocation_status list option \<Rightarrow> orch_state \<Rightarrow> nat" where
  "count_invocations e t sts s =
     length (filter (matches t sts s) (hash_order e (dom (status_records s))))"

definition get_invocation_ids_paginated ::
    "env \<Rightarrow> task_id option \<Rightarrow> invocation_status list option \<Rightarrow> nat \<Rightarrow> nat \<Rightarrow> orch_state \<Rightarrow> str list" where
  "get_invocation_ids_paginated e t sts limit offset s =
     (let ids = sort (filter (matches t sts s) (hash_order e (dom (status_records s))))
      in take limit (drop offset ids))"

definition filter_by_status :: "str list \<Rightarrow> invocation_status list \<Rightarrow> orch_state \<Rightarrow> str list" where
  "filter_by_status ids sts s = filter (has_status sts s) ids"

text \<open>
  The loop pushes a candidate and then compares the length with the maximum, so it returns at
  least one candidate when there is one, even for a maximum of zero.
\<close>

fun blocking_loop :: "nat \<Rightarrow> orch_state \<Rightarrow> str list \<Rightarrow> str list \<Rightarrow> str list" where
  "blocking_loop max_num s result [] = result"
| "blocking_loop max_num s result (x # xs) =
     (if ms_get (waiters s) x = {} then blocking_loop max_num s result xs
      else if waiting_for s x \<noteq> None then blocking_loop max_num s result xs
      else (case status_records s x of
              None \<Rightarrow> blocking_loop max_num s result xs
            | Some r \<Rightarrow>
                (if is_available_for_run (sr_status r) then
                   (let result' = result @ [x]
                    in if max_num \<le> length result' then result' else blocking_loop max_num s result' xs)
                 else blocking_loop max_num s result xs)))"

definition get_blocking_invocations :: "env \<Rightarrow> nat \<Rightarrow> orch_state \<Rightarrow> str list" where
  "get_blocking_invocations e max_num s =
     blocking_loop max_num s [] (hash_order e (dom (waiters s)))"

definition get_existing_invocations ::
    "env \<Rightarrow> task_id \<Rightarrow> serialized_arguments option \<Rightarrow> invocation_status list \<Rightarrow> orch_state \<Rightarrow> str list" where
  "get_existing_invocations e t cc_args sts s =
     filter (\<lambda>i. sts = [] \<or> has_status sts s i) (hash_order e (cc_candidates t cc_args s))"

section \<open>Recovery scans\<close>

definition get_stale_pending_invocations :: "env \<Rightarrow> u64 \<Rightarrow> orch_state \<Rightarrow> str list result" where
  "get_stale_pending_invocations e max_secs s =
     (case sub_secs e (now e) (clamp_i64 max_secs) of
        None \<Rightarrow> Inl Panic
      | Some threshold \<Rightarrow>
          Inr (filter (\<lambda>i. case status_records s i of
                             None \<Rightarrow> False
                           | Some r \<Rightarrow> sr_status r = Pending \<and> sr_timestamp r < threshold)
                 (hash_order e (dom (status_records s)))))"

text \<open>
  Whether a \<^verbatim>\<open>Running\<close> record is stale; the date subtraction is evaluated only for an owner
  that never sent a heartbeat.
\<close>

definition running_stale :: "env \<Rightarrow> int \<Rightarrow> orch_state \<Rightarrow> status_record \<Rightarrow> bool result" where
  "running_stale e dead_seconds s r =
     (case sr_runner r of
        None \<Rightarrow> Inr True
      | Some runner \<Rightarrow>
          (case heartbeats s runner of
             Some last_hb \<Rightarrow> Inr (dead_seconds < whole_secs e (now e - last_hb))
           | None \<Rightarrow>
               (case sub_secs e (now e) dead_seconds of
                  None \<Rightarrow> Inl Panic
                | Some threshold \<Rightarrow> Inr (sr_timestamp r < threshold))))"

fun stale_running_loop :: "env \<Rightarrow> int \<Rightarrow> orch_state \<Rightarrow> str list \<Rightarrow> str list result" where
  "stale_running_loop e d s [] = Inr []"
| "stale_running_loop e d s (i # is) =
     (case status_records s i of
        None \<Rightarrow> stale_running_loop e d s is
      | Some r \<Rightarrow>
          (if sr_status r = Running then
             (case running_stale e d s r of
                Inl err \<Rightarrow> Inl err
              | Inr stale \<Rightarrow>
                  (case stale_running_loop e d s is of
                     Inl err \<Rightarrow> Inl err
                   | Inr rest \<Rightarrow> Inr (if stale then i # rest else rest)))
           else stale_running_loop e d s is))"

definition get_stale_running_invocations :: "env \<Rightarrow> u64 \<Rightarrow> orch_state \<Rightarrow> str list result" where
  "get_stale_running_invocations e dead_after s =
     stale_running_loop e (clamp_i64 dead_after) s (hash_order e (dom (status_records s)))"

definition runner_active :: "env \<Rightarrow> u64 \<Rightarrow> orch_state \<Rightarrow> str \<Rightarrow> bool" where
  "runner_active e timeout_secs s r \<longleftrightarrow>
     (case heartbeats s r of
        None \<Rightarrow> False
      | Some last_hb \<Rightarrow> whole_secs e (now e - last_hb) \<le> clamp_i64 timeout_secs)"

definition get_active_runner_ids :: "env \<Rightarrow> u64 \<Rightarrow> orch_state \<Rightarrow> str list" where
  "get_active_runner_ids e timeout_secs s =
     filter (runner_active e timeout_secs s) (hash_order e (dom (heartbeats s)))"

record active_runner_info =
  ari_runner_id :: str
  ari_creation_time :: time
  ari_last_heartbeat :: time
  ari_can_run_atomic_service :: bool
  ari_last_service_start :: "time option"
  ari_last_service_end :: "time option"

definition runner_info :: "orch_state \<Rightarrow> str \<Rightarrow> active_runner_info" where
  "runner_info s r =
     (let hb = or_else (heartbeats s r) 0
      in \<lparr>ari_runner_id = r,
          ari_creation_time = or_else (runner_created s r) hb,
          ari_last_heartbeat = hb,
          ari_can_run_atomic_service = or_else (runner_atomic_eligible s r) False,
          ari_last_service_start = runner_last_service_start s r,
          ari_last_service_end = runner_last_service_end s r\<rparr>)"

definition get_active_runners :: "env \<Rightarrow> u64 \<Rightarrow> bool option \<Rightarrow> orch_state \<Rightarrow> active_runner_info list" where
  "get_active_runners e timeout_secs eligible s =
     sort_key ari_creation_time
       (map (runner_info s)
         (filter (\<lambda>r. case eligible of
                        None \<Rightarrow> True
                      | Some b \<Rightarrow> or_else (runner_atomic_eligible s r) False = b)
           (filter (runner_active e timeout_secs s) (hash_order e (dom (heartbeats s))))))"

definition get_atomic_service_timeline :: "orch_state \<Rightarrow> atomic_service_execution list" where
  "get_atomic_service_timeline s = sort_key (\<lambda>a. - ase_start a) (atomic_timeline s)"

section \<open>Lemmas\<close>

lemma sort_filter_order:
  assumes "hash_order_ok (hash_order e)" and "finite A"
  shows "sort (filter P (hash_order e A)) = sorted_list_of_set {i \<in> A. P i}"
proof -
  have "set (hash_order e A) = A" "distinct (hash_order e A)"
    using assms hash_order_set hash_order_distinct by blast+
  then have "sorted_list_of_set {i \<in> A. P i} = sort (remdups (filter P (hash_order e A)))"
    by (metis (mono_tags, lifting) Collect_cong set_filter sorted_list_of_set_sort_remdups)
  then show ?thesis using \<open>distinct (hash_order e A)\<close> by (simp add: distinct_remdups_id)
qed

definition blocking_candidate :: "orch_state \<Rightarrow> str \<Rightarrow> bool" where
  "blocking_candidate s x \<longleftrightarrow>
     ms_get (waiters s) x \<noteq> {} \<and> waiting_for s x = None \<and>
     (\<exists>r. status_records s x = Some r \<and> is_available_for_run (sr_status r))"

lemma blocking_loop_Cons:
  "blocking_loop n s result (x # xs) =
     (if blocking_candidate s x
      then (if n \<le> Suc (length result) then result @ [x] else blocking_loop n s (result @ [x]) xs)
      else blocking_loop n s result xs)"
  by (auto simp: blocking_candidate_def Let_def split: option.splits)

lemma blocking_loop_spec:
  "length result < max 1 n \<Longrightarrow>
     blocking_loop n s result xs = result @ take (max 1 n - length result) (filter (blocking_candidate s) xs)"
proof (induction xs arbitrary: result)
  case Nil
  then show ?case by simp
next
  case (Cons x xs)
  show ?case
  proof (cases "blocking_candidate s x \<and> \<not> n \<le> Suc (length result)")
    case True
    then have "length (result @ [x]) < max 1 n" by simp
    then show ?thesis using Cons.IH [of "result @ [x]"] True 
      by (auto simp: blocking_loop_Cons take_Cons' Suc_diff_Suc simp del: blocking_loop.simps)
  next
    case False
    then show ?thesis
      using Cons.IH [of result] Cons.prems 
      by (auto simp: blocking_loop_Cons take_Cons' simp del: blocking_loop.simps)
  qed
qed

lemma stale_running_loop_spec:
  assumes "stale_running_loop e d s xs = Inr ys"
  shows "set ys = {i \<in> set xs. \<exists>r. status_records s i = Some r \<and> sr_status r = Running \<and>
           running_stale e d s r = Inr True}"
  using assms
proof (induction xs arbitrary: ys)
  case Nil
  then show ?case by simp
next
  case (Cons x xs)
  then show ?case by (fastforce split: option.splits if_splits sum.splits)
qed

lemma stale_running_loop_defined:
  assumes "stale_running_loop e d s xs = Inr ys" and "i \<in> set xs"
    and "status_records s i = Some r" and "sr_status r = Running"
  shows "\<exists>b. running_stale e d s r = Inr b"
  using assms
proof (induction xs arbitrary: ys)
  case Nil
  then show ?case by simp
next
  case (Cons x xs)
  then show ?case by (auto split: option.splits if_splits sum.splits)
qed

definition owner_dead :: "env \<Rightarrow> int \<Rightarrow> orch_state \<Rightarrow> status_record \<Rightarrow> bool" where
  "owner_dead e d s r \<longleftrightarrow>
     (case sr_runner r of
        None \<Rightarrow> True
      | Some runner \<Rightarrow>
          (case heartbeats s runner of
             Some hb \<Rightarrow> (d + 1) * ns_per_sec \<le> now e - hb
           | None \<Rightarrow> sr_timestamp r < now e - d * ns_per_sec))"

lemma running_stale_owner_dead:
  assumes "chrono_ok e" and "0 \<le> d" and "running_stale e d s r = Inr b"
  shows "b = owner_dead e d s r"
proof -
  have "whole_secs e x = num_seconds x" for x using assms(1) by (simp add: chrono_ok_def)
  moreover have "sub_secs e (now e) d = Some x \<Longrightarrow> x = now e - d * ns_per_sec" for x
    using assms(1) by (simp add: chrono_ok_def)
  ultimately show ?thesis
    using assms(3) num_seconds_gt_iff [OF assms(2)]
    by (auto simp: running_stale_def owner_dead_def split: option.splits)
qed

lemma stale_running_iff:
  assumes "orch_inv s" and "hash_order_ok (hash_order e)" and "chrono_ok e"
    and "get_stale_running_invocations e d s = Inr ids"
  shows "i \<in> set ids \<longleftrightarrow>
    (\<exists>r. status_records s i = Some r \<and> sr_status r = Running \<and> owner_dead e (clamp_i64 d) s r)"
proof -
  have "finite (dom (status_records s))" using assms(1) by (simp add: orch_inv_def)
  then have dom: "set (hash_order e (dom (status_records s))) = dom (status_records s)"
    using hash_order_set [OF assms(2)] by blast
  have loop: "stale_running_loop e (clamp_i64 d) s (hash_order e (dom (status_records s))) = Inr ids"
    using assms(4) by (simp add: get_stale_running_invocations_def)
  have "(running_stale e (clamp_i64 d) s r = Inr True) = owner_dead e (clamp_i64 d) s r"
    if "status_records s i = Some r" "sr_status r = Running" for i r
  proof -
    have "i \<in> set (hash_order e (dom (status_records s)))" using that dom by auto
    from stale_running_loop_defined [OF loop this that] obtain b
      where b: "running_stale e (clamp_i64 d) s r = Inr b" by blast
    then have "b = owner_dead e (clamp_i64 d) s r"
      using running_stale_owner_dead [OF assms(3)] clamp_i64_bounds by blast
    then show ?thesis using b by simp
  qed
  then show ?thesis using stale_running_loop_spec [OF loop] dom by auto
qed

text \<open>A run for the examples: an invocation is registered, claimed and started at times 0, 1 and 2.\<close>

definition ex_ops :: "(env \<times> orch_op) list" where
  "ex_ops = [(sorted_env 0, Register ''i'' (call_dto_new id id ex_task []) None),
             (sorted_env 1, SetStatus ''i'' Pending (Some ''r'')),
             (sorted_env 2, SetStatus ''i'' Running (Some ''r''))]"

lemma ex_run:
  "status_records (orch_run ex_ops orch_new) = [''i'' \<mapsto> status_record_new 2 Running (Some ''r'')]"
  "heartbeats (orch_run ex_ops orch_new) = Map.empty"
  by (simp_all add: ex_ops_def orch_run_def register_invocation_with_id_def Let_def orch_new_def
      set_invocation_status_def machine_defs write_status_def)

section \<open>Properties\<close>

text \<open>Pagination does not depend on hash order: a page is a window of the sorted matching ids, so
  a window of pages of one size, laid end to end, lists each matching id once and in order.\<close>

theorem pages_partition_the_matches:
  assumes "orch_inv s" and "hash_order_ok (hash_order e)"
  shows "concat (map (\<lambda>n. get_invocation_ids_paginated e t sts limit (n * limit) s) [0..<k]) =
           take (k * limit) (sorted_list_of_set {i \<in> dom (status_records s). matches t sts s i}) \<and>
         count_invocations e t sts s = card {i \<in> dom (status_records s). matches t sts s i}"
proof -
  let ?M = "{i \<in> dom (status_records s). matches t sts s i}"
  have fin: "finite (dom (status_records s))" using assms(1) by (simp add: orch_inv_def)
  have sorted: "sort (filter (matches t sts s) (hash_order e (dom (status_records s)))) = sorted_list_of_set ?M"
    using sort_filter_order [OF assms(2) fin] .
  have "concat (map (\<lambda>n. take limit (drop (n * limit) xs)) [0..<k]) = take (k * limit) xs" for xs :: "str list"
    by (induction k) (simp_all add: take_add add.commute [of limit])
  then have "concat (map (\<lambda>n. get_invocation_ids_paginated e t sts limit (n * limit) s) [0..<k]) =
      take (k * limit) (sorted_list_of_set ?M)"
    by (simp add: get_invocation_ids_paginated_def Let_def sorted)
  moreover have "count_invocations e t sts s = card ?M"
    using arg_cong [OF sorted, of length] fin by (simp add: count_invocations_def)
  ultimately show ?thesis by simp
qed

theorem pages_partition_the_matches_witness:
  "count_invocations (sorted_env 9) None None (orch_run ex_ops orch_new) = 1"
proof -
  have "{i \<in> dom (status_records (orch_run ex_ops orch_new)).
      matches None None (orch_run ex_ops orch_new) i} = {''i''}"
    by (auto simp: matches_def in_task_def ex_run)
  then show ?thesis
    using pages_partition_the_matches [OF reachable_inv [of ex_ops], of "sorted_env 9" None None 1 1]
    by simp
qed

text \<open>Recovery finds exactly the invocations whose runner is dead: when the scan returns, the
  result is the set of \<^verbatim>\<open>Running\<close> invocations whose owner's last heartbeat is more than the
  configured whole seconds old, or that have an owner without any heartbeat and a record older than
  that, or no owner.\<close>

theorem stale_running_spec:
  assumes "orch_inv s" and "hash_order_ok (hash_order e)" and "chrono_ok e"
    and "get_stale_running_invocations e d s = Inr ids"
  shows "set ids = {i. \<exists>r. status_records s i = Some r \<and> sr_status r = Running \<and>
                          owner_dead e (clamp_i64 d) s r}"
  using stale_running_iff [OF assms] by blast

theorem stale_running_spec_witness:
  "{''i''} = {i. \<exists>r. status_records (orch_run ex_ops orch_new) i = Some r \<and> sr_status r = Running \<and>
     owner_dead (sorted_env 500000000000) (clamp_i64 300) (orch_run ex_ops orch_new) r}"
proof -
  have "get_stale_running_invocations (sorted_env 500000000000) 300 (orch_run ex_ops orch_new) = Inr [''i'']"
    by (simp add: get_stale_running_invocations_def ex_run running_stale_def status_record_new_def
        clamp_i64_def) (simp add: sorted_env_def)
  from stale_running_spec [OF reachable_inv _ _ this] show ?thesis by simp
qed

text \<open>Waited-on invocations offered for early execution are available, have waiters and wait for
  nothing themselves; a positive maximum bounds their number and is exhausted when candidates
  remain.\<close>

theorem blocking_invocations_spec:
  assumes "orch_inv s" and "hash_order_ok (hash_order e)"
  shows "set (get_blocking_invocations e n s) \<subseteq> {x. blocking_candidate s x} \<and>
         length (get_blocking_invocations e n s) = min (max 1 n) (card {x. blocking_candidate s x})"
proof -
  have fin: "finite (dom (waiters s))" using assms(1) by (simp add: orch_inv_def sets_finite_def)
  have eq: "get_blocking_invocations e n s =
      take (max 1 n) (filter (blocking_candidate s) (hash_order e (dom (waiters s))))"
    by (simp add: get_blocking_invocations_def blocking_loop_spec)
  have "{x \<in> dom (waiters s). blocking_candidate s x} = {x. blocking_candidate s x}"
    by (auto simp: blocking_candidate_def ms_get_def split: option.splits)
  then have "length (filter (blocking_candidate s) (hash_order e (dom (waiters s)))) =
      card {x. blocking_candidate s x}"
    using hash_order_set [OF assms(2) fin] hash_order_distinct [OF assms(2) fin]
    by (simp add: distinct_length_filter Int_commute Collect_conj_eq)
  then show ?thesis using eq by (auto dest: in_set_takeD)
qed

theorem blocking_invocations_spec_witness:
  "length (get_blocking_invocations (sorted_env 9) 0
     (orch_run [(sorted_env 0, Register ''i'' (call_dto_new id id ex_task []) None),
                (sorted_env 1, SetWaitingFor ''w'' ''i'')] orch_new)) = 1"
proof -
  let ?ops = "[(sorted_env 0, Register ''i'' (call_dto_new id id ex_task []) None),
      (sorted_env 1, SetWaitingFor ''w'' ''i'')]"
  have "{x. blocking_candidate (orch_run ?ops orch_new) x} = {''i''}"
    by (auto simp: blocking_candidate_def orch_run_def register_invocation_with_id_def Let_def
        orch_new_def set_waiting_for_def ms_simps status_record_new_def is_available_for_run_iff
        split: if_splits)
  then show ?thesis
    using blocking_invocations_spec [OF reachable_inv [of ?ops], of "sorted_env 9" 0] by simp
qed

end
