(* ===== verification/Mem_Broker.thy ===== *)
theory Mem_Broker
  imports Task_Config "HOL-Library.Multiset"
begin

text \<open>
  The in-memory broker, \<^verbatim>\<open>rustvello-mem/src/broker.rs\<close>, with the routing validation and
  the default batch operations of the \<^verbatim>\<open>Broker\<close> trait
  (\<^verbatim>\<open>rustvello-core/src/broker.rs\<close>). The broker is one vector of queued invocations behind
  a mutex; instants are integers on one axis (the overflow of an instant is not modelled), and of
  \<^verbatim>\<open>wait_for_work\<close> the computation of the wake-up time is modelled, not the suspension.
\<close>

section \<open>Routing validation\<close>

definition is_ascii_alphanumeric :: "char \<Rightarrow> bool" where
  "is_ascii_alphanumeric c \<longleftrightarrow>
     (let n = of_char c :: nat
      in (48 \<le> n \<and> n \<le> 57) \<or> (65 \<le> n \<and> n \<le> 90) \<or> (97 \<le> n \<and> n \<le> 122))"

definition queue_name_ok :: "str \<Rightarrow> bool" where
  "queue_name_ok s \<longleftrightarrow>
     s \<noteq> [] \<and>
     list_all (\<lambda>c. is_ascii_alphanumeric c \<or> c = CHR ''_'' \<or> c = CHR ''.'' \<or> c = CHR ''-'') s"

definition priority_ok :: "f64 \<Rightarrow> bool" where
  "priority_ok p \<longleftrightarrow> f64_is_finite p \<and> f64_le MIN_PRIORITY p \<and> f64_le p MAX_PRIORITY"

definition validate_routing :: "str \<Rightarrow> f64 \<Rightarrow> unit result" where
  "validate_routing q p =
     (if \<not> queue_name_ok q then Inl Configuration
      else if \<not> priority_ok p then Inl Configuration
      else Inr ())"

section \<open>State and routing\<close>

record queued_invocation =
  qi_id :: str
  qi_task :: "task_id option"
  qi_queue :: str
  qi_priority :: f64
  qi_not_before :: "time option"

type_synonym mem_broker = "queued_invocation list"

definition broker_new :: mem_broker where
  "broker_new = []"

definition is_due :: "time \<Rightarrow> queued_invocation \<Rightarrow> bool" where
  "is_due t x \<longleftrightarrow> (case qi_not_before x of None \<Rightarrow> True | Some at \<Rightarrow> at \<le> t)"

definition route_invocation_with_options ::
    "str \<Rightarrow> task_id option \<Rightarrow> str \<Rightarrow> f64 \<Rightarrow> mem_broker \<Rightarrow> unit result \<times> mem_broker" where
  "route_invocation_with_options i task q p b =
     (case validate_routing q p of
        Inl err \<Rightarrow> (Inl err, b)
      | Inr _ \<Rightarrow> (Inr (), b @ [\<lparr>qi_id = i, qi_task = task, qi_queue = q, qi_priority = p,
                                 qi_not_before = None\<rparr>]))"

definition route_invocation_after ::
    "time \<Rightarrow> str \<Rightarrow> task_id option \<Rightarrow> str \<Rightarrow> f64 \<Rightarrow> int \<Rightarrow> mem_broker
       \<Rightarrow> unit result \<times> mem_broker" where
  "route_invocation_after t i task q p delay b =
     (case validate_routing q p of
        Inl err \<Rightarrow> (Inl err, b)
      | Inr _ \<Rightarrow> (Inr (), b @ [\<lparr>qi_id = i, qi_task = task, qi_queue = q, qi_priority = p,
                                 qi_not_before = Some (t + delay)\<rparr>]))"

definition route_invocation :: "str \<Rightarrow> mem_broker \<Rightarrow> unit result \<times> mem_broker" where
  "route_invocation i b = route_invocation_with_options i None DEFAULT_QUEUE 0 b"

definition route_invocation_for_task :: "str \<Rightarrow> task_id \<Rightarrow> mem_broker \<Rightarrow> unit result \<times> mem_broker" where
  "route_invocation_for_task i t b = route_invocation_with_options i (Some t) DEFAULT_QUEUE 0 b"

fun route_invocations :: "str list \<Rightarrow> mem_broker \<Rightarrow> unit result \<times> mem_broker" where
  "route_invocations [] b = (Inr (), b)"
| "route_invocations (i # is) b = and_then (route_invocation i b) (\<lambda>_ b. route_invocations is b)"

section \<open>Retrieval\<close>

text \<open>
  The comparison closure of \<^verbatim>\<open>max_by\<close>, as ``not greater'': priorities by
  \<^verbatim>\<open>total_cmp\<close>, then the indexes in reverse. \<^verbatim>\<open>max_by\<close> replaces the running maximum by
  the next element unless the maximum is greater.
\<close>

definition not_greater :: "nat \<times> queued_invocation \<Rightarrow> nat \<times> queued_invocation \<Rightarrow> bool" where
  "not_greater l r \<longleftrightarrow>
     f64_total_key (qi_priority (snd l)) < f64_total_key (qi_priority (snd r)) \<or>
     (f64_total_key (qi_priority (snd l)) = f64_total_key (qi_priority (snd r)) \<and> fst r \<le> fst l)"

fun max_item :: "(nat \<times> queued_invocation) list \<Rightarrow> (nat \<times> queued_invocation) option" where
  "max_item [] = None"
| "max_item (x # xs) = Some (fold (\<lambda>y m. if not_greater m y then y else m) xs x)"

definition remove_at :: "nat \<Rightarrow> 'a list \<Rightarrow> 'a list" where
  "remove_at n xs = take n xs @ drop (Suc n) xs"

definition pop_best :: "(queued_invocation \<Rightarrow> bool) \<Rightarrow> mem_broker \<Rightarrow> str option \<times> mem_broker" where
  "pop_best elig b =
     (case max_item (filter (\<lambda>(n, x). elig x) (enumerate 0 b)) of
        None \<Rightarrow> (None, b)
      | Some (n, x) \<Rightarrow> (Some (qi_id x), remove_at n b))"

definition task_eligible :: "time \<Rightarrow> str \<Rightarrow> task_id option \<Rightarrow> queued_invocation \<Rightarrow> bool" where
  "task_eligible t q task x \<longleftrightarrow>
     qi_queue x = q \<and> is_due t x \<and> (case task of None \<Rightarrow> True | Some tid \<Rightarrow> qi_task x = Some tid)"

definition retrieve_invocation_from_queue ::
    "time \<Rightarrow> str \<Rightarrow> task_id option \<Rightarrow> mem_broker \<Rightarrow> str option result \<times> mem_broker" where
  "retrieve_invocation_from_queue t q task b =
     (case validate_routing q 0 of
        Inl err \<Rightarrow> (Inl err, b)
      | Inr _ \<Rightarrow> apfst Inr (pop_best (task_eligible t q task) b))"

definition retrieve_invocation ::
    "time \<Rightarrow> task_id option \<Rightarrow> mem_broker \<Rightarrow> str option result \<times> mem_broker" where
  "retrieve_invocation t task b = retrieve_invocation_from_queue t DEFAULT_QUEUE task b"

definition language_eligible :: "time \<Rightarrow> str \<Rightarrow> task_language \<Rightarrow> queued_invocation \<Rightarrow> bool" where
  "language_eligible t q lang x \<longleftrightarrow>
     qi_queue x = q \<and> is_due t x \<and>
     (case qi_task x of None \<Rightarrow> lang = Rust | Some tid \<Rightarrow> tid_language tid = lang)"

definition retrieve_invocation_for_language_from_queue ::
    "time \<Rightarrow> task_language \<Rightarrow> str \<Rightarrow> mem_broker \<Rightarrow> str option result \<times> mem_broker" where
  "retrieve_invocation_for_language_from_queue t lang q b =
     (case validate_routing q 0 of
        Inl err \<Rightarrow> (Inl err, b)
      | Inr _ \<Rightarrow> apfst Inr (pop_best (language_eligible t q lang) b))"

definition retrieve_invocation_for_language ::
    "time \<Rightarrow> task_language \<Rightarrow> mem_broker \<Rightarrow> str option result \<times> mem_broker" where
  "retrieve_invocation_for_language t lang b =
     retrieve_invocation_for_language_from_queue t lang DEFAULT_QUEUE b"

text \<open>The trait's default batch retrieval: at most 10000 rounds, stopping at the first miss.\<close>

fun retrieve_rounds :: "time \<Rightarrow> task_id option \<Rightarrow> nat \<Rightarrow> mem_broker \<Rightarrow> str list result \<times> mem_broker" where
  "retrieve_rounds t task 0 b = (Inr [], b)"
| "retrieve_rounds t task (Suc n) b =
     and_then (retrieve_invocation t task b)
       (\<lambda>r b. case r of
                None \<Rightarrow> (Inr [], b)
              | Some i \<Rightarrow> and_then (retrieve_rounds t task n b) (\<lambda>is b. (Inr (i # is), b)))"

definition retrieve_invocations ::
    "time \<Rightarrow> nat \<Rightarrow> task_id option \<Rightarrow> mem_broker \<Rightarrow> str list result \<times> mem_broker" where
  "retrieve_invocations t max_n task b = retrieve_rounds t task (min max_n 10000) b"

fun validate_queues :: "str list \<Rightarrow> unit result" where
  "validate_queues [] = Inr ()"
| "validate_queues (q # qs) = (case validate_routing q 0 of Inl e \<Rightarrow> Inl e | Inr _ \<Rightarrow> validate_queues qs)"

definition count_invocations_in_queues ::
    "time \<Rightarrow> str list \<Rightarrow> task_id option \<Rightarrow> mem_broker \<Rightarrow> nat result" where
  "count_invocations_in_queues t qs task b =
     (case validate_queues qs of
        Inl e \<Rightarrow> Inl e
      | Inr _ \<Rightarrow>
          Inr (length (filter (\<lambda>x. is_due t x \<and> (qs = [] \<or> qi_queue x \<in> set qs) \<and>
                 (case task of None \<Rightarrow> True | Some tid \<Rightarrow> qi_task x = Some tid)) b)))"

definition broker_count :: "time \<Rightarrow> task_id option \<Rightarrow> mem_broker \<Rightarrow> nat result" where
  "broker_count t task b = count_invocations_in_queues t [] task b"

definition broker_purge :: "task_id option \<Rightarrow> mem_broker \<Rightarrow> unit result \<times> mem_broker" where
  "broker_purge task b =
     (case task of
        Some tid \<Rightarrow> (Inr (), filter (\<lambda>x. qi_task x \<noteq> Some tid) b)
      | None \<Rightarrow> (Inr (), []))"

text \<open>The time at which \<^verbatim>\<open>wait_for_work\<close> wakes without a notification.\<close>

definition next_due :: "time \<Rightarrow> mem_broker \<Rightarrow> time option" where
  "next_due t b =
     (let ats = filter (\<lambda>at. t < at) (List.map_filter qi_not_before b)
      in if ats = [] then None else Some (Min (set ats)))"

section \<open>The contract of a work queue\<close>

text \<open>
  A sequence of events on a queue, routing an item or asking for one, with the multiset of ids
  that were accepted, the multiset of ids that were handed out and the queue that is left.
\<close>

fun queue_run ::
    "('r \<Rightarrow> str \<Rightarrow> 'q \<Rightarrow> unit result \<times> 'q) \<Rightarrow> ('f \<Rightarrow> 'q \<Rightarrow> str option result \<times> 'q)
       \<Rightarrow> ('r \<times> str + 'f) list \<Rightarrow> 'q \<Rightarrow> str multiset \<times> str multiset \<times> 'q" where
  "queue_run route take_one [] q = ({#}, {#}, q)"
| "queue_run route take_one (Inl (x, i) # evs) q =
     (case route x i q of
        (Inr _, q') \<Rightarrow> (case queue_run route take_one evs q' of (acc, del, q'') \<Rightarrow> (add_mset i acc, del, q''))
      | (Inl _, q') \<Rightarrow> queue_run route take_one evs q')"
| "queue_run route take_one (Inr f # evs) q =
     (case take_one f q of
        (Inr (Some i), q') \<Rightarrow> (case queue_run route take_one evs q' of (acc, del, q'') \<Rightarrow> (acc, add_mset i del, q''))
      | (_, q') \<Rightarrow> queue_run route take_one evs q')"

locale work_queue =
  fixes route :: "'r \<Rightarrow> str \<Rightarrow> 'q \<Rightarrow> unit result \<times> 'q"
    and take_one :: "'f \<Rightarrow> 'q \<Rightarrow> str option result \<times> 'q"
    and ids :: "'q \<Rightarrow> str multiset"
  assumes route_ok: "route x i q = (Inr (), q') \<Longrightarrow> ids q' = add_mset i (ids q)"
    and route_err: "route x i q = (Inl err, q') \<Longrightarrow> q' = q"
    and take_some: "take_one f q = (Inr (Some i), q') \<Longrightarrow> ids q = add_mset i (ids q')"
    and take_none: "take_one f q = (Inr None, q') \<Longrightarrow> q' = q"
    and take_err: "take_one f q = (Inl err, q') \<Longrightarrow> q' = q"
begin

lemma conserved:
  "queue_run route take_one evs q = (acc, del, q') \<Longrightarrow> ids q + acc = del + ids q'"
proof (induction evs arbitrary: q acc del q')
  case Nil
  then show ?case by simp
next
  case (Cons ev evs)
  show ?case
  proof (cases ev)
    case (Inl xi)
    obtain x i where xi: "xi = (x, i)" by force
    obtain res q1 where r: "route x i q = (res, q1)" by force
    obtain acc1 del1 q2 where rest: "queue_run route take_one evs q1 = (acc1, del1, q2)"
      by (metis prod_cases3)
    show ?thesis
      using Cons.prems Cons.IH [OF rest] r rest route_ok [of x i q q1] route_err [of x i q _ q1]
      by (cases res) (auto simp: Inl xi)
  next
    case (Inr f)
    obtain res q1 where r: "take_one f q = (res, q1)" by force
    obtain acc1 del1 q2 where rest: "queue_run route take_one evs q1 = (acc1, del1, q2)"
      by (metis prod_cases3)
    show ?thesis
      using Cons.prems Cons.IH [OF rest] r rest take_some [of f q _ q1] take_none [of f q q1]
        take_err [of f q _ q1]
      by (auto simp: Inr split: sum.splits option.splits)
  qed
qed

lemma delivered_was_routed:
  assumes "queue_run route take_one evs q = (acc, del, q')" and "ids q = {#}"
  shows "del \<subseteq># acc"
  using conserved [OF assms(1)] assms(2) by (metis add_0 mset_subset_eq_add_left)

end

section \<open>Selection\<close>

lemma max_item_spec:
  assumes "xs \<noteq> []" and "sorted_wrt (\<lambda>x y. fst x < fst y) xs"
  shows "\<exists>m \<in> set xs. max_item xs = Some m \<and>
     (\<forall>x \<in> set xs. x = m \<or> f64_total_key (qi_priority (snd x)) < f64_total_key (qi_priority (snd m)) \<or>
        (f64_total_key (qi_priority (snd x)) = f64_total_key (qi_priority (snd m)) \<and> fst m < fst x))"
proof -
  let ?beats = "\<lambda>m x. x = m \<or> f64_total_key (qi_priority (snd x)) < f64_total_key (qi_priority (snd m)) \<or>
        (f64_total_key (qi_priority (snd x)) = f64_total_key (qi_priority (snd m)) \<and> fst m < fst x)"
  let ?f = "\<lambda>y m. if not_greater m y then y else m"
  have "fold ?f ys x \<in> insert x (set ys) \<and> (\<forall>z \<in> insert x (set ys). ?beats (fold ?f ys x) z)"
    if "sorted_wrt (\<lambda>x y. fst x < fst y) (x # ys)" for x ys
    using that
  proof (induction ys arbitrary: x)
    case Nil
    then show ?case by simp
  next
    case (Cons y ys)
    have s: "sorted_wrt (\<lambda>x y. fst x < fst y) (?f y x # ys)" using Cons.prems by auto
    have b: "?beats (?f y x) x \<and> ?beats (?f y x) y"
      using Cons.prems by (auto simp: not_greater_def)
    have tr: "?beats m w \<Longrightarrow> ?beats w z \<Longrightarrow> ?beats m z"
      for m w z :: "nat \<times> queued_invocation" by auto
    have IH: "fold ?f ys (?f y x) \<in> insert (?f y x) (set ys)"
      "\<forall>z \<in> insert (?f y x) (set ys). ?beats (fold ?f ys (?f y x)) z"
      using Cons.IH [OF s] by blast+
    have m1: "?beats (fold ?f ys (?f y x)) (?f y x)" using IH(2) by blast
    have "?beats (fold ?f ys (?f y x)) x" "?beats (fold ?f ys (?f y x)) y"
      using tr [OF m1] b by blast+
    moreover have "fold ?f ys (?f y x) \<in> insert x (insert y (set ys))" using IH(1) by (auto split: if_splits)
    ultimately show ?case using IH(2) by simp
  qed
  then show ?thesis using assms by (cases xs) auto
qed

lemma enumerate_filter_sorted:
  "sorted_wrt (\<lambda>x y. fst x < fst y) (filter P (enumerate n xs))"
proof (rule sorted_wrt_filter)
  show "sorted_wrt (\<lambda>x y. fst x < fst y) (enumerate n xs)"
    by (induction xs arbitrary: n) (auto simp: in_set_enumerate_eq)
qed

lemma set_enumerate_filter:
  "set (filter (\<lambda>(n, x). P x) (enumerate 0 xs)) = {(n, xs ! n) | n. n < length xs \<and> P (xs ! n)}"
  by (auto simp: in_set_enumerate_eq)

lemma mset_remove_at: "n < length xs \<Longrightarrow> mset xs = add_mset (xs ! n) (mset (remove_at n xs))"
proof -
  assume n: "n < length xs"
  then have "xs = take n xs @ xs ! n # drop (Suc n) xs" by (simp add: id_take_nth_drop)
  then have "mset xs = mset (take n xs @ xs ! n # drop (Suc n) xs)" by simp
  then show ?thesis by (simp add: remove_at_def)
qed

text \<open>What one retrieval returns: nothing if nothing is eligible, else the eligible item of highest
  priority that was queued first.\<close>

definition best_at :: "(queued_invocation \<Rightarrow> bool) \<Rightarrow> mem_broker \<Rightarrow> nat \<Rightarrow> bool" where
  "best_at elig b n \<longleftrightarrow>
     n < length b \<and> elig (b ! n) \<and>
     (\<forall>m < length b. elig (b ! m) \<longrightarrow> m \<noteq> n \<longrightarrow>
        f64_total_key (qi_priority (b ! m)) < f64_total_key (qi_priority (b ! n)) \<or>
        (f64_total_key (qi_priority (b ! m)) = f64_total_key (qi_priority (b ! n)) \<and> n < m))"

lemma pop_best_cases:
  obtains (none) "list_all (\<lambda>x. \<not> elig x) b" "pop_best elig b = (None, b)"
  | (some) n where "best_at elig b n" "pop_best elig b = (Some (qi_id (b ! n)), remove_at n b)"
proof (cases "filter (\<lambda>(n, x). elig x) (enumerate 0 b) = []")
  case True
  then have "{(n, b ! n) | n. n < length b \<and> elig (b ! n)} = {}"
    using set_enumerate_filter [of elig b] by simp
  then have "list_all (\<lambda>x. \<not> elig x) b" by (auto simp: list_all_length)
  then show ?thesis using True none by (simp add: pop_best_def)
next
  case False
  let ?xs = "filter (\<lambda>(n, x). elig x) (enumerate 0 b)"
  obtain m where m: "m \<in> set ?xs" "max_item ?xs = Some m" and
    best: "\<forall>x \<in> set ?xs. x = m \<or> f64_total_key (qi_priority (snd x)) < f64_total_key (qi_priority (snd m)) \<or>
        (f64_total_key (qi_priority (snd x)) = f64_total_key (qi_priority (snd m)) \<and> fst m < fst x)"
    using max_item_spec [OF False enumerate_filter_sorted] by blast
  obtain n where n: "m = (n, b ! n)" "n < length b" "elig (b ! n)"
    using m(1) unfolding set_enumerate_filter by blast
  have "best_at elig b n"
    unfolding best_at_def
  proof (intro conjI allI impI)
    fix k assume k: "k < length b" "elig (b ! k)" "k \<noteq> n"
    then have "(k, b ! k) \<in> set ?xs" unfolding set_enumerate_filter by blast
    with best n(1) k(3) show "f64_total_key (qi_priority (b ! k)) < f64_total_key (qi_priority (b ! n)) \<or>
        (f64_total_key (qi_priority (b ! k)) = f64_total_key (qi_priority (b ! n)) \<and> n < k)"
      by fastforce
  qed (use n in auto)
  moreover have "pop_best elig b = (Some (qi_id (b ! n)), remove_at n b)"
    using m(2) n(1) by (simp add: pop_best_def)
  ultimately show ?thesis by (rule some)
qed

definition queued_ids :: "mem_broker \<Rightarrow> str multiset" where
  "queued_ids b = image_mset qi_id (mset b)"

lemma best_at_bound: "best_at elig b n \<Longrightarrow> n < length b \<and> elig (b ! n)"
  by (simp add: best_at_def)

lemma pop_best_ids:
  "pop_best elig b = (Some i, b') \<Longrightarrow> queued_ids b = add_mset i (queued_ids b')"
  by (cases elig b rule: pop_best_cases)
    (auto simp: queued_ids_def dest!: best_at_bound mset_remove_at)

lemma pop_best_none: "pop_best elig b = (None, b') \<Longrightarrow> b' = b \<and> list_all (\<lambda>x. \<not> elig x) b"
  by (cases elig b rule: pop_best_cases) auto

text \<open>Both ways of routing and both ways of retrieving, as one interface.\<close>

definition mem_route ::
    "(time \<times> int) option \<times> task_id option \<times> str \<times> f64 \<Rightarrow> str \<Rightarrow> mem_broker \<Rightarrow> unit result \<times> mem_broker" where
  "mem_route x i b =
     (case x of
        (None, task, q, p) \<Rightarrow> route_invocation_with_options i task q p b
      | (Some (t, delay), task, q, p) \<Rightarrow> route_invocation_after t i task q p delay b)"

definition mem_take ::
    "time \<times> str \<times> (task_id option + task_language) \<Rightarrow> mem_broker \<Rightarrow> str option result \<times> mem_broker" where
  "mem_take f b =
     (case f of
        (t, q, Inl task) \<Rightarrow> retrieve_invocation_from_queue t q task b
      | (t, q, Inr lang) \<Rightarrow> retrieve_invocation_for_language_from_queue t lang q b)"

lemma retrieve_ids:
  assumes "apfst Inr (pop_best elig b) = (Inr (Some i), b')"
  shows "queued_ids b = add_mset i (queued_ids b')"
  using assms by (cases "pop_best elig b") (auto dest: pop_best_ids)

interpretation mem_queue: work_queue mem_route mem_take queued_ids
proof unfold_locales
  fix x i b b'
  assume "mem_route x i b = (Inr (), b')"
  then show "queued_ids b' = add_mset i (queued_ids b)"
    by (auto simp: mem_route_def route_invocation_with_options_def route_invocation_after_def
        queued_ids_def split: prod.splits option.splits sum.splits)
next
  fix x i b err b'
  assume "mem_route x i b = (Inl err, b')"
  then show "b' = b"
    by (auto simp: mem_route_def route_invocation_with_options_def route_invocation_after_def
        split: prod.splits option.splits sum.splits)
next
  fix f b i b'
  assume "mem_take f b = (Inr (Some i), b')"
  then show "queued_ids b = add_mset i (queued_ids b')"
    by (auto simp: mem_take_def retrieve_invocation_from_queue_def
        retrieve_invocation_for_language_from_queue_def dest: retrieve_ids split: prod.splits sum.splits)
next
  fix f b b'
  assume "mem_take f b = (Inr None, b')"
  then show "b' = b"
    by (auto simp: mem_take_def retrieve_invocation_from_queue_def apfst_def map_prod_def
        retrieve_invocation_for_language_from_queue_def dest: pop_best_none split: prod.splits sum.splits)
next
  fix f b err b'
  assume "mem_take f b = (Inl err, b')"
  then show "b' = b"
    by (auto simp: mem_take_def retrieve_invocation_from_queue_def apfst_def map_prod_def
        retrieve_invocation_for_language_from_queue_def split: prod.splits sum.splits)
qed

section \<open>Properties\<close>

lemma validate_routing_zero: "validate_routing q 0 = (if queue_name_ok q then Inr () else Inl Configuration)"
  by (simp add: validate_routing_def priority_ok_def f64_is_finite_def f64_le_def f64_is_nan_def
      f64_rank_def f64_negative_def f64_magnitude_def f64_inf_magnitude_def)

lemma default_queue_ok: "queue_name_ok DEFAULT_QUEUE"
  by (simp add: queue_name_ok_def is_ascii_alphanumeric_def)

text \<open>Selection: retrieving from a valid queue returns nothing exactly when no queued item is in
  that queue, due and of the requested task; otherwise it returns and removes the eligible item of
  highest priority, and among equal priorities the one queued first.\<close>

lemma retrieve_highest_priority_fifo:
  assumes "queue_name_ok q"
  shows "(\<exists>n. best_at (task_eligible t q task) b n \<and>
            retrieve_invocation_from_queue t q task b = (Inr (Some (qi_id (b ! n))), remove_at n b)) \<or>
         (list_all (\<lambda>x. \<not> task_eligible t q task x) b \<and>
            retrieve_invocation_from_queue t q task b = (Inr None, b))"
  using assms
  by (cases "task_eligible t q task" b rule: pop_best_cases)
    (auto simp: retrieve_invocation_from_queue_def validate_routing_zero)

text \<open>C28. No loss and no duplication: over any interleaving of routing (immediate or delayed) and
  retrieval (by task or by language, from any queue), what was accepted is exactly what was handed
  out plus what is still queued, counting repetitions.\<close>

theorem broker_conserves_invocations:
  "case queue_run mem_route mem_take evs broker_new of
     (accepted, delivered, b) \<Rightarrow> accepted = delivered + queued_ids b"
proof -
  obtain acc del b where r: "queue_run mem_route mem_take evs broker_new = (acc, del, b)"
    by (metis prod_cases3)
  then show ?thesis
    using mem_queue.conserved [OF r] by (simp add: broker_new_def queued_ids_def)
qed

text \<open>Language isolation: a language worker only ever receives an invocation queued for a task of
  its language, or one queued without a task when the worker is a Rust worker.\<close>

theorem language_workers_isolated:
  assumes "retrieve_invocation_for_language_from_queue t lang q b = (Inr (Some i), b')"
  shows "\<exists>x \<in> set b. qi_id x = i \<and> qi_queue x = q \<and> is_due t x \<and>
           (case qi_task x of None \<Rightarrow> lang = Rust | Some tid \<Rightarrow> tid_language tid = lang)"
proof (cases "language_eligible t q lang" b rule: pop_best_cases)
  case none
  then show ?thesis
    using assms by (simp add: retrieve_invocation_for_language_from_queue_def split: sum.splits)
next
  case (some n)
  then have "qi_id (b ! n) = i"
    using assms by (simp add: retrieve_invocation_for_language_from_queue_def split: sum.splits)
  moreover have "n < length b" "language_eligible t q lang (b ! n)" using best_at_bound [OF some(1)] by auto
  ultimately show ?thesis by (intro bexI [of _ "b ! n"]) (auto simp: language_eligible_def)
qed

theorem language_workers_isolated_witness:
  "retrieve_invocation_for_language_from_queue 0 Python DEFAULT_QUEUE
     [\<lparr>qi_id = ''i'', qi_task = None, qi_queue = DEFAULT_QUEUE, qi_priority = 0, qi_not_before = None\<rparr>] \<noteq>
     (Inr (Some ''i''), [])"
  using language_workers_isolated [of 0 Python DEFAULT_QUEUE
      "[\<lparr>qi_id = ''i'', qi_task = None, qi_queue = DEFAULT_QUEUE, qi_priority = 0, qi_not_before = None\<rparr>]"
      "''i''" "[]"]
  by auto

text \<open>No missed wake-up: between now and the time at which a waiting worker wakes on its own, no
  queued item changes from not due to due; when it would not wake on its own, none ever does.\<close>

theorem no_missed_wakeup:
  assumes "t \<le> t'" and "case next_due t b of None \<Rightarrow> True | Some at \<Rightarrow> t' < at"
  shows "filter (is_due t') b = filter (is_due t) b"
proof -
  let ?ats = "filter (\<lambda>at. t < at) (List.map_filter qi_not_before b)"
  have "is_due t' x = is_due t x" if x: "x \<in> set b" for x
  proof (cases "qi_not_before x")
    case None
    then show ?thesis by (simp add: is_due_def)
  next
    case (Some at)
    have "t' < at" if "t < at"
    proof -
      have mem: "at \<in> set ?ats"
        using x Some that by (force simp: List.map_filter_def)
      then have "?ats \<noteq> []" by (metis empty_iff list.set(1))
      then have "t' < Min (set ?ats)" using assms(2) by (simp add: next_due_def Let_def split: if_splits)
      also have "\<dots> \<le> at" using mem by (intro Min_le) auto
      finally show ?thesis .
    qed
    then show ?thesis using Some assms(1) by (cases "t < at") (auto simp: is_due_def)
  qed
  then show ?thesis by (intro filter_cong) auto
qed

theorem no_missed_wakeup_witness:
  "filter (is_due 4) (snd (route_invocation_after 0 ''i'' None DEFAULT_QUEUE 0 5 [])) =
   filter (is_due 0) (snd (route_invocation_after 0 ''i'' None DEFAULT_QUEUE 0 5 []))"
  by (rule no_missed_wakeup)
    (simp_all add: route_invocation_after_def validate_routing_zero default_queue_ok next_due_def
      List.map_filter_def)

lemma retrieve_rounds_spec:
  "\<exists>is b'. retrieve_rounds t task n b = (Inr is, b') \<and> length is \<le> n \<and>
     queued_ids b = mset is + queued_ids b' \<and>
     (length is < n \<longrightarrow> list_all (\<lambda>x. \<not> task_eligible t DEFAULT_QUEUE task x) b')"
proof (induction n arbitrary: b)
  case 0
  then show ?case by simp
next
  case (Suc n)
  show ?case
  proof (cases "task_eligible t DEFAULT_QUEUE task" b rule: pop_best_cases)
    case none
    then have "retrieve_rounds t task (Suc n) b = (Inr [], b)"
      by (simp add: retrieve_invocation_def retrieve_invocation_from_queue_def validate_routing_zero
          default_queue_ok)
    then show ?thesis using none(1) by simp
  next
    case (some k)
    obtain "is" b' where rest: "retrieve_rounds t task n (remove_at k b) = (Inr is, b')"
      and spec: "length is \<le> n" "queued_ids (remove_at k b) = mset is + queued_ids b'"
        "length is < n \<longrightarrow> list_all (\<lambda>x. \<not> task_eligible t DEFAULT_QUEUE task x) b'"
      using Suc.IH [of "remove_at k b"] by blast
    have "retrieve_rounds t task (Suc n) b = (Inr (qi_id (b ! k) # is), b')"
      using some(2) rest
      by (simp add: retrieve_invocation_def retrieve_invocation_from_queue_def validate_routing_zero
          default_queue_ok)
    moreover have "queued_ids b = add_mset (qi_id (b ! k)) (queued_ids (remove_at k b))"
      by (rule pop_best_ids [OF some(2)])
    ultimately show ?thesis using spec by simp
  qed
qed

text \<open>Batch retrieval drains: it returns at most the requested number (and at most 10000), loses
  nothing, and when it returns fewer than both bounds nothing eligible is left in the queue.\<close>

theorem batch_retrieval_drains:
  "\<exists>is b'. retrieve_invocations t n task b = (Inr is, b') \<and> length is \<le> min n 10000 \<and>
     queued_ids b = mset is + queued_ids b' \<and>
     (min n 10000 \<le> length is \<or> list_all (\<lambda>x. \<not> task_eligible t DEFAULT_QUEUE task x) b')"
  using retrieve_rounds_spec [of t task "min n 10000" b] unfolding retrieve_invocations_def
  by (metis not_le)

end
