(* ===== verification/Mem_State.thy ===== *)
theory Mem_State
  imports Task_Config
begin

text \<open>
  The in-memory stores: the client data store (\<^verbatim>\<open>rustvello-mem/src/client_data_store.rs\<close>) and
  the state backend (\<^verbatim>\<open>rustvello-mem/src/state_backend.rs\<close>) with its invocations, calls,
  results, errors, histories, workflow indexes and runner contexts. Operations that cannot fail and
  do not write return their value.
\<close>

section \<open>Client data store\<close>

type_synonym client_data_store = "str \<rightharpoonup> str"

definition cds_new :: client_data_store where
  "cds_new = Map.empty"

definition cds_store :: "str \<Rightarrow> str \<Rightarrow> client_data_store \<Rightarrow> unit result \<times> client_data_store" where
  "cds_store k v d = (Inr (), d(k \<mapsto> v))"

definition cds_retrieve :: "str \<Rightarrow> client_data_store \<Rightarrow> str result" where
  "cds_retrieve k d = (case d k of None \<Rightarrow> Inl (Infrastructure Query) | Some v \<Rightarrow> Inr v)"

definition cds_purge :: "client_data_store \<Rightarrow> unit result \<times> client_data_store" where
  "cds_purge d = (Inr (), Map.empty)"

section \<open>State backend\<close>

record stored_runner_context =
  src_runner_cls :: str
  src_language :: task_language
  src_executor :: executor_kind
  src_runner_id :: str
  src_pid :: u32
  src_hostname :: str
  src_thread_id :: u64
  src_started_at :: time
  src_parent_runner_id :: "str option"
  src_parent_runner_cls :: "str option"

record backend_state =
  sb_invocations :: "str \<rightharpoonup> invocation_dto"
  sb_calls :: "str \<rightharpoonup> call_dto"
  sb_results :: "str \<rightharpoonup> str"
  sb_errors :: "str \<rightharpoonup> task_error"
  sb_histories :: "str \<rightharpoonup> invocation_history list"
  sb_workflow_members :: "str \<rightharpoonup> str list"
  sb_children :: "str \<rightharpoonup> str list"
  sb_runner_contexts :: "str \<rightharpoonup> stored_runner_context"
  sb_runner_invocations :: "str \<rightharpoonup> str list"
  sb_workflow_types :: "task_id list"
  sb_workflow_runs :: "str \<rightharpoonup> workflow_identity list"
  sb_workflow_data :: "str \<rightharpoonup> (str \<rightharpoonup> str)"
  sb_app_infos :: "str \<rightharpoonup> str"
  sb_workflow_sub_invocations :: "str \<rightharpoonup> str list"

definition backend_new :: backend_state where
  "backend_new =
     \<lparr>sb_invocations = Map.empty, sb_calls = Map.empty, sb_results = Map.empty,
      sb_errors = Map.empty, sb_histories = Map.empty, sb_workflow_members = Map.empty,
      sb_children = Map.empty, sb_runner_contexts = Map.empty,
      sb_runner_invocations = Map.empty, sb_workflow_types = [], sb_workflow_runs = Map.empty,
      sb_workflow_data = Map.empty, sb_app_infos = Map.empty,
      sb_workflow_sub_invocations = Map.empty\<rparr>"

definition upsert_invocation ::
    "invocation_dto \<Rightarrow> call_dto \<Rightarrow> backend_state \<Rightarrow> unit result \<times> backend_state" where
  "upsert_invocation d call s =
     (let is_new = (inv_id d \<notin> dom (sb_invocations s));
          s1 = (if is_new then
                  s\<lparr>sb_workflow_members :=
                      (case inv_workflow d of
                         None \<Rightarrow> sb_workflow_members s
                       | Some w \<Rightarrow> ml_push (workflow_id w) (inv_id d) (sb_workflow_members s)),
                    sb_children :=
                      (case inv_parent d of
                         None \<Rightarrow> sb_children s
                       | Some p \<Rightarrow> ml_push p (inv_id d) (sb_children s))\<rparr>
                else s)
      in (Inr (), s1\<lparr>sb_invocations := (sb_invocations s1)(inv_id d \<mapsto> d),
                     sb_calls := (sb_calls s1)(display_call_id (cd_call_id call) \<mapsto> call)\<rparr>))"

definition get_invocation :: "str \<Rightarrow> backend_state \<Rightarrow> invocation_dto result" where
  "get_invocation i s =
     (case sb_invocations s i of None \<Rightarrow> Inl (InvocationNotFound i) | Some d \<Rightarrow> Inr d)"

definition get_call :: "call_id \<Rightarrow> backend_state \<Rightarrow> call_dto result" where
  "get_call c s =
     (case sb_calls s (display_call_id c) of
        None \<Rightarrow> Inl (Infrastructure Query) | Some call \<Rightarrow> Inr call)"

definition store_result :: "str \<Rightarrow> str \<Rightarrow> backend_state \<Rightarrow> unit result \<times> backend_state" where
  "store_result i r s = (Inr (), s\<lparr>sb_results := (sb_results s)(i \<mapsto> r)\<rparr>)"

definition get_result :: "str \<Rightarrow> backend_state \<Rightarrow> str option" where
  "get_result i s = sb_results s i"

definition store_error :: "str \<Rightarrow> task_error \<Rightarrow> backend_state \<Rightarrow> unit result \<times> backend_state" where
  "store_error i err s = (Inr (), s\<lparr>sb_errors := (sb_errors s)(i \<mapsto> err)\<rparr>)"

definition get_error :: "str \<Rightarrow> backend_state \<Rightarrow> task_error option" where
  "get_error i s = sb_errors s i"

text \<open>The runner a history entry is attributed to.\<close>

definition history_runner :: "invocation_history \<Rightarrow> str option" where
  "history_runner h = (case h_runner_id h of Some r \<Rightarrow> Some r | None \<Rightarrow> sr_runner (h_status_record h))"

definition add_history :: "invocation_history \<Rightarrow> backend_state \<Rightarrow> unit result \<times> backend_state" where
  "add_history h s =
     (Inr (), s\<lparr>sb_runner_invocations :=
                  (case history_runner h of
                     None \<Rightarrow> sb_runner_invocations s
                   | Some r \<Rightarrow> ml_push_new r (h_invocation_id h) (sb_runner_invocations s)),
                sb_histories := ml_push (h_invocation_id h) h (sb_histories s)\<rparr>)"

definition get_history :: "str \<Rightarrow> backend_state \<Rightarrow> invocation_history list" where
  "get_history i s = ml_get (sb_histories s) i"

definition backend_purge :: "backend_state \<Rightarrow> unit result \<times> backend_state" where
  "backend_purge s = (Inr (), backend_new)"

section \<open>Workflow queries\<close>

definition get_workflow_run_offset :: "task_id \<Rightarrow> str \<Rightarrow> backend_state \<Rightarrow> nat option" where
  "get_workflow_run_offset t w s =
     (case sb_workflow_runs s (display_task_id t) of
        None \<Rightarrow> None
      | Some runs \<Rightarrow>
          (if w \<notin> set (map workflow_id runs) then None
           else Some (length (filter (\<lambda>run. w < workflow_id run) runs))))"

definition get_workflow_invocations_page ::
    "str \<Rightarrow> nat \<Rightarrow> nat \<Rightarrow> backend_state \<Rightarrow> str list \<times> nat" where
  "get_workflow_invocations_page w limit offset s =
     (case sb_workflow_members s w of
        None \<Rightarrow> ([], 0)
      | Some members \<Rightarrow> (take limit (drop offset (sort members)), length members))"

definition get_workflow_invocations :: "str \<Rightarrow> backend_state \<Rightarrow> str list" where
  "get_workflow_invocations w s = ml_get (sb_workflow_members s) w"

definition get_child_invocations :: "str \<Rightarrow> backend_state \<Rightarrow> str list" where
  "get_child_invocations p s = ml_get (sb_children s) p"

definition store_workflow_run :: "workflow_identity \<Rightarrow> backend_state \<Rightarrow> unit result \<times> backend_state" where
  "store_workflow_run w s =
     (let key = display_task_id (workflow_type w);
          types = (if key \<in> set (map display_task_id (sb_workflow_types s)) then sb_workflow_types s
                   else sb_workflow_types s @ [workflow_type w]);
          runs = ml_get (sb_workflow_runs s) key
      in (Inr (), s\<lparr>sb_workflow_types := types,
                     sb_workflow_runs := (sb_workflow_runs s)
                       (key \<mapsto> if workflow_id w \<in> set (map workflow_id runs) then runs else runs @ [w])\<rparr>))"

definition get_all_workflow_types :: "backend_state \<Rightarrow> task_id list" where
  "get_all_workflow_types s = sb_workflow_types s"

definition get_workflow_runs :: "task_id \<Rightarrow> backend_state \<Rightarrow> workflow_identity list" where
  "get_workflow_runs t s = ml_get (sb_workflow_runs s) (display_task_id t)"

definition count_workflow_runs :: "task_id \<Rightarrow> backend_state \<Rightarrow> nat" where
  "count_workflow_runs t s = length (ml_get (sb_workflow_runs s) (display_task_id t))"

text \<open>Sorted by descending workflow id.\<close>

definition get_workflow_runs_paginated ::
    "task_id \<Rightarrow> nat \<Rightarrow> nat \<Rightarrow> backend_state \<Rightarrow> workflow_identity list" where
  "get_workflow_runs_paginated t limit offset s =
     take limit (drop offset (rev (sort_key workflow_id (rev (ml_get (sb_workflow_runs s) (display_task_id t))))))"

definition set_workflow_data :: "str \<Rightarrow> str \<Rightarrow> str \<Rightarrow> backend_state \<Rightarrow> unit result \<times> backend_state" where
  "set_workflow_data w k v s =
     (Inr (), s\<lparr>sb_workflow_data := (sb_workflow_data s)
                  (w \<mapsto> (or_else (sb_workflow_data s w) Map.empty)(k \<mapsto> v))\<rparr>)"

definition get_workflow_data :: "str \<Rightarrow> str \<Rightarrow> backend_state \<Rightarrow> str option" where
  "get_workflow_data w k s = (case sb_workflow_data s w of None \<Rightarrow> None | Some m \<Rightarrow> m k)"

definition store_app_info :: "str \<Rightarrow> str \<Rightarrow> backend_state \<Rightarrow> unit result \<times> backend_state" where
  "store_app_info a j s = (Inr (), s\<lparr>sb_app_infos := (sb_app_infos s)(a \<mapsto> j)\<rparr>)"

definition get_app_info :: "str \<Rightarrow> backend_state \<Rightarrow> str option" where
  "get_app_info a s = sb_app_infos s a"

definition get_all_app_infos :: "env \<Rightarrow> backend_state \<Rightarrow> (str \<times> str) list" where
  "get_all_app_infos e s =
     map (\<lambda>a. (a, or_else (sb_app_infos s a) [])) (hash_order e (dom (sb_app_infos s)))"

definition store_workflow_sub_invocation ::
    "str \<Rightarrow> str \<Rightarrow> backend_state \<Rightarrow> unit result \<times> backend_state" where
  "store_workflow_sub_invocation w i s =
     (Inr (), s\<lparr>sb_workflow_sub_invocations := ml_push w i (sb_workflow_sub_invocations s)\<rparr>)"

definition get_workflow_sub_invocations :: "str \<Rightarrow> backend_state \<Rightarrow> str list" where
  "get_workflow_sub_invocations w s = ml_get (sb_workflow_sub_invocations s) w"

definition get_all_workflow_runs :: "env \<Rightarrow> backend_state \<Rightarrow> workflow_identity list" where
  "get_all_workflow_runs e s =
     concat (map (ml_get (sb_workflow_runs s)) (hash_order e (dom (sb_workflow_runs s))))"

section \<open>Runner contexts and history\<close>

definition store_runner_context :: "stored_runner_context \<Rightarrow> backend_state \<Rightarrow> unit result \<times> backend_state" where
  "store_runner_context c s =
     (Inr (), s\<lparr>sb_runner_contexts := (sb_runner_contexts s)(src_runner_id c \<mapsto> c)\<rparr>)"

definition get_runner_context :: "str \<Rightarrow> backend_state \<Rightarrow> stored_runner_context option" where
  "get_runner_context r s = sb_runner_contexts s r"

definition contexts_in_order :: "env \<Rightarrow> backend_state \<Rightarrow> stored_runner_context list" where
  "contexts_in_order e s =
     List.map_filter (sb_runner_contexts s) (hash_order e (dom (sb_runner_contexts s)))"

definition get_runner_contexts_by_parent :: "env \<Rightarrow> str \<Rightarrow> backend_state \<Rightarrow> stored_runner_context list" where
  "get_runner_contexts_by_parent e p s =
     filter (\<lambda>c. src_parent_runner_id c = Some p) (contexts_in_order e s)"

fun str_contains :: "str \<Rightarrow> str \<Rightarrow> bool" where
  "str_contains p [] = (p = [])"
| "str_contains p (c # s) = (take (length p) (c # s) = p \<or> str_contains p s)"

definition get_matching_runner_contexts :: "env \<Rightarrow> str \<Rightarrow> backend_state \<Rightarrow> stored_runner_context list" where
  "get_matching_runner_contexts e p s =
     filter (\<lambda>c. str_contains p (src_runner_id c)) (contexts_in_order e s)"

definition get_invocation_ids_by_runner :: "str \<Rightarrow> nat \<Rightarrow> nat \<Rightarrow> backend_state \<Rightarrow> str list" where
  "get_invocation_ids_by_runner r limit offset s =
     (let ids = drop offset (ml_get (sb_runner_invocations s) r)
      in if 0 < limit then take limit ids else ids)"

definition count_invocations_by_runner :: "str \<Rightarrow> backend_state \<Rightarrow> nat" where
  "count_invocations_by_runner r s = length (ml_get (sb_runner_invocations s) r)"

definition history_time :: "invocation_history \<Rightarrow> time" where
  "history_time h = or_else (h_timestamp h) (sr_timestamp (h_status_record h))"

definition get_history_in_timerange ::
    "env \<Rightarrow> time \<Rightarrow> time \<Rightarrow> nat \<Rightarrow> nat \<Rightarrow> backend_state \<Rightarrow> invocation_history list" where
  "get_history_in_timerange e start end_time limit offset s =
     (let every = concat (map (ml_get (sb_histories s)) (hash_order e (dom (sb_histories s))));
          inside = filter (\<lambda>h. start \<le> history_time h \<and> history_time h \<le> end_time) every;
          rest = drop offset (sort_key history_time inside)
      in if 0 < limit then take limit rest else rest)"

section \<open>The contract of a key-value store\<close>

locale kv_store =
  fixes put :: "'k \<Rightarrow> 'v \<Rightarrow> 's \<Rightarrow> unit result \<times> 's"
    and get :: "'k \<Rightarrow> 's \<Rightarrow> 'v option"
  assumes put_ok: "fst (put k v s) = Inr ()"
    and get_put: "get k (snd (put k v s)) = Some v"
    and get_other: "k' \<noteq> k \<Longrightarrow> get k' (snd (put k v s)) = get k' s"
begin

lemma last_write_wins:
  "get k (fold (\<lambda>(k, v) s. snd (put k v s)) kvs s) =
     (case map_of (rev kvs) k of Some v \<Rightarrow> Some v | None \<Rightarrow> get k s)"
proof (induction kvs arbitrary: s)
  case Nil
  then show ?case by simp
next
  case (Cons p kvs)
  obtain k' v' where p: "p = (k', v')" by force
  have "get k (fold (\<lambda>(k, v) s. snd (put k v s)) (p # kvs) s) =
      (case map_of (rev kvs) k of Some v \<Rightarrow> Some v | None \<Rightarrow> get k (snd (put k' v' s)))"
    using Cons.IH [of "snd (put k' v' s)"] by (simp add: p)
  moreover have "get k (snd (put k' v' s)) = (if k = k' then Some v' else get k s)"
    using get_put get_other by simp
  ultimately show ?case by (auto simp: p map_add_def split: option.splits)
qed

lemma put_commute_get:
  "k \<noteq> k' \<Longrightarrow> get j (snd (put k v (snd (put k' v' s)))) = get j (snd (put k' v' (snd (put k v s))))"
  by (metis get_other get_put)

end

interpretation cds: kv_store cds_store "\<lambda>k d. d k"
  by unfold_locales (auto simp: cds_store_def)

interpretation results: kv_store store_result get_result
  by unfold_locales (auto simp: store_result_def get_result_def)

interpretation errors: kv_store store_error get_error
  by unfold_locales (auto simp: store_error_def get_error_def)

interpretation app_infos: kv_store store_app_info get_app_info
  by unfold_locales (auto simp: store_app_info_def get_app_info_def)

interpretation wf_data: kv_store "\<lambda>(w, k). set_workflow_data w k" "\<lambda>(w, k). get_workflow_data w k"
  by unfold_locales (auto simp: set_workflow_data_def get_workflow_data_def or_else_def
      split: option.splits if_splits)

section \<open>Sequences of operations and the invariant\<close>

datatype state_op =
    Upsert invocation_dto call_dto
  | StoreResult str str
  | StoreError str task_error
  | AddHistory invocation_history
  | StoreWorkflowRun workflow_identity
  | SetWorkflowData str str str
  | StoreAppInfo str str
  | StoreSubInvocation str str
  | StoreRunnerContext stored_runner_context
  | PurgeState

fun state_exec :: "state_op \<Rightarrow> backend_state \<Rightarrow> backend_state" where
  "state_exec (Upsert d c) s = snd (upsert_invocation d c s)"
| "state_exec (StoreResult i r) s = snd (store_result i r s)"
| "state_exec (StoreError i e) s = snd (store_error i e s)"
| "state_exec (AddHistory h) s = snd (add_history h s)"
| "state_exec (StoreWorkflowRun w) s = snd (store_workflow_run w s)"
| "state_exec (SetWorkflowData w k v) s = snd (set_workflow_data w k v s)"
| "state_exec (StoreAppInfo a j) s = snd (store_app_info a j s)"
| "state_exec (StoreSubInvocation w i) s = snd (store_workflow_sub_invocation w i s)"
| "state_exec (StoreRunnerContext c) s = snd (store_runner_context c s)"
| "state_exec PurgeState s = snd (backend_purge s)"

definition state_run :: "state_op list \<Rightarrow> backend_state \<Rightarrow> backend_state" where
  "state_run ops s = fold state_exec ops s"

definition lists_in :: "('k \<rightharpoonup> 'v list) \<Rightarrow> 'v set \<Rightarrow> bool" where
  "lists_in m A \<longleftrightarrow> (\<forall>k. distinct (ml_get m k) \<and> set (ml_get m k) \<subseteq> A)"

definition stored_ok :: "(str \<rightharpoonup> invocation_dto) \<Rightarrow> (str \<rightharpoonup> call_dto) \<Rightarrow> bool" where
  "stored_ok iv calls \<longleftrightarrow>
     (\<forall>i d. iv i = Some d \<longrightarrow> inv_id d = i) \<and>
     (\<forall>k c. calls k = Some c \<longrightarrow> display_call_id (cd_call_id c) = k)"

text \<open>The runner index is exactly what the histories attribute to each runner.\<close>

definition runner_index_ok ::
    "(str \<rightharpoonup> invocation_history list) \<Rightarrow> (str \<rightharpoonup> str list) \<Rightarrow> bool" where
  "runner_index_ok hs ri \<longleftrightarrow>
     (\<forall>r. distinct (ml_get ri r)) \<and>
     (\<forall>r i. (i \<in> set (ml_get ri r)) = (\<exists>h \<in> set (ml_get hs i). history_runner h = Some r)) \<and>
     (\<forall>i. \<forall>h \<in> set (ml_get hs i). h_invocation_id h = i)"

definition runs_ok :: "(str \<rightharpoonup> workflow_identity list) \<Rightarrow> task_id list \<Rightarrow> bool" where
  "runs_ok runs types \<longleftrightarrow>
     distinct (map display_task_id types) \<and>
     (\<forall>k. distinct (map workflow_id (ml_get runs k)) \<and>
          (\<forall>w \<in> set (ml_get runs k). display_task_id (workflow_type w) = k) \<and>
          (ml_get runs k \<noteq> [] \<longrightarrow> k \<in> set (map display_task_id types)))"

definition backend_inv :: "backend_state \<Rightarrow> bool" where
  "backend_inv s \<longleftrightarrow>
     stored_ok (sb_invocations s) (sb_calls s) \<and>
     lists_in (sb_workflow_members s) (dom (sb_invocations s)) \<and>
     lists_in (sb_children s) (dom (sb_invocations s)) \<and>
     runner_index_ok (sb_histories s) (sb_runner_invocations s) \<and>
     runs_ok (sb_workflow_runs s) (sb_workflow_types s)"

lemma lists_in_push:
  "lists_in m (dom iv) \<Longrightarrow> iv x = None \<Longrightarrow> lists_in (ml_push k x m) (insert x (dom iv))"
  by (auto simp: lists_in_def ms_simps)

lemma lists_in_mono: "lists_in m A \<Longrightarrow> lists_in m (insert x A)"
  by (auto simp: lists_in_def)

lemma upsert_inv:
  assumes "backend_inv s"
  shows "backend_inv (snd (upsert_invocation d c s))"
proof -
  have dom: "dom ((sb_invocations s)(inv_id d \<mapsto> d)) = insert (inv_id d) (dom (sb_invocations s))" by simp
  have st: "stored_ok ((sb_invocations s)(inv_id d \<mapsto> d)) ((sb_calls s)(display_call_id (cd_call_id c) \<mapsto> c))"
    using assms by (auto simp: backend_inv_def stored_ok_def)
  show ?thesis
    using assms st
    by (cases "sb_invocations s (inv_id d)")
      (auto simp: backend_inv_def upsert_invocation_def Let_def dom lists_in_push lists_in_mono
        domIff simp del: dom_fun_upd split: option.splits)
qed

lemma add_history_ok:
  assumes "runner_index_ok hs ri"
  shows "runner_index_ok (ml_push (h_invocation_id h) h hs)
    (case history_runner h of None \<Rightarrow> ri | Some r \<Rightarrow> ml_push_new r (h_invocation_id h) ri)"
  using assms
  by (auto simp: runner_index_ok_def ms_simps distinct_ml_push_new split: option.splits if_splits)

lemma store_run_ok:
  assumes "runs_ok runs types"
  shows "runs_ok (runs(display_task_id (workflow_type w) \<mapsto>
       if workflow_id w \<in> set (map workflow_id (ml_get runs (display_task_id (workflow_type w))))
       then ml_get runs (display_task_id (workflow_type w))
       else ml_get runs (display_task_id (workflow_type w)) @ [w]))
     (if display_task_id (workflow_type w) \<in> set (map display_task_id types) then types
      else types @ [workflow_type w])"
  using assms by (auto simp: runs_ok_def ms_simps)

lemma state_exec_inv: "backend_inv s \<Longrightarrow> backend_inv (state_exec op s)"
proof (cases op)
  case (Upsert d c)
  then show "backend_inv s \<Longrightarrow> ?thesis" by (simp add: upsert_inv)
next
  case (AddHistory h)
  then show "backend_inv s \<Longrightarrow> ?thesis" by (simp add: backend_inv_def add_history_def add_history_ok)
next
  case (StoreWorkflowRun w)
  then show "backend_inv s \<Longrightarrow> ?thesis"
    using store_run_ok [of "sb_workflow_runs s" "sb_workflow_types s" w]
    by (simp add: backend_inv_def store_workflow_run_def Let_def)
qed (simp_all add: backend_inv_def store_result_def store_error_def set_workflow_data_def
  store_app_info_def store_workflow_sub_invocation_def store_runner_context_def backend_purge_def,
  simp add: backend_new_def stored_ok_def lists_in_def runner_index_ok_def runs_ok_def ms_simps)

lemma backend_new_inv: "backend_inv backend_new"
  by (simp add: backend_inv_def backend_new_def stored_ok_def lists_in_def runner_index_ok_def
      runs_ok_def ms_simps)

lemma state_run_inv: "backend_inv s \<Longrightarrow> backend_inv (state_run ops s)"
  by (induction ops arbitrary: s) (simp_all add: state_run_def state_exec_inv)

lemma sorted_window:
  "sorted (map f (take n (drop m (sort_key f xs))))" "sorted (map f (drop m (sort_key f xs)))"
  by (simp_all add: take_map [symmetric] drop_map [symmetric] sorted_wrt_take sorted_wrt_drop)

lemma set_window:
  "set (take n (drop m (sort_key f xs))) \<subseteq> set xs" "set (drop m (sort_key f xs)) \<subseteq> set xs"
  by (auto dest!: in_set_takeD in_set_dropD)

section \<open>Properties\<close>

text \<open>The invariant of the in-memory state backend holds after any sequence of operations: stored
  records sit under their own keys, each workflow and parent lists each member once and only stored
  ones, the runner index lists exactly the invocations whose history names the runner, and workflow
  runs are listed once under their own type.\<close>

theorem backend_invariant: "backend_inv (state_run ops backend_new)"
  by (rule state_run_inv [OF backend_new_inv])

text \<open>Results are last-write-wins per invocation: after any sequence of stores the result read for
  an invocation is the last one stored for it, or the earlier one if none was.\<close>

theorem results_last_write_wins:
  "get_result i (fold (\<lambda>(i, r) s. snd (store_result i r s)) stores s) =
     (case map_of (rev stores) i of Some r \<Rightarrow> Some r | None \<Rightarrow> get_result i s)"
  by (rule results.last_write_wins)

text \<open>Workflow data of different keys or workflows is independent, and client data reads back what
  was stored or reports a query error when nothing was.\<close>

theorem data_stores_read_back:
  "(case fold (\<lambda>(k, v) s. snd (set_workflow_data (fst k) (snd k) v s)) stores backend_new of
      s \<Rightarrow> get_workflow_data w k s = map_of (rev stores) (w, k)) \<and>
   cds_retrieve key (fold (\<lambda>(k, v) d. snd (cds_store k v d)) puts cds_new) =
     (case map_of (rev puts) key of None \<Rightarrow> Inl (Infrastructure Query) | Some v \<Rightarrow> Inr v)"
proof -
  have "get_workflow_data w k backend_new = None" by (simp add: get_workflow_data_def backend_new_def)
  then have "get_workflow_data w k
      (fold (\<lambda>(k, v) s. snd (set_workflow_data (fst k) (snd k) v s)) stores backend_new) =
      map_of (rev stores) (w, k)"
    using wf_data.last_write_wins [of "(w, k)" stores backend_new]
    by (simp add: case_prod_beta' split: option.splits)
  moreover have "fold (\<lambda>(k, v) d. snd (cds_store k v d)) puts cds_new key = map_of (rev puts) key"
    using cds.last_write_wins [where k = key and kvs = puts and s = cds_new] by (simp add: cds_new_def split: option.splits)
  ultimately show ?thesis by (simp add: cds_retrieve_def)
qed

text \<open>History in a time range: whatever the hash order, the entries returned are sorted by time,
  lie in the range, and when no limit is given and nothing is skipped they are all stored entries in
  the range.\<close>

theorem history_timerange_spec:
  assumes "hash_order_ok (hash_order e)" and "finite (dom (sb_histories s))"
  shows "sorted (map history_time (get_history_in_timerange e a b limit offset s)) \<and>
         set (get_history_in_timerange e a b limit offset s) \<subseteq> {h. a \<le> history_time h \<and> history_time h \<le> b} \<and>
         set (get_history_in_timerange e a b 0 0 s) =
           {h. \<exists>i. h \<in> set (get_history i s) \<and> a \<le> history_time h \<and> history_time h \<le> b}"
proof -
  let ?all = "concat (map (ml_get (sb_histories s)) (hash_order e (dom (sb_histories s))))"
  let ?in = "filter (\<lambda>h. a \<le> history_time h \<and> history_time h \<le> b) ?all"
  have all: "set ?all = {h. \<exists>i. h \<in> set (get_history i s)}"
  proof -
    have "h \<in> set (ml_get (sb_histories s) i) \<Longrightarrow> i \<in> dom (sb_histories s)" for h i
      by (cases "sb_histories s i") (auto simp: ml_get_def)
    moreover have "set ?all = (\<Union>i \<in> dom (sb_histories s). set (ml_get (sb_histories s) i))"
      using hash_order_set [OF assms] by simp
    ultimately show ?thesis unfolding get_history_def by blast
  qed
  have res: "get_history_in_timerange e a b l m s =
      (if 0 < l then take l (drop m (sort_key history_time ?in)) else drop m (sort_key history_time ?in))" for l m
    by (simp only: get_history_in_timerange_def Let_def)
  have "set (get_history_in_timerange e a b 0 0 s) = set ?in"
    by (simp only: res less_irrefl if_False drop0 set_sort)
  moreover have "sorted (map history_time (get_history_in_timerange e a b limit offset s))"
    unfolding res using sorted_window [of history_time] by simp
  moreover have "set (get_history_in_timerange e a b limit offset s) \<subseteq> set ?in"
    unfolding res by (cases "0 < limit") (simp_all only: if_True if_False set_window)
  ultimately show ?thesis using all by auto
qed

theorem history_timerange_spec_witness:
  "set (get_history_in_timerange (sorted_env 5) 0 9 0 0
      (snd (add_history (history_new ''i'' (status_record_new 3 Registered None) None) backend_new))) =
   {history_new ''i'' (status_record_new 3 Registered None) None}"
  (is "set (get_history_in_timerange _ _ _ _ _ ?s) = {?h}")
proof -
  have hs: "sb_histories ?s = [''i'' \<mapsto> [?h]]"
    by (simp add: add_history_def history_new_def ml_push_def ml_get_def backend_new_def)
  have "get_history i ?s = (if i = ''i'' then [?h] else [])" for i
    by (simp add: get_history_def hs ml_get_def)
  moreover have "history_time ?h = 3"
    by (simp add: history_time_def history_new_def status_record_new_def)
  ultimately have "{h. \<exists>i. h \<in> set (get_history i ?s) \<and> 0 \<le> history_time h \<and> history_time h \<le> 9} = {?h}"
    by (auto split: if_splits)
  then show ?thesis
    using history_timerange_spec [of "sorted_env 5" ?s 0 9 0 0] hs by simp
qed

end
