(* ===== verification/Triggers.thy ===== *)
theory Triggers
  imports Task_Config
begin

text \<open>
  The data of the trigger system, \<^verbatim>\<open>rustvello-proto/src/trigger/\<close>: conditions, the contexts
  they are matched against, their deterministic identifiers, trigger definitions and the durable
  records of events and trigger runs. JSON values follow \<^verbatim>\<open>serde_json::Value\<close>; a number is an
  opaque token whose equality and text, like the JSON parser and printer, SHA-256, UUID v5, the
  RFC 3339 printer and the cron library, are parameters collected in the record \<open>libs\<close>.
\<close>

section \<open>JSON values and library parameters\<close>

datatype json =
    JNull
  | JBool bool
  | JNumber str
  | JString str
  | JArray "json list"
  | JObject "(str \<times> json) list"

record libs =
  sha256 :: "str \<Rightarrow> str"
  uuid_v5 :: "str \<Rightarrow> str"
  json_str :: "str \<Rightarrow> str"
  json_from_str :: "str \<Rightarrow> json option"
  json_to_string :: "json \<Rightarrow> str"
  number_eq :: "str \<Rightarrow> str \<Rightarrow> bool"
  number_text :: "str \<Rightarrow> str"
  to_rfc3339 :: "time \<Rightarrow> str"
  cron_parse :: "str \<Rightarrow> (time \<Rightarrow> time option) option"

text \<open>
  \<^verbatim>\<open>cron_parse\<close> stands for \<^verbatim>\<open>Cron::from_str\<close> followed by
  \<^verbatim>\<open>find_previous_occurrence(_, inclusive = true)\<close>, which the crate documents to return the
  latest scheduled time that is not after its argument.
\<close>

definition cron_ok :: "libs \<Rightarrow> bool" where
  "cron_ok l \<longleftrightarrow>
     (\<forall>x prev t slot. cron_parse l x = Some prev \<longrightarrow> prev t = Some slot \<longrightarrow> slot \<le> t)"

text \<open>Equality of JSON values; objects are maps in key order.\<close>

fun json_eq :: "libs \<Rightarrow> json \<Rightarrow> json \<Rightarrow> bool"
  and json_list_eq :: "libs \<Rightarrow> json list \<Rightarrow> json list \<Rightarrow> bool"
  and json_fields_eq :: "libs \<Rightarrow> (str \<times> json) list \<Rightarrow> (str \<times> json) list \<Rightarrow> bool" where
  "json_eq l JNull JNull = True"
| "json_eq l (JBool a) (JBool b) = (a = b)"
| "json_eq l (JNumber a) (JNumber b) = number_eq l a b"
| "json_eq l (JString a) (JString b) = (a = b)"
| "json_eq l (JArray a) (JArray b) = json_list_eq l a b"
| "json_eq l (JObject a) (JObject b) = json_fields_eq l a b"
| "json_eq l _ _ = False"
| "json_list_eq l [] [] = True"
| "json_list_eq l (x # xs) (y # ys) = (json_eq l x y \<and> json_list_eq l xs ys)"
| "json_list_eq l _ _ = False"
| "json_fields_eq l [] [] = True"
| "json_fields_eq l ((k, x) # xs) ((k', y) # ys) = (k = k' \<and> json_eq l x y \<and> json_fields_eq l xs ys)"
| "json_fields_eq l _ _ = False"

section \<open>Conditions and contexts\<close>

type_synonym json_filter = "(str \<times> json) list option"

record cron_condition =
  cron_expression :: str
  min_interval_seconds :: u64

record status_condition =
  sc_task_id :: task_id
  sc_statuses :: "invocation_status list"
  sc_argument_filter :: json_filter

record event_condition =
  ec_event_code :: str
  ec_payload_filter :: json_filter

record result_condition =
  rc_task_id :: task_id
  rc_argument_filter :: json_filter
  rc_result_filter :: "json option"

record exception_condition =
  xc_task_id :: task_id
  xc_exception_types :: "str list"
  xc_argument_filter :: json_filter

datatype composite_logic = CAnd | COr

datatype trigger_condition =
    CronCond cron_condition
  | StatusCond status_condition
  | EventCond event_condition
  | ResultCond result_condition
  | ExceptionCond exception_condition
  | CompositeCond composite_logic "trigger_condition list"

record cron_context =
  cc_timestamp :: time
  cc_last_execution :: "time option"

record status_context =
  sx_invocation_id :: str
  sx_task_id :: task_id
  sx_status :: invocation_status
  sx_arguments :: serialized_arguments

record event_context =
  ex_event_id :: str
  ex_event_code :: str
  ex_payload :: json

record result_context =
  rx_invocation_id :: str
  rx_task_id :: task_id
  rx_result :: json
  rx_arguments :: serialized_arguments

record exception_context =
  xx_invocation_id :: str
  xx_task_id :: task_id
  xx_error_type :: str
  xx_error_message :: str
  xx_arguments :: serialized_arguments

datatype condition_context =
    CronCtx cron_context
  | StatusCtx status_context
  | EventCtx event_context
  | ResultCtx result_context
  | ExceptionCtx exception_context

section \<open>Filters\<close>

definition replace_char :: "char \<Rightarrow> str \<Rightarrow> str \<Rightarrow> str" where
  "replace_char c r s = concat (map (\<lambda>x. if x = c then r else [x]) s)"

text \<open>The two \<^verbatim>\<open>replace\<close> calls: a backslash is doubled, a quote is escaped.\<close>

definition py_escape :: "str \<Rightarrow> str" where
  "py_escape s =
     replace_char (CHR 0x22) [CHR 0x5C, CHR 0x22] (replace_char (CHR 0x5C) [CHR 0x5C, CHR 0x5C] s)"

definition py_quoted :: "str \<Rightarrow> str" where
  "py_quoted s = [CHR 0x22] @ py_escape s @ [CHR 0x22]"

fun value_to_python_json :: "libs \<Rightarrow> json \<Rightarrow> str"
  and values_to_python_json :: "libs \<Rightarrow> json list \<Rightarrow> str list"
  and fields_to_python_json :: "libs \<Rightarrow> (str \<times> json) list \<Rightarrow> str list" where
  "value_to_python_json l JNull = ''null''"
| "value_to_python_json l (JBool b) = (if b then ''true'' else ''false'')"
| "value_to_python_json l (JNumber n) = number_text l n"
| "value_to_python_json l (JString s) = py_quoted s"
| "value_to_python_json l (JArray xs) = ''['' @ join '', '' (values_to_python_json l xs) @ '']''"
| "value_to_python_json l (JObject fs) = ''{'' @ join '', '' (fields_to_python_json l fs) @ ''}''"
| "values_to_python_json l [] = []"
| "values_to_python_json l (x # xs) = value_to_python_json l x # values_to_python_json l xs"
| "fields_to_python_json l [] = []"
| "fields_to_python_json l ((k, v) # fs) =
     (py_quoted k @ '': '' @ value_to_python_json l v) # fields_to_python_json l fs"

definition python_compatible_json :: "libs \<Rightarrow> (str \<times> json) list \<Rightarrow> str" where
  "python_compatible_json l f = ''{'' @ join '', '' (fields_to_python_json l f) @ ''}''"

definition argument_filter_id :: "libs \<Rightarrow> json_filter \<Rightarrow> str" where
  "argument_filter_id l filt =
     (case filt of
        None \<Rightarrow> ''static_no_args''
      | Some f \<Rightarrow> (if f = [] then ''static_no_args''
                   else ''static_'' @ lower_hex (sha256 l (python_compatible_json l f))))"

definition result_filter_id :: "libs \<Rightarrow> json option \<Rightarrow> str" where
  "result_filter_id l filt =
     (case filt of
        None \<Rightarrow> ''no_result_filter''
      | Some v \<Rightarrow> lower_hex (sha256 l (json_to_string l v)))"

definition check_argument_filter :: "libs \<Rightarrow> json_filter \<Rightarrow> serialized_arguments \<Rightarrow> bool" where
  "check_argument_filter l filt args =
     (case filt of
        None \<Rightarrow> True
      | Some expected \<Rightarrow>
          list_all (\<lambda>(k, v).
            case map_of args k of
              None \<Rightarrow> False
            | Some s \<Rightarrow> (case json_from_str l s of None \<Rightarrow> False | Some actual \<Rightarrow> json_eq l actual v))
            expected)"

definition check_result_filter :: "libs \<Rightarrow> json option \<Rightarrow> json \<Rightarrow> bool" where
  "check_result_filter l filt result =
     (case filt of None \<Rightarrow> True | Some expected \<Rightarrow> json_eq l expected result)"

definition check_payload_filter :: "libs \<Rightarrow> json_filter \<Rightarrow> json \<Rightarrow> bool" where
  "check_payload_filter l filt payload =
     (case filt of
        None \<Rightarrow> True
      | Some expected \<Rightarrow>
          (case payload of
             JObject obj \<Rightarrow>
               list_all (\<lambda>(k, v). case map_of obj k of None \<Rightarrow> False | Some x \<Rightarrow> json_eq l x v) expected
           | _ \<Rightarrow> expected = []))"

section \<open>Identifiers and satisfaction\<close>

definition status_condition_id :: "libs \<Rightarrow> status_condition \<Rightarrow> str" where
  "status_condition_id l c =
     ''condition#'' @ display_task_id (sc_task_id c) @ ''#'' @
     join ''_'' (sort (map (\<lambda>s. map ascii_lower (display_status s)) (sc_statuses c))) @ ''#'' @
     argument_filter_id l (sc_argument_filter c)"

fun composite_logic_str :: "composite_logic \<Rightarrow> str" where
  "composite_logic_str CAnd = ''and''"
| "composite_logic_str COr = ''or''"

fun condition_id :: "libs \<Rightarrow> trigger_condition \<Rightarrow> str" where
  "condition_id l (CronCond c) = ''cron_'' @ cron_expression c"
| "condition_id l (StatusCond c) = status_condition_id l c"
| "condition_id l (EventCond c) =
     ''event#'' @ ec_event_code c @ ''#'' @ argument_filter_id l (ec_payload_filter c)"
| "condition_id l (ResultCond c) =
     status_condition_id l \<lparr>sc_task_id = rc_task_id c, sc_statuses = [Success],
                            sc_argument_filter = rc_argument_filter c\<rparr> @
     ''_result_'' @ result_filter_id l (rc_result_filter c)"
| "condition_id l (ExceptionCond c) =
     status_condition_id l \<lparr>sc_task_id = xc_task_id c, sc_statuses = [Failed],
                            sc_argument_filter = xc_argument_filter c\<rparr> @
     ''_exception_'' @
     (if xc_exception_types c = [] then ''any'' else join ''_'' (sort (xc_exception_types c)))"
| "condition_id l (CompositeCond logic children) =
     ''composite#'' @ composite_logic_str logic @ ''#'' @
     join '','' (sort (map (condition_id l) children))"

text \<open>\<^verbatim>\<open>dedup_by\<close> keeps the first of each run of ids with the same text.\<close>

fun dedup_tasks :: "task_id list \<Rightarrow> task_id list" where
  "dedup_tasks [] = []"
| "dedup_tasks [t] = [t]"
| "dedup_tasks (t # t' # ts) =
     (if display_task_id t = display_task_id t' then dedup_tasks (t # ts)
      else t # dedup_tasks (t' # ts))"

fun source_task_ids :: "trigger_condition \<Rightarrow> task_id list" where
  "source_task_ids (CronCond _) = []"
| "source_task_ids (EventCond _) = []"
| "source_task_ids (StatusCond c) = [sc_task_id c]"
| "source_task_ids (ResultCond c) = [rc_task_id c]"
| "source_task_ids (ExceptionCond c) = [xc_task_id c]"
| "source_task_ids (CompositeCond _ children) =
     dedup_tasks (sort_key display_task_id (concat (map source_task_ids children)))"

fun is_satisfied_by :: "libs \<Rightarrow> trigger_condition \<Rightarrow> condition_context \<Rightarrow> bool" where
  "is_satisfied_by l (CompositeCond CAnd children) ctx = list_all (\<lambda>c. is_satisfied_by l c ctx) children"
| "is_satisfied_by l (CompositeCond COr children) ctx = list_ex (\<lambda>c. is_satisfied_by l c ctx) children"
| "is_satisfied_by l (CronCond _) (CronCtx _) = True"
| "is_satisfied_by l (StatusCond c) (StatusCtx x) =
     (sc_task_id c = sx_task_id x \<and> sx_status x \<in> set (sc_statuses c) \<and>
      check_argument_filter l (sc_argument_filter c) (sx_arguments x))"
| "is_satisfied_by l (EventCond c) (EventCtx x) =
     (ec_event_code c = ex_event_code x \<and> check_payload_filter l (ec_payload_filter c) (ex_payload x))"
| "is_satisfied_by l (ResultCond c) (ResultCtx x) =
     (rc_task_id c = rx_task_id x \<and> check_argument_filter l (rc_argument_filter c) (rx_arguments x) \<and>
      check_result_filter l (rc_result_filter c) (rx_result x))"
| "is_satisfied_by l (ExceptionCond c) (ExceptionCtx x) =
     (xc_task_id c = xx_task_id x \<and>
      (xc_exception_types c = [] \<or> xx_error_type x \<in> set (xc_exception_types c)) \<and>
      check_argument_filter l (xc_argument_filter c) (xx_arguments x))"
| "is_satisfied_by l _ _ = False"

fun context_preimage :: "libs \<Rightarrow> condition_context \<Rightarrow> str" where
  "context_preimage l (CronCtx c) = ''cron_ctx:'' @ to_rfc3339 l (cc_timestamp c)"
| "context_preimage l (StatusCtx c) =
     ''status_ctx:'' @ sx_invocation_id c @ '':'' @ display_status (sx_status c)"
| "context_preimage l (EventCtx c) = ''event_ctx:'' @ ex_event_id c"
| "context_preimage l (ResultCtx c) = ''result_ctx:'' @ rx_invocation_id c"
| "context_preimage l (ExceptionCtx c) = ''exception_ctx:'' @ xx_invocation_id c"

definition context_id :: "libs \<Rightarrow> condition_context \<Rightarrow> str" where
  "context_id l ctx = lower_hex (sha256 l (context_preimage l ctx))"

text \<open>\<^verbatim>\<open>Debug\<close> of a status prints the variant's name.\<close>

fun debug_status :: "invocation_status \<Rightarrow> str" where
  "debug_status Registered = ''Registered''"
| "debug_status ConcurrencyControlled = ''ConcurrencyControlled''"
| "debug_status ConcurrencyControlledFinal = ''ConcurrencyControlledFinal''"
| "debug_status Rerouted = ''Rerouted''"
| "debug_status Pending = ''Pending''"
| "debug_status PendingRecovery = ''PendingRecovery''"
| "debug_status Running = ''Running''"
| "debug_status RunningRecovery = ''RunningRecovery''"
| "debug_status Paused = ''Paused''"
| "debug_status Killed = ''Killed''"
| "debug_status Success = ''Success''"
| "debug_status Failed = ''Failed''"
| "debug_status Retry = ''Retry''"
| "debug_status Cancelled = ''Cancelled''"

section \<open>Definitions and records\<close>

datatype trigger_logic = TAnd | TOr

fun display_logic :: "trigger_logic \<Rightarrow> str" where
  "display_logic TAnd = ''AND''"
| "display_logic TOr = ''OR''"

record trigger_definition =
  td_trigger_id :: str
  td_task_id :: task_id
  td_condition_ids :: "str list"
  td_logic :: trigger_logic
  td_argument_template :: "json option"

definition compute_trigger_id :: "libs \<Rightarrow> task_id \<Rightarrow> str list \<Rightarrow> trigger_logic \<Rightarrow> str" where
  "compute_trigger_id l t cids logic =
     lower_hex (sha256 l (display_task_id t @ ''|'' @ concat (map (\<lambda>i. i @ '','') (sort cids)) @ ''|'' @
                          display_logic logic))"

record valid_condition =
  valid_condition_id :: str
  vc_condition_id :: str
  vc_context :: condition_context

definition valid_condition_new :: "libs \<Rightarrow> str \<Rightarrow> condition_context \<Rightarrow> valid_condition" where
  "valid_condition_new l cid ctx =
     \<lparr>valid_condition_id = ''valid_'' @ cid @ ''_'' @ context_id l ctx, vc_condition_id = cid,
      vc_context = ctx\<rparr>"

record event_record =
  ev_event_id :: str
  ev_event_code :: str
  ev_payload :: json
  ev_timestamp :: time
  ev_matched_condition_ids :: "str list"
  ev_valid_condition_ids :: "str list"
  ev_triggered_invocation_ids :: "str list"
  ev_by_invocation_id :: "str option"
  ev_by_task_id :: "task_id option"
  ev_by_runner_id :: "str option"

definition is_matched :: "event_record \<Rightarrow> bool" where
  "is_matched v \<longleftrightarrow> ev_matched_condition_ids v \<noteq> []"

definition is_triggered :: "event_record \<Rightarrow> bool" where
  "is_triggered v \<longleftrightarrow> ev_triggered_invocation_ids v \<noteq> []"

record trigger_run_participant =
  pt_context_type :: str
  pt_condition_id :: str
  pt_valid_condition_id :: str
  pt_event_id :: "str option"
  pt_source_invocation_id :: "str option"
  pt_context_summary :: str

record trigger_run_record =
  tr_run_id :: str
  tr_trigger_id :: str
  tr_task_id :: task_id
  tr_logic :: trigger_logic
  tr_arguments :: json
  tr_participants :: "trigger_run_participant list"
  tr_claimed_at :: time
  tr_executed_at :: "time option"
  tr_planned_invocation_id :: "str option"
  tr_triggered_invocation_id :: "str option"
  tr_atomic_service_run_id :: "str option"
  tr_atomic_service_runner_id :: "str option"

definition run_is_pending :: "trigger_run_record \<Rightarrow> bool" where
  "run_is_pending r \<longleftrightarrow> tr_planned_invocation_id r \<noteq> None \<and> tr_triggered_invocation_id r = None"

definition run_event_ids :: "trigger_run_record \<Rightarrow> str list" where
  "run_event_ids r = List.map_filter pt_event_id (tr_participants r)"

definition run_source_invocation_ids :: "trigger_run_record \<Rightarrow> str list" where
  "run_source_invocation_ids r = List.map_filter pt_source_invocation_id (tr_participants r)"

record event_query =
  eq_event_code :: "str option"
  eq_by_invocation_id :: "str option"
  eq_start :: "time option"
  eq_end :: "time option"
  eq_matched :: "bool option"
  eq_triggered :: "bool option"
  eq_offset :: "nat option"
  eq_limit :: "nat option"

record trigger_run_query =
  tq_event_id :: "str option"
  tq_source_invocation_id :: "str option"
  tq_triggered_invocation_id :: "str option"
  tq_start :: "time option"
  tq_end :: "time option"
  tq_limit :: "nat option"

end
