(* ===== verification/Mem_Trigger.thy ===== *)
theory Mem_Trigger
  imports Triggers
begin

text \<open>
  The in-memory trigger store, \<^verbatim>\<open>rustvello-mem/src/trigger.rs\<close>: its state and every operation
  of the \<^verbatim>\<open>TriggerStore\<close> trait. Each operation holds the state's mutex throughout, so it is
  one atomic function. Claims are used through the locale \<open>claim_store\<close>.
\<close>

section \<open>State\<close>

record trigger_state =
  ts_conditions :: "str \<rightharpoonup> trigger_condition"
  ts_source_task_conditions :: "str \<rightharpoonup> str list"
  ts_event_conditions :: "str \<rightharpoonup> str list"
  ts_cron_condition_ids :: "str list"
  ts_triggers :: "str \<rightharpoonup> trigger_definition"
  ts_condition_triggers :: "str \<rightharpoonup> str list"
  ts_valid_conditions :: "str \<rightharpoonup> valid_condition"
  ts_cron_executions :: "str \<rightharpoonup> time"
  ts_trigger_run_claims :: "str \<rightharpoonup> time"
  ts_events :: "str \<rightharpoonup> event_record"
  ts_trigger_runs :: "str \<rightharpoonup> trigger_run_record"

definition trigger_new :: trigger_state where
  "trigger_new =
     \<lparr>ts_conditions = Map.empty, ts_source_task_conditions = Map.empty,
      ts_event_conditions = Map.empty, ts_cron_condition_ids = [], ts_triggers = Map.empty,
      ts_condition_triggers = Map.empty, ts_valid_conditions = Map.empty,
      ts_cron_executions = Map.empty, ts_trigger_run_claims = Map.empty, ts_events = Map.empty,
      ts_trigger_runs = Map.empty\<rparr>"

section \<open>Conditions and triggers\<close>

definition register_condition ::
    "libs \<Rightarrow> trigger_condition \<Rightarrow> trigger_state \<Rightarrow> str result \<times> trigger_state" where
  "register_condition l c s =
     (let cid = condition_id l c
      in (Inr cid,
          s\<lparr>ts_conditions := (ts_conditions s)(cid \<mapsto> c),
            ts_source_task_conditions :=
              fold (\<lambda>t m. ml_push_new (display_task_id t) cid m) (source_task_ids c)
                (ts_source_task_conditions s),
            ts_event_conditions :=
              (case c of
                 EventCond ev \<Rightarrow> ml_push_new (ec_event_code ev) cid (ts_event_conditions s)
               | _ \<Rightarrow> ts_event_conditions s),
            ts_cron_condition_ids :=
              (case c of
                 CronCond _ \<Rightarrow>
                   (if cid \<in> set (ts_cron_condition_ids s) then ts_cron_condition_ids s
                    else ts_cron_condition_ids s @ [cid])
               | _ \<Rightarrow> ts_cron_condition_ids s)\<rparr>))"

definition get_condition :: "str \<Rightarrow> trigger_state \<Rightarrow> trigger_condition option" where
  "get_condition cid s = ts_conditions s cid"

text \<open>The loop shared by the three lookups: the indexed ids that still have a condition.\<close>

definition indexed_conditions :: "str list \<Rightarrow> trigger_state \<Rightarrow> (str \<times> trigger_condition) list" where
  "indexed_conditions ids s =
     List.map_filter (\<lambda>cid. map_option (Pair cid) (ts_conditions s cid)) ids"

definition get_conditions_for_task :: "task_id \<Rightarrow> trigger_state \<Rightarrow> (str \<times> trigger_condition) list" where
  "get_conditions_for_task t s =
     indexed_conditions (ml_get (ts_source_task_conditions s) (display_task_id t)) s"

definition get_cron_conditions :: "trigger_state \<Rightarrow> (str \<times> trigger_condition) list" where
  "get_cron_conditions s = indexed_conditions (ts_cron_condition_ids s) s"

definition get_event_conditions :: "str \<Rightarrow> trigger_state \<Rightarrow> (str \<times> trigger_condition) list" where
  "get_event_conditions code s = indexed_conditions (ml_get (ts_event_conditions s) code) s"

definition get_all_conditions :: "env \<Rightarrow> trigger_state \<Rightarrow> (str \<times> trigger_condition) list" where
  "get_all_conditions e s = indexed_conditions (hash_order e (dom (ts_conditions s))) s"

definition register_trigger :: "trigger_definition \<Rightarrow> trigger_state \<Rightarrow> unit result \<times> trigger_state" where
  "register_trigger t s =
     (Inr (), s\<lparr>ts_triggers := (ts_triggers s)(td_trigger_id t \<mapsto> t),
                ts_condition_triggers :=
                  fold (\<lambda>cid m. ml_push_new cid (td_trigger_id t) m) (td_condition_ids t)
                    (ts_condition_triggers s)\<rparr>)"

definition get_trigger :: "str \<Rightarrow> trigger_state \<Rightarrow> trigger_definition option" where
  "get_trigger i s = ts_triggers s i"

definition get_triggers_for_condition :: "str \<Rightarrow> trigger_state \<Rightarrow> trigger_definition list" where
  "get_triggers_for_condition cid s =
     List.map_filter (ts_triggers s) (ml_get (ts_condition_triggers s) cid)"

text \<open>Dropping one trigger from the sets of its conditions.\<close>

definition unindex_trigger :: "str \<Rightarrow> str list \<Rightarrow> (str \<rightharpoonup> str list) \<Rightarrow> (str \<rightharpoonup> str list)" where
  "unindex_trigger i cids m =
     fold (\<lambda>cid m. case m cid of None \<Rightarrow> m | Some tids \<Rightarrow> m(cid \<mapsto> filter (\<lambda>x. x \<noteq> i) tids)) cids m"

fun remove_trigger_ids :: "str list \<Rightarrow> trigger_state \<Rightarrow> trigger_state" where
  "remove_trigger_ids [] s = s"
| "remove_trigger_ids (i # is) s =
     remove_trigger_ids is
       (case ts_triggers s i of
          None \<Rightarrow> s
        | Some t \<Rightarrow> s\<lparr>ts_triggers := (ts_triggers s)(i := None),
                       ts_condition_triggers :=
                         unindex_trigger i (td_condition_ids t) (ts_condition_triggers s)\<rparr>)"

definition remove_triggers_for_task ::
    "env \<Rightarrow> task_id \<Rightarrow> trigger_state \<Rightarrow> nat result \<times> trigger_state" where
  "remove_triggers_for_task e t s =
     (let ids = filter (\<lambda>i. case ts_triggers s i of
                              None \<Rightarrow> False
                            | Some d \<Rightarrow> display_task_id (td_task_id d) = display_task_id t)
                  (hash_order e (dom (ts_triggers s)))
      in (Inr (min (length ids) 4294967295), remove_trigger_ids ids s))"

section \<open>Valid conditions and cron state\<close>

definition record_valid_condition :: "valid_condition \<Rightarrow> trigger_state \<Rightarrow> unit result \<times> trigger_state" where
  "record_valid_condition vc s =
     (Inr (), s\<lparr>ts_valid_conditions := (ts_valid_conditions s)(valid_condition_id vc \<mapsto> vc)\<rparr>)"

definition get_valid_conditions :: "env \<Rightarrow> trigger_state \<Rightarrow> valid_condition list" where
  "get_valid_conditions e s =
     List.map_filter (ts_valid_conditions s) (hash_order e (dom (ts_valid_conditions s)))"

definition clear_valid_conditions :: "str list \<Rightarrow> trigger_state \<Rightarrow> unit result \<times> trigger_state" where
  "clear_valid_conditions ids s =
     (Inr (), s\<lparr>ts_valid_conditions := fold (\<lambda>i m. m(i := None)) ids (ts_valid_conditions s)\<rparr>)"

definition get_last_cron_execution :: "str \<Rightarrow> trigger_state \<Rightarrow> time option" where
  "get_last_cron_execution cid s = ts_cron_executions s cid"

definition store_cron_execution ::
    "str \<Rightarrow> time \<Rightarrow> time option \<Rightarrow> trigger_state \<Rightarrow> bool result \<times> trigger_state" where
  "store_cron_execution cid t expected_last s =
     (if ts_cron_executions s cid = expected_last
      then (Inr True, s\<lparr>ts_cron_executions := (ts_cron_executions s)(cid \<mapsto> t)\<rparr>)
      else (Inr False, s))"

section \<open>Claims, events and runs\<close>

definition claim_trigger_run :: "env \<Rightarrow> str \<Rightarrow> trigger_state \<Rightarrow> bool result \<times> trigger_state" where
  "claim_trigger_run e run_id s =
     (if run_id \<in> dom (ts_trigger_run_claims s) then (Inr False, s)
      else (Inr True, s\<lparr>ts_trigger_run_claims := (ts_trigger_run_claims s)(run_id \<mapsto> now e)\<rparr>))"

definition store_event :: "event_record \<Rightarrow> trigger_state \<Rightarrow> unit result \<times> trigger_state" where
  "store_event v s = (Inr (), s\<lparr>ts_events := (ts_events s)(ev_event_id v \<mapsto> v)\<rparr>)"

definition get_event :: "str \<Rightarrow> trigger_state \<Rightarrow> event_record option" where
  "get_event i s = ts_events s i"

definition none_or :: "'a option \<Rightarrow> ('a \<Rightarrow> bool) \<Rightarrow> bool" where
  "none_or x p = (case x of None \<Rightarrow> True | Some v \<Rightarrow> p v)"

definition event_matches :: "event_query \<Rightarrow> event_record \<Rightarrow> bool" where
  "event_matches q v \<longleftrightarrow>
     none_or (eq_event_code q) (\<lambda>c. ev_event_code v = c) \<and>
     none_or (eq_by_invocation_id q) (\<lambda>i. ev_by_invocation_id v = Some i) \<and>
     none_or (eq_start q) (\<lambda>t. t \<le> ev_timestamp v) \<and>
     none_or (eq_end q) (\<lambda>t. ev_timestamp v \<le> t) \<and>
     none_or (eq_matched q) (\<lambda>b. is_matched v = b) \<and>
     none_or (eq_triggered q) (\<lambda>b. is_triggered v = b)"

text \<open>A stable sort by the reversed timestamp, then the window.\<close>

definition get_events :: "env \<Rightarrow> event_query \<Rightarrow> trigger_state \<Rightarrow> event_record list" where
  "get_events e q s =
     (let vs = sort_key (\<lambda>v. - ev_timestamp v)
                 (filter (event_matches q) (List.map_filter (ts_events s) (hash_order e (dom (ts_events s)))));
          vs' = (case eq_offset q of None \<Rightarrow> vs | Some n \<Rightarrow> drop n vs)
      in case eq_limit q of None \<Rightarrow> vs' | Some n \<Rightarrow> take n vs')"

definition store_trigger_run :: "trigger_run_record \<Rightarrow> trigger_state \<Rightarrow> unit result \<times> trigger_state" where
  "store_trigger_run r s = (Inr (), s\<lparr>ts_trigger_runs := (ts_trigger_runs s)(tr_run_id r \<mapsto> r)\<rparr>)"

definition get_trigger_run :: "str \<Rightarrow> trigger_state \<Rightarrow> trigger_run_record option" where
  "get_trigger_run i s = ts_trigger_runs s i"

definition run_matches :: "trigger_run_query \<Rightarrow> trigger_run_record \<Rightarrow> bool" where
  "run_matches q r \<longleftrightarrow>
     none_or (tq_event_id q) (\<lambda>i. i \<in> set (run_event_ids r)) \<and>
     none_or (tq_source_invocation_id q) (\<lambda>i. i \<in> set (run_source_invocation_ids r)) \<and>
     none_or (tq_triggered_invocation_id q) (\<lambda>i. tr_triggered_invocation_id r = Some i) \<and>
     none_or (tq_start q) (\<lambda>t. t \<le> tr_claimed_at r) \<and>
     none_or (tq_end q) (\<lambda>t. tr_claimed_at r \<le> t)"

definition get_trigger_runs :: "env \<Rightarrow> trigger_run_query \<Rightarrow> trigger_state \<Rightarrow> trigger_run_record list" where
  "get_trigger_runs e q s =
     (let rs = sort_key (\<lambda>r. - tr_claimed_at r)
                 (filter (run_matches q)
                   (List.map_filter (ts_trigger_runs s) (hash_order e (dom (ts_trigger_runs s)))))
      in case tq_limit q of None \<Rightarrow> rs | Some n \<Rightarrow> take n rs)"

text \<open>One round of the claim batch: claim, and record unless an earlier claimer has.\<close>

definition claim_record :: "env \<Rightarrow> trigger_run_record \<Rightarrow> trigger_state \<Rightarrow> bool \<times> trigger_state" where
  "claim_record e r s =
     (let key = tr_run_id r;
          first = (key \<notin> dom (ts_trigger_run_claims s));
          s1 = (if first then s\<lparr>ts_trigger_run_claims := (ts_trigger_run_claims s)(key \<mapsto> now e)\<rparr> else s);
          s2 = (if first \<or> key \<notin> dom (ts_trigger_runs s1)
                then s1\<lparr>ts_trigger_runs := (ts_trigger_runs s1)(key \<mapsto> r)\<rparr> else s1)
      in (first, s2))"

fun claim_records :: "env \<Rightarrow> trigger_run_record list \<Rightarrow> trigger_state \<Rightarrow> bool list \<times> trigger_state" where
  "claim_records e [] s = ([], s)"
| "claim_records e (r # rs) s =
     (let (first, s1) = claim_record e r s; (rest, s2) = claim_records e rs s1 in (first # rest, s2))"

definition claim_trigger_runs_with_records ::
    "env \<Rightarrow> trigger_run_record list \<Rightarrow> str list \<Rightarrow> trigger_state \<Rightarrow> bool list result \<times> trigger_state" where
  "claim_trigger_runs_with_records e records consumed s =
     (let (claimed, s1) = claim_records e records s
      in (Inr claimed, snd (clear_valid_conditions consumed s1)))"

text \<open>The default method of the trait: pending runs, oldest claim first.\<close>

definition get_pending_trigger_runs :: "env \<Rightarrow> nat \<Rightarrow> trigger_state \<Rightarrow> trigger_run_record list" where
  "get_pending_trigger_runs e limit s =
     take limit (sort_key tr_claimed_at
       (filter run_is_pending
         (get_trigger_runs e \<lparr>tq_event_id = None, tq_source_invocation_id = None,
            tq_triggered_invocation_id = None, tq_start = None, tq_end = None,
            tq_limit = Some 18446744073709551615\<rparr> s)))"

definition trigger_purge :: "trigger_state \<Rightarrow> unit result \<times> trigger_state" where
  "trigger_purge s = (Inr (), trigger_new)"

section \<open>Claiming through an interface\<close>

text \<open>
  A claim succeeds exactly while its key is free, takes the key, and leaves other keys alone. Then in
  any sequence of claims each key is won at most once, whoever claims and in whatever order.
\<close>

fun claim_seq :: "('k \<Rightarrow> 's \<Rightarrow> bool \<times> 's) \<Rightarrow> 'k list \<Rightarrow> 's \<Rightarrow> 'k list \<times> 's" where
  "claim_seq claim [] s = ([], s)"
| "claim_seq claim (k # ks) s =
     (let (won, s1) = claim k s; (wins, s2) = claim_seq claim ks s1
      in (if won then k # wins else wins, s2))"

locale claim_store =
  fixes claim :: "'c \<Rightarrow> 's \<Rightarrow> bool \<times> 's"
    and key :: "'c \<Rightarrow> 'k"
    and taken :: "'s \<Rightarrow> 'k set"
  assumes claim_wins: "claim c s = (w, s') \<Longrightarrow> w \<longleftrightarrow> key c \<notin> taken s"
    and claim_takes: "claim c s = (w, s') \<Longrightarrow> taken s' = insert (key c) (taken s)"
begin

lemma claim_seq_spec:
  assumes "claim_seq claim cs s = (wins, s')"
  shows "distinct (map key wins) \<and> set (map key wins) = key ` set cs - taken s \<and>
         taken s' = taken s \<union> key ` set cs"
  using assms
proof (induction cs arbitrary: s wins s')
  case Nil
  then show ?case by simp
next
  case (Cons c cs)
  obtain w s1 where c: "claim c s = (w, s1)" by force
  obtain ws s2 where r: "claim_seq claim cs s1 = (ws, s2)" by force
  then have h: "wins = (if w then c # ws else ws)" "s' = s2" using Cons.prems c by auto
  show ?case
    using Cons.IH [OF r] claim_wins [OF c] claim_takes [OF c] h by (auto split: if_splits)
qed

end

interpretation run_claims: claim_store "claim_record e" tr_run_id "\<lambda>s. dom (ts_trigger_run_claims s)" for e
  by unfold_locales (auto simp: claim_record_def Let_def split: if_splits)

lemma claim_records_eq:
  "claim_records e rs s = (fs, s') \<Longrightarrow>
     length fs = length rs \<and> claim_seq (claim_record e) rs s = (map fst (filter snd (zip rs fs)), s')"
proof (induction rs arbitrary: s fs)
  case Nil
  then show ?case by simp
next
  case (Cons r rs)
  then show ?case by (auto simp: Let_def split: prod.splits)
qed

end
