(* ===== verification/Trigger_Manager.thy ===== *)
theory Trigger_Manager
  imports Mem_Trigger
begin

text \<open>
  Trigger evaluation, \<^verbatim>\<open>rustvello-core/src/trigger.rs\<close>: matching reported contexts against
  the registered conditions, firing cron slots under an optimistic lock, and claiming the runs of the
  triggers whose conditions are satisfied. The properties: a cron slot fires at most once however
  evaluators interleave, and an evaluation records every firing before it consumes its conditions.
\<close>

section \<open>Reporting\<close>

fun record_satisfied ::
    "libs \<Rightarrow> condition_context \<Rightarrow> (str \<times> trigger_condition) list \<Rightarrow> trigger_state
       \<Rightarrow> valid_condition list result \<times> trigger_state" where
  "record_satisfied l ctx [] s = (Inr [], s)"
| "record_satisfied l ctx ((cid, c) # cs) s =
     (if is_satisfied_by l c ctx then
        (let vc = valid_condition_new l cid ctx
         in and_then (record_valid_condition vc s) (\<lambda>_ s.
            and_then (record_satisfied l ctx cs s) (\<lambda>vs s. (Inr (vc # vs), s))))
      else record_satisfied l ctx cs s)"

definition evaluate_task_conditions ::
    "libs \<Rightarrow> task_id \<Rightarrow> condition_context \<Rightarrow> trigger_state
       \<Rightarrow> valid_condition list result \<times> trigger_state" where
  "evaluate_task_conditions l t ctx s = record_satisfied l ctx (get_conditions_for_task t s) s"

definition report_status_change ::
    "libs \<Rightarrow> status_context \<Rightarrow> trigger_state \<Rightarrow> valid_condition list result \<times> trigger_state" where
  "report_status_change l ctx s = evaluate_task_conditions l (sx_task_id ctx) (StatusCtx ctx) s"

definition report_result ::
    "libs \<Rightarrow> result_context \<Rightarrow> trigger_state \<Rightarrow> valid_condition list result \<times> trigger_state" where
  "report_result l ctx s = evaluate_task_conditions l (rx_task_id ctx) (ResultCtx ctx) s"

definition report_failure ::
    "libs \<Rightarrow> exception_context \<Rightarrow> trigger_state \<Rightarrow> valid_condition list result \<times> trigger_state" where
  "report_failure l ctx s = evaluate_task_conditions l (xx_task_id ctx) (ExceptionCtx ctx) s"

text \<open>
  The event id is a random UUID (\<open>fresh\<close>); \<open>emitter\<close> is the invocation context of the caller, if
  any, and \<open>runner\<close> its runner context.
\<close>

definition emit_event ::
    "libs \<Rightarrow> env \<Rightarrow> str \<Rightarrow> (str \<times> task_id) option \<Rightarrow> str \<Rightarrow> str \<Rightarrow> json \<Rightarrow> trigger_state
       \<Rightarrow> str result \<times> trigger_state" where
  "emit_event l e fresh emitter runner code payload s =
     (let ctx = EventCtx \<lparr>ex_event_id = fresh, ex_event_code = code, ex_payload = payload\<rparr>;
          record0 = \<lparr>ev_event_id = fresh, ev_event_code = code, ev_payload = payload,
                     ev_timestamp = now e, ev_matched_condition_ids = [],
                     ev_valid_condition_ids = [], ev_triggered_invocation_ids = [],
                     ev_by_invocation_id = map_option fst emitter,
                     ev_by_task_id = map_option snd emitter, ev_by_runner_id = Some runner\<rparr>;
          s1 = snd (store_event record0 s)
      in and_then (record_satisfied l ctx (get_event_conditions code s1) s1) (\<lambda>vcs s2.
           let record1 = record0\<lparr>ev_matched_condition_ids := map vc_condition_id vcs,
                                 ev_valid_condition_ids := map valid_condition_id vcs\<rparr>
           in (Inr fresh, if is_matched record1 then snd (store_event record1 s2) else s2)))"

section \<open>Cron\<close>

abbreviation CRON_MISSED_SLOT_GRACE_SECONDS :: int where
  "CRON_MISSED_SLOT_GRACE_SECONDS \<equiv> 120"

text \<open>\<^const>\<open>None\<close> is the library's error: no previous occurrence.\<close>

definition cron_slot_due :: "env \<Rightarrow> (time \<Rightarrow> time option) \<Rightarrow> time \<Rightarrow> time option \<Rightarrow> bool option" where
  "cron_slot_due e schedule t last_execution =
     (case schedule t of
        None \<Rightarrow> None
      | Some slot \<Rightarrow>
          (if whole_secs e (t - slot) > CRON_MISSED_SLOT_GRACE_SECONDS then Some False
           else Some (none_or last_execution (\<lambda>previous. previous < slot))))"

definition interval_ok :: "env \<Rightarrow> cron_condition \<Rightarrow> time option \<Rightarrow> bool" where
  "interval_ok e c last_exec =
     (case last_exec of
        None \<Rightarrow> True
      | Some previous \<Rightarrow> clamp_i64 (min_interval_seconds c) \<le> whole_secs e (now e - previous))"

text \<open>What one evaluator does with one cron condition after it has read the last execution.\<close>

definition cron_try ::
    "libs \<Rightarrow> env \<Rightarrow> str \<Rightarrow> cron_condition \<Rightarrow> (time \<Rightarrow> time option) \<Rightarrow> time option \<Rightarrow> trigger_state
       \<Rightarrow> valid_condition list result \<times> trigger_state" where
  "cron_try l e cid c schedule last_exec s =
     (if \<not> interval_ok e c last_exec then (Inr [], s)
      else if cron_slot_due e schedule (now e) last_exec \<noteq> Some True then (Inr [], s)
      else and_then (store_cron_execution cid (now e) last_exec s) (\<lambda>claimed s.
        if claimed then
          (let vc = valid_condition_new l cid
                      (CronCtx \<lparr>cc_timestamp = now e, cc_last_execution = last_exec\<rparr>)
           in and_then (record_valid_condition vc s) (\<lambda>_ s. (Inr [vc], s)))
        else (Inr [], s)))"

definition evaluate_cron ::
    "libs \<Rightarrow> env \<Rightarrow> str \<times> trigger_condition \<Rightarrow> trigger_state
       \<Rightarrow> valid_condition list result \<times> trigger_state" where
  "evaluate_cron l e cond s =
     (case cond of
        (cid, CronCond c) \<Rightarrow>
          (case cron_parse l (cron_expression c) of
             None \<Rightarrow> (Inr [], s)
           | Some schedule \<Rightarrow> cron_try l e cid c schedule (get_last_cron_execution cid s) s)
      | _ \<Rightarrow> (Inr [], s))"

fun evaluate_crons ::
    "libs \<Rightarrow> env \<Rightarrow> (str \<times> trigger_condition) list \<Rightarrow> trigger_state
       \<Rightarrow> valid_condition list result \<times> trigger_state" where
  "evaluate_crons l e [] s = (Inr [], s)"
| "evaluate_crons l e (c # cs) s =
     and_then (evaluate_cron l e c s) (\<lambda>vs s.
     and_then (evaluate_crons l e cs s) (\<lambda>ws s. (Inr (vs @ ws), s)))"

definition evaluate_cron_conditions ::
    "libs \<Rightarrow> env \<Rightarrow> trigger_state \<Rightarrow> valid_condition list result \<times> trigger_state" where
  "evaluate_cron_conditions l e s = evaluate_crons l e (get_cron_conditions s) s"

section \<open>Trigger runs\<close>

definition trigger_run_invocation_id :: "libs \<Rightarrow> str \<Rightarrow> str" where
  "trigger_run_invocation_id l run_id = uuid_v5 l run_id"

definition participant_from_valid_condition :: "libs \<Rightarrow> valid_condition \<Rightarrow> trigger_run_participant" where
  "participant_from_valid_condition l vc =
     (let (context_type, event_id, source, summary) =
        (case vc_context vc of
           EventCtx c \<Rightarrow> (''event'', Some (ex_event_id c), None, ex_event_code c)
         | StatusCtx c \<Rightarrow>
             (''status'', None, Some (sx_invocation_id c),
              display_task_id (sx_task_id c) @ '' '' @ debug_status (sx_status c))
         | ResultCtx c \<Rightarrow> (''result'', None, Some (rx_invocation_id c), display_task_id (rx_task_id c))
         | ExceptionCtx c \<Rightarrow>
             (''exception'', None, Some (xx_invocation_id c),
              display_task_id (xx_task_id c) @ '' '' @ xx_error_type c)
         | CronCtx c \<Rightarrow> (''cron'', None, None, to_rfc3339 l (cc_timestamp c)))
      in \<lparr>pt_context_type = context_type, pt_condition_id = vc_condition_id vc,
          pt_valid_condition_id = valid_condition_id vc, pt_event_id = event_id,
          pt_source_invocation_id = source, pt_context_summary = summary\<rparr>)"

record trigger_execution =
  te_run_id :: str
  te_trigger :: trigger_definition
  te_arguments :: json
  te_invocation_id :: str

definition planned_run ::
    "libs \<Rightarrow> env \<Rightarrow> str \<Rightarrow> trigger_definition \<Rightarrow> valid_condition list
       \<Rightarrow> trigger_run_record \<times> trigger_execution" where
  "planned_run l e run_id t vcs =
     (let arguments = or_else (td_argument_template t) (JObject []);
          invocation_id = trigger_run_invocation_id l run_id
      in (\<lparr>tr_run_id = run_id, tr_trigger_id = td_trigger_id t, tr_task_id = td_task_id t,
           tr_logic = td_logic t, tr_arguments = arguments,
           tr_participants = map (participant_from_valid_condition l) vcs,
           tr_claimed_at = now e, tr_executed_at = None,
           tr_planned_invocation_id = Some invocation_id, tr_triggered_invocation_id = None,
           tr_atomic_service_run_id = None, tr_atomic_service_runner_id = None\<rparr>,
          \<lparr>te_run_id = run_id, te_trigger = t, te_arguments = arguments,
           te_invocation_id = invocation_id\<rparr>))"

text \<open>The group of a condition among the valid conditions; the first one represents it.\<close>

definition by_condition :: "valid_condition list \<Rightarrow> str \<Rightarrow> valid_condition list" where
  "by_condition vcs cid = filter (\<lambda>vc. vc_condition_id vc = cid) vcs"

definition run_id_of :: "trigger_definition \<Rightarrow> str list \<Rightarrow> str" where
  "run_id_of t ids = ''run_'' @ td_trigger_id t @ ''_'' @ join ''_'' ids"

text \<open>The candidate runs of one trigger and the valid conditions they consume.\<close>

definition plan_trigger ::
    "libs \<Rightarrow> env \<Rightarrow> valid_condition list \<Rightarrow> trigger_definition
       \<Rightarrow> (trigger_run_record \<times> trigger_execution) list \<times> str list" where
  "plan_trigger l e vcs t =
     (case td_logic t of
        TAnd \<Rightarrow>
          (if list_all (\<lambda>cid. by_condition vcs cid \<noteq> []) (td_condition_ids t) then
             (let selected = map (\<lambda>cid. hd (by_condition vcs cid)) (td_condition_ids t);
                  run_id = run_id_of t (sort (map valid_condition_id selected));
                  used = concat (map (by_condition vcs) (td_condition_ids t))
              in ([planned_run l e run_id t selected], map valid_condition_id used))
           else ([], []))
      | TOr \<Rightarrow>
          (let used = concat (map (by_condition vcs) (td_condition_ids t))
           in (map (\<lambda>vc. planned_run l e (run_id_of t [valid_condition_id vc]) t [vc]) used,
               map valid_condition_id used)))"

definition or_insert_trigger ::
    "trigger_definition \<Rightarrow> (str \<rightharpoonup> trigger_definition) \<Rightarrow> (str \<rightharpoonup> trigger_definition)" where
  "or_insert_trigger t m = (if td_trigger_id t \<in> dom m then m else m(td_trigger_id t \<mapsto> t))"

definition trigger_map :: "env \<Rightarrow> valid_condition list \<Rightarrow> trigger_state \<Rightarrow> (str \<rightharpoonup> trigger_definition)" where
  "trigger_map e vcs s =
     fold or_insert_trigger
       (concat (map (\<lambda>cid. get_triggers_for_condition cid s)
                 (hash_order e (set (map vc_condition_id vcs)))))
       Map.empty"

definition evaluate_trigger_runs ::
    "libs \<Rightarrow> env \<Rightarrow> trigger_state \<Rightarrow> trigger_execution list result \<times> trigger_state" where
  "evaluate_trigger_runs l e s =
     (let vcs = get_valid_conditions e s
      in if vcs = [] then (Inr [], s)
         else
           (let m = trigger_map e vcs s;
                plans = map (plan_trigger l e vcs) (List.map_filter m (hash_order e (dom m)));
                candidates = concat (map fst plans);
                consumed = sorted_list_of_set (set (concat (map snd plans)))
            in if candidates = [] then (Inr [], s)
               else and_then
                 (claim_trigger_runs_with_records e (map fst candidates) consumed s)
                 (\<lambda>claimed s. (Inr (map (snd \<circ> fst) (filter snd (zip candidates claimed))), s))))"

definition pending_trigger_runs :: "env \<Rightarrow> nat \<Rightarrow> trigger_state \<Rightarrow> trigger_run_record list" where
  "pending_trigger_runs e limit s = get_pending_trigger_runs e limit s"

fun mark_events :: "str list \<Rightarrow> str \<Rightarrow> trigger_state \<Rightarrow> unit result \<times> trigger_state" where
  "mark_events [] i s = (Inr (), s)"
| "mark_events (v # vs) i s =
     (case get_event v s of
        None \<Rightarrow> mark_events vs i s
      | Some ev \<Rightarrow>
          (if i \<in> set (ev_triggered_invocation_ids ev) then mark_events vs i s
           else and_then
             (store_event (ev\<lparr>ev_triggered_invocation_ids := ev_triggered_invocation_ids ev @ [i]\<rparr>) s)
             (\<lambda>_ s. mark_events vs i s)))"

definition complete_trigger_run ::
    "env \<Rightarrow> str \<Rightarrow> str \<Rightarrow> trigger_state \<Rightarrow> unit result \<times> trigger_state" where
  "complete_trigger_run e run_id i s =
     (case get_trigger_run run_id s of
        None \<Rightarrow> (Inr (), s)
      | Some run \<Rightarrow>
          (let run' = run\<lparr>tr_triggered_invocation_id := Some i, tr_executed_at := Some (now e)\<rparr>
           in and_then (store_trigger_run run' s) (\<lambda>_ s. mark_events (run_event_ids run') i s)))"

section \<open>Cron slots under interleaved evaluators\<close>

text \<open>
  Evaluators race: each attempt carries the last execution its evaluator had read, at whatever
  earlier moment. The result lists the slots fired with the times of the firings.
\<close>

fun cron_fired ::
    "libs \<Rightarrow> str \<Rightarrow> (time \<Rightarrow> time option) \<Rightarrow> (env \<times> cron_condition \<times> time option) list
       \<Rightarrow> trigger_state \<Rightarrow> (time \<times> time) list" where
  "cron_fired l cid schedule [] s = []"
| "cron_fired l cid schedule ((e, c, last_read) # as) s =
     (case (cron_try l e cid c schedule last_read s, schedule (now e)) of
        ((Inr (vc # vcs), s1), Some slot) \<Rightarrow> (slot, now e) # cron_fired l cid schedule as s1
      | ((_, s1), _) \<Rightarrow> cron_fired l cid schedule as s1)"

lemma cron_try_cases:
  assumes "cron_try l e cid c schedule last_read s = (r, s')"
  obtains (idle) "r = Inr []" "s' = s"
    | (fired) vc slot where "r = Inr [vc]" "schedule (now e) = Some slot"
        "ts_cron_executions s cid = last_read" "ts_cron_executions s' cid = Some (now e)"
        "\<forall>previous. last_read = Some previous \<longrightarrow> previous < slot"
        "\<not> whole_secs e (now e - slot) > CRON_MISSED_SLOT_GRACE_SECONDS"
  using assms
  by (auto simp: cron_try_def cron_slot_due_def store_cron_execution_def record_valid_condition_def
        none_or_def Let_def split: if_splits option.splits)

lemma cron_fired_sorted:
  assumes sch: "\<forall>t slot. schedule t = Some slot \<longrightarrow> slot \<le> t"
    and chr: "\<forall>(e, _) \<in> set as. chrono_ok e"
  shows "sorted_wrt (\<lambda>(_, t) (slot, _). t < slot) (cron_fired l cid schedule as s) \<and>
         (\<forall>(slot, t) \<in> set (cron_fired l cid schedule as s).
            slot \<le> t \<and> t < slot + (CRON_MISSED_SLOT_GRACE_SECONDS + 1) * ns_per_sec \<and>
            (\<forall>previous. ts_cron_executions s cid = Some previous \<longrightarrow> previous < slot))"
  using chr
proof (induction as arbitrary: s)
  case Nil
  then show ?case by simp
next
  case (Cons a as)
  obtain e c last_read where a: "a = (e, c, last_read)" by (cases a) auto
  obtain r s1 where t: "cron_try l e cid c schedule last_read s = (r, s1)" by force
  have ce: "chrono_ok e" using Cons.prems a by auto
  have IH: "sorted_wrt (\<lambda>(_, t) (slot, _). t < slot) (cron_fired l cid schedule as s1) \<and>
    (\<forall>(slot, t) \<in> set (cron_fired l cid schedule as s1).
        slot \<le> t \<and> t < slot + (CRON_MISSED_SLOT_GRACE_SECONDS + 1) * ns_per_sec \<and>
        (\<forall>previous. ts_cron_executions s1 cid = Some previous \<longrightarrow> previous < slot))"
    using Cons.IH [of s1] Cons.prems by auto
  from t show ?case
  proof (cases rule: cron_try_cases)
    case idle
    then show ?thesis using IH t a by simp
  next
    case (fired vc slot)
    have le: "slot \<le> now e" using sch fired(2) by blast
    have grace: "now e < slot + (CRON_MISSED_SLOT_GRACE_SECONDS + 1) * ns_per_sec"
      using fired(6) ce num_seconds_gt_iff [of CRON_MISSED_SLOT_GRACE_SECONDS "now e - slot"]
      by (auto simp: chrono_ok_def)
    have eq: "cron_fired l cid schedule (a # as) s = (slot, now e) # cron_fired l cid schedule as s1"
      using t a fired by simp
    have later: "\<forall>(slot', t) \<in> set (cron_fired l cid schedule as s1). now e < slot'"
      using IH fired(4) by auto
    then have old: "\<forall>(slot', t) \<in> set (cron_fired l cid schedule as s1). slot < slot'"
      using le by auto
    have "\<forall>previous. ts_cron_executions s cid = Some previous \<longrightarrow> previous < slot"
      using fired(3,5) by auto
    then show ?thesis using IH later old le grace unfolding eq by fastforce
  qed
qed

lemma slots_increase:
  fixes xs :: "(int \<times> int) list"
  shows "sorted_wrt (\<lambda>(_, t) (slot, _). t < slot) xs \<Longrightarrow> \<forall>(slot, t) \<in> set xs. slot \<le> t \<Longrightarrow>
           sorted_wrt (<) (map fst xs)"
proof (induction xs)
  case (Cons x xs)
  have "fst x < fst y" if "y \<in> set xs" for y
    using Cons.prems that by (cases x; cases y) fastforce
  with Cons show ?case by auto
qed simp

section \<open>Consistency of the store\<close>

definition trigger_inv :: "trigger_state \<Rightarrow> bool" where
  "trigger_inv s \<longleftrightarrow>
     finite (dom (ts_valid_conditions s)) \<and>
     (\<forall>i vc. ts_valid_conditions s i = Some vc \<longrightarrow> valid_condition_id vc = i) \<and>
     (\<forall>i t. ts_triggers s i = Some t \<longrightarrow> td_trigger_id t = i) \<and>
     (\<forall>i t. ts_triggers s i = Some t \<longrightarrow>
        (\<forall>cid \<in> set (td_condition_ids t). i \<in> set (ml_get (ts_condition_triggers s) cid))) \<and>
     finite (dom (ts_trigger_runs s)) \<and>
     (\<forall>i r. ts_trigger_runs s i = Some r \<longrightarrow> tr_run_id r = i)"

datatype trigger_op =
    RegisterCondition trigger_condition
  | RegisterTrigger trigger_definition
  | RemoveTriggersFor task_id
  | RecordValid valid_condition
  | ClearValid "str list"
  | StoreCron str time "time option"
  | ClaimRun str
  | StoreEvent event_record
  | StoreRun trigger_run_record
  | ClaimBatch "trigger_run_record list" "str list"
  | PurgeTriggers

fun trigger_exec :: "libs \<Rightarrow> env \<Rightarrow> trigger_op \<Rightarrow> trigger_state \<Rightarrow> trigger_state" where
  "trigger_exec l e (RegisterCondition c) s = snd (register_condition l c s)"
| "trigger_exec l e (RegisterTrigger t) s = snd (register_trigger t s)"
| "trigger_exec l e (RemoveTriggersFor t) s = snd (remove_triggers_for_task e t s)"
| "trigger_exec l e (RecordValid vc) s = snd (record_valid_condition vc s)"
| "trigger_exec l e (ClearValid ids) s = snd (clear_valid_conditions ids s)"
| "trigger_exec l e (StoreCron cid t expected) s = snd (store_cron_execution cid t expected s)"
| "trigger_exec l e (ClaimRun i) s = snd (claim_trigger_run e i s)"
| "trigger_exec l e (StoreEvent v) s = snd (store_event v s)"
| "trigger_exec l e (StoreRun r) s = snd (store_trigger_run r s)"
| "trigger_exec l e (ClaimBatch rs ids) s = snd (claim_trigger_runs_with_records e rs ids s)"
| "trigger_exec l e PurgeTriggers s = snd (trigger_purge s)"

definition trigger_run :: "libs \<Rightarrow> (env \<times> trigger_op) list \<Rightarrow> trigger_state \<Rightarrow> trigger_state" where
  "trigger_run l ops s = fold (\<lambda>(e, op) s. trigger_exec l e op s) ops s"

lemma fold_push_new_mem:
  "x \<in> set (ml_get (fold (\<lambda>k m. ml_push_new k v m) ks m) k) \<longleftrightarrow>
     x \<in> set (ml_get m k) \<or> (x = v \<and> k \<in> set ks)"
  by (induction ks arbitrary: m) (auto simp: set_ml_get_push_new split: if_splits)

lemma fold_clear: "fold (\<lambda>i m. m(i := None)) ids m = m |` (- set ids)"
  by (induction ids arbitrary: m) (auto simp: restrict_map_def fun_eq_iff)

lemma unindex_keeps:
  "j \<noteq> i \<Longrightarrow> j \<in> set (ml_get m cid) \<Longrightarrow> j \<in> set (ml_get (unindex_trigger i cids m) cid)"
proof (induction cids arbitrary: m)
  case Nil
  then show ?case by (simp add: unindex_trigger_def)
next
  case (Cons c cids)
  have "j \<in> set (ml_get (case m c of None \<Rightarrow> m | Some tids \<Rightarrow> m(c \<mapsto> filter (\<lambda>x. x \<noteq> i) tids)) cid)"
    using Cons.prems by (auto simp: ml_get_def split: option.splits)
  with Cons.IH Cons.prems(1) show ?case by (simp add: unindex_trigger_def)
qed

lemma remove_trigger_ids_inv: "trigger_inv s \<Longrightarrow> trigger_inv (remove_trigger_ids is s)"
proof (induction "is" arbitrary: s)
  case Nil
  then show ?case by simp
next
  case (Cons i "is")
  have "trigger_inv (case ts_triggers s i of
          None \<Rightarrow> s
        | Some t \<Rightarrow> s\<lparr>ts_triggers := (ts_triggers s)(i := None),
                       ts_condition_triggers :=
                         unindex_trigger i (td_condition_ids t) (ts_condition_triggers s)\<rparr>)"
    using Cons.prems by (auto simp: trigger_inv_def unindex_keeps split: option.splits)
  then show ?case using Cons.IH by simp
qed

lemma claim_record_frame [simp]:
  "ts_valid_conditions (snd (claim_record e r s)) = ts_valid_conditions s"
  "ts_triggers (snd (claim_record e r s)) = ts_triggers s"
  "ts_condition_triggers (snd (claim_record e r s)) = ts_condition_triggers s"
  by (simp_all add: claim_record_def Let_def)

lemma claim_records_state:
  "snd (claim_records e rs s) = fold (\<lambda>r s. snd (claim_record e r s)) rs s"
  by (induction rs arbitrary: s) (simp_all add: Let_def case_prod_unfold)

lemma claim_records_frame [simp]:
  "ts_valid_conditions (snd (claim_records e rs s)) = ts_valid_conditions s"
  "ts_triggers (snd (claim_records e rs s)) = ts_triggers s"
  "ts_condition_triggers (snd (claim_records e rs s)) = ts_condition_triggers s"
  unfolding claim_records_state by (induction rs arbitrary: s) simp_all

lemma claim_record_inv: "trigger_inv s \<Longrightarrow> trigger_inv (snd (claim_record e r s))"
  by (auto simp: trigger_inv_def claim_record_def Let_def)

lemma claim_records_inv: "trigger_inv s \<Longrightarrow> trigger_inv (snd (claim_records e rs s))"
  unfolding claim_records_state by (induction rs arbitrary: s) (simp_all add: claim_record_inv)

lemma clear_valid_eq:
  "snd (clear_valid_conditions ids s) = s\<lparr>ts_valid_conditions := ts_valid_conditions s |` (- set ids)\<rparr>"
  by (simp add: clear_valid_conditions_def fold_clear)

lemma claim_batch_eq:
  "claim_trigger_runs_with_records e rs ids s =
     (Inr (fst (claim_records e rs s)), snd (clear_valid_conditions ids (snd (claim_records e rs s))))"
  by (simp add: claim_trigger_runs_with_records_def split: prod.split)

lemma clear_valid_inv: "trigger_inv s \<Longrightarrow> trigger_inv (snd (clear_valid_conditions ids s))"
  unfolding clear_valid_eq
  by (simp add: trigger_inv_def) (auto simp: restrict_map_def split: if_splits)

lemma trigger_exec_inv: "trigger_inv s \<Longrightarrow> trigger_inv (trigger_exec l e op s)"
proof (cases op)
  case (RegisterTrigger t)
  moreover assume "trigger_inv s"
  ultimately show ?thesis by (auto simp: trigger_inv_def register_trigger_def fold_push_new_mem)
next
  case (RemoveTriggersFor t)
  moreover assume "trigger_inv s"
  ultimately show ?thesis by (simp add: remove_triggers_for_task_def Let_def remove_trigger_ids_inv)
next
  case (ClaimBatch rs ids)
  moreover assume "trigger_inv s"
  ultimately show ?thesis by (simp add: claim_batch_eq clear_valid_inv claim_records_inv)
next
  case (ClearValid ids)
  moreover assume "trigger_inv s"
  ultimately show ?thesis by (simp add: clear_valid_inv)
qed (auto simp: trigger_inv_def register_condition_def record_valid_condition_def Let_def
      store_cron_execution_def claim_trigger_run_def store_event_def store_trigger_run_def
      trigger_purge_def trigger_new_def)

lemma trigger_run_inv: "trigger_inv s \<Longrightarrow> trigger_inv (trigger_run l ops s)"
  unfolding trigger_run_def by (induction ops arbitrary: s) (auto simp: trigger_exec_inv)

lemma trigger_new_inv: "trigger_inv trigger_new"
  by (simp add: trigger_inv_def trigger_new_def)

section \<open>One evaluation\<close>

text \<open>A registered trigger fires on a set of valid conditions.\<close>

definition fires :: "valid_condition set \<Rightarrow> trigger_definition \<Rightarrow> bool" where
  "fires vcs t \<longleftrightarrow>
     td_condition_ids t \<noteq> [] \<and>
     (case td_logic t of
        TAnd \<Rightarrow> set (td_condition_ids t) \<subseteq> vc_condition_id ` vcs
      | TOr \<Rightarrow> set (td_condition_ids t) \<inter> vc_condition_id ` vcs \<noteq> {})"

lemma valid_conditions_set:
  assumes "hash_order_ok (hash_order e)" "trigger_inv s"
  shows "set (get_valid_conditions e s) = ran (ts_valid_conditions s)"
proof -
  have "set (hash_order e (dom (ts_valid_conditions s))) = dom (ts_valid_conditions s)"
    using assms by (simp add: hash_order_set trigger_inv_def)
  then show ?thesis unfolding get_valid_conditions_def by (auto simp: set_map_filter ran_def)
qed

lemma or_insert_fold:
  assumes "\<And>t. t \<in> set ts \<Longrightarrow> f (td_trigger_id t) = Some t" "\<And>i t. m i = Some t \<Longrightarrow> f i = Some t"
  shows "fold or_insert_trigger ts m i = Some t \<longleftrightarrow>
           f i = Some t \<and> (i \<in> dom m \<or> i \<in> td_trigger_id ` set ts)"
  using assms
proof (induction ts arbitrary: m)
  case Nil
  then show ?case by auto
next
  case (Cons x ts)
  have "fold or_insert_trigger (x # ts) m i = Some t \<longleftrightarrow>
        f i = Some t \<and> (i \<in> dom (or_insert_trigger x m) \<or> i \<in> td_trigger_id ` set ts)"
  proof -
    have "or_insert_trigger x m i = Some t \<Longrightarrow> f i = Some t" for i t
      using Cons.prems by (auto simp: or_insert_trigger_def split: if_splits)
    with Cons.IH [of "or_insert_trigger x m"] Cons.prems(1) show ?thesis by simp
  qed
  moreover have "dom (or_insert_trigger x m) = insert (td_trigger_id x) (dom m)"
    by (auto simp: or_insert_trigger_def)
  ultimately show ?case by auto
qed

lemma triggers_for_condition:
  assumes "trigger_inv s"
  shows "t \<in> set (get_triggers_for_condition cid s) \<longleftrightarrow>
           ts_triggers s (td_trigger_id t) = Some t \<and>
           td_trigger_id t \<in> set (ml_get (ts_condition_triggers s) cid)"
  using assms by (auto simp: get_triggers_for_condition_def set_map_filter trigger_inv_def)

lemma trigger_map_iff:
  assumes "hash_order_ok (hash_order e)" "trigger_inv s"
  shows "trigger_map e vcs s i = Some t \<longleftrightarrow>
           ts_triggers s i = Some t \<and>
           (\<exists>vc \<in> set vcs. i \<in> set (ml_get (ts_condition_triggers s) (vc_condition_id vc)))"
proof -
  let ?ts = "concat (map (\<lambda>cid. get_triggers_for_condition cid s)
               (hash_order e (set (map vc_condition_id vcs))))"
  have "set (hash_order e (set (map vc_condition_id vcs))) = vc_condition_id ` set vcs"
    using assms(1) by (simp add: hash_order_set)
  then have mem: "t \<in> set ?ts \<longleftrightarrow> ts_triggers s (td_trigger_id t) = Some t \<and>
      (\<exists>vc \<in> set vcs. td_trigger_id t \<in> set (ml_get (ts_condition_triggers s) (vc_condition_id vc)))" for t
    using assms(2) by (auto simp: triggers_for_condition)
  have key: "ts_triggers s i = Some t \<Longrightarrow> td_trigger_id t = i" for i t
    using assms(2) by (auto simp: trigger_inv_def)
  have "trigger_map e vcs s i = Some t \<longleftrightarrow>
        ts_triggers s i = Some t \<and> (i \<in> dom (Map.empty :: str \<rightharpoonup> trigger_definition) \<or> i \<in> td_trigger_id ` set ?ts)"
    unfolding trigger_map_def by (rule or_insert_fold) (use mem in auto)
  moreover have "i \<in> td_trigger_id ` set ?ts \<longleftrightarrow>
      (\<exists>vc \<in> set vcs. i \<in> set (ml_get (ts_condition_triggers s) (vc_condition_id vc)))"
    if "ts_triggers s i = Some t"
  proof -
    have "i \<in> td_trigger_id ` set ?ts \<longleftrightarrow> t \<in> set ?ts"
      using that key [OF that] mem by (metis (no_types, lifting) image_iff option.inject)
    then show ?thesis using mem [of t] that key [OF that] by simp
  qed
  ultimately show ?thesis by auto
qed

lemma finite_trigger_map: "finite (dom (trigger_map e vcs s))"
proof -
  have "dom (fold or_insert_trigger ts m) \<subseteq> dom m \<union> td_trigger_id ` set ts" for ts m
    by (induction ts arbitrary: m) (fastforce simp: or_insert_trigger_def split: if_splits)+
  from finite_subset [OF this] show ?thesis unfolding trigger_map_def by simp
qed

lemma firing_trigger_mapped:
  assumes "hash_order_ok (hash_order e)" "trigger_inv s" "ts_triggers s i = Some t"
    "fires (set vcs) t"
  shows "trigger_map e vcs s i = Some t"
proof -
  obtain vc where "vc \<in> set vcs" "vc_condition_id vc \<in> set (td_condition_ids t)"
  proof (cases "td_logic t")
    case TAnd
    then have "hd (td_condition_ids t) \<in> vc_condition_id ` set vcs"
      using assms(4) by (auto simp: fires_def)
    then show ?thesis using that assms(4) by (metis fires_def imageE list.set_sel(1))
  next
    case TOr
    then show ?thesis using that assms(4) by (auto simp: fires_def)
  qed
  moreover have "i \<in> set (ml_get (ts_condition_triggers s) cid)" if "cid \<in> set (td_condition_ids t)" for cid
    using assms(2,3) that by (auto simp: trigger_inv_def)
  ultimately show ?thesis using assms trigger_map_iff by blast
qed

lemma by_condition_nonempty: "by_condition vcs cid \<noteq> [] \<longleftrightarrow> cid \<in> vc_condition_id ` set vcs"
  by (auto simp: by_condition_def filter_empty_conv)

lemma planned_run_ids [simp]:
  "tr_run_id (fst (planned_run l e r t vcs)) = r" "te_run_id (snd (planned_run l e r t vcs)) = r"
  "tr_trigger_id (fst (planned_run l e r t vcs)) = td_trigger_id t"
  "run_is_pending (fst (planned_run l e r t vcs))"
  by (simp_all add: planned_run_def Let_def run_is_pending_def)

lemma plan_ids: "c \<in> set (fst (plan_trigger l e vcs t)) \<Longrightarrow> te_run_id (snd c) = tr_run_id (fst c)"
  by (auto simp: plan_trigger_def Let_def split: trigger_logic.splits if_splits)

lemma claim_records_runs:
  "dom (ts_trigger_runs (snd (claim_records e rs s))) = dom (ts_trigger_runs s) \<union> tr_run_id ` set rs"
  unfolding claim_records_state
proof (induction rs arbitrary: s)
  case (Cons r rs)
  have "dom (ts_trigger_runs (snd (claim_record e r s))) = insert (tr_run_id r) (dom (ts_trigger_runs s))"
    by (auto simp: claim_record_def Let_def)
  with Cons show ?case by auto
qed simp

definition eval_plans ::
    "libs \<Rightarrow> env \<Rightarrow> trigger_state \<Rightarrow> ((trigger_run_record \<times> trigger_execution) list \<times> str list) list" where
  "eval_plans l e s =
     (let vcs = get_valid_conditions e s; m = trigger_map e vcs s
      in map (plan_trigger l e vcs) (List.map_filter m (hash_order e (dom m))))"

lemma eval_plans_set:
  assumes "hash_order_ok (hash_order e)"
  shows "set (eval_plans l e s) =
           plan_trigger l e (get_valid_conditions e s) ` ran (trigger_map e (get_valid_conditions e s) s)"
  using hash_order_set [OF assms finite_trigger_map]
  by (auto simp: eval_plans_def Let_def set_map_filter ran_def image_iff)

lemma plan_empty: "fst (plan_trigger l e vcs t) = [] \<Longrightarrow> snd (plan_trigger l e vcs t) = []"
  by (auto simp: plan_trigger_def Let_def split: trigger_logic.splits if_splits)

lemma eval_plans_empty:
  assumes "concat (map fst (eval_plans l e s)) = []"
  shows "concat (map snd (eval_plans l e s)) = []"
  using assms by (auto simp: eval_plans_def Let_def plan_empty)

lemma no_valid_no_plans:
  assumes "hash_order_ok (hash_order e)" "get_valid_conditions e s = []"
  shows "eval_plans l e s = []"
proof -
  have "trigger_map e [] s = Map.empty"
    using hash_order_empty [OF assms(1)] by (simp add: trigger_map_def)
  then show ?thesis
    using assms hash_order_empty [OF assms(1)] by (simp add: eval_plans_def List.map_filter_simps)
qed

lemma evaluate_plans:
  "evaluate_trigger_runs l e s =
     (if get_valid_conditions e s = [] then (Inr [], s)
      else
        (let cs = concat (map fst (eval_plans l e s));
             consumed = sorted_list_of_set (set (concat (map snd (eval_plans l e s))))
         in if cs = [] then (Inr [], s)
            else and_then
              (claim_trigger_runs_with_records e (map fst cs) consumed s)
              (\<lambda>claimed s. (Inr (map (snd \<circ> fst) (filter snd (zip cs claimed))), s))))"
  by (simp only: evaluate_trigger_runs_def eval_plans_def Let_def)

text \<open>An evaluation is one claim batch over all candidates, followed by the consumption.\<close>

lemma evaluate_eq:
  assumes "hash_order_ok (hash_order e)"
  shows "evaluate_trigger_runs l e s =
     (let cs = concat (map fst (eval_plans l e s)); batch = claim_records e (map fst cs) s
      in (Inr (map (snd \<circ> fst) (filter snd (zip cs (fst batch)))),
          (snd batch)\<lparr>ts_valid_conditions :=
             ts_valid_conditions s |` (- set (concat (map snd (eval_plans l e s))))\<rparr>))"
proof (cases "get_valid_conditions e s = []")
  case True
  then show ?thesis
    using no_valid_no_plans [OF assms True] by (simp add: evaluate_trigger_runs_def restrict_map_def)
next
  case False
  show ?thesis
  proof (cases "concat (map fst (eval_plans l e s)) = []")
    case True
    then have "concat (map snd (eval_plans l e s)) = []" by (rule eval_plans_empty)
    then show ?thesis using True by (simp only: evaluate_plans Let_def) (simp add: restrict_map_def)
  next
    case ne: False
    then show ?thesis using False
      by (simp only: evaluate_plans Let_def) (simp add: claim_batch_eq clear_valid_eq)
  qed
qed

lemma eval_executions:
  assumes "hash_order_ok (hash_order e)" "evaluate_trigger_runs l e s = (Inr ex, s')"
  shows "distinct (map te_run_id ex) \<and>
         set (map te_run_id ex) \<inter> dom (ts_trigger_run_claims s) = {} \<and>
         set (map te_run_id ex) \<union> dom (ts_trigger_run_claims s) \<subseteq> dom (ts_trigger_run_claims s')"
proof -
  define cs where "cs = concat (map fst (eval_plans l e s))"
  obtain fs s1 where b: "claim_records e (map fst cs) s = (fs, s1)" by force
  have ex: "ex = map (snd \<circ> fst) (filter snd (zip cs fs))"
    and cl: "ts_trigger_run_claims s' = ts_trigger_run_claims s1"
    using assms(2) b by (auto simp: evaluate_eq [OF assms(1)] cs_def Let_def)
  have same: "te_run_id (snd c) = tr_run_id (fst c)" if "c \<in> set cs" for c
    using that by (auto simp: cs_def eval_plans_def Let_def plan_ids)
  have zips: "map fst (filter snd (zip (map fst cs) fs)) = map (fst \<circ> fst) (filter snd (zip cs fs))"
    by (induction cs fs rule: list_induct2') auto
  have ids: "map te_run_id ex = map tr_run_id (map fst (filter snd (zip (map fst cs) fs)))"
    unfolding ex zips map_map by (rule map_cong) (auto dest!: set_zip_leftD same)
  have "claim_seq (claim_record e) (map fst cs) s = (map fst (filter snd (zip (map fst cs) fs)), s1)"
    using claim_records_eq [OF b] by blast
  from run_claims.claim_seq_spec [OF this] show ?thesis unfolding ids cl by auto
qed

lemma plan_records_firing:
  assumes "fires (set vcs) t"
  shows "(td_logic t = TOr \<longrightarrow> vc \<in> set vcs \<longrightarrow> vc_condition_id vc \<in> set (td_condition_ids t) \<longrightarrow>
            run_id_of t [valid_condition_id vc] \<in> (tr_run_id \<circ> fst) ` set (fst (plan_trigger l e vcs t)))"
    and "td_logic t = TAnd \<longrightarrow>
           (\<exists>sel. list_all2 (\<lambda>cid vc. vc \<in> set vcs \<and> vc_condition_id vc = cid) (td_condition_ids t) sel \<and>
              run_id_of t (sort (map valid_condition_id sel))
                \<in> (tr_run_id \<circ> fst) ` set (fst (plan_trigger l e vcs t)))"
proof -
  show "td_logic t = TOr \<longrightarrow> vc \<in> set vcs \<longrightarrow> vc_condition_id vc \<in> set (td_condition_ids t) \<longrightarrow>
          run_id_of t [valid_condition_id vc] \<in> (tr_run_id \<circ> fst) ` set (fst (plan_trigger l e vcs t))"
    by (force simp: plan_trigger_def Let_def by_condition_def image_iff)
  show "td_logic t = TAnd \<longrightarrow>
           (\<exists>sel. list_all2 (\<lambda>cid vc. vc \<in> set vcs \<and> vc_condition_id vc = cid) (td_condition_ids t) sel \<and>
              run_id_of t (sort (map valid_condition_id sel))
                \<in> (tr_run_id \<circ> fst) ` set (fst (plan_trigger l e vcs t)))"
  proof
    assume and_logic: "td_logic t = TAnd"
    let ?sel = "map (\<lambda>cid. hd (by_condition vcs cid)) (td_condition_ids t)"
    have all: "\<forall>cid \<in> set (td_condition_ids t). by_condition vcs cid \<noteq> []"
      using assms and_logic by (auto simp: fires_def by_condition_nonempty)
    then have "\<forall>cid \<in> set (td_condition_ids t). hd (by_condition vcs cid) \<in> set (by_condition vcs cid)"
      by simp
    then have "list_all2 (\<lambda>cid vc. vc \<in> set vcs \<and> vc_condition_id vc = cid) (td_condition_ids t) ?sel"
      by (auto simp: list_all2_conv_all_nth by_condition_def)
    moreover have "run_id_of t (sort (map valid_condition_id ?sel))
                     \<in> (tr_run_id \<circ> fst) ` set (fst (plan_trigger l e vcs t))"
      using and_logic all by (simp add: plan_trigger_def Let_def list_all_iff)
    ultimately show "\<exists>sel. list_all2 (\<lambda>cid vc. vc \<in> set vcs \<and> vc_condition_id vc = cid) (td_condition_ids t) sel \<and>
              run_id_of t (sort (map valid_condition_id sel))
                \<in> (tr_run_id \<circ> fst) ` set (fst (plan_trigger l e vcs t))"
      by blast
  qed
qed

lemma plan_consumes:
  "i \<in> set (snd (plan_trigger l e vcs t)) \<longleftrightarrow>
     fires (set vcs) t \<and> (\<exists>vc \<in> set vcs. vc_condition_id vc \<in> set (td_condition_ids t) \<and> valid_condition_id vc = i)"
  by (auto simp: plan_trigger_def fires_def Let_def list_all_iff by_condition_nonempty by_condition_def
      filter_empty_conv image_iff subset_iff split: trigger_logic.splits)

lemma eval_consumes:
  assumes "hash_order_ok (hash_order e)" "trigger_inv s"
  shows "i \<in> set (concat (map snd (eval_plans l e s))) \<longleftrightarrow>
           (\<exists>t \<in> ran (ts_triggers s). fires (ran (ts_valid_conditions s)) t \<and>
              (\<exists>vc. ts_valid_conditions s i = Some vc \<and> vc_condition_id vc \<in> set (td_condition_ids t)))"
proof -
  let ?vcs = "get_valid_conditions e s"
  have vs: "set ?vcs = ran (ts_valid_conditions s)" using assms by (rule valid_conditions_set)
  have key: "(\<exists>vc \<in> ran (ts_valid_conditions s). P vc \<and> valid_condition_id vc = i) \<longleftrightarrow>
        (\<exists>vc. ts_valid_conditions s i = Some vc \<and> P vc)" for P i
    using assms(2) unfolding ran_def trigger_inv_def by auto
  have "i \<in> set (concat (map snd (eval_plans l e s))) \<longleftrightarrow>
        (\<exists>t \<in> ran (trigger_map e ?vcs s). fires (set ?vcs) t \<and>
           (\<exists>vc \<in> set ?vcs. vc_condition_id vc \<in> set (td_condition_ids t) \<and> valid_condition_id vc = i))"
    by (simp add: eval_plans_set [OF assms(1)] plan_consumes)
  also have "\<dots> \<longleftrightarrow> (\<exists>t \<in> ran (ts_triggers s). fires (set ?vcs) t \<and>
           (\<exists>vc \<in> set ?vcs. vc_condition_id vc \<in> set (td_condition_ids t) \<and> valid_condition_id vc = i))"
    using trigger_map_iff [OF assms] firing_trigger_mapped [OF assms] unfolding ran_def by blast
  finally show ?thesis unfolding vs key .
qed

section \<open>Properties\<close>

text \<open>C29. Cron slots: however evaluators interleave, each acting on a last execution it read at any
  earlier time, the slots of one cron condition fire in strictly increasing order, each at most once,
  and never more than the grace period late.\<close>

theorem cron_slots_fire_once:
  assumes "cron_ok l" "cron_parse l x = Some schedule" "\<forall>(e, _) \<in> set attempts. chrono_ok e"
  shows "sorted_wrt (<) (map fst (cron_fired l cid schedule attempts s)) \<and>
         (\<forall>(slot, t) \<in> set (cron_fired l cid schedule attempts s). slot \<le> t \<and> t < slot + 121 * ns_per_sec)"
proof -
  have sch: "\<forall>t slot. schedule t = Some slot \<longrightarrow> slot \<le> t"
    using assms(1,2) by (auto simp: cron_ok_def)
  note fired = cron_fired_sorted [OF sch assms(3), of l cid s]
  then have "\<forall>(slot, t) \<in> set (cron_fired l cid schedule attempts s). slot \<le> t \<and> t < slot + 121 * ns_per_sec"
    by auto
  with fired slots_increase show ?thesis by blast
qed

text \<open>An example library: a schedule with a slot every minute.\<close>

definition ex_libs :: libs where
  "ex_libs =
     \<lparr>sha256 = id, uuid_v5 = id, json_str = id, json_from_str = (\<lambda>s. Some (JString s)),
      json_to_string = (\<lambda>_. []), number_eq = (=), number_text = id, to_rfc3339 = (\<lambda>_. []),
      cron_parse = (\<lambda>_. Some (\<lambda>t. Some (t div (60 * ns_per_sec) * (60 * ns_per_sec))))\<rparr>"

definition ex_cron :: cron_condition where
  "ex_cron = \<lparr>cron_expression = ''* * * * *'', min_interval_seconds = 50\<rparr>"

lemma ex_libs_cron_ok: "cron_ok ex_libs"
  by (auto simp: cron_ok_def ex_libs_def)

theorem cron_slots_fire_once_witness:
  "let schedule = (\<lambda>t. Some (t div (60 * ns_per_sec) * (60 * ns_per_sec)));
       read = None;
       a = (sorted_env (61 * ns_per_sec), ex_cron, read);
       b = (sorted_env (62 * ns_per_sec), ex_cron, read)
   in map fst (cron_fired ex_libs ''c'' schedule [a, b] trigger_new) = [60 * ns_per_sec] \<and>
      sorted_wrt (<) (map fst (cron_fired ex_libs ''c'' schedule [a, b] trigger_new))"
  using cron_slots_fire_once [OF ex_libs_cron_ok, of _ "\<lambda>t. Some (t div (60 * ns_per_sec) * (60 * ns_per_sec))"
      "[(sorted_env (61 * ns_per_sec), ex_cron, None), (sorted_env (62 * ns_per_sec), ex_cron, None)]"
      "''c''" trigger_new]
  by (simp add: ex_libs_def cron_try_def cron_slot_due_def interval_ok_def none_or_def Let_def
      store_cron_execution_def record_valid_condition_def trigger_new_def sorted_env_def num_seconds_def)

text \<open>
  That the run of a firing trigger is in the outbox: one run per valid condition for \<^verbatim>\<open>OR\<close>, one
  run over a valid condition for each of its conditions for \<^verbatim>\<open>AND\<close>.
\<close>

definition firing_recorded :: "valid_condition set \<Rightarrow> str set \<Rightarrow> trigger_definition \<Rightarrow> bool" where
  "firing_recorded vs runs t =
     (case td_logic t of
        TOr \<Rightarrow> \<forall>vc \<in> vs. vc_condition_id vc \<in> set (td_condition_ids t) \<longrightarrow>
                  run_id_of t [valid_condition_id vc] \<in> runs
      | TAnd \<Rightarrow> \<exists>sel. list_all2 (\<lambda>cid vc. vc \<in> vs \<and> vc_condition_id vc = cid) (td_condition_ids t) sel \<and>
                  run_id_of t (sort (map valid_condition_id sel)) \<in> runs)"

lemma plans_stored:
  assumes "hash_order_ok (hash_order e)" "trigger_inv s" "evaluate_trigger_runs l e s = (r, s')"
    and "t \<in> ran (ts_triggers s)" "fires (set (get_valid_conditions e s)) t"
  shows "(tr_run_id \<circ> fst) ` set (fst (plan_trigger l e (get_valid_conditions e s) t)) \<subseteq> dom (ts_trigger_runs s')"
proof -
  let ?vcs = "get_valid_conditions e s"
  have "t \<in> ran (trigger_map e ?vcs s)"
    using assms(4,5) firing_trigger_mapped [OF assms(1,2)] unfolding ran_def by blast
  then have "set (fst (plan_trigger l e ?vcs t)) \<subseteq> set (concat (map fst (eval_plans l e s)))"
    by (auto simp: eval_plans_set [OF assms(1)])
  moreover have "ts_trigger_runs s' =
      ts_trigger_runs (snd (claim_records e (map fst (concat (map fst (eval_plans l e s)))) s))"
    using assms(3) by (auto simp: evaluate_eq [OF assms(1)] Let_def)
  ultimately show ?thesis by (auto simp only: claim_records_runs set_map image_comp [symmetric])
qed

lemma firings_stored:
  assumes "hash_order_ok (hash_order e)" "trigger_inv s" "evaluate_trigger_runs l e s = (r, s')"
    and "t \<in> ran (ts_triggers s)" "fires (ran (ts_valid_conditions s)) t"
  shows "firing_recorded (ran (ts_valid_conditions s)) (dom (ts_trigger_runs s')) t"
proof -
  let ?vcs = "get_valid_conditions e s"
  have vs: "set ?vcs = ran (ts_valid_conditions s)" using assms(1,2) by (rule valid_conditions_set)
  have f: "fires (set ?vcs) t" using assms(5) vs by simp
  note runs = plans_stored [OF assms(1-4) f]
  show ?thesis
  proof (cases "td_logic t")
    case TOr
    have "run_id_of t [valid_condition_id vc] \<in> dom (ts_trigger_runs s')"
      if "vc \<in> set ?vcs" "vc_condition_id vc \<in> set (td_condition_ids t)" for vc
      using that f TOr runs plan_records_firing(1) [of ?vcs t vc l e] by blast
    with TOr show ?thesis by (simp add: firing_recorded_def vs [symmetric])
  next
    case TAnd
    then show ?thesis
      using f runs plan_records_firing(2) [of ?vcs t l e] unfolding firing_recorded_def vs [symmetric]
      by (simp, blast)
  qed
qed

text \<open>C30. An evaluation loses no firing and consumes nothing else: every registered trigger that fires
  on the valid conditions has its run recorded in the outbox (one per valid condition for \<^verbatim>\<open>OR\<close>,
  one over a valid condition per condition for \<^verbatim>\<open>AND\<close>), a valid condition disappears exactly
  when a firing trigger names its condition, and the runs returned are new claims, each returned once.\<close>

theorem evaluation_loses_no_firing:
  assumes "hash_order_ok (hash_order e)" "trigger_inv s" "evaluate_trigger_runs l e s = (r, s')"
  shows "(\<forall>t \<in> ran (ts_triggers s). fires (ran (ts_valid_conditions s)) t \<longrightarrow>
            firing_recorded (ran (ts_valid_conditions s)) (dom (ts_trigger_runs s')) t) \<and>
         (\<forall>i vc. ts_valid_conditions s i = Some vc \<longrightarrow>
            ts_valid_conditions s' i =
              (if \<exists>t \<in> ran (ts_triggers s). fires (ran (ts_valid_conditions s)) t \<and>
                    vc_condition_id vc \<in> set (td_condition_ids t) then None else Some vc)) \<and>
         (\<exists>ex. r = Inr ex \<and> distinct (map te_run_id ex) \<and>
            set (map te_run_id ex) \<subseteq> dom (ts_trigger_run_claims s') - dom (ts_trigger_run_claims s))"
proof (intro conjI allI impI)
  show "\<forall>t \<in> ran (ts_triggers s). fires (ran (ts_valid_conditions s)) t \<longrightarrow>
          firing_recorded (ran (ts_valid_conditions s)) (dom (ts_trigger_runs s')) t"
    using firings_stored [OF assms] by blast
  show "ts_valid_conditions s' i =
          (if \<exists>t \<in> ran (ts_triggers s). fires (ran (ts_valid_conditions s)) t \<and>
                vc_condition_id vc \<in> set (td_condition_ids t) then None else Some vc)"
    if "ts_valid_conditions s i = Some vc" for i vc
    using that assms(3) eval_consumes [OF assms(1,2), of i l]
    by (auto simp: evaluate_eq [OF assms(1)] Let_def restrict_map_def simp del: set_concat)
  obtain ex where "r = Inr ex" using assms(3) by (auto simp: evaluate_eq [OF assms(1)] Let_def)
  then show "\<exists>ex. r = Inr ex \<and> distinct (map te_run_id ex) \<and>
           set (map te_run_id ex) \<subseteq> dom (ts_trigger_run_claims s') - dom (ts_trigger_run_claims s)"
    using eval_executions [OF assms(1)] assms(3) by blast
qed

text \<open>An example: an \<^verbatim>\<open>OR\<close> trigger on one condition that has become valid.\<close>

definition ex_trigger :: trigger_definition where
  "ex_trigger = \<lparr>td_trigger_id = ''T'', td_task_id = ex_task, td_condition_ids = [''c''],
                 td_logic = TOr, td_argument_template = None\<rparr>"

definition ex_valid :: valid_condition where
  "ex_valid = \<lparr>valid_condition_id = ''v'', vc_condition_id = ''c'',
               vc_context = EventCtx \<lparr>ex_event_id = ''x'', ex_event_code = ''code'', ex_payload = JNull\<rparr>\<rparr>"

definition ex_trigger_ops :: "(env \<times> trigger_op) list" where
  "ex_trigger_ops = [(sorted_env 0, RegisterTrigger ex_trigger), (sorted_env 0, RecordValid ex_valid)]"

lemma ex_trigger_run:
  "ts_triggers (trigger_run ex_libs ex_trigger_ops s) = (ts_triggers s)(''T'' \<mapsto> ex_trigger)"
  "ts_valid_conditions (trigger_run ex_libs ex_trigger_ops s) = (ts_valid_conditions s)(''v'' \<mapsto> ex_valid)"
  "ts_trigger_run_claims (trigger_run ex_libs ex_trigger_ops s) = ts_trigger_run_claims s"
  "ts_condition_triggers (trigger_run ex_libs ex_trigger_ops s) =
     ml_push_new ''c'' ''T'' (ts_condition_triggers s)"
  by (simp_all add: trigger_run_def ex_trigger_ops_def register_trigger_def record_valid_condition_def
      ex_trigger_def ex_valid_def)

theorem evaluation_loses_no_firing_witness:
  "let s = trigger_run ex_libs ex_trigger_ops trigger_new;
       s' = snd (evaluate_trigger_runs ex_libs (sorted_env 0) s)
   in ''run_T_v'' \<in> dom (ts_trigger_runs s') \<and> ts_valid_conditions s' ''v'' = None"
proof -
  let ?s = "trigger_run ex_libs ex_trigger_ops trigger_new"
  obtain r s' where ev: "evaluate_trigger_runs ex_libs (sorted_env 0) ?s = (r, s')" by force
  have ok: "hash_order_ok (hash_order (sorted_env 0))" by simp
  have iv: "trigger_inv ?s" by (rule trigger_run_inv [OF trigger_new_inv])
  have rans: "ran (ts_triggers ?s) = {ex_trigger}" "ran (ts_valid_conditions ?s) = {ex_valid}"
    by (auto simp: ex_trigger_run trigger_new_def)
  have "fires {ex_valid} ex_trigger" by (simp add: fires_def ex_valid_def ex_trigger_def)
  then show ?thesis
    using evaluation_loses_no_firing [OF ok iv ev]
    unfolding rans by (simp add: ev ex_trigger_run firing_recorded_def)
      (simp add: ex_trigger_def ex_valid_def run_id_of_def)
qed

text \<open>Rounds of evaluation, each after any operations on the store; the ids of the runs they start.\<close>

fun runs_started :: "libs \<Rightarrow> (env \<times> (env \<times> trigger_op) list) list \<Rightarrow> trigger_state \<Rightarrow> str list" where
  "runs_started l [] s = []"
| "runs_started l ((e, ops) # rounds) s =
     (case evaluate_trigger_runs l e (trigger_run l ops s) of
        (Inr ex, s') \<Rightarrow> map te_run_id ex @ runs_started l rounds s'
      | (Inl _, s') \<Rightarrow> runs_started l rounds s')"

lemma remove_trigger_ids_claims [simp]:
  "ts_trigger_run_claims (remove_trigger_ids is s) = ts_trigger_run_claims s"
  by (induction "is" arbitrary: s) (simp_all split: option.split)

lemma claim_records_claims: "dom (ts_trigger_run_claims s) \<subseteq> dom (ts_trigger_run_claims (snd (claim_records e rs s)))"
  unfolding claim_records_state
proof (induction rs arbitrary: s)
  case (Cons r rs)
  have "dom (ts_trigger_run_claims s) \<subseteq> dom (ts_trigger_run_claims (snd (claim_record e r s)))"
    by (auto simp: claim_record_def Let_def)
  with Cons show ?case by force
qed simp

lemma trigger_exec_claims:
  "op \<noteq> PurgeTriggers \<Longrightarrow> dom (ts_trigger_run_claims s) \<subseteq> dom (ts_trigger_run_claims (trigger_exec l e op s))"
proof (cases op)
  case (ClaimBatch rs ids)
  then show ?thesis using claim_records_claims by (simp add: claim_batch_eq clear_valid_eq)
qed (auto simp: register_condition_def register_trigger_def remove_triggers_for_task_def Let_def
      record_valid_condition_def clear_valid_eq store_cron_execution_def claim_trigger_run_def
      store_event_def store_trigger_run_def)

lemma trigger_run_claims:
  "PurgeTriggers \<notin> snd ` set ops \<Longrightarrow>
     dom (ts_trigger_run_claims s) \<subseteq> dom (ts_trigger_run_claims (trigger_run l ops s))"
proof (induction ops arbitrary: s)
  case (Cons x ops)
  obtain e op where x: "x = (e, op)" by force
  then show ?case
    using Cons.IH [of "trigger_exec l e op s"] Cons.prems trigger_exec_claims [of op s l e]
    by (force simp: trigger_run_def)
qed (simp add: trigger_run_def)

text \<open>Every trigger run is started at most once: over any number of evaluations by any evaluators,
  with any operations on the store between them other than purging it, no run id is returned twice.\<close>

lemma trigger_runs_start_once:
  assumes "\<forall>(e, ops) \<in> set rounds. hash_order_ok (hash_order e) \<and> PurgeTriggers \<notin> snd ` set ops"
  shows "distinct (runs_started l rounds s) \<and>
         set (runs_started l rounds s) \<inter> dom (ts_trigger_run_claims s) = {}"
  using assms
proof (induction rounds arbitrary: s)
  case (Cons x rounds)
  obtain e ops where x: "x = (e, ops)" by force
  let ?s = "trigger_run l ops s"
  have ok: "hash_order_ok (hash_order e)" "PurgeTriggers \<notin> snd ` set ops" using Cons.prems x by auto
  obtain ex s' where ev: "evaluate_trigger_runs l e ?s = (Inr ex, s')"
    by (simp add: evaluate_eq [OF ok(1)] Let_def)
  have "distinct (runs_started l rounds s') \<and>
        set (runs_started l rounds s') \<inter> dom (ts_trigger_run_claims s') = {}"
    using Cons.IH Cons.prems by simp
  moreover note eval_executions [OF ok(1) ev] trigger_run_claims [OF ok(2), of s l]
  ultimately have "distinct (map te_run_id ex @ runs_started l rounds s')"
    "set (map te_run_id ex @ runs_started l rounds s') \<inter> dom (ts_trigger_run_claims s) = {}"
    unfolding distinct_append set_append by (blast, blast)
  then show ?case by (simp only: x ev runs_started.simps prod.case sum.case)
qed simp

text \<open>The trigger store stays consistent under any sequence of its operations: keys agree with the
  records under them, and every registered trigger is found from each of its conditions.\<close>

theorem trigger_store_invariant: "trigger_inv (trigger_run l ops trigger_new)"
  by (rule trigger_run_inv [OF trigger_new_inv])

end
