(* ===== verification/Orchestration.thy ===== *)
theory Orchestration
  imports Mem_Orchestrator_Query Mem_Broker Mem_State Trigger_Manager
begin

text \<open>
  The orchestration service, \<^verbatim>\<open>rustvello/src/orchestration/\<close> (\<^verbatim>\<open>mod.rs\<close>,
  \<^verbatim>\<open>routing.rs\<close>, \<^verbatim>\<open>control.rs\<close>), over the in-memory backends. These have no
  \<^verbatim>\<open>runtime_publication\<close>, so \<^verbatim>\<open>publication()\<close> is \<^verbatim>\<open>None\<close> and every use case is
  the sequence of backend calls in the code: an error returns with the writes made so far. The
  state of the service is the record \<open>world\<close>; what never changes is the record \<open>service\<close>. One use
  case reads the clock once.
\<close>

section \<open>The service and its backends\<close>

record service =
  sv_libs :: libs
  sv_host :: host
  sv_app :: app_config
  sv_auto_purge_delay_secs :: u64

record world =
  w_control :: orch_state
  w_state :: backend_state
  w_broker :: mem_broker
  w_triggers :: "trigger_state option"
  w_catalog :: task_catalog
  w_runner_cache :: "str set"
  w_next_queue_index :: u64

definition lift_control :: "(orch_state \<Rightarrow> 'a result \<times> orch_state) \<Rightarrow> world \<Rightarrow> 'a result \<times> world" where
  "lift_control f w = (case f (w_control w) of (r, s) \<Rightarrow> (r, w\<lparr>w_control := s\<rparr>))"

definition lift_state :: "(backend_state \<Rightarrow> 'a result \<times> backend_state) \<Rightarrow> world \<Rightarrow> 'a result \<times> world" where
  "lift_state f w = (case f (w_state w) of (r, s) \<Rightarrow> (r, w\<lparr>w_state := s\<rparr>))"

definition lift_broker :: "(mem_broker \<Rightarrow> 'a result \<times> mem_broker) \<Rightarrow> world \<Rightarrow> 'a result \<times> world" where
  "lift_broker f w = (case f (w_broker w) of (r, b) \<Rightarrow> (r, w\<lparr>w_broker := b\<rparr>))"

text \<open>A call of the trigger manager, when one is configured; its value is dropped.\<close>

definition notify :: "(trigger_state \<Rightarrow> 'a result \<times> trigger_state) \<Rightarrow> world \<Rightarrow> unit result \<times> world" where
  "notify f w =
     (case w_triggers w of
        None \<Rightarrow> (Inr (), w)
      | Some ts \<Rightarrow>
          (case f ts of
             (Inl err, ts') \<Rightarrow> (Inl err, w\<lparr>w_triggers := Some ts'\<rparr>)
           | (Inr _, ts') \<Rightarrow> (Inr (), w\<lparr>w_triggers := Some ts'\<rparr>)))"

text \<open>\<^verbatim>\<open>let _ = ...\<close>: the effect stays, the error is dropped.\<close>

definition ignore_error :: "'a result \<times> 's \<Rightarrow> unit result \<times> 's" where
  "ignore_error r = (Inr (), snd r)"

definition is_invalid_transition :: "rv_error \<Rightarrow> bool" where
  "is_invalid_transition err = (case err of InvalidStatusTransition _ _ _ _ \<Rightarrow> True | _ \<Rightarrow> False)"

definition is_race :: "rv_error \<Rightarrow> bool" where
  "is_race err = (case err of StatusRaceCondition _ _ _ _ \<Rightarrow> True | _ \<Rightarrow> False)"

definition catalog_routing ::
    "service \<Rightarrow> task_id \<Rightarrow> world \<Rightarrow> (str \<times> f64) result \<times> world" where
  "catalog_routing sv t w =
     (case routing_for (sv_host sv) (sv_app sv) t (w_catalog w) of
        (None, cat) \<Rightarrow> (Inl (TaskNotRegistered t), w\<lparr>w_catalog := cat\<rparr>)
      | (Some route, cat) \<Rightarrow> (Inr route, w\<lparr>w_catalog := cat\<rparr>))"

definition purge :: "world \<Rightarrow> unit result \<times> world" where
  "purge w =
     and_then (lift_control orch_purge w) (\<lambda>_ w.
     and_then (lift_broker (broker_purge None) w) (\<lambda>_ w.
     and_then (lift_state backend_purge w) (\<lambda>_ w. notify trigger_purge w)))"

section \<open>Status transitions\<close>

definition get_invocation_arguments :: "str \<Rightarrow> world \<Rightarrow> serialized_arguments" where
  "get_invocation_arguments i w =
     (case get_invocation i (w_state w) of
        Inl _ \<Rightarrow> []
      | Inr dto \<Rightarrow>
          (case get_call (inv_call_id dto) (w_state w) of
             Inl _ \<Rightarrow> [] | Inr call \<Rightarrow> cd_serialized_arguments call))"

definition rust_task :: "str \<Rightarrow> str \<Rightarrow> task_id" where
  "rust_task module name =
     \<lparr>tid_language = Rust, tid_packed = module @ name, tid_module_end = of_nat (length module)\<rparr>"

definition get_trigger_context :: "str \<Rightarrow> world \<Rightarrow> task_id \<times> serialized_arguments" where
  "get_trigger_context i w =
     (case get_invocation i (w_state w) of
        Inl _ \<Rightarrow> (rust_task ''unknown'' ''unknown'', [])
      | Inr dto \<Rightarrow>
          (inv_task_id dto,
           case get_call (inv_call_id dto) (w_state w) of
             Inl _ \<Rightarrow> [] | Inr call \<Rightarrow> cd_serialized_arguments call))"

text \<open>The context the short forms look up: only when a trigger manager is configured.\<close>

definition status_context_for :: "str \<Rightarrow> world \<Rightarrow> task_id \<times> serialized_arguments" where
  "status_context_for i w =
     (if w_triggers w \<noteq> None then get_trigger_context i w else (rust_task ''_'' ''_'', []))"

definition record_history :: "str \<Rightarrow> status_record \<Rightarrow> str \<Rightarrow> world \<Rightarrow> unit result \<times> world" where
  "record_history i r runner w = lift_state (add_history (with_runner runner (history_new i r None))) w"

definition report_status ::
    "service \<Rightarrow> str \<Rightarrow> task_id \<Rightarrow> invocation_status \<Rightarrow> serialized_arguments \<Rightarrow> world
       \<Rightarrow> unit result \<times> world" where
  "report_status sv i t status args w =
     notify (report_status_change (sv_libs sv)
       \<lparr>sx_invocation_id = i, sx_task_id = t, sx_status = status, sx_arguments = args\<rparr>) w"

definition terminal_effects :: "service \<Rightarrow> env \<Rightarrow> str \<Rightarrow> invocation_status \<Rightarrow> world \<Rightarrow> unit result \<times> world" where
  "terminal_effects sv e i status w =
     (if is_terminal status then
        and_then (lift_control (release_waiters e i) w) (\<lambda>_ w.
          if 0 < sv_auto_purge_delay_secs sv then lift_control (schedule_auto_purge e i) w
          else (Inr (), w))
      else (Inr (), w))"

definition set_status_with_context ::
    "service \<Rightarrow> env \<Rightarrow> str \<Rightarrow> invocation_status \<Rightarrow> str \<Rightarrow> task_id \<Rightarrow> serialized_arguments \<Rightarrow> world
       \<Rightarrow> status_record result \<times> world" where
  "set_status_with_context sv e i status runner t args w =
     and_then (lift_control (set_invocation_status e i status (Some runner)) w) (\<lambda>record w.
     and_then (terminal_effects sv e i status w) (\<lambda>_ w.
     and_then (record_history i record runner w) (\<lambda>_ w.
     and_then (report_status sv i t status args w) (\<lambda>_ w. (Inr record, w)))))"

definition set_status ::
    "service \<Rightarrow> env \<Rightarrow> str \<Rightarrow> invocation_status \<Rightarrow> str \<Rightarrow> world \<Rightarrow> status_record result \<times> world" where
  "set_status sv e i status runner w =
     (let (t, args) = status_context_for i w in set_status_with_context sv e i status runner t args w)"

section \<open>Registration, results, exceptions, retries\<close>

text \<open>One invocation: stored, registered, recorded and reported.\<close>

definition register_one ::
    "service \<Rightarrow> env \<Rightarrow> str \<Rightarrow> invocation_dto \<Rightarrow> call_dto \<Rightarrow> world \<Rightarrow> unit result \<times> world" where
  "register_one sv e runner dto call w =
     and_then (lift_state (upsert_invocation dto call) w) (\<lambda>_ w.
     and_then (lift_control (register_invocation_with_id e (inv_id dto) call (Some runner)) w) (\<lambda>record w.
     and_then (record_history (inv_id dto) record runner w) (\<lambda>_ w.
       report_status sv (inv_id dto) (inv_task_id dto) (sr_status record)
         (cd_serialized_arguments call) w)))"

fun register_all ::
    "service \<Rightarrow> env \<Rightarrow> str \<Rightarrow> (invocation_dto \<times> call_dto) list \<Rightarrow> world \<Rightarrow> unit result \<times> world" where
  "register_all sv e runner [] w = (Inr (), w)"
| "register_all sv e runner ((dto, call) # rest) w =
     and_then (register_one sv e runner dto call w) (\<lambda>_ w. register_all sv e runner rest w)"

fun route_all :: "((invocation_dto \<times> call_dto) \<times> (str \<times> f64)) list \<Rightarrow> world \<Rightarrow> unit result \<times> world" where
  "route_all [] w = (Inr (), w)"
| "route_all (((dto, _), (q, p)) # rest) w =
     and_then (lift_broker (route_invocation_with_options (inv_id dto) (Some (inv_task_id dto)) q p) w)
       (\<lambda>_ w. route_all rest w)"

definition register_invocations ::
    "service \<Rightarrow> env \<Rightarrow> (invocation_dto \<times> call_dto) list \<Rightarrow> str \<Rightarrow> (str \<times> f64) list \<Rightarrow> world
       \<Rightarrow> unit result \<times> world" where
  "register_invocations sv e invs runner routes w =
     (if length invs \<noteq> length routes then (Inl Internal, w)
      else and_then (register_all sv e runner invs w) (\<lambda>_ w. route_all (zip invs routes) w))"

definition set_result_with_context ::
    "service \<Rightarrow> env \<Rightarrow> str \<Rightarrow> str \<Rightarrow> str \<Rightarrow> task_id \<Rightarrow> serialized_arguments \<Rightarrow> world
       \<Rightarrow> unit result \<times> world" where
  "set_result_with_context sv e i result runner t args w =
     and_then (lift_state (store_result i result) w) (\<lambda>_ w.
     and_then (set_status_with_context sv e i Success runner t args w) (\<lambda>_ w.
       notify (report_result (sv_libs sv)
         \<lparr>rx_invocation_id = i, rx_task_id = t,
          rx_result = or_else (json_from_str (sv_libs sv) result) (JString result),
          rx_arguments = args\<rparr>) w))"

definition set_result :: "service \<Rightarrow> env \<Rightarrow> str \<Rightarrow> str \<Rightarrow> str \<Rightarrow> world \<Rightarrow> unit result \<times> world" where
  "set_result sv e i result runner w =
     (let (t, args) = status_context_for i w in set_result_with_context sv e i result runner t args w)"

definition set_exception_with_context ::
    "service \<Rightarrow> env \<Rightarrow> str \<Rightarrow> str \<Rightarrow> str \<Rightarrow> str \<Rightarrow> task_id \<Rightarrow> serialized_arguments \<Rightarrow> world
       \<Rightarrow> unit result \<times> world" where
  "set_exception_with_context sv e i error_type error_message runner t args w =
     and_then (lift_state (store_error i
         \<lparr>err_type = error_type, err_message = error_message, err_traceback = None\<rparr>) w) (\<lambda>_ w.
     and_then (set_status_with_context sv e i Failed runner t args w) (\<lambda>_ w.
       notify (report_failure (sv_libs sv)
         \<lparr>xx_invocation_id = i, xx_task_id = t, xx_error_type = error_type,
          xx_error_message = error_message, xx_arguments = args\<rparr>) w))"

definition set_exception :: "service \<Rightarrow> env \<Rightarrow> str \<Rightarrow> str \<Rightarrow> str \<Rightarrow> str \<Rightarrow> world \<Rightarrow> unit result \<times> world" where
  "set_exception sv e i error_type error_message runner w =
     (let (t, args) = status_context_for i w
      in set_exception_with_context sv e i error_type error_message runner t args w)"

definition set_retry_with_context ::
    "service \<Rightarrow> env \<Rightarrow> str \<Rightarrow> str \<Rightarrow> task_id \<Rightarrow> serialized_arguments \<Rightarrow> str \<Rightarrow> f64 \<Rightarrow> world
       \<Rightarrow> unit result \<times> world" where
  "set_retry_with_context sv e i runner t args q p w =
     and_then (set_status_with_context sv e i Retry runner t args w) (\<lambda>_ w.
     and_then (lift_control (increment_invocation_retries i) w) (\<lambda>_ w.
       lift_broker (route_invocation_with_options i (Some t) q p) w))"

definition set_retry :: "service \<Rightarrow> env \<Rightarrow> str \<Rightarrow> str \<Rightarrow> str \<Rightarrow> f64 \<Rightarrow> world \<Rightarrow> unit result \<times> world" where
  "set_retry sv e i runner q p w =
     and_then (get_invocation i (w_state w), w) (\<lambda>dto w.
       set_retry_with_context sv e i runner (inv_task_id dto) (get_invocation_arguments i w) q p w)"

definition retry_invocation :: "service \<Rightarrow> env \<Rightarrow> str \<Rightarrow> str \<Rightarrow> world \<Rightarrow> unit result \<times> world" where
  "retry_invocation sv e i runner w =
     and_then (get_invocation i (w_state w), w) (\<lambda>dto w.
     and_then (catalog_routing sv (inv_task_id dto) w) (\<lambda>(q, p) w. set_retry sv e i runner q p w))"

text \<open>The in-memory broker delays durably; the delay is in nanoseconds.\<close>

definition set_retry_after_with_context ::
    "service \<Rightarrow> env \<Rightarrow> str \<Rightarrow> str \<Rightarrow> task_id \<Rightarrow> serialized_arguments \<Rightarrow> str \<Rightarrow> f64 \<Rightarrow> int \<Rightarrow> world
       \<Rightarrow> unit result \<times> world" where
  "set_retry_after_with_context sv e i runner t args q p delay w =
     (if delay = 0 then set_retry_with_context sv e i runner t args q p w
      else
        and_then (set_status_with_context sv e i Retry runner t args w) (\<lambda>_ w.
        and_then (lift_control (increment_invocation_retries i) w) (\<lambda>_ w.
          lift_broker (route_invocation_after (now e) i (Some t) q p delay) w)))"

section \<open>Cancellation\<close>

datatype cancel_outcome = CancelledNow | AlreadyFinal invocation_status

definition was_cancelled :: "cancel_outcome \<Rightarrow> bool" where
  "was_cancelled c \<longleftrightarrow> c = CancelledNow"

definition release_nontransactional_concurrency_slot :: "str \<Rightarrow> world \<Rightarrow> unit result \<times> world" where
  "release_nontransactional_concurrency_slot i w = lift_control (remove_from_concurrency_index i) w"

definition cancel_invocation :: "service \<Rightarrow> env \<Rightarrow> str \<Rightarrow> str \<Rightarrow> world \<Rightarrow> cancel_outcome result \<times> world" where
  "cancel_invocation sv e i runner w =
     and_then (get_invocation_status i (w_control w), w) (\<lambda>current w.
       if is_terminal (sr_status current) then (Inr (AlreadyFinal (sr_status current)), w)
       else
         (case set_status sv e i Cancelled runner w of
            (Inr _, w) \<Rightarrow>
              and_then (ignore_error (release_nontransactional_concurrency_slot i w))
                (\<lambda>_ w. (Inr CancelledNow, w))
          | (Inl err, w) \<Rightarrow>
              (if is_invalid_transition err \<or> is_race err then
                 and_then (get_invocation_status i (w_control w), w) (\<lambda>record w.
                   (Inr (if sr_status record = Cancelled then CancelledNow
                         else AlreadyFinal (sr_status record)), w))
               else (Inl err, w))))"

definition current_status :: "str \<Rightarrow> world \<Rightarrow> status_record option" where
  "current_status i w =
     (case get_invocation_status i (w_control w) of Inl _ \<Rightarrow> None | Inr r \<Rightarrow> Some r)"

definition is_cancelled :: "str \<Rightarrow> world \<Rightarrow> bool" where
  "is_cancelled i w =
     (case get_invocation_status i (w_control w) of Inl _ \<Rightarrow> False | Inr r \<Rightarrow> sr_status r = Cancelled)"

section \<open>Routing\<close>

datatype route_call_result =
    NewInvocation str
  | Reused str
  | ReusedDifferentCall str call_id

definition create_and_route_invocation ::
    "service \<Rightarrow> env \<Rightarrow> str \<Rightarrow> call_dto \<Rightarrow> serialized_arguments option \<Rightarrow> bool \<Rightarrow> str \<Rightarrow> str \<Rightarrow> f64 \<Rightarrow> world
       \<Rightarrow> str result \<times> world" where
  "create_and_route_invocation sv e i call cc_args index_cc runner q p w =
     (let dto = invocation_dto_new (now e) i (cd_task_id call) (cd_call_id call)
      in and_then (lift_state (upsert_invocation dto call) w) (\<lambda>_ w.
         and_then (lift_control (register_invocation_with_id e i call (Some runner)) w) (\<lambda>record w.
         and_then (record_history i record runner w) (\<lambda>_ w.
         and_then (report_status sv i (cd_task_id call) (sr_status record) (cd_serialized_arguments call) w) (\<lambda>_ w.
         and_then (if index_cc then lift_control (index_for_concurrency_control i (cd_task_id call) cc_args) w
                   else (Inr (), w)) (\<lambda>_ w.
         and_then (lift_broker (route_invocation_with_options i (Some (cd_task_id call)) q p) w) (\<lambda>_ w.
           (Inr i, w))))))))"

definition route_call ::
    "service \<Rightarrow> env \<Rightarrow> str \<Rightarrow> call_dto \<Rightarrow> serialized_arguments option \<Rightarrow> concurrency_control_type \<Rightarrow> bool
       \<Rightarrow> str \<Rightarrow> str \<Rightarrow> f64 \<Rightarrow> world \<Rightarrow> route_call_result result \<times> world" where
  "route_call sv e i call cc_args registration_cc index_cc runner q p w =
     (let create = and_then (create_and_route_invocation sv e i call cc_args index_cc runner q p w)
                     (\<lambda>i w. (Inr (NewInvocation i), w))
      in if registration_cc = Unlimited then create
         else
           (case get_existing_invocations e (cd_task_id call) cc_args [Registered] (w_control w) of
              [] \<Rightarrow> create
            | existing # _ \<Rightarrow>
                and_then (get_invocation existing (w_state w), w) (\<lambda>dto w.
                  if inv_call_id dto = cd_call_id call then (Inr (Reused existing), w)
                  else (Inr (ReusedDifferentCall existing (inv_call_id dto)), w))))"

definition route_catalog_call ::
    "service \<Rightarrow> env \<Rightarrow> str \<Rightarrow> call_dto \<Rightarrow> serialized_arguments option \<Rightarrow> concurrency_control_type \<Rightarrow> bool
       \<Rightarrow> str \<Rightarrow> world \<Rightarrow> route_call_result result \<times> world" where
  "route_catalog_call sv e i call cc_args registration_cc index_cc runner w =
     and_then (catalog_routing sv (cd_task_id call) w) (\<lambda>(q, p) w.
       route_call sv e i call cc_args registration_cc index_cc runner q p w)"

definition reroute_one ::
    "service \<Rightarrow> env \<Rightarrow> str \<Rightarrow> str \<Rightarrow> (str \<rightharpoonup> str \<times> f64) \<Rightarrow> world \<Rightarrow> unit result \<times> world" where
  "reroute_one sv e runner i routes w =
     (case lift_control (set_invocation_status e i Rerouted (Some runner)) w of
        (Inr record, w) \<Rightarrow>
          and_then (ignore_error (record_history i record runner w)) (\<lambda>_ w.
          and_then (let (t, args) = get_trigger_context i w
                    in ignore_error (report_status sv i t Rerouted args w)) (\<lambda>_ w.
          and_then (get_invocation i (w_state w), w) (\<lambda>dto w.
            case routes i of
              None \<Rightarrow> (Inl Internal, w)
            | Some (q, p) \<Rightarrow>
                lift_broker (route_invocation_with_options i (Some (inv_task_id dto)) q p) w)))
      | (Inl err, w) \<Rightarrow> (if is_invalid_transition err then (Inr (), w) else (Inl err, w)))"

fun reroute_invocations ::
    "service \<Rightarrow> env \<Rightarrow> str \<Rightarrow> (str \<rightharpoonup> str \<times> f64) \<Rightarrow> str list \<Rightarrow> world \<Rightarrow> unit result \<times> world" where
  "reroute_invocations sv e runner routes [] w = (Inr (), w)"
| "reroute_invocations sv e runner routes (i # is) w =
     and_then (reroute_one sv e runner i routes w) (\<lambda>_ w. reroute_invocations sv e runner routes is w)"

fun catalog_routes ::
    "service \<Rightarrow> str list \<Rightarrow> (str \<rightharpoonup> str \<times> f64) \<Rightarrow> world \<Rightarrow> (str \<rightharpoonup> str \<times> f64) result \<times> world" where
  "catalog_routes sv [] m w = (Inr m, w)"
| "catalog_routes sv (i # is) m w =
     and_then (get_invocation i (w_state w), w) (\<lambda>dto w.
     and_then (catalog_routing sv (inv_task_id dto) w) (\<lambda>route w.
       catalog_routes sv is (m(i \<mapsto> route)) w))"

definition reroute_catalog_invocations ::
    "service \<Rightarrow> env \<Rightarrow> str list \<Rightarrow> str \<Rightarrow> world \<Rightarrow> unit result \<times> world" where
  "reroute_catalog_invocations sv e ids runner w =
     and_then (catalog_routes sv ids Map.empty w) (\<lambda>routes w.
       reroute_invocations sv e runner routes ids w)"

end
