(* ===== verification/Dispatch.thy ===== *)
theory Dispatch
  imports Orchestration
begin

text \<open>
  Claiming work: \<^verbatim>\<open>orchestration/dispatch.rs\<close>, \<^verbatim>\<open>orchestration/retrieval.rs\<close> and the
  lifecycle around one attempt in \<^verbatim>\<open>runner/executor_common.rs\<close>. The task body itself is not
  modelled: an attempt ends with a given result or error. Metrics, middlewares and the in-process
  worker table are left out; the random numbers of queue shuffling and of the retry delay are
  arguments.
\<close>

section \<open>Queue order\<close>

definition queue_names_for_retrieval ::
    "app_config \<Rightarrow> (str list \<Rightarrow> str list) \<Rightarrow> u64 \<Rightarrow> str list \<times> u64" where
  "queue_names_for_retrieval c shuffle idx =
     (let queues = (if runner_queues c = [] then broker_queues c else runner_queues c)
      in case queue_selection c of
           Ordered \<Rightarrow> (queues, idx)
         | RoundRobin \<Rightarrow>
             (if queues \<noteq> [] then (rotate (unat idx mod length queues) queues, idx + 1)
              else (queues, idx))
         | Random \<Rightarrow> (shuffle queues, idx))"

fun retrieve_first ::
    "(str \<Rightarrow> mem_broker \<Rightarrow> str option result \<times> mem_broker) \<Rightarrow> str list \<Rightarrow> world
       \<Rightarrow> str option result \<times> world" where
  "retrieve_first take_from [] w = (Inr None, w)"
| "retrieve_first take_from (q # qs) w =
     and_then (lift_broker (take_from q) w) (\<lambda>found w.
       case found of None \<Rightarrow> retrieve_first take_from qs w | Some i \<Rightarrow> (Inr (Some i), w))"

section \<open>Admission\<close>

definition candidate_matches_language :: "str \<Rightarrow> task_language \<Rightarrow> world \<Rightarrow> bool" where
  "candidate_matches_language i lang w =
     (case get_invocation i (w_state w) of Inl _ \<Rightarrow> True | Inr dto \<Rightarrow> tid_language (inv_task_id dto) = lang)"

text \<open>What happens to a candidate that is refused a slot.\<close>

definition refuse_candidate ::
    "env \<Rightarrow> task_config \<Rightarrow> str \<Rightarrow> task_id \<Rightarrow> world \<Rightarrow> bool result \<times> world" where
  "refuse_candidate e c i t w =
     (if reroute_on_cc c then
        (case lift_control (set_invocation_status e i ConcurrencyControlled None) w of
           (Inr _, w) \<Rightarrow>
             and_then (lift_control (set_invocation_status e i Rerouted None) w) (\<lambda>_ w.
             and_then (lift_broker (route_invocation_with_options i (Some t) (queue c) (priority c)) w) (\<lambda>_ w.
               (Inr False, w)))
         | (Inl err, w) \<Rightarrow> (if is_invalid_transition err then (Inr False, w) else (Inl err, w)))
      else
        (case lift_control (set_invocation_status e i ConcurrencyControlledFinal None) w of
           (Inr _, w) \<Rightarrow> (Inr False, w)
         | (Inl err, w) \<Rightarrow> (if is_invalid_transition err then (Inr False, w) else (Inl err, w))))"

definition admit_candidate :: "env \<Rightarrow> task_registry \<Rightarrow> str \<Rightarrow> world \<Rightarrow> bool result \<times> world" where
  "admit_candidate e reg i w =
     (case get_invocation i (w_state w) of
        Inl _ \<Rightarrow> (Inr True, w)
      | Inr dto \<Rightarrow>
          (case registry_get_dyn (inv_task_id dto) reg of
             None \<Rightarrow> (Inr True, w)
           | Some c \<Rightarrow>
               (if concurrency_control c = Unlimited then (Inr True, w)
                else
                  (case get_call (inv_call_id dto) (w_state w) of
                     Inl _ \<Rightarrow> (Inr True, w)
                   | Inr call \<Rightarrow>
                       and_then
                         (lift_control (try_acquire_concurrency_slot i (inv_task_id dto) c
                            (concurrency_arguments (concurrency_control c) (key_arguments c)
                               (cd_serialized_arguments call))) w)
                         (\<lambda>admitted w.
                            if admitted then (Inr True, w)
                            else refuse_candidate e c i (inv_task_id dto) w)))))"

section \<open>claim\_next\<close>

abbreviation MAX_BLOCKING_CANDIDATES :: nat where
  "MAX_BLOCKING_CANDIDATES \<equiv> 8"

abbreviation MAX_CC_RETRIES :: nat where
  "MAX_CC_RETRIES \<equiv> 8"

fun claim_blocking ::
    "env \<Rightarrow> task_registry \<Rightarrow> task_language \<Rightarrow> str list \<Rightarrow> world \<Rightarrow> str option result \<times> world" where
  "claim_blocking e reg lang [] w = (Inr None, w)"
| "claim_blocking e reg lang (i # is) w =
     (if \<not> candidate_matches_language i lang w then claim_blocking e reg lang is w
      else and_then (admit_candidate e reg i w) (\<lambda>admitted w.
        if admitted then (Inr (Some i), w) else claim_blocking e reg lang is w))"

fun claim_rounds ::
    "service \<Rightarrow> env \<Rightarrow> task_registry \<Rightarrow> task_language \<Rightarrow> (nat \<Rightarrow> str list \<Rightarrow> str list) \<Rightarrow> nat \<Rightarrow> world
       \<Rightarrow> str option result \<times> world" where
  "claim_rounds sv e reg lang shuffle 0 w = (Inr None, w)"
| "claim_rounds sv e reg lang shuffle (Suc n) w =
     (let (queues, idx) = queue_names_for_retrieval (sv_app sv) (shuffle n) (w_next_queue_index w)
      in and_then
           (retrieve_first (retrieve_invocation_for_language_from_queue (now e) lang) queues
              (w\<lparr>w_next_queue_index := idx\<rparr>))
           (\<lambda>candidate w.
              case candidate of
                None \<Rightarrow> (Inr None, w)
              | Some i \<Rightarrow>
                  and_then (admit_candidate e reg i w) (\<lambda>admitted w.
                    if admitted then (Inr (Some i), w)
                    else claim_rounds sv e reg lang shuffle n w)))"

definition claim_next ::
    "service \<Rightarrow> env \<Rightarrow> task_registry \<Rightarrow> task_language \<Rightarrow> (nat \<Rightarrow> str list \<Rightarrow> str list) \<Rightarrow> world
       \<Rightarrow> str option result \<times> world" where
  "claim_next sv e reg lang shuffle w =
     and_then (claim_blocking e reg lang
                 (get_blocking_invocations e MAX_BLOCKING_CANDIDATES (w_control w)) w) (\<lambda>found w.
       case found of
         Some i \<Rightarrow> (Inr (Some i), w)
       | None \<Rightarrow> claim_rounds sv e reg lang shuffle MAX_CC_RETRIES w)"

section \<open>get\_invocations\_to\_run\<close>

definition check_cc_for_invocation ::
    "str \<Rightarrow> (task_id \<Rightarrow> task_config option) \<Rightarrow> world \<Rightarrow> bool" where
  "check_cc_for_invocation i config_for_task w =
     (case get_invocation i (w_state w) of
        Inl _ \<Rightarrow> True
      | Inr dto \<Rightarrow>
          (case config_for_task (inv_task_id dto) of
             None \<Rightarrow> True
           | Some c \<Rightarrow>
               (if concurrency_control c = Unlimited then True
                else
                  (case get_call (inv_call_id dto) (w_state w) of
                     Inl _ \<Rightarrow> True
                   | Inr call \<Rightarrow>
                       check_running_concurrency (inv_task_id dto) c
                         (concurrency_arguments (concurrency_control c) (key_arguments c)
                            (cd_serialized_arguments call)) (w_control w)))))"

definition try_transition_to_pending ::
    "service \<Rightarrow> env \<Rightarrow> str \<Rightarrow> str \<Rightarrow> str list \<Rightarrow> world \<Rightarrow> str list result \<times> world" where
  "try_transition_to_pending sv e i runner result w =
     (case lift_control (set_invocation_status e i Pending (Some runner)) w of
        (Inr record, w) \<Rightarrow>
          and_then (ignore_error (record_history i record runner w)) (\<lambda>_ w.
          and_then (case get_invocation i (w_state w) of
                      Inl _ \<Rightarrow> (Inr (), w)
                    | Inr dto \<Rightarrow>
                        ignore_error (report_status sv i (inv_task_id dto) Pending
                          (get_invocation_arguments i w) w)) (\<lambda>_ w.
            (Inr (result @ [i]), w)))
      | (Inl err, w) \<Rightarrow> (if is_invalid_transition err then (Inr result, w) else (Inl err, w)))"

text \<open>Phase 1: the waited-on candidates. A \<^verbatim>\<open>Retry\<close> candidate is left to its queue entry.\<close>

fun run_blocking ::
    "service \<Rightarrow> env \<Rightarrow> nat \<Rightarrow> str \<Rightarrow> (task_id \<Rightarrow> task_config option) \<Rightarrow> str list \<Rightarrow> str list \<Rightarrow> world
       \<Rightarrow> str list result \<times> world" where
  "run_blocking sv e max_n runner conf [] result w = (Inr result, w)"
| "run_blocking sv e max_n runner conf (i # is) result w =
     (if max_n \<le> length result then (Inr result, w)
      else
        (case get_invocation_status i (w_control w) of
           Inl _ \<Rightarrow> run_blocking sv e max_n runner conf is result w
         | Inr r \<Rightarrow>
             (if sr_status r = Retry \<or> \<not> can_transition_to (sr_status r) Pending
              then run_blocking sv e max_n runner conf is result w
              else if \<not> check_cc_for_invocation i conf w
              then run_blocking sv e max_n runner conf is result w
              else and_then (try_transition_to_pending sv e i runner result w) (\<lambda>result w.
                     run_blocking sv e max_n runner conf is result w))))"

text \<open>
  Phase 2: one queued candidate. The result carries the accepted ids and those to reroute.
\<close>

definition run_queued ::
    "service \<Rightarrow> env \<Rightarrow> str \<Rightarrow> (task_id \<Rightarrow> task_config option) \<Rightarrow> str \<Rightarrow> str list \<times> str list \<Rightarrow> world
       \<Rightarrow> (str list \<times> str list) result \<times> world" where
  "run_queued sv e runner conf i acc w =
     (if i \<in> set (fst acc) then (Inr acc, w)
      else
        (case get_invocation_status i (w_control w) of
           Inl _ \<Rightarrow> (Inr acc, w)
         | Inr r \<Rightarrow>
             (if \<not> is_available_for_run (sr_status r) then (Inr acc, w)
              else if \<not> check_cc_for_invocation i conf w then
                (case get_invocation i (w_state w) of
                   Inl _ \<Rightarrow> (Inr acc, w)
                 | Inr dto \<Rightarrow>
                     (let reroute = (case conf (inv_task_id dto) of None \<Rightarrow> False | Some c \<Rightarrow> reroute_on_cc c);
                          target = (if reroute then ConcurrencyControlled else ConcurrencyControlledFinal)
                      in case lift_control (set_invocation_status e i target (Some runner)) w of
                           (Inr _, w) \<Rightarrow> (Inr (if reroute then (fst acc, snd acc @ [i]) else acc), w)
                         | (Inl err, w) \<Rightarrow> (if is_invalid_transition err then (Inr acc, w) else (Inl err, w))))
              else and_then (try_transition_to_pending sv e i runner (fst acc) w) (\<lambda>result w.
                     (Inr (result, snd acc), w)))))"

text \<open>The loop of phase 2; \<open>attempts\<close> counts down from \<^verbatim>\<open>max_num_invocations * 2 + 8\<close>.\<close>

fun run_queue_rounds ::
    "service \<Rightarrow> env \<Rightarrow> nat \<Rightarrow> str \<Rightarrow> str list \<Rightarrow> (task_id \<Rightarrow> task_config option) \<Rightarrow> nat
       \<Rightarrow> str list \<times> str list \<Rightarrow> world \<Rightarrow> (str list \<times> str list) result \<times> world" where
  "run_queue_rounds sv e max_n runner queues conf 0 acc w = (Inr acc, w)"
| "run_queue_rounds sv e max_n runner queues conf (Suc attempts) acc w =
     (if max_n \<le> length (fst acc) then (Inr acc, w)
      else and_then (retrieve_first (\<lambda>q. retrieve_invocation_from_queue (now e) q None) queues w)
        (\<lambda>candidate w.
           case candidate of
             None \<Rightarrow> (Inr acc, w)
           | Some i \<Rightarrow>
               and_then (run_queued sv e runner conf i acc w) (\<lambda>acc w.
                 run_queue_rounds sv e max_n runner queues conf attempts acc w)))"

text \<open>Phase 3: the refused ones go back to their queue; a failed route is dropped.\<close>

fun reroute_refused ::
    "env \<Rightarrow> str \<Rightarrow> (task_id \<Rightarrow> task_config option) \<Rightarrow> str list \<Rightarrow> world \<Rightarrow> unit result \<times> world" where
  "reroute_refused e runner conf [] w = (Inr (), w)"
| "reroute_refused e runner conf (i # is) w =
     (case lift_control (set_invocation_status e i Rerouted (Some runner)) w of
        (Inr _, w) \<Rightarrow>
          and_then
            (case get_invocation i (w_state w) of
               Inl _ \<Rightarrow> (Inr (), w)
             | Inr dto \<Rightarrow>
                 (case conf (inv_task_id dto) of
                    None \<Rightarrow> (Inr (), w)
                  | Some c \<Rightarrow>
                      ignore_error (lift_broker
                        (route_invocation_with_options i (Some (inv_task_id dto)) (queue c) (priority c)) w)))
            (\<lambda>_ w. reroute_refused e runner conf is w)
      | (Inl err, w) \<Rightarrow>
          (if is_invalid_transition err then reroute_refused e runner conf is w else (Inl err, w)))"

definition get_invocations_to_run ::
    "service \<Rightarrow> env \<Rightarrow> nat \<Rightarrow> str \<Rightarrow> str list \<Rightarrow> (task_id \<Rightarrow> task_config option) \<Rightarrow> world
       \<Rightarrow> str list result \<times> world" where
  "get_invocations_to_run sv e max_n runner queues conf w =
     and_then (run_blocking sv e max_n runner conf (get_blocking_invocations e max_n (w_control w)) [] w)
       (\<lambda>result w.
     and_then (run_queue_rounds sv e max_n runner queues conf (max_n * 2 + 8) (result, []) w)
       (\<lambda>(result, reroute_ids) w.
     and_then (reroute_refused e runner conf reroute_ids w) (\<lambda>_ w. (Inr result, w))))"

section \<open>One attempt\<close>

definition is_ownership_violation :: "rv_error \<Rightarrow> bool" where
  "is_ownership_violation err = (case err of OwnershipViolation _ _ _ _ _ \<Rightarrow> True | _ \<Rightarrow> False)"

text \<open>Steps 1 and 2: claim ownership and go to \<^verbatim>\<open>Running\<close>; \<^const>\<open>False\<close> when the claim is lost.\<close>

definition claim_ownership :: "service \<Rightarrow> env \<Rightarrow> str \<Rightarrow> str \<Rightarrow> world \<Rightarrow> bool result \<times> world" where
  "claim_ownership sv e i runner w =
     (case set_status sv e i Pending runner w of
        (Inr _, w) \<Rightarrow> and_then (set_status sv e i Running runner w) (\<lambda>_ w. (Inr True, w))
      | (Inl err, w) \<Rightarrow>
          (if is_invalid_transition err \<or> is_ownership_violation err then
             and_then (release_nontransactional_concurrency_slot i w) (\<lambda>_ w. (Inr False, w))
           else and_then (ignore_error (release_nontransactional_concurrency_slot i w)) (\<lambda>_ w. (Inl err, w))))"

datatype discarded = DiscardCancelled | TakenOver bool

text \<open>Whether a rejected outcome write means that the attempt is discarded.\<close>

definition discarded_outcome :: "str \<Rightarrow> str \<Rightarrow> unit result \<Rightarrow> world \<Rightarrow> discarded option result" where
  "discarded_outcome i runner written w =
     (case written of
        Inr _ \<Rightarrow> Inr None
      | Inl err \<Rightarrow>
          (if is_invalid_transition err \<or> is_ownership_violation err \<or> is_race err then
             (if is_cancelled i w then Inr (Some DiscardCancelled)
              else
                (let record = current_status i w;
                     holder_running = (case record of
                                         None \<Rightarrow> False
                                       | Some r \<Rightarrow> sr_status r = Pending \<or> sr_status r = Running)
                 in if holder_running \<and> (case record of None \<Rightarrow> None | Some r \<Rightarrow> sr_runner r) = Some runner
                    then Inl err
                    else Inr (Some (TakenOver holder_running))))
           else Inl err))"

definition finish_discarded :: "str \<Rightarrow> discarded \<Rightarrow> world \<Rightarrow> world" where
  "finish_discarded i reason w =
     (if reason = TakenOver True then w else snd (release_nontransactional_concurrency_slot i w))"

text \<open>The decision to retry after an error; \<open>c\<close> is the registered and \<open>rc\<close> the resolved configuration.\<close>

definition should_retry :: "task_config \<Rightarrow> task_config \<Rightarrow> u32 \<Rightarrow> bool \<Rightarrow> str \<Rightarrow> bool" where
  "should_retry c rc retry_count timed_out error_type \<longleftrightarrow>
     retry_count < max_retries c \<and> (\<not> timed_out \<or> retry_on_timeout rc) \<and>
     (retry_for_errors c = [] \<or> list_ex (\<lambda>x. str_contains x error_type) (retry_for_errors c))"

definition task_error_of :: "(rv_error \<Rightarrow> str) \<Rightarrow> rv_error \<Rightarrow> task_error" where
  "task_error_of to_string err =
     (case err of
        TaskExecution ty m tb \<Rightarrow> \<lparr>err_type = ty, err_message = m, err_traceback = tb\<rparr>
      | _ \<Rightarrow> \<lparr>err_type = ''TaskExecutionError'', err_message = to_string err, err_traceback = None\<rparr>)"

text \<open>
  The write of an outcome and its acceptance: a discarded outcome ends the attempt quietly, an
  accepted one continues with \<open>next\<close>.
\<close>

definition settle ::
    "str \<Rightarrow> str \<Rightarrow> unit result \<times> world \<Rightarrow> (world \<Rightarrow> unit result \<times> world) \<Rightarrow> unit result \<times> world" where
  "settle i runner write next_step =
     (case write of
        (written, w) \<Rightarrow>
          (case discarded_outcome i runner written w of
             Inl err \<Rightarrow> (Inl err, w)
           | Inr (Some reason) \<Rightarrow> (Inr (), finish_discarded i reason w)
           | Inr None \<Rightarrow> next_step w))"

text \<open>
  Step 8 for an attempt that was not interrupted by a cancellation: \<open>num_retries\<close> and the attempt
  number come from step 4, \<open>delay\<close> from the retry policy.
\<close>

definition finish_attempt ::
    "service \<Rightarrow> env \<Rightarrow> (rv_error \<Rightarrow> str) \<Rightarrow> str \<Rightarrow> str \<Rightarrow> task_id \<Rightarrow> serialized_arguments \<Rightarrow> task_config \<Rightarrow> task_config
       \<Rightarrow> u32 \<Rightarrow> u32 \<Rightarrow> bool \<Rightarrow> int \<Rightarrow> str result \<Rightarrow> world \<Rightarrow> unit result \<times> world" where
  "finish_attempt sv e to_string i runner t args c rc num_retries attempt timed_out delay outcome w =
     (case outcome of
        Inr result \<Rightarrow>
          settle i runner (set_result_with_context sv e i result runner t args w)
            (\<lambda>w. ignore_error (release_nontransactional_concurrency_slot i w))
      | Inl err \<Rightarrow>
          (let te = task_error_of to_string err
           in if should_retry c rc num_retries timed_out (err_type te) then
                (if attempt = -1 then (Inl (Infrastructure Query), w)
                 else
                   and_then (release_nontransactional_concurrency_slot i w) (\<lambda>_ w.
                     settle i runner
                       (set_retry_after_with_context sv e i runner t args (queue rc) (priority rc) delay w)
                       (\<lambda>w. (Inr (), w))))
              else
                settle i runner
                  (set_exception_with_context sv e i (err_type te) (err_message te) runner t args w)
                  (\<lambda>w. ignore_error (release_nontransactional_concurrency_slot i w))))"

text \<open>Step 8 after a cancellation was noticed while the body ran.\<close>

definition finish_cancelled :: "str \<Rightarrow> world \<Rightarrow> unit result \<times> world" where
  "finish_cancelled i w = (Inr (), finish_discarded i DiscardCancelled w)"

text \<open>Step 3 for a task this worker does not know.\<close>

definition fail_unregistered ::
    "service \<Rightarrow> env \<Rightarrow> str \<Rightarrow> str \<Rightarrow> str \<Rightarrow> task_id \<Rightarrow> serialized_arguments \<Rightarrow> world \<Rightarrow> unit result \<times> world" where
  "fail_unregistered sv e message i runner t args w =
     settle i runner (set_exception_with_context sv e i ''TaskNotRegistered'' message runner t args w)
       (\<lambda>w. ignore_error (release_nontransactional_concurrency_slot i w))"

end
