(* ===== verification/Maintenance.thy ===== *)
theory Maintenance
  imports Dispatch
begin

text \<open>
  Recovery, \<^verbatim>\<open>orchestration/maintenance.rs\<close>; submission,
  \<^verbatim>\<open>orchestration/submission.rs\<close>; and the publication of claimed trigger runs,
  \<^verbatim>\<open>orchestration/triggers.rs\<close>. What a submission reads from its caller (runner context,
  enclosing invocation, active trace) is an argument, like the OpenTelemetry check of a trace carrier
  and the armed failpoints; the submission event of the telemetry emitter is left out.
\<close>

section \<open>Recovery\<close>

datatype recovery_outcome = RecRerouted | RecFailed | RecSkipped

definition RECOVERY_LIMIT_ERROR :: str where
  "RECOVERY_LIMIT_ERROR = ''RecoveryLimitExceeded''"

definition is_recovery_status :: "invocation_status \<Rightarrow> bool" where
  "is_recovery_status st \<longleftrightarrow> st = PendingRecovery \<or> st = RunningRecovery"

definition recovery_count :: "str \<Rightarrow> world \<Rightarrow> nat" where
  "recovery_count i w =
     length (filter (\<lambda>h. is_recovery_status (sr_status (h_status_record h))) (get_history i (w_state w)))"

definition recovery_limit_message :: "str \<Rightarrow> nat \<Rightarrow> str" where
  "recovery_limit_message i previous =
     ''invocation '' @ i @ '' was recovered '' @ show_nat previous @
     '' time(s) (max_invocation_recoveries); its worker died or could not run it each time. '' @
     ''Check that the worker image imports the task module and that the task does not crash its process''"

text \<open>The first write of a recovery, unless an interrupted recovery has made it already.\<close>

definition enter_recovery ::
    "service \<Rightarrow> env \<Rightarrow> str \<Rightarrow> str \<Rightarrow> invocation_status \<Rightarrow> bool \<Rightarrow> world
       \<Rightarrow> (world \<Rightarrow> recovery_outcome result \<times> world) \<Rightarrow> recovery_outcome result \<times> world" where
  "enter_recovery sv e i runner recovery_status resuming w next_step =
     (if resuming then next_step w
      else
        (case set_status sv e i recovery_status runner w of
           (Inr _, w) \<Rightarrow> next_step w
         | (Inl err, w) \<Rightarrow> (if is_invalid_transition err then (Inr RecSkipped, w) else (Inl err, w))))"

definition fail_recovery_limit ::
    "service \<Rightarrow> env \<Rightarrow> str \<Rightarrow> str \<Rightarrow> invocation_status \<Rightarrow> bool \<Rightarrow> nat \<Rightarrow> world
       \<Rightarrow> recovery_outcome result \<times> world" where
  "fail_recovery_limit sv e i runner recovery_status resuming previous w =
     enter_recovery sv e i runner recovery_status resuming w (\<lambda>w.
       and_then (lift_state (store_error i
           \<lparr>err_type = RECOVERY_LIMIT_ERROR, err_message = recovery_limit_message i previous,
            err_traceback = None\<rparr>) w) (\<lambda>_ w.
       and_then (set_status sv e i Failed runner w) (\<lambda>_ w. (Inr RecFailed, w))))"

definition recover_one ::
    "service \<Rightarrow> env \<Rightarrow> str \<Rightarrow> str \<Rightarrow> invocation_status \<Rightarrow> world \<Rightarrow> recovery_outcome result \<times> world" where
  "recover_one sv e runner i recovery_status w =
     and_then (get_invocation i (w_state w), w) (\<lambda>dto w.
     and_then (get_invocation_status i (w_control w), w) (\<lambda>current w.
       let resuming = is_recovery_status (sr_status current);
           limit = unat (max_invocation_recoveries (sv_app sv));
           previous = recovery_count i w;
           attempts = (if resuming then previous else previous + 1)
       in if 0 < limit \<and> limit < attempts
          then fail_recovery_limit sv e i runner recovery_status resuming previous w
          else
            and_then (catalog_routing sv (inv_task_id dto) w) (\<lambda>(q, p) w.
              enter_recovery sv e i runner recovery_status resuming w (\<lambda>w.
                and_then (set_status sv e i Rerouted runner w) (\<lambda>_ w.
                and_then (lift_broker (route_invocation_with_options i (Some (inv_task_id dto)) q p) w) (\<lambda>_ w.
                  (Inr RecRerouted, w)))))))"

text \<open>Invocations left in a recovery status; the cutoff of each status is computed first.\<close>

definition interrupted_in ::
    "env \<Rightarrow> invocation_status \<Rightarrow> u64 \<Rightarrow> world \<Rightarrow> (str \<times> invocation_status) list result" where
  "interrupted_in e status stale_after w =
     (case sub_secs e (now e) (clamp_i64 stale_after) of
        None \<Rightarrow> Inl Panic
      | Some cutoff \<Rightarrow>
          Inr (map (\<lambda>i. (i, status))
                 (filter (\<lambda>i. case get_invocation_status i (w_control w) of
                                Inl _ \<Rightarrow> False
                              | Inr r \<Rightarrow> sr_status r = status \<and> sr_timestamp r < cutoff)
                    (get_invocations_by_status e status None (w_control w)))))"

definition interrupted_recoveries ::
    "service \<Rightarrow> env \<Rightarrow> world \<Rightarrow> (str \<times> invocation_status) list result" where
  "interrupted_recoveries sv e w =
     (case interrupted_in e PendingRecovery (max_pending_seconds (sv_app sv)) w of
        Inl err \<Rightarrow> Inl err
      | Inr xs \<Rightarrow>
          (case interrupted_in e RunningRecovery (runner_dead_after_seconds (sv_app sv)) w of
             Inl err \<Rightarrow> Inl err
           | Inr ys \<Rightarrow> Inr (xs @ ys)))"

fun recover_all ::
    "service \<Rightarrow> env \<Rightarrow> str \<Rightarrow> (str \<times> invocation_status) list \<Rightarrow> world \<Rightarrow> nat \<times> world" where
  "recover_all sv e runner [] w = (0, w)"
| "recover_all sv e runner ((i, status) # rest) w =
     (case recover_one sv e runner i status w of
        (Inr RecRerouted, w) \<Rightarrow> (let (n, w) = recover_all sv e runner rest w in (Suc n, w))
      | (_, w) \<Rightarrow> recover_all sv e runner rest w)"

definition recover_stale_invocations :: "service \<Rightarrow> env \<Rightarrow> str \<Rightarrow> world \<Rightarrow> nat result \<times> world" where
  "recover_stale_invocations sv e runner w =
     and_then (get_stale_pending_invocations e (max_pending_seconds (sv_app sv)) (w_control w), w) (\<lambda>pending w.
     and_then (get_stale_running_invocations e (runner_dead_after_seconds (sv_app sv)) (w_control w), w) (\<lambda>running w.
     and_then (interrupted_recoveries sv e w, w) (\<lambda>interrupted w.
       let (n, w) = recover_all sv e runner
             (map (\<lambda>i. (i, PendingRecovery)) pending @ map (\<lambda>i. (i, RunningRecovery)) running @ interrupted) w
       in (Inr n, w))))"

section \<open>Submission\<close>

record caller_info =
  ci_app_id :: str
  ci_runner :: stored_runner_context
  ci_external :: stored_runner_context
  ci_parent :: "(str \<times> workflow_identity option \<times> trace_context) option"
  ci_active_trace :: trace_context
  ci_valid_trace :: "trace_context \<Rightarrow> bool"

definition resolve_trace_context :: "caller_info \<Rightarrow> trace_context option \<Rightarrow> trace_context result" where
  "resolve_trace_context ci explicit =
     (let inherited = map_option (snd \<circ> snd) (ci_parent ci);
          active = (if trace_context_is_empty (ci_active_trace ci) then None else Some (ci_active_trace ci));
          carrier = or_else (case explicit of
                               Some c \<Rightarrow> Some c
                             | None \<Rightarrow> (case active of Some c \<Rightarrow> Some c | None \<Rightarrow> inherited))
                      trace_context_default
      in if trace_context_is_empty carrier \<or> ci_valid_trace ci carrier then Inr carrier
         else Inl Configuration)"

definition resolve_workflow ::
    "caller_info \<Rightarrow> str \<Rightarrow> task_id \<Rightarrow> bool \<Rightarrow> str option \<times> workflow_identity option" where
  "resolve_workflow ci i t is_workflow =
     (case ci_parent ci of
        Some (parent, Some pw, _) \<Rightarrow>
          (Some parent,
           Some (if is_workflow then sub_workflow i t (workflow_id pw)
                 else workflow_child (workflow_id pw) (workflow_type pw) parent (wf_depth pw + 1)))
      | Some (parent, None, _) \<Rightarrow> (Some parent, if is_workflow then Some (workflow_root i t) else None)
      | None \<Rightarrow> (None, if is_workflow then Some (workflow_root i t) else None))"

definition submitted_dto ::
    "env \<Rightarrow> str \<Rightarrow> task_id \<Rightarrow> call_id \<Rightarrow> str option \<Rightarrow> workflow_identity option \<Rightarrow> invocation_dto" where
  "submitted_dto e i t c parent wfl =
     (case wfl of
        Some x \<Rightarrow> with_workflow (now e) i t c parent x
      | None \<Rightarrow> (invocation_dto_new (now e) i t c)\<lparr>inv_parent := parent\<rparr>)"

definition ensure_runner_context_stored :: "stored_runner_context \<Rightarrow> world \<Rightarrow> unit result \<times> world" where
  "ensure_runner_context_stored c w =
     (let r = src_runner_id c
      in if r \<in> w_runner_cache w then (Inr (), w)
         else if get_runner_context r (w_state w) \<noteq> None
         then (Inr (), w\<lparr>w_runner_cache := insert r (w_runner_cache w)\<rparr>)
         else and_then (lift_state (store_runner_context c) w) (\<lambda>_ w.
                (Inr (), w\<lparr>w_runner_cache := insert r (w_runner_cache w)\<rparr>)))"

text \<open>\<open>fresh\<close> is the random id; a requested id needs a transactional backend, which this is not.\<close>

definition submit_with_id ::
    "service \<Rightarrow> env \<Rightarrow> caller_info \<Rightarrow> str \<Rightarrow> call_dto \<Rightarrow> trace_context option \<Rightarrow> str option \<Rightarrow> world
       \<Rightarrow> str result \<times> world" where
  "submit_with_id sv e ci fresh call explicit_trace requested_id w =
     (if requested_id \<noteq> None then (Inl Configuration, w)
      else
        (case registry_get_dyn (cd_task_id call) (registry (w_catalog w)) of
           None \<Rightarrow> (Inl (TaskNotRegistered (cd_task_id call)), w)
         | Some base \<Rightarrow>
             (let (c, cat) = resolve_config (sv_host sv) (sv_app sv) (cd_task_id call) base (w_catalog w);
                  w = w\<lparr>w_catalog := cat\<rparr>;
                  (parent, wfl) = resolve_workflow ci fresh (cd_task_id call) (is_workflow_task c)
              in and_then (resolve_trace_context ci explicit_trace, w) (\<lambda>trace w.
                   let dto = with_trace_context trace
                               (submitted_dto e fresh (cd_task_id call) (cd_call_id call) parent wfl);
                       caller = (if ci_app_id ci = app_id (sv_app sv) then ci_runner ci else ci_external ci);
                       runner = src_runner_id caller
                   in and_then (lift_control (register_invocation_with_id e fresh call (Some runner)) w) (\<lambda>_ w.
                      and_then (lift_state (upsert_invocation dto call) w) (\<lambda>_ w.
                      and_then (if is_workflow_task c then
                                  (case wfl of
                                     None \<Rightarrow> (Inr (), w)
                                   | Some x \<Rightarrow> lift_state (store_workflow_run x) w)
                                else (Inr (), w)) (\<lambda>_ w.
                      and_then (ensure_runner_context_stored caller w) (\<lambda>_ w.
                      and_then (record_history fresh (status_record_new (now e) Registered (Some runner)) runner w) (\<lambda>_ w.
                      and_then (lift_broker (route_invocation_with_options fresh (Some (cd_task_id call))
                                  (queue c) (priority c)) w) (\<lambda>_ w.
                        (Inr fresh, w))))))))))) "

definition submit :: "service \<Rightarrow> env \<Rightarrow> caller_info \<Rightarrow> str \<Rightarrow> call_dto \<Rightarrow> world \<Rightarrow> str result \<times> world" where
  "submit sv e ci fresh call w = submit_with_id sv e ci fresh call None None w"

text \<open>The scan of the invocations of the task that are not finished.\<close>

fun find_registered ::
    "concurrency_control_type \<Rightarrow> str list \<Rightarrow> serialized_arguments option \<Rightarrow> str list \<Rightarrow> world
       \<Rightarrow> str option result" where
  "find_registered mode keys requested [] w = Inr None"
| "find_registered mode keys requested (i # is) w =
     (if mode = TaskCC then Inr (Some i)
      else
        (case get_invocation i (w_state w) of
           Inl err \<Rightarrow> Inl err
         | Inr dto \<Rightarrow>
             (case get_call (inv_call_id dto) (w_state w) of
                Inl err \<Rightarrow> Inl err
              | Inr call \<Rightarrow>
                  (if concurrency_arguments mode keys (cd_serialized_arguments call) = requested
                   then Inr (Some i) else find_registered mode keys requested is w))))"

definition submit_with_registration_control ::
    "service \<Rightarrow> env \<Rightarrow> caller_info \<Rightarrow> str \<Rightarrow> task_id \<Rightarrow> serialized_arguments \<Rightarrow> world \<Rightarrow> str result \<times> world" where
  "submit_with_registration_control sv e ci fresh t args w =
     (case registry_get_dyn t (registry (w_catalog w)) of
        None \<Rightarrow> (Inl (TaskNotRegistered t), w)
      | Some base \<Rightarrow>
          (let (c, cat) = resolve_config (sv_host sv) (sv_app sv) t base (w_catalog w);
               w = w\<lparr>w_catalog := cat\<rparr>;
               call = call_dto_new (sha256 (sv_libs sv)) (json_str (sv_libs sv)) t args;
               mode = registration_concurrency c
           in if mode = Unlimited then submit sv e ci fresh call w
              else
                and_then
                  (find_registered mode (key_arguments c)
                     (concurrency_arguments mode (key_arguments c) args)
                     (get_existing_invocations e t None (filter (\<lambda>st. \<not> is_terminal st) ALL_STATUSES)
                        (w_control w)) w, w)
                  (\<lambda>found w. case found of
                     Some i \<Rightarrow> (Inr i, w) | None \<Rightarrow> submit sv e ci fresh call w)))"

section \<open>Publishing trigger runs\<close>

definition boundary :: "(str \<Rightarrow> bool) \<Rightarrow> str \<Rightarrow> world \<Rightarrow> unit result \<times> world" where
  "boundary armed name w = (if armed name then (Inl (Infrastructure Query), w) else (Inr (), w))"

definition json_value_to_serialized_args :: "libs \<Rightarrow> json \<Rightarrow> serialized_arguments" where
  "json_value_to_serialized_args l v =
     (case v of
        JObject members \<Rightarrow> fold (\<lambda>(k, x) a. args_insert k (json_to_string l x) a) members []
      | _ \<Rightarrow> [])"

definition publish_trigger_run ::
    "service \<Rightarrow> env \<Rightarrow> (str \<Rightarrow> bool) \<Rightarrow> trigger_run_record \<Rightarrow> str \<Rightarrow> str \<Rightarrow> str \<times> f64 \<Rightarrow> world
       \<Rightarrow> unit result \<times> world" where
  "publish_trigger_run sv e armed run i runner route w =
     (let call = call_dto_new (sha256 (sv_libs sv)) (json_str (sv_libs sv)) (tr_task_id run)
                   (json_value_to_serialized_args (sv_libs sv) (tr_arguments run));
          dto = invocation_dto_new (now e) i (tr_task_id run) (cd_call_id call);
          publish = (\<lambda>w.
            and_then (lift_state (upsert_invocation dto call) w) (\<lambda>_ w.
            and_then (boundary armed ''trigger.fallback.stored'' w) (\<lambda>_ w.
            and_then (if list_ex (\<lambda>h. sr_status (h_status_record h) = Registered) (get_history i (w_state w))
                      then (Inr (), w)
                      else and_then (get_invocation_status i (w_control w), w) (\<lambda>record w.
                             record_history i record runner w)) (\<lambda>_ w.
            and_then (boundary armed ''trigger.fallback.history'' w) (\<lambda>_ w.
            and_then (lift_broker (route_invocation_with_options i (Some (tr_task_id run))
                        (fst route) (snd route)) w) (\<lambda>_ w.
              boundary armed ''trigger.fallback.routed'' w))))))
      in case get_invocation_status i (w_control w) of
           Inr record \<Rightarrow> (if sr_status record \<noteq> Registered then (Inr (), w) else publish w)
         | Inl (InvocationNotFound _) \<Rightarrow>
             and_then (lift_control (register_invocation_with_id e i call (Some runner)) w) (\<lambda>_ w.
             and_then (boundary armed ''trigger.fallback.registered'' w) (\<lambda>_ w. publish w))
         | Inl err \<Rightarrow> (Inl err, w))"

definition lift_triggers ::
    "(trigger_state \<Rightarrow> 'a result \<times> trigger_state) \<Rightarrow> trigger_state \<Rightarrow> world \<Rightarrow> 'a result \<times> world" where
  "lift_triggers f ts w = (case f ts of (r, ts') \<Rightarrow> (r, w\<lparr>w_triggers := Some ts'\<rparr>))"

fun pass_boundaries :: "(str \<Rightarrow> bool) \<Rightarrow> trigger_execution list \<Rightarrow> world \<Rightarrow> unit result \<times> world" where
  "pass_boundaries armed [] w = (Inr (), w)"
| "pass_boundaries armed (x # xs) w =
     and_then (boundary armed ''trigger.claimed'' w) (\<lambda>_ w. pass_boundaries armed xs w)"

fun publish_runs ::
    "service \<Rightarrow> env \<Rightarrow> (str \<Rightarrow> bool) \<Rightarrow> str \<Rightarrow> (task_id \<rightharpoonup> str \<times> f64) \<Rightarrow> trigger_run_record list \<Rightarrow> world
       \<Rightarrow> str list result \<times> world" where
  "publish_runs sv e armed runner routes [] w = (Inr [], w)"
| "publish_runs sv e armed runner routes (run # runs) w =
     (case (tr_planned_invocation_id run, routes (tr_task_id run)) of
        (Some i, Some route) \<Rightarrow>
          and_then (publish_trigger_run sv e armed run i runner route w) (\<lambda>_ w.
          and_then (boundary armed ''trigger.published'' w) (\<lambda>_ w.
          and_then (notify (complete_trigger_run e (tr_run_id run) i) w) (\<lambda>_ w.
          and_then (boundary armed ''trigger.completed'' w) (\<lambda>_ w.
          and_then (publish_runs sv e armed runner routes runs w) (\<lambda>is w. (Inr (i # is), w))))))
      | _ \<Rightarrow> publish_runs sv e armed runner routes runs w)"

abbreviation PENDING_TRIGGER_RUN_BATCH :: nat where
  "PENDING_TRIGGER_RUN_BATCH \<equiv> 1000"

definition trigger_loop_iteration ::
    "service \<Rightarrow> env \<Rightarrow> (str \<Rightarrow> bool) \<Rightarrow> str \<Rightarrow> (task_id \<rightharpoonup> str \<times> f64) \<Rightarrow> world \<Rightarrow> str list result \<times> world" where
  "trigger_loop_iteration sv e armed runner routes w =
     (case w_triggers w of
        None \<Rightarrow> (Inr [], w)
      | Some ts \<Rightarrow>
          and_then (lift_triggers (evaluate_cron_conditions (sv_libs sv) e) ts w) (\<lambda>_ w.
          and_then (case w_triggers w of
                      None \<Rightarrow> (Inr [], w)
                    | Some ts \<Rightarrow> lift_triggers (evaluate_trigger_runs (sv_libs sv) e) ts w) (\<lambda>executions w.
          and_then (pass_boundaries armed executions w) (\<lambda>_ w.
            publish_runs sv e armed runner routes
              (case w_triggers w of
                 None \<Rightarrow> [] | Some ts \<Rightarrow> pending_trigger_runs e PENDING_TRIGGER_RUN_BATCH ts) w))))"

end
