(* ===== verification/Execution.thy ===== *)
theory Execution
  imports Maintenance
begin

text \<open>
  One invocation from claim to outcome: the execution identity (\<^verbatim>\<open>rustvello-core/src/execution.rs\<close>), the
  supervision of an attempt (\<^verbatim>\<open>runner/attempt.rs\<close>), the whole of \<^verbatim>\<open>execute_invocation_common\<close>
  (\<^verbatim>\<open>runner/executor_common.rs\<close>), the start-up check of a runner (\<^verbatim>\<open>runner/control_plane.rs\<close>) and
  its rate-limited failure log (\<^verbatim>\<open>runner/failure_log.rs\<close>). Parameters: the trace ids drawn by
  OpenTelemetry, the JSON form of an identity, the text of an error, the retry delay (floating point),
  the middlewares and the task body.
\<close>

section \<open>Execution identity\<close>

record execution_identity =
  ei_attempt :: u32
  ei_trace :: trace_context
  ei_previous_trace :: trace_context

record runtime =
  rt_allocate :: "trace_context \<Rightarrow> trace_context"
  rt_encode :: "execution_identity \<Rightarrow> str"
  rt_decode :: "str \<Rightarrow> execution_identity option"
  rt_to_string :: "rv_error \<Rightarrow> str"
  rt_delay :: "task_config \<Rightarrow> u32 \<Rightarrow> int"
  rt_before :: "(str \<Rightarrow> task_id \<Rightarrow> unit result) list"

definition IDENTITY_KEY :: str where
  "IDENTITY_KEY = ''rustvello.execution.identity.v1''"

definition get_execution_identity :: "runtime \<Rightarrow> str \<Rightarrow> backend_state \<Rightarrow> execution_identity option result" where
  "get_execution_identity rt i s =
     (case get_workflow_data i IDENTITY_KEY s of
        None \<Rightarrow> Inr None
      | Some v \<Rightarrow> (case rt_decode rt v of None \<Rightarrow> Inl Serialization | Some x \<Rightarrow> Inr (Some x)))"

definition next_execution_identity ::
    "runtime \<Rightarrow> execution_identity option \<Rightarrow> u32 \<Rightarrow> trace_context \<Rightarrow> execution_identity result" where
  "next_execution_identity rt previous retry_count incoming =
     (case (case previous of
              Some x \<Rightarrow> (if ei_attempt x = -1 then Inl (Infrastructure Query)
                         else Inr (max retry_count (ei_attempt x + 1)))
            | None \<Rightarrow> Inr retry_count) of
        Inl err \<Rightarrow> Inl err
      | Inr attempt \<Rightarrow>
          (let parent = (if trace_context_is_empty incoming
                         then (case previous of None \<Rightarrow> incoming | Some x \<Rightarrow> ei_trace x) else incoming)
           in Inr \<lparr>ei_attempt = attempt, ei_trace = rt_allocate rt parent,
                   ei_previous_trace = (case previous of None \<Rightarrow> trace_context_default | Some x \<Rightarrow> ei_trace x)\<rparr>))"

definition begin_execution ::
    "runtime \<Rightarrow> str \<Rightarrow> u32 \<Rightarrow> trace_context \<Rightarrow> world \<Rightarrow> execution_identity result \<times> world" where
  "begin_execution rt i retry_count incoming w =
     and_then (get_execution_identity rt i (w_state w), w) (\<lambda>previous w.
     and_then (next_execution_identity rt previous retry_count incoming, w) (\<lambda>identity w.
     and_then (lift_state (set_workflow_data i IDENTITY_KEY (rt_encode rt identity)) w) (\<lambda>_ w.
       (Inr identity, w))))"

section \<open>Supervision of an attempt\<close>

datatype interruption = TimedOut int | InterruptedByCancel

definition timeout_error :: "int \<Rightarrow> rv_error" where
  "timeout_error timeout =
     TaskExecution ''TaskTimeoutError''
       (''attempt exceeded its execution deadline of '' @ show_nat (nat (timeout div 1000000)) @ '' ms'') None"

text \<open>
  One wake-up of the \<^verbatim>\<open>select!\<close> loop: the result of the body if it is ready, the time since the start,
  whether the deadline and the ticker have fired, and what a status check would read. The branches are
  polled in their order (\<^verbatim>\<open>biased\<close>). \<^const>\<open>None\<close>: the attempt is still running.
\<close>

record wakeup =
  wk_body :: "str result option"
  wk_elapsed :: int
  wk_deadline :: bool
  wk_tick :: bool
  wk_cancelled :: bool

fun supervise ::
    "str \<Rightarrow> int option \<Rightarrow> bool \<Rightarrow> wakeup list \<Rightarrow> (str result \<times> interruption option) option" where
  "supervise i timeout cancel_check [] = None"
| "supervise i timeout cancel_check (k # ks) =
     (case wk_body k of
        Some result \<Rightarrow>
          (case timeout of
             Some d \<Rightarrow> (if d < wk_elapsed k then Some (Inl (timeout_error d), Some (TimedOut d)) else Some (result, None))
           | None \<Rightarrow> Some (result, None))
      | None \<Rightarrow>
          (case (timeout, wk_deadline k) of
             (Some d, True) \<Rightarrow> Some (Inl (timeout_error d), Some (TimedOut d))
           | _ \<Rightarrow>
               (if cancel_check \<and> wk_tick k \<and> wk_cancelled k
                then Some (Inl (InvocationCancelled i), Some InterruptedByCancel)
                else supervise i timeout cancel_check ks)))"

section \<open>The shared execution flow\<close>

definition retry_count_of :: "str \<Rightarrow> world \<Rightarrow> u32" where
  "retry_count_of i w =
     of_nat (length (filter (\<lambda>h. sr_status (h_status_record h) = Retry) (get_history i (w_state w))))"

definition unregistered_message :: "task_id \<Rightarrow> str" where
  "unregistered_message t =
     ''task '' @ display_task_id t @
     '' is not registered in this runner: import the module that defines it in the '' @
     ''process that runs the worker (with worker processes, the runner process must '' @
     ''register it too), or route it to a runner that has it''"

fun run_before :: "(str \<Rightarrow> task_id \<Rightarrow> unit result) list \<Rightarrow> str \<Rightarrow> task_id \<Rightarrow> unit result" where
  "run_before [] i t = Inr ()"
| "run_before (m # ms) i t = (case m i t of Inl err \<Rightarrow> Inl err | Inr _ \<Rightarrow> run_before ms i t)"

text \<open>What the later steps know of the attempt.\<close>

record attempt =
  at_task :: task_id
  at_arguments :: serialized_arguments
  at_config :: task_config
  at_resolved :: task_config
  at_num_retries :: u32
  at_number :: u32

text \<open>Steps 1 to 5; \<^const>\<open>None\<close> when the flow has ended before the body.\<close>

definition prepare_attempt ::
    "service \<Rightarrow> runtime \<Rightarrow> env \<Rightarrow> str \<Rightarrow> str \<Rightarrow> world \<Rightarrow> attempt option result \<times> world" where
  "prepare_attempt sv rt e i runner w =
     and_then (claim_ownership sv e i runner w) (\<lambda>owned w.
       if \<not> owned then (Inr None, w)
       else
         and_then (get_invocation i (w_state w), w) (\<lambda>dto w.
         and_then (get_call (inv_call_id dto) (w_state w), w) (\<lambda>call w.
           case registry_get_dyn (inv_task_id dto) (registry (w_catalog w)) of
             None \<Rightarrow>
               and_then (fail_unregistered sv e (unregistered_message (inv_task_id dto)) i runner (inv_task_id dto)
                           (cd_serialized_arguments call) w) (\<lambda>_ w. (Inr None, w))
           | Some c \<Rightarrow>
               (let (rc, cat) = resolve_config (sv_host sv) (sv_app sv) (inv_task_id dto) c (w_catalog w);
                    w = w\<lparr>w_catalog := cat\<rparr>;
                    num_retries = retry_count_of i w
                in and_then (begin_execution rt i num_retries (inv_trace dto) w) (\<lambda>identity w.
                   and_then (run_before (rt_before rt) i (inv_task_id dto), w) (\<lambda>_ w.
                     (Inr (Some \<lparr>at_task = inv_task_id dto, at_arguments = cd_serialized_arguments call,
                                 at_config = c, at_resolved = rc, at_num_retries = num_retries,
                                 at_number = ei_attempt identity\<rparr>), w)))))))"

text \<open>Step 8.\<close>

definition conclude_attempt ::
    "service \<Rightarrow> runtime \<Rightarrow> env \<Rightarrow> str \<Rightarrow> str \<Rightarrow> attempt \<Rightarrow> str result \<times> interruption option \<Rightarrow> world
       \<Rightarrow> unit result \<times> world" where
  "conclude_attempt sv rt e i runner x r w =
     (if snd r = Some InterruptedByCancel then finish_cancelled i w
      else finish_attempt sv e (rt_to_string rt) i runner (at_task x) (at_arguments x) (at_config x) (at_resolved x)
             (at_num_retries x) (at_number x) (snd r \<noteq> None)
             (rt_delay rt (at_resolved x) (at_num_retries x)) (fst r) w)"

text \<open>
  The whole flow. \<open>body\<close> is step 6, whatever the task and everyone else do meanwhile; \<open>e\<close> and \<open>e'\<close> are the
  surroundings before and after it. After-middlewares only see the outcome.
\<close>

definition execute_invocation_common ::
    "service \<Rightarrow> runtime \<Rightarrow> env \<Rightarrow> env \<Rightarrow> str \<Rightarrow> str
       \<Rightarrow> (attempt \<Rightarrow> world \<Rightarrow> (str result \<times> interruption option) \<times> world) \<Rightarrow> world \<Rightarrow> unit result \<times> world" where
  "execute_invocation_common sv rt e e' i runner body w =
     and_then (prepare_attempt sv rt e i runner w) (\<lambda>x w.
       case x of
         None \<Rightarrow> (Inr (), w)
       | Some x \<Rightarrow> (case body x w of (r, w) \<Rightarrow> conclude_attempt sv rt e' i runner x r w))"

section \<open>Start-up of a runner\<close>

definition default_executor_for :: "task_language \<Rightarrow> executor_kind" where
  "default_executor_for lang = (case lang of Rust \<Rightarrow> Tokio | Python \<Rightarrow> PythonExecutor)"

text \<open>Every refusal becomes a configuration error.\<close>

definition refused :: "'a result \<times> 's \<Rightarrow> 'a result \<times> 's" where
  "refused r = (case r of (Inl _, s) \<Rightarrow> (Inl Configuration, s) | (Inr x, s) \<Rightarrow> (Inr x, s))"

definition startup_check ::
    "service \<Rightarrow> env \<Rightarrow> stored_runner_context \<Rightarrow> str \<Rightarrow> world \<Rightarrow> unit result \<times> world" where
  "startup_check sv e ctx runner w =
     and_then (refused (lift_state (store_runner_context ctx) w)) (\<lambda>_ w.
     and_then (refused (lift_control (register_heartbeat e runner True) w)) (\<lambda>_ w.
     and_then (Inr (get_active_runner_ids e (runner_dead_after_seconds (sv_app sv)) (w_control w)), w) (\<lambda>_ w.
     and_then (refused (count_invocations_in_queues (now e)
                 (if runner_queues (sv_app sv) = [] then broker_queues (sv_app sv) else runner_queues (sv_app sv))
                 None (w_broker w), w)) (\<lambda>_ w. (Inr (), w)))))"

section \<open>Failure log\<close>

record failure_log =
  fl_interval :: int
  fl_pending :: u64
  fl_total :: u64
  fl_last_logged :: "int option"

definition failure_log_new :: "int \<Rightarrow> failure_log" where
  "failure_log_new interval =
     \<lparr>fl_interval = interval, fl_pending = 0, fl_total = 0, fl_last_logged = None\<rparr>"

text \<open>A failure at the instant \<open>t\<close>; whether a line is logged.\<close>

definition log_failed :: "int \<Rightarrow> failure_log \<Rightarrow> bool \<times> failure_log" where
  "log_failed t l =
     (let l1 = l\<lparr>fl_pending := fl_pending l + 1, fl_total := fl_total l + 1\<rparr>;
          due = (case fl_last_logged l of None \<Rightarrow> True | Some at \<Rightarrow> fl_interval l \<le> t - at)
      in if \<not> due then (False, l1) else (True, l1\<lparr>fl_last_logged := Some t, fl_pending := 0\<rparr>))"

definition log_succeeded :: "failure_log \<Rightarrow> failure_log" where
  "log_succeeded l =
     (if 0 < fl_total l then l\<lparr>fl_total := 0, fl_pending := 0, fl_last_logged := None\<rparr>
      else l\<lparr>fl_total := 0\<rparr>)"

definition log_record :: "int \<Rightarrow> 'a result \<Rightarrow> failure_log \<Rightarrow> bool \<times> failure_log" where
  "log_record t r l = (case r of Inr _ \<Rightarrow> (False, log_succeeded l) | Inl _ \<Rightarrow> log_failed t l)"

end
