(* ===== verification/Service_Props.thy ===== *)
theory Service_Props
  imports Execution
begin

text \<open>
  What holds across the backends. The locale \<open>kept\<close> is the interface between the use cases and the
  backends: a predicate that every backend call keeps is kept by every use case, whatever errors cut it
  short. Its interpretations give the joint invariant of the stores and the append-only history.
\<close>

section \<open>Backend calls\<close>

lemma lift_snd:
  "snd (lift_control f w) = w\<lparr>w_control := snd (f (w_control w))\<rparr>"
  "snd (lift_state g w) = w\<lparr>w_state := snd (g (w_state w))\<rparr>"
  "snd (lift_broker h w) = w\<lparr>w_broker := snd (h (w_broker w))\<rparr>"
  by (simp_all add: lift_control_def lift_state_def lift_broker_def split: prod.split)

lemma lift_fst:
  "fst (lift_control f w) = fst (f (w_control w))"
  "fst (lift_state g w) = fst (g (w_state w))"
  "fst (lift_broker h w) = fst (h (w_broker w))"
  by (simp_all add: lift_control_def lift_state_def lift_broker_def split: prod.split)

text \<open>The trigger manager changes its store by the store's operations only.\<close>

inductive store_calls :: "trigger_state \<Rightarrow> trigger_state \<Rightarrow> bool" where
  none [simp, intro]: "store_calls s s"
| call: "store_calls s s' \<Longrightarrow> op \<noteq> PurgeTriggers \<Longrightarrow> store_calls s (trigger_exec l e op s')"

lemma store_calls_trans [trans]: "store_calls s' s'' \<Longrightarrow> store_calls s s' \<Longrightarrow> store_calls s s''"
  by (induction rule: store_calls.induct) (auto intro: store_calls.call)

lemma store_calls_op: "op \<noteq> PurgeTriggers \<Longrightarrow> store_calls s (trigger_exec l e op s)"
  by (rule store_calls.call [OF store_calls.none])

lemma store_calls_and_then:
  "store_calls s (snd r) \<Longrightarrow> (\<And>x s'. store_calls s' (snd (f x s'))) \<Longrightarrow> store_calls s (snd (and_then r f))"
  by (cases r; cases "fst r") (auto intro: store_calls_trans)

lemma store_calls_ops:
  "store_calls s (snd (record_valid_condition vc s))"
  "store_calls s (snd (store_cron_execution cid t expected s))"
  "store_calls s (snd (store_event v s))"
  "store_calls s (snd (store_trigger_run r s))"
  "store_calls s (snd (claim_trigger_runs_with_records e rs ids s))"
  using store_calls_op [of "RecordValid vc"] store_calls_op [of "StoreCron cid t expected"]
    store_calls_op [of "StoreEvent v"] store_calls_op [of "StoreRun r"]
    store_calls_op [of "ClaimBatch rs ids" s _ e]
  by auto

lemma record_satisfied_calls: "store_calls s (snd (record_satisfied l ctx cs s))"
  by (induction l ctx cs s rule: record_satisfied.induct)
    (auto simp: Let_def intro!: store_calls_and_then store_calls_ops)

lemma report_calls:
  "store_calls s (snd (report_status_change l sx s))"
  "store_calls s (snd (report_result l rx s))"
  "store_calls s (snd (report_failure l xx s))"
  by (simp_all add: report_status_change_def report_result_def report_failure_def
      evaluate_task_conditions_def record_satisfied_calls)

lemma evaluate_crons_calls: "store_calls s (snd (evaluate_crons l e cs s))"
proof (induction cs arbitrary: s)
  case (Cons c cs)
  have "store_calls s (snd (cron_try l e cid c sch lr s))" for cid c sch lr s
    by (auto simp: cron_try_def Let_def intro!: store_calls_and_then store_calls_ops)
  then have "store_calls s (snd (evaluate_cron l e c s))" for s
    by (auto simp: evaluate_cron_def split: prod.split trigger_condition.split option.split)
  with Cons show ?case by (auto intro!: store_calls_and_then)
qed simp

lemma evaluate_calls:
  "store_calls s (snd (evaluate_cron_conditions l e s))"
  "store_calls s (snd (evaluate_trigger_runs l e s))"
  by (auto simp: evaluate_cron_conditions_def evaluate_crons_calls evaluate_trigger_runs_def Let_def
      intro!: store_calls_and_then store_calls_ops)

lemma mark_events_calls: "store_calls s (snd (mark_events vs i s))"
  by (induction vs i s rule: mark_events.induct)
    (auto intro!: store_calls_and_then store_calls_ops split: option.split)

lemma complete_calls: "store_calls s (snd (complete_trigger_run e r i s))"
  by (auto simp: complete_trigger_run_def Let_def
      intro!: store_calls_and_then store_calls_ops mark_events_calls split: option.split)

section \<open>Predicates kept by the use cases\<close>

text \<open>The use cases neither send heartbeats nor purge the orchestrator.\<close>

fun quiet_op :: "orch_op \<Rightarrow> bool" where
  "quiet_op (Heartbeat _ _) = False"
| "quiet_op Purge = False"
| "quiet_op _ = True"

text \<open>The operations that neither register nor remove an invocation.\<close>

fun steady_op :: "orch_op \<Rightarrow> bool" where
  "steady_op (Register _ _ _) = False"
| "steady_op (RemoveInvocation _) = False"
| "steady_op (RunAutoPurge _) = False"
| "steady_op op = quiet_op op"

text \<open>
  A predicate that these operations keep, and also the registration of an id that is \<open>free\<close> or not known, is kept by every
  use case that registers only free ids.
\<close>

locale steady =
  fixes Q :: "world \<Rightarrow> bool" and free :: "str \<Rightarrow> bool"
  assumes control: "Q w \<Longrightarrow> steady_op op \<Longrightarrow> Q (w\<lparr>w_control := orch_exec e op (w_control w)\<rparr>)"
    and registering: "Q w \<Longrightarrow> free i \<or> status_records (w_control w) i = None \<Longrightarrow>
      Q (w\<lparr>w_control := orch_exec e (Register i call r) (w_control w)\<rparr>)"
    and state: "Q w \<Longrightarrow> sop \<noteq> PurgeState \<Longrightarrow> Q (w\<lparr>w_state := state_exec sop (w_state w)\<rparr>)"
    and broker: "Q w \<Longrightarrow> Q (w\<lparr>w_broker := b\<rparr>)"
    and triggers: "Q w \<Longrightarrow> w_triggers w = Some ts \<Longrightarrow> store_calls ts ts' \<Longrightarrow> Q (w\<lparr>w_triggers := Some ts'\<rparr>)"
    and caches: "Q w \<Longrightarrow> Q (w\<lparr>w_catalog := c\<rparr>)" "Q w \<Longrightarrow> Q (w\<lparr>w_runner_cache := rs\<rparr>)"
      "Q w \<Longrightarrow> Q (w\<lparr>w_next_queue_index := n\<rparr>)"
begin

lemma keep_and_then:
  "Q (snd r) \<Longrightarrow> (\<And>x w. Q w \<Longrightarrow> Q (snd (f x w))) \<Longrightarrow> Q (snd (and_then r f))"
  by (cases r; cases "fst r") auto

lemma keep_case:
  "Q (snd r) \<Longrightarrow> (\<And>x w. Q w \<Longrightarrow> Q (snd (f x w))) \<Longrightarrow> (\<And>x w. Q w \<Longrightarrow> Q (snd (g x w))) \<Longrightarrow>
     Q (snd (case r of (Inr x, w) \<Rightarrow> f x w | (Inl x, w) \<Rightarrow> g x w))"
  by (cases r; cases "fst r") auto

lemma control_calls:
  assumes "Q w"
  shows "Q (snd (lift_control (set_invocation_status e i st r) w))"
    "Q (snd (lift_control (release_waiters e i) w))"
    "Q (snd (lift_control (schedule_auto_purge e i) w))"
    "Q (snd (lift_control (increment_invocation_retries i) w))"
    "Q (snd (lift_control (index_for_concurrency_control i t a) w))"
    "Q (snd (lift_control (try_acquire_concurrency_slot i t c a) w))"
    "Q (snd (lift_control (remove_from_concurrency_index i) w))"
  using control [OF assms, of "SetStatus i st r"] control [OF assms, of "ReleaseWaiters i"]
    control [OF assms, of "ScheduleAutoPurge i"]
    control [OF assms, of "IncrementRetries i"] control [OF assms, of "IndexCC i t a"]
    control [OF assms, of "AcquireSlot i t c a"] control [OF assms, of "RemoveCC i"]
  by (simp_all add: lift_snd)

lemma register_calls:
  assumes "Q w" "free i \<or> status_records (w_control w) i = None"
  shows "Q (snd (lift_control (register_invocation_with_id e i call r) w))"
  using registering [OF assms] by (simp add: lift_snd)

lemma state_calls:
  assumes "Q w"
  shows "Q (snd (lift_state (add_history h) w))" "Q (snd (lift_state (upsert_invocation d call) w))"
    "Q (snd (lift_state (store_result i r) w))" "Q (snd (lift_state (store_error i err) w))"
    "Q (snd (lift_state (store_workflow_run x) w))" "Q (snd (lift_state (store_runner_context c) w))"
    "Q (snd (lift_state (set_workflow_data k1 k2 v) w))"
  using state [OF assms, of "AddHistory h"] state [OF assms, of "Upsert d call"]
    state [OF assms, of "StoreResult i r"] state [OF assms, of "StoreError i err"]
    state [OF assms, of "StoreWorkflowRun x"] state [OF assms, of "StoreRunnerContext c"]
    state [OF assms, of "SetWorkflowData k1 k2 v"]
  by (simp_all add: lift_snd)

lemma broker_calls: "Q w \<Longrightarrow> Q (snd (lift_broker f w))"
  by (simp add: lift_snd broker)

lemma notify_calls:
  assumes "Q w" "\<And>ts. store_calls ts (snd (f ts))"
  shows "Q (snd (notify f w))"
proof (cases "w_triggers w")
  case None
  then show ?thesis using assms(1) by (simp add: notify_def)
next
  case (Some ts)
  obtain r ts' where f: "f ts = (r, ts')" by force
  then have "Q (w\<lparr>w_triggers := Some ts'\<rparr>)"
    using triggers [OF assms(1) Some] assms(2) [of ts] by simp
  then show ?thesis using Some f by (simp add: notify_def split: sum.split)
qed

lemma ignore_calls: "Q (snd r) \<Longrightarrow> Q (snd (ignore_error r))"
  by (simp add: ignore_error_def)

lemma catalog_calls: "Q w \<Longrightarrow> Q (snd (catalog_routing sv t w))"
  by (simp add: catalog_routing_def caches split: prod.split option.split)

lemmas calls =
  control_calls state_calls broker_calls notify_calls ignore_calls catalog_calls caches report_calls
  complete_calls

lemma keep_record_history: "Q w \<Longrightarrow> Q (snd (record_history i r runner w))"
  by (simp add: record_history_def calls)

lemma keep_report_status: "Q w \<Longrightarrow> Q (snd (report_status sv i t st a w))"
  by (simp add: report_status_def calls)

lemma keep_set_status_with_context: "Q w \<Longrightarrow> Q (snd (set_status_with_context sv e i st runner t a w))"
  unfolding set_status_with_context_def terminal_effects_def
  by (auto intro!: keep_and_then calls keep_record_history keep_report_status)

lemma keep_set_status: "Q w \<Longrightarrow> Q (snd (set_status sv e i st runner w))"
  by (simp add: set_status_def keep_set_status_with_context split: prod.split)

lemmas steps = calls keep_record_history keep_report_status keep_set_status_with_context keep_set_status

lemma keep_register_all:
  "Q w \<Longrightarrow> \<forall>(dto, call) \<in> set invs. free (inv_id dto) \<Longrightarrow> Q (snd (register_all sv e runner invs w))"
  by (induction sv e runner invs w rule: register_all.induct)
    (auto simp: register_one_def intro!: keep_and_then register_calls steps)

lemma keep_route_all: "Q w \<Longrightarrow> Q (snd (route_all xs w))"
  by (induction xs w rule: route_all.induct) (auto intro!: keep_and_then steps)

lemma keep_register_invocations:
  "Q w \<Longrightarrow> \<forall>(dto, call) \<in> set invs. free (inv_id dto) \<Longrightarrow> Q (snd (register_invocations sv e invs runner routes w))"
  by (auto simp: register_invocations_def intro!: keep_and_then keep_register_all keep_route_all)

lemma keep_set_result: "Q w \<Longrightarrow> Q (snd (set_result_with_context sv e i res runner t a w))"
  unfolding set_result_with_context_def by (auto intro!: keep_and_then steps)

lemma keep_set_exception: "Q w \<Longrightarrow> Q (snd (set_exception_with_context sv e i ty m runner t a w))"
  unfolding set_exception_with_context_def by (auto intro!: keep_and_then steps)

lemma keep_retry_after:
  "Q w \<Longrightarrow> Q (snd (set_retry_after_with_context sv e i runner t a q p delay w))"
  unfolding set_retry_after_with_context_def set_retry_with_context_def
  by (auto intro!: keep_and_then steps)

lemma keep_set_retry: "Q w \<Longrightarrow> Q (snd (set_retry sv e i runner q p w))"
  unfolding set_retry_def set_retry_with_context_def by (auto intro!: keep_and_then steps)

lemma keep_retry_invocation: "Q w \<Longrightarrow> Q (snd (retry_invocation sv e i runner w))"
  unfolding retry_invocation_def by (auto intro!: keep_and_then steps keep_set_retry)

lemma keep_release: "Q w \<Longrightarrow> Q (snd (release_nontransactional_concurrency_slot i w))"
  by (simp add: release_nontransactional_concurrency_slot_def steps)

lemma keep_cancel: "Q w \<Longrightarrow> Q (snd (cancel_invocation sv e i runner w))"
  unfolding cancel_invocation_def by (auto intro!: keep_and_then keep_case steps keep_release)

lemma keep_create: "Q w \<Longrightarrow> free i \<Longrightarrow> Q (snd (create_and_route_invocation sv e i call a ix runner q p w))"
  unfolding create_and_route_invocation_def Let_def by (auto intro!: keep_and_then register_calls steps)

lemma keep_route_call: "Q w \<Longrightarrow> free i \<Longrightarrow> Q (snd (route_call sv e i call a mode ix runner q p w))"
  unfolding route_call_def Let_def
  by (auto intro!: keep_and_then keep_create split: list.split)

lemma keep_reroute_one: "Q w \<Longrightarrow> Q (snd (reroute_one sv e runner i routes w))"
  unfolding reroute_one_def
  by (rule keep_case) (auto simp: Let_def case_prod_unfold intro!: keep_and_then steps split: option.split)

lemma keep_reroute: "Q w \<Longrightarrow> Q (snd (reroute_invocations sv e runner routes is w))"
  by (induction sv e runner routes "is" w rule: reroute_invocations.induct)
    (auto intro!: keep_and_then keep_reroute_one)

lemma keep_catalog_routes: "Q w \<Longrightarrow> Q (snd (catalog_routes sv is m w))"
  by (induction sv "is" m w rule: catalog_routes.induct) (auto intro!: keep_and_then steps)

lemma keep_reroute_catalog: "Q w \<Longrightarrow> Q (snd (reroute_catalog_invocations sv e is runner w))"
  unfolding reroute_catalog_invocations_def
  by (auto intro!: keep_and_then keep_catalog_routes keep_reroute)

lemma keep_retrieve_first: "Q w \<Longrightarrow> Q (snd (retrieve_first f qs w))"
  by (induction f qs w rule: retrieve_first.induct) (auto intro!: keep_and_then steps split: option.split)

lemma keep_admit: "Q w \<Longrightarrow> Q (snd (admit_candidate e reg i w))"
  unfolding admit_candidate_def refuse_candidate_def
  by (auto intro!: keep_and_then keep_case steps split: sum.split option.split)

lemma keep_claim_blocking: "Q w \<Longrightarrow> Q (snd (claim_blocking e reg lang is w))"
  by (induction e reg lang "is" w rule: claim_blocking.induct) (auto intro!: keep_and_then keep_admit)

lemma keep_claim_rounds: "Q w \<Longrightarrow> Q (snd (claim_rounds sv e reg lang shuffle n w))"
  by (induction sv e reg lang shuffle n w rule: claim_rounds.induct)
    (auto simp: Let_def intro!: keep_and_then keep_retrieve_first keep_admit steps split: prod.split option.split)

lemma keep_claim_next: "Q w \<Longrightarrow> Q (snd (claim_next sv e reg lang shuffle w))"
  unfolding claim_next_def
  by (auto intro!: keep_and_then keep_claim_blocking keep_claim_rounds split: option.split)

lemma keep_pending: "Q w \<Longrightarrow> Q (snd (try_transition_to_pending sv e i runner result w))"
  unfolding try_transition_to_pending_def
  by (rule keep_case) (auto intro!: keep_and_then steps split: sum.split)

lemma keep_run_blocking: "Q w \<Longrightarrow> Q (snd (run_blocking sv e n runner conf is result w))"
  by (induction sv e n runner conf "is" result w rule: run_blocking.induct)
    (auto intro!: keep_and_then keep_pending split: sum.split)

lemma keep_run_queued: "Q w \<Longrightarrow> Q (snd (run_queued sv e runner conf i acc w))"
  unfolding run_queued_def Let_def
  by (auto intro!: keep_and_then keep_case keep_pending steps split: sum.split)

lemma keep_queue_rounds: "Q w \<Longrightarrow> Q (snd (run_queue_rounds sv e n runner queues conf k acc w))"
  by (induction sv e n runner queues conf k acc w rule: run_queue_rounds.induct)
    (auto intro!: keep_and_then keep_retrieve_first keep_run_queued split: option.split)

lemma keep_reroute_refused: "Q w \<Longrightarrow> Q (snd (reroute_refused e runner conf is w))"
proof (induction "is" arbitrary: w)
  case (Cons i "is")
  then show ?case
    unfolding reroute_refused.simps
    by (intro keep_case) (auto intro!: keep_and_then steps split: sum.split option.split)
qed simp

lemma keep_to_run: "Q w \<Longrightarrow> Q (snd (get_invocations_to_run sv e n runner queues conf w))"
  unfolding get_invocations_to_run_def
  by (auto intro!: keep_and_then keep_run_blocking keep_queue_rounds keep_reroute_refused)

lemma keep_claim_ownership: "Q w \<Longrightarrow> Q (snd (claim_ownership sv e i runner w))"
  unfolding claim_ownership_def by (rule keep_case) (auto intro!: keep_and_then keep_release steps)

lemma keep_settle:
  assumes "Q (snd write)" "\<And>w. Q w \<Longrightarrow> Q (snd (next_step w))"
  shows "Q (snd (settle i runner write next_step))"
  using assms by (auto simp: settle_def finish_discarded_def intro: keep_release split: prod.split sum.split option.split)

lemma keep_finish:
  "Q w \<Longrightarrow> Q (snd (finish_attempt sv e ts i runner t a c rc n att timed_out delay outcome w))"
  unfolding finish_attempt_def Let_def
  by (auto intro!: keep_and_then keep_settle keep_set_result keep_set_exception keep_retry_after
      keep_release ignore_calls split: sum.split)

lemma keep_finish_cancelled: "Q w \<Longrightarrow> Q (snd (finish_cancelled i w))"
  by (simp add: finish_cancelled_def finish_discarded_def keep_release)

lemma keep_fail_unregistered: "Q w \<Longrightarrow> Q (snd (fail_unregistered sv e m i runner t a w))"
  unfolding fail_unregistered_def by (intro keep_settle keep_set_exception ignore_calls keep_release)

lemma keep_enter_recovery:
  "Q w \<Longrightarrow> (\<And>w. Q w \<Longrightarrow> Q (snd (next_step w))) \<Longrightarrow>
     Q (snd (enter_recovery sv e i runner st resuming w next_step))"
  unfolding enter_recovery_def by (auto intro!: keep_case steps)

lemma keep_recover_one: "Q w \<Longrightarrow> Q (snd (recover_one sv e runner i st w))"
  unfolding recover_one_def fail_recovery_limit_def Let_def
  by (auto intro!: keep_and_then keep_enter_recovery steps)

lemma keep_recover_all: "Q w \<Longrightarrow> Q (snd (recover_all sv e runner cs w))"
proof (induction cs arbitrary: w)
  case (Cons c cs)
  obtain i st where c: "c = (i, st)" by force
  obtain r w' where r: "recover_one sv e runner i st w = (r, w')" by force
  then have "Q w'" using keep_recover_one [OF Cons.prems, of sv e runner i st] by simp
  then show ?case
    using Cons.IH [of w'] c r
    by (simp add: Let_def case_prod_unfold split: sum.split recovery_outcome.split)
qed simp

lemma keep_recover_stale: "Q w \<Longrightarrow> Q (snd (recover_stale_invocations sv e runner w))"
  unfolding recover_stale_invocations_def
  by (auto simp: Let_def case_prod_unfold intro!: keep_and_then keep_recover_all)

lemma keep_ensure_runner: "Q w \<Longrightarrow> Q (snd (ensure_runner_context_stored c w))"
  unfolding ensure_runner_context_stored_def Let_def by (auto intro!: keep_and_then steps)

lemma keep_submit_with_id: "Q w \<Longrightarrow> free fresh \<Longrightarrow> Q (snd (submit_with_id sv e ci fresh call tr req w))"
  unfolding submit_with_id_def Let_def case_prod_unfold
  by (auto intro!: keep_and_then keep_ensure_runner register_calls steps split: option.split)

lemma keep_submit_controlled:
  "Q w \<Longrightarrow> free fresh \<Longrightarrow> Q (snd (submit_with_registration_control sv e ci fresh t a w))"
  unfolding submit_with_registration_control_def submit_def Let_def case_prod_unfold
  by (auto intro!: keep_and_then keep_submit_with_id steps split: option.split)

lemma keep_boundary: "Q w \<Longrightarrow> Q (snd (boundary armed name w))"
  by (simp add: boundary_def)

lemma keep_publish: "Q w \<Longrightarrow> Q (snd (publish_trigger_run sv e armed run i runner route w))"
  unfolding publish_trigger_run_def Let_def
  by (auto simp: get_invocation_status_def intro!: keep_and_then keep_boundary register_calls steps
      split: sum.split rv_error.split option.split)

lemma keep_publish_runs: "Q w \<Longrightarrow> Q (snd (publish_runs sv e armed runner routes runs w))"
  by (induction sv e armed runner routes runs w rule: publish_runs.induct)
    (auto intro!: keep_and_then keep_boundary keep_publish steps split: option.split)

lemma keep_lift_triggers:
  "Q w \<Longrightarrow> w_triggers w = Some ts \<Longrightarrow> store_calls ts (snd (f ts)) \<Longrightarrow> Q (snd (lift_triggers f ts w))"
  by (auto simp: lift_triggers_def intro: triggers split: prod.split)

lemma keep_pass_boundaries: "Q w \<Longrightarrow> Q (snd (pass_boundaries armed xs w))"
  by (induction armed xs w rule: pass_boundaries.induct) (auto intro!: keep_and_then keep_boundary)

lemma keep_begin_execution: "Q w \<Longrightarrow> Q (snd (begin_execution rt i n tc w))"
  unfolding begin_execution_def by (auto intro!: keep_and_then steps)

lemma keep_prepare: "Q w \<Longrightarrow> Q (snd (prepare_attempt sv rt e i runner w))"
  unfolding prepare_attempt_def Let_def case_prod_unfold
  by (auto intro!: keep_and_then keep_claim_ownership keep_fail_unregistered keep_begin_execution steps
      split: option.split)

lemma keep_conclude: "Q w \<Longrightarrow> Q (snd (conclude_attempt sv rt e i runner x r w))"
  by (simp add: conclude_attempt_def keep_finish keep_finish_cancelled)

lemma keep_refused: "Q (snd r) \<Longrightarrow> Q (snd (refused r))"
  by (auto simp: refused_def split: prod.split sum.split)

lemma keep_trigger_loop: "Q w \<Longrightarrow> Q (snd (trigger_loop_iteration sv e armed runner routes w))"
  unfolding trigger_loop_iteration_def
  by (auto intro!: keep_and_then keep_lift_triggers evaluate_calls keep_pass_boundaries keep_publish_runs
      split: option.split)

end

locale beating = steady +
  assumes beat: "Q w \<Longrightarrow> Q (w\<lparr>w_control := orch_exec e (Heartbeat r b) (w_control w)\<rparr>)"
begin

lemma heartbeat_calls: "Q w \<Longrightarrow> Q (snd (lift_control (register_heartbeat e r b) w))"
  using beat [of w e r b] by (simp add: lift_snd)

lemma keep_startup: "Q w \<Longrightarrow> Q (snd (startup_check sv e ctx runner w))"
  unfolding startup_check_def by (auto intro!: keep_and_then keep_refused heartbeat_calls steps)

end

text \<open>Predicates that registrations and removals keep, and those that heartbeats and a purge keep as well.\<close>

locale quiet = steady Q "\<lambda>_. True" for Q +
  assumes removing: "Q w \<Longrightarrow> quiet_op op \<Longrightarrow> \<not> steady_op op \<Longrightarrow> Q (w\<lparr>w_control := orch_exec e op (w_control w)\<rparr>)"
begin

lemma control_quiet: "Q w \<Longrightarrow> quiet_op op \<Longrightarrow> Q (w\<lparr>w_control := orch_exec e op (w_control w)\<rparr>)"
  by (cases "steady_op op") (auto intro: control removing)

end

locale kept = quiet +
  assumes noisy: "Q w \<Longrightarrow> \<not> quiet_op op \<Longrightarrow> Q (w\<lparr>w_control := orch_exec e op (w_control w)\<rparr>)"
begin

lemma control_any: "Q w \<Longrightarrow> Q (w\<lparr>w_control := orch_exec e op (w_control w)\<rparr>)"
  by (cases "quiet_op op") (auto intro: control_quiet noisy)

end

sublocale kept \<subseteq> beating Q "\<lambda>_. True"
  by unfold_locales (rule control_any)

section \<open>Steps of the system\<close>

text \<open>
  One step: a use case of the service, run by any caller at any time and possibly cut short by an
  error, an operation of the invocation control backend outside the use cases (heartbeats, waiting,
  auto-purge), or a registration with the trigger store. \<open>service_step\<close> adds the purge of all stores, which forgets the
  histories that some properties of the use cases are about.
\<close>

inductive use_case :: "service \<Rightarrow> world \<Rightarrow> world \<Rightarrow> bool" for sv where
  set_status: "use_case sv w (snd (set_status sv e i st runner w))"
| register: "use_case sv w (snd (register_invocations sv e invs runner routes w))"
| result: "use_case sv w (snd (set_result_with_context sv e i res runner t a w))"
| exception: "use_case sv w (snd (set_exception_with_context sv e i ty m runner t a w))"
| retry: "use_case sv w (snd (retry_invocation sv e i runner w))"
| retry_after: "use_case sv w (snd (set_retry_after_with_context sv e i runner t a q p delay w))"
| cancel: "use_case sv w (snd (cancel_invocation sv e i runner w))"
| route_call: "use_case sv w (snd (route_call sv e i call cc mode ix runner q p w))"
| reroute: "use_case sv w (snd (reroute_catalog_invocations sv e is runner w))"
| claim_next: "use_case sv w (snd (claim_next sv e reg lang shuffle w))"
| to_run: "use_case sv w (snd (get_invocations_to_run sv e n runner queues conf w))"
| prepare: "use_case sv w (snd (prepare_attempt sv rt e i runner w))"
| conclude: "use_case sv w (snd (conclude_attempt sv rt e i runner x outcome w))"
| startup: "use_case sv w (snd (startup_check sv e ctx runner w))"
| recover: "use_case sv w (snd (recover_stale_invocations sv e runner w))"
| submit: "use_case sv w (snd (submit_with_id sv e ci fresh call tr req w))"
| submit_controlled: "use_case sv w (snd (submit_with_registration_control sv e ci fresh t a w))"
| trigger_loop: "use_case sv w (snd (trigger_loop_iteration sv e armed runner trs w))"
| control_op: "use_case sv w (w\<lparr>w_control := orch_exec e op (w_control w)\<rparr>)"
| trigger_op: "w_triggers w = Some ts \<Longrightarrow> store_calls ts ts' \<Longrightarrow> use_case sv w (w\<lparr>w_triggers := Some ts'\<rparr>)"

inductive service_step :: "service \<Rightarrow> world \<Rightarrow> world \<Rightarrow> bool" for sv where
  use_case: "use_case sv w w' \<Longrightarrow> service_step sv w w'"
| purged: "service_step sv w (snd (purge w))"

text \<open>The use cases in which the record of \<open>i\<close> is neither written anew by a registration nor removed.\<close>

inductive life_case :: "service \<Rightarrow> str \<Rightarrow> world \<Rightarrow> world \<Rightarrow> bool" for sv i where
  set_status: "life_case sv i w (snd (set_status sv e j st runner w))"
| register: "\<forall>(dto, call) \<in> set invs. inv_id dto \<noteq> i \<Longrightarrow> life_case sv i w (snd (register_invocations sv e invs runner routes w))"
| result: "life_case sv i w (snd (set_result_with_context sv e j res runner t a w))"
| exception: "life_case sv i w (snd (set_exception_with_context sv e j ty m runner t a w))"
| retry: "life_case sv i w (snd (retry_invocation sv e j runner w))"
| retry_after: "life_case sv i w (snd (set_retry_after_with_context sv e j runner t a q p delay w))"
| cancel: "life_case sv i w (snd (cancel_invocation sv e j runner w))"
| route_call: "j \<noteq> i \<Longrightarrow> life_case sv i w (snd (route_call sv e j call cc mode ix runner q p w))"
| reroute: "life_case sv i w (snd (reroute_catalog_invocations sv e is runner w))"
| claim_next: "life_case sv i w (snd (claim_next sv e reg lang shuffle w))"
| to_run: "life_case sv i w (snd (get_invocations_to_run sv e n runner queues conf w))"
| prepare: "life_case sv i w (snd (prepare_attempt sv rt e j runner w))"
| conclude: "life_case sv i w (snd (conclude_attempt sv rt e j runner x outcome w))"
| startup: "life_case sv i w (snd (startup_check sv e ctx runner w))"
| recover: "life_case sv i w (snd (recover_stale_invocations sv e runner w))"
| submit: "fresh \<noteq> i \<Longrightarrow> life_case sv i w (snd (submit_with_id sv e ci fresh call tr req w))"
| submit_controlled: "fresh \<noteq> i \<Longrightarrow> life_case sv i w (snd (submit_with_registration_control sv e ci fresh t a w))"
| trigger_loop: "life_case sv i w (snd (trigger_loop_iteration sv e armed runner trs w))"
| control_op: "steady_op op \<or> (\<exists>r b. op = Heartbeat r b) \<or> (\<exists>j call r. op = Register j call r \<and> j \<noteq> i) \<or>
    (\<exists>j. op = RemoveInvocation j \<and> j \<noteq> i) \<Longrightarrow> life_case sv i w (w\<lparr>w_control := orch_exec e op (w_control w)\<rparr>)"
| trigger_op: "w_triggers w = Some ts \<Longrightarrow> store_calls ts ts' \<Longrightarrow> life_case sv i w (w\<lparr>w_triggers := Some ts'\<rparr>)"

context kept
begin

lemma use_case_keeps: "use_case sv w w' \<Longrightarrow> Q w \<Longrightarrow> Q w'"
  by (induction rule: use_case.induct)
    (auto intro: keep_set_status keep_register_invocations keep_set_result keep_set_exception
      keep_retry_invocation keep_retry_after keep_cancel keep_route_call keep_reroute_catalog
      keep_claim_next keep_to_run keep_prepare keep_conclude keep_startup keep_recover_stale keep_submit_with_id keep_submit_controlled
      keep_trigger_loop control_any triggers)

lemma run_keeps: "(use_case sv)\<^sup>*\<^sup>* w w' \<Longrightarrow> Q w \<Longrightarrow> Q w'"
  by (induction rule: rtranclp_induct) (auto intro: use_case_keeps)

end

text \<open>Predicates about one invocation.\<close>

locale living = beating Q "\<lambda>j. j \<noteq> i" for Q i +
  assumes removing_others: "j \<noteq> i \<Longrightarrow> Q w \<Longrightarrow> Q (w\<lparr>w_control := orch_exec e (RemoveInvocation j) (w_control w)\<rparr>)"
begin

lemma control_others:
  assumes "steady_op op \<or> (\<exists>r b. op = Heartbeat r b) \<or> (\<exists>j call r. op = Register j call r \<and> j \<noteq> i) \<or>
    (\<exists>j. op = RemoveInvocation j \<and> j \<noteq> i)" "Q w"
  shows "Q (w\<lparr>w_control := orch_exec e op (w_control w)\<rparr>)"
  using assms control beat registering removing_others by blast

lemma life_case_keeps: "life_case sv i w w' \<Longrightarrow> Q w \<Longrightarrow> Q w'"
  by (induction rule: life_case.induct)
    (auto intro: keep_set_status keep_register_invocations keep_set_result keep_set_exception
      keep_retry_invocation keep_retry_after keep_cancel keep_route_call keep_reroute_catalog
      keep_claim_next keep_to_run keep_prepare keep_conclude keep_startup keep_recover_stale keep_submit_with_id keep_submit_controlled
      keep_trigger_loop control_others triggers)

lemma life_keeps: "(life_case sv i)\<^sup>*\<^sup>* w w' \<Longrightarrow> Q w \<Longrightarrow> Q w'"
  by (induction rule: rtranclp_induct) (auto intro: life_case_keeps)

end

definition world_inv :: "world \<Rightarrow> bool" where
  "world_inv w \<longleftrightarrow>
     orch_inv (w_control w) \<and> backend_inv (w_state w) \<and>
     (\<forall>ts. w_triggers w = Some ts \<longrightarrow> trigger_inv ts)"

lemma store_calls_inv: "store_calls s s' \<Longrightarrow> trigger_inv s \<Longrightarrow> trigger_inv s'"
  by (induction rule: store_calls.induct) (auto intro: trigger_exec_inv)

interpretation invariant: kept world_inv
  by unfold_locales (auto simp: world_inv_def intro: orch_exec_inv state_exec_inv store_calls_inv register_inv)

lemma purge_inv: "world_inv w \<Longrightarrow> world_inv (snd (purge w))"
  using orch_exec_inv [of "w_control w" e Purge] state_exec_inv [of "w_state w" PurgeState] trigger_new_inv
  by (auto simp: world_inv_def purge_def notify_def lift_control_def lift_state_def lift_broker_def orch_purge_def broker_purge_def
      backend_purge_def trigger_purge_def and_then_def split: prod.splits sum.splits option.splits)

lemma service_steps_inv: "(service_step sv)\<^sup>*\<^sup>* w w' \<Longrightarrow> world_inv w \<Longrightarrow> world_inv w'"
  by (induction rule: rtranclp_induct) (auto elim!: service_step.cases intro: invariant.use_case_keeps purge_inv)

lemma history_exec:
  assumes "sop \<noteq> PurgeState"
  shows "\<exists>new. get_history i (state_exec sop s) = get_history i s @ new"
proof (cases sop)
  case (AddHistory h)
  then show ?thesis by (simp add: add_history_def get_history_def ml_get_push)
qed (use assms in \<open>auto simp: get_history_def upsert_invocation_def store_result_def store_error_def
      store_workflow_run_def set_workflow_data_def store_app_info_def
      store_workflow_sub_invocation_def store_runner_context_def Let_def\<close>)

interpretation history: kept "\<lambda>w. \<exists>new. get_history i (w_state w) = old @ new" for i old
proof
  fix w sop
  assume a: "\<exists>new. get_history i (w_state w) = old @ new" "sop \<noteq> PurgeState"
  then show "\<exists>new. get_history i (w_state (w\<lparr>w_state := state_exec sop (w_state w)\<rparr>)) = old @ new"
    using history_exec [OF a(2), of i "w_state w"] by fastforce
qed auto

end
