(* ===== verification/Service_Spec.thy ===== *)
theory Service_Spec
  imports Service_Props
begin

text \<open>
  The properties of the use cases: the joint invariant, the append-only history, cancellation, the
  recovery limit, and the places where the in-memory sequence of writes does not do what its
  documentation promises.
\<close>

section \<open>The outcome of a status change\<close>

lemma record_satisfied_ok: "\<exists>vs. fst (record_satisfied l ctx cs s) = Inr vs"
proof (induction cs arbitrary: s)
  case (Cons x cs)
  obtain cid c where x: "x = (cid, c)" by force
  let ?vc = "valid_condition_new l cid ctx"
  obtain vs s' where r: "record_satisfied l ctx cs (snd (record_valid_condition ?vc s)) = (Inr vs, s')"
    using Cons.IH [of "snd (record_valid_condition ?vc s)"] by (metis prod.collapse)
  have "record_valid_condition ?vc s = (Inr (), snd (record_valid_condition ?vc s))"
    by (simp add: record_valid_condition_def)
  then have "record_satisfied l ctx (x # cs) s =
      (if is_satisfied_by l c ctx then (Inr (?vc # vs), s') else record_satisfied l ctx cs s)"
    using r unfolding x record_satisfied.simps Let_def by (metis and_then_simps(2))
  then show ?case using Cons.IH [of s] by simp
qed simp

lemma notify_ok:
  assumes "\<And>ts. \<exists>x. fst (f ts) = Inr x"
  shows "\<exists>tr. notify f w = (Inr (), w\<lparr>w_triggers := tr\<rparr>)"
proof (cases "w_triggers w")
  case None
  then have "w = w\<lparr>w_triggers := None\<rparr>" by simp
  with None have "notify f w = (Inr (), w\<lparr>w_triggers := None\<rparr>)" by (simp add: notify_def)
  then show ?thesis by blast
next
  case (Some ts)
  obtain x ts' where "f ts = (Inr x, ts')" using assms [of ts] by (metis prod.collapse)
  then show ?thesis using Some by (auto simp: notify_def)
qed

lemma report_status_ok: "\<exists>tr. report_status sv i t st a w = (Inr (), w\<lparr>w_triggers := tr\<rparr>)"
  unfolding report_status_def
  by (rule notify_ok) (simp add: report_status_change_def evaluate_task_conditions_def record_satisfied_ok)

definition after_terminal :: "service \<Rightarrow> env \<Rightarrow> str \<Rightarrow> invocation_status \<Rightarrow> orch_state \<Rightarrow> orch_state" where
  "after_terminal sv e i st c =
     (if is_terminal st then
        (if 0 < sv_auto_purge_delay_secs sv then snd (schedule_auto_purge e i (snd (release_waiters e i c)))
         else snd (release_waiters e i c))
      else c)"

lemma terminal_effects_eq:
  "terminal_effects sv e i st w = (Inr (), w\<lparr>w_control := after_terminal sv e i st (w_control w)\<rparr>)"
  by (simp add: terminal_effects_def after_terminal_def lift_control_def release_waiters_def
      schedule_auto_purge_def Let_def)

lemma set_status_with_context_cases:
  assumes "set_status_with_context sv e i st runner t a w = (r, w')"
  obtains (failed) err where "r = Inl err" "w' = w"
      "set_invocation_status e i st (Some runner) (w_control w) = (Inl err, w_control w)"
  | (changed) rec c where "r = Inr rec"
      "set_invocation_status e i st (Some runner) (w_control w) = (Inr rec, c)"
      "w_control w' = after_terminal sv e i st c"
      "w_state w' = snd (add_history (with_runner runner (history_new i rec None)) (w_state w))"
      "w_broker w' = w_broker w" "w_catalog w' = w_catalog w"
proof (cases e i st "Some runner" "w_control w" rule: set_invocation_status_cases)
  case (failed err)
  then show ?thesis
    using assms that(1) by (auto simp: set_status_with_context_def lift_control_def)
next
  case (changed rec c)
  let ?w = "w\<lparr>w_control := after_terminal sv e i st c,
             w_state := snd (add_history (with_runner runner (history_new i rec None)) (w_state w))\<rparr>"
  obtain tr where tr: "report_status sv i t st a ?w = (Inr (), ?w\<lparr>w_triggers := tr\<rparr>)"
    using report_status_ok by blast
  have "set_status_with_context sv e i st runner t a w = (Inr rec, ?w\<lparr>w_triggers := tr\<rparr>)"
  proof -
    have "lift_control (set_invocation_status e i st (Some runner)) w = (Inr rec, w\<lparr>w_control := c\<rparr>)"
      using changed by (simp add: lift_control_def)
    moreover have "record_history i rec runner (w\<lparr>w_control := after_terminal sv e i st c\<rparr>) = (Inr (), ?w)"
      by (simp add: record_history_def lift_state_def add_history_def)
    ultimately show ?thesis
      using tr by (simp only: set_status_with_context_def and_then_simps terminal_effects_eq) simp
  qed
  then show ?thesis using assms that(2) [OF _ changed] by auto
qed

lemma set_status_cases:
  assumes "set_status sv e i st runner w = (r, w')"
  obtains (failed) err where "r = Inl err" "w' = w"
      "set_invocation_status e i st (Some runner) (w_control w) = (Inl err, w_control w)"
  | (changed) rec c where "r = Inr rec"
      "set_invocation_status e i st (Some runner) (w_control w) = (Inr rec, c)"
      "w_control w' = after_terminal sv e i st c"
      "w_state w' = snd (add_history (with_runner runner (history_new i rec None)) (w_state w))"
      "w_broker w' = w_broker w" "w_catalog w' = w_catalog w"
proof -
  obtain t a where "status_context_for i w = (t, a)" by force
  then have "set_status_with_context sv e i st runner t a w = (r, w')"
    using assms by (simp add: set_status_def)
  from set_status_with_context_cases [OF this] that show ?thesis by metis
qed

lemma after_terminal_frame [simp]:
  "status_records (after_terminal sv e i st c) = status_records c"
  "cc_index (after_terminal sv e i st c) = cc_index c"
  "cc_reverse (after_terminal sv e i st c) = cc_reverse c"
  by (simp_all add: after_terminal_def schedule_auto_purge_def release_waiters_def Let_def)

lemma set_status_record:
  "set_invocation_status e i st r s = (Inr rec, c) \<Longrightarrow> status_records c i = Some rec \<and> sr_status rec = st"
  using sm.stamps by (auto simp: set_invocation_status_Inr)

lemma recovery_count_add:
  assumes "w_state w' = snd (add_history (with_runner runner (history_new i rec None)) (w_state w))"
  shows "recovery_count i w' = recovery_count i w + (if is_recovery_status (sr_status rec) then 1 else 0)"
  using assms
  by (simp add: recovery_count_def get_history_def add_history_def with_runner_def history_new_def ml_get_push)

section \<open>The life of an invocation\<close>

text \<open>
  The abstract machine of one invocation is the status machine under its ownership rules, \<open>status_step\<close>. As long as the
  invocation is neither registered anew nor removed (\<open>life_case\<close>), the use cases implement it: whatever the stores do, its
  record only moves along the machine.
\<close>

definition abs_record :: "str \<Rightarrow> world \<Rightarrow> status_record option" where
  "abs_record i w = status_records (w_control w) i"

definition moved_from :: "status_record \<Rightarrow> status_record option \<Rightarrow> bool" where
  "moved_from cur x \<longleftrightarrow> (\<exists>rec. x = Some rec \<and> status_step\<^sup>*\<^sup>* cur rec)"

lemma written_status_moves:
  assumes "moved_from cur (status_records s i)"
  shows "moved_from cur (status_records (snd (set_invocation_status e j st r s)) i)"
proof (cases e j st r s rule: set_invocation_status_cases)
  case (changed rec s')
  then obtain old where old: "status_records s j = Some old"
    "status_record_transition (now e) (Some old) st r = Inr rec"
    and s': "status_records s' = (status_records s)(j \<mapsto> rec)"
    by (auto simp: set_invocation_status_Inr)
  then have "status_step old rec" by (simp add: status_step.step)
  with old show ?thesis
    using assms changed s' by (cases "i = j") (auto simp: moved_from_def intro: rtranclp.rtrancl_into_rtrancl)
qed (use assms in simp)

lemma steady_moves:
  assumes "moved_from cur (status_records s i)" "steady_op op"
  shows "moved_from cur (status_records (orch_exec e op s) i)"
proof (cases op)
  case (SetStatus j st r)
  then show ?thesis using written_status_moves assms(1) by simp
qed (use assms in \<open>auto simp: simple_op_defs index_for_concurrency_control_def try_acquire_concurrency_slot_def Let_def
      split: option.splits\<close>)

lemma register_moves:
  assumes "moved_from cur (status_records s i)" "j \<noteq> i \<or> status_records s j = None"
  shows "moved_from cur (status_records (orch_exec e (Register j call r) s) i)"
  using assms by (auto simp: moved_from_def register_invocation_with_id_def Let_def)

interpretation life: living "\<lambda>w. moved_from cur (abs_record i w)" i for cur i
  by unfold_locales
    (auto simp: abs_record_def steady_moves remove_invocation_eqs register_heartbeat_def
      intro: register_moves [simplified])

lemma terminal_stuck: "status_step\<^sup>*\<^sup>* cur rec \<Longrightarrow> is_terminal (sr_status cur) \<Longrightarrow> rec = cur"
  by (erule converse_rtranclpE) (auto elim!: status_step.cases dest: sm.final_rejects)

section \<open>Cancellation\<close>

lemma cancel_allowed:
  assumes "\<not> is_terminal (sr_status cur)"
  shows "\<exists>rec. status_record_transition t (Some cur) Cancelled r = Inr rec"
  using assms by (cases "sr_status cur") (simp_all add: transition_Inr_iff status_simps)

lemma terminal_blocks:
  "is_terminal (sr_status cur) \<Longrightarrow> \<nexists>rec. status_record_transition t (Some cur) st r = Inr rec"
  using sm.final_rejects by blast

lemma after_terminal_waiters:
  "is_terminal st \<Longrightarrow> waiters (after_terminal sv e i st c) = (waiters c)(i := None)"
  by (simp add: after_terminal_def schedule_auto_purge_def release_waiters_def Let_def)

lemma set_status_terminal_frees:
  assumes "orch_inv s" "is_terminal st" "set_invocation_status e i st r s = (Inr rec, c)"
  shows "i \<notin> ms_get (cc_index c) k"
proof -
  have "cc_ok (cc_index (write_status e i st rec s)) (cc_reverse (write_status e i st rec s))"
    using assms(1) by (simp add: orch_inv_def)
  with assms show ?thesis by (auto simp: set_invocation_status_Inr cc_unindex_index)
qed

lemma history_add:
  assumes "w_state w' = snd (add_history (with_runner runner (history_new i rec None)) (w_state w))"
  shows "get_history i (w_state w') = get_history i (w_state w) @ [with_runner runner (history_new i rec None)]"
  using assms by (simp add: get_history_def add_history_def with_runner_def history_new_def ml_get_push)

lemma cancel_live:
  assumes "orch_inv (w_control w)" "status_records (w_control w) i = Some cur" "\<not> is_terminal (sr_status cur)"
  obtains rec w' where "cancel_invocation sv e i runner w = (Inr CancelledNow, w')"
    "status_records (w_control w') i = Some rec" "sr_status rec = Cancelled"
    "waiters (w_control w') i = None" "\<forall>k. i \<notin> ms_get (cc_index (w_control w')) k"
    "w_broker w' = w_broker w"
    "w_state w' = snd (add_history (with_runner runner (history_new i rec None)) (w_state w))"
proof -
  obtain r1 w1 where st: "set_status sv e i Cancelled runner w = (r1, w1)" by force
  then show thesis
  proof (cases rule: set_status_cases)
    case (failed err)
    then show thesis
      using cancel_allowed [OF assms(3), of "now e" "Some runner"] assms(2)
      by (auto simp: set_invocation_status_def Let_def)
  next
    case (changed rec c)
    let ?w' = "w1\<lparr>w_control := cc_unindex i (w_control w1)\<rparr>"
    have "orch_inv c"
      using set_status_inv [OF assms(1), of e i Cancelled "Some runner"] changed(2) by simp
    then have "cc_ok (cc_index (w_control w1)) (cc_reverse (w_control w1))"
      using changed(3) by (simp add: orch_inv_def)
    then have "\<forall>k. i \<notin> ms_get (cc_index (w_control ?w')) k" by (simp add: cc_unindex_index)
    moreover have "cancel_invocation sv e i runner w = (Inr CancelledNow, ?w')"
      using assms(2,3) st changed(1)
      by (simp add: cancel_invocation_def get_invocation_status_def ignore_error_def lift_control_def
          release_nontransactional_concurrency_slot_def remove_from_concurrency_index_def)
    moreover have "waiters (w_control ?w') i = None" using changed(3) by (simp add: after_terminal_waiters)
    moreover have "status_records (w_control ?w') i = Some rec" "sr_status rec = Cancelled"
      using set_status_record [OF changed(2)] changed(3) by auto
    ultimately show thesis using that changed(4,5) by simp
  qed
qed

section \<open>An example service\<close>

definition ex_app :: app_config where
  "ex_app = \<lparr>app_id = ''app'', broker_queues = [DEFAULT_QUEUE], runner_queues = [],
             queue_selection = Ordered, priority_rules = [], dev_mode_force_sync = False,
             max_pending_seconds = 5, heartbeat_interval_seconds = 30, runner_dead_after_seconds = 600,
             recovery_check_interval_seconds = 60, max_invocation_recoveries = 1\<rparr>"

definition ex_service :: service where
  "ex_service = \<lparr>sv_libs = ex_libs,
     sv_host = \<lparr>env_var = (\<lambda>_. None), to_uppercase = id, to_lowercase = id, parse_f64 = (\<lambda>_. None),
                glob_matches = (=)\<rparr>,
     sv_app = ex_app, sv_auto_purge_delay_secs = 0\<rparr>"

definition ex_call :: call_dto where
  "ex_call = call_dto_new id id ex_task []"

definition ex_catalog :: task_catalog where
  "ex_catalog = catalog_new\<lparr>registry := snd (registry_register ex_task task_config_default registry_new),
                            env_override_cache := [tid_name ex_task \<mapsto> override_default]\<rparr>"

text \<open>A fresh service, and one in which the invocation \<^verbatim>\<open>i\<close> is being run by \<^verbatim>\<open>r\<close>.\<close>

definition new_world :: world where
  "new_world = \<lparr>w_control = orch_new, w_state = backend_new, w_broker = broker_new, w_triggers = None,
                w_catalog = ex_catalog, w_runner_cache = {}, w_next_queue_index = 0\<rparr>"

definition ex_world :: world where
  "ex_world = new_world\<lparr>w_control := orch_run ex_ops orch_new,
     w_state := snd (upsert_invocation
                  (invocation_dto_new 0 ''i'' ex_task (cd_call_id ex_call)) ex_call backend_new)\<rparr>"

lemma new_world_inv: "world_inv new_world"
  by (simp add: world_inv_def new_world_def orch_new_inv backend_new_inv)

lemma ex_world_inv: "world_inv ex_world"
  by (simp add: world_inv_def ex_world_def new_world_def reachable_inv upsert_inv backend_new_inv ex_call_def
      call_dto_new_def invocation_dto_new_def)

lemma ex_world_record [simp]:
  "status_records (w_control ex_world) ''i'' = Some (status_record_new 2 Running (Some ''r''))"
  by (simp add: ex_world_def ex_run)

section \<open>Properties\<close>

text \<open>C2. The stores stay consistent with each other's contracts: after any sequence of use cases and purges, run by
  any callers at any times and cut short by any errors, the invariants of the orchestrator, of the
  state backend and of the trigger store hold.\<close>

theorem services_preserve_invariant:
  assumes "world_inv w" "(service_step sv)\<^sup>*\<^sup>* w w'"
  shows "world_inv w'"
  using assms(2,1) by (rule service_steps_inv)

theorem services_preserve_invariant_witness:
  "world_inv (snd (cancel_invocation ex_service (sorted_env 3) ''i'' ''q'' ex_world))"
  by (rule services_preserve_invariant [OF ex_world_inv r_into_rtranclp [where r = "service_step ex_service"]])
    (rule service_step.use_case [OF use_case.cancel])

text \<open>C3. The service implements the status machine: as long as an invocation is not registered anew and not removed, its record
  stays and moves only along edges of the machine under the ownership rules, whatever use cases run, by whom
  and in which order; a record in a final status never changes.\<close>

theorem services_refine_lifecycle:
  assumes "(life_case sv i)\<^sup>*\<^sup>* w w'" "abs_record i w = Some cur"
  shows "\<exists>rec. abs_record i w' = Some rec \<and> status_step\<^sup>*\<^sup>* cur rec \<and> (is_terminal (sr_status cur) \<longrightarrow> rec = cur)"
  using life.life_keeps [OF assms(1), of cur] assms(2) terminal_stuck by (auto simp: moved_from_def)

theorem services_refine_lifecycle_witness:
  "\<exists>rec. abs_record ''i'' (snd (cancel_invocation ex_service (sorted_env 3) ''i'' ''q'' ex_world)) = Some rec \<and>
     status_step\<^sup>*\<^sup>* (status_record_new 2 Running (Some ''r'')) rec"
proof -
  have "life_case ex_service ''i'' ex_world (snd (cancel_invocation ex_service (sorted_env 3) ''i'' ''q'' ex_world))"
    by (rule life_case.cancel)
  from services_refine_lifecycle [OF r_into_rtranclp [where r = "life_case ex_service ''i''", OF this]] show ?thesis
    by (auto simp: abs_record_def)
qed

text \<open>Histories are append-only: no use case changes or drops an entry of an invocation's history.\<close>

lemma history_append_only:
  assumes "(use_case sv)\<^sup>*\<^sup>* w w'"
  shows "\<exists>new. get_history i (w_state w') = get_history i (w_state w) @ new"
  by (rule history.run_keeps [OF assms]) simp

text \<open>C5. Cancelling: an unknown invocation is an error, a finished one is reported as it is, and any other
  one is now \<^verbatim>\<open>Cancelled\<close> whoever owned it, holds no concurrency slot, is waited on by nobody and has
  the cancellation in its history; the queue is left alone (a cancelled entry is refused when popped).\<close>

theorem cancel_outcomes:
  assumes "world_inv w" "cancel_invocation sv e i runner w = (r, w')"
  shows "case abs_record i w of
           None \<Rightarrow> r = Inl (InvocationNotFound i) \<and> w' = w
         | Some cur \<Rightarrow>
             (if is_terminal (sr_status cur) then r = Inr (AlreadyFinal (sr_status cur)) \<and> w' = w
              else r = Inr CancelledNow \<and> w_broker w' = w_broker w \<and>
                   waiters (w_control w') i = None \<and> (\<forall>k. i \<notin> ms_get (cc_index (w_control w')) k) \<and>
                   (\<exists>rec. abs_record i w' = Some rec \<and> sr_status rec = Cancelled \<and>
                      get_history i (w_state w') =
                        get_history i (w_state w) @ [with_runner runner (history_new i rec None)]))"
proof (cases "abs_record i w")
  case None
  then show ?thesis using assms(2) by (simp add: cancel_invocation_def get_invocation_status_def abs_record_def)
next
  case (Some cur)
  then have cur: "status_records (w_control w) i = Some cur" by (simp add: abs_record_def)
  show ?thesis
  proof (cases "is_terminal (sr_status cur)")
    case True
    then show ?thesis
      using assms(2) cur by (simp add: cancel_invocation_def get_invocation_status_def abs_record_def)
  next
    case False
    have "orch_inv (w_control w)" using assms(1) by (simp add: world_inv_def)
    then obtain rec w1 where c: "cancel_invocation sv e i runner w = (Inr CancelledNow, w1)"
      "status_records (w_control w1) i = Some rec" "sr_status rec = Cancelled"
      "waiters (w_control w1) i = None" "\<forall>k. i \<notin> ms_get (cc_index (w_control w1)) k"
      "w_broker w1 = w_broker w"
      and h: "w_state w1 = snd (add_history (with_runner runner (history_new i rec None)) (w_state w))"
      by (rule cancel_live [OF _ cur False])
    have "r = Inr CancelledNow" "w' = w1" using c(1) assms(2) by simp_all
    then show ?thesis using c(2-6) history_add [OF h] Some False by (simp add: abs_record_def)
  qed
qed

theorem cancel_outcomes_witness:
  "fst (cancel_invocation ex_service (sorted_env 3) ''i'' ''q'' ex_world) = Inr CancelledNow"
  using cancel_outcomes [OF ex_world_inv, of ex_service "sorted_env 3" "''i''" "''q''"]
  by (cases "cancel_invocation ex_service (sorted_env 3) ''i'' ''q'' ex_world")
    (simp add: abs_record_def status_record_new_def is_terminal_simps)

end
