(* ===== verification/Service_Outcomes.thy ===== *)
theory Service_Outcomes
  imports Service_Spec
begin

text \<open>
  What the larger use cases leave behind: recovery of a stale invocation and its limit, the end of an
  attempt, retrieval of work by a runner, and the publication of trigger runs through crashes.
\<close>

section \<open>Recovery\<close>

abbreviation recovery_limit :: "service \<Rightarrow> nat" where
  "recovery_limit sv \<equiv> unat (max_invocation_recoveries (sv_app sv))"

lemma recovery_count_state: "w_state w' = w_state w \<Longrightarrow> recovery_count i w' = recovery_count i w"
  by (simp add: recovery_count_def)

lemma recovery_count_store_error [simp]:
  "recovery_count i (w\<lparr>w_state := (w_state w)\<lparr>sb_errors := m\<rparr>\<rparr>) = recovery_count i w"
  by (simp add: recovery_count_def get_history_def)

lemma enter_recovery_cases:
  assumes "enter_recovery sv e i runner st resuming w next_step = (Inr out, w')" "is_recovery_status st"
  obtains (skipped) "out = RecSkipped" "w' = w"
  | (entered) w1 where "next_step w1 = (Inr out, w')" "w_broker w1 = w_broker w"
      "recovery_count i w1 = recovery_count i w + (if resuming then 0 else 1)"
proof (cases resuming)
  case True
  then show ?thesis using assms(1) that(2) [of w] by (simp add: enter_recovery_def)
next
  case False
  obtain r1 w1 where st: "set_status sv e i st runner w = (r1, w1)" by force
  then show ?thesis
  proof (cases rule: set_status_cases)
    case (failed err)
    then show ?thesis
      using assms(1) False st that(1) by (simp add: enter_recovery_def split: if_splits)
  next
    case (changed rec c)
    have "recovery_count i w1 = recovery_count i w + 1"
      using recovery_count_add [OF changed(4)] set_status_record [OF changed(2)] assms(2) by simp
    moreover have "next_step w1 = (Inr out, w')"
      using assms(1) False st changed(1) by (simp add: enter_recovery_def)
    ultimately show ?thesis using that(2) changed(5) False by simp
  qed
qed

text \<open>A status write that is not a recovery status, with what the later writes need of it.\<close>

lemma set_status_final_write:
  assumes "set_status sv e i st runner w = (Inr rec, w')"
  shows "abs_record i w' = Some rec \<and> sr_status rec = st \<and> w_broker w' = w_broker w \<and>
         sb_errors (w_state w') = sb_errors (w_state w) \<and>
         recovery_count i w' = recovery_count i w + (if is_recovery_status st then 1 else 0)"
  using assms
proof (cases rule: set_status_cases)
  case (changed rec' c)
  then show ?thesis
    using set_status_record [OF changed(2)] recovery_count_add [OF changed(4)]
    by (simp add: abs_record_def add_history_def)
qed simp

lemma route_adds:
  assumes "lift_broker (route_invocation_with_options i t q p) w = (Inr u, w')"
  shows "queued_ids (w_broker w') = add_mset i (queued_ids (w_broker w)) \<and> w_control w' = w_control w \<and>
         w_state w' = w_state w"
  using assms
  by (auto simp: lift_broker_def route_invocation_with_options_def queued_ids_def split: sum.splits prod.splits)

lemma fail_recovery_limit_cases:
  assumes "fail_recovery_limit sv e i runner st resuming previous w = (Inr out, w')" "is_recovery_status st"
  obtains (skipped) "out = RecSkipped" "w' = w"
  | (failed) rec err where "out = RecFailed" "abs_record i w' = Some rec" "sr_status rec = Failed"
      "get_error i (w_state w') = Some err" "err_type err = RECOVERY_LIMIT_ERROR"
      "w_broker w' = w_broker w"
      "recovery_count i w' = recovery_count i w + (if resuming then 0 else 1)"
  using assms unfolding fail_recovery_limit_def
proof (cases rule: enter_recovery_cases)
  case skipped
  then show ?thesis by (rule that(1))
next
  case (entered w1)
  let ?err = "\<lparr>err_type = RECOVERY_LIMIT_ERROR, err_message = recovery_limit_message i previous, err_traceback = None\<rparr>"
  let ?w2 = "w1\<lparr>w_state := snd (store_error i ?err (w_state w1))\<rparr>"
  have "lift_state (store_error i ?err) w1 = (Inr (), ?w2)" by (simp add: lift_state_def store_error_def)
  with entered(1) obtain rec where "set_status sv e i Failed runner ?w2 = (Inr rec, w')" "out = RecFailed"
    by (auto simp: and_then_Inr)
  then show ?thesis
    using set_status_final_write [of sv e i Failed runner ?w2 rec w'] entered(2,3)
    by (intro that(2)) (auto simp: store_error_def get_error_def is_recovery_status_def)
qed

lemma catalog_routing_frame:
  "catalog_routing sv t w = (r, w') \<Longrightarrow> \<exists>cat. w' = w\<lparr>w_catalog := cat\<rparr>"
  by (auto simp: catalog_routing_def split: prod.splits option.splits)

text \<open>The second half of a recovery within the limit.\<close>

lemma requeue_cases:
  assumes "enter_recovery sv e i runner st resuming w (\<lambda>w.
             and_then (set_status sv e i Rerouted runner w) (\<lambda>_ w.
             and_then (lift_broker (route_invocation_with_options i (Some t) q p) w) (\<lambda>_ w.
               (Inr RecRerouted, w)))) = (Inr out, w')" "is_recovery_status st"
  obtains (skipped) "out = RecSkipped" "w' = w"
  | (rerouted) rec where "out = RecRerouted" "abs_record i w' = Some rec" "sr_status rec = Rerouted"
      "queued_ids (w_broker w') = add_mset i (queued_ids (w_broker w))"
      "recovery_count i w' = recovery_count i w + (if resuming then 0 else 1)"
  using assms
proof (cases rule: enter_recovery_cases)
  case skipped
  then show ?thesis by (rule that(1))
next
  case (entered w2)
  then obtain rec w3 where w3: "set_status sv e i Rerouted runner w2 = (Inr rec, w3)"
    and route: "lift_broker (route_invocation_with_options i (Some t) q p) w3 = (Inr (), w')"
    and "out = RecRerouted"
    by (auto simp: and_then_Inr)
  then show ?thesis
    using set_status_final_write [OF w3] route_adds [OF route] entered(2,3)
    by (intro that(2) [of rec]) (auto simp: abs_record_def is_recovery_status_def recovery_count_def)
qed

text \<open>A recovery that re-queues or fails the invocation.\<close>

lemma recover_one_cases:
  assumes "recover_one sv e runner i st w = (Inr out, w')" "is_recovery_status st"
    and "abs_record i w = Some cur"
  defines "attempts \<equiv> (if is_recovery_status (sr_status cur) then recovery_count i w else recovery_count i w + 1)"
  obtains (skipped) cat where "out = RecSkipped" "w' = w\<lparr>w_catalog := cat\<rparr>"
  | (failed) rec err where "out = RecFailed" "0 < recovery_limit sv" "recovery_limit sv < attempts"
      "abs_record i w' = Some rec" "sr_status rec = Failed"
      "get_error i (w_state w') = Some err" "err_type err = RECOVERY_LIMIT_ERROR"
      "w_broker w' = w_broker w" "recovery_count i w' = attempts"
  | (rerouted) rec where "out = RecRerouted" "recovery_limit sv = 0 \<or> attempts \<le> recovery_limit sv"
      "abs_record i w' = Some rec" "sr_status rec = Rerouted"
      "queued_ids (w_broker w') = add_mset i (queued_ids (w_broker w))" "recovery_count i w' = attempts"
proof -
  let ?res = "is_recovery_status (sr_status cur)"
  obtain dto where dto: "get_invocation i (w_state w) = Inr dto"
    and run: "(if 0 < recovery_limit sv \<and> recovery_limit sv < attempts
       then fail_recovery_limit sv e i runner st ?res (recovery_count i w) w
       else and_then (catalog_routing sv (inv_task_id dto) w) (\<lambda>(q, p) w.
              enter_recovery sv e i runner st ?res w (\<lambda>w.
                and_then (set_status sv e i Rerouted runner w) (\<lambda>_ w.
                and_then (lift_broker (route_invocation_with_options i (Some (inv_task_id dto)) q p) w) (\<lambda>_ w.
                  (Inr RecRerouted, w)))))) = (Inr out, w')"
    using assms(1,3) unfolding attempts_def
    by (cases "get_invocation i (w_state w)")
      (simp_all add: recover_one_def get_invocation_status_def abs_record_def Let_def)
  show thesis
  proof (cases "0 < recovery_limit sv \<and> recovery_limit sv < attempts")
    case True
    with run have "fail_recovery_limit sv e i runner st ?res (recovery_count i w) w = (Inr out, w')" by simp
    from this assms(2) show thesis
    proof (cases rule: fail_recovery_limit_cases)
      case skipped
      then show thesis using that(1) [of "w_catalog w"] by simp
    next
      case (failed rec err)
      then show thesis using that(2) True by (simp add: attempts_def)
    qed
  next
    case False
    with run obtain q p w1 where w1: "catalog_routing sv (inv_task_id dto) w = (Inr (q, p), w1)"
      and enter: "enter_recovery sv e i runner st ?res w1 (\<lambda>w.
             and_then (set_status sv e i Rerouted runner w) (\<lambda>_ w.
             and_then (lift_broker (route_invocation_with_options i (Some (inv_task_id dto)) q p) w) (\<lambda>_ w.
               (Inr RecRerouted, w)))) = (Inr out, w')"
      by (auto simp: and_then_Inr)
    from w1 obtain cat where cat: "w1 = w\<lparr>w_catalog := cat\<rparr>" using catalog_routing_frame by blast
    from enter assms(2) show thesis
    proof (cases rule: requeue_cases)
      case skipped
      then show thesis using that(1) cat by simp
    next
      case (rerouted rec)
      then show thesis using that(3) False cat by (auto simp: attempts_def recovery_count_def)
    qed
  qed
qed

lemma set_status_broker: "w_broker (snd (set_status sv e i st runner w)) = w_broker w"
proof -
  obtain r w' where st: "set_status sv e i st runner w = (r, w')" by force
  then have "w_broker w' = w_broker w" by (cases rule: set_status_cases) simp_all
  with st show ?thesis by simp
qed

lemma fail_recovery_broker: "w_broker (snd (fail_recovery_limit sv e i runner st resuming n w)) = w_broker w"
proof -
  have inner: "w_broker (snd (and_then (lift_state (store_error i err) w1)
      (\<lambda>_ w. and_then (set_status sv e i Failed runner w) (\<lambda>_ w. (Inr RecFailed, w))))) = w_broker w1" for err w1
    using set_status_broker [of sv e i Failed runner "w1\<lparr>w_state := snd (store_error i err (w_state w1))\<rparr>"]
    by (auto simp: lift_state_def store_error_def split: and_then_split)
  show ?thesis
    using set_status_broker [of sv e i st runner w] inner
    by (auto simp: fail_recovery_limit_def enter_recovery_def split: prod.split sum.split)
qed

lemma fail_recovery_no_requeue: "fst (fail_recovery_limit sv e i runner st resuming n w) \<noteq> Inr RecRerouted"
  by (auto simp: fail_recovery_limit_def enter_recovery_def split: prod.split sum.split and_then_split)

lemma recovery_count_mono:
  assumes "(use_case sv)\<^sup>*\<^sup>* w w'"
  shows "recovery_count i w \<le> recovery_count i w'"
proof -
  have "\<exists>new. get_history i (w_state w') = get_history i (w_state w) @ new"
    by (rule history.run_keeps [OF assms]) simp
  then show ?thesis by (auto simp: recovery_count_def)
qed

section \<open>Properties\<close>

text \<open>C7. Recovering one invocation: when it is re-queued it is \<^verbatim>\<open>Rerouted\<close>, has exactly one more
  queue entry and has not been recovered more often than the limit (unless the limit is off); past the
  limit it is \<^verbatim>\<open>Failed\<close> with the recovery error stored and is not queued; otherwise nothing is
  written.\<close>

theorem recovery_outcomes:
  assumes "recover_one sv e runner i st w = (Inr out, w')" "is_recovery_status st"
  shows "case out of
      RecRerouted \<Rightarrow>
        (recovery_limit sv = 0 \<or> recovery_count i w' \<le> recovery_limit sv) \<and>
        map_option sr_status (abs_record i w') = Some Rerouted \<and>
        queued_ids (w_broker w') = add_mset i (queued_ids (w_broker w))
    | RecFailed \<Rightarrow>
        0 < recovery_limit sv \<and> recovery_limit sv < recovery_count i w' \<and>
        map_option sr_status (abs_record i w') = Some Failed \<and>
        map_option err_type (get_error i (w_state w')) = Some RECOVERY_LIMIT_ERROR \<and>
        w_broker w' = w_broker w
    | RecSkipped \<Rightarrow> w_control w' = w_control w \<and> w_state w' = w_state w \<and> w_broker w' = w_broker w"
proof -
  obtain cur where "abs_record i w = Some cur"
    using assms(1) by (auto simp: recover_one_def and_then_Inr get_invocation_status_def abs_record_def split: option.splits)
  with assms show ?thesis by (cases rule: recover_one_cases) auto
qed

lemmas service_eval =
  set_status_def set_status_with_context_def status_context_for_def terminal_effects_def record_history_def
  report_status_def notify_def lift_control_def lift_state_def lift_broker_def set_invocation_status_def
  write_status_def add_history_def history_runner_def with_runner_def history_new_def

lemmas ex_eval =
  ex_world_def new_world_def ex_run ex_call_def upsert_invocation_def backend_new_def invocation_dto_new_def
  call_dto_new_def status_record_new_def

lemma ex_service_simps [simp]:
  "sv_auto_purge_delay_secs ex_service = 0" "recovery_limit ex_service = 1" "sv_libs ex_service = ex_libs"
  by (simp_all add: ex_service_def ex_app_def)

lemma ex_catalog_routing: "w_catalog w = ex_catalog \<Longrightarrow>
    catalog_routing ex_service ex_task w = (Inr (DEFAULT_QUEUE, 0), w)"
  by (auto simp: catalog_routing_def routing_for_def registry_get_dyn_def ex_catalog_def registry_register_def
      registry_new_def resolve_config_def get_or_load_env_override_def catalog_new_def override_default_def
      apply_to_def task_config_default_def ex_service_def ex_app_def Let_def)

lemma ex_route: "route_invocation_with_options i t DEFAULT_QUEUE 0 b =
    (Inr (), b @ [\<lparr>qi_id = i, qi_task = t, qi_queue = DEFAULT_QUEUE, qi_priority = 0, qi_not_before = None\<rparr>])"
  by (simp add: route_invocation_with_options_def validate_routing_zero default_queue_ok)

theorem recovery_outcomes_witness:
  "let (r, w') = recover_one ex_service (sorted_env 3) ''q'' ''i'' RunningRecovery ex_world
   in r = Inr RecRerouted \<and> queued_ids (w_broker w') = {#''i''#}"
proof -
  have "fst (recover_one ex_service (sorted_env 3) ''q'' ''i'' RunningRecovery ex_world) = Inr RecRerouted"
    by (simp add: recover_one_def enter_recovery_def get_invocation_def get_invocation_status_def
        recovery_count_def get_history_def ml_get_def is_recovery_status_def Let_def ex_catalog_routing ex_route
        service_eval ex_eval machine_defs)
  then show ?thesis
    using recovery_outcomes [of ex_service "sorted_env 3" "''q''" "''i''" RunningRecovery ex_world RecRerouted]
    by (auto simp: is_recovery_status_def ex_world_def new_world_def broker_new_def queued_ids_def split: prod.splits)
qed

text \<open>C8. The recovery limit is final: once an invocation has more recoveries in its history than the
  limit, no recovery after any further use cases puts it into a queue again.\<close>

theorem recovery_is_bounded:
  assumes "0 < recovery_limit sv" "recovery_limit sv < recovery_count i w" "(use_case sv)\<^sup>*\<^sup>* w w1"
    and "recover_one sv e runner i st w1 = (r, w2)"
  shows "r \<noteq> Inr RecRerouted \<and> w_broker w2 = w_broker w1"
proof -
  have "recovery_limit sv < recovery_count i w1" using recovery_count_mono [OF assms(3), of i] assms(2) by simp
  then have "recover_one sv e runner i st w1 = (Inl err, w1) \<or>
      recover_one sv e runner i st w1 = fail_recovery_limit sv e i runner st res (recovery_count i w1) w1"
    if "err = (case get_invocation i (w_state w1) of Inl x \<Rightarrow> x | Inr _ \<Rightarrow> InvocationNotFound i)"
      "res = is_recovery_status (sr_status (the (status_records (w_control w1) i)))" for err res
    using that assms(1)
    by (auto simp: recover_one_def get_invocation_status_def Let_def split: and_then_split option.splits)
  then show ?thesis
    using assms(4) fail_recovery_broker fail_recovery_no_requeue by (metis fst_conv snd_conv sum.distinct(1))
qed

definition ex_recovered :: world where
  "ex_recovered =
     (let h = history_new ''i'' (status_record_new 1 RunningRecovery (Some ''q'')) None
      in ex_world\<lparr>w_state := snd (add_history h (snd (add_history h (w_state ex_world))))\<rparr>)"

theorem recovery_is_bounded_witness:
  "let (r, w') = recover_one ex_service (sorted_env 3) ''q'' ''i'' RunningRecovery ex_recovered
   in r \<noteq> Inr RecRerouted \<and> w_broker w' = []"
proof -
  have n: "recovery_limit ex_service < recovery_count ''i'' ex_recovered"
    by (simp add: ex_recovered_def recovery_count_def get_history_def ml_push_def is_recovery_status_def
        ml_get_def Let_def service_eval ex_eval)
  obtain r w' where r: "recover_one ex_service (sorted_env 3) ''q'' ''i'' RunningRecovery ex_recovered = (r, w')"
    by force
  show ?thesis
    using recovery_is_bounded [OF _ n rtranclp.rtrancl_refl r]
    by (simp add: r) (simp add: ex_recovered_def Let_def ex_world_def new_world_def broker_new_def)
qed

end
