(* ===== verification/Attempt_Props.thy ===== *)
theory Attempt_Props
  imports Service_Outcomes
begin

text \<open>
  The end of an attempt, \<^verbatim>\<open>runner/executor_common.rs\<close>: what the owner of a running invocation leaves
  behind for a result, a retried error and a final error, and that retries come to an end.
\<close>

section \<open>Writes of the owner\<close>

lemma owner_transition:
  assumes "sr_status cur = Running" "sr_runner cur = Some runner" "st \<in> {Success, Failed, Retry}"
  shows "\<exists>rec. status_record_transition n (Some cur) st (Some runner) = Inr rec"
  using assms by (auto simp: transition_Inr_iff status_simps)

lemma accepted_write:
  assumes "status_records s i = Some cur" "status_record_transition (now e) (Some cur) st r = Inr rec"
  shows "\<exists>c. set_invocation_status e i st r s = (Inr rec, c)"
  using assms by (simp add: set_invocation_status_def Let_def)

lemma retries_frame:
  "set_invocation_status e i st r s = (x, c) \<Longrightarrow> retries c = retries s"
  "retries (after_terminal sv e i st c) = retries c"
  by (auto simp: set_invocation_status_def Let_def write_status_def after_terminal_def release_waiters_def
      schedule_auto_purge_def split: option.splits sum.splits)

text \<open>An accepted status write and a notification that does not fail.\<close>

lemma accepted_status_change:
  assumes "orch_inv (w_control w)" "status_records (w_control w) i = Some cur"
    "status_record_transition (now e) (Some cur) st (Some runner) = Inr rec"
  obtains w' where "set_status_with_context sv e i st runner t a w = (Inr rec, w')"
    "abs_record i w' = Some rec" "sr_status rec = st" "orch_inv (w_control w')"
    "is_terminal st \<Longrightarrow> waiters (w_control w') i = None"
    "is_terminal st \<Longrightarrow> \<forall>k. i \<notin> ms_get (cc_index (w_control w')) k"
    "cc_index (w_control w') = cc_index (snd (set_invocation_status e i st (Some runner) (w_control w)))"
    "sb_results (w_state w') = sb_results (w_state w)" "sb_errors (w_state w') = sb_errors (w_state w)"
    "w_broker w' = w_broker w" "retries (w_control w') = retries (w_control w)"
proof -
  obtain x w' where st: "set_status_with_context sv e i st runner t a w = (x, w')" by force
  then show thesis
  proof (cases rule: set_status_with_context_cases)
    case (failed err)
    then show thesis using accepted_write [OF assms(2,3)] by auto
  next
    case (changed rec' c)
    have rec: "rec' = rec" using accepted_write [OF assms(2,3)] changed(2) by auto
    have "orch_inv c" using set_status_inv [OF assms(1), of e i st "Some runner"] changed(2) by simp
    then have "orch_inv (w_control w')"
      using changed(3)
      by (auto simp: after_terminal_def schedule_auto_purge_def release_waiters_def Let_def orch_inv_def sets_finite_simps)
    moreover have "abs_record i w' = Some rec" "sr_status rec = st"
      using set_status_record [OF changed(2)] changed(3) rec by (auto simp: abs_record_def)
    moreover have "is_terminal st \<Longrightarrow> waiters (w_control w') i = None"
      using changed(3) by (simp add: after_terminal_waiters)
    moreover have "is_terminal st \<Longrightarrow> \<forall>k. i \<notin> ms_get (cc_index (w_control w')) k"
      using set_status_terminal_frees [OF assms(1) _ changed(2)] changed(3) by simp
    moreover have "retries (w_control w') = retries (w_control w)"
      using retries_frame(1) [OF changed(2)] changed(3) by (simp add: retries_frame(2))
    ultimately show thesis
      using that [OF st [unfolded changed(1) rec]] changed(2,3,4,5) by (simp add: add_history_def)
  qed
qed

lemma notify_reports:
  "\<exists>tr. notify (report_result l rx) w = (Inr (), w\<lparr>w_triggers := tr\<rparr>)"
  "\<exists>tr. notify (report_failure l xx) w = (Inr (), w\<lparr>w_triggers := tr\<rparr>)"
  by (rule notify_ok, simp add: report_result_def report_failure_def evaluate_task_conditions_def record_satisfied_ok)+

text \<open>What every end of an attempt leaves: the status, nobody waiting on a finished invocation, no slot.\<close>

definition left_as :: "str \<Rightarrow> invocation_status \<Rightarrow> world \<Rightarrow> bool" where
  "left_as i st w \<longleftrightarrow>
     map_option sr_status (abs_record i w) = Some st \<and>
     (is_terminal st \<longrightarrow> waiters (w_control w) i = None) \<and>
     (\<forall>k. i \<notin> ms_get (cc_index (w_control w)) k)"

lemma release_slot:
  assumes "orch_inv (w_control w)" "map_option sr_status (abs_record i w) = Some st"
    "is_terminal st \<Longrightarrow> waiters (w_control w) i = None"
  shows "release_nontransactional_concurrency_slot i w = (Inr (), w\<lparr>w_control := cc_unindex i (w_control w)\<rparr>)"
    and "left_as i st (w\<lparr>w_control := cc_unindex i (w_control w)\<rparr>)"
    and "orch_inv (cc_unindex i (w_control w))"
  using assms
  by (simp_all add: release_nontransactional_concurrency_slot_def remove_from_concurrency_index_def
      lift_control_def left_as_def abs_record_def cc_unindex_index orch_inv_def cc_unindex_ok)

lemma result_written:
  assumes "orch_inv (w_control w)" "abs_record i w = Some cur" "sr_status cur = Running" "sr_runner cur = Some runner"
  obtains w' where "set_result_with_context sv e i res runner t a w = (Inr (), w')"
    "orch_inv (w_control w')" "left_as i Success w'" "get_result i (w_state w') = Some res" "w_broker w' = w_broker w"
proof -
  let ?w = "w\<lparr>w_state := snd (store_result i res (w_state w))\<rparr>"
  have store: "lift_state (store_result i res) w = (Inr (), ?w)" by (simp add: lift_state_def store_result_def)
  obtain rec where tr: "status_record_transition (now e) (Some cur) Success (Some runner) = Inr rec"
    using owner_transition [OF assms(3,4), of Success] by blast
  obtain w1 where w1: "set_status_with_context sv e i Success runner t a ?w = (Inr rec, w1)"
    "abs_record i w1 = Some rec" "sr_status rec = Success" "orch_inv (w_control w1)"
    "waiters (w_control w1) i = None" "\<forall>k. i \<notin> ms_get (cc_index (w_control w1)) k"
    "sb_results (w_state w1) = sb_results (w_state ?w)" "w_broker w1 = w_broker w"
    by (rule accepted_status_change [of ?w i cur e Success runner rec sv t a])
      (use assms tr in \<open>auto simp: abs_record_def\<close>)
  obtain trg where n: "notify (report_result (sv_libs sv)
       \<lparr>rx_invocation_id = i, rx_task_id = t, rx_result = or_else (json_from_str (sv_libs sv) res) (JString res),
        rx_arguments = a\<rparr>) w1 = (Inr (), w1\<lparr>w_triggers := trg\<rparr>)"
    using notify_reports(1) by blast
  show thesis
    by (rule that [of "w1\<lparr>w_triggers := trg\<rparr>"])
      (use w1 in \<open>simp_all add: set_result_with_context_def store n left_as_def abs_record_def get_result_def
         store_result_def\<close>)
qed

lemma exception_written:
  assumes "orch_inv (w_control w)" "abs_record i w = Some cur" "sr_status cur = Running" "sr_runner cur = Some runner"
  obtains w' where "set_exception_with_context sv e i ty msg runner t a w = (Inr (), w')"
    "orch_inv (w_control w')" "left_as i Failed w'"
    "get_error i (w_state w') = Some \<lparr>err_type = ty, err_message = msg, err_traceback = None\<rparr>"
    "w_broker w' = w_broker w"
proof -
  let ?err = "\<lparr>err_type = ty, err_message = msg, err_traceback = None\<rparr>"
  let ?w = "w\<lparr>w_state := snd (store_error i ?err (w_state w))\<rparr>"
  have store: "lift_state (store_error i ?err) w = (Inr (), ?w)" by (simp add: lift_state_def store_error_def)
  obtain rec where tr: "status_record_transition (now e) (Some cur) Failed (Some runner) = Inr rec"
    using owner_transition [OF assms(3,4), of Failed] by blast
  obtain w1 where w1: "set_status_with_context sv e i Failed runner t a ?w = (Inr rec, w1)"
    "abs_record i w1 = Some rec" "sr_status rec = Failed" "orch_inv (w_control w1)"
    "waiters (w_control w1) i = None" "\<forall>k. i \<notin> ms_get (cc_index (w_control w1)) k"
    "sb_errors (w_state w1) = sb_errors (w_state ?w)" "w_broker w1 = w_broker w"
    by (rule accepted_status_change [of ?w i cur e Failed runner rec sv t a])
      (use assms tr in \<open>auto simp: abs_record_def\<close>)
  obtain trg where n: "notify (report_failure (sv_libs sv)
       \<lparr>xx_invocation_id = i, xx_task_id = t, xx_error_type = ty, xx_error_message = msg, xx_arguments = a\<rparr>) w1
       = (Inr (), w1\<lparr>w_triggers := trg\<rparr>)"
    using notify_reports(2) by blast
  show thesis
    by (rule that [of "w1\<lparr>w_triggers := trg\<rparr>"])
      (use w1 in \<open>simp_all add: set_exception_with_context_def store n left_as_def abs_record_def get_error_def
         store_error_def\<close>)
qed

lemma retry_written:
  assumes "orch_inv (w_control w)" "abs_record i w = Some cur" "sr_status cur = Running" "sr_runner cur = Some runner"
    "\<forall>k. i \<notin> ms_get (cc_index (w_control w)) k" "validate_routing q p = Inr ()"
  obtains w' x where "set_retry_after_with_context sv e i runner t a q p delay w = (Inr (), w')"
    "left_as i Retry w'"
    "retries (w_control w') i = Some (get_invocation_retries i (w_control w) + 1)"
    "w_broker w' = w_broker w @ [x]" "qi_id x = i" "qi_queue x = q" "qi_priority x = p"
    "qi_not_before x = (if delay = 0 then None else Some (now e + delay))"
proof -
  obtain rec where tr: "status_record_transition (now e) (Some cur) Retry (Some runner) = Inr rec"
    using owner_transition [OF assms(3,4), of Retry] by blast
  obtain w1 where w1: "set_status_with_context sv e i Retry runner t a w = (Inr rec, w1)"
    "abs_record i w1 = Some rec" "sr_status rec = Retry" "w_broker w1 = w_broker w"
    "cc_index (w_control w1) = cc_index (snd (set_invocation_status e i Retry (Some runner) (w_control w)))"
    "retries (w_control w1) = retries (w_control w)"
    by (rule accepted_status_change [of w i cur e Retry runner rec sv t a])
      (use assms tr in \<open>auto simp: abs_record_def\<close>)
  have cc: "cc_index (w_control w1) = cc_index (w_control w)"
    using w1(5) assms(2) tr by (simp add: set_invocation_status_def abs_record_def Let_def)
  let ?x = "\<lparr>qi_id = i, qi_task = Some t, qi_queue = q, qi_priority = p,
             qi_not_before = if delay = 0 then None else Some (now e + delay)\<rparr>"
  let ?w2 = "w1\<lparr>w_control := snd (increment_invocation_retries i (w_control w1))\<rparr>"
  have inc: "\<exists>n. lift_control (increment_invocation_retries i) w1 = (Inr n, ?w2)"
    by (simp add: lift_control_def increment_invocation_retries_def Let_def)
  have "set_retry_after_with_context sv e i runner t a q p delay w = (Inr (), ?w2\<lparr>w_broker := w_broker w @ [?x]\<rparr>)"
    using inc w1(1,4) assms(6)
    by (auto simp: set_retry_after_with_context_def set_retry_with_context_def lift_broker_def
        route_invocation_with_options_def route_invocation_after_def)
  then show thesis
    using w1 cc assms(5)
    by (intro that [of "?w2\<lparr>w_broker := w_broker w @ [?x]\<rparr>" ?x])
      (auto simp: left_as_def abs_record_def increment_invocation_retries_def get_invocation_retries_def Let_def)
qed

section \<open>The three ends\<close>

lemma settle_accepted: "settle i runner (Inr (), w) next_step = next_step w"
  by (simp add: settle_def discarded_outcome_def)

lemma attempt_succeeds:
  assumes "orch_inv (w_control w)" "abs_record i w = Some cur" "sr_status cur = Running" "sr_runner cur = Some runner"
  shows "\<exists>w'. settle i runner (set_result_with_context sv e i result runner t a w)
            (\<lambda>w. ignore_error (release_nontransactional_concurrency_slot i w)) = (Inr (), w') \<and>
          left_as i Success w' \<and> get_result i (w_state w') = Some result \<and> w_broker w' = w_broker w"
proof -
  obtain w1 where w1: "set_result_with_context sv e i result runner t a w = (Inr (), w1)"
    "orch_inv (w_control w1)" "left_as i Success w1" "get_result i (w_state w1) = Some result" "w_broker w1 = w_broker w"
    by (rule result_written [OF assms])
  have "map_option sr_status (abs_record i w1) = Some Success" "waiters (w_control w1) i = None"
    using w1(3) by (simp_all add: left_as_def)
  from release_slot [OF w1(2) this] show ?thesis
    using w1 by (intro exI [of _ "w1\<lparr>w_control := cc_unindex i (w_control w1)\<rparr>"])
      (simp add: settle_accepted ignore_error_def)
qed

lemma attempt_fails:
  assumes "orch_inv (w_control w)" "abs_record i w = Some cur" "sr_status cur = Running" "sr_runner cur = Some runner"
  shows "\<exists>w'. settle i runner (set_exception_with_context sv e i ty msg runner t a w)
            (\<lambda>w. ignore_error (release_nontransactional_concurrency_slot i w)) = (Inr (), w') \<and>
          left_as i Failed w' \<and> w_broker w' = w_broker w \<and>
          get_error i (w_state w') = Some \<lparr>err_type = ty, err_message = msg, err_traceback = None\<rparr>"
proof -
  obtain w1 where w1: "set_exception_with_context sv e i ty msg runner t a w = (Inr (), w1)"
    "orch_inv (w_control w1)" "left_as i Failed w1"
    "get_error i (w_state w1) = Some \<lparr>err_type = ty, err_message = msg, err_traceback = None\<rparr>"
    "w_broker w1 = w_broker w"
    by (rule exception_written [OF assms])
  have "map_option sr_status (abs_record i w1) = Some Failed" "waiters (w_control w1) i = None"
    using w1(3) by (simp_all add: left_as_def)
  from release_slot [OF w1(2) this] show ?thesis
    using w1 by (intro exI [of _ "w1\<lparr>w_control := cc_unindex i (w_control w1)\<rparr>"])
      (simp add: settle_accepted ignore_error_def)
qed

lemma attempt_retries:
  assumes "orch_inv (w_control w)" "abs_record i w = Some cur" "sr_status cur = Running" "sr_runner cur = Some runner"
    "validate_routing q p = Inr ()"
  shows "\<exists>w'. and_then (release_nontransactional_concurrency_slot i w) (\<lambda>_ w.
            settle i runner (set_retry_after_with_context sv e i runner t a q p delay w) (\<lambda>w. (Inr (), w)))
            = (Inr (), w') \<and>
          left_as i Retry w' \<and> retries (w_control w') i = Some (get_invocation_retries i (w_control w) + 1) \<and>
          (\<exists>x. w_broker w' = w_broker w @ [x] \<and> qi_id x = i \<and> qi_queue x = q \<and>
             qi_not_before x = (if delay = 0 then None else Some (now e + delay)))"
proof -
  let ?w1 = "w\<lparr>w_control := cc_unindex i (w_control w)\<rparr>"
  have rel: "release_nontransactional_concurrency_slot i w = (Inr (), ?w1)" "orch_inv (w_control ?w1)"
    "\<forall>k. i \<notin> ms_get (cc_index (w_control ?w1)) k"
    using release_slot [OF assms(1), of i Running] assms(2,3) by (simp_all add: left_as_def)
  obtain w' x where w': "set_retry_after_with_context sv e i runner t a q p delay ?w1 = (Inr (), w')"
    "left_as i Retry w'" "retries (w_control w') i = Some (get_invocation_retries i (w_control ?w1) + 1)"
    "w_broker w' = w_broker ?w1 @ [x]" "qi_id x = i" "qi_queue x = q"
    "qi_not_before x = (if delay = 0 then None else Some (now e + delay))"
    by (rule retry_written [OF rel(2) _ assms(3,4) rel(3) assms(5)]) (use assms(2) in \<open>simp add: abs_record_def\<close>)
  then show ?thesis using rel(1) by (auto simp: settle_accepted get_invocation_retries_def)
qed

lemma attempt_end:
  assumes "world_inv w" "abs_record i w = Some cur" "sr_status cur = Running" "sr_runner cur = Some runner"
    and "validate_routing (queue rc) (priority rc) = Inr ()" "attempt \<noteq> -1"
    and "finish_attempt sv e ts i runner t a c rc n attempt timed_out delay outcome w = (r, w')"
  shows "r = Inr () \<and>
    (case outcome of
       Inr result \<Rightarrow> left_as i Success w' \<and> get_result i (w_state w') = Some result \<and> w_broker w' = w_broker w
     | Inl err \<Rightarrow>
         let te = task_error_of ts err
         in if should_retry c rc n timed_out (err_type te)
            then left_as i Retry w' \<and>
                 retries (w_control w') i = Some (get_invocation_retries i (w_control w) + 1) \<and>
                 (\<exists>x. w_broker w' = w_broker w @ [x] \<and> qi_id x = i \<and> qi_queue x = queue rc \<and>
                    qi_not_before x = (if delay = 0 then None else Some (now e + delay)))
            else left_as i Failed w' \<and> w_broker w' = w_broker w \<and>
                 get_error i (w_state w') =
                   Some \<lparr>err_type = err_type te, err_message = err_message te, err_traceback = None\<rparr>)"
proof -
  have inv: "orch_inv (w_control w)" using assms(1) by (simp add: world_inv_def)
  note owner = inv assms(2-4)
  show ?thesis
  proof (cases outcome)
    case (Inr result)
    then show ?thesis using attempt_succeeds [OF owner, of sv e result t a] assms(7) by (auto simp: finish_attempt_def)
  next
    case (Inl err)
    let ?te = "task_error_of ts err"
    show ?thesis
    proof (cases "should_retry c rc n timed_out (err_type ?te)")
      case True
      then show ?thesis
        using attempt_retries [OF owner assms(5), of sv e t a delay] assms(6,7) Inl
        by (auto simp: finish_attempt_def Let_def)
    next
      case False
      then show ?thesis
        using attempt_fails [OF owner, of sv e "err_type ?te" "err_message ?te" t a] assms(7) Inl
        by (auto simp: finish_attempt_def Let_def)
    qed
  qed
qed

section \<open>Properties\<close>

text \<open>C4. The end of an attempt by the runner that owns the running invocation. A result: it is stored, the
  invocation is \<^verbatim>\<open>Success\<close>. An error that may be retried: the invocation is \<^verbatim>\<open>Retry\<close>, its retry
  counter one higher, and one queue entry not due before the delay brings it back. Any other error: it
  is stored and the invocation is \<^verbatim>\<open>Failed\<close>. In each case the concurrency slot is free, nobody waits on a
  finished invocation, and the queue is otherwise untouched.\<close>

theorem attempt_outcomes:
  assumes "world_inv w" "abs_record i w = Some cur" "sr_status cur = Running" "sr_runner cur = Some runner"
    and "validate_routing (queue rc) (priority rc) = Inr ()" "attempt \<noteq> -1"
    and "finish_attempt sv e ts i runner t a c rc n attempt timed_out delay outcome w = (r, w')"
  shows "r = Inr () \<and>
    (case outcome of
       Inr result \<Rightarrow> left_as i Success w' \<and> get_result i (w_state w') = Some result \<and> w_broker w' = w_broker w
     | Inl err \<Rightarrow>
         let te = task_error_of ts err
         in if should_retry c rc n timed_out (err_type te)
            then left_as i Retry w' \<and>
                 retries (w_control w') i = Some (get_invocation_retries i (w_control w) + 1) \<and>
                 (\<exists>x. w_broker w' = w_broker w @ [x] \<and> qi_id x = i \<and> qi_queue x = queue rc \<and>
                    qi_not_before x = (if delay = 0 then None else Some (now e + delay)))
            else left_as i Failed w' \<and> w_broker w' = w_broker w \<and>
                 get_error i (w_state w') =
                   Some \<lparr>err_type = err_type te, err_message = err_message te, err_traceback = None\<rparr>)"
  by (rule attempt_end [OF assms])

theorem attempt_outcomes_witness:
  "get_result ''i'' (w_state (snd (finish_attempt ex_service (sorted_env 3) (\<lambda>_. []) ''i'' ''r'' ex_task []
      task_config_default task_config_default 0 0 False 0 (Inr ''7'') ex_world))) = Some ''7''"
proof -
  obtain r w' where f: "finish_attempt ex_service (sorted_env 3) (\<lambda>_. []) ''i'' ''r'' ex_task []
      task_config_default task_config_default 0 0 False 0 (Inr ''7'') ex_world = (r, w')" by force
  have v: "validate_routing (queue task_config_default) (priority task_config_default) = Inr ()"
    by (simp add: task_config_default_def validate_routing_zero default_queue_ok)
  have "abs_record ''i'' ex_world = Some (status_record_new 2 Running (Some ''r''))" by (simp add: abs_record_def)
  from attempt_outcomes [OF ex_world_inv this _ _ v _ f] show ?thesis
    by (simp add: f) (simp add: status_record_new_def)
qed

section \<open>Retries come to an end\<close>

definition retry_entries :: "str \<Rightarrow> world \<Rightarrow> nat" where
  "retry_entries i w = length (filter (\<lambda>h. sr_status (h_status_record h) = Retry) (get_history i (w_state w)))"

lemma retry_entries_state: "w_state w' = w_state w \<Longrightarrow> retry_entries i w' = retry_entries i w"
  by (simp add: retry_entries_def)

lemma retry_entries_mono:
  assumes "(use_case sv)\<^sup>*\<^sup>* w w'"
  shows "retry_entries i w \<le> retry_entries i w'"
proof -
  have "\<exists>new. get_history i (w_state w') = get_history i (w_state w) @ new"
    by (rule history.run_keeps [OF assms]) simp
  then show ?thesis by (auto simp: retry_entries_def)
qed

lemma retry_entries_status:
  assumes "set_status_with_context sv e i st runner t a w = (r, w')" "st \<noteq> Retry"
  shows "retry_entries i w' = retry_entries i w"
  using assms(1)
proof (cases rule: set_status_with_context_cases)
  case (changed rec c)
  then show ?thesis
    using history_add [OF changed(4)] set_status_record [OF changed(2)] assms(2)
    by (simp add: retry_entries_def with_runner_def history_new_def)
qed simp

lemma retry_entries_frames:
  "retry_entries i (snd (release_nontransactional_concurrency_slot j w)) = retry_entries i w"
  "retry_entries i (snd (ignore_error (release_nontransactional_concurrency_slot j w))) = retry_entries i w"
  "retry_entries i (finish_discarded j d w) = retry_entries i w"
  "retry_entries i (snd (notify f w)) = retry_entries i w"
  "retry_entries i (snd (lift_state (store_result j res) w)) = retry_entries i w"
  "retry_entries i (snd (lift_state (store_error j err) w)) = retry_entries i w"
  by (auto simp: retry_entries_def get_history_def ignore_error_def finish_discarded_def notify_def
      release_nontransactional_concurrency_slot_def lift_control_def lift_state_def store_result_def
      store_error_def remove_from_concurrency_index_def split: option.split prod.split sum.split)

lemma retry_entries_settle:
  assumes "retry_entries i (snd write) = n" "\<And>w. retry_entries i (snd (next_step w)) = retry_entries i w"
  shows "retry_entries i (snd (settle j runner write next_step)) = n"
  using assms by (auto simp: settle_def retry_entries_frames split: prod.split sum.split option.split)

lemma retry_entries_then:
  assumes "retry_entries i (snd r) = n" "\<And>x w. retry_entries i (snd (f x w)) = retry_entries i w"
  shows "retry_entries i (snd (and_then r f)) = n"
  using assms by (cases r; cases "fst r") auto

lemma retry_entries_set_status:
  "st \<noteq> Retry \<Longrightarrow> retry_entries i (snd (set_status_with_context sv e i st runner t a w)) = retry_entries i w"
  "st \<noteq> Retry \<Longrightarrow> retry_entries i (snd (set_status sv e i st runner w)) = retry_entries i w"
  by (metis prod.collapse retry_entries_status, simp add: set_status_def split: prod.split)
    (metis prod.collapse retry_entries_status)

lemma outcome_no_retry:
  "retry_entries i (snd (set_result_with_context sv e i res runner t a w)) = retry_entries i w"
  "retry_entries i (snd (set_exception_with_context sv e i ty msg runner t a w)) = retry_entries i w"
  unfolding set_result_with_context_def set_exception_with_context_def
  by (auto intro!: retry_entries_then simp: retry_entries_frames retry_entries_set_status)

lemma conclude_retry:
  assumes "retry_entries i (snd (conclude_attempt sv rt e i runner x r w)) \<noteq> retry_entries i w"
  shows "at_num_retries x < max_retries (at_config x)"
proof (rule ccontr)
  assume "\<not> ?thesis"
  then have "\<not> should_retry (at_config x) (at_resolved x) (at_num_retries x) b ty" for b ty
    by (simp add: should_retry_def)
  then have "retry_entries i (snd (conclude_attempt sv rt e i runner x r w)) = retry_entries i w"
    by (auto simp: conclude_attempt_def finish_cancelled_def finish_attempt_def Let_def retry_entries_frames
        outcome_no_retry intro!: retry_entries_settle split: sum.split)
  with assms show False by contradiction
qed

lemma claim_ownership_retries: "retry_entries i (snd (claim_ownership sv e i runner w)) = retry_entries i w"
proof -
  have 1: "retry_entries i (snd (set_status sv e i Pending runner w)) = retry_entries i w" for w
    by (simp add: retry_entries_set_status)
  have 2: "retry_entries i (snd (set_status sv e i Running runner w)) = retry_entries i w" for w
    by (simp add: retry_entries_set_status)
  obtain r1 w1 where st: "set_status sv e i Pending runner w = (r1, w1)" by force
  then have "retry_entries i w1 = retry_entries i w" using 1 [of w] by simp
  then show ?thesis
    using st 2 by (auto simp: claim_ownership_def retry_entries_frames intro!: retry_entries_then split: sum.split)
qed

lemma prepare_retries:
  assumes "prepare_attempt sv rt e i runner w = (Inr (Some x), w')"
  shows "at_num_retries x = of_nat (retry_entries i w)"
proof -
  obtain w1 where w1: "claim_ownership sv e i runner w = (Inr True, w1)"
    and "at_num_retries x = retry_count_of i w1"
    using assms
    by (auto simp: prepare_attempt_def and_then_Inr Let_def retry_count_of_def case_prod_unfold
        split: if_splits option.splits)
  moreover have "retry_entries i w1 = retry_entries i w" using claim_ownership_retries [of i sv e runner w] w1 by simp
  ultimately show ?thesis by (simp add: retry_count_of_def retry_entries_def)
qed

text \<open>C6. Retries come to an end: once the history of an invocation holds as many retries as its task allows, whoever scheduled
  them (attempts, also overlapping ones, and explicit retries), no attempt prepared from then on is scheduled for another one,
  whatever use cases run before the attempt and while its body runs. The history has fewer than \<open>2\<^sup>3\<^sup>2\<close> retries when the
  attempt is prepared, which the 32-bit counter of the code could not tell apart.\<close>

theorem retries_terminate:
  assumes "unat limit \<le> retry_entries i w" "(use_case sv)\<^sup>*\<^sup>* w w1"
    and "prepare_attempt sv rt e i runner w1 = (Inr (Some x), w2)" "max_retries (at_config x) \<le> limit" "retry_entries i w1 < 2 ^ 32"
    and "(use_case sv)\<^sup>*\<^sup>* w2 w3"
  shows "retry_entries i (snd (conclude_attempt sv rt e' i runner x outcome w3)) = retry_entries i w3"
proof (rule ccontr)
  assume "\<not> ?thesis"
  then have "at_num_retries x < max_retries (at_config x)" by (rule conclude_retry)
  then have "at_num_retries x < limit" using assms(4) by simp
  moreover have "at_num_retries x = of_nat (retry_entries i w1)" using prepare_retries assms(3) by simp
  ultimately have "retry_entries i w1 < unat limit" using assms(5) by (simp add: word_less_nat_alt unat_of_nat)
  then show False using assms(1) retry_entries_mono [OF assms(2), of i] by simp
qed

text \<open>An example: a task that allows one retry, and an invocation that had it.\<close>

definition ex_retry_config :: task_config where
  "ex_retry_config = task_config_default\<lparr>max_retries := 1\<rparr>"

definition ex_runtime :: runtime where
  "ex_runtime = \<lparr>rt_allocate = id, rt_encode = (\<lambda>_. []), rt_decode = (\<lambda>_. None), rt_to_string = (\<lambda>_. []),
                 rt_delay = (\<lambda>_ _. 0), rt_before = []\<rparr>"

definition ex_ready :: world where
  "ex_ready = new_world\<lparr>
     w_control := snd (register_invocation_with_id (sorted_env 0) ''i'' ex_call None orch_new),
     w_state := w_state ex_world,
     w_catalog := ex_catalog\<lparr>registry := snd (registry_register ex_task ex_retry_config registry_new)\<rparr>\<rparr>"

lemma ex_resolve:
  "resolve_config (sv_host ex_service) (sv_app ex_service) ex_task ex_retry_config (w_catalog ex_ready) =
     (ex_retry_config, w_catalog ex_ready)"
  by (simp add: resolve_config_def get_or_load_env_override_def ex_ready_def ex_catalog_def catalog_new_def
      override_default_def apply_to_def ex_retry_config_def task_config_default_def ex_service_def ex_app_def Let_def)

lemma ex_ready_simps:
  "status_records (w_control ex_ready) = [''i'' \<mapsto> status_record_new 0 Registered None]"
  "sb_histories (w_state ex_ready) = Map.empty" "sb_workflow_data (w_state ex_ready) = Map.empty"
  "sb_invocations (w_state ex_ready) = [''i'' \<mapsto> invocation_dto_new 0 ''i'' ex_task (cd_call_id ex_call)]"
  "sb_calls (w_state ex_ready) = [display_call_id (cd_call_id ex_call) \<mapsto> ex_call]"
  "w_triggers ex_ready = None" "reg_tasks (registry (w_catalog ex_ready)) = [ex_task \<mapsto> ex_retry_config]"
  by (simp_all add: ex_ready_def ex_world_def new_world_def register_invocation_with_id_def Let_def orch_new_def
      registry_register_def registry_new_def upsert_invocation_def backend_new_def invocation_dto_new_def
      sorted_env_def ex_call_def call_dto_new_def)

lemmas ex_attempt_eval =
  prepare_attempt_def claim_ownership_def begin_execution_def get_execution_identity_def
  next_execution_identity_def get_invocation_def get_call_def registry_get_dyn_def service_eval
  get_workflow_data_def set_workflow_data_def invocation_dto_new_def ex_resolve ex_runtime_def retry_count_of_def
  get_history_def ml_get_push ml_get_empty ex_call_def call_dto_new_def ex_ready_simps machine_defs

definition ex_attempt :: attempt where
  "ex_attempt = \<lparr>at_task = ex_task, at_arguments = [], at_config = ex_retry_config, at_resolved = ex_retry_config,
                 at_num_retries = 0, at_number = 0\<rparr>"

lemma ex_prepared:
  "fst (prepare_attempt ex_service ex_runtime (sorted_env 1) ''i'' ''r'' ex_ready) = Inr (Some ex_attempt)"
  by (simp add: ex_attempt_eval ex_attempt_def)

definition ex_once_retried :: world where
  "ex_once_retried = ex_ready\<lparr>w_state := snd (add_history
     (with_runner ''r'' (history_new ''i'' (status_record_new 0 Retry None) None)) (w_state ex_ready))\<rparr>"

lemma ex_once_simps:
  "w_control ex_once_retried = w_control ex_ready" "w_catalog ex_once_retried = w_catalog ex_ready"
  "w_triggers ex_once_retried = w_triggers ex_ready" "sb_workflow_data (w_state ex_once_retried) = sb_workflow_data (w_state ex_ready)"
  "sb_invocations (w_state ex_once_retried) = sb_invocations (w_state ex_ready)" "sb_calls (w_state ex_once_retried) = sb_calls (w_state ex_ready)"
  "retry_entries ''i'' ex_once_retried = 1"
  by (simp_all add: ex_once_retried_def add_history_def retry_entries_def get_history_def ml_get_push ml_get_empty with_runner_def
      history_new_def status_record_new_def ex_ready_simps)

lemma ex_once_history:
  "get_history j (w_state ex_once_retried) =
     (if j = ''i'' then [with_runner ''r'' (history_new ''i'' (status_record_new 0 Retry None) None)] else [])"
  by (simp add: ex_once_retried_def add_history_def get_history_def ml_get_push ml_get_empty with_runner_def history_new_def ex_ready_simps)

lemma ex_once_prepared:
  obtains w2 where "prepare_attempt ex_service ex_runtime (sorted_env 1) ''i'' ''r'' ex_once_retried = (Inr (Some (ex_attempt\<lparr>at_num_retries := 1, at_number := 1\<rparr>)), w2)"
proof -
  have "fst (prepare_attempt ex_service ex_runtime (sorted_env 1) ''i'' ''r'' ex_once_retried) = Inr (Some (ex_attempt\<lparr>at_num_retries := 1, at_number := 1\<rparr>))"
    by (simp add: ex_attempt_eval ex_once_simps ex_once_history [unfolded get_history_def] with_runner_def history_new_def ex_attempt_def)
  then show thesis using that by (metis prod.collapse)
qed

theorem retries_terminate_witness:
  "\<exists>w2. prepare_attempt ex_service ex_runtime (sorted_env 1) ''i'' ''r'' ex_once_retried = (Inr (Some (ex_attempt\<lparr>at_num_retries := 1, at_number := 1\<rparr>)), w2) \<and>
     retry_entries ''i'' (snd (conclude_attempt ex_service ex_runtime (sorted_env 2) ''i'' ''r'' (ex_attempt\<lparr>at_num_retries := 1, at_number := 1\<rparr>)
       (Inl Internal, None) w2)) = retry_entries ''i'' w2"
proof (rule ex_once_prepared)
  fix w2
  assume p: "prepare_attempt ex_service ex_runtime (sorted_env 1) ''i'' ''r'' ex_once_retried = (Inr (Some (ex_attempt\<lparr>at_num_retries := 1, at_number := 1\<rparr>)), w2)"
  have "retry_entries ''i'' (snd (conclude_attempt ex_service ex_runtime (sorted_env 2) ''i'' ''r'' (ex_attempt\<lparr>at_num_retries := 1, at_number := 1\<rparr>)
       (Inl Internal, None) w2)) = retry_entries ''i'' w2"
    by (rule retries_terminate [where limit = 1, OF _ rtranclp.rtrancl_refl p _ _ rtranclp.rtrancl_refl])
      (simp_all add: ex_once_simps ex_attempt_def ex_retry_config_def)
  with p show ?thesis by blast
qed

section \<open>Supervision\<close>

text \<open>The deadline is enforced: an attempt reports its own outcome only if the body finished within the
  deadline; a body that finishes late, or not before the deadline fires, is reported as timed out.\<close>

lemma supervise_respects_deadline:
  assumes "supervise i (Some d) cc ks = Some (r, intr)"
  shows "(intr = None \<and> (\<exists>k \<in> set ks. wk_body k = Some r \<and> wk_elapsed k \<le> d)) \<or>
         (intr = Some (TimedOut d) \<and> r = Inl (timeout_error d) \<and>
            (\<exists>k \<in> set ks. wk_deadline k \<or> (wk_body k \<noteq> None \<and> d < wk_elapsed k))) \<or>
         (intr = Some InterruptedByCancel \<and> cc \<and> (\<exists>k \<in> set ks. wk_cancelled k))"
  using assms
proof (induction ks)
  case (Cons k ks)
  show ?case
  proof (cases "wk_body k")
    case (Some res)
    then show ?thesis using Cons.prems by (auto split: if_splits)
  next
    case None
    then show ?thesis using Cons by (cases "wk_deadline k") (auto split: if_splits)
  qed
qed simp

section \<open>Failure log\<close>

lemma logged_after_interval:
  assumes "log_failed t l = (True, l')" "fl_last_logged l = Some at"
  shows "fl_interval l \<le> t - at"
  using assms by (auto simp: log_failed_def Let_def split: if_splits)

section \<open>Two gaps of the non-transactional writes\<close>

text \<open>C40. A late result overwrites the stored one: writing a result for a finished invocation is refused, its
  record stays, but the result has been replaced before the refusal.\<close>

theorem late_result_overwrites:
  assumes "abs_record i w = Some cur" "is_terminal (sr_status cur)"
    and "set_result_with_context sv e i res runner t a w = (r, w')"
  shows "(\<exists>err. r = Inl err) \<and> abs_record i w' = Some cur \<and> get_result i (w_state w') = Some res"
proof -
  let ?w = "w\<lparr>w_state := snd (store_result i res (w_state w))\<rparr>"
  have store: "lift_state (store_result i res) w = (Inr (), ?w)" by (simp add: lift_state_def store_result_def)
  obtain r1 w1 where st: "set_status_with_context sv e i Success runner t a ?w = (r1, w1)" by force
  then show ?thesis
  proof (cases rule: set_status_with_context_cases)
    case (failed err)
    then show ?thesis
      using assms(1,3) store st
      by (auto simp: set_result_with_context_def abs_record_def get_result_def store_result_def)
  next
    case (changed rec c)
    then show ?thesis
      using assms(1) terminal_blocks [OF assms(2), of "now e" Success "Some runner"]
      by (auto simp: set_invocation_status_Inr abs_record_def)
  qed
qed

theorem late_result_overwrites_witness:
  "let w = snd (set_result_with_context ex_service (sorted_env 3) ''i'' ''1'' ''r'' ex_task [] ex_world)
   in get_result ''i'' (w_state (snd (set_result_with_context ex_service (sorted_env 4) ''i'' ''2'' ''q'' ex_task [] w)))
      = Some ''2''"
proof -
  have inv: "orch_inv (w_control ex_world)" using ex_world_inv by (simp add: world_inv_def)
  have rec: "abs_record ''i'' ex_world = Some (status_record_new 2 Running (Some ''r''))" by (simp add: abs_record_def)
  obtain w where w: "set_result_with_context ex_service (sorted_env 3) ''i'' ''1'' ''r'' ex_task [] ex_world = (Inr (), w)"
    "left_as ''i'' Success w"
    by (rule result_written [OF inv rec]) (simp_all add: status_record_new_def)
  then obtain cur where cur: "abs_record ''i'' w = Some cur" "is_terminal (sr_status cur)"
    by (auto simp: left_as_def)
  obtain r w' where r: "set_result_with_context ex_service (sorted_env 4) ''i'' ''2'' ''q'' ex_task [] w = (r, w')" by force
  from late_result_overwrites [OF cur r] show ?thesis by (simp add: w(1) r)
qed

text \<open>A runner that loses the race for a running invocation releases the slot of the runner that runs it.\<close>

theorem lost_claim_frees_slot:
  assumes "orch_inv (w_control w)" "abs_record i w = Some cur" "sr_status cur = Running"
    and "claim_ownership sv e i runner w = (r, w')"
  shows "r = Inr False \<and> abs_record i w' = Some cur \<and> (\<forall>k. i \<notin> ms_get (cc_index (w_control w')) k)"
proof -
  obtain r1 w1 where st: "set_status sv e i Pending runner w = (r1, w1)" by force
  then show ?thesis
  proof (cases rule: set_status_cases)
    case (failed err)
    have "is_invalid_transition err"
      using failed(3) assms(2,3)
      by (auto simp: set_invocation_status_def abs_record_def machine_defs is_invalid_transition_def
          status_machine_error_to_rustvello_def split: if_splits)
    then show ?thesis
      using assms st failed release_slot [OF assms(1), of i Running]
      by (auto simp: claim_ownership_def left_as_def abs_record_def)
  next
    case (changed rec c)
    then show ?thesis
      using assms(2,3) by (auto simp: set_invocation_status_Inr transition_Inr_iff abs_record_def status_simps)
  qed
qed

end
