(* ===== verification/Retrieval_Props.thy ===== *)
theory Retrieval_Props
  imports Service_Outcomes
begin

text \<open>
  What a runner gets from \<^verbatim>\<open>get_invocations_to_run\<close> (\<^verbatim>\<open>orchestration/retrieval.rs\<close>): at most as
  many invocations as it asked for, each once, and each already claimed for it.
\<close>

section \<open>Status writes and the other records\<close>

lemma set_status_others:
  assumes "lift_control (set_invocation_status e i st r) w = (x, w')"
  shows "j \<noteq> i \<Longrightarrow> abs_record j w' = abs_record j w"
    and "x = Inl err \<Longrightarrow> w' = w"
    and "x = Inr rec \<Longrightarrow> abs_record i w' = Some rec \<and> sr_status rec = st \<and>
           (\<exists>cur. abs_record i w = Some cur \<and> status_record_transition (now e) (Some cur) st r = Inr rec)"
proof -
  obtain c where c: "set_invocation_status e i st r (w_control w) = (x, c)" "w' = w\<lparr>w_control := c\<rparr>"
    using assms by (auto simp: lift_control_def split: prod.splits)
  show "abs_record j w' = abs_record j w" if "j \<noteq> i"
    using c that
    by (cases x) (auto simp: abs_record_def set_invocation_status_Inr dest: set_invocation_status_Inl)
  show "w' = w" if "x = Inl err" using c that by (auto dest: set_invocation_status_Inl)
  show "abs_record i w' = Some rec \<and> sr_status rec = st \<and>
      (\<exists>cur. abs_record i w = Some cur \<and> status_record_transition (now e) (Some cur) st r = Inr rec)"
    if "x = Inr rec"
    using c that set_status_record [of e i st r "w_control w" rec c]
    by (auto simp: abs_record_def set_invocation_status_Inr)
qed

lemma abs_record_frames:
  "abs_record j (snd (record_history i rec runner w)) = abs_record j w"
  "abs_record j (snd (report_status sv i t st a w)) = abs_record j w"
  "abs_record j (snd (ignore_error x)) = abs_record j (snd x)"
  "abs_record j (snd (lift_broker f w)) = abs_record j w"
  by (auto simp: abs_record_def record_history_def report_status_def notify_def lift_state_def lift_broker_def
      ignore_error_def split: prod.split option.split sum.split)

lemma retrieve_first_frame: "abs_record j (snd (retrieve_first f qs w)) = abs_record j w"
proof (induction qs arbitrary: w)
  case (Cons q qs)
  obtain x w1 where x: "lift_broker (f q) w = (x, w1)" by force
  have "abs_record j w1 = abs_record j w" using abs_record_frames(4) [of j "f q" w] x by simp
  with Cons x show ?case by (cases x) (auto split: option.split)
qed simp

text \<open>Accepted ids are \<^verbatim>\<open>Pending\<close> and owned by the runner, refused ones \<^verbatim>\<open>ConcurrencyControlled\<close>.\<close>

definition held :: "str \<Rightarrow> str list \<Rightarrow> str list \<Rightarrow> world \<Rightarrow> bool" where
  "held runner accepted refused_ids w \<longleftrightarrow>
     distinct accepted \<and>
     (\<forall>i \<in> set accepted. \<exists>r. abs_record i w = Some r \<and> sr_status r = Pending \<and> sr_runner r = Some runner) \<and>
     (\<forall>i \<in> set refused_ids. \<exists>r. abs_record i w = Some r \<and> sr_status r = ConcurrencyControlled)"

lemma held_cong: "(\<And>j. abs_record j w' = abs_record j w) \<Longrightarrow> held runner acc ref w' = held runner acc ref w"
  by (simp add: held_def)

lemma held_other:
  assumes "held runner acc ref w" "i \<notin> set acc" "i \<notin> set ref" "\<And>j. j \<noteq> i \<Longrightarrow> abs_record j w' = abs_record j w"
  shows "held runner acc ref w'"
  using assms unfolding held_def by metis

lemma pending_owner:
  assumes "status_record_transition n (Some cur) Pending (Some runner) = Inr rec"
  shows "sr_runner rec = Some runner"
  using assms by (auto simp: transition_Inr_iff compute_new_owner_simps)

lemma try_pending_held:
  assumes "held runner acc ref w" "i \<notin> set acc" "i \<notin> set ref"
    and "try_transition_to_pending sv e i runner acc w = (Inr acc', w')"
  shows "held runner acc' ref w' \<and> length acc' \<le> Suc (length acc)"
proof -
  obtain x w1 where x: "lift_control (set_invocation_status e i Pending (Some runner)) w = (x, w1)" by force
  note s = set_status_others [OF x]
  show ?thesis
  proof (cases x)
    case (Inl err)
    then show ?thesis using assms x s(2) by (auto simp: try_transition_to_pending_def split: if_splits)
  next
    case (Inr rec)
    have "acc' = acc @ [i]" "\<And>j. abs_record j w' = abs_record j w1"
      using assms(4) x Inr
      by (auto simp: try_transition_to_pending_def ignore_error_def and_then_def split: sum.splits)
        (auto simp: abs_record_frames)
    moreover have "held runner acc ref w1" using assms(1-3) s(1) by (rule held_other) simp
    ultimately show ?thesis
      using s(3) [OF Inr] pending_owner assms(2) by (auto simp: held_def)
  qed
qed

section \<open>The three phases\<close>

lemma held_status:
  "held runner acc ref w \<Longrightarrow> get_invocation_status i (w_control w) = Inr r \<Longrightarrow>
     (i \<in> set acc \<longrightarrow> sr_status r = Pending) \<and> (i \<in> set ref \<longrightarrow> sr_status r = ConcurrencyControlled)"
  by (auto simp: held_def get_invocation_status_def abs_record_def split: option.splits)

lemma run_blocking_held:
  assumes "run_blocking sv e n runner conf is acc w = (Inr acc', w')" "held runner acc [] w" "length acc \<le> n"
  shows "held runner acc' [] w' \<and> length acc' \<le> n"
  using assms
proof (induction "is" arbitrary: acc w)
  case (Cons i "is")
  show ?case
  proof (cases "length acc < n \<and> (\<exists>r. get_invocation_status i (w_control w) = Inr r \<and> sr_status r \<noteq> Retry \<and>
      can_transition_to (sr_status r) Pending) \<and> check_cc_for_invocation i conf w")
    case True
    then obtain r where r: "get_invocation_status i (w_control w) = Inr r" "can_transition_to (sr_status r) Pending"
      "sr_status r \<noteq> Retry" by blast
    then have fresh: "i \<notin> set acc" using held_status [OF Cons.prems(2) r(1)] by (auto simp: status_simps)
    obtain acc1 w1 where t: "try_transition_to_pending sv e i runner acc w = (Inr acc1, w1)"
      and rest: "run_blocking sv e n runner conf is acc1 w1 = (Inr acc', w')"
      using Cons.prems(1) True r by (auto simp: and_then_Inr)
    have "held runner acc1 [] w1 \<and> length acc1 \<le> Suc (length acc)"
      using try_pending_held [OF Cons.prems(2) fresh _ t] by simp
    then show ?thesis using Cons.IH [OF rest] True by simp
  next
    case False
    then have "run_blocking sv e n runner conf (i # is) acc w =
        (if n \<le> length acc then (Inr acc, w) else run_blocking sv e n runner conf is acc w)"
      by (cases "get_invocation_status i (w_control w)") auto
    then show ?thesis using Cons.IH [of acc w] Cons.prems by (simp split: if_splits)
  qed
qed simp

lemma run_queued_held:
  assumes "run_queued sv e runner conf i (acc, ref) w = (Inr (acc', ref'), w')" "held runner acc ref w"
  shows "held runner acc' ref' w' \<and> length acc' \<le> Suc (length acc)"
proof (cases "i \<notin> set acc \<and> (\<exists>r. get_invocation_status i (w_control w) = Inr r \<and> is_available_for_run (sr_status r))")
  case False
  then show ?thesis using assms by (auto simp: run_queued_def split: if_splits sum.splits)
next
  case True
  then obtain r where r: "get_invocation_status i (w_control w) = Inr r" "is_available_for_run (sr_status r)" by blast
  then have fresh: "i \<notin> set acc" "i \<notin> set ref"
    using held_status [OF assms(2) r(1)] by (auto simp: is_available_for_run_iff)
  show ?thesis
  proof (cases "check_cc_for_invocation i conf w")
    case True
    then have "try_transition_to_pending sv e i runner acc w = (Inr acc', w')" "ref' = ref"
      using assms(1) fresh r by (auto simp: run_queued_def and_then_Inr)
    then show ?thesis using try_pending_held [OF assms(2) fresh] by simp
  next
    case False
    show ?thesis
    proof (cases "get_invocation i (w_state w)")
      case (Inl err)
      then show ?thesis using assms False fresh r by (simp add: run_queued_def)
    next
      case (Inr dto)
      define rr where "rr = (case conf (inv_task_id dto) of None \<Rightarrow> False | Some c \<Rightarrow> reroute_on_cc c)"
      obtain x w1 where x: "lift_control (set_invocation_status e i
          (if rr then ConcurrencyControlled else ConcurrencyControlledFinal) (Some runner)) w = (x, w1)" by force
      note s = set_status_others [OF x]
      have h: "held runner acc ref w1" using held_other [OF assms(2) fresh] s(1) by blast
      have "acc' = acc \<and> w' = w1 \<and> ((\<exists>rec. x = Inr rec) \<and> rr \<and> ref' = ref @ [i] \<or> ref' = ref)"
        using assms(1) False fresh r Inr x
        by (auto simp: run_queued_def Let_def rr_def [symmetric] split: sum.splits if_splits)
      then show ?thesis using h s(3) by (auto simp: held_def)
    qed
  qed
qed

lemma queue_rounds_held:
  assumes "run_queue_rounds sv e n runner qs conf k (acc, ref) w = (Inr (acc', ref'), w')"
    "held runner acc ref w" "length acc \<le> n"
  shows "held runner acc' ref' w' \<and> length acc' \<le> n"
  using assms
proof (induction k arbitrary: acc ref w)
  case (Suc k)
  show ?case
  proof (cases "length acc < n")
    case True
    then obtain c w1 where c: "retrieve_first (\<lambda>q. retrieve_invocation_from_queue (now e) q None) qs w = (Inr c, w1)"
      using Suc.prems(1) by (auto simp: and_then_Inr)
    have h: "held runner acc ref w1"
      using Suc.prems(2) held_cong [of w1 w] retrieve_first_frame [of _ "\<lambda>q. retrieve_invocation_from_queue (now e) q None" qs w] c
      by simp
    show ?thesis
    proof (cases c)
      case None
      then show ?thesis using Suc.prems c True h by simp
    next
      case (Some i)
      then obtain acc1 ref1 w2 where q: "run_queued sv e runner conf i (acc, ref) w1 = (Inr (acc1, ref1), w2)"
        and rest: "run_queue_rounds sv e n runner qs conf k (acc1, ref1) w2 = (Inr (acc', ref'), w')"
        using Suc.prems(1) c True by (auto simp: and_then_Inr)
      have "held runner acc1 ref1 w2" "length acc1 \<le> n" using run_queued_held [OF q h] True by auto
      then show ?thesis using Suc.IH [OF rest] by simp
    qed
  next
    case False
    then show ?thesis using Suc.prems by simp
  qed
qed simp

lemma reroute_refused_others:
  assumes "reroute_refused e runner conf is w = (Inr (), w')" "j \<notin> set is"
  shows "abs_record j w' = abs_record j w"
  using assms
proof (induction "is" arbitrary: w)
  case (Cons i "is")
  obtain x w1 where x: "lift_control (set_invocation_status e i Rerouted (Some runner)) w = (x, w1)" by force
  have same: "abs_record j w1 = abs_record j w" using set_status_others(1) [OF x] Cons.prems(2) by simp
  obtain w2 where "reroute_refused e runner conf is w2 = (Inr (), w')" "abs_record j w2 = abs_record j w1"
  proof (cases x)
    case (Inl err)
    then show thesis using that [of w1] Cons.prems(1) x by (auto split: if_splits)
  next
    case (Inr rec)
    then show thesis
      using Cons.prems(1) x abs_record_frames(4)
      by (auto simp: ignore_error_def split: sum.splits option.splits intro: that)
  qed
  then show ?case using Cons.IH Cons.prems(2) same by simp
qed simp

section \<open>Properties\<close>

text \<open>C9. A runner that asks for work gets at most as many invocations as it asked for, no invocation twice,
  and each of them is \<^verbatim>\<open>Pending\<close> and owned by this runner when the call returns.\<close>

theorem retrieved_work_is_owned:
  assumes "get_invocations_to_run sv e n runner queues conf w = (Inr ids, w')"
  shows "length ids \<le> n \<and> distinct ids \<and>
         (\<forall>i \<in> set ids. \<exists>r. abs_record i w' = Some r \<and> sr_status r = Pending \<and> sr_runner r = Some runner)"
proof -
  obtain acc w1 ref w2 where
    b: "run_blocking sv e n runner conf (get_blocking_invocations e n (w_control w)) [] w = (Inr acc, w1)"
    and q: "run_queue_rounds sv e n runner queues conf (n * 2 + 8) (acc, []) w1 = (Inr (ids, ref), w2)"
    and r: "reroute_refused e runner conf ref w2 = (Inr (), w')"
    using assms by (auto simp: get_invocations_to_run_def and_then_Inr)
  have "held runner acc [] w1 \<and> length acc \<le> n" by (rule run_blocking_held [OF b]) (simp_all add: held_def)
  then have h: "held runner ids ref w2" "length ids \<le> n" using queue_rounds_held [OF q] by auto
  have "i \<notin> set ref" if "i \<in> set ids" for i using h(1) that by (fastforce simp: held_def)
  then have "abs_record i w' = abs_record i w2" if "i \<in> set ids" for i
    using reroute_refused_others [OF r] that by blast
  then show ?thesis using h by (auto simp: held_def)
qed

definition ex_queued :: world where
  "ex_queued = new_world\<lparr>
     w_control := snd (register_invocation_with_id (sorted_env 0) ''i'' ex_call None orch_new),
     w_broker := [\<lparr>qi_id = ''i'', qi_task = Some ex_task, qi_queue = DEFAULT_QUEUE, qi_priority = 0,
                   qi_not_before = None\<rparr>]\<rparr>"

lemma ex_queued_simps:
  "waiters (w_control ex_queued) = Map.empty"
  "status_records (w_control ex_queued) = [''i'' \<mapsto> status_record_new 0 Registered None]"
  "sb_invocations (w_state ex_queued) = Map.empty"
  "w_broker ex_queued = [\<lparr>qi_id = ''i'', qi_task = Some ex_task, qi_queue = DEFAULT_QUEUE, qi_priority = 0,
                          qi_not_before = None\<rparr>]"
  by (simp_all add: ex_queued_def new_world_def register_invocation_with_id_def Let_def orch_new_def
      backend_new_def sorted_env_def)

theorem retrieved_work_is_owned_witness:
  "let (r, w') = get_invocations_to_run ex_service (sorted_env 1) 1 ''r'' [DEFAULT_QUEUE] (\<lambda>_. None) ex_queued
   in r = Inr [''i''] \<and> (\<exists>x. abs_record ''i'' w' = Some x \<and> sr_runner x = Some ''r'')"
proof -
  have "fst (get_invocations_to_run ex_service (sorted_env 1) 1 ''r'' [DEFAULT_QUEUE] (\<lambda>_. None) ex_queued)
      = Inr [''i'']"
    by (simp add: get_invocations_to_run_def get_blocking_invocations_def numeral_eq_Suc run_queued_def
        retrieve_invocation_from_queue_def validate_routing_zero default_queue_ok pop_best_def task_eligible_def
        is_due_def get_invocation_status_def is_available_for_run_iff check_cc_for_invocation_def
        try_transition_to_pending_def get_invocation_def ex_queued_simps service_eval ignore_error_def
        machine_defs)
  then show ?thesis
    using retrieved_work_is_owned [of ex_service "sorted_env 1" 1 "''r''" "[DEFAULT_QUEUE]" "\<lambda>_. None" ex_queued "[''i'']"]
    by (auto split: prod.splits)
qed

end
