(* ===== verification/Publication_Props.thy ===== *)
theory Publication_Props
  imports Service_Outcomes
begin

text \<open>
  Publishing a claimed trigger run through crashes, \<^verbatim>\<open>orchestration/triggers.rs\<close>: each write is followed
  by a boundary at which the process may stop, and a later publication of the same run picks up.
\<close>

section \<open>One publication\<close>

text \<open>An invocation that is at most registered and has at most the entry of its registration.\<close>

definition published_part :: "str \<Rightarrow> world \<Rightarrow> bool" where
  "published_part i w \<longleftrightarrow>
     (case abs_record i w of
        None \<Rightarrow> get_history i (w_state w) = []
      | Some r \<Rightarrow> sr_status r = Registered \<and>
          (get_history i (w_state w) = [] \<or>
           (\<exists>h. get_history i (w_state w) = [h] \<and> sr_status (h_status_record h) = Registered)))"

definition published :: "str \<Rightarrow> task_id \<Rightarrow> world \<Rightarrow> bool" where
  "published i t w \<longleftrightarrow>
     map_option sr_status (abs_record i w) = Some Registered \<and>
     (\<exists>h. get_history i (w_state w) = [h] \<and> sr_status (h_status_record h) = Registered) \<and>
     (\<exists>d. get_invocation i (w_state w) = Inr d \<and> inv_task_id d = t) \<and> i \<in># queued_ids (w_broker w)"

text \<open>The writes after the registration, as the code sequences them.\<close>

definition publish_rest ::
    "(str \<Rightarrow> bool) \<Rightarrow> invocation_dto \<Rightarrow> call_dto \<Rightarrow> task_id \<Rightarrow> str \<Rightarrow> str \<Rightarrow> str \<times> f64 \<Rightarrow> world \<Rightarrow> unit result \<times> world" where
  "publish_rest armed dto call t i runner route w =
     and_then (lift_state (upsert_invocation dto call) w) (\<lambda>_ w.
     and_then (boundary armed ''trigger.fallback.stored'' w) (\<lambda>_ w.
     and_then (if list_ex (\<lambda>h. sr_status (h_status_record h) = Registered) (get_history i (w_state w))
               then (Inr (), w)
               else and_then (get_invocation_status i (w_control w), w) (\<lambda>record w. record_history i record runner w)) (\<lambda>_ w.
     and_then (boundary armed ''trigger.fallback.history'' w) (\<lambda>_ w.
     and_then (lift_broker (route_invocation_with_options i (Some t) (fst route) (snd route)) w) (\<lambda>_ w.
       boundary armed ''trigger.fallback.routed'' w)))))"

lemma publish_unfold:
  "publish_trigger_run sv e armed run i runner route w =
     (let call = call_dto_new (sha256 (sv_libs sv)) (json_str (sv_libs sv)) (tr_task_id run)
                   (json_value_to_serialized_args (sv_libs sv) (tr_arguments run));
          dto = invocation_dto_new (now e) i (tr_task_id run) (cd_call_id call)
      in case abs_record i w of
           Some record \<Rightarrow>
             (if sr_status record \<noteq> Registered then (Inr (), w)
              else publish_rest armed dto call (tr_task_id run) i runner route w)
         | None \<Rightarrow>
             and_then (boundary armed ''trigger.fallback.registered''
                         (w\<lparr>w_control := snd (register_invocation_with_id e i call (Some runner) (w_control w))\<rparr>))
               (\<lambda>_ w. publish_rest armed dto call (tr_task_id run) i runner route w))"
proof (cases "abs_record i w")
  case None
  then have "get_invocation_status i (w_control w) = Inl (InvocationNotFound i)"
    by (simp add: abs_record_def get_invocation_status_def)
  moreover have "lift_control (register_invocation_with_id e i call (Some runner)) w =
      (Inr (status_record_new (now e) Registered (Some runner)),
       w\<lparr>w_control := snd (register_invocation_with_id e i call (Some runner) (w_control w))\<rparr>)" for call
    by (simp add: lift_control_def register_invocation_with_id_def Let_def)
  ultimately show ?thesis
    using None by (simp add: publish_trigger_run_def publish_rest_def [abs_def] Let_def)
next
  case (Some r)
  then have "get_invocation_status i (w_control w) = Inr r" by (simp add: abs_record_def get_invocation_status_def)
  then show ?thesis using Some by (simp add: publish_trigger_run_def publish_rest_def Let_def)
qed

lemma publish_rest_spec:
  assumes "abs_record i w = Some r" "sr_status r = Registered" "published_part i w" "inv_id dto = i"
    and "inv_task_id dto = t" "validate_routing q p = Inr ()"
    and "publish_rest armed dto call t i runner (q, p) w = (x, w')"
  shows "published_part i w' \<and> (armed = (\<lambda>_. False) \<longrightarrow> x = Inr () \<and> published i t w')"
proof -
  define w1 where "w1 = w\<lparr>w_state := snd (upsert_invocation dto call (w_state w))\<rparr>"
  have up: "lift_state (upsert_invocation dto call) w = (Inr (), w1)"
    by (simp add: lift_state_def upsert_invocation_def Let_def w1_def)
  have w1: "abs_record i w1 = Some r" "get_history i (w_state w1) = get_history i (w_state w)"
    "\<exists>d. get_invocation i (w_state w1) = Inr d \<and> inv_task_id d = t" "w_broker w1 = w_broker w"
    using assms(1,4,5) by (simp_all add: w1_def abs_record_def get_history_def get_invocation_def upsert_invocation_def Let_def)
  define w2 where "w2 = (if get_history i (w_state w) = [] then snd (record_history i r runner w1) else w1)"
  have h: "(if list_ex (\<lambda>h. sr_status (h_status_record h) = Registered) (get_history i (w_state w1)) then (Inr (), w1)
      else and_then (get_invocation_status i (w_control w1), w1) (\<lambda>record w. record_history i record runner w)) = (Inr (), w2)"
    using assms(1-3) w1 unfolding w2_def published_part_def
    by (auto simp: get_invocation_status_def abs_record_def record_history_def lift_state_def add_history_def)
  have w2: "abs_record i w2 = Some r" "w_broker w2 = w_broker w"
    "\<exists>h. get_history i (w_state w2) = [h] \<and> sr_status (h_status_record h) = Registered"
    "\<exists>d. get_invocation i (w_state w2) = Inr d \<and> inv_task_id d = t"
    using assms(1-3) w1 unfolding w2_def published_part_def
    by (auto simp: abs_record_def record_history_def lift_state_def add_history_def get_history_def
        with_runner_def history_new_def ml_get_push get_invocation_def)
  obtain w3 where w3: "lift_broker (route_invocation_with_options i (Some t) q p) w2 = (Inr (), w3)"
    using assms(6) by (simp add: lift_broker_def route_invocation_with_options_def)
  note r3 = route_adds [OF w3]
  have "(x, w') \<in> {(Inl (Infrastructure Query), w1), (Inl (Infrastructure Query), w2), (Inl (Infrastructure Query), w3),
      (Inr (), w3)} \<and> (armed = (\<lambda>_. False) \<longrightarrow> x = Inr () \<and> w' = w3)"
    using assms(7) up h w3
    by (auto simp: publish_rest_def boundary_def split: if_splits)
  then show ?thesis
    using w1 w2 r3 assms(2,3) by (auto simp: published_part_def published_def abs_record_def split: option.splits)
qed

lemma publish_step:
  assumes "published_part i w" "validate_routing q p = Inr ()"
    and "publish_trigger_run sv e armed run i runner (q, p) w = (x, w')"
  shows "published_part i w' \<and> (armed = (\<lambda>_. False) \<longrightarrow> x = Inr () \<and> published i (tr_task_id run) w')"
proof -
  let ?call = "call_dto_new (sha256 (sv_libs sv)) (json_str (sv_libs sv)) (tr_task_id run)
                 (json_value_to_serialized_args (sv_libs sv) (tr_arguments run))"
  let ?dto = "invocation_dto_new (now e) i (tr_task_id run) (cd_call_id ?call)"
  have dto: "inv_id ?dto = i" "inv_task_id ?dto = tr_task_id run" by (simp_all add: invocation_dto_new_def)
  show ?thesis
  proof (cases "abs_record i w")
    case (Some r)
    then have "sr_status r = Registered" using assms(1) by (simp add: published_part_def)
    with Some show ?thesis
      using publish_rest_spec [OF Some _ assms(1) dto assms(2), of armed ?call runner x w'] assms(3)
      by (simp add: publish_unfold Let_def)
  next
    case None
    let ?w1 = "w\<lparr>w_control := snd (register_invocation_with_id e i ?call (Some runner) (w_control w))\<rparr>"
    have w1: "abs_record i ?w1 = Some (status_record_new (now e) Registered (Some runner))" "published_part i ?w1"
      using assms(1) None
      by (simp_all add: abs_record_def published_part_def register_invocation_with_id_def Let_def status_record_new_def)
    show ?thesis
    proof (cases "armed ''trigger.fallback.registered''")
      case True
      then show ?thesis using assms(3) None w1(2) by (auto simp: publish_unfold Let_def boundary_def)
    next
      case False
      then have "publish_rest armed ?dto ?call (tr_task_id run) i runner (q, p) ?w1 = (x, w')"
        using assms(3) None by (simp add: publish_unfold Let_def boundary_def)
      then show ?thesis
        using publish_rest_spec [OF w1(1) _ w1(2) dto assms(2)] by (simp add: status_record_new_def)
    qed
  qed
qed

section \<open>Properties\<close>

text \<open>Publications of one run, each stopped at the boundaries armed for it.\<close>

fun publications ::
    "service \<Rightarrow> trigger_run_record \<Rightarrow> str \<Rightarrow> str \<Rightarrow> str \<times> f64 \<Rightarrow> (env \<times> (str \<Rightarrow> bool)) list \<Rightarrow> world \<Rightarrow> world" where
  "publications sv run i runner route [] w = w"
| "publications sv run i runner route ((e, armed) # rest) w =
     publications sv run i runner route rest (snd (publish_trigger_run sv e armed run i runner route w))"

lemma publications_part:
  "published_part i w \<Longrightarrow> validate_routing q p = Inr () \<Longrightarrow>
     published_part i (publications sv run i runner (q, p) crashes w)"
proof (induction crashes arbitrary: w)
  case (Cons c cs)
  obtain e armed where c: "c = (e, armed)" by force
  obtain x w1 where x: "publish_trigger_run sv e armed run i runner (q, p) w = (x, w1)" by force
  have "published_part i w1" using publish_step [OF Cons.prems x] by simp
  then show ?case using Cons.IH Cons.prems(2) c x by simp
qed simp

text \<open>C10. A publication survives crashes: after any number of publications of a claimed run that stopped
  at any boundaries, one that goes through leaves the invocation registered exactly once (one record,
  one history entry), stored for its task, and queued.\<close>

theorem publication_survives_crashes:
  assumes "abs_record i w = None" "get_history i (w_state w) = []" "validate_routing q p = Inr ()"
    and "publish_trigger_run sv e (\<lambda>_. False) run i runner (q, p)
           (publications sv run i runner (q, p) crashes w) = (x, w')"
  shows "x = Inr () \<and> published i (tr_task_id run) w'"
proof -
  have "published_part i w" using assms(1,2) by (simp add: published_part_def)
  from publish_step [OF publications_part [OF this assms(3)] assms(3,4)] show ?thesis by simp
qed

definition ex_run_record :: trigger_run_record where
  "ex_run_record = fst (planned_run ex_libs (sorted_env 0) ''run'' ex_trigger [ex_valid])"

theorem publication_survives_crashes_witness:
  "published ''j'' (tr_task_id ex_run_record)
     (snd (publish_trigger_run ex_service (sorted_env 2) (\<lambda>_. False) ex_run_record ''j'' ''r'' (DEFAULT_QUEUE, 0)
       (publications ex_service ex_run_record ''j'' ''r'' (DEFAULT_QUEUE, 0)
          [(sorted_env 1, (\<lambda>n. n = ''trigger.fallback.stored''))] new_world)))"
proof -
  have v: "validate_routing DEFAULT_QUEUE 0 = Inr ()" by (simp add: validate_routing_zero default_queue_ok)
  have n: "abs_record ''j'' new_world = None" "get_history ''j'' (w_state new_world) = []"
    by (simp_all add: abs_record_def new_world_def orch_new_def get_history_def backend_new_def ml_get_empty)
  show ?thesis
    using publication_survives_crashes [OF n v prod.collapse [symmetric]] by blast
qed

end
