(* ===== verification/Workflow_Root.thy ===== *)
theory Workflow_Root
  imports Mem_State Triggers
begin

text \<open>
  Deterministic replay of workflows, \<^verbatim>\<open>rustvello-core/src/workflow.rs\<close>, over the in-memory state
  backend. A workflow root draws random numbers, timestamps and UUIDs through an executor that stores the
  first value of each operation and number in the workflow data and reads it back on replay. Parameters:
  SHA-256, the printing and parsing of floats and RFC 3339 times, the text of a UUID, and the \<^verbatim>\<open>f64\<close>
  division of a seed by \<^verbatim>\<open>u64::MAX\<close> (as the text it is stored as).
\<close>

section \<open>The executor\<close>

record wf_libs =
  wl_libs :: libs
  wl_random_text :: "u64 \<Rightarrow> str"
  wl_parse_f64 :: "str \<Rightarrow> f64 option"
  wl_parse_time :: "str \<Rightarrow> time option"
  wl_uuid_text :: "8 word list \<Rightarrow> str"

record executor =
  dx_workflow_id :: str
  dx_counters :: "str \<rightharpoonup> u64"

definition executor_new :: "str \<Rightarrow> executor" where
  "executor_new w = \<lparr>dx_workflow_id = w, dx_counters = Map.empty\<rparr>"

definition get_operation_count :: "str \<Rightarrow> executor \<Rightarrow> u64" where
  "get_operation_count op x = or_else (dx_counters x op) 0"

definition get_next_sequence :: "str \<Rightarrow> executor \<Rightarrow> u64 \<times> executor" where
  "get_next_sequence op x =
     (let n = get_operation_count op x + 1 in (n, x\<lparr>dx_counters := (dx_counters x)(op \<mapsto> n)\<rparr>))"

definition show_u64 :: "u64 \<Rightarrow> str" where
  "show_u64 n = show_nat (unat n)"

definition operation_key :: "str \<Rightarrow> u64 \<Rightarrow> str" where
  "operation_key op n = op @ '':'' @ show_u64 n"

definition counter_key :: "str \<Rightarrow> str" where
  "counter_key op = ''counter:'' @ op"

definition deterministic_operation ::
    "str \<Rightarrow> (unit \<Rightarrow> str) \<Rightarrow> executor \<Rightarrow> backend_state \<Rightarrow> str \<times> executor \<times> backend_state" where
  "deterministic_operation op generator x s =
     (let (sequence, x) = get_next_sequence op x;
          w = dx_workflow_id x;
          key = operation_key op sequence
      in case get_workflow_data w key s of
           Some value \<Rightarrow> (value, x, s)
         | None \<Rightarrow>
             (let value = generator ();
                  s = snd (set_workflow_data w key value s);
                  total = (case get_workflow_data w (counter_key op) s of
                             None \<Rightarrow> 0
                           | Some t \<Rightarrow> (case parse_unsigned 64 t of None \<Rightarrow> 0 | Some n \<Rightarrow> of_nat n));
                  s = snd (set_workflow_data w (counter_key op) (show_u64 (max total sequence)) s)
              in (value, x, s)))"

definition BASE_TIME_KEY :: str where
  "BASE_TIME_KEY = ''workflow:base_time''"

definition get_base_time :: "wf_libs \<Rightarrow> env \<Rightarrow> executor \<Rightarrow> backend_state \<Rightarrow> time \<times> backend_state" where
  "get_base_time l e x s =
     (case get_workflow_data (dx_workflow_id x) BASE_TIME_KEY s of
        Some stored \<Rightarrow> (or_else (wl_parse_time l stored) (now e), s)
      | None \<Rightarrow>
          (now e, snd (set_workflow_data (dx_workflow_id x) BASE_TIME_KEY (to_rfc3339 (wl_libs l) (now e)) s)))"

section \<open>The three operations\<close>

text \<open>\<^verbatim>\<open>u64::from_le_bytes\<close> of the first eight bytes, and the version and variant bits of a UUID.\<close>

fun from_le_bytes :: "8 word list \<Rightarrow> nat" where
  "from_le_bytes [] = 0"
| "from_le_bytes (b # bs) = unat b + 256 * from_le_bytes bs"

definition byte_of :: "char \<Rightarrow> 8 word" where
  "byte_of c = of_nat (of_char c)"

definition random_generator :: "wf_libs \<Rightarrow> str \<Rightarrow> u64 \<Rightarrow> str" where
  "random_generator l w seq =
     (let hash = map byte_of (sha256 (wl_libs l) (w @ '':random:'' @ show_u64 seq))
      in wl_random_text l (of_nat (from_le_bytes (take 8 hash))))"

definition uuid_generator :: "wf_libs \<Rightarrow> str \<Rightarrow> u64 \<Rightarrow> str" where
  "uuid_generator l w seq =
     (let bytes = take 16 (map byte_of (sha256 (wl_libs l) (w @ '':uuid:'' @ show_u64 seq)));
          bytes = bytes[6 := or (and (bytes ! 6) 0x0f) 0x40];
          bytes = bytes[8 := or (and (bytes ! 8) 0x3f) 0x80]
      in wl_uuid_text l bytes)"

definition wf_random :: "wf_libs \<Rightarrow> executor \<Rightarrow> backend_state \<Rightarrow> f64 \<times> executor \<times> backend_state" where
  "wf_random l x s =
     (let seq = get_operation_count ''random'' x + 1;
          (v, x', s') = deterministic_operation ''random'' (\<lambda>_. random_generator l (dx_workflow_id x) seq) x s
      in (or_else (wl_parse_f64 l v) 0, x', s'))"

definition wf_utc_now :: "wf_libs \<Rightarrow> env \<Rightarrow> executor \<Rightarrow> backend_state \<Rightarrow> time \<times> executor \<times> backend_state" where
  "wf_utc_now l e x s =
     (let (base_time, s) = get_base_time l e x s;
          seq = get_operation_count ''time'' x + 1;
          (v, x', s') = deterministic_operation ''time''
             (\<lambda>_. to_rfc3339 (wl_libs l) (base_time + sint seq * ns_per_sec)) x s
      in (or_else (wl_parse_time l v) (now e), x', s'))"

definition wf_uuid :: "wf_libs \<Rightarrow> executor \<Rightarrow> backend_state \<Rightarrow> str \<times> executor \<times> backend_state" where
  "wf_uuid l x s =
     (let seq = get_operation_count ''uuid'' x + 1
      in deterministic_operation ''uuid'' (\<lambda>_. uuid_generator l (dx_workflow_id x) seq) x s)"

section \<open>The root handle\<close>

record invocation_context =
  ic_invocation_id :: str
  ic_task_id :: task_id
  ic_workflow :: "workflow_identity option"
  ic_is_workflow_defining :: bool
  ic_has_backend :: bool
  ic_parent :: "str option"
  ic_num_retries :: u32
  ic_trace_context :: trace_context

definition workflow_root_current :: "invocation_context option \<Rightarrow> executor result" where
  "workflow_root_current ctx =
     (case ctx of
        None \<Rightarrow> Inl WorkflowContextUnavailable
      | Some c \<Rightarrow>
          (case ic_workflow c of
             None \<Rightarrow> Inl (WorkflowMembershipRequired (ic_invocation_id c))
           | Some wid \<Rightarrow>
               (if \<not> ic_is_workflow_defining c \<or> workflow_id wid \<noteq> ic_invocation_id c
                then Inl (WorkflowRootRequired (ic_invocation_id c) (workflow_id wid))
                else if \<not> ic_has_backend c then Inl WorkflowContextUnavailable
                else Inr (executor_new (workflow_id wid)))))"

section \<open>Programs of operations\<close>

datatype wf_op = WfRandom | WfNow | WfUuid

datatype wf_value = VRandom f64 | VTime time | VUuid str

fun wf_exec :: "wf_libs \<Rightarrow> env \<Rightarrow> wf_op \<Rightarrow> executor \<Rightarrow> backend_state \<Rightarrow> wf_value \<times> executor \<times> backend_state" where
  "wf_exec l e WfRandom x s = apfst VRandom (wf_random l x s)"
| "wf_exec l e WfNow x s = apfst VTime (wf_utc_now l e x s)"
| "wf_exec l e WfUuid x s = apfst VUuid (wf_uuid l x s)"

section \<open>Runs among other activity\<close>

text \<open>
  The keys that replay reads. The identity of an execution (\<^verbatim>\<open>rustvello.execution.identity.v1\<close>) lives in the same data under a
  key that is none of them, and so do the totals (\<^verbatim>\<open>counter:\<close>).
\<close>

definition replay_key :: "str \<Rightarrow> bool" where
  "replay_key k \<longleftrightarrow> k = BASE_TIME_KEY \<or> take 7 k = ''random:'' \<or> take 5 k = ''time:'' \<or> take 5 k = ''uuid:''"

text \<open>What an operation can leave when its process stops between two of its writes.\<close>

definition operation_stopped :: "str \<Rightarrow> (unit \<Rightarrow> str) \<Rightarrow> executor \<Rightarrow> backend_state \<Rightarrow> backend_state" where
  "operation_stopped op generator x s =
     (let key = operation_key op (get_operation_count op x + 1)
      in case get_workflow_data (dx_workflow_id x) key s of
           Some _ \<Rightarrow> s
         | None \<Rightarrow> snd (set_workflow_data (dx_workflow_id x) key (generator ()) s))"

fun wf_stopped :: "wf_libs \<Rightarrow> env \<Rightarrow> wf_op \<Rightarrow> executor \<Rightarrow> backend_state \<Rightarrow> backend_state list" where
  "wf_stopped l e WfRandom x s =
     [s, operation_stopped ''random'' (\<lambda>_. random_generator l (dx_workflow_id x) (get_operation_count ''random'' x + 1)) x s]"
| "wf_stopped l e WfNow x s =
     (let (base_time, s1) = get_base_time l e x s
      in [s, s1, operation_stopped ''time''
            (\<lambda>_. to_rfc3339 (wl_libs l) (base_time + sint (get_operation_count ''time'' x + 1) * ns_per_sec)) x s1])"
| "wf_stopped l e WfUuid x s =
     [s, operation_stopped ''uuid'' (\<lambda>_. uuid_generator l (dx_workflow_id x) (get_operation_count ''uuid'' x + 1)) x s]"

text \<open>
  What happens to the backend around the operations of a run: any write of any component that is not to a replay key of this
  workflow (among them the identity of each execution), an operation of another run of the workflow, and one that stopped
  after any of its writes. A purge of the backend is excluded.
\<close>

inductive wf_around :: "wf_libs \<Rightarrow> str \<Rightarrow> backend_state \<Rightarrow> backend_state \<Rightarrow> bool" for l w where
  store: "sop \<noteq> PurgeState \<Longrightarrow> (\<And>k v. sop = SetWorkflowData w k v \<Longrightarrow> \<not> replay_key k) \<Longrightarrow> wf_around l w s (state_exec sop s)"
| executed: "dx_workflow_id x = w \<Longrightarrow> wf_exec l e op x s = (v, x', s') \<Longrightarrow> wf_around l w s s'"
| stopped: "dx_workflow_id x = w \<Longrightarrow> s' \<in> set (wf_stopped l e op x s) \<Longrightarrow> wf_around l w s s'"

text \<open>A run: its operations, each a whole, with other activity before each of them.\<close>

inductive wf_session ::
    "wf_libs \<Rightarrow> executor \<Rightarrow> backend_state \<Rightarrow> wf_op list \<Rightarrow> wf_value list \<Rightarrow> executor \<Rightarrow> backend_state \<Rightarrow> bool" for l where
  ended: "wf_session l x s [] [] x s"
| operation: "(wf_around l (dx_workflow_id x))\<^sup>*\<^sup>* s s0 \<Longrightarrow> wf_exec l e op x s0 = (v, x1, s1) \<Longrightarrow> wf_session l x1 s1 ops vs x2 s2 \<Longrightarrow>
    wf_session l x s (op # ops) (v # vs) x2 s2"

inductive_cases wf_session_NilE: "wf_session l x s [] vs x' s'"
inductive_cases wf_session_ConsE: "wf_session l x s (op # ops) vs x' s'"

section \<open>Stored values stay\<close>

text \<open>Replay keys are written once.\<close>

definition persists :: "str \<Rightarrow> backend_state \<Rightarrow> backend_state \<Rightarrow> bool" where
  "persists w s s' \<longleftrightarrow>
     (\<forall>k v. replay_key k \<longrightarrow> get_workflow_data w k s = Some v \<longrightarrow> get_workflow_data w k s' = Some v)"

lemma persists_refl [simp]: "persists w s s"
  by (simp add: persists_def)

lemma persists_trans: "persists w s s' \<Longrightarrow> persists w s' s'' \<Longrightarrow> persists w s s''"
  by (simp add: persists_def)

lemma get_set_workflow_data:
  "get_workflow_data w k (snd (set_workflow_data w' k' v s)) =
     (if w = w' \<and> k = k' then Some v else get_workflow_data w k s)"
  by (auto simp: get_workflow_data_def set_workflow_data_def or_else_def split: option.split)

lemma persists_new: "get_workflow_data w k s = None \<Longrightarrow> persists w s (snd (set_workflow_data w k v s))"
  by (auto simp: persists_def get_set_workflow_data)

lemma persists_counter: "persists w s (snd (set_workflow_data w (counter_key op) v s))"
  by (auto simp: persists_def get_set_workflow_data counter_key_def replay_key_def BASE_TIME_KEY_def)

lemma replay_operation_key: "op \<in> {''random'', ''time'', ''uuid''} \<Longrightarrow> replay_key (operation_key op n)"
  by (auto simp: replay_key_def operation_key_def)

lemma operation_spec:
  assumes "deterministic_operation op g x s = (v, x', s')" "op \<in> {''random'', ''time'', ''uuid''}"
  defines "key \<equiv> operation_key op (get_operation_count op x + 1)"
  shows "x' = snd (get_next_sequence op x)" "persists (dx_workflow_id x) s s'"
    "get_workflow_data (dx_workflow_id x) key s' = Some v"
    "v = or_else (get_workflow_data (dx_workflow_id x) key s) (g ())"
proof -
  have ne: "key \<noteq> counter_key op"
    using assms(2) by (auto simp: key_def operation_key_def counter_key_def)
  show "x' = snd (get_next_sequence op x)" "persists (dx_workflow_id x) s s'"
    "get_workflow_data (dx_workflow_id x) key s' = Some v"
    "v = or_else (get_workflow_data (dx_workflow_id x) key s) (g ())"
    using assms(1) ne
    by (auto simp: deterministic_operation_def get_next_sequence_def Let_def key_def [symmetric]
        get_set_workflow_data split: option.splits
        intro: persists_trans [OF persists_new persists_counter])
qed

text \<open>What replay needs of the library: times parse back from what they print to.\<close>

definition times_round_trip :: "wf_libs \<Rightarrow> bool" where
  "times_round_trip l \<longleftrightarrow> (\<forall>t. wl_parse_time l (to_rfc3339 (wl_libs l) t) = Some t)"

text \<open>The stored form of a value, as its operation reads it back.\<close>

fun op_name :: "wf_op \<Rightarrow> str" where
  "op_name WfRandom = ''random''"
| "op_name WfNow = ''time''"
| "op_name WfUuid = ''uuid''"

fun reads_as :: "wf_libs \<Rightarrow> wf_op \<Rightarrow> str \<Rightarrow> wf_value \<Rightarrow> bool" where
  "reads_as l WfRandom v r \<longleftrightarrow> r = VRandom (or_else (wl_parse_f64 l v) 0)"
| "reads_as l WfNow v r \<longleftrightarrow> (\<exists>t. wl_parse_time l v = Some t \<and> r = VTime t)"
| "reads_as l WfUuid v r \<longleftrightarrow> r = VUuid v"

lemma base_time_persists: "get_base_time l e x s = (t, s') \<Longrightarrow> persists (dx_workflow_id x) s s'"
  by (auto simp: get_base_time_def split: option.splits intro: persists_new)

definition times_ok :: "wf_libs \<Rightarrow> str \<Rightarrow> backend_state \<Rightarrow> bool" where
  "times_ok l w s \<longleftrightarrow>
     (\<forall>k v. take 5 k = ''time:'' \<longrightarrow> get_workflow_data w k s = Some v \<longrightarrow> wl_parse_time l v \<noteq> None)"

lemma times_ok_set:
  "times_ok l w s \<Longrightarrow> w' \<noteq> w \<or> take 5 k \<noteq> ''time:'' \<or> wl_parse_time l v \<noteq> None \<Longrightarrow>
     times_ok l w (snd (set_workflow_data w' k v s))"
  by (auto simp: times_ok_def get_set_workflow_data)

lemma times_ok_base: "times_ok l (dx_workflow_id x) s \<Longrightarrow> get_base_time l e x s = (t, s') \<Longrightarrow> times_ok l (dx_workflow_id x) s'"
  by (auto simp: get_base_time_def BASE_TIME_KEY_def split: option.splits intro: times_ok_set)

lemma times_ok_operation:
  assumes "times_ok l (dx_workflow_id x) s" "deterministic_operation op g x s = (v, x', s')"
    and "op \<noteq> ''time'' \<or> wl_parse_time l (g ()) \<noteq> None" "op \<in> {''random'', ''time'', ''uuid''}"
  shows "times_ok l (dx_workflow_id x) s'"
proof -
  have c: "times_ok l w s \<Longrightarrow> times_ok l w (snd (set_workflow_data w (counter_key op) v s))" for w v s
    by (rule times_ok_set) (simp_all add: counter_key_def)
  have o: "times_ok l w s \<Longrightarrow> times_ok l w (snd (set_workflow_data w (operation_key op n) (g ()) s))" for w s n
    using assms(3,4) by (intro times_ok_set) (auto simp: operation_key_def)
  show ?thesis
    using assms(1,2) by (auto simp: deterministic_operation_def get_next_sequence_def Let_def split: option.splits intro!: c o)
qed

lemma exec_spec:
  assumes "wf_exec l e op x s = (r, x', s')" "times_round_trip l" "times_ok l (dx_workflow_id x) s"
  shows "x' = snd (get_next_sequence (op_name op) x) \<and> persists (dx_workflow_id x) s s' \<and>
         times_ok l (dx_workflow_id x) s' \<and>
         (\<exists>v. get_workflow_data (dx_workflow_id x) (operation_key (op_name op) (get_operation_count (op_name op) x + 1)) s'
            = Some v \<and> reads_as l op v r)"
proof (cases op)
  case WfRandom
  obtain v x1 s1 where d: "deterministic_operation ''random''
      (\<lambda>_. random_generator l (dx_workflow_id x) (get_operation_count ''random'' x + 1)) x s = (v, x1, s1)"
    by (metis prod_cases3)
  then show ?thesis
    using assms WfRandom operation_spec [OF d] times_ok_operation [OF assms(3) d]
    by (auto simp: wf_random_def Let_def)
next
  case WfUuid
  obtain v x1 s1 where d: "deterministic_operation ''uuid''
      (\<lambda>_. uuid_generator l (dx_workflow_id x) (get_operation_count ''uuid'' x + 1)) x s = (v, x1, s1)"
    by (metis prod_cases3)
  then show ?thesis
    using assms WfUuid operation_spec [OF d] times_ok_operation [OF assms(3) d]
    by (auto simp: wf_uuid_def Let_def)
next
  case WfNow
  obtain t s1 where b: "get_base_time l e x s = (t, s1)" by force
  obtain v x2 s2 where d: "deterministic_operation ''time''
      (\<lambda>_. to_rfc3339 (wl_libs l) (t + sint (get_operation_count ''time'' x + 1) * ns_per_sec)) x s1 = (v, x2, s2)"
    by (metis prod_cases3)
  have ok: "times_ok l (dx_workflow_id x) s2"
    using times_ok_operation [OF times_ok_base [OF assms(3) b] d] assms(2) by (simp add: times_round_trip_def)
  have key: "get_workflow_data (dx_workflow_id x) (operation_key ''time'' (get_operation_count ''time'' x + 1)) s2 = Some v"
    using operation_spec(3) [OF d] by simp
  have "take 5 (operation_key ''time'' (get_operation_count ''time'' x + 1)) = ''time:''" by (simp add: operation_key_def)
  then have "wl_parse_time l v \<noteq> None" using ok key unfolding times_ok_def by blast
  moreover have "r = VTime (or_else (wl_parse_time l v) (now e))" "x' = x2" "s' = s2"
    using assms(1) WfNow b d by (auto simp: wf_utc_now_def Let_def)
  ultimately show ?thesis
    using WfNow ok key operation_spec(1,2) [OF d] persists_trans [OF base_time_persists [OF b]] by auto
qed

lemma exec_id: "wf_exec l e op x s = (v, x', s') \<Longrightarrow> dx_workflow_id x' = dx_workflow_id x"
  by (cases op) (auto simp: wf_random_def wf_utc_now_def wf_uuid_def deterministic_operation_def get_next_sequence_def Let_def
      split: prod.splits option.splits)

lemma reads_as_unique: "reads_as l op v r \<Longrightarrow> reads_as l op v r' \<Longrightarrow> r = r'"
  by (cases op) auto

lemma executor_id [simp]: "dx_workflow_id (snd (get_next_sequence op x)) = dx_workflow_id x"
  by (simp add: get_next_sequence_def Let_def)

text \<open>What a run and everything around it keeps.\<close>

definition wf_keeps :: "wf_libs \<Rightarrow> str \<Rightarrow> backend_state \<Rightarrow> backend_state \<Rightarrow> bool" where
  "wf_keeps l w s s' \<longleftrightarrow> times_ok l w s \<longrightarrow> persists w s s' \<and> times_ok l w s'"

lemma wf_keeps_trans: "wf_keeps l w s s' \<Longrightarrow> wf_keeps l w s' s'' \<Longrightarrow> wf_keeps l w s s''"
  by (auto simp: wf_keeps_def intro: persists_trans)

lemma exec_keeps: "wf_exec l e op x s = (v, x', s') \<Longrightarrow> times_round_trip l \<Longrightarrow> wf_keeps l (dx_workflow_id x) s s'"
  using exec_spec by (simp add: wf_keeps_def)

lemma operation_stopped_keeps:
  assumes "op \<in> {''random'', ''time'', ''uuid''}" "op \<noteq> ''time'' \<or> wl_parse_time l (g ()) \<noteq> None"
  shows "wf_keeps l (dx_workflow_id x) s (operation_stopped op g x s)"
proof -
  let ?k = "operation_key op (get_operation_count op x + 1)"
  have "take 5 ?k \<noteq> ''time:'' \<or> wl_parse_time l (g ()) \<noteq> None" using assms by (auto simp: operation_key_def)
  then show ?thesis
    by (auto simp: wf_keeps_def operation_stopped_def Let_def split: option.split intro: persists_new times_ok_set)
qed

lemma stopped_keeps:
  assumes "s' \<in> set (wf_stopped l e op x s)" "times_round_trip l"
  shows "wf_keeps l (dx_workflow_id x) s s'"
proof -
  have refl: "wf_keeps l w s s" for w s by (simp add: wf_keeps_def)
  obtain t s1 where b: "get_base_time l e x s = (t, s1)" by force
  have base: "wf_keeps l (dx_workflow_id x) s s1"
    using base_time_persists [OF b] times_ok_base [OF _ b] by (simp add: wf_keeps_def)
  show ?thesis
    using assms b base refl
    by (cases op) (auto simp: times_round_trip_def intro: operation_stopped_keeps wf_keeps_trans [OF base])
qed

lemma store_keeps:
  assumes "sop \<noteq> PurgeState" "\<And>k v. sop = SetWorkflowData w k v \<Longrightarrow> \<not> replay_key k"
  shows "wf_keeps l w s (state_exec sop s)"
proof (cases "\<exists>w' k v. sop = SetWorkflowData w' k v")
  case True
  then obtain w' k v where sop: "sop = SetWorkflowData w' k v" by blast
  have "w' \<noteq> w \<or> \<not> replay_key k" using assms(2) sop by blast
  then show ?thesis
    using sop by (auto simp: wf_keeps_def persists_def get_set_workflow_data replay_key_def intro: times_ok_set)
next
  case False
  then have "get_workflow_data w k (state_exec sop s) = get_workflow_data w k s" for k
    using assms(1) by (cases sop) (auto simp: get_workflow_data_def upsert_invocation_def store_result_def store_error_def add_history_def
        store_workflow_run_def store_app_info_def store_workflow_sub_invocation_def store_runner_context_def Let_def)
  then show ?thesis by (simp add: wf_keeps_def persists_def times_ok_def)
qed

lemma around_keeps:
  assumes "(wf_around l w)\<^sup>*\<^sup>* s s'" "times_round_trip l"
  shows "wf_keeps l w s s'"
  using assms(1)
proof (induction rule: rtranclp_induct)
  case (step s1 s2)
  from step.hyps(2) have "wf_keeps l w s1 s2"
    by cases (use assms(2) exec_keeps stopped_keeps store_keeps in blast)+
  then show ?case using step.IH wf_keeps_trans by blast
qed (simp add: wf_keeps_def)

lemma session_keeps:
  assumes "wf_session l x s ops vs x' s'" "times_round_trip l"
  shows "wf_keeps l (dx_workflow_id x) s s'"
  using assms
proof (induction rule: wf_session.induct)
  case (operation x s s0 e op v x1 s1 ops vs x2 s2)
  have "dx_workflow_id x1 = dx_workflow_id x" using operation.hyps(2) by (rule exec_id)
  then show ?case
    using operation wf_keeps_trans around_keeps exec_keeps by metis
qed (simp add: wf_keeps_def)

lemma replay:
  assumes "times_round_trip l" "times_ok l (dx_workflow_id x) s" "wf_session l x s ops vs x1 s1"
    and "persists (dx_workflow_id x) s1 s2" "times_ok l (dx_workflow_id x) s2"
    and "wf_session l x s2 (ops @ rest) vs' x2 s3"
  shows "take (length ops) vs' = vs"
  using assms
proof (induction ops arbitrary: x s s2 vs vs')
  case Nil
  then show ?case by (auto elim: wf_session_NilE)
next
  case (Cons op ops)
  obtain e r xa s0 sa vs1 where first: "(wf_around l (dx_workflow_id x))\<^sup>*\<^sup>* s s0" "wf_exec l e op x s0 = (r, xa, sa)"
    "wf_session l xa sa ops vs1 x1 s1" "vs = r # vs1"
    using Cons.prems(3) by (elim wf_session_ConsE)
  obtain e' r' xb s0' sb vs2 where again: "(wf_around l (dx_workflow_id x))\<^sup>*\<^sup>* s2 s0'" "wf_exec l e' op x s0' = (r', xb, sb)"
    "wf_session l xb sb (ops @ rest) vs2 x2 s3" "vs' = r' # vs2"
    using Cons.prems(6) by (auto elim: wf_session_ConsE)
  have ok: "times_ok l (dx_workflow_id x) s0" "times_ok l (dx_workflow_id x) s0'" "persists (dx_workflow_id x) s2 s0'"
    using around_keeps [OF first(1) Cons.prems(1)] around_keeps [OF again(1) Cons.prems(1)] Cons.prems(2,5) by (simp_all add: wf_keeps_def)
  note a = exec_spec [OF first(2) Cons.prems(1) ok(1)]
  note b = exec_spec [OF again(2) Cons.prems(1) ok(2)]
  have x: "xb = xa" "dx_workflow_id xa = dx_workflow_id x" using a b by auto
  have later: "persists (dx_workflow_id x) sa s1"
    using session_keeps [OF first(3) Cons.prems(1)] a x(2) by (simp add: wf_keeps_def)
  have "replay_key (operation_key (op_name op) n)" for n by (cases op) (simp_all add: replay_operation_key)
  then have "r' = r"
    using a b later Cons.prems(4) ok(3) reads_as_unique unfolding persists_def by (metis option.inject)
  moreover have "take (length ops) vs2 = vs1"
    using Cons.IH [OF Cons.prems(1) _ first(3) _ _ again(3) [unfolded x(1)]] a b x persists_trans Cons.prems(4) ok(3) by metis
  ultimately show ?case by (simp add: first(4) again(4))
qed

section \<open>Properties\<close>

text \<open>C31. Replay is deterministic: a run of a workflow, with an executor of its own, gets the same random numbers, timestamps and UUIDs
  as the operations an earlier run completed, whatever the clocks show, and then goes on. Before, between and during the runs,
  around whole operations, anything else may write to the backend except to the replay keys of this workflow: identities
  of executions, other workflows, and other runs of this one, stopped after any single write. No value of the workflow was
  stored before the first run, and the backend is not purged. Relied on: a printed time parses back.\<close>

theorem workflow_replay_deterministic:
  assumes "times_round_trip l" "\<forall>k. replay_key k \<longrightarrow> get_workflow_data w k s = None"
    and "wf_session l (executor_new w) s ops vs x1 s1" "(wf_around l w)\<^sup>*\<^sup>* s1 s2"
    and "wf_session l (executor_new w) s2 (ops @ rest) vs' x2 s3"
  shows "take (length ops) vs' = vs"
proof -
  have id: "dx_workflow_id (executor_new w) = w" by (simp add: executor_new_def)
  have ok: "times_ok l w s" using assms(2) by (simp add: times_ok_def replay_key_def)
  then have "times_ok l w s1" using session_keeps [OF assms(3,1)] by (simp add: wf_keeps_def id)
  then have "persists w s1 s2 \<and> times_ok l w s2" using around_keeps [OF assms(4,1)] by (simp add: wf_keeps_def)
  then show ?thesis using replay [OF assms(1) _ assms(3) _ _ assms(5)] ok id by simp
qed

text \<open>Times as unary numerals: a printer and a parser that invert each other.\<close>

definition ex_wf_libs :: wf_libs where
  "ex_wf_libs =
     \<lparr>wl_libs = \<lparr>sha256 = id, uuid_v5 = id, json_str = id, json_from_str = (\<lambda>_. None), json_to_string = (\<lambda>_. []),
        number_eq = (=), number_text = id,
        to_rfc3339 = (\<lambda>t. (if 0 \<le> t then CHR ''+'' else CHR ''-'') # replicate (nat \<bar>t\<bar>) CHR ''1''),
        cron_parse = (\<lambda>_. None)\<rparr>,
      wl_random_text = (\<lambda>_. []), wl_parse_f64 = (\<lambda>_. None),
      wl_parse_time = (\<lambda>v. Some (if hd v = CHR ''-'' then - int (length (tl v)) else int (length (tl v)))),
      wl_uuid_text = map (\<lambda>b. char_of (unat b))\<rparr>"

lemma ex_wf_libs_ok: "times_round_trip ex_wf_libs"
  by (simp add: times_round_trip_def ex_wf_libs_def)

text \<open>A run after the identity of its execution was stored, a second one that stopped after it had stored a random number, and the replay.\<close>

theorem workflow_replay_deterministic_witness:
  "let x = executor_new ''w'';
       s0 = state_exec (SetWorkflowData ''w'' ''rustvello.execution.identity.v1'' ''{}'') backend_new;
       (v, x1, s1) = wf_exec ex_wf_libs (sorted_env 1) WfNow x s0;
       s2 = last (wf_stopped ex_wf_libs (sorted_env 5) WfRandom x s1);
       s3 = state_exec (SetWorkflowData ''w'' ''rustvello.execution.identity.v1'' ''{1}'') s2;
       (v', _, _) = wf_exec ex_wf_libs (sorted_env 8) WfNow x s3
   in v' = v"
proof -
  let ?x = "executor_new ''w''" and ?id = "''rustvello.execution.identity.v1''"
  let ?s0 = "state_exec (SetWorkflowData ''w'' ?id ''{}'') backend_new"
  obtain v x1 s1 where r1: "wf_exec ex_wf_libs (sorted_env 1) WfNow ?x ?s0 = (v, x1, s1)" by (metis prod_cases3)
  let ?s2 = "last (wf_stopped ex_wf_libs (sorted_env 5) WfRandom ?x s1)"
  let ?s3 = "state_exec (SetWorkflowData ''w'' ?id ''{1}'') ?s2"
  obtain v' x2 s4 where r2: "wf_exec ex_wf_libs (sorted_env 8) WfNow ?x ?s3 = (v', x2, s4)" by (metis prod_cases3)
  have fresh: "\<forall>k. replay_key k \<longrightarrow> get_workflow_data ''w'' k ?s0 = None"
    by (auto simp: get_set_workflow_data) (auto simp: replay_key_def BASE_TIME_KEY_def get_workflow_data_def backend_new_def)
  have one: "wf_session ex_wf_libs ?x ?s0 [WfNow] [v] x1 s1"
    by (rule wf_session.operation [OF rtranclp.rtrancl_refl r1 wf_session.ended])
  have "wf_around ex_wf_libs ''w'' s1 ?s2"
    by (rule wf_around.stopped [where x = ?x and e = "sorted_env 5" and op = WfRandom]) (simp_all add: executor_new_def)
  moreover have "wf_around ex_wf_libs ''w'' ?s2 ?s3"
    by (rule wf_around.store) (auto simp: replay_key_def BASE_TIME_KEY_def)
  ultimately have "(wf_around ex_wf_libs ''w'')\<^sup>*\<^sup>* s1 ?s3" by (meson converse_rtranclp_into_rtranclp r_into_rtranclp)
  moreover have two: "wf_session ex_wf_libs ?x ?s3 ([WfNow] @ []) [v'] x2 s4"
    using wf_session.operation [OF rtranclp.rtrancl_refl r2 wf_session.ended] by simp
  ultimately have "take (length [WfNow]) [v'] = [v]"
    using workflow_replay_deterministic [OF ex_wf_libs_ok fresh one] by blast
  then show ?thesis by (simp only: Let_def r1 r2 prod.case) simp
qed

end
