(* ===== verification/Client_Data.thy ===== *)
theory Client_Data
  imports Mem_State "HOL-Library.Sublist"
begin

text \<open>
  Externalised values, \<^verbatim>\<open>rustvello-core/src/client_data_store.rs\<close>: large serialised values are stored
  under a content hash and replaced by a reference, with a process-local LRU cache in front of the
  backend. SHA-256 is a parameter; so is the \<^verbatim>\<open>lru\<close> crate, a record of its operations with the
  hypothesis that it forgets entries but never returns anything but the last value put under a key.
\<close>

section \<open>References\<close>

definition REFERENCE_PREFIX :: str where
  "REFERENCE_PREFIX = ''__rustvello__cds__:''"

definition is_reference :: "str \<Rightarrow> bool" where
  "is_reference v \<longleftrightarrow> prefix REFERENCE_PREFIX v"

definition generate_reference_key :: "(str \<Rightarrow> str) \<Rightarrow> str \<Rightarrow> str" where
  "generate_reference_key sha v = REFERENCE_PREFIX @ lower_hex (sha v)"

section \<open>The manager\<close>

record 'c lru =
  lru_get :: "str \<Rightarrow> 'c \<Rightarrow> str option \<times> 'c"
  lru_put :: "str \<Rightarrow> str \<Rightarrow> 'c \<Rightarrow> 'c"
  lru_clear :: "'c \<Rightarrow> 'c"
  lru_new :: "nat \<Rightarrow> 'c"

record cds_config =
  cds_disabled :: bool
  min_size_to_cache :: u64
  max_size_to_cache :: u64
  local_cache_size :: u64
  warn_threshold :: u64

record 'c cds_manager =
  cm_backend :: client_data_store
  cm_config :: cds_config
  cm_cache :: 'c

definition manager_new :: "'c lru \<Rightarrow> cds_config \<Rightarrow> client_data_store \<Rightarrow> 'c cds_manager" where
  "manager_new lr cfg d =
     \<lparr>cm_backend = d, cm_config = cfg, cm_cache = lru_new lr (max 1 (unat (local_cache_size cfg)))\<rparr>"

definition store_if_large ::
    "(str \<Rightarrow> str) \<Rightarrow> 'c lru \<Rightarrow> str \<Rightarrow> 'c cds_manager \<Rightarrow> str result \<times> 'c cds_manager" where
  "store_if_large sha lr v m =
     (let cfg = cm_config m in
      if cds_disabled cfg then (Inr v, m)
      else if is_reference v then (Inr v, m)
      else if length v < unat (min_size_to_cache cfg) then (Inr v, m)
      else if 0 < max_size_to_cache cfg \<and> unat (max_size_to_cache cfg) < length v then (Inr v, m)
      else
        (let key = generate_reference_key sha v
         in and_then (case cds_store key v (cm_backend m) of (r, d) \<Rightarrow> (r, m\<lparr>cm_backend := d\<rparr>)) (\<lambda>_ m.
              (Inr key, m\<lparr>cm_cache := lru_put lr key v (cm_cache m)\<rparr>))))"

definition cds_resolve :: "'c lru \<Rightarrow> str \<Rightarrow> 'c cds_manager \<Rightarrow> str result \<times> 'c cds_manager" where
  "cds_resolve lr data m =
     (if \<not> is_reference data then (Inr data, m)
      else
        (case lru_get lr data (cm_cache m) of
           (Some cached, c) \<Rightarrow> (Inr cached, m\<lparr>cm_cache := c\<rparr>)
         | (None, c) \<Rightarrow>
             and_then (cds_retrieve data (cm_backend m), m\<lparr>cm_cache := c\<rparr>) (\<lambda>v m.
               (Inr v, m\<lparr>cm_cache := lru_put lr data v (cm_cache m)\<rparr>))))"

definition manager_purge :: "'c lru \<Rightarrow> 'c cds_manager \<Rightarrow> unit result \<times> 'c cds_manager" where
  "manager_purge lr m =
     (case cds_purge (cm_backend m) of
        (r, d) \<Rightarrow> (r, m\<lparr>cm_backend := d, cm_cache := lru_clear lr (cm_cache m)\<rparr>))"

section \<open>The cache and the store\<close>

text \<open>\<open>look\<close> is what a cache currently holds.\<close>

definition lru_ok :: "'c lru \<Rightarrow> ('c \<Rightarrow> str \<Rightarrow> str option) \<Rightarrow> bool" where
  "lru_ok lr look \<longleftrightarrow>
     (\<forall>n k. look (lru_new lr n) k = None) \<and>
     (\<forall>k c. fst (lru_get lr k c) = look c k \<and> look (snd (lru_get lr k c)) = look c) \<and>
     (\<forall>k v c k' v'. look (lru_put lr k v c) k' = Some v' \<longrightarrow> (if k' = k then v' = v else look c k' = Some v')) \<and>
     (\<forall>c k. look (lru_clear lr c) k = None)"

text \<open>Everything held, in the backend or in the cache, is under its content hash; what is cached is stored.\<close>

definition cds_inv :: "(str \<Rightarrow> str) \<Rightarrow> ('c \<Rightarrow> str \<Rightarrow> str option) \<Rightarrow> 'c cds_manager \<Rightarrow> bool" where
  "cds_inv sha look m \<longleftrightarrow>
     (\<forall>k v. cm_backend m k = Some v \<longrightarrow> k = generate_reference_key sha v) \<and>
     (\<forall>k v. look (cm_cache m) k = Some v \<longrightarrow> k = generate_reference_key sha v \<and> k \<in> dom (cm_backend m))"

datatype cds_op = StoreLarge str | Resolve str

fun cds_exec :: "(str \<Rightarrow> str) \<Rightarrow> 'c lru \<Rightarrow> cds_op \<Rightarrow> 'c cds_manager \<Rightarrow> 'c cds_manager" where
  "cds_exec sha lr (StoreLarge v) m = snd (store_if_large sha lr v m)"
| "cds_exec sha lr (Resolve d) m = snd (cds_resolve lr d m)"

definition cds_run :: "(str \<Rightarrow> str) \<Rightarrow> 'c lru \<Rightarrow> cds_op list \<Rightarrow> 'c cds_manager \<Rightarrow> 'c cds_manager" where
  "cds_run sha lr ops m = fold (cds_exec sha lr) ops m"

lemma store_inv:
  assumes "lru_ok lr look" "cds_inv sha look m"
  shows "cds_inv sha look (snd (store_if_large sha lr v m))"
proof -
  let ?k = "generate_reference_key sha v"
  have "look (lru_put lr ?k v (cm_cache m)) k' = Some v' \<Longrightarrow> (if k' = ?k then v' = v else look (cm_cache m) k' = Some v')"
    for k' v' using assms(1) unfolding lru_ok_def by blast
  then have put: "look (lru_put lr ?k v (cm_cache m)) k' = Some v' \<Longrightarrow>
      k' = generate_reference_key sha v' \<and> (k' = ?k \<or> k' \<in> dom (cm_backend m))" for k' v'
    using assms(2) unfolding cds_inv_def by (metis (full_types))
  then show ?thesis
    using assms(2) by (auto simp: store_if_large_def cds_store_def Let_def cds_inv_def split: if_splits)
qed

lemma resolve_inv:
  assumes "lru_ok lr look" "cds_inv sha look m"
  shows "cds_inv sha look (snd (cds_resolve lr d m))"
proof -
  obtain r c where g: "lru_get lr d (cm_cache m) = (r, c)" by force
  have c: "look c = look (cm_cache m)" "r = look (cm_cache m) d"
    using assms(1) g unfolding lru_ok_def by (metis fst_conv snd_conv)+
  have put: "look (lru_put lr d v c) k' = Some v' \<Longrightarrow> (if k' = d then v' = v else look (cm_cache m) k' = Some v')"
    for v k' v' using assms(1) c(1) unfolding lru_ok_def by metis
  show ?thesis
  proof (cases "is_reference d \<and> r = None")
    case True
    show ?thesis
    proof (cases "cm_backend m d")
      case None
      then show ?thesis using True g c assms(2) by (simp add: cds_resolve_def cds_retrieve_def cds_inv_def)
    next
      case (Some v)
      have "k' = generate_reference_key sha v' \<and> k' \<in> dom (cm_backend m)"
        if "look (lru_put lr d v c) k' = Some v'" for k' v'
        using put [OF that] assms(2) Some by (cases "k' = d") (auto simp: cds_inv_def)
      then show ?thesis using True g c assms(2) Some by (simp add: cds_resolve_def cds_retrieve_def cds_inv_def)
    qed
  next
    case False
    have "cds_inv sha look (m\<lparr>cm_cache := c\<rparr>)" using assms(2) by (simp add: cds_inv_def c)
    then show ?thesis using False g assms(2) by (auto simp: cds_resolve_def)
  qed
qed

lemma exec_backend:
  "k \<in> dom (cm_backend m) \<Longrightarrow> k \<in> dom (cm_backend (cds_exec sha lr op m))"
  by (cases op) (auto simp: store_if_large_def cds_resolve_def cds_store_def Let_def and_then_def
      split: prod.split option.split sum.split)

lemma run_cds:
  assumes "lru_ok lr look" "cds_inv sha look m"
  shows "cds_inv sha look (cds_run sha lr ops m) \<and> dom (cm_backend m) \<subseteq> dom (cm_backend (cds_run sha lr ops m))"
  using assms(2)
proof (induction ops arbitrary: m)
  case (Cons op ops)
  have "cds_inv sha look (cds_exec sha lr op m)"
    using store_inv [OF assms(1)] resolve_inv [OF assms(1)] Cons.prems by (cases op) auto
  from Cons.IH [OF this] show ?case using exec_backend [of _ m sha lr op] by (auto simp: cds_run_def)
qed (simp add: cds_run_def)

lemma resolve_stored:
  assumes "lru_ok lr look" "cds_inv sha look m" "k \<in> dom (cm_backend m)" "is_reference k"
  shows "\<exists>v. fst (cds_resolve lr k m) = Inr v \<and> k = generate_reference_key sha v"
proof -
  obtain r c where g: "lru_get lr k (cm_cache m) = (r, c)" by force
  have r: "r = look (cm_cache m) k" using assms(1) g unfolding lru_ok_def by (metis fst_conv)
  show ?thesis
  proof (cases "look (cm_cache m) k")
    case None
    then show ?thesis using assms(2-4) g r by (auto simp: cds_resolve_def cds_retrieve_def cds_inv_def)
  next
    case (Some v)
    then show ?thesis using assms(2,4) g r by (simp add: cds_resolve_def cds_inv_def)
  qed
qed

lemma store_external:
  assumes "store_if_large sha lr v m = (Inr ref, m')" "ref \<noteq> v"
  shows "ref = generate_reference_key sha v" "cm_backend m' ref = Some v"
  using assms by (auto simp: store_if_large_def cds_store_def Let_def split: if_splits)

section \<open>Properties\<close>

text \<open>C32. Externalised values come back: whatever is stored and resolved in between, by cache hit or from the
  backend, resolving what \<^verbatim>\<open>store_if_large\<close> returned for a value gives that value, or another value
  with the same SHA-256 was stored. (A value that itself looks like a reference is passed through and is
  outside this.)\<close>

theorem large_values_round_trip:
  assumes "lru_ok lr look" "\<not> is_reference v"
    and "store_if_large sha lr v (cds_run sha lr before (manager_new lr cfg cds_new)) = (Inr ref, m)"
    and "fst (cds_resolve lr ref (cds_run sha lr later m)) = r"
  shows "r = Inr v \<or> (\<exists>v'. r = Inr v' \<and> v' \<noteq> v \<and> lower_hex (sha v') = lower_hex (sha v))"
proof (cases "ref = v")
  case True
  then show ?thesis using assms(2,4) by (simp add: cds_resolve_def)
next
  case False
  let ?m0 = "cds_run sha lr before (manager_new lr cfg cds_new)"
  have "look (lru_new lr n) k = None" for n k using assms(1) unfolding lru_ok_def by blast
  then have new: "cds_inv sha look (manager_new lr cfg cds_new)"
    by (simp add: cds_inv_def manager_new_def cds_new_def)
  have inv0: "cds_inv sha look ?m0" using run_cds [OF assms(1) new] by blast
  have ref: "ref = generate_reference_key sha v" "ref \<in> dom (cm_backend m)"
    using store_external [OF assms(3) False] by auto
  have "cds_inv sha look m" using store_inv [OF assms(1) inv0, of v] assms(3) by simp
  then have "cds_inv sha look (cds_run sha lr later m)" "ref \<in> dom (cm_backend (cds_run sha lr later m))"
    using run_cds [OF assms(1), of sha m later] ref(2) by auto
  moreover have "is_reference ref" using ref(1) by (simp add: is_reference_def generate_reference_key_def)
  ultimately obtain v' where "r = Inr v'" "ref = generate_reference_key sha v'"
    using resolve_stored [OF assms(1)] assms(4) by blast
  then show ?thesis using ref(1) by (auto simp: generate_reference_key_def)
qed

text \<open>A cache that keeps everything, as an instance of the hypothesis.\<close>

definition ex_lru :: "(str \<rightharpoonup> str) lru" where
  "ex_lru = \<lparr>lru_get = (\<lambda>k c. (c k, c)), lru_put = (\<lambda>k v c. c(k \<mapsto> v)), lru_clear = (\<lambda>_. Map.empty),
             lru_new = (\<lambda>_. Map.empty)\<rparr>"

theorem large_values_round_trip_witness:
  "let cfg = \<lparr>cds_disabled = False, min_size_to_cache = 1, max_size_to_cache = 0, local_cache_size = 1,
         warn_threshold = 10\<rparr>;
       (r, m) = store_if_large (\<lambda>v. v) ex_lru ''ab'' (manager_new ex_lru cfg cds_new)
   in \<exists>k. r = Inr k \<and> is_reference k \<and> fst (cds_resolve ex_lru k m) = Inr ''ab''"
proof -
  let ?cfg = "\<lparr>cds_disabled = False, min_size_to_cache = 1, max_size_to_cache = 0, local_cache_size = 1,
         warn_threshold = 10\<rparr>"
  let ?m = "manager_new ex_lru ?cfg cds_new"
  let ?k = "generate_reference_key (\<lambda>v. v) ''ab''"
  have ok: "lru_ok ex_lru (\<lambda>c. c)" by (auto simp: lru_ok_def ex_lru_def)
  have nr: "\<not> is_reference ''ab''" by (simp add: is_reference_def REFERENCE_PREFIX_def)
  obtain m where st: "store_if_large (\<lambda>v. v) ex_lru ''ab'' ?m = (Inr ?k, m)"
    using nr by (simp add: store_if_large_def cds_store_def Let_def manager_new_def)
  have run: "cds_run (\<lambda>v. v) ex_lru [] x = x" for x by (simp add: cds_run_def)
  have "fst (cds_resolve ex_lru ?k m) = Inr ''ab'' \<or>
      (\<exists>v'. fst (cds_resolve ex_lru ?k m) = Inr v' \<and> v' \<noteq> ''ab'' \<and> lower_hex v' = lower_hex ''ab'')"
    using large_values_round_trip [OF ok nr, of "\<lambda>v. v" "[]" ?cfg ?k m "[]"] st by (simp add: run)
  then show ?thesis
    using st lower_hex_inj by (auto simp: is_reference_def generate_reference_key_def)
qed

end
