(* ===== verification/App_Calls.thy ===== *)
theory App_Calls
  imports Attempt_Props
begin

text \<open>
  What an application calls: typed calls (\<^verbatim>\<open>rustvello-core/src/call.rs\<close>, the adapters of
  \<^verbatim>\<open>task.rs\<close>), the submission interface of the application (\<^verbatim>\<open>rustvello/src/app/submission.rs\<close>)
  and the handles it returns (\<^verbatim>\<open>rustvello-core/src/invocation.rs\<close>). A typed task is a record of its id,
  its configuration, its body and the \<^verbatim>\<open>serde\<close> implementations of its parameters and result, which are
  parameters; the body may change a state of its own.
\<close>

section \<open>Typed calls\<close>

record ('p, 'r, 's) task =
  tk_task_id :: task_id
  tk_config :: task_config
  tk_run :: "'p \<Rightarrow> 's \<Rightarrow> 'r result \<times> 's"
  tk_to_value :: "'p \<Rightarrow> json option"
  tk_from_str :: "str \<Rightarrow> 'p option"
  tk_result_text :: "'r \<Rightarrow> str option"
  tk_result_from_str :: "str \<Rightarrow> 'r option"

definition serde :: "'a option \<Rightarrow> 'a result" where
  "serde x = (case x of None \<Rightarrow> Inl Serialization | Some v \<Rightarrow> Inr v)"

definition ARGS_KEY :: str where
  "ARGS_KEY = ''__args__''"

definition value_to_serialized_arguments :: "libs \<Rightarrow> json \<Rightarrow> serialized_arguments" where
  "value_to_serialized_arguments l v =
     (case v of
        JObject fs \<Rightarrow> fold (\<lambda>(k, x). args_insert k (json_to_string l x)) fs []
      | other \<Rightarrow> args_insert ARGS_KEY (json_to_string l other) [])"

definition params_to_serialized_arguments ::
    "libs \<Rightarrow> ('p, 'r, 's) task \<Rightarrow> 'p \<Rightarrow> serialized_arguments result" where
  "params_to_serialized_arguments l tk p =
     (case serde (tk_to_value tk p) of Inl err \<Rightarrow> Inl err | Inr v \<Rightarrow> Inr (value_to_serialized_arguments l v))"

definition call_id_of :: "libs \<Rightarrow> ('p, 'r, 's) task \<Rightarrow> 'p \<Rightarrow> call_id result" where
  "call_id_of l tk p =
     (case params_to_serialized_arguments l tk p of
        Inl err \<Rightarrow> Inl err
      | Inr args \<Rightarrow> Inr (call_id_new (tk_task_id tk) (compute_args_id (sha256 l) (json_str l) args)))"

definition to_dto :: "libs \<Rightarrow> ('p, 'r, 's) task \<Rightarrow> 'p \<Rightarrow> call_dto result" where
  "to_dto l tk p =
     (case params_to_serialized_arguments l tk p of
        Inl err \<Rightarrow> Inl err
      | Inr args \<Rightarrow> Inr (call_dto_new (sha256 l) (json_str l) (tk_task_id tk) args))"

definition serialized_args_for_concurrency_check ::
    "libs \<Rightarrow> ('p, 'r, 's) task \<Rightarrow> 'p \<Rightarrow> serialized_arguments option result" where
  "serialized_args_for_concurrency_check l tk p =
     (case concurrency_control (tk_config tk) of
        Unlimited \<Rightarrow> Inr None
      | TaskCC \<Rightarrow> Inr (Some [])
      | ArgumentCC \<Rightarrow>
          (case params_to_serialized_arguments l tk p of
             Inl err \<Rightarrow> Inl err
           | Inr all_args \<Rightarrow>
               (if key_arguments (tk_config tk) = [] then Inr (Some all_args)
                else Inr (Some (fold (\<lambda>key filtered.
                       case map_of all_args key of
                         None \<Rightarrow> filtered
                       | Some v \<Rightarrow> args_insert key v filtered) (key_arguments (tk_config tk)) []))))
      | NoneCC \<Rightarrow>
          (case params_to_serialized_arguments l tk p of Inl err \<Rightarrow> Inl err | Inr all_args \<Rightarrow> Inr (Some all_args)))"

definition call_dto_from_parts :: "libs \<Rightarrow> task_id \<Rightarrow> (str \<times> str) list \<Rightarrow> call_dto" where
  "call_dto_from_parts l t serialized_args =
     call_dto_new (sha256 l) (json_str l) t (fold (\<lambda>(k, v). args_insert k v) serialized_args [])"

section \<open>Executing a call\<close>

fun args_fields :: "libs \<Rightarrow> serialized_arguments \<Rightarrow> str list result" where
  "args_fields l [] = Inr []"
| "args_fields l ((k, v) # args) =
     (if json_from_str l v = None then Inl Serialization
      else (case args_fields l args of
              Inl err \<Rightarrow> Inl err
            | Inr fs \<Rightarrow> Inr ((json_str l k @ '':'' @ v) # fs)))"

definition serialized_args_to_json :: "libs \<Rightarrow> serialized_arguments \<Rightarrow> str result" where
  "serialized_args_to_json l args =
     (let object = (case args_fields l args of
                      Inl err \<Rightarrow> Inl err
                    | Inr fs \<Rightarrow> Inr (''{'' @ join '','' fs @ ''}''))
      in case map_of args ARGS_KEY of
           Some v \<Rightarrow> if length args = 1 then Inr v else object
         | None \<Rightarrow> object)"

definition dyn_execute ::
    "libs \<Rightarrow> ('p, 'r, 's) task \<Rightarrow> serialized_arguments \<Rightarrow> 's \<Rightarrow> str result \<times> 's" where
  "dyn_execute l tk args s =
     and_then (serialized_args_to_json l args, s) (\<lambda>text s.
     and_then (serde (tk_from_str tk text), s) (\<lambda>params s.
     and_then (tk_run tk params s) (\<lambda>r s. (serde (tk_result_text tk r), s))))"

text \<open>Closure tasks get the map itself as JSON.\<close>

definition legacy_execute :: "libs \<Rightarrow> (str \<Rightarrow> 's \<Rightarrow> str result \<times> 's) \<Rightarrow> serialized_arguments \<Rightarrow> 's \<Rightarrow> str result \<times> 's" where
  "legacy_execute l func args s = func (json_to_string l (JObject (map (map_prod id JString) args))) s"

section \<open>Handles\<close>

definition handle_status :: "str \<Rightarrow> world \<Rightarrow> invocation_status result" where
  "handle_status i w =
     (case get_invocation_status i (w_control w) of Inl err \<Rightarrow> Inl err | Inr rec \<Rightarrow> Inr (sr_status rec))"

definition is_done :: "str \<Rightarrow> world \<Rightarrow> bool result" where
  "is_done i w = (case handle_status i w of Inl err \<Rightarrow> Inl err | Inr st \<Rightarrow> Inr (is_terminal st))"

text \<open>\<open>w\<close> is the store when the status is read, \<open>w'\<close> when the outcome is read.\<close>

definition handle_result :: "('p, 'r, 's) task \<Rightarrow> str \<Rightarrow> world \<Rightarrow> world \<Rightarrow> 'r result" where
  "handle_result tk i w w' =
     (case handle_status i w of
        Inl err \<Rightarrow> Inl err
      | Inr st \<Rightarrow>
          (case st of
             Success \<Rightarrow>
               (case get_result i (w_state w') of
                  None \<Rightarrow> Inl Internal
                | Some raw \<Rightarrow> serde (tk_result_from_str tk raw))
           | Failed \<Rightarrow> Inl (Infrastructure Other)
           | Cancelled \<Rightarrow> Inl (InvocationCancelled i)
           | _ \<Rightarrow> Inl Internal))"

text \<open>
  Waiting: a caller that itself runs as an invocation is recorded as waiting, then the handle polls. The
  list holds the stores at the successive reads; \<^verbatim>\<open>None\<close> is a wait that has not returned by the last of
  them.
\<close>

definition wait_register :: "str option \<Rightarrow> str \<Rightarrow> world \<Rightarrow> unit result \<times> world" where
  "wait_register ctx i w =
     (case ctx of
        None \<Rightarrow> (Inr (), w)
      | Some caller \<Rightarrow> if caller \<noteq> i then lift_control (set_waiting_for caller i) w else (Inr (), w))"

fun wait_poll :: "('p, 'r, 's) task \<Rightarrow> str \<Rightarrow> world list \<Rightarrow> 'r result option" where
  "wait_poll tk i (w # ws) =
     (case is_done i w of
        Inl err \<Rightarrow> Some (Inl err)
      | Inr True \<Rightarrow> (case ws of w1 # w2 # _ \<Rightarrow> Some (handle_result tk i w1 w2) | _ \<Rightarrow> None)
      | Inr False \<Rightarrow> wait_poll tk i ws)"
| "wait_poll tk i [] = None"

record 'r sync_invocation =
  si_invocation_id :: str
  si_status :: invocation_status
  si_result :: "'r result"

definition sync_success :: "str \<Rightarrow> 'r \<Rightarrow> 'r sync_invocation" where
  "sync_success i r = \<lparr>si_invocation_id = i, si_status = Success, si_result = Inr r\<rparr>"

definition sync_failed :: "str \<Rightarrow> rv_error \<Rightarrow> 'r sync_invocation" where
  "sync_failed i err = \<lparr>si_invocation_id = i, si_status = Failed, si_result = Inl err\<rparr>"

datatype 'r invocation = SyncInv "'r sync_invocation" | DistributedInv str

definition invocation_result :: "('p, 'r, 's) task \<Rightarrow> 'r invocation \<Rightarrow> world \<Rightarrow> world \<Rightarrow> 'r result" where
  "invocation_result tk x w w' =
     (case x of SyncInv s \<Rightarrow> si_result s | DistributedInv i \<Rightarrow> handle_result tk i w w')"

section \<open>The application\<close>

definition catalog_contains :: "task_id \<Rightarrow> world \<Rightarrow> bool" where
  "catalog_contains t w \<longleftrightarrow> t \<in> dom (reg_tasks (registry (w_catalog w)))"

definition app_submit_with_trace_context ::
    "service \<Rightarrow> env \<Rightarrow> caller_info \<Rightarrow> str \<Rightarrow> task_id \<Rightarrow> serialized_arguments \<Rightarrow> trace_context option \<Rightarrow> world
       \<Rightarrow> str result \<times> world" where
  "app_submit_with_trace_context sv e ci fresh t args trace w =
     submit_with_id sv e ci fresh (call_dto_new (sha256 (sv_libs sv)) (json_str (sv_libs sv)) t args) trace None w"

definition app_submit ::
    "service \<Rightarrow> env \<Rightarrow> caller_info \<Rightarrow> str \<Rightarrow> task_id \<Rightarrow> serialized_arguments \<Rightarrow> world \<Rightarrow> str result \<times> world" where
  "app_submit sv e ci fresh t args w = app_submit_with_trace_context sv e ci fresh t args None w"

definition app_submit_with_id ::
    "service \<Rightarrow> env \<Rightarrow> caller_info \<Rightarrow> str \<Rightarrow> str \<Rightarrow> task_id \<Rightarrow> serialized_arguments \<Rightarrow> trace_context option \<Rightarrow> world
       \<Rightarrow> str result \<times> world" where
  "app_submit_with_id sv e ci fresh i t args trace w =
     submit_with_id sv e ci fresh (call_dto_new (sha256 (sv_libs sv)) (json_str (sv_libs sv)) t args) trace (Some i) w"

definition submit_with_cc ::
    "service \<Rightarrow> env \<Rightarrow> caller_info \<Rightarrow> str \<Rightarrow> task_id \<Rightarrow> serialized_arguments \<Rightarrow> serialized_arguments option \<Rightarrow> world
       \<Rightarrow> str result \<times> world" where
  "submit_with_cc sv e ci fresh t args _ w = submit_with_registration_control sv e ci fresh t args w"

definition submit_sync ::
    "libs \<Rightarrow> (task_id \<Rightarrow> str \<Rightarrow> 's \<Rightarrow> str result \<times> 's) \<Rightarrow> task_id \<Rightarrow> serialized_arguments \<Rightarrow> world \<Rightarrow> 's
       \<Rightarrow> str result \<times> 's" where
  "submit_sync l funcs t args w s =
     (case registry_get t (registry (w_catalog w)) of
        None \<Rightarrow> (Inl (TaskNotRegistered t), s)
      | Some _ \<Rightarrow> funcs t (json_to_string l (JObject (map (map_prod id JString) args))) s)"

definition app_get_result :: "str \<Rightarrow> world \<Rightarrow> str option result" where
  "app_get_result i w = Inr (get_result i (w_state w))"

definition app_cancel :: "service \<Rightarrow> env \<Rightarrow> caller_info \<Rightarrow> str \<Rightarrow> world \<Rightarrow> cancel_outcome result \<times> world" where
  "app_cancel sv e ci i w = cancel_invocation sv e i (src_runner_id (ci_runner ci)) w"

definition submit_call ::
    "service \<Rightarrow> env \<Rightarrow> caller_info \<Rightarrow> str \<Rightarrow> ('p, 'r, 's) task \<Rightarrow> 'p \<Rightarrow> world \<Rightarrow> str result \<times> world" where
  "submit_call sv e ci fresh tk p w =
     (if \<not> catalog_contains (tk_task_id tk) w then (Inl (TaskNotRegistered (tk_task_id tk)), w)
      else and_then (to_dto (sv_libs sv) tk p, w) (\<lambda>call w. submit sv e ci fresh call w))"

definition submit_call_with_id ::
    "service \<Rightarrow> env \<Rightarrow> caller_info \<Rightarrow> str \<Rightarrow> str \<Rightarrow> ('p, 'r, 's) task \<Rightarrow> 'p \<Rightarrow> trace_context option \<Rightarrow> world
       \<Rightarrow> str result \<times> world" where
  "submit_call_with_id sv e ci fresh i tk p trace w =
     and_then (to_dto (sv_libs sv) tk p, w) (\<lambda>call w.
       app_submit_with_id sv e ci fresh i (cd_task_id call) (cd_serialized_arguments call) trace w)"

definition submit_call_with_key ::
    "service \<Rightarrow> env \<Rightarrow> caller_info \<Rightarrow> str \<Rightarrow> str \<Rightarrow> ('p, 'r, 's) task \<Rightarrow> 'p \<Rightarrow> trace_context option \<Rightarrow> world
       \<Rightarrow> str result \<times> world" where
  "submit_call_with_key sv e ci fresh key tk p trace w =
     submit_call_with_id sv e ci fresh (from_key (uuid_v5 (sv_libs sv)) (tk_task_id tk) key) tk p trace w"

text \<open>A foreign task has no body here; only its id and its parameters are used.\<close>

definition submit_foreign_call ::
    "service \<Rightarrow> env \<Rightarrow> caller_info \<Rightarrow> str \<Rightarrow> ('p, 'r, 's) task \<Rightarrow> 'p \<Rightarrow> world \<Rightarrow> str result \<times> world" where
  "submit_foreign_call sv e ci fresh tk p w =
     (if \<not> catalog_contains (tk_task_id tk) w then (Inl (TaskNotRegistered (tk_task_id tk)), w)
      else and_then (params_to_serialized_arguments (sv_libs sv) tk p, w) (\<lambda>args w.
             app_submit sv e ci fresh (tk_task_id tk) args w))"

definition execute_sync :: "('p, 'r, 's) task \<Rightarrow> 'p \<Rightarrow> 's \<Rightarrow> 'r result \<times> 's" where
  "execute_sync tk p s = tk_run tk p s"

text \<open>The loop \<^verbatim>\<open>for attempt in 0..=max_retries\<close>, by the number of attempts left.\<close>

fun sync_attempts :: "('p, 'r, 's) task \<Rightarrow> 'p \<Rightarrow> nat \<Rightarrow> rv_error option \<Rightarrow> 's \<Rightarrow> 'r result \<times> 's" where
  "sync_attempts tk p 0 last_err s = (Inl (or_else last_err Internal), s)"
| "sync_attempts tk p (Suc n) last_err s =
     (case tk_run tk p s of
        (Inr r, s') \<Rightarrow> (Inr r, s')
      | (Inl err, s') \<Rightarrow> sync_attempts tk p n (Some err) s')"

definition run_sync_with_retries :: "('p, 'r, 's) task \<Rightarrow> str \<Rightarrow> 'p \<Rightarrow> 's \<Rightarrow> 'r sync_invocation \<times> 's" where
  "run_sync_with_retries tk fresh p s =
     (case sync_attempts tk p (Suc (unat (max_retries (tk_config tk)))) None s of
        (Inr r, s') \<Rightarrow> (sync_success fresh r, s')
      | (Inl err, s') \<Rightarrow> (sync_failed fresh err, s'))"

definition app_call ::
    "service \<Rightarrow> env \<Rightarrow> caller_info \<Rightarrow> str \<Rightarrow> ('p, 'r, 's) task \<Rightarrow> 'p \<Rightarrow> world \<times> 's \<Rightarrow> 'r invocation result \<times> world \<times> 's" where
  "app_call sv e ci fresh tk p ws =
     (case ws of (w, s) \<Rightarrow>
        (if \<not> catalog_contains (tk_task_id tk) w then (Inl (TaskNotRegistered (tk_task_id tk)), w, s)
         else if dev_mode_force_sync (sv_app sv)
         then (case run_sync_with_retries tk fresh p s of (si, s') \<Rightarrow> (Inr (SyncInv si), w, s'))
         else (case submit_call sv e ci fresh tk p w of
                 (Inl err, w') \<Rightarrow> (Inl err, w', s)
               | (Inr i, w') \<Rightarrow> (Inr (DistributedInv i), w', s))))"

section \<open>Arguments reach the body\<close>

text \<open>
  What is relied on of \<^verbatim>\<open>serde_json\<close>: it accepts what it prints, and prints an object compactly, its
  fields in the order of the map. Object keys are in the order of a \<^verbatim>\<open>BTreeMap\<close>.
\<close>

definition serde_text_ok :: "libs \<Rightarrow> bool" where
  "serde_text_ok l \<longleftrightarrow>
     (\<forall>v. json_from_str l (json_to_string l v) \<noteq> None) \<and>
     (\<forall>fs. json_to_string l (JObject fs) =
        ''{'' @ join '','' (map (\<lambda>(k, x). json_str l k @ '':'' @ json_to_string l x) fs) @ ''}'')"

fun object_ok :: "json \<Rightarrow> bool" where
  "object_ok (JObject fs) \<longleftrightarrow> sorted_wrt (<) (map fst fs)"
| "object_ok _ \<longleftrightarrow> True"

text \<open>An object whose only field has the reserved name.\<close>

definition reserved_object :: "json \<Rightarrow> bool" where
  "reserved_object v \<longleftrightarrow> (\<exists>x. v = JObject [(ARGS_KEY, x)])"

lemma sorted_fields_inserted:
  assumes "sorted_wrt (<) (map fst fs)"
  shows "fold (\<lambda>(k, x). args_insert k (f x)) fs [] = map (map_prod id f) fs"
proof -
  have k: "map fst (map (map_prod id f) fs) = map fst fs" by simp
  have wf: "args_wf (map (map_prod id f) fs)" using assms unfolding args_wf_def k .
  have "fold (\<lambda>(k, x). args_insert k (f x)) fs a = fold (\<lambda>(k, v). args_insert k v) (map (map_prod id f) fs) a" for a
    by (induction fs arbitrary: a) auto
  moreover have "map_of (rev (map (map_prod id f) fs)) = map_of (map (map_prod id f) fs)"
    using args_wf_distinct [OF wf] by (subst map_of_inject_set) (simp_all only: rev_map distinct_rev set_rev map_map, simp_all add: rev_map [symmetric])
  ultimately show ?thesis
    using args_build [of "[]" "map (map_prod id f) fs"] wf by (intro args_wf_ext) (auto simp: args_wf_def)
qed

lemma args_fields_printed:
  assumes "serde_text_ok l"
  shows "args_fields l (map (map_prod id (json_to_string l)) fs) =
    Inr (map (\<lambda>(k, x). json_str l k @ '':'' @ json_to_string l x) fs)"
  using assms by (induction fs) (auto simp: serde_text_ok_def)

lemma arguments_reach:
  assumes "serde_text_ok l" "object_ok v" "\<not> reserved_object v"
  shows "serialized_args_to_json l (value_to_serialized_arguments l v) = Inr (json_to_string l v)"
proof (cases "\<exists>fs. v = JObject fs")
  case True
  then obtain fs where v: "v = JObject fs" by blast
  let ?a = "map (map_prod id (json_to_string l)) fs"
  have "value_to_serialized_arguments l v = ?a"
    using sorted_fields_inserted assms(2) by (simp add: v value_to_serialized_arguments_def)
  moreover have "map_of ?a ARGS_KEY = Some x \<Longrightarrow> length ?a \<noteq> 1" for x
    using assms(3) by (cases fs rule: list.exhaust) (auto simp: v reserved_object_def split: if_splits)
  ultimately show ?thesis
    using args_fields_printed [OF assms(1), of fs] assms(1)
    by (auto simp: serialized_args_to_json_def Let_def v serde_text_ok_def split: option.split)
next
  case False
  then have "value_to_serialized_arguments l v = [(ARGS_KEY, json_to_string l v)]"
    by (cases v) (simp_all add: value_to_serialized_arguments_def)
  then show ?thesis by (simp add: serialized_args_to_json_def)
qed

section \<open>Properties\<close>

text \<open>C23. A call comes back: what the handle of the caller returns after the owner's attempt is what the body
  returns for the very parameters of the call, sent as serialised arguments and back as a stored result; a
  final error shows as a runner error, a retried one as an invocation that is not finished. Relied on:
  \<^verbatim>\<open>serde_json\<close> reads back the parameters and results it prints. Parameters that are an object with the
  single field \<^verbatim>\<open>__args__\<close> are excluded: they are taken for the wrapper of a plain value.\<close>

theorem call_result_end_to_end:
  assumes "world_inv w" "abs_record i w = Some cur" "sr_status cur = Running" "sr_runner cur = Some runner"
    and "validate_routing (queue rc) (priority rc) = Inr ()" "attempt \<noteq> -1"
    and "serde_text_ok (sv_libs sv)" "tk_to_value tk p = Some v" "object_ok v" "\<not> reserved_object v"
    and "tk_from_str tk (json_to_string (sv_libs sv) v) = Some p"
    and "\<And>r. \<exists>t. tk_result_text tk r = Some t \<and> tk_result_from_str tk t = Some r"
    and "params_to_serialized_arguments (sv_libs sv) tk p = Inr args"
    and "dyn_execute (sv_libs sv) tk args s = (outcome, s')"
    and "finish_attempt sv e ts i runner t args c rc n attempt timed_out delay outcome w = (x, w')"
  shows "handle_result tk i w' w' =
    (case fst (tk_run tk p s) of
       Inr r \<Rightarrow> Inr r
     | Inl err \<Rightarrow>
         Inl (if should_retry c rc n timed_out (err_type (task_error_of ts err)) then Internal
              else Infrastructure Other))"
proof -
  have "serialized_args_to_json (sv_libs sv) args = Inr (json_to_string (sv_libs sv) v)"
    using arguments_reach [OF assms(7,9,10)] assms(8,13) by (simp add: params_to_serialized_arguments_def serde_def)
  then have exec: "and_then (tk_run tk p s) (\<lambda>r s. (serde (tk_result_text tk r), s)) = (outcome, s')"
    using assms(11,14) by (simp add: dyn_execute_def serde_def)
  note finish = attempt_end [OF assms(1-6,15)]
  have st: "left_as i st w' \<Longrightarrow> handle_status i w' = Inr st" for st
    by (auto simp: left_as_def handle_status_def get_invocation_status_def abs_record_def)
  obtain out s2 where run: "tk_run tk p s = (out, s2)" by force
  show ?thesis
  proof (cases out)
    case (Inr r)
    obtain raw where raw: "tk_result_text tk r = Some raw" "tk_result_from_str tk raw = Some r" using assms(12) by blast
    then have "outcome = Inr raw" using exec run Inr by (simp add: serde_def)
    then show ?thesis using finish run Inr raw(2) st [of Success] by (simp add: handle_result_def serde_def)
  next
    case (Inl err)
    then have "outcome = Inl err" using exec run by simp
    then show ?thesis using finish run Inl st [of Failed] st [of Retry] by (simp add: handle_result_def Let_def)
  qed
qed

text \<open>A printer of JSON, and a task with one string parameter that doubles it.\<close>

fun ex_json_text :: "json \<Rightarrow> str" where
  "ex_json_text (JObject fs) =
     ''{'' @ join '','' (map (\<lambda>(k, x). (CHR 34 # k @ [CHR 34]) @ '':'' @ ex_json_text x) fs) @ ''}''"
| "ex_json_text (JArray xs) = ''['' @ join '','' (map ex_json_text xs) @ '']''"
| "ex_json_text (JString x) = CHR 34 # x @ [CHR 34]"
| "ex_json_text (JNumber x) = x"
| "ex_json_text (JBool b) = (if b then ''true'' else ''false'')"
| "ex_json_text JNull = ''null''"

definition ex_serde :: service where
  "ex_serde = ex_service\<lparr>sv_libs := ex_libs\<lparr>json_str := (\<lambda>k. CHR 34 # k @ [CHR 34]), json_to_string := ex_json_text,
                                            json_from_str := (\<lambda>_. Some JNull)\<rparr>\<rparr>"

definition ex_double :: "(str, str, unit) App_Calls.task" where
  "ex_double = \<lparr>tk_task_id = ex_task, tk_config = task_config_default, tk_run = (\<lambda>p s. (Inr (p @ p), s)),
     tk_to_value = (\<lambda>p. Some (JObject [(''x'', JString p)])),
     tk_from_str = (\<lambda>t. Some (take (length t - 8) (drop 6 t))),
     tk_result_text = Some, tk_result_from_str = Some\<rparr>"

lemma ex_serde_ok: "serde_text_ok (sv_libs ex_serde)"
  by (simp add: serde_text_ok_def ex_serde_def)

theorem call_result_end_to_end_witness:
  "\<exists>args. params_to_serialized_arguments (sv_libs ex_serde) ex_double ''5'' = Inr args \<and>
     (let (outcome, _) = dyn_execute (sv_libs ex_serde) ex_double args ();
          (_, w) = finish_attempt ex_serde (sorted_env 3) (\<lambda>_. []) ''i'' ''r'' ex_task args
             task_config_default task_config_default 0 0 False 0 outcome ex_world
      in handle_result ex_double ''i'' w w = Inr ''55'')"
proof -
  let ?l = "sv_libs ex_serde" and ?v = "JObject [(''x'', JString ''5'')]"
  obtain args where a: "params_to_serialized_arguments ?l ex_double ''5'' = Inr args"
    by (simp add: params_to_serialized_arguments_def ex_double_def serde_def)
  obtain outcome s' where d: "dyn_execute ?l ex_double args () = (outcome, s')" by (rule prod.exhaust)
  obtain x w' where f: "finish_attempt ex_serde (sorted_env 3) (\<lambda>_. []) ''i'' ''r'' ex_task args
      task_config_default task_config_default 0 0 False 0 outcome ex_world = (x, w')" by force
  have v: "validate_routing (queue task_config_default) (priority task_config_default) = Inr ()"
    by (simp add: task_config_default_def validate_routing_zero default_queue_ok)
  have rec: "abs_record ''i'' ex_world = Some (status_record_new 2 Running (Some ''r''))" by (simp add: abs_record_def)
  have "handle_result ex_double ''i'' w' w' = Inr ''55''"
    using call_result_end_to_end [OF ex_world_inv rec _ _ v _ ex_serde_ok _ _ _ _ _ a d f, of ?v]
    by (simp add: status_record_new_def ex_double_def ex_serde_def reserved_object_def ARGS_KEY_def)
  then show ?thesis using a d f by auto
qed

text \<open>Waiting ends with the first poll that finds the invocation finished.\<close>

lemma wait_returns:
  assumes "\<And>b. b \<in> set polled \<Longrightarrow> is_done i b = Inr False" "is_done i w = Inr True"
  shows "wait_poll tk i (polled @ w # w1 # w2 # later) = Some (handle_result tk i w1 w2)"
  using assms by (induction polled) auto

section \<open>The local retry loop\<close>

fun body_runs :: "('p, 'r, 's) task \<Rightarrow> 'p \<Rightarrow> nat \<Rightarrow> 's \<Rightarrow> ('r result \<times> 's) list" where
  "body_runs tk p 0 s = []"
| "body_runs tk p (Suc n) s = tk_run tk p s # body_runs tk p n (snd (tk_run tk p s))"

lemma sync_attempts_spec:
  assumes "sync_attempts tk p (Suc n) err0 s = (r, s')"
  shows "\<exists>k \<le> n. (\<forall>j<k. isl (fst (body_runs tk p (Suc n) s ! j))) \<and> body_runs tk p (Suc n) s ! k = (r, s') \<and>
     (isl r \<longrightarrow> k = n)"
  using assms
proof (induction n arbitrary: err0 s)
  case 0
  then show ?case by (auto split: prod.splits sum.splits)
next
  case (Suc n)
  obtain out s1 where run: "tk_run tk p s = (out, s1)" by force
  show ?case
  proof (cases out)
    case (Inr v)
    then show ?thesis using Suc.prems run by (intro exI [of _ 0]) auto
  next
    case (Inl err)
    then obtain k where k: "k \<le> n" "\<forall>j<k. isl (fst (body_runs tk p (Suc n) s1 ! j))"
      "body_runs tk p (Suc n) s1 ! k = (r, s')" "isl r \<longrightarrow> k = n"
      using Suc.IH [of "Some err" s1] Suc.prems run by auto
    have "isl (fst (body_runs tk p (Suc (Suc n)) s ! j))" if "j < Suc k" for j
      using that k(2) run Inl by (cases j) auto
    then show ?thesis using k run by (intro exI [of _ "Suc k"]) auto
  qed
qed

text \<open>The local retry loop: the body runs at most \<^verbatim>\<open>max_retries + 1\<close> times and stops at its first
  success, whose value is the result; otherwise the result is the last error. The invocation returned is
  finished, with the status that goes with its result.\<close>

theorem sync_retries_stop_at_success:
  "\<exists>k \<le> unat (max_retries (tk_config tk)).
     let runs = body_runs tk p (Suc (unat (max_retries (tk_config tk)))) s;
         (si, s') = run_sync_with_retries tk fresh p s
     in (\<forall>j<k. isl (fst (runs ! j))) \<and> runs ! k = (si_result si, s') \<and>
        (isl (si_result si) \<longrightarrow> k = unat (max_retries (tk_config tk))) \<and>
        si_status si = (if isl (si_result si) then Failed else Success) \<and> si_invocation_id si = fresh"
proof -
  obtain r s' where run: "sync_attempts tk p (Suc (unat (max_retries (tk_config tk)))) None s = (r, s')" by force
  have "\<exists>si. run_sync_with_retries tk fresh p s = (si, s') \<and> si_result si = r \<and> si_invocation_id si = fresh \<and>
      si_status si = (if isl r then Failed else Success)"
    using run by (cases r) (auto simp: run_sync_with_retries_def sync_success_def sync_failed_def)
  then show ?thesis using sync_attempts_spec [OF run] by (force simp del: body_runs.simps)
qed

text \<open>A body that fails on its first run, with one retry allowed.\<close>

definition ex_flaky :: "(str, str, nat) App_Calls.task" where
  "ex_flaky = \<lparr>tk_task_id = ex_task, tk_config = task_config_default\<lparr>max_retries := 1\<rparr>,
     tk_run = (\<lambda>p s. (if s = 0 then Inl RetryError else Inr p, Suc s)), tk_to_value = (\<lambda>_. None),
     tk_from_str = Some, tk_result_text = Some, tk_result_from_str = Some\<rparr>"

theorem sync_retries_stop_at_success_witness:
  "si_result (fst (run_sync_with_retries ex_flaky ''n'' ''v'' 0)) = Inr ''v'' \<and>
   snd (run_sync_with_retries ex_flaky ''n'' ''v'' 0) = 2"
proof -
  obtain si s' where run: "run_sync_with_retries ex_flaky ''n'' ''v'' 0 = (si, s')" by force
  have runs: "body_runs ex_flaky ''v'' 2 0 = [(Inl RetryError, 1), (Inr ''v'', 2)]"
    by (simp add: numeral_2_eq_2 ex_flaky_def)
  have cfg: "max_retries (tk_config ex_flaky) = 1" by (simp add: ex_flaky_def)
  obtain k where "k \<le> 1" "[(Inl RetryError, 1), (Inr ''v'', 2)] ! k = (si_result si, s')" "isl (si_result si) \<longrightarrow> k = 1"
    using sync_retries_stop_at_success [of ex_flaky "''v''" 0 "''n''"] by (auto simp: run cfg runs numeral_2_eq_2 [symmetric] Let_def)
  then show ?thesis by (cases k; cases "si_result si") (auto simp: run)
qed

end
