(* ===== verification/Trigger_Builder.thy ===== *)
theory Trigger_Builder
  imports Service_Spec
begin

text \<open>
  The fluent builder of triggers, \<^verbatim>\<open>rustvello/src/trigger_builder.rs\<close>, over the in-memory trigger
  store.
\<close>

section \<open>The builder\<close>

record trigger_builder =
  tb_conditions :: "trigger_condition list"
  tb_logic :: trigger_logic
  tb_argument_template :: "json option"

definition builder_new :: trigger_builder where
  "builder_new = \<lparr>tb_conditions = [], tb_logic = TAnd, tb_argument_template = None\<rparr>"

definition push_condition :: "trigger_condition \<Rightarrow> trigger_builder \<Rightarrow> trigger_builder" where
  "push_condition c b = b\<lparr>tb_conditions := tb_conditions b @ [c]\<rparr>"

definition on_cron_with_interval :: "libs \<Rightarrow> str \<Rightarrow> u64 \<Rightarrow> trigger_builder \<Rightarrow> trigger_builder result" where
  "on_cron_with_interval l expression interval b =
     (if cron_parse l expression = None then Inl Configuration
      else Inr (push_condition (CronCond \<lparr>cron_expression = expression, min_interval_seconds = interval\<rparr>) b))"

definition on_cron :: "libs \<Rightarrow> str \<Rightarrow> trigger_builder \<Rightarrow> trigger_builder result" where
  "on_cron l expression b = on_cron_with_interval l expression 50 b"

definition on_status :: "task_id \<Rightarrow> invocation_status list \<Rightarrow> trigger_builder \<Rightarrow> trigger_builder" where
  "on_status t statuses b =
     push_condition (StatusCond \<lparr>sc_task_id = t, sc_statuses = statuses, sc_argument_filter = None\<rparr>) b"

definition on_event :: "str \<Rightarrow> trigger_builder \<Rightarrow> trigger_builder" where
  "on_event code b = push_condition (EventCond \<lparr>ec_event_code = code, ec_payload_filter = None\<rparr>) b"

definition on_result :: "task_id \<Rightarrow> trigger_builder \<Rightarrow> trigger_builder" where
  "on_result t b =
     push_condition (ResultCond \<lparr>rc_task_id = t, rc_argument_filter = None, rc_result_filter = None\<rparr>) b"

definition on_any_result :: "task_id \<Rightarrow> trigger_builder \<Rightarrow> trigger_builder" where
  "on_any_result t b = on_result t b"

definition on_exception :: "task_id \<Rightarrow> str list \<Rightarrow> trigger_builder \<Rightarrow> trigger_builder" where
  "on_exception t types b =
     push_condition (ExceptionCond \<lparr>xc_task_id = t, xc_exception_types = types, xc_argument_filter = None\<rparr>) b"

definition with_logic :: "trigger_logic \<Rightarrow> trigger_builder \<Rightarrow> trigger_builder" where
  "with_logic logic b = b\<lparr>tb_logic := logic\<rparr>"

definition with_static_args :: "json \<Rightarrow> trigger_builder \<Rightarrow> trigger_builder" where
  "with_static_args args b = b\<lparr>tb_argument_template := Some args\<rparr>"

definition build :: "libs \<Rightarrow> task_id \<Rightarrow> trigger_builder \<Rightarrow> trigger_definition result" where
  "build l t b =
     (if tb_conditions b = [] then Inl Configuration
      else
        (let condition_ids = map (condition_id l) (tb_conditions b)
         in Inr \<lparr>td_trigger_id = compute_trigger_id l t condition_ids (tb_logic b), td_task_id = t,
                 td_condition_ids = condition_ids, td_logic = tb_logic b,
                 td_argument_template = tb_argument_template b\<rparr>))"

fun register_conditions ::
    "libs \<Rightarrow> trigger_condition list \<Rightarrow> trigger_state \<Rightarrow> str list result \<times> trigger_state" where
  "register_conditions l [] s = (Inr [], s)"
| "register_conditions l (c # cs) s =
     and_then (register_condition l c s) (\<lambda>cid s.
     and_then (register_conditions l cs s) (\<lambda>cids s. (Inr (cid # cids), s)))"

definition build_and_register ::
    "libs \<Rightarrow> task_id \<Rightarrow> trigger_builder \<Rightarrow> trigger_state \<Rightarrow> trigger_definition result \<times> trigger_state" where
  "build_and_register l t b s =
     (if tb_conditions b = [] then (Inl Configuration, s)
      else
        and_then (register_conditions l (tb_conditions b) s) (\<lambda>condition_ids s.
          let definition = \<lparr>td_trigger_id = compute_trigger_id l t condition_ids (tb_logic b), td_task_id = t,
                 td_condition_ids = condition_ids, td_logic = tb_logic b,
                 td_argument_template = tb_argument_template b\<rparr>
          in and_then (register_trigger definition s) (\<lambda>_ s. (Inr definition, s))))"

section \<open>Registration\<close>

lemma register_conditions_spec:
  "\<exists>s'. register_conditions l cs s = (Inr (map (condition_id l) cs), s') \<and> store_calls s s' \<and>
     ts_triggers s' = ts_triggers s \<and>
     ts_conditions s' = ts_conditions s ++ map_of (rev (map (\<lambda>c. (condition_id l c, c)) cs)) \<and>
     (\<forall>code. set (ml_get (ts_event_conditions s') code) =
        set (ml_get (ts_event_conditions s) code) \<union>
        condition_id l ` {c \<in> set cs. \<exists>ev. c = EventCond ev \<and> ec_event_code ev = code})"
proof (induction cs arbitrary: s)
  case (Cons c cs)
  obtain s1 where s1: "register_condition l c s = (Inr (condition_id l c), s1)"
    "ts_conditions s1 = (ts_conditions s)(condition_id l c \<mapsto> c)" "ts_triggers s1 = ts_triggers s"
    "\<And>code. set (ml_get (ts_event_conditions s1) code) = set (ml_get (ts_event_conditions s) code) \<union>
        (if \<exists>ev. c = EventCond ev \<and> ec_event_code ev = code then {condition_id l c} else {})"
    by (force simp: register_condition_def Let_def set_ml_get_push_new split: trigger_condition.split)
  have calls: "store_calls s s1" using store_calls_op [of "RegisterCondition c" s l] s1(1) by simp
  obtain s' where s': "register_conditions l cs s1 = (Inr (map (condition_id l) cs), s')" "store_calls s1 s'"
    "ts_triggers s' = ts_triggers s1"
    "ts_conditions s' = ts_conditions s1 ++ map_of (rev (map (\<lambda>c. (condition_id l c, c)) cs))"
    "\<And>code. set (ml_get (ts_event_conditions s') code) = set (ml_get (ts_event_conditions s1) code) \<union>
        condition_id l ` {c \<in> set cs. \<exists>ev. c = EventCond ev \<and> ec_event_code ev = code}"
    using Cons.IH [of s1] by blast
  show ?case
  proof (intro exI conjI allI)
    show "register_conditions l (c # cs) s = (Inr (map (condition_id l) (c # cs)), s')" using s1(1) s'(1) by simp
    show "store_calls s s'" using s'(2) calls by (rule store_calls_trans)
    show "ts_conditions s' = ts_conditions s ++ map_of (rev (map (\<lambda>c. (condition_id l c, c)) (c # cs)))"
      using s'(4) s1(2) by (simp add: map_add_assoc)
    show "set (ml_get (ts_event_conditions s') code) = set (ml_get (ts_event_conditions s) code) \<union>
        condition_id l ` {c' \<in> set (c # cs). \<exists>ev. c' = EventCond ev \<and> ec_event_code ev = code}" for code
      unfolding s'(5) s1(4) by auto
  qed (use s1(3) s'(3) in simp)
qed simp

text \<open>What registering leaves in the store.\<close>

lemma build_and_register_spec:
  assumes "build_and_register l t b s = (r, s')"
  shows "r = build l t b" "store_calls s s'"
    "r = Inr d \<Longrightarrow> ts_triggers s' = (ts_triggers s)(td_trigger_id d \<mapsto> d)"
    "r = Inr d \<Longrightarrow> ts_conditions s' = ts_conditions s ++ map_of (rev (map (\<lambda>c. (condition_id l c, c)) (tb_conditions b)))"
    "r = Inr d \<Longrightarrow> td_condition_ids d = map (condition_id l) (tb_conditions b)"
    "r = Inr d \<Longrightarrow> EventCond ev \<in> set (tb_conditions b) \<Longrightarrow>
       condition_id l (EventCond ev) \<in> set (ml_get (ts_event_conditions s') (ec_event_code ev))"
    "r = Inl err \<Longrightarrow> tb_conditions b = [] \<and> s' = s"
proof -
  obtain s1 where s1: "register_conditions l (tb_conditions b) s = (Inr (map (condition_id l) (tb_conditions b)), s1)"
    "store_calls s s1" "ts_triggers s1 = ts_triggers s"
    "ts_conditions s1 = ts_conditions s ++ map_of (rev (map (\<lambda>c. (condition_id l c, c)) (tb_conditions b)))"
    "\<forall>code. set (ml_get (ts_event_conditions s1) code) = set (ml_get (ts_event_conditions s) code) \<union>
        condition_id l ` {c \<in> set (tb_conditions b). \<exists>ev. c = EventCond ev \<and> ec_event_code ev = code}"
    using register_conditions_spec by blast
  have calls: "store_calls s1 (snd (register_trigger d s1))" for d
    using store_calls_op [of "RegisterTrigger d" s1] by simp
  show "r = build l t b" "r = Inl err \<Longrightarrow> tb_conditions b = [] \<and> s' = s"
    using assms s1(1) by (auto simp: build_and_register_def build_def Let_def register_trigger_def split: if_splits)
  have new: "s' = snd (register_trigger d s1) \<and> build l t b = Inr d" if "r = Inr d" for d
    using assms s1(1) that by (auto simp: build_and_register_def build_def Let_def register_trigger_def split: if_splits)
  show "store_calls s s'"
  proof (cases r)
    case (Inl err)
    then show ?thesis using assms s1(1) by (auto simp: build_and_register_def Let_def register_trigger_def split: if_splits)
  next
    case (Inr d)
    then show ?thesis using new store_calls_trans [OF calls s1(2)] by blast
  qed
  assume d: "r = Inr d"
  have s': "s' = snd (register_trigger d s1)" and b: "build l t b = Inr d" using new d by blast+
  show "ts_triggers s' = (ts_triggers s)(td_trigger_id d \<mapsto> d)"
    "ts_conditions s' = ts_conditions s ++ map_of (rev (map (\<lambda>c. (condition_id l c, c)) (tb_conditions b)))"
    by (simp_all add: s' register_trigger_def s1)
  show "td_condition_ids d = map (condition_id l) (tb_conditions b)"
    using b by (auto simp: build_def Let_def split: if_splits)
  assume "EventCond ev \<in> set (tb_conditions b)"
  then show "condition_id l (EventCond ev) \<in> set (ml_get (ts_event_conditions s') (ec_event_code ev))"
    using s1(5) by (simp add: s' register_trigger_def del: condition_id.simps)
qed

section \<open>Events reach the trigger\<close>

lemma valid_id_cancel:
  "valid_condition_id (valid_condition_new l cid ctx) = valid_condition_id (valid_condition_new l cid' ctx) \<longleftrightarrow> cid = cid'"
  by (simp add: valid_condition_new_def)

lemma record_satisfied_state:
  "snd (record_satisfied l ctx ((cid, c) # cs) s) =
     (if is_satisfied_by l c ctx
      then snd (record_satisfied l ctx cs (snd (record_valid_condition (valid_condition_new l cid ctx) s)))
      else snd (record_satisfied l ctx cs s))"
  by (auto simp: record_valid_condition_def Let_def and_then_def split: prod.split sum.split)

lemma record_satisfied_stores:
  "ts_valid_conditions (snd (record_satisfied l ctx cs s)) (valid_condition_id (valid_condition_new l cid ctx)) =
     (if \<exists>c. (cid, c) \<in> set cs \<and> is_satisfied_by l c ctx then Some (valid_condition_new l cid ctx)
      else ts_valid_conditions s (valid_condition_id (valid_condition_new l cid ctx)))"
proof (induction cs arbitrary: s)
  case (Cons x cs)
  then show ?case
    by (cases x) (auto simp: record_satisfied_state record_valid_condition_def valid_id_cancel
        simp del: record_satisfied.simps)
qed simp

lemma record_satisfied_triggers: "ts_triggers (snd (record_satisfied l ctx cs s)) = ts_triggers s"
proof (induction cs arbitrary: s)
  case (Cons x cs)
  then show ?case
    by (cases x) (simp add: record_satisfied_state record_valid_condition_def del: record_satisfied.simps)
qed simp

lemma record_satisfied_conditions:
  "ts_conditions (snd (record_satisfied l ctx cs s)) = ts_conditions s"
  "ts_event_conditions (snd (record_satisfied l ctx cs s)) = ts_event_conditions s"
proof (induction cs arbitrary: s)
  case (Cons x cs)
  case 1
  then show ?case using Cons.IH by (cases x) (simp add: record_satisfied_state record_valid_condition_def del: record_satisfied.simps)
  case 2
  then show ?case using Cons.IH by (cases x) (simp add: record_satisfied_state record_valid_condition_def del: record_satisfied.simps)
qed simp_all

lemma emit_event_state:
  assumes "emit_event l e fresh emitter runner code payload s = (r, s')"
  obtains r0 r1 s1 where
    "s1 = snd (record_satisfied l (EventCtx \<lparr>ex_event_id = fresh, ex_event_code = code, ex_payload = payload\<rparr>)
            (get_event_conditions code (snd (store_event r0 s))) (snd (store_event r0 s)))"
    "s' = s1 \<or> s' = snd (store_event r1 s1)"
proof -
  let ?ctx = "EventCtx \<lparr>ex_event_id = fresh, ex_event_code = code, ex_payload = payload\<rparr>"
  let ?r0 = "\<lparr>ev_event_id = fresh, ev_event_code = code, ev_payload = payload, ev_timestamp = now e,
     ev_matched_condition_ids = [], ev_valid_condition_ids = [], ev_triggered_invocation_ids = [],
     ev_by_invocation_id = map_option fst emitter, ev_by_task_id = map_option snd emitter, ev_by_runner_id = Some runner\<rparr>"
  let ?s0 = "snd (store_event ?r0 s)"
  obtain vs s1 where rs: "record_satisfied l ?ctx (get_event_conditions code ?s0) ?s0 = (Inr vs, s1)"
    using record_satisfied_ok by (metis prod.collapse)
  let ?r1 = "?r0\<lparr>ev_matched_condition_ids := map vc_condition_id vs, ev_valid_condition_ids := map valid_condition_id vs\<rparr>"
  have "s' = s1 \<or> s' = snd (store_event ?r1 s1)"
    using assms rs by (auto simp: emit_event_def Let_def)
  then show thesis using that [of s1 ?r0 ?r1] rs by simp
qed

text \<open>The store listens for an event on behalf of a trigger, and the operations that leave it so: all but a purge, the removal of
  the triggers of its task, and registrations that put something else under the id of the trigger or of the condition.\<close>

definition listening :: "libs \<Rightarrow> trigger_definition \<Rightarrow> event_condition \<Rightarrow> trigger_state \<Rightarrow> bool" where
  "listening l d ec s \<longleftrightarrow>
     ts_triggers s (td_trigger_id d) = Some d \<and> ts_conditions s (condition_id l (EventCond ec)) = Some (EventCond ec) \<and>
     condition_id l (EventCond ec) \<in> set (ml_get (ts_event_conditions s) (ec_event_code ec))"

fun spares_trigger :: "libs \<Rightarrow> trigger_definition \<Rightarrow> event_condition \<Rightarrow> trigger_op \<Rightarrow> bool" where
  "spares_trigger l d ec (RegisterCondition c) \<longleftrightarrow> condition_id l c = condition_id l (EventCond ec) \<longrightarrow> c = EventCond ec"
| "spares_trigger l d ec (RegisterTrigger t) \<longleftrightarrow> td_trigger_id t = td_trigger_id d \<longrightarrow> t = d"
| "spares_trigger l d ec (RemoveTriggersFor t) \<longleftrightarrow> display_task_id t \<noteq> display_task_id (td_task_id d)"
| "spares_trigger l d ec PurgeTriggers \<longleftrightarrow> False"
| "spares_trigger l d ec _ \<longleftrightarrow> True"

text \<open>And those that leave a valid condition in the store.\<close>

fun spares_valid :: "valid_condition \<Rightarrow> trigger_op \<Rightarrow> bool" where
  "spares_valid vc (RecordValid vc') \<longleftrightarrow> valid_condition_id vc' = valid_condition_id vc \<longrightarrow> vc' = vc"
| "spares_valid vc (ClearValid ids) \<longleftrightarrow> valid_condition_id vc \<notin> set ids"
| "spares_valid vc (ClaimBatch rs ids) \<longleftrightarrow> valid_condition_id vc \<notin> set ids"
| "spares_valid vc PurgeTriggers \<longleftrightarrow> False"
| "spares_valid vc _ \<longleftrightarrow> True"

lemma remove_trigger_ids_frame:
  "i \<notin> set is \<Longrightarrow> ts_triggers (remove_trigger_ids is s) i = ts_triggers s i"
  "ts_conditions (remove_trigger_ids is s) = ts_conditions s" "ts_event_conditions (remove_trigger_ids is s) = ts_event_conditions s"
  "ts_valid_conditions (remove_trigger_ids is s) = ts_valid_conditions s"
  by (induction "is" arbitrary: s) (auto split: option.splits)

lemma claim_records_conditions [simp]:
  "ts_conditions (snd (claim_records e rs s)) = ts_conditions s" "ts_event_conditions (snd (claim_records e rs s)) = ts_event_conditions s"
  unfolding claim_records_state by (induction rs arbitrary: s) (simp_all add: claim_record_def Let_def)

lemma listening_exec:
  assumes "listening l d ec s" "spares_trigger l d ec op"
  shows "listening l d ec (trigger_exec l e op s)"
proof (cases op)
  case (RegisterCondition c)
  then show ?thesis
    using assms by (auto simp: listening_def register_condition_def Let_def set_ml_get_push_new simp del: condition_id.simps
        split: trigger_condition.split)
next
  case (RemoveTriggersFor t)
  let ?ids = "filter (\<lambda>i. case ts_triggers s i of None \<Rightarrow> False | Some d \<Rightarrow> display_task_id (td_task_id d) = display_task_id t)
    (hash_order e (dom (ts_triggers s)))"
  have "td_trigger_id d \<notin> set ?ids" using assms RemoveTriggersFor by (auto simp: listening_def)
  then show ?thesis
    using assms(1) RemoveTriggersFor unfolding listening_def by (simp add: remove_triggers_for_task_def Let_def remove_trigger_ids_frame)
qed (use assms in \<open>auto simp: listening_def register_trigger_def record_valid_condition_def clear_valid_eq store_cron_execution_def
      claim_trigger_run_def store_event_def store_trigger_run_def claim_batch_eq\<close>)

lemma valid_exec:
  assumes "ts_valid_conditions s (valid_condition_id vc) = Some vc" "spares_valid vc op"
  shows "ts_valid_conditions (trigger_exec l e op s) (valid_condition_id vc) = Some vc"
  using assms
  by (cases op) (auto simp: register_condition_def register_trigger_def remove_triggers_for_task_def remove_trigger_ids_frame Let_def
      record_valid_condition_def clear_valid_eq store_cron_execution_def claim_trigger_run_def store_event_def store_trigger_run_def
      claim_batch_eq restrict_map_def)

lemma listening_run: "listening l d ec s \<Longrightarrow> list_all (\<lambda>(e, op). spares_trigger l d ec op) ops \<Longrightarrow> listening l d ec (trigger_run l ops s)"
  unfolding trigger_run_def by (induction ops arbitrary: s) (auto simp: listening_exec)

lemma valid_run:
  "ts_valid_conditions s (valid_condition_id vc) = Some vc \<Longrightarrow> list_all (\<lambda>(e, op). spares_valid vc op) ops \<Longrightarrow>
     ts_valid_conditions (trigger_run l ops s) (valid_condition_id vc) = Some vc"
  unfolding trigger_run_def by (induction ops arbitrary: s) (auto simp: valid_exec)

lemma event_condition_valid:
  assumes "listening l d ec s"
    and "emit_event l e fresh emitter runner (ec_event_code ec) payload s = (r, s')"
  defines "ctx \<equiv> EventCtx \<lparr>ex_event_id = fresh, ex_event_code = ec_event_code ec, ex_payload = payload\<rparr>"
  assumes "is_satisfied_by l (EventCond ec) ctx"
  defines "vc \<equiv> valid_condition_new l (condition_id l (EventCond ec)) ctx"
  shows "ts_valid_conditions s' (valid_condition_id vc) = Some vc" "ts_triggers s' = ts_triggers s"
    "ts_conditions s' = ts_conditions s" "ts_event_conditions s' = ts_event_conditions s" "store_calls s s'"
proof -
  let ?cid = "condition_id l (EventCond ec)"
  obtain r0 r1 s1 where s1: "s1 = snd (record_satisfied l ctx
      (get_event_conditions (ec_event_code ec) (snd (store_event r0 s))) (snd (store_event r0 s)))"
    "s' = s1 \<or> s' = snd (store_event r1 s1)"
    using emit_event_state [OF assms(2)] unfolding ctx_def by metis
  let ?s0 = "snd (store_event r0 s)"
  have "(?cid, EventCond ec) \<in> set (get_event_conditions (ec_event_code ec) ?s0)"
    using assms(1) by (auto simp: listening_def get_event_conditions_def indexed_conditions_def set_map_filter store_event_def
        simp del: condition_id.simps)
  then have "ts_valid_conditions s1 (valid_condition_id vc) = Some vc"
    unfolding s1(1) vc_def record_satisfied_stores using assms(4) by auto
  then show "ts_valid_conditions s' (valid_condition_id vc) = Some vc" using s1(2) by (auto simp: store_event_def)
  show "ts_triggers s' = ts_triggers s" "ts_conditions s' = ts_conditions s" "ts_event_conditions s' = ts_event_conditions s"
    using s1 by (auto simp: record_satisfied_triggers record_satisfied_conditions store_event_def)
  show "store_calls s s'"
    using s1 store_calls_trans [OF record_satisfied_calls store_calls_ops(3)] store_calls_trans [OF store_calls_ops(3)]
    by blast
qed

lemma event_run_recorded:
  assumes "trigger_inv s" "hash_order_ok (hash_order e')" "listening l d ec s"
    and "td_logic d = TOr" "condition_id l (EventCond ec) \<in> set (td_condition_ids d)"
    and "emit_event l e fresh emitter runner (ec_event_code ec) payload s = (ev, s1)"
  defines "ctx \<equiv> EventCtx \<lparr>ex_event_id = fresh, ex_event_code = ec_event_code ec, ex_payload = payload\<rparr>"
  assumes "is_satisfied_by l (EventCond ec) ctx"
  defines "vc \<equiv> valid_condition_new l (condition_id l (EventCond ec)) ctx"
  assumes "list_all (\<lambda>(e, op). spares_trigger l d ec op \<and> spares_valid vc op) ops"
  shows "run_id_of d [valid_condition_id vc] \<in> dom (ts_trigger_runs (snd (evaluate_trigger_runs l e' (trigger_run l ops s1))))"
proof -
  note em = event_condition_valid [OF assms(3,6), folded ctx_def, OF assms(8), folded vc_def]
  let ?s2 = "trigger_run l ops s1"
  have "listening l d ec s1" using assms(3) em(2-4) by (simp add: listening_def)
  have spared: "list_all (\<lambda>(e, op). spares_trigger l d ec op) ops" "list_all (\<lambda>(e, op). spares_valid vc op) ops"
    using assms(10) unfolding list_all_iff by fastforce+
  have listen: "listening l d ec ?s2" by (rule listening_run [OF _ spared(1)]) fact
  have valid: "ts_valid_conditions ?s2 (valid_condition_id vc) = Some vc" by (rule valid_run [OF em(1) spared(2)])
  have inv: "trigger_inv ?s2" by (rule trigger_run_inv [OF store_calls_inv [OF em(5) assms(1)]])
  have cid: "vc_condition_id vc = condition_id l (EventCond ec)" by (simp add: vc_def valid_condition_new_def)
  have d: "d \<in> ran (ts_triggers ?s2)" and v: "vc \<in> ran (ts_valid_conditions ?s2)"
    using listen valid by (auto simp: listening_def intro: ranI)
  have "fires (ran (ts_valid_conditions ?s2)) d" using assms(4,5) v cid by (force simp: fires_def)
  then have "firing_recorded (ran (ts_valid_conditions ?s2)) (dom (ts_trigger_runs (snd (evaluate_trigger_runs l e' ?s2)))) d"
    by (rule firings_stored [OF assms(2) inv prod.collapse [symmetric] d])
  then show ?thesis using assms(4,5) v cid by (simp add: firing_recorded_def)
qed

lemma registered_condition:
  assumes "build_and_register l t b s = (Inr d, s1)" "c \<in> set (tb_conditions b)"
  shows "\<exists>c' \<in> set (tb_conditions b). condition_id l c' = condition_id l c \<and> get_condition (condition_id l c) s1 = Some c'"
proof -
  let ?m = "map_of (rev (map (\<lambda>c. (condition_id l c, c)) (tb_conditions b)))"
  have "condition_id l c \<in> dom ?m" using assms(2) by (simp add: dom_map_of_conv_image_fst image_image)
  then obtain c' where "?m (condition_id l c) = Some c'" by blast
  then show ?thesis using build_and_register_spec(4) [OF assms(1) refl] map_of_SomeD [of _ "condition_id l c" c']
    by (fastforce simp: get_condition_def)
qed

lemma registered_listens:
  assumes "build_and_register l t b s = (Inr d, s1)" "EventCond ec \<in> set (tb_conditions b)" "inj_on (condition_id l) (set (tb_conditions b))"
  shows "listening l d ec s1"
proof -
  note spec = build_and_register_spec [OF assms(1)]
  have "ts_conditions s1 (condition_id l (EventCond ec)) = Some (EventCond ec)"
    using registered_condition [OF assms(1,2)] assms(2,3) unfolding get_condition_def inj_on_def by metis
  then show ?thesis using spec(3) [OF refl] spec(6) [OF refl assms(2)] by (simp add: listening_def del: condition_id.simps)
qed

section \<open>Properties\<close>

text \<open>C24. Registering a trigger does what building it says: the definition returned is that of \<^verbatim>\<open>build\<close>,
  a builder without conditions is refused and changes nothing, otherwise the trigger and each of its
  conditions are in the store. And a trigger on alternatives starts on its events: for an event condition of it, with or without
  a filter, and an event that satisfies it, emitted any time later, an evaluation any time after that records a run of the trigger
  for that very event, whatever the store did between, other events included. Between the registration and the evaluation the
  trigger and the condition are not removed or replaced, and between the emission and the evaluation nobody consumes or replaces the recorded
  event (an evaluation that consumes it is one that records the run). No two conditions of the builder share an id.\<close>

theorem built_trigger_starts_on_event:
  assumes "trigger_inv s" "hash_order_ok (hash_order e')"
    and "build_and_register l t b s = (r, s1)"
  shows "r = build l t b \<and>
    (case r of
       Inl err \<Rightarrow> tb_conditions b = [] \<and> s1 = s
     | Inr d \<Rightarrow>
         get_trigger (td_trigger_id d) s1 = Some d \<and>
         (\<forall>c \<in> set (tb_conditions b). \<exists>c' \<in> set (tb_conditions b).
            condition_id l c' = condition_id l c \<and> get_condition (condition_id l c) s1 = Some c') \<and>
         (tb_logic b = TOr \<and> inj_on (condition_id l) (set (tb_conditions b)) \<longrightarrow>
          (\<forall>ec before after payload e fresh emitter runner.
             let ctx = EventCtx \<lparr>ex_event_id = fresh, ex_event_code = ec_event_code ec, ex_payload = payload\<rparr>;
                 vc = valid_condition_new l (condition_id l (EventCond ec)) ctx;
                 s2 = trigger_run l before s1;
                 s3 = snd (emit_event l e fresh emitter runner (ec_event_code ec) payload s2);
                 s4 = trigger_run l after s3
             in EventCond ec \<in> set (tb_conditions b) \<and> is_satisfied_by l (EventCond ec) ctx \<and>
                list_all (\<lambda>(e, op). spares_trigger l d ec op) before \<and>
                list_all (\<lambda>(e, op). spares_trigger l d ec op \<and> spares_valid vc op) after \<longrightarrow>
                run_id_of d [valid_condition_id vc] \<in> dom (ts_trigger_runs (snd (evaluate_trigger_runs l e' s4))))))"
proof -
  note spec = build_and_register_spec [OF assms(3)]
  show ?thesis
  proof (cases r)
    case (Inl err)
    then show ?thesis using spec(1,7) by simp
  next
    case (Inr d)
    note cond = registered_condition [OF assms(3) [unfolded Inr]]
    have trig: "get_trigger (td_trigger_id d) s1 = Some d" using spec(3) [OF Inr] by (simp add: get_trigger_def)
    have build: "td_logic d = tb_logic b" "td_condition_ids d = map (condition_id l) (tb_conditions b)"
      using spec(1) spec(5) [OF Inr] Inr by (auto simp: build_def Let_def split: if_splits)
    note listens = registered_listens [OF assms(3) [unfolded Inr]]
    have inv: "trigger_inv (trigger_run l before s1)" for before
      by (rule trigger_run_inv [OF store_calls_inv [OF spec(2) assms(1)]])
    have starts: "run_id_of d [valid_condition_id (valid_condition_new l (condition_id l (EventCond ec))
          (EventCtx \<lparr>ex_event_id = fresh, ex_event_code = ec_event_code ec, ex_payload = payload\<rparr>))]
        \<in> dom (ts_trigger_runs (snd (evaluate_trigger_runs l e' (trigger_run l after
            (snd (emit_event l e fresh emitter runner (ec_event_code ec) payload (trigger_run l before s1)))))))"
      if "tb_logic b = TOr" "inj_on (condition_id l) (set (tb_conditions b))" "EventCond ec \<in> set (tb_conditions b)"
        "is_satisfied_by l (EventCond ec) (EventCtx \<lparr>ex_event_id = fresh, ex_event_code = ec_event_code ec, ex_payload = payload\<rparr>)"
        "list_all (\<lambda>(e, op). spares_trigger l d ec op) before"
        "list_all (\<lambda>(e, op). spares_trigger l d ec op \<and> spares_valid (valid_condition_new l (condition_id l (EventCond ec))
          (EventCtx \<lparr>ex_event_id = fresh, ex_event_code = ec_event_code ec, ex_payload = payload\<rparr>)) op) after"
      for ec before after payload e fresh emitter runner
      by (rule event_run_recorded [OF inv assms(2) listening_run [OF listens [OF that(3,2)] that(5)] _ _ prod.collapse [symmetric] that(4,6)])
        (use build that in \<open>simp_all del: condition_id.simps\<close>)
    show ?thesis
      unfolding Inr sum.case Let_def
      by (intro conjI allI impI ballI; (elim conjE)?) (rule spec(1) [unfolded Inr] trig cond starts; assumption)+
  qed
qed

text \<open>An event emitted after the registration starts a run, another operation of the store between.\<close>

theorem built_trigger_starts_on_event_witness:
  "let b = with_logic TOr (on_event ''go'' builder_new);
       s1 = snd (build_and_register ex_libs ex_task b trigger_new);
       s2 = snd (emit_event ex_libs (sorted_env 1) ''v'' None ''r'' ''go'' JNull s1);
       s3 = trigger_run ex_libs [(sorted_env 2, StoreCron ''c'' 5 None)] s2
   in \<exists>d. fst (build_and_register ex_libs ex_task b trigger_new) = Inr d \<and>
        (\<exists>run \<in> dom (ts_trigger_runs (snd (evaluate_trigger_runs ex_libs (sorted_env 3) s3))). take 4 run = ''run_'')"
proof -
  let ?ec = "\<lparr>ec_event_code = ''go'', ec_payload_filter = None\<rparr>"
  let ?b = "with_logic TOr (on_event ''go'' builder_new)"
  obtain r s1 where b: "build_and_register ex_libs ex_task ?b trigger_new = (r, s1)" by force
  have h: "hash_order_ok (hash_order (sorted_env 3))" by simp
  note start = built_trigger_starts_on_event [OF trigger_new_inv h b]
  have tb: "tb_conditions ?b = [EventCond ?ec]" "tb_logic ?b = TOr"
    by (simp_all add: with_logic_def on_event_def push_condition_def builder_new_def)
  then obtain d where d: "r = Inr d" using start by (auto simp: build_def Let_def)
  have sat: "is_satisfied_by ex_libs (EventCond ?ec) (EventCtx \<lparr>ex_event_id = ''v'', ex_event_code = ''go'', ex_payload = JNull\<rparr>)"
    by (simp add: check_payload_filter_def)
  from start [unfolded d sum.case Let_def, THEN conjunct2, THEN conjunct2, THEN conjunct2, THEN mp,
      THEN spec [of _ ?ec], THEN spec [of _ "[]"], THEN spec [of _ "[(sorted_env 2, StoreCron ''c'' 5 None)]"], THEN spec [of _ JNull],
      THEN spec [of _ "sorted_env 1"], THEN spec [of _ "''v''"], THEN spec [of _ None], THEN spec [of _ "''r''"], THEN mp]
  have "run_id_of d [valid_condition_id (valid_condition_new ex_libs (condition_id ex_libs (EventCond ?ec))
        (EventCtx \<lparr>ex_event_id = ''v'', ex_event_code = ''go'', ex_payload = JNull\<rparr>))]
      \<in> dom (ts_trigger_runs (snd (evaluate_trigger_runs ex_libs (sorted_env 3)
      (trigger_run ex_libs [(sorted_env 2, StoreCron ''c'' 5 None)]
        (snd (emit_event ex_libs (sorted_env 1) ''v'' None ''r'' ''go'' JNull s1))))))"
    using sat by (simp add: tb trigger_run_def [of _ "[]"] del: condition_id.simps is_satisfied_by.simps)
  moreover have "take 4 (run_id_of d ids) = ''run_''" for ids by (simp add: run_id_of_def)
  ultimately have "\<exists>run \<in> dom (ts_trigger_runs (snd (evaluate_trigger_runs ex_libs (sorted_env 3)
      (trigger_run ex_libs [(sorted_env 2, StoreCron ''c'' 5 None)]
        (snd (emit_event ex_libs (sorted_env 1) ''v'' None ''r'' ''go'' JNull s1)))))). take 4 run = ''run_''" by blast
  then show ?thesis using b d by simp
qed

end
