(* ===== verification/Histogram.thy ===== *)
theory Histogram
  imports Mem_State
begin

unbundle bit_operations_syntax

text \<open>
  The occupancy histogram of the monitoring interface, \<^verbatim>\<open>rustvello-monitoring/src/histogram/mod.rs\<close>: how
  many invocations were registered, pending or running in each bucket of a time window, by task and by
  runtime. The model covers the computation of the data and of the series that are drawn; the SVG and HTML
  text is left out. Durations are integers in nanoseconds; ordered sets and maps of the code are sets and
  partial functions, listed in key order where the code iterates. The code multiplies the bucket size by the
  bucket number as \<^verbatim>\<open>i32\<close>; with at most 240 buckets this does not wrap.
\<close>

section \<open>Categories and entries\<close>

datatype histogram_category = HRegistered | HPending | HRunning

definition ALL_CATEGORIES :: "histogram_category list" where
  "ALL_CATEGORIES = [HRegistered, HPending, HRunning]"

definition category_for_status :: "invocation_status \<Rightarrow> histogram_category option" where
  "category_for_status st =
     (case st of
        Registered \<Rightarrow> Some HRegistered
      | Rerouted \<Rightarrow> Some HRegistered
      | ConcurrencyControlled \<Rightarrow> Some HRegistered
      | Pending \<Rightarrow> Some HPending
      | PendingRecovery \<Rightarrow> Some HPending
      | Retry \<Rightarrow> Some HPending
      | Running \<Rightarrow> Some HRunning
      | RunningRecovery \<Rightarrow> Some HRunning
      | _ \<Rightarrow> None)"

record histogram_entry =
  he_invocation_id :: str
  he_task_id :: str
  he_runner_id :: "str option"
  he_runner_language :: "str option"
  he_status :: invocation_status
  he_timestamp :: time

definition runner_id_for_history :: "invocation_history \<Rightarrow> str option" where
  "runner_id_for_history h =
     (case h_runner_id h of Some r \<Rightarrow> Some r | None \<Rightarrow> sr_runner (h_status_record h))"

definition from_history_with_runner_contexts ::
    "invocation_history \<Rightarrow> str \<Rightarrow> (str \<rightharpoonup> stored_runner_context) \<Rightarrow> histogram_entry" where
  "from_history_with_runner_contexts h task contexts =
     (let runner = runner_id_for_history h
      in \<lparr>he_invocation_id = h_invocation_id h, he_task_id = task, he_runner_id = runner,
          he_runner_language =
            (case runner of
               None \<Rightarrow> None
             | Some r \<Rightarrow> map_option (\<lambda>c. language_as_str (src_language c)) (contexts r)),
          he_status = sr_status (h_status_record h), he_timestamp = sr_timestamp (h_status_record h)\<rparr>)"

definition from_history :: "invocation_history \<Rightarrow> str \<Rightarrow> histogram_entry" where
  "from_history h task = from_history_with_runner_contexts h task Map.empty"

definition language_from_task_id :: "str \<Rightarrow> str" where
  "language_from_task_id t = (case split_dcolon t of None \<Rightarrow> ''unknown'' | Some (language, _) \<Rightarrow> language)"

section \<open>Buckets\<close>

abbreviation ns_per_ms :: int where
  "ns_per_ms \<equiv> 1000000"

text \<open>\<^verbatim>\<open>TimeDelta::num_milliseconds\<close> truncates toward zero.\<close>

definition num_milliseconds :: "int \<Rightarrow> int" where
  "num_milliseconds d = sgn d * (\<bar>d\<bar> div ns_per_ms)"

definition MAX_BUCKETS :: int where
  "MAX_BUCKETS = 240"

definition TARGET_BUCKETS :: int where
  "TARGET_BUCKETS = 220"

definition bucket_size_for_window :: "int \<Rightarrow> int" where
  "bucket_size_for_window duration =
     (let milliseconds = max (num_milliseconds duration) 1;
          seconds = (milliseconds + 999) div 1000;
          candidate = (if milliseconds \<le> 5000 then 250
                       else if milliseconds \<le> 30000 then 500
                       else if milliseconds \<le> 60000 then 1000
                       else if seconds \<le> 15 * 60 then 5000
                       else if seconds \<le> 60 * 60 then 15000
                       else if seconds \<le> 3 * 60 * 60 then 60000
                       else if seconds \<le> 12 * 60 * 60 then 5 * 60000
                       else if seconds \<le> 3 * 24 * 60 * 60 then 30 * 60000
                       else 60 * 60000);
          minimum_for_bucket_cap = (milliseconds + MAX_BUCKETS - 1) div MAX_BUCKETS;
          maximum_for_detail = max (milliseconds div TARGET_BUCKETS) 1
      in max (min candidate maximum_for_detail) minimum_for_bucket_cap * ns_per_ms)"

text \<open>What is collected for one bucket.\<close>

record bucket_acc =
  ba_category_ids :: "histogram_category \<Rightarrow> str set"
  ba_task_ids :: "str \<rightharpoonup> str set"
  ba_runtime_ids :: "str \<rightharpoonup> str set"
  ba_runtime_task_ids :: "str \<rightharpoonup> (str \<rightharpoonup> str set)"
  ba_runtime_runner_ids :: "str \<rightharpoonup> str set"

definition empty_acc :: bucket_acc where
  "empty_acc = \<lparr>ba_category_ids = (\<lambda>_. {}), ba_task_ids = Map.empty, ba_runtime_ids = Map.empty,
                ba_runtime_task_ids = Map.empty, ba_runtime_runner_ids = Map.empty\<rparr>"

definition mark :: "histogram_category \<Rightarrow> str \<Rightarrow> str \<Rightarrow> str \<Rightarrow> str option \<Rightarrow> bucket_acc \<Rightarrow> bucket_acc" where
  "mark category i task runtime runner a =
     a\<lparr>ba_category_ids := (ba_category_ids a)(category := insert i (ba_category_ids a category)),
       ba_task_ids := ms_insert task i (ba_task_ids a),
       ba_runtime_ids := ms_insert runtime i (ba_runtime_ids a),
       ba_runtime_task_ids :=
         (ba_runtime_task_ids a)(runtime \<mapsto>
            ms_insert task i (case ba_runtime_task_ids a runtime of None \<Rightarrow> Map.empty | Some m \<Rightarrow> m)),
       ba_runtime_runner_ids :=
         (case runner of
            Some r \<Rightarrow> if category = HRunning then ms_insert runtime r (ba_runtime_runner_ids a)
                      else ba_runtime_runner_ids a
          | None \<Rightarrow> ba_runtime_runner_ids a)\<rparr>"

record histogram_window =
  hw_start :: time
  hw_end :: time
  hw_bucket_size :: int
  hw_bucket_count :: nat
  hw_selected :: "histogram_category set"

definition bucket_start :: "histogram_window \<Rightarrow> int \<Rightarrow> time" where
  "bucket_start w b = hw_start w + hw_bucket_size w * b"

definition bucket_end :: "histogram_window \<Rightarrow> int \<Rightarrow> time" where
  "bucket_end w b = min (bucket_start w b + hw_bucket_size w) (hw_end w)"

text \<open>The inner loop over a range of buckets.\<close>

definition mark_buckets :: "(int \<Rightarrow> bool) \<Rightarrow> (bucket_acc \<Rightarrow> bucket_acc) \<Rightarrow> int list \<Rightarrow> bucket_acc list \<Rightarrow> bucket_acc list" where
  "mark_buckets overlaps f bs accs =
     fold (\<lambda>b accs. if overlaps b then accs[nat b := f (accs ! nat b)] else accs) bs accs"

text \<open>One status of an invocation; \<open>next_time\<close> is when the next one was entered, if any.\<close>

definition occupy_entry ::
    "histogram_window \<Rightarrow> str \<Rightarrow> str \<Rightarrow> histogram_entry \<Rightarrow> time option \<Rightarrow> bucket_acc list \<Rightarrow> bucket_acc list" where
  "occupy_entry w i task entry next_time accs =
     (case category_for_status (he_status entry) of
        None \<Rightarrow> accs
      | Some category \<Rightarrow>
          (if category \<notin> hw_selected w \<or> is_terminal (he_status entry) then accs
           else
             (let runtime = (if category = HRunning
                             then or_else (he_runner_language entry) (language_from_task_id task)
                             else language_from_task_id task);
                  size_ms = num_milliseconds (hw_bucket_size w);
                  interval_start = max (he_timestamp entry) (hw_start w);
                  interval_end = min (or_else next_time (hw_end w)) (hw_end w);
                  is_point_status = (interval_end \<le> interval_start \<or> interval_end - interval_start < hw_bucket_size w)
              in if is_point_status \<and> \<not> (hw_start w \<le> interval_start \<and> interval_start < hw_end w) then accs
                 else
                   (let occupied_end = (if is_point_status then interval_start + 1000 else interval_end);
                        first = max (num_milliseconds (interval_start - hw_start w) div size_ms) 0;
                        interval_end_ms = num_milliseconds (occupied_end - hw_start w);
                        last_bucket = (if is_point_status then min first (int (hw_bucket_count w) - 1)
                                else min ((interval_end_ms + size_ms - 1) div size_ms - 1)
                                         (int (hw_bucket_count w) - 1))
                    in mark_buckets
                         (\<lambda>b. if is_point_status then bucket_start w b \<le> interval_start \<and> interval_start < bucket_end w b
                              else interval_start < bucket_end w b \<and> bucket_start w b < interval_end)
                         (mark category i task runtime (he_runner_id entry)) [first..last_bucket] accs))))"

fun occupy_history ::
    "histogram_window \<Rightarrow> str \<Rightarrow> str \<Rightarrow> histogram_entry list \<Rightarrow> bucket_acc list \<Rightarrow> bucket_acc list" where
  "occupy_history w i task [] accs = accs"
| "occupy_history w i task (entry # rest) accs =
     occupy_history w i task rest
       (occupy_entry w i task entry (case rest of [] \<Rightarrow> None | next_entry # _ \<Rightarrow> Some (he_timestamp next_entry)) accs)"

definition history_of :: "histogram_entry list \<Rightarrow> str \<Rightarrow> histogram_entry list" where
  "history_of entries i = sort_key he_timestamp (filter (\<lambda>entry. he_invocation_id entry = i) entries)"

definition task_of :: "histogram_entry list \<Rightarrow> str" where
  "task_of history =
     (case find (\<lambda>entry. he_task_id entry \<noteq> []) history of None \<Rightarrow> ''unknown'' | Some entry \<Rightarrow> he_task_id entry)"

definition occupy_all :: "env \<Rightarrow> histogram_window \<Rightarrow> histogram_entry list \<Rightarrow> bucket_acc list \<Rightarrow> bucket_acc list" where
  "occupy_all e w entries accs =
     fold (\<lambda>i accs. occupy_history w i (task_of (history_of entries i)) (history_of entries i) accs)
       (hash_order e (he_invocation_id ` set entries)) accs"

section \<open>The histogram\<close>

record histogram_bucket =
  hb_start :: time
  hb_end :: time
  hb_counts :: "histogram_category \<Rightarrow> nat"
  hb_counts_by_task :: "str \<rightharpoonup> nat"
  hb_counts_by_runtime :: "str \<rightharpoonup> nat"
  hb_counts_by_runtime_task :: "str \<rightharpoonup> (str \<rightharpoonup> nat)"
  hb_invocation_ids_by_runtime :: "str \<rightharpoonup> str list"
  hb_runner_ids_by_runtime :: "str \<rightharpoonup> str list"
  hb_invocation_ids_by_category :: "histogram_category \<Rightarrow> str list"
  hb_invocation_ids :: "str list"

definition total_count :: "histogram_bucket \<Rightarrow> nat" where
  "total_count b = length (hb_invocation_ids b)"

definition finish_bucket :: "histogram_window \<Rightarrow> nat \<Rightarrow> bucket_acc \<Rightarrow> histogram_bucket" where
  "finish_bucket w index a =
     \<lparr>hb_start = bucket_start w (int index), hb_end = bucket_end w (int index),
      hb_counts = (\<lambda>c. card (ba_category_ids a c)),
      hb_counts_by_task = map_option card \<circ> ba_task_ids a,
      hb_counts_by_runtime = map_option card \<circ> ba_runtime_ids a,
      hb_counts_by_runtime_task = map_option (\<lambda>m. map_option card \<circ> m) \<circ> ba_runtime_task_ids a,
      hb_invocation_ids_by_runtime = map_option sorted_list_of_set \<circ> ba_runtime_ids a,
      hb_runner_ids_by_runtime = map_option sorted_list_of_set \<circ> ba_runtime_runner_ids a,
      hb_invocation_ids_by_category = (\<lambda>c. sorted_list_of_set (ba_category_ids a c)),
      hb_invocation_ids =
        sorted_list_of_set (\<Union> (set (map (ba_category_ids a) ALL_CATEGORIES)))\<rparr>"

record histogram_data =
  hd_start :: time
  hd_end :: time
  hd_bucket_size :: int
  hd_buckets :: "histogram_bucket list"
  hd_selected :: "histogram_category set"
  hd_max_count :: nat
  hd_empty_reason :: "str option"

definition max_count_of :: "histogram_bucket list \<Rightarrow> nat" where
  "max_count_of bs = foldr (max \<circ> total_count) bs 0"

text \<open>The part of \<^verbatim>\<open>build_histogram\<close> that follows its checks.\<close>

definition fill_histogram :: "env \<Rightarrow> histogram_window \<Rightarrow> histogram_entry list \<Rightarrow> histogram_data" where
  "fill_histogram e w entries =
     (let accs = occupy_all e w entries (replicate (hw_bucket_count w) empty_acc);
          buckets = map (\<lambda>index. finish_bucket w index (accs ! index)) [0..<hw_bucket_count w];
          max_count = max_count_of buckets
      in \<lparr>hd_start = hw_start w, hd_end = hw_end w, hd_bucket_size = hw_bucket_size w,
          hd_buckets = buckets, hd_selected = hw_selected w, hd_max_count = max_count,
          hd_empty_reason =
            (if max_count = 0 then Some ''No selected statuses occupied this time range.'' else None)\<rparr>)"

definition window_for :: "time \<Rightarrow> time \<Rightarrow> histogram_category set \<Rightarrow> int \<Rightarrow> histogram_window" where
  "window_for start_time end_time selected bucket_size =
     (let size_ms = num_milliseconds bucket_size;
          duration_ms = num_milliseconds (end_time - start_time)
      in \<lparr>hw_start = start_time, hw_end = end_time, hw_bucket_size = bucket_size,
          hw_bucket_count = nat (max ((duration_ms + size_ms - 1) div size_ms) 1), hw_selected = selected\<rparr>)"

definition build_histogram ::
    "env \<Rightarrow> histogram_entry list \<Rightarrow> time \<Rightarrow> time \<Rightarrow> histogram_category set \<Rightarrow> int option \<Rightarrow> histogram_data result" where
  "build_histogram e entries start_time end_time selected explicit_bucket_size =
     (let default_size = bucket_size_for_window (end_time - start_time);
          no_data = (\<lambda>reason. \<lparr>hd_start = start_time, hd_end = end_time, hd_bucket_size = default_size,
                    hd_buckets = [], hd_selected = selected, hd_max_count = 0, hd_empty_reason = Some reason\<rparr>)
      in if end_time \<le> start_time then Inr (no_data ''Invalid time range.'')
         else if selected = {} then Inr (no_data ''Select at least one status.'')
         else if entries = [] then Inr (no_data ''No invocation history in this time range.'')
         else
           (let bucket_size = or_else explicit_bucket_size default_size
            in if \<not> num_milliseconds bucket_size > 0 then Inl Panic
               else Inr (fill_histogram e (window_for start_time end_time selected bucket_size) entries)))"

definition peak_worker_count :: "histogram_data \<Rightarrow> nat" where
  "peak_worker_count d =
     foldr (max \<circ> length)
       (concat (map (\<lambda>b. map (\<lambda>r. or_else (hb_runner_ids_by_runtime b r) [])
                         (sorted_list_of_set (dom (hb_runner_ids_by_runtime b)))) (hd_buckets d))) 0"

section \<open>The series that are drawn\<close>

definition MAX_TASK_LEGEND :: nat where
  "MAX_TASK_LEGEND = 12"

definition OTHER_TASK :: str where
  "OTHER_TASK = ''__other__''"

definition add_count :: "str \<Rightarrow> nat \<Rightarrow> (str \<rightharpoonup> nat) \<Rightarrow> (str \<rightharpoonup> nat)" where
  "add_count task n totals = totals(task \<mapsto> or_else (totals task) 0 + n)"

text \<open>The entries of an ordered map.\<close>

definition items :: "(str \<rightharpoonup> 'a) \<Rightarrow> (str \<times> 'a) list" where
  "items m = List.map_filter (\<lambda>k. map_option (Pair k) (m k)) (sorted_list_of_set (dom m))"

definition task_totals :: "histogram_data \<Rightarrow> str \<rightharpoonup> nat" where
  "task_totals d =
     fold (\<lambda>b totals. fold (\<lambda>(task, n). add_count task n) (items (hb_counts_by_task b)) totals) (hd_buckets d) Map.empty"

text \<open>Largest total first, then by name; the entries of the map come sorted by name and the sort is stable.\<close>

definition task_series :: "histogram_data \<Rightarrow> str list \<times> bool" where
  "task_series d =
     (let ordered = sort_key (\<lambda>(task, n). - int n) (items (task_totals d))
      in (map fst (take MAX_TASK_LEGEND ordered), MAX_TASK_LEGEND < length ordered))"

definition bucket_task_counts :: "(str \<rightharpoonup> nat) \<Rightarrow> str set \<Rightarrow> (str \<times> nat) list" where
  "bucket_task_counts counts_by_task visible =
     (let (counts, other) =
            fold (\<lambda>(task, n) (counts, other).
                   if task \<in> visible then (if 0 < n then counts @ [(task, n)] else counts, other)
                   else (counts, other + n)) (items counts_by_task) ([], 0)
      in if 0 < other then counts @ [(OTHER_TASK, other)] else counts)"

definition bucket_task_counts_for_runtime :: "(str \<rightharpoonup> nat) option \<Rightarrow> str set \<Rightarrow> (str \<times> nat) list" where
  "bucket_task_counts_for_runtime counts visible =
     (case counts of None \<Rightarrow> [] | Some m \<Rightarrow> bucket_task_counts m visible)"

definition runtime_order :: "str \<Rightarrow> nat" where
  "runtime_order r =
     (if r = ''rust'' then 0 else if r = ''python'' then 1 else if r = ''external'' then 2
      else if r = ''unknown'' then 3 else 9)"

text \<open>The groups come sorted by name and the sort by rank is stable, which is the order by rank and name.\<close>

definition histogram_groups :: "histogram_data \<Rightarrow> str list" where
  "histogram_groups d =
     sort_key runtime_order (sorted_list_of_set (\<Union>b \<in> set (hd_buckets d). dom (hb_counts_by_runtime b)))"

definition TASK_PALETTE :: "str list" where
  "TASK_PALETTE = [''#4c78a8'', ''#f58518'', ''#e45756'', ''#72b7b2'', ''#54a24b'', ''#eeca3b'', ''#b279a2'', ''#ff9da6'',
     ''#9d755d'', ''#79706e'', ''#59a14f'', ''#76b7b2'', ''#b6992d'', ''#4c9f70'', ''#d37295'']"

text \<open>FNV-1a over the bytes of the name.\<close>

definition task_hash :: "str \<Rightarrow> u32" where
  "task_hash task = fold (\<lambda>byte hash. (hash XOR of_nat (of_char byte)) * 16777619) task 2166136261"

definition task_color :: "str \<Rightarrow> str" where
  "task_color task =
     (if task = OTHER_TASK then ''#cccccc'' else TASK_PALETTE ! (unat (task_hash task) mod length TASK_PALETTE))"

record visible_task =
  vt_id :: str
  vt_label :: str
  vt_color :: str

definition visible_tasks :: "histogram_data \<Rightarrow> visible_task list" where
  "visible_tasks d =
     (let (ids, has_other) = task_series d;
          tasks = map (\<lambda>t. \<lparr>vt_id = t, vt_label = t, vt_color = task_color t\<rparr>) ids
      in if has_other then tasks @ [\<lparr>vt_id = OTHER_TASK, vt_label = ''Other'', vt_color = task_color OTHER_TASK\<rparr>]
         else tasks)"

definition runtime_color :: "str \<Rightarrow> str" where
  "runtime_color r = (if r = ''rust'' then ''#ce422b'' else if r = ''python'' then ''#3776ab'' else ''#6c757d'')"

definition runtime_label :: "str \<Rightarrow> str" where
  "runtime_label r =
     (if r = ''rust'' then ''Rust workers'' else if r = ''python'' then ''Python workers''
      else if r = ''external'' then ''External submitters'' else if r = ''unknown'' then ''Unknown runtime''
      else r @ '' workers'')"

definition runtime_short_label :: "str \<Rightarrow> str" where
  "runtime_short_label r =
     (if r = ''rust'' then ''Rust'' else if r = ''python'' then ''Python'' else if r = ''external'' then ''External''
      else if r = ''unknown'' then ''Unknown'' else r)"

lemma task_color_in_palette: "task_color t = ''#cccccc'' \<or> task_color t \<in> set TASK_PALETTE"
proof -
  have "unat (task_hash t) mod length TASK_PALETTE < length TASK_PALETTE" by (simp add: TASK_PALETTE_def)
  then show ?thesis by (simp add: task_color_def del: mod_less_divisor)
qed

section \<open>Bounds\<close>

lemma num_milliseconds_nonneg: "0 \<le> d \<Longrightarrow> num_milliseconds d = d div ns_per_ms"
  by (cases "d = 0") (auto simp: num_milliseconds_def)

lemma bucket_size_bounds:
  fixes d :: int
  assumes "0 < d"
  defines "size_ms \<equiv> num_milliseconds (bucket_size_for_window d)"
  shows "0 < size_ms" "bucket_size_for_window d = size_ms * ns_per_ms"
    "max (num_milliseconds d) 1 \<le> MAX_BUCKETS * size_ms"
proof -
  let ?ms = "max (num_milliseconds d) 1"
  let ?min = "(?ms + MAX_BUCKETS - 1) div MAX_BUCKETS"
  obtain c where c: "bucket_size_for_window d = max c ?min * ns_per_ms"
    unfolding bucket_size_for_window_def Let_def by blast
  have min: "0 < ?min" "?ms \<le> MAX_BUCKETS * ?min" by (auto simp: MAX_BUCKETS_def)
  then have s: "size_ms = max c ?min" by (simp add: size_ms_def c num_milliseconds_nonneg)
  show "0 < size_ms" "bucket_size_for_window d = size_ms * ns_per_ms" using s c min by auto
  have "MAX_BUCKETS * ?min \<le> MAX_BUCKETS * size_ms" by (simp add: s MAX_BUCKETS_def)
  then show "?ms \<le> MAX_BUCKETS * size_ms" using min(2) by linarith
qed

section \<open>Occupied buckets\<close>

definition counted :: "histogram_window \<Rightarrow> histogram_entry \<Rightarrow> histogram_category \<Rightarrow> bool" where
  "counted w entry c \<longleftrightarrow>
     category_for_status (he_status entry) = Some c \<and> c \<in> hw_selected w \<and> \<not> is_terminal (he_status entry)"

text \<open>
  The rule of the code for one status and one bucket: clipped to the window, one that is shorter than a bucket (or over before
  it begins) occupies the bucket of its start; a longer one occupies each bucket it overlaps, unless it
  reaches less than a millisecond into it.
\<close>

definition occupies :: "histogram_window \<Rightarrow> histogram_entry \<Rightarrow> time option \<Rightarrow> int \<Rightarrow> bool" where
  "occupies w entry next_time b \<longleftrightarrow>
     (let since = max (he_timestamp entry) (hw_start w); till = min (or_else next_time (hw_end w)) (hw_end w)
      in if till - since < hw_bucket_size w
         then bucket_start w b \<le> since \<and> since < bucket_end w b
         else since < bucket_end w b \<and> bucket_start w b + ns_per_ms \<le> till)"



definition window_ok :: "histogram_window \<Rightarrow> bool" where
  "window_ok w \<longleftrightarrow>
     (\<exists>size_ms > 0. hw_bucket_size w = size_ms * ns_per_ms) \<and> hw_start w < hw_end w"






lemma mark_buckets_nth:
  assumes "\<forall>b \<in> set bs. 0 \<le> b" "distinct bs" "k < length accs"
  shows "mark_buckets P f bs accs ! k = (if int k \<in> set bs \<and> P (int k) then f (accs ! k) else accs ! k)"
  using assms unfolding mark_buckets_def
proof (induction bs arbitrary: accs)
  case (Cons b bs)
  then show ?case by (cases "nat b = k") (auto simp: nat_eq_iff)
qed simp

lemma mark_buckets_length [simp]: "length (mark_buckets P f bs accs) = length accs"
  unfolding mark_buckets_def by (induction bs arbitrary: accs) auto

lemma less_ceiling_iff:
  assumes "0 < (n :: int)"
  shows "b \<le> (m + n - 1) div n - 1 \<longleftrightarrow> b * n < m"
proof -
  have "b \<le> (m + n - 1) div n - 1 \<longleftrightarrow> b < (m + n - 1) div n" by linarith
  also have "\<dots> \<longleftrightarrow> (b + 1) * n \<le> m + n - 1" using assms by (rule int_less_div_iff)
  also have "\<dots> \<longleftrightarrow> b * n < m" by (simp add: algebra_simps) linarith
  finally show ?thesis .
qed

lemma first_bucket:
  assumes "0 < (size_ms :: int)" "0 \<le> d"
  shows "max (num_milliseconds d div size_ms) 0 = d div (size_ms * ns_per_ms)"
  using assms by (simp add: num_milliseconds_nonneg zdiv_zmult2_eq [symmetric] mult.commute pos_imp_zdiv_nonneg_iff)

text \<open>The range of buckets the loop visits loses none that is occupied.\<close>

lemma visited_point:
  fixes since till :: int
  assumes "window_ok w" "hw_start w \<le> since" "0 \<le> b" "b < int (hw_bucket_count w)"
    and "bucket_start w b \<le> since" "since < bucket_end w b"
  defines "first \<equiv> max (num_milliseconds (since - hw_start w) div num_milliseconds (hw_bucket_size w)) 0"
  shows "first \<le> b \<and> b \<le> min first (int (hw_bucket_count w) - 1)"
proof -
  obtain n where n: "0 < n" "hw_bucket_size w = n * ns_per_ms" using assms(1) by (auto simp: window_ok_def)
  have first: "first = (since - hw_start w) div hw_bucket_size w"
    using first_bucket [OF n(1)] assms(2) n by (simp add: first_def num_milliseconds_nonneg)
  have "b * hw_bucket_size w \<le> since - hw_start w" "since - hw_start w < (b + 1) * hw_bucket_size w"
    using assms(5,6) by (auto simp: bucket_start_def bucket_end_def algebra_simps)
  then have "(since - hw_start w) div hw_bucket_size w = b"
    using n by (intro int_div_pos_eq [of _ _ _ "since - hw_start w - b * hw_bucket_size w"]) (auto simp: algebra_simps)
  then show ?thesis using first assms(4) by simp
qed

lemma visited_interval:
  fixes since till :: int
  assumes "window_ok w" "hw_start w \<le> since" "since \<le> till" "0 \<le> b" "b < int (hw_bucket_count w)" "since < bucket_end w b"
  defines "n \<equiv> num_milliseconds (hw_bucket_size w)"
  shows "max (num_milliseconds (since - hw_start w) div n) 0 \<le> b"
    "b \<le> min ((num_milliseconds (till - hw_start w) + n - 1) div n - 1) (int (hw_bucket_count w) - 1) \<longleftrightarrow>
       bucket_start w b + ns_per_ms \<le> till"
proof -
  have n: "0 < n" "hw_bucket_size w = n * ns_per_ms"
    using assms(1) by (auto simp: window_ok_def n_def num_milliseconds_nonneg)
  have "since - hw_start w < (b + 1) * (n * ns_per_ms)"
    using assms(6) n by (auto simp: bucket_start_def bucket_end_def algebra_simps)
  then have "\<not> b < (since - hw_start w) div (n * ns_per_ms)"
    using n(1) int_less_div_iff [of "n * ns_per_ms" b "since - hw_start w"] by simp
  then show "max (num_milliseconds (since - hw_start w) div n) 0 \<le> b"
    using first_bucket [OF n(1), of "since - hw_start w"] assms(2) by linarith
  have "b * n < (till - hw_start w) div ns_per_ms \<longleftrightarrow> (b * n + 1) * ns_per_ms \<le> till - hw_start w"
    by (rule int_less_div_iff) simp
  then show "b \<le> min ((num_milliseconds (till - hw_start w) + n - 1) div n - 1) (int (hw_bucket_count w) - 1) \<longleftrightarrow>
       bucket_start w b + ns_per_ms \<le> till"
    using assms(2,3,5) less_ceiling_iff [OF n(1), of b "num_milliseconds (till - hw_start w)"] n
    by (simp add: num_milliseconds_nonneg bucket_start_def algebra_simps)
qed

text \<open>The effect of one status on one bucket.\<close>

definition runtime_of :: "str \<Rightarrow> histogram_category \<Rightarrow> histogram_entry \<Rightarrow> str" where
  "runtime_of task c entry =
     (if c = HRunning then or_else (he_runner_language entry) (language_from_task_id task)
      else language_from_task_id task)"

lemma occupy_entry_length [simp]: "length (occupy_entry w i task entry nx accs) = length accs"
  by (simp add: occupy_entry_def Let_def split: option.split)

lemma occupy_entry_nth:
  assumes "window_ok w" "length accs = hw_bucket_count w" "b < hw_bucket_count w"
  shows "occupy_entry w i task entry nx accs ! b =
    (case category_for_status (he_status entry) of
       None \<Rightarrow> accs ! b
     | Some c \<Rightarrow> if counted w entry c \<and> occupies w entry nx (int b)
                then mark c i task (runtime_of task c entry) (he_runner_id entry) (accs ! b) else accs ! b)"
proof (cases "\<exists>c. counted w entry c")
  case False
  then show ?thesis by (auto simp: occupy_entry_def counted_def split: option.split)
next
  case True
  then obtain c where c: "counted w entry c" by blast
  have cat: "category_for_status (he_status entry) = Some c" using c by (simp add: counted_def)
  define since where "since = max (he_timestamp entry) (hw_start w)"
  define till where "till = min (or_else nx (hw_end w)) (hw_end w)"
  define n where "n = num_milliseconds (hw_bucket_size w)"
  define first where "first = max (num_milliseconds (since - hw_start w) div n) 0"
  let ?f = "mark c i task (runtime_of task c entry) (he_runner_id entry)"
  let ?k = "int (hw_bucket_count w) - 1"
  have size: "0 < hw_bucket_size w" and start: "hw_start w \<le> since" and first: "0 \<le> first"
    using assms(1) by (auto simp: window_ok_def since_def first_def)
  have k: "0 \<le> int b" "int b < int (hw_bucket_count w)" "b < length accs" using assms(2,3) by auto
  have occ: "occupies w entry nx (int b) \<longleftrightarrow>
      (if till - since < hw_bucket_size w then bucket_start w (int b) \<le> since \<and> since < bucket_end w (int b)
       else since < bucket_end w (int b) \<and> bucket_start w (int b) + ns_per_ms \<le> till)"
    by (simp add: occupies_def Let_def since_def till_def)
  show ?thesis
  proof (cases "till - since < hw_bucket_size w")
    case True
    let ?P = "\<lambda>b. bucket_start w b \<le> since \<and> since < bucket_end w b"
    have eq: "occupy_entry w i task entry nx accs =
        (if since < hw_end w then mark_buckets ?P ?f [first..min first ?k] accs else accs)"
      using c True start size
      by (simp add: occupy_entry_def counted_def runtime_of_def Let_def since_def [symmetric] till_def [symmetric]
          n_def [symmetric] first_def [symmetric])
    have nth: "mark_buckets ?P ?f [first..min first ?k] accs ! b =
        (if int b \<in> set [first..min first ?k] \<and> ?P (int b) then ?f (accs ! b) else accs ! b)"
      using mark_buckets_nth [OF _ _ k(3)] first by simp
    have vis: "?P (int b) \<Longrightarrow> int b \<in> set [first..min first ?k]"
      unfolding set_upto atLeastAtMost_iff using visited_point [OF assms(1) start k(1,2)] by (simp only: first_def n_def)
    have inside: "?P (int b) \<Longrightarrow> since < hw_end w" by (simp add: bucket_end_def)
    have "occupy_entry w i task entry nx accs ! b = (if ?P (int b) then ?f (accs ! b) else accs ! b)"
      using nth vis inside unfolding eq by (cases "?P (int b)") (simp_all only: if_True if_False simp_thms split: if_split)
    then show ?thesis unfolding cat option.case occ using True c by (simp only: if_True simp_thms)
  next
    case False
    let ?last = "min ((num_milliseconds (till - hw_start w) + n - 1) div n - 1) ?k"
    let ?P = "\<lambda>b. since < bucket_end w b \<and> bucket_start w b < till"
    have eq: "occupy_entry w i task entry nx accs = mark_buckets ?P ?f [first..?last] accs"
      using c False start size
      by (simp add: occupy_entry_def counted_def runtime_of_def Let_def since_def [symmetric] till_def [symmetric]
          n_def [symmetric] first_def [symmetric])
    have nth: "mark_buckets ?P ?f [first..?last] accs ! b =
        (if int b \<in> set [first..?last] \<and> ?P (int b) then ?f (accs ! b) else accs ! b)"
      using mark_buckets_nth [OF _ _ k(3)] first by simp
    have "since \<le> till" using False size by linarith
    note vis = visited_interval [OF assms(1) start this k(1,2), folded n_def, folded first_def]
    have reach: "bucket_start w (int b) + ns_per_ms \<le> till \<Longrightarrow> bucket_start w (int b) < till" by linarith
    have "int b \<in> set [first..?last] \<and> ?P (int b) \<longleftrightarrow> since < bucket_end w (int b) \<and> bucket_start w (int b) + ns_per_ms \<le> till"
      unfolding set_upto atLeastAtMost_iff using vis reach by blast
    then show ?thesis unfolding eq nth cat option.case occ using False c by (simp only: if_False simp_thms)
  qed
qed

section \<open>Occupied by whom\<close>

definition next_of :: "histogram_entry list \<Rightarrow> time option" where
  "next_of rest = (case rest of [] \<Rightarrow> None | entry # _ \<Rightarrow> Some (he_timestamp entry))"

text \<open>A history shows a bucket in a category when one of its statuses, up to the next one, occupies it.\<close>

definition present :: "histogram_window \<Rightarrow> histogram_entry list \<Rightarrow> histogram_category \<Rightarrow> nat \<Rightarrow> bool" where
  "present w h c b \<longleftrightarrow>
     (\<exists>earlier entry rest. h = earlier @ entry # rest \<and> counted w entry c \<and> occupies w entry (next_of rest) (int b))"

lemma present_simps [simp]:
  "\<not> present w [] c b"
  "present w (entry # rest) c b \<longleftrightarrow> counted w entry c \<and> occupies w entry (next_of rest) (int b) \<or> present w rest c b"
  by (auto simp: present_def Cons_eq_append_conv)

text \<open>What a bucket shows after the histories of the invocations \<open>I\<close>.\<close>

definition shows_exactly ::
    "histogram_window \<Rightarrow> (str \<Rightarrow> histogram_entry list) \<Rightarrow> str set \<Rightarrow> nat \<Rightarrow> bucket_acc \<Rightarrow> bool" where
  "shows_exactly w h I b a \<longleftrightarrow>
     (\<forall>c. ba_category_ids a c = {i \<in> I. present w (h i) c b}) \<and>
     (\<forall>t. ms_get (ba_task_ids a) t = {i \<in> I. task_of (h i) = t \<and> (\<exists>c. present w (h i) c b)}) \<and>
     finite (dom (ba_task_ids a))"

lemma mark_shows:
  "ba_category_ids (mark c i task r x a) c' = ba_category_ids a c' \<union> (if c' = c then {i} else {})"
  "ms_get (ba_task_ids (mark c i task r x a)) t = ms_get (ba_task_ids a) t \<union> (if t = task then {i} else {})"
  "dom (ba_task_ids (mark c i task r x a)) = insert task (dom (ba_task_ids a))"
  by (auto simp: mark_def ms_simps ms_insert_def ms_get_def)

lemma counted_category: "counted w entry c \<Longrightarrow> category_for_status (he_status entry) = Some c"
  by (simp add: counted_def)

lemma occupy_history_length [simp]: "length (occupy_history w i task h accs) = length accs"
  by (induction h arbitrary: accs) auto

lemma occupy_history_nth:
  assumes "window_ok w" "length accs = hw_bucket_count w" "b < hw_bucket_count w"
  shows "(\<forall>c. ba_category_ids (occupy_history w i task h accs ! b) c =
        ba_category_ids (accs ! b) c \<union> (if present w h c b then {i} else {})) \<and>
    (\<forall>t. ms_get (ba_task_ids (occupy_history w i task h accs ! b)) t =
        ms_get (ba_task_ids (accs ! b)) t \<union> (if t = task \<and> (\<exists>c. present w h c b) then {i} else {})) \<and>
    (finite (dom (ba_task_ids (accs ! b))) \<longrightarrow> finite (dom (ba_task_ids (occupy_history w i task h accs ! b))))"
  using assms(2)
proof (induction h arbitrary: accs)
  case (Cons entry rest)
  let ?accs = "occupy_entry w i task entry (next_of rest) accs"
  let ?now = "\<lambda>c. counted w entry c \<and> occupies w entry (next_of rest) (int b)"
  have step: "occupy_history w i task (entry # rest) accs = occupy_history w i task rest ?accs"
    by (simp add: next_of_def)
  note IH = Cons.IH [of ?accs]
  have one: "(\<forall>c. ba_category_ids (?accs ! b) c = ba_category_ids (accs ! b) c \<union> (if ?now c then {i} else {})) \<and>
      (\<forall>t. ms_get (ba_task_ids (?accs ! b)) t =
         ms_get (ba_task_ids (accs ! b)) t \<union> (if t = task \<and> (\<exists>c. ?now c) then {i} else {})) \<and>
      (finite (dom (ba_task_ids (accs ! b))) \<longrightarrow> finite (dom (ba_task_ids (?accs ! b))))"
    unfolding occupy_entry_nth [OF assms(1) Cons.prems assms(3)]
    by (auto simp: counted_def mark_shows split: option.split if_splits)
  show ?case unfolding step using IH one Cons.prems by auto
qed simp

lemma occupy_ids:
  fixes w h accs ids
  defines "fill \<equiv> \<lambda>ids. fold (\<lambda>i accs. occupy_history w i (task_of (h i)) (h i) accs) ids accs"
  assumes "window_ok w" "length accs = hw_bucket_count w" "b < hw_bucket_count w" "accs ! b = empty_acc"
  shows "length (fill ids) = hw_bucket_count w \<and> shows_exactly w h (set ids) b (fill ids ! b)"
proof (induction ids rule: rev_induct)
  case Nil
  then show ?case using assms by (simp add: shows_exactly_def empty_acc_def ms_get_empty)
next
  case (snoc i ids)
  then have len: "length (fill ids) = hw_bucket_count w" and ok: "shows_exactly w h (set ids) b (fill ids ! b)" by auto
  have "fill (ids @ [i]) = occupy_history w i (task_of (h i)) (h i) (fill ids)" by (simp add: fill_def)
  then show ?case
    using occupy_history_nth [OF assms(2) len assms(4), of i "task_of (h i)" "h i"] ok len
    by (auto simp: shows_exactly_def)
qed

lemma finite_shown:
  assumes "shows_exactly w h I b a" "finite I"
  shows "finite (ba_category_ids a c)" "finite (\<Union> (set (map (ba_category_ids a) ALL_CATEGORIES)))"
  using assms by (auto simp: shows_exactly_def ALL_CATEGORIES_def)

section \<open>Stacked bars\<close>

lemma items_sum:
  assumes "finite (dom m)"
  shows "sum_list (map snd (items m)) = (\<Sum>k \<in> dom m. the (m k))"
proof -
  have "map snd (List.map_filter (\<lambda>k. map_option (Pair k) (m k)) ks) = map (the \<circ> m) ks" if "set ks \<subseteq> dom m" for ks
    using that by (induction ks) (auto simp: List.map_filter_simps)
  then have "map snd (items m) = map (the \<circ> m) (sorted_list_of_set (dom m))" using assms by (simp add: items_def)
  then show ?thesis using assms by (simp add: sum_list_distinct_conv_sum_set)
qed

lemma task_counts_sum:
  assumes "finite (dom m)"
  shows "sum_list (map snd (bucket_task_counts m visible)) = (\<Sum>k \<in> dom m. the (m k))"
proof -
  let ?f = "\<lambda>(task, n) (counts, other).
     if task \<in> visible then (if 0 < n then counts @ [(task, n)] else counts, other) else (counts, other + (n :: nat))"
  have "sum_list (map snd (fst (fold ?f xs (counts, other)))) + snd (fold ?f xs (counts, other)) =
      sum_list (map snd counts) + other + sum_list (map snd xs)" for xs counts other
    by (induction xs arbitrary: counts other) (auto split: prod.splits)
  from this [of "items m" "[]" 0] show ?thesis
    using items_sum [OF assms] by (auto simp: bucket_task_counts_def Let_def split: prod.split)
qed

lemma shown_total:
  assumes "shows_exactly w h I b a" "finite I"
  shows "(\<Sum>t \<in> dom (ba_task_ids a). card (the (ba_task_ids a t))) = card (\<Union> (set (map (ba_category_ids a) ALL_CATEGORIES)))"
proof -
  have get: "t \<in> dom (ba_task_ids a) \<Longrightarrow> the (ba_task_ids a t) = ms_get (ba_task_ids a) t" for t
    by (auto simp: ms_get_def)
  have tasks: "ms_get (ba_task_ids a) t = {i \<in> I. task_of (h i) = t \<and> (\<exists>c. present w (h i) c b)}" for t
    using assms(1) by (simp add: shows_exactly_def)
  have "(\<Union>t \<in> dom (ba_task_ids a). ms_get (ba_task_ids a) t) = {i \<in> I. \<exists>c. present w (h i) c b}"
  proof -
    have "i \<in> (\<Union>t \<in> dom (ba_task_ids a). ms_get (ba_task_ids a) t)" if "i \<in> I" "\<exists>c. present w (h i) c b" for i
    proof -
      have "i \<in> ms_get (ba_task_ids a) (task_of (h i))" using that tasks by simp
      then show ?thesis by (auto simp: ms_get_def split: option.splits)
    qed
    then show ?thesis using tasks by blast
  qed
  also have "\<dots> = \<Union> (set (map (ba_category_ids a) ALL_CATEGORIES))"
  proof -
    have "c \<in> set ALL_CATEGORIES" for c by (cases c) (simp_all add: ALL_CATEGORIES_def)
    then show ?thesis using assms(1) by (auto simp: shows_exactly_def)
  qed
  finally have "card (\<Union> (set (map (ba_category_ids a) ALL_CATEGORIES))) = card (\<Union>t \<in> dom (ba_task_ids a). ms_get (ba_task_ids a) t)"
    by simp
  also have "\<dots> = (\<Sum>t \<in> dom (ba_task_ids a). card (ms_get (ba_task_ids a) t))"
    using assms by (intro card_UN_disjoint) (auto simp: tasks shows_exactly_def)
  finally show ?thesis using get by simp
qed

section \<open>Properties\<close>

abbreviation default_window :: "time \<Rightarrow> time \<Rightarrow> histogram_category set \<Rightarrow> histogram_window" where
  "default_window s f selected \<equiv> window_for s f selected (bucket_size_for_window (f - s))"

lemma default_bucket_count:
  assumes "0 < (d :: int)"
  defines "n \<equiv> num_milliseconds (bucket_size_for_window d)"
  shows "max ((num_milliseconds d + n - 1) div n) 1 \<le> MAX_BUCKETS"
proof -
  have n: "0 < n" "max (num_milliseconds d) 1 \<le> MAX_BUCKETS * n" using bucket_size_bounds [OF assms(1)] by (auto simp: n_def)
  have "\<not> MAX_BUCKETS \<le> (num_milliseconds d + n - 1) div n - 1" using less_ceiling_iff [OF n(1)] n(2) by simp
  then show ?thesis by (simp add: MAX_BUCKETS_def)
qed

lemma default_window_ok:
  assumes "s < f"
  shows "window_ok (default_window s f selected)"
    "0 < hw_bucket_count (default_window s f selected)" "hw_bucket_count (default_window s f selected) \<le> 240"
    "0 < num_milliseconds (bucket_size_for_window (f - s))"
  using bucket_size_bounds [of "f - s"] default_bucket_count [of "f - s"] assms
  by (auto simp: window_ok_def window_for_def Let_def MAX_BUCKETS_def)

lemma build_default:
  assumes "s < f" "entries \<noteq> []" "selected \<noteq> {}"
  shows "build_histogram e entries s f selected None = Inr (fill_histogram e (default_window s f selected) entries)"
  using assms default_window_ok(4) [OF assms(1)] by (simp add: build_histogram_def Let_def or_else_def)

lemma filled_bucket:
  assumes "hash_order_ok (hash_order e)" "window_ok w" "b < hw_bucket_count w"
  obtains a where "hd_buckets (fill_histogram e w entries) ! b = finish_bucket w b a"
    "shows_exactly w (history_of entries) (he_invocation_id ` set entries) b a"
proof -
  let ?none = "replicate (hw_bucket_count w) empty_acc"
  have "set (hash_order e (he_invocation_id ` set entries)) = he_invocation_id ` set entries"
    using assms(1) by (simp add: hash_order_set)
  with occupy_ids [OF assms(2) _ assms(3), of ?none "history_of entries" "hash_order e (he_invocation_id ` set entries)"]
  have "shows_exactly w (history_of entries) (he_invocation_id ` set entries) b (occupy_all e w entries ?none ! b)"
    using assms(3) by (simp add: occupy_all_def)
  then show thesis
    by (rule that [rotated]) (simp add: fill_histogram_def Let_def assms(3) nth_append del: upt_Suc)
qed



text \<open>An invocation that was pending for a second and had finished a second before the window.\<close>

definition ex_entry :: "invocation_status \<Rightarrow> time \<Rightarrow> histogram_entry" where
  "ex_entry st t = \<lparr>he_invocation_id = ''i'', he_task_id = ''rust::m.f'', he_runner_id = None,
                    he_runner_language = None, he_status = st, he_timestamp = t\<rparr>"

definition ex_past :: "histogram_entry list" where
  "ex_past = [ex_entry Pending (- 2 * ns_per_sec), ex_entry Success (- 1 * ns_per_sec)]"




text \<open>The bars add up: in every bucket the counts per task, folded into the tasks that are drawn and the
  rest, sum to the number of invocations in the bucket, whichever tasks are drawn; and no bucket is higher
  than the maximum.\<close>

theorem histogram_bars_add_up:
  assumes "hash_order_ok (hash_order e)" "build_histogram e entries s f selected None = Inr d" "bk \<in> set (hd_buckets d)"
  shows "sum_list (map snd (bucket_task_counts (hb_counts_by_task bk) visible)) = total_count bk \<and>
         total_count bk \<le> hd_max_count d"
proof -
  have ok: "s < f" "entries \<noteq> []" "selected \<noteq> {}"
    using assms(2,3) by (auto simp: build_histogram_def Let_def split: if_splits)
  let ?w = "default_window s f selected"
  have d: "d = fill_histogram e ?w entries" using build_default [OF ok] assms(2) by simp
  obtain b where b: "b < hw_bucket_count ?w" "bk = hd_buckets d ! b"
    using assms(3) by (auto simp: d fill_histogram_def Let_def in_set_conv_nth)
  obtain a where a: "bk = finish_bucket ?w b a" "shows_exactly ?w (history_of entries) (he_invocation_id ` set entries) b a"
    using filled_bucket [OF assms(1) default_window_ok(1) [OF ok(1)] b(1)] b(2) d by metis
  have fin: "finite (dom (map_option card \<circ> ba_task_ids a))" using a(2) by (simp add: shows_exactly_def dom_def)
  have "(\<Sum>t \<in> dom (map_option card \<circ> ba_task_ids a). the ((map_option card \<circ> ba_task_ids a) t)) =
      (\<Sum>t \<in> dom (ba_task_ids a). card (the (ba_task_ids a t)))"
    by (intro sum.cong) (auto simp: dom_def)
  then have "sum_list (map snd (bucket_task_counts (hb_counts_by_task bk) visible)) = total_count bk"
    using task_counts_sum [OF fin] shown_total [OF a(2)] finite_shown(2) [OF a(2)]
    by (simp add: a(1) finish_bucket_def total_count_def)
  moreover have "bk \<in> set bs \<Longrightarrow> total_count bk \<le> max_count_of bs" for bs
    by (induction bs) (auto simp: max_count_of_def)
  ultimately show ?thesis using assms(3) by (simp add: d fill_histogram_def Let_def)
qed

theorem histogram_bars_add_up_witness:
  "\<exists>d bk. build_histogram (sorted_env 0) ex_past 0 ns_per_sec {HPending} None = Inr d \<and> bk \<in> set (hd_buckets d) \<and>
     sum_list (map snd (bucket_task_counts (hb_counts_by_task bk) {})) = total_count bk \<and> total_count bk \<le> hd_max_count d"
proof -
  let ?d = "fill_histogram (sorted_env 0) (default_window 0 ns_per_sec {HPending}) ex_past"
  have d: "build_histogram (sorted_env 0) ex_past 0 ns_per_sec {HPending} None = Inr ?d"
    by (rule build_default) (simp_all add: ex_past_def)
  have "length (hd_buckets ?d) = hw_bucket_count (default_window 0 ns_per_sec {HPending})"
    by (simp add: fill_histogram_def Let_def)
  then have "0 < length (hd_buckets ?d)" using default_window_ok(2) [of 0 ns_per_sec "{HPending}"] by simp
  then have bk: "hd_buckets ?d ! 0 \<in> set (hd_buckets ?d)" by (rule nth_mem)
  have "hash_order_ok (hash_order (sorted_env 0))" by simp
  from histogram_bars_add_up [OF this d bk, of "{}"] show ?thesis using d bk by blast
qed

end
