(* ===== verification/Runner_Pool.thy ===== *)
theory Runner_Pool
  imports Attempt_Props
begin

text \<open>
  The worker pool, \<^verbatim>\<open>rustvello/src/runner/persistent_tokio/\<close>: a process with a main identity and
  workers that each poll, execute and, after an error, give up their identity for a new one. The awaits
  between the calls of the service are points where others run, so a worker is a small state machine over
  those calls, and the pool is a step relation that interleaves its workers, the management loop and other
  processes. Telemetry, task code, sleeping and signals are left out; the floating-point test that decides
  whether the runner's turn for the trigger loop has come may go either way.
\<close>

section \<open>State\<close>

datatype worker_phase = Idle | Claimed str | Executing str attempt | Backoff

record worker =
  wk_id :: str
  wk_phase :: worker_phase
  wk_consecutive_errors :: u32

text \<open>
  \<open>pl_workers\<close> are the running worker loops; their ids are the keys of \<^verbatim>\<open>worker_states\<close>. \<open>pl_to_spawn\<close>
  is how many iterations of the spawning loop are left. \<open>pl_beating\<close> is what is left of the list of
  worker ids the management loop sends heartbeats for: the list is read once, and workers go on while it is
  worked off. \<open>pl_used\<close> remembers the ids the process has drawn with \<^verbatim>\<open>RunnerId::new\<close>, which are never
  drawn again.
\<close>

record pool =
  pl_runner_id :: str
  pl_language :: task_language
  pl_to_spawn :: nat
  pl_workers :: "worker list"
  pl_beating :: "str list"
  pl_shutdown :: bool
  pl_alive :: bool
  pl_used :: "str set"

definition active_worker_ids :: "pool \<Rightarrow> str list" where
  "active_worker_ids p = map wk_id (pl_workers p)"

definition set_worker :: "nat \<Rightarrow> worker \<Rightarrow> pool \<Rightarrow> pool" where
  "set_worker k wk p = p\<lparr>pl_workers := (pl_workers p)[k := wk]\<rparr>"

section \<open>Start\<close>

definition heartbeat :: "env \<Rightarrow> str \<Rightarrow> bool \<Rightarrow> world \<Rightarrow> unit result \<times> world" where
  "heartbeat e r can_run_atomic_service w = lift_control (register_heartbeat e r can_run_atomic_service) w"

text \<open>\<open>facts\<close> is what \<^verbatim>\<open>StoredRunnerContext::current\<close> reads of the process.\<close>

definition worker_context :: "stored_runner_context \<Rightarrow> pool \<Rightarrow> str \<Rightarrow> stored_runner_context" where
  "worker_context facts p r =
     facts\<lparr>src_runner_id := r, src_runner_cls := ''PersistentTokioWorker'', src_language := pl_language p,
           src_parent_runner_id := Some (pl_runner_id p), src_parent_runner_cls := Some ''PersistentTokioRunner''\<rparr>"

text \<open>The context and the first heartbeat of a worker; errors are only logged.\<close>

definition announce_worker :: "env \<Rightarrow> stored_runner_context \<Rightarrow> pool \<Rightarrow> str \<Rightarrow> world \<Rightarrow> world" where
  "announce_worker e facts p r w =
     snd (heartbeat e r False (snd (lift_state (store_runner_context (worker_context facts p r)) w)))"

definition spawn_worker :: "env \<Rightarrow> stored_runner_context \<Rightarrow> str \<Rightarrow> pool \<Rightarrow> world \<Rightarrow> pool \<times> world" where
  "spawn_worker e facts r p w =
     (p\<lparr>pl_to_spawn := pl_to_spawn p - 1,
        pl_workers := pl_workers p @ [\<lparr>wk_id = r, wk_phase = Idle, wk_consecutive_errors = 0\<rparr>],
        pl_used := insert r (pl_used p)\<rparr>,
      announce_worker e facts p r w)"

text \<open>What comes before the spawning loop; \<open>executor_start\<close> is the answer of the executor.\<close>

definition run_impl ::
    "service \<Rightarrow> env \<Rightarrow> stored_runner_context \<Rightarrow> unit result \<Rightarrow> task_language \<Rightarrow> str \<Rightarrow> nat \<Rightarrow> world
       \<Rightarrow> pool result \<times> world" where
  "run_impl sv e facts executor_start lang rid num_workers w =
     and_then (startup_check sv e (facts\<lparr>src_runner_id := rid, src_runner_cls := ''PersistentTokioRunner'',
                                         src_language := lang\<rparr>) rid w) (\<lambda>_ w.
     and_then (executor_start, w) (\<lambda>_ w.
       (Inr \<lparr>pl_runner_id = rid, pl_language = lang, pl_to_spawn = num_workers, pl_workers = [], pl_beating = [],
             pl_shutdown = False, pl_alive = True, pl_used = {rid}\<rparr>, w)))"

text \<open>
  A single poll outside the loops: the contexts of the process and of a temporary worker, a heartbeat of each,
  and at most one invocation, whose body is \<open>body\<close>.
\<close>

definition run_one ::
    "service \<Rightarrow> runtime \<Rightarrow> env \<Rightarrow> env \<Rightarrow> stored_runner_context \<Rightarrow> (nat \<Rightarrow> str list \<Rightarrow> str list) \<Rightarrow> str
       \<Rightarrow> (attempt \<Rightarrow> world \<Rightarrow> (str result \<times> interruption option) \<times> world) \<Rightarrow> pool \<Rightarrow> world \<Rightarrow> bool result \<times> world" where
  "run_one sv rt e e' facts shuffle fresh body p w =
     (let w = snd (lift_state (store_runner_context
                (facts\<lparr>src_runner_id := pl_runner_id p, src_runner_cls := ''PersistentTokioRunner'',
                       src_language := pl_language p\<rparr>)) w);
          w = snd (lift_state (store_runner_context (worker_context facts p fresh)) w);
          w = snd (heartbeat e (pl_runner_id p) True w);
          w = snd (heartbeat e fresh False w)
      in and_then (claim_next sv e (registry (w_catalog w)) (pl_language p) shuffle w) (\<lambda>found w.
           case found of
             None \<Rightarrow> (Inr False, w)
           | Some i \<Rightarrow>
               and_then (execute_invocation_common sv rt e e' i fresh body w) (\<lambda>_ w. (Inr True, w))))"

section \<open>The worker loop\<close>

definition backoff_ms :: "u32 \<Rightarrow> u64" where
  "backoff_ms consecutive_errors = min (push_bit (unat consecutive_errors) 100) 5000"

definition next_errors :: "u32 \<Rightarrow> u32" where
  "next_errors n = min (if n = -1 then n else n + 1) 6"

text \<open>An error retires the identity: the worker goes on under a fresh one, after the backoff.\<close>

definition retire :: "nat \<Rightarrow> str \<Rightarrow> pool \<Rightarrow> pool" where
  "retire k fresh p =
     (set_worker k \<lparr>wk_id = fresh, wk_phase = Backoff,
                    wk_consecutive_errors = next_errors (wk_consecutive_errors (pl_workers p ! k))\<rparr> p)
       \<lparr>pl_used := insert fresh (pl_used p)\<rparr>"

definition to_phase :: "nat \<Rightarrow> worker_phase \<Rightarrow> pool \<Rightarrow> pool" where
  "to_phase k ph p = set_worker k ((pl_workers p ! k)\<lparr>wk_phase := ph\<rparr>) p"

definition work_done :: "nat \<Rightarrow> pool \<Rightarrow> pool" where
  "work_done k p = set_worker k ((pl_workers p ! k)\<lparr>wk_phase := Idle, wk_consecutive_errors := 0\<rparr>) p"

definition worker_poll ::
    "service \<Rightarrow> env \<Rightarrow> (nat \<Rightarrow> str list \<Rightarrow> str list) \<Rightarrow> nat \<Rightarrow> str \<Rightarrow> pool \<Rightarrow> world \<Rightarrow> pool \<times> world" where
  "worker_poll sv e shuffle k fresh p w =
     (case claim_next sv e (registry (w_catalog w)) (pl_language p) shuffle w of
        (Inl _, w') \<Rightarrow> (retire k fresh p, w')
      | (Inr None, w') \<Rightarrow> (work_done k p, w')
      | (Inr (Some i), w') \<Rightarrow> (to_phase k (Claimed i) p, w'))"

definition worker_begin ::
    "service \<Rightarrow> runtime \<Rightarrow> env \<Rightarrow> nat \<Rightarrow> str \<Rightarrow> str \<Rightarrow> pool \<Rightarrow> world \<Rightarrow> pool \<times> world" where
  "worker_begin sv rt e k fresh i p w =
     (case prepare_attempt sv rt e i (wk_id (pl_workers p ! k)) w of
        (Inl _, w') \<Rightarrow> (retire k fresh p, w')
      | (Inr None, w') \<Rightarrow> (work_done k p, w')
      | (Inr (Some x), w') \<Rightarrow> (to_phase k (Executing i x) p, w'))"

definition worker_finish ::
    "service \<Rightarrow> runtime \<Rightarrow> env \<Rightarrow> nat \<Rightarrow> str \<Rightarrow> str \<Rightarrow> attempt \<Rightarrow> str result \<times> interruption option \<Rightarrow> pool \<Rightarrow> world
       \<Rightarrow> pool \<times> world" where
  "worker_finish sv rt e k fresh i x outcome p w =
     (case conclude_attempt sv rt e i (wk_id (pl_workers p ! k)) x outcome w of
        (Inl _, w') \<Rightarrow> (retire k fresh p, w')
      | (Inr _, w') \<Rightarrow> (work_done k p, w'))"

definition worker_reconnect :: "env \<Rightarrow> stored_runner_context \<Rightarrow> nat \<Rightarrow> pool \<Rightarrow> world \<Rightarrow> pool \<times> world" where
  "worker_reconnect e facts k p w = (to_phase k Idle p, announce_worker e facts p (wk_id (pl_workers p ! k)) w)"

definition worker_stop :: "nat \<Rightarrow> pool \<Rightarrow> pool" where
  "worker_stop k p = p\<lparr>pl_workers := take k (pl_workers p) @ drop (Suc k) (pl_workers p)\<rparr>"

section \<open>The management loop\<close>

text \<open>The heartbeat of the process and the list of the workers, in the order \<open>ids\<close> of the hash map.\<close>

definition manage_heartbeats :: "env \<Rightarrow> str list \<Rightarrow> pool \<Rightarrow> world \<Rightarrow> pool \<times> world" where
  "manage_heartbeats e ids p w = (p\<lparr>pl_beating := ids\<rparr>, snd (heartbeat e (pl_runner_id p) True w))"

definition manage_worker_heartbeat :: "env \<Rightarrow> pool \<Rightarrow> world \<Rightarrow> pool \<times> world" where
  "manage_worker_heartbeat e p w =
     (case pl_beating p of
        [] \<Rightarrow> (p, w)
      | r # rs \<Rightarrow> (p\<lparr>pl_beating := rs\<rparr>, snd (heartbeat e r False w)))"

text \<open>The iteration of the management loop has reached the step after the heartbeats.\<close>

definition managing :: "pool \<Rightarrow> bool" where
  "managing p \<longleftrightarrow> pl_alive p \<and> pl_to_spawn p = 0 \<and> pl_beating p = []"

definition manage_recovery :: "service \<Rightarrow> env \<Rightarrow> pool \<Rightarrow> world \<Rightarrow> world" where
  "manage_recovery sv e p w = snd (recover_stale_invocations sv e (pl_runner_id p) w)"

definition manage_triggers ::
    "service \<Rightarrow> env \<Rightarrow> (str \<Rightarrow> bool) \<Rightarrow> (task_id \<rightharpoonup> str \<times> f64) \<Rightarrow> pool \<Rightarrow> world \<Rightarrow> world" where
  "manage_triggers sv e armed routes p w = snd (trigger_loop_iteration sv e armed (pl_runner_id p) routes w)"

definition manage_record :: "time \<Rightarrow> time \<Rightarrow> pool \<Rightarrow> world \<Rightarrow> world" where
  "manage_record from_time to_time p w =
     snd (lift_control (record_atomic_service_execution (pl_runner_id p) from_time to_time) w)"

section \<open>Steps\<close>

definition phase_of :: "nat \<Rightarrow> pool \<Rightarrow> worker_phase option" where
  "phase_of k p = (if k < length (pl_workers p) then Some (wk_phase (pl_workers p ! k)) else None)"

text \<open>
  Another process sends no heartbeats under the ids of this one and does not purge the orchestrator. The
  process may end or be killed at any time.
\<close>

inductive pool_step :: "service \<Rightarrow> stored_runner_context \<Rightarrow> pool \<times> world \<Rightarrow> pool \<times> world \<Rightarrow> bool" for sv facts where
  spawns: "pl_alive p \<Longrightarrow> 0 < pl_to_spawn p \<Longrightarrow> fresh \<notin> pl_used p \<Longrightarrow>
     pool_step sv facts (p, w) (spawn_worker e facts fresh p w)"
| polls: "phase_of k p = Some Idle \<Longrightarrow> \<not> pl_shutdown p \<Longrightarrow> fresh \<notin> pl_used p \<Longrightarrow>
     pool_step sv facts (p, w) (worker_poll sv e shuffle k fresh p w)"
| begins: "phase_of k p = Some (Claimed i) \<Longrightarrow> fresh \<notin> pl_used p \<Longrightarrow>
     pool_step sv facts (p, w) (worker_begin sv rt e k fresh i p w)"
| finishes: "phase_of k p = Some (Executing i x) \<Longrightarrow> fresh \<notin> pl_used p \<Longrightarrow>
     pool_step sv facts (p, w) (worker_finish sv rt e k fresh i x outcome p w)"
| reconnects: "phase_of k p = Some Backoff \<Longrightarrow> pool_step sv facts (p, w) (worker_reconnect e facts k p w)"
| stops: "phase_of k p = Some ph \<Longrightarrow> ph \<in> {Idle, Backoff} \<Longrightarrow> pl_shutdown p \<Longrightarrow>
     pool_step sv facts (p, w) (worker_stop k p, w)"
| shuts_down: "pool_step sv facts (p, w) (p\<lparr>pl_shutdown := True\<rparr>, w)"
| heartbeats: "managing p \<Longrightarrow> set ids = set (active_worker_ids p) \<Longrightarrow> distinct ids \<Longrightarrow>
     pool_step sv facts (p, w) (manage_heartbeats e ids p w)"
| worker_heartbeat: "pl_alive p \<Longrightarrow> pool_step sv facts (p, w) (manage_worker_heartbeat e p w)"
| recovers: "managing p \<Longrightarrow> pool_step sv facts (p, w) (p, manage_recovery sv e p w)"
| triggers: "managing p \<Longrightarrow> pool_step sv facts (p, w) (p, manage_triggers sv e armed routes p w)"
| records: "managing p \<Longrightarrow> pool_step sv facts (p, w) (p, manage_record from_time to_time p w)"
| ends: "pool_step sv facts (p, w) (p\<lparr>pl_to_spawn := 0, pl_workers := [], pl_beating := [], pl_alive := False\<rparr>, w)"
| others: "use_case sv w w' \<Longrightarrow> \<forall>r \<in> pl_used p. heartbeats (w_control w') r = heartbeats (w_control w) r \<Longrightarrow>
     pool_step sv facts (p, w) (p, w')"

section \<open>Identities\<close>

definition pool_ok :: "pool \<Rightarrow> bool" where
  "pool_ok p \<longleftrightarrow>
     distinct (active_worker_ids p) \<and> set (active_worker_ids p) \<subseteq> pl_used p \<and>
     pl_runner_id p \<in> pl_used p \<and> pl_runner_id p \<notin> set (active_worker_ids p)"

text \<open>An id of the process under which nothing runs any more and for which no heartbeat is on its way.\<close>

definition retired :: "str \<Rightarrow> pool \<Rightarrow> bool" where
  "retired r p \<longleftrightarrow> r \<in> pl_used p \<and> r \<notin> set (active_worker_ids p) \<and> r \<notin> set (pl_beating p) \<and>
     (r = pl_runner_id p \<longrightarrow> \<not> pl_alive p)"

lemma set_worker_same_id:
  "phase_of k p = Some ph \<Longrightarrow> wk_id wk = wk_id (pl_workers p ! k) \<Longrightarrow>
     active_worker_ids (set_worker k wk p) = active_worker_ids p"
  by (auto simp: active_worker_ids_def set_worker_def map_update phase_of_def list_update_same_conv split: if_splits)

lemma pool_frames [simp]:
  "pl_used (set_worker k wk p) = pl_used p" "pl_runner_id (set_worker k wk p) = pl_runner_id p"
  "pl_beating (set_worker k wk p) = pl_beating p" "pl_beating (to_phase k ph p) = pl_beating p"
  "pl_beating (work_done k p) = pl_beating p" "pl_beating (retire k fresh p) = pl_beating p"
  "pl_alive (set_worker k wk p) = pl_alive p" "pl_used (to_phase k ph p) = pl_used p"
  "pl_runner_id (to_phase k ph p) = pl_runner_id p" "pl_alive (to_phase k ph p) = pl_alive p"
  "pl_used (work_done k p) = pl_used p" "pl_runner_id (work_done k p) = pl_runner_id p" "pl_alive (work_done k p) = pl_alive p"
  "pl_used (retire k fresh p) = insert fresh (pl_used p)" "pl_runner_id (retire k fresh p) = pl_runner_id p"
  "pl_alive (retire k fresh p) = pl_alive p"
  by (simp_all add: set_worker_def to_phase_def work_done_def retire_def)

lemma same_ids:
  assumes "phase_of k p = Some ph"
  shows "active_worker_ids (to_phase k ph' p) = active_worker_ids p" "active_worker_ids (work_done k p) = active_worker_ids p"
  using assms by (simp_all add: to_phase_def work_done_def set_worker_same_id)

lemma retire_ids: "active_worker_ids (retire k fresh p) = (active_worker_ids p)[k := fresh]"
  by (simp add: active_worker_ids_def retire_def set_worker_def map_update)

lemma stop_ids: "set (active_worker_ids (worker_stop k p)) \<subseteq> set (active_worker_ids p)"
  "distinct (active_worker_ids p) \<Longrightarrow> distinct (active_worker_ids (worker_stop k p))"
proof -
  show "set (active_worker_ids (worker_stop k p)) \<subseteq> set (active_worker_ids p)"
    by (auto simp: active_worker_ids_def worker_stop_def dest: in_set_takeD in_set_dropD)
  assume "distinct (active_worker_ids p)"
  then have "distinct (take k (active_worker_ids p) @ drop (Suc k) (active_worker_ids p))"
    using set_take_disj_set_drop_if_distinct [of "active_worker_ids p" k "Suc k"] by auto
  then show "distinct (active_worker_ids (worker_stop k p))"
    by (simp add: active_worker_ids_def worker_stop_def take_map drop_map)
qed

text \<open>A step may draw fresh ids (\<open>N\<close>); it brings none back.\<close>

definition drawing :: "str set \<Rightarrow> pool \<Rightarrow> pool \<Rightarrow> bool" where
  "drawing N p p' \<longleftrightarrow>
     N \<inter> pl_used p = {} \<and> pl_used p' = pl_used p \<union> N \<and> pl_runner_id p' = pl_runner_id p \<and>
     (pl_alive p' \<longrightarrow> pl_alive p) \<and> set (active_worker_ids p') \<subseteq> set (active_worker_ids p) \<union> N \<and>
     distinct (active_worker_ids p') \<and> set (pl_beating p') \<subseteq> set (pl_beating p) \<union> set (active_worker_ids p)"

lemma drawing_keeps:
  assumes "drawing N p p'" "pool_ok p"
  shows "pool_ok p'" "retired r p \<Longrightarrow> retired r p'"
proof -
  show "pool_ok p'" using assms by (auto simp: drawing_def pool_ok_def)
  show "retired r p \<Longrightarrow> retired r p'" using assms unfolding drawing_def pool_ok_def retired_def by auto
qed

lemma retire_draws:
  assumes "pool_ok p" "fresh \<notin> pl_used p"
  shows "drawing {fresh} p (retire k fresh p)"
  using assms set_update_subset_insert [of "active_worker_ids p" k fresh]
  by (auto simp: drawing_def pool_ok_def retire_ids intro!: distinct_list_update)

lemma phase_draws:
  assumes "pool_ok p" "phase_of k p = Some ph"
  shows "drawing {} p (to_phase k ph' p)" "drawing {} p (work_done k p)"
  using assms same_ids [OF assms(2)] by (simp_all add: drawing_def pool_ok_def)

lemma spawn_draws:
  assumes "pool_ok p" "fresh \<notin> pl_used p"
  shows "drawing {fresh} p (fst (spawn_worker e facts fresh p w))"
  using assms by (auto simp: drawing_def pool_ok_def spawn_worker_def active_worker_ids_def)

lemma stop_draws: "pool_ok p \<Longrightarrow> drawing {} p (worker_stop k p)"
  using stop_ids [where k = k and p = p] by (auto simp: drawing_def pool_ok_def) (simp_all add: worker_stop_def)

lemma beat_draws:
  "pool_ok p \<Longrightarrow> drawing {} p (fst (manage_worker_heartbeat e p w))"
  "pool_ok p \<Longrightarrow> set ids = set (active_worker_ids p) \<Longrightarrow> drawing {} p (fst (manage_heartbeats e ids p w))"
  by (auto simp: drawing_def pool_ok_def manage_worker_heartbeat_def manage_heartbeats_def active_worker_ids_def
      split: list.splits)

lemmas draws = retire_draws phase_draws spawn_draws stop_draws beat_draws

lemma pool_step_draws:
  assumes "pool_step sv facts (p, w) (p', w')" "pool_ok p"
  shows "\<exists>N. drawing N p p'"
  using assms(1)
proof (cases rule: pool_step.cases)
  case polls
  then show ?thesis using draws(1-3) [OF assms(2)] by (simp add: worker_poll_def split: prod.splits sum.splits option.splits) blast+
next
  case begins
  then show ?thesis using draws(1-3) [OF assms(2)] by (simp add: worker_begin_def split: prod.splits sum.splits option.splits) blast+
next
  case finishes
  then show ?thesis using draws(1-3) [OF assms(2)] by (simp add: worker_finish_def split: prod.splits sum.splits) blast+
next
  case reconnects
  then show ?thesis using draws(2) [OF assms(2)] by (simp add: worker_reconnect_def) blast
next
  case spawns
  then show ?thesis using draws(4) [OF assms(2)] by (metis fst_conv)
next
  case heartbeats
  then show ?thesis using draws(7) [OF assms(2)] by (metis fst_conv)
next
  case worker_heartbeat
  then show ?thesis using draws(6) [OF assms(2)] by (metis fst_conv)
next
  case stops
  then show ?thesis using draws(5) [OF assms(2)] by blast
qed (use assms(2) in \<open>auto simp: drawing_def pool_ok_def active_worker_ids_def intro!: exI [of _ "{}"]\<close>)

lemma pool_step_ids:
  assumes "pool_step sv facts (p, w) (p', w')" "pool_ok p"
  shows "pool_ok p'" "retired r p \<Longrightarrow> retired r p'"
  using pool_step_draws [OF assms] drawing_keeps [OF _ assms(2)] by blast+

section \<open>Nobody speaks for a retired identity\<close>

lemma quiet_heartbeats: "quiet_op op \<Longrightarrow> heartbeats (orch_exec e op s) = heartbeats s"
proof (cases op)
  case (RunAutoPurge m)
  have "heartbeats (fold (\<lambda>i s. snd (remove_invocation i s)) xs s) = heartbeats s" for xs s
    by (induction xs arbitrary: s) (simp_all add: remove_invocation_eqs)
  then show ?thesis by (auto simp: RunAutoPurge run_auto_purge_def Let_def purge_all_eq split: option.splits)
qed (auto simp: simple_op_defs register_invocation_with_id_def set_invocation_status_def write_status_frame
       remove_invocation_eqs index_for_concurrency_control_def try_acquire_concurrency_slot_def cc_unindex_frame Let_def
       split: option.splits sum.splits)

lemma steady_quiet: "steady_op op \<Longrightarrow> quiet_op op"
  by (cases op) simp_all

interpretation silent: quiet "\<lambda>w. heartbeats (w_control w) r = h" for r h
  by unfold_locales (auto simp: quiet_heartbeats steady_quiet register_invocation_with_id_def Let_def simp del: orch_exec.simps)

lemma heartbeat_other: "r' \<noteq> r \<Longrightarrow> heartbeats (w_control (snd (heartbeat e r' b w))) r = heartbeats (w_control w) r"
  by (simp add: heartbeat_def lift_control_def register_heartbeat_def)

lemma announce_other: "r' \<noteq> r \<Longrightarrow> heartbeats (w_control (announce_worker e facts p r' w)) r = heartbeats (w_control w) r"
  by (simp add: announce_worker_def heartbeat_other lift_state_def split: prod.split)

lemma worker_snd:
  "snd (worker_poll sv e shuffle k fresh p w) = snd (claim_next sv e (registry (w_catalog w)) (pl_language p) shuffle w)"
  "snd (worker_begin sv rt e k fresh i p w) = snd (prepare_attempt sv rt e i (wk_id (pl_workers p ! k)) w)"
  "snd (worker_finish sv rt e k fresh i x outcome p w) = snd (conclude_attempt sv rt e i (wk_id (pl_workers p ! k)) x outcome w)"
  by (simp_all add: worker_poll_def worker_begin_def worker_finish_def split: prod.split sum.split option.split)

lemma retired_silent:
  assumes "pool_step sv facts (p, w) (p', w')" "retired r p"
  shows "heartbeats (w_control w') r = heartbeats (w_control w) r"
  using assms(1)
proof (cases rule: pool_step.cases)
  case (spawns fresh e)
  then have "fresh \<noteq> r" using assms(2) by (auto simp: retired_def)
  then show ?thesis using spawns announce_other [of fresh r] by (simp add: spawn_worker_def)
next
  case (polls k fresh e shuffle)
  then show ?thesis using silent.keep_claim_next worker_snd(1) by (metis snd_conv)
next
  case (begins k i fresh rt e)
  then show ?thesis using silent.keep_prepare worker_snd(2) by (metis snd_conv)
next
  case (finishes k i x fresh rt e outcome)
  then show ?thesis using silent.keep_conclude worker_snd(3) by (metis snd_conv)
next
  case (reconnects k e)
  then have "wk_id (pl_workers p ! k) \<in> set (active_worker_ids p)"
    by (auto simp: phase_of_def active_worker_ids_def split: if_splits)
  then have "wk_id (pl_workers p ! k) \<noteq> r" using assms(2) by (auto simp: retired_def)
  then show ?thesis using reconnects announce_other [of "wk_id (pl_workers p ! k)" r] by (simp add: worker_reconnect_def)
next
  case (heartbeats ids e)
  then have "pl_runner_id p \<noteq> r" using assms(2) by (auto simp: retired_def managing_def)
  then show ?thesis using heartbeats heartbeat_other [of "pl_runner_id p" r] by (simp add: manage_heartbeats_def)
next
  case (worker_heartbeat e)
  then show ?thesis using assms(2)
    by (auto simp: manage_worker_heartbeat_def retired_def heartbeat_other split: list.splits)
next
  case recovers
  then show ?thesis using silent.keep_recover_stale by (auto simp: manage_recovery_def)
next
  case triggers
  then show ?thesis using silent.keep_trigger_loop by (auto simp: manage_triggers_def)
next
  case records
  then show ?thesis by (auto simp: manage_record_def lift_control_def record_atomic_service_execution_def Let_def split: prod.split)
next
  case others
  then show ?thesis using assms(2) by (simp add: retired_def)
qed auto

lemma retired_forever:
  assumes "(pool_step sv facts)\<^sup>*\<^sup>* (p, w) (p', w')" "pool_ok p" "retired r p"
  shows "pool_ok p' \<and> retired r p' \<and> heartbeats (w_control w') r = heartbeats (w_control w) r"
  using assms
proof (induction rule: rtranclp_induct2)
  case (step p1 w1 p2 w2)
  then show ?case using pool_step_ids [OF step.hyps(2)] retired_silent [OF step.hyps(2)] by auto
qed simp

text \<open>An id that was worked under and is not any more, with no heartbeat on its way, is retired.\<close>

lemma dropped_id_retired:
  assumes "pool_step sv facts (p, w) (p', w')" "pool_ok p"
    and "r \<in> set (active_worker_ids p)" "r \<notin> set (active_worker_ids p')" "r \<notin> set (pl_beating p')"
  shows "pool_ok p'" "retired r p'"
proof -
  obtain N where "drawing N p p'" using pool_step_draws [OF assms(1,2)] by blast
  then show "pool_ok p'" "retired r p'"
    using drawing_keeps(1) [of N p p'] assms by (auto simp: drawing_def pool_ok_def retired_def)
qed

section \<open>The stores under a pool\<close>

lemma heartbeat_inv: "world_inv w \<Longrightarrow> world_inv (snd (heartbeat e r b w))"
  using invariant.control_any [of w e "Heartbeat r b"] by (simp add: heartbeat_def lift_snd)

lemma announce_inv: "world_inv w \<Longrightarrow> world_inv (announce_worker e facts p r w)"
  using invariant.state [of w "StoreRunnerContext (worker_context facts p r)"]
  by (auto simp: announce_worker_def lift_snd intro!: heartbeat_inv)

lemma record_inv: "world_inv w \<Longrightarrow> world_inv (manage_record from_time to_time p w)"
  using invariant.control_any [of w _ "RecordAtomicService (pl_runner_id p) from_time to_time"]
  by (simp add: manage_record_def lift_snd)

lemma pool_step_inv:
  assumes "pool_step sv facts (p, w) (p', w')" "world_inv w"
  shows "world_inv w'"
  using assms(1)
proof (cases rule: pool_step.cases)
  case polls
  then show ?thesis using invariant.keep_claim_next [OF assms(2)] worker_snd(1) by (metis snd_conv)
next
  case begins
  then show ?thesis using invariant.keep_prepare [OF assms(2)] worker_snd(2) by (metis snd_conv)
next
  case finishes
  then show ?thesis using invariant.keep_conclude [OF assms(2)] worker_snd(3) by (metis snd_conv)
next
  case others
  then show ?thesis using invariant.use_case_keeps assms(2) by blast
qed (use assms(2) in \<open>auto simp: spawn_worker_def worker_reconnect_def manage_heartbeats_def manage_worker_heartbeat_def
       manage_recovery_def manage_triggers_def
       intro: announce_inv heartbeat_inv record_inv invariant.keep_recover_stale invariant.keep_trigger_loop
       split: list.splits\<close>)

lemma pool_run_inv: "(pool_step sv facts)\<^sup>*\<^sup>* (p, w) (p', w') \<Longrightarrow> world_inv w \<Longrightarrow> world_inv w'"
  by (induction rule: rtranclp_induct2) (auto intro: pool_step_inv)

lemma run_one_inv:
  assumes "world_inv w" "\<And>x w. world_inv w \<Longrightarrow> world_inv (snd (body x w))"
  shows "world_inv (snd (run_one sv rt e e' facts shuffle fresh body p w))"
proof -
  have "world_inv (snd (execute_invocation_common sv rt e e' i fresh body w))" if "world_inv w" for i w
    using that assms(2)
    by (auto simp: execute_invocation_common_def split: option.split prod.split
        intro!: invariant.keep_and_then invariant.keep_prepare invariant.keep_conclude) (metis snd_conv)
  moreover have "world_inv (snd (lift_state (store_runner_context c) w))" if "world_inv w" for c w
    using invariant.state [OF that, of "StoreRunnerContext c"] by (simp add: lift_snd)
  ultimately show ?thesis
    using assms(1)
    by (auto simp: run_one_def Let_def split: option.split
        intro!: invariant.keep_and_then invariant.keep_claim_next heartbeat_inv)
qed

section \<open>Properties\<close>

text \<open>C25. Work is not pinned by a worker that gave up: once an identity of the process is not worked under any
  more - its worker failed and took a new identity, stopped, or the process died - and no heartbeat for it is
  on its way, nobody sends one again, so whatever the pool and other processes do, an invocation that is still
  \<^verbatim>\<open>Running\<close> under it is listed by every recovery scan that comes more than the configured whole seconds after
  its last heartbeat.\<close>

theorem retired_work_is_recovered:
  assumes "world_inv w0" "pool_ok p0" "pool_step sv facts (p0, w0) (p, w)"
    and "r \<in> set (active_worker_ids p0)" "r \<notin> set (active_worker_ids p)" "r \<notin> set (pl_beating p)"
    and "heartbeats (w_control w) r = Some hb"
    and "(pool_step sv facts)\<^sup>*\<^sup>* (p, w) (p', w')"
    and "abs_record i w' = Some rec" "sr_status rec = Running" "sr_runner rec = Some r"
    and "hash_order_ok (hash_order e)" "chrono_ok e"
    and "(clamp_i64 d + 1) * ns_per_sec \<le> now e - hb"
    and "get_stale_running_invocations e d (w_control w') = Inr ids"
  shows "heartbeats (w_control w') r = Some hb \<and> i \<in> set ids"
proof -
  have "heartbeats (w_control w') r = Some hb"
    using retired_forever [OF assms(8) dropped_id_retired [OF assms(3,2,4,5,6)]] assms(7) by simp
  moreover have "orch_inv (w_control w')"
    using pool_run_inv [OF assms(8) pool_step_inv [OF assms(3,1)]] by (simp add: world_inv_def)
  ultimately show ?thesis
    using stale_running_iff [OF _ assms(12,13,15), of i] assms(9-11,14) by (simp add: owner_dead_def abs_record_def)
qed

definition ex_pool :: pool where
  "ex_pool = \<lparr>pl_runner_id = ''p'', pl_language = tid_language ex_task, pl_to_spawn = 0,
     pl_workers = [\<lparr>wk_id = ''r'', wk_phase = Idle, wk_consecutive_errors = 0\<rparr>], pl_beating = [],
     pl_shutdown = True, pl_alive = True, pl_used = {''p'', ''r''}\<rparr>"

theorem retired_work_is_recovered_witness:
  "\<exists>ids. get_stale_running_invocations (sorted_env 500000000000) 300
           (w_control (snd (heartbeat (sorted_env 3) ''r'' False ex_world))) = Inr ids \<and> ''i'' \<in> set ids"
proof -
  let ?w = "snd (heartbeat (sorted_env 3) ''r'' False ex_world)"
  have hb: "heartbeats (w_control ?w) ''r'' = Some 3"
    by (simp add: heartbeat_def lift_control_def register_heartbeat_def sorted_env_def)
  have rec: "abs_record ''i'' ?w = Some (status_record_new 2 Running (Some ''r''))"
    by (simp add: abs_record_def heartbeat_def lift_control_def register_heartbeat_def)
  have scan: "get_stale_running_invocations (sorted_env 500000000000) 300 (w_control ?w) = Inr [''i'']"
    by (simp add: get_stale_running_invocations_def heartbeat_def lift_control_def register_heartbeat_def ex_world_def
        ex_run running_stale_def status_record_new_def clamp_i64_def) (simp add: sorted_env_def num_seconds_def)
  have stop: "pool_step ex_service undefined (ex_pool, ?w) (worker_stop 0 ex_pool, ?w)"
    by (rule pool_step.stops [where ph = Idle]) (simp_all add: ex_pool_def phase_of_def)
  have ok: "pool_ok ex_pool" by (simp add: ex_pool_def pool_ok_def active_worker_ids_def)
  show ?thesis
    using retired_work_is_recovered [OF heartbeat_inv [OF ex_world_inv] ok stop _ _ _ hb rtranclp.rtrancl_refl rec _ _ _ _ _ scan]
      scan
    by (simp add: ex_pool_def active_worker_ids_def worker_stop_def status_record_new_def sorted_env_def clamp_i64_def)
qed

end
