(* ===== verification/Sqlite_Db.thy ===== *)
theory Sqlite_Db
  imports Mem_State Mem_Broker Mem_Orchestrator_Query
begin

text \<open>
  The SQLite database, \<^verbatim>\<open>rustvello-sqlite/src/db.rs\<close>: the tables of its schema and the way every
  operation of the crate reaches them. A table with a text primary key is a map from the key to the other
  columns, one with an \<^verbatim>\<open>AUTOINCREMENT\<close> key is the list of its rows in the order of their ids, and one
  whose columns are all part of the key is a set. Columns that the crate prints with
  \<^verbatim>\<open>to_rfc3339\<close> or \<^verbatim>\<open>Display\<close> and parses back hold the instant or the status itself: the text of
  an instant sorts like the instant for the four-digit years, and \<open>status_display_parse\<close> is the round trip
  of statuses. Task and call ids are compared as texts and stay texts. The creation time of a queue row and
  of a client value is never read and has no column here.
\<close>

section \<open>Tables\<close>

record queue_row =
  q_id :: nat
  q_invocation :: str
  q_task :: "str option"
  q_queue :: str
  q_priority :: f64

record invocation_row =
  iv_task :: str
  iv_call :: str
  iv_status :: invocation_status
  iv_created :: time
  iv_updated :: time
  iv_parent :: "str option"
  iv_workflow :: "str option"
  iv_workflow_type :: "str option"
  iv_workflow_depth :: "int option"
  iv_workflow_parent :: "str option"
  iv_trace :: trace_context

record history_row =
  hr_invocation :: str
  hr_status :: invocation_status
  hr_runner :: "str option"
  hr_timestamp :: time
  hr_message :: "str option"
  hr_history_timestamp :: "time option"

record heartbeat_row =
  hb_creation :: time
  hb_last :: time
  hb_can_run :: bool
  hb_service_start :: "time option"
  hb_service_end :: "time option"

record workflow_run_row =
  wr_type :: str
  wr_parent :: "str option"
  wr_depth :: int

text \<open>The tables of the trigger store; the JSON columns hold texts.\<close>

record trg_condition_row =
  gc_type :: str
  gc_event_code :: "str option"
  gc_json :: str

record trg_trigger_row =
  gt_task :: str
  gt_logic :: str
  gt_template :: "str option"

record trg_event_row =
  ge_code :: str
  ge_timestamp :: time
  ge_emitter :: "str option"
  ge_json :: str

record trg_run_row =
  gr_claimed :: time
  gr_triggered :: "str option"
  gr_planned :: "str option"
  gr_json :: str

record trg_tables =
  tg_conditions :: "str \<rightharpoonup> trg_condition_row"
  tg_triggers :: "str \<rightharpoonup> trg_trigger_row"
  tg_condition_triggers :: "(str \<times> str) set"
  tg_valid :: "str \<rightharpoonup> str \<times> str"
  tg_source_tasks :: "(str \<times> str) set"
  tg_cron :: "str \<rightharpoonup> time"
  tg_claims :: "str \<rightharpoonup> time"
  tg_events :: "str \<rightharpoonup> trg_event_row"
  tg_runs :: "str \<rightharpoonup> trg_run_row"
  tg_run_events :: "(str \<times> str) set"
  tg_run_sources :: "(str \<times> str) set"

definition empty_trg_tables :: trg_tables where
  "empty_trg_tables =
     \<lparr>tg_conditions = Map.empty, tg_triggers = Map.empty, tg_condition_triggers = {}, tg_valid = Map.empty,
      tg_source_tasks = {}, tg_cron = Map.empty, tg_claims = Map.empty, tg_events = Map.empty, tg_runs = Map.empty,
      tg_run_events = {}, tg_run_sources = {}\<rparr>"

text \<open>\<open>db_queue_seq\<close> is the greatest id ever given to a queue row, which \<^verbatim>\<open>AUTOINCREMENT\<close> remembers.\<close>

record db =
  db_queue :: "queue_row list"
  db_queue_seq :: nat
  db_reservations :: "nat \<rightharpoonup> int"
  db_invocations :: "str \<rightharpoonup> invocation_row"
  db_submissions :: "str \<rightharpoonup> str"
  db_calls :: "str \<rightharpoonup> str \<times> str"
  db_results :: "str \<rightharpoonup> str"
  db_errors :: "str \<rightharpoonup> task_error"
  db_history :: "history_row list"
  db_status :: "str \<rightharpoonup> status_record"
  db_waiting :: "(str \<times> str) set"
  db_cc :: "str \<times> str \<times> str \<rightharpoonup> str"
  db_client_data :: "str \<rightharpoonup> str"
  db_heartbeats :: "str \<rightharpoonup> heartbeat_row"
  db_retries :: "str \<rightharpoonup> int"
  db_workflow_runs :: "str \<rightharpoonup> workflow_run_row"
  db_workflow_data :: "str \<times> str \<rightharpoonup> str"
  db_app_infos :: "str \<rightharpoonup> str"
  db_sub_invocations :: "(str \<times> str) set"
  db_runner_contexts :: "str \<rightharpoonup> stored_runner_context"
  db_auto_purge :: "str \<rightharpoonup> time"
  db_trg :: trg_tables

definition initialize_schema :: db where
  "initialize_schema =
     \<lparr>db_queue = [], db_queue_seq = 0, db_reservations = Map.empty, db_invocations = Map.empty,
      db_submissions = Map.empty, db_calls = Map.empty, db_results = Map.empty, db_errors = Map.empty,
      db_history = [], db_status = Map.empty, db_waiting = {}, db_cc = Map.empty, db_client_data = Map.empty,
      db_heartbeats = Map.empty, db_retries = Map.empty, db_workflow_runs = Map.empty,
      db_workflow_data = Map.empty, db_app_infos = Map.empty, db_sub_invocations = {},
      db_runner_contexts = Map.empty, db_auto_purge = Map.empty, db_trg = empty_trg_tables\<rparr>"

section \<open>Connections\<close>

text \<open>
  A process reaches the database through one connection behind a mutex. The mutex is poisoned once a thread
  panics while it holds it. \<open>cn_budget\<close> is how many more statements the engine carries out before it reports
  an error (a full disk, a busy writer); \<^const>\<open>None\<close> is an engine that does not fail.
\<close>

record conn =
  cn_poisoned :: bool
  cn_budget :: "nat option"
  cn_db :: db

definition lock_err :: rv_error where
  "lock_err = Infrastructure Query"

definition sql_err :: rv_error where
  "sql_err = Infrastructure Query"

definition locked :: "(conn \<Rightarrow> 'a result \<times> conn) \<Rightarrow> conn \<Rightarrow> 'a result \<times> conn" where
  "locked f c = (if cn_poisoned c then (Inl lock_err, c) else f c)"

text \<open>A panic of the closure given to \<^verbatim>\<open>blocking\<close> is an error of the join, and poisons a mutex that is held.\<close>

definition panics :: "conn \<Rightarrow> 'a result \<times> conn" where
  "panics c = (Inl Internal, c\<lparr>cn_poisoned := True\<rparr>)"

definition statement :: "(db \<Rightarrow> 'a \<times> db) \<Rightarrow> conn \<Rightarrow> 'a result \<times> conn" where
  "statement f c =
     (case cn_budget c of
        Some 0 \<Rightarrow> (Inl sql_err, c)
      | n \<Rightarrow> (case f (cn_db c) of (x, d) \<Rightarrow> (Inr x, c\<lparr>cn_budget := map_option (\<lambda>k. k - 1) n, cn_db := d\<rparr>)))"

definition execute :: "(db \<Rightarrow> db) \<Rightarrow> conn \<Rightarrow> unit result \<times> conn" where
  "execute f = statement (\<lambda>d. ((), f d))"

definition query :: "(db \<Rightarrow> 'a) \<Rightarrow> conn \<Rightarrow> 'a result \<times> conn" where
  "query f = statement (\<lambda>d. (f d, d))"

text \<open>A plain \<^verbatim>\<open>INSERT\<close>, which fails on a row with the same key.\<close>

definition insert_row :: "(db \<Rightarrow> bool) \<Rightarrow> (db \<Rightarrow> db) \<Rightarrow> conn \<Rightarrow> unit result \<times> conn" where
  "insert_row taken f c =
     and_then (statement (\<lambda>d. if taken d then (False, d) else (True, f d)) c) (\<lambda>ok c.
       if ok then (Inr (), c) else (Inl sql_err, c))"

text \<open>Statements in a loop, each ended by \<^verbatim>\<open>?\<close>.\<close>

fun execute_all :: "(db \<Rightarrow> db) list \<Rightarrow> conn \<Rightarrow> unit result \<times> conn" where
  "execute_all [] c = (Inr (), c)"
| "execute_all (f # fs) c = and_then (execute f c) (\<lambda>_ c. execute_all fs c)"

text \<open>
  A transaction: the body answers a value and whether it reached \<^verbatim>\<open>commit\<close>. A body that fails or returns
  before it, or a commit that fails, is rolled back when the transaction is dropped.
\<close>

definition rolled_back :: "db \<Rightarrow> conn \<Rightarrow> conn" where
  "rolled_back d c = c\<lparr>cn_db := d\<rparr>"

definition transaction :: "(conn \<Rightarrow> ('a \<times> bool) result \<times> conn) \<Rightarrow> conn \<Rightarrow> 'a result \<times> conn" where
  "transaction body c =
     and_then (execute id c) (\<lambda>_ c0.
       case body c0 of
         (Inl err, c1) \<Rightarrow> (Inl err, rolled_back (cn_db c) c1)
       | (Inr (x, False), c1) \<Rightarrow> (Inr x, rolled_back (cn_db c) c1)
       | (Inr (x, True), c1) \<Rightarrow>
           (case execute id c1 of
              (Inl err, c2) \<Rightarrow> (Inl err, rolled_back (cn_db c) c2)
            | (Inr _, c2) \<Rightarrow> (Inr x, c2)))"

text \<open>The rows of a keyed table that meet a condition, in the order the engine visits them.\<close>

definition select_keys :: "env \<Rightarrow> (str \<Rightarrow> 'r \<Rightarrow> bool) \<Rightarrow> (str \<rightharpoonup> 'r) \<Rightarrow> str list" where
  "select_keys e P tbl =
     filter (\<lambda>k. case tbl k of None \<Rightarrow> False | Some r \<Rightarrow> P k r) (hash_order e (dom tbl))"

text \<open>
  \<^verbatim>\<open>LIKE\<close>: a percent sign stands for any text, an underscore for one character, and ASCII letters compare
  without regard to case.
\<close>

fun like_match :: "str \<Rightarrow> str \<Rightarrow> bool" where
  "like_match [] s \<longleftrightarrow> s = []"
| "like_match (p # ps) [] \<longleftrightarrow> p = CHR ''%'' \<and> like_match ps []"
| "like_match (p # ps) (c # s) \<longleftrightarrow>
     (if p = CHR ''%'' then like_match ps (c # s) \<or> like_match (p # ps) s
      else (p = CHR ''_'' \<or> ascii_lower p = ascii_lower c) \<and> like_match ps s)"

section \<open>A connection that does not fail\<close>

abbreviation healthy :: "db \<Rightarrow> conn" where
  "healthy d \<equiv> \<lparr>cn_poisoned = False, cn_budget = None, cn_db = d\<rparr>"

lemma statement_healthy [simp]:
  "statement f (healthy d) = (Inr (fst (f d)), healthy (snd (f d)))"
  "execute g (healthy d) = (Inr (), healthy (g d))"
  "query h (healthy d) = (Inr (h d), healthy d)"
  "locked op (healthy d) = op (healthy d)"
  by (simp_all add: statement_def execute_def query_def locked_def split: prod.split)

lemma insert_row_healthy [simp]:
  "insert_row taken f (healthy d) = (if taken d then (Inl sql_err, healthy d) else (Inr (), healthy (f d)))"
  by (simp add: insert_row_def)

lemma rolled_back_simps [simp]: "rolled_back d (healthy d') = healthy d" "cn_db (rolled_back d c) = d"
  by (simp_all add: rolled_back_def)

lemma transaction_healthy:
  "transaction body (healthy d) =
     (case body (healthy d) of
        (Inl err, c) \<Rightarrow> (Inl err, rolled_back d c)
      | (Inr (x, False), c) \<Rightarrow> (Inr x, rolled_back d c)
      | (Inr (x, True), c) \<Rightarrow>
          (case execute id c of
             (Inl err, c') \<Rightarrow> (Inl err, rolled_back d c')
           | (Inr _, c') \<Rightarrow> (Inr x, c')))"
  by (simp add: transaction_def split: prod.split sum.split bool.split)

lemma execute_all_healthy [simp]: "execute_all fs (healthy d) = (Inr (), healthy (fold (\<lambda>f. f) fs d))"
  by (induction fs arbitrary: d) simp_all

lemma select_keys_set:
  "hash_order_ok (hash_order e) \<Longrightarrow> finite (dom tbl) \<Longrightarrow>
     set (select_keys e P tbl) = {k. \<exists>r. tbl k = Some r \<and> P k r}"
  by (auto simp: select_keys_def hash_order_set split: option.splits)

section \<open>Running an operation on the database\<close>

definition on_db :: "(conn \<Rightarrow> 'a result \<times> conn) \<Rightarrow> db \<Rightarrow> 'a result \<times> db" where
  "on_db f d = (case f (healthy d) of (r, c) \<Rightarrow> (r, cn_db c))"

lemma on_db_simps [simp]:
  "on_db (locked f) d = on_db f d"
  "on_db (execute g) d = (Inr (), g d)"
  "on_db (query h) d = (Inr (h d), d)"
  by (simp_all add: on_db_def)

section \<open>Failures change nothing\<close>

text \<open>
  An operation is \<open>atomic\<close> when an answer other than a value leaves the database as it was, whatever the
  engine did: a transaction is, and so is a single statement.
\<close>

definition atomic :: "(conn \<Rightarrow> 'a result \<times> conn) \<Rightarrow> bool" where
  "atomic f \<longleftrightarrow> (\<forall>c err c'. f c = (Inl err, c') \<longrightarrow> cn_db c' = cn_db c)"

lemma statement_fails: "statement f c = (Inl err, c') \<Longrightarrow> c' = c \<and> err = sql_err"
  by (auto simp: statement_def split: option.splits nat.splits prod.splits)

lemma atomic_statement [simp, intro]: "atomic (statement f)" "atomic (execute g)" "atomic (query h)"
  by (auto simp: atomic_def execute_def query_def dest: statement_fails)

lemma atomic_transaction [simp, intro]: "atomic (transaction body)"
  by (auto simp: atomic_def transaction_def and_then_def execute_def split: prod.splits sum.splits bool.splits
      dest!: statement_fails)

lemma atomic_locked [intro]: "atomic f \<Longrightarrow> atomic (locked f)"
  by (auto simp: atomic_def locked_def split: if_splits)

section \<open>What a connection that may fail can do\<close>

text \<open>
  An operation is \<open>faithful\<close> when every value it answers on some connection is the value a connection that
  does not fail would have answered, with the same database left behind. The rules below follow the shape of
  the operations.
\<close>

named_theorems faithful_intros \<open>faithful operations\<close>

definition faithful :: "(conn \<Rightarrow> 'a result \<times> conn) \<Rightarrow> bool" where
  "faithful f \<longleftrightarrow> (\<forall>c x c'. f c = (Inr x, c') \<longrightarrow> f (healthy (cn_db c)) = (Inr x, healthy (cn_db c')))"

lemma faithfulD: "faithful f \<Longrightarrow> f c = (Inr x, c') \<Longrightarrow> f (healthy (cn_db c)) = (Inr x, healthy (cn_db c'))"
  by (simp add: faithful_def)

lemma faithful_statement [faithful_intros]: "faithful (statement f)" "faithful (execute g)" "faithful (query h)"
proof -
  show st: "faithful (statement f)" for f :: "db \<Rightarrow> 'c \<times> db"
    by (auto simp: faithful_def) (auto simp: statement_def split: option.splits nat.splits prod.splits)
  show "faithful (execute g)" "faithful (query h)" unfolding execute_def query_def by (rule st)+
qed

lemma faithful_pure [faithful_intros]: "faithful (\<lambda>c. (v, c))"
  by (auto simp: faithful_def)

lemma faithful_panics [faithful_intros]: "faithful panics"
  by (simp add: faithful_def panics_def)

lemma faithful_and_then [faithful_intros]:
  assumes "faithful f" "\<And>x. faithful (g x)"
  shows "faithful (\<lambda>c. and_then (f c) g)"
  unfolding faithful_def
proof (intro allI impI)
  fix c y c'
  assume "and_then (f c) g = (Inr y, c')"
  then obtain x c1 where f: "f c = (Inr x, c1)" and g: "g x c1 = (Inr y, c')" by (auto simp: and_then_Inr)
  show "and_then (f (healthy (cn_db c))) g = (Inr y, healthy (cn_db c'))"
    using faithfulD [OF assms(1) f] faithfulD [OF assms(2) g] by simp
qed

lemma faithful_if [faithful_intros]:
  "faithful f \<Longrightarrow> faithful g \<Longrightarrow> faithful (\<lambda>c. if b then f c else g c)"
  by (cases b) simp_all

lemma faithful_option [faithful_intros]:
  "faithful f \<Longrightarrow> (\<And>x. faithful (h x)) \<Longrightarrow> faithful (\<lambda>c. case v of None \<Rightarrow> f c | Some x \<Rightarrow> h x c)"
  by (cases v) simp_all

lemma faithful_sum [faithful_intros]:
  "(\<And>x. faithful (k x)) \<Longrightarrow> (\<And>x. faithful (h x)) \<Longrightarrow> faithful (\<lambda>c. case w of Inl x \<Rightarrow> k x c | Inr x \<Rightarrow> h x c)"
  by (cases w) simp_all

lemma faithful_prod [faithful_intros]:
  "(\<And>x y. faithful (m x y)) \<Longrightarrow> faithful (\<lambda>c. case p of (x, y) \<Rightarrow> m x y c)"
  by (cases p) simp

lemma faithful_insert_row [faithful_intros]: "faithful (insert_row taken f)"
  unfolding insert_row_def by (intro faithful_intros)

lemma faithful_execute_all [faithful_intros]: "faithful (execute_all fs)"
proof (induction fs)
  case Nil
  then show ?case by (simp add: faithful_def)
next
  case (Cons f fs)
  have "execute_all (f # fs) = (\<lambda>c. and_then (execute f c) (\<lambda>_. execute_all fs))" by (simp add: fun_eq_iff)
  then show ?case using Cons by (simp only:) (intro faithful_intros)
qed

lemma faithful_locked [faithful_intros]: "faithful f \<Longrightarrow> faithful (locked f)"
  by (auto simp: faithful_def locked_def split: if_splits)

lemma faithful_transaction [faithful_intros]:
  assumes "faithful body"
  shows "faithful (transaction body)"
  unfolding faithful_def
proof (intro allI impI)
  fix c x c'
  assume tx: "transaction body c = (Inr x, c')"
  then obtain c0 where bgn: "execute id c = (Inr (), c0)" by (auto simp: transaction_def and_then_Inr)
  then have db0: "cn_db c0 = cn_db c" using faithfulD [OF faithful_statement(2) bgn] by simp
  obtain b c1 where body: "body c0 = (Inr (x, b), c1)"
    using tx bgn by (auto simp: transaction_def split: prod.splits sum.splits bool.splits)
  note run = faithfulD [OF assms body, unfolded db0]
  show "transaction body (healthy (cn_db c)) = (Inr x, healthy (cn_db c'))"
  proof (cases b)
    case True
    then have "execute id c1 = (Inr (), c')" using tx bgn body by (auto simp: transaction_def split: prod.splits sum.splits)
    then have "cn_db c' = cn_db c1" using faithfulD [OF faithful_statement(2)] by fastforce
    then show ?thesis using True run by (simp add: transaction_healthy)
  next
    case False
    then have "c' = rolled_back (cn_db c) c1" using tx bgn body by (simp add: transaction_def)
    then show ?thesis using False run by (simp add: transaction_healthy)
  qed
qed

lemma on_db_transaction_Inr:
  assumes "faithful body"
  shows "on_db (transaction body) d = (Inr x, d') \<longleftrightarrow>
           body (healthy d) = (Inr (x, True), healthy d') \<or> (d' = d \<and> (\<exists>c. body (healthy d) = (Inr (x, False), c)))"
proof (cases "body (healthy d)")
  case (Pair r c)
  show ?thesis
  proof (cases r)
    case (Inl err)
    then show ?thesis using Pair by (simp add: on_db_def transaction_healthy)
  next
    case (Inr v)
    then have "body (healthy d) = (Inr v, healthy (cn_db c))" using faithfulD [OF assms, of "healthy d"] Pair by simp
    then show ?thesis by (cases v) (auto simp: on_db_def transaction_healthy split: bool.split)
  qed
qed

text \<open>An operation that is both leaves the database alone or does what it would have done without failures.\<close>

lemma all_or_nothing:
  assumes "atomic f" "faithful f"
  shows "cn_db (snd (f c)) = cn_db c \<or> (\<exists>x. fst (f c) = Inr x \<and> on_db f (cn_db c) = (Inr x, cn_db (snd (f c))))"
proof (cases "f c")
  case (Pair r c')
  then show ?thesis
    using assms faithfulD [OF assms(2)] by (cases r) (auto simp: atomic_def on_db_def)
qed

end
