(* ===== verification/Sqlite_Broker.thy ===== *)
theory Sqlite_Broker
  imports Sqlite_Db
begin

text \<open>
  The SQLite broker, \<^verbatim>\<open>rustvello-sqlite/src/broker.rs\<close>. A poll does not take a row out of the queue: it
  leases it, and the row stays until the claim of the invocation commits or the lease expires. The broker
  reads the status table of the same database to skip the rows of invocations that need no delivery.
\<close>

section \<open>Rows\<close>

definition now_ms :: "env \<Rightarrow> int" where
  "now_ms e = now e div 1000000"

text \<open>A deletion fires the trigger that drops the lease of each deleted row.\<close>

definition delete_queue :: "(queue_row \<Rightarrow> bool) \<Rightarrow> db \<Rightarrow> db" where
  "delete_queue P d =
     d\<lparr>db_queue := filter (\<lambda>r. \<not> P r) (db_queue d),
       db_reservations := (\<lambda>k. if \<exists>r \<in> set (db_queue d). q_id r = k \<and> P r then None else db_reservations d k)\<rparr>"

definition insert_queue :: "str \<Rightarrow> str option \<Rightarrow> str \<Rightarrow> f64 \<Rightarrow> db \<Rightarrow> db" where
  "insert_queue i task q p d =
     d\<lparr>db_queue := db_queue d @ [\<lparr>q_id = Suc (db_queue_seq d), q_invocation = i, q_task = task, q_queue = q,
                                  q_priority = p\<rparr>],
       db_queue_seq := Suc (db_queue_seq d)\<rparr>"

definition set_reservation :: "nat \<Rightarrow> int \<Rightarrow> db \<Rightarrow> db" where
  "set_reservation k expires d = d\<lparr>db_reservations := (db_reservations d)(k \<mapsto> expires)\<rparr>"

text \<open>\<^verbatim>\<open>EXISTS (SELECT 1 FROM status_records s WHERE ... s.status NOT IN ('REGISTERED', 'RETRY', 'REROUTED'))\<close>\<close>

definition settled :: "db \<Rightarrow> str \<Rightarrow> bool" where
  "settled d i \<longleftrightarrow>
     (case db_status d i of None \<Rightarrow> False | Some r \<Rightarrow> sr_status r \<notin> {Registered, Retry, Rerouted})"

definition task_matches :: "str option \<Rightarrow> queue_row \<Rightarrow> bool" where
  "task_matches task r \<longleftrightarrow> (case task of None \<Rightarrow> True | Some t \<Rightarrow> q_task r = Some t)"

definition language_matches :: "str option \<Rightarrow> queue_row \<Rightarrow> bool" where
  "language_matches lang r \<longleftrightarrow>
     (case lang of
        None \<Rightarrow> True
      | Some l \<Rightarrow> (case q_task r of None \<Rightarrow> l = ''rust'' | Some t \<Rightarrow> like_match (l @ ''::%'') t))"

definition unleased :: "int \<Rightarrow> db \<Rightarrow> queue_row \<Rightarrow> bool" where
  "unleased t d r \<longleftrightarrow> (case db_reservations d (q_id r) of None \<Rightarrow> True | Some expires \<Rightarrow> expires \<le> t)"

definition deliverable :: "str \<Rightarrow> str option \<Rightarrow> str option \<Rightarrow> int \<Rightarrow> db \<Rightarrow> queue_row \<Rightarrow> bool" where
  "deliverable q task lang t d r \<longleftrightarrow>
     q_queue r = q \<and> task_matches task r \<and> language_matches lang r \<and> unleased t d r \<and> \<not> settled d (q_invocation r)"

text \<open>\<^verbatim>\<open>ORDER BY q.priority DESC, q.id ASC LIMIT 1\<close>, the rows being in the order of their ids.\<close>

definition first_by_priority :: "queue_row list \<Rightarrow> queue_row option" where
  "first_by_priority rows =
     (case sort_key (\<lambda>r. - f64_rank (q_priority r)) rows of [] \<Rightarrow> None | r # _ \<Rightarrow> Some r)"

text \<open>The bounded clean-up of a poll; \<open>visit\<close> is the order in which the engine finds the rows.\<close>

definition sweep :: "(nat \<Rightarrow> nat) \<Rightarrow> str \<Rightarrow> db \<Rightarrow> db" where
  "sweep visit q d =
     (let ids = take 128 (sort_key visit (map q_id (filter (\<lambda>r. q_queue r = q \<and> settled d (q_invocation r)) (db_queue d))))
      in delete_queue (\<lambda>r. q_id r \<in> set ids) d)"

section \<open>Operations\<close>

text \<open>A lease is a duration in nanoseconds.\<close>

definition with_reservation_lease :: "int \<Rightarrow> int result" where
  "with_reservation_lease lease =
     (if 100 * 1000000 \<le> lease \<and> lease \<le> 3600 * ns_per_sec then Inr lease else Inl Configuration)"

definition lease_ms :: "int \<Rightarrow> int" where
  "lease_ms lease = lease div 1000000"

definition reserve ::
    "int \<Rightarrow> env \<Rightarrow> (nat \<Rightarrow> nat) \<Rightarrow> str \<Rightarrow> task_id option \<Rightarrow> task_language option \<Rightarrow> conn
       \<Rightarrow> str option result \<times> conn" where
  "reserve lease e visit q task lang c =
     (case validate_routing q 0 of
        Inl err \<Rightarrow> (Inl err, c)
      | Inr _ \<Rightarrow>
          locked (transaction (\<lambda>c.
            and_then (execute (sweep visit q) c) (\<lambda>_ c.
            and_then (query (\<lambda>d. first_by_priority
                        (filter (deliverable q (map_option display_task_id task) (map_option language_as_str lang)
                                   (now_ms e) d) (db_queue d))) c) (\<lambda>row c.
              case row of
                None \<Rightarrow> (Inr (None, True), c)
              | Some r \<Rightarrow>
                  and_then (execute (set_reservation (q_id r) (now_ms e + lease_ms lease)) c) (\<lambda>_ c.
                    (Inr (Some (q_invocation r), True), c)))))) c)"

definition not_before_ms :: "env \<Rightarrow> int \<Rightarrow> int" where
  "not_before_ms e delay = min i64_max (now_ms e + min i64_max (delay div 1000000))"

definition sq_route_invocation_with_options ::
    "str \<Rightarrow> task_id option \<Rightarrow> str \<Rightarrow> f64 \<Rightarrow> conn \<Rightarrow> unit result \<times> conn" where
  "sq_route_invocation_with_options i task q p c =
     (case validate_routing q p of
        Inl err \<Rightarrow> (Inl err, c)
      | Inr _ \<Rightarrow> locked (execute (insert_queue i (map_option display_task_id task) q p)) c)"

text \<open>A delayed row is inserted with a lease that nobody holds.\<close>

definition sq_route_invocation_after ::
    "env \<Rightarrow> str \<Rightarrow> task_id option \<Rightarrow> str \<Rightarrow> f64 \<Rightarrow> int \<Rightarrow> conn \<Rightarrow> unit result \<times> conn" where
  "sq_route_invocation_after e i task q p delay c =
     (case validate_routing q p of
        Inl err \<Rightarrow> (Inl err, c)
      | Inr _ \<Rightarrow>
          locked (transaction (\<lambda>c.
            and_then (execute (insert_queue i (map_option display_task_id task) q p) c) (\<lambda>_ c.
            and_then (insert_row (\<lambda>d. db_reservations d (db_queue_seq d) \<noteq> None)
                        (\<lambda>d. set_reservation (db_queue_seq d) (not_before_ms e delay) d) c) (\<lambda>_ c.
              (Inr ((), True), c))))) c)"

definition sq_route_invocation :: "str \<Rightarrow> conn \<Rightarrow> unit result \<times> conn" where
  "sq_route_invocation i = sq_route_invocation_with_options i None DEFAULT_QUEUE 0"

definition sq_route_invocation_for_task :: "str \<Rightarrow> task_id \<Rightarrow> conn \<Rightarrow> unit result \<times> conn" where
  "sq_route_invocation_for_task i t = sq_route_invocation_with_options i (Some t) DEFAULT_QUEUE 0"

definition sq_retrieve_invocation_from_queue ::
    "int \<Rightarrow> env \<Rightarrow> (nat \<Rightarrow> nat) \<Rightarrow> str \<Rightarrow> task_id option \<Rightarrow> conn \<Rightarrow> str option result \<times> conn" where
  "sq_retrieve_invocation_from_queue lease e visit q task = reserve lease e visit q task None"

definition sq_retrieve_invocation ::
    "int \<Rightarrow> env \<Rightarrow> (nat \<Rightarrow> nat) \<Rightarrow> task_id option \<Rightarrow> conn \<Rightarrow> str option result \<times> conn" where
  "sq_retrieve_invocation lease e visit task = sq_retrieve_invocation_from_queue lease e visit DEFAULT_QUEUE task"

definition sq_retrieve_invocation_for_language_from_queue ::
    "int \<Rightarrow> env \<Rightarrow> (nat \<Rightarrow> nat) \<Rightarrow> task_language \<Rightarrow> str \<Rightarrow> conn \<Rightarrow> str option result \<times> conn" where
  "sq_retrieve_invocation_for_language_from_queue lease e visit lang q = reserve lease e visit q None (Some lang)"

definition sq_retrieve_invocation_for_language ::
    "int \<Rightarrow> env \<Rightarrow> (nat \<Rightarrow> nat) \<Rightarrow> task_language \<Rightarrow> conn \<Rightarrow> str option result \<times> conn" where
  "sq_retrieve_invocation_for_language lease e visit lang =
     sq_retrieve_invocation_for_language_from_queue lease e visit lang DEFAULT_QUEUE"

definition count_queue :: "int \<Rightarrow> str option \<Rightarrow> str option \<Rightarrow> db \<Rightarrow> nat" where
  "count_queue t q task d =
     length (filter (\<lambda>r. (case q of None \<Rightarrow> True | Some x \<Rightarrow> q_queue r = x) \<and> task_matches task r \<and>
                         unleased t d r \<and> \<not> settled d (q_invocation r)) (db_queue d))"

fun count_queues :: "int \<Rightarrow> str option list \<Rightarrow> str option \<Rightarrow> conn \<Rightarrow> nat result \<times> conn" where
  "count_queues t [] task c = (Inr 0, c)"
| "count_queues t (q # qs) task c =
     and_then (query (count_queue t q task) c) (\<lambda>n c.
     and_then (count_queues t qs task c) (\<lambda>m c. (Inr (n + m), c)))"

definition sq_count_invocations_in_queues ::
    "env \<Rightarrow> str list \<Rightarrow> task_id option \<Rightarrow> conn \<Rightarrow> nat result \<times> conn" where
  "sq_count_invocations_in_queues e qs task c =
     (case validate_queues qs of
        Inl err \<Rightarrow> (Inl err, c)
      | Inr _ \<Rightarrow>
          locked (count_queues (now_ms e) (if qs = [] then [None] else map Some qs)
                    (map_option display_task_id task)) c)"

definition sq_count_queued :: "env \<Rightarrow> task_id option \<Rightarrow> conn \<Rightarrow> nat result \<times> conn" where
  "sq_count_queued e task = sq_count_invocations_in_queues e [] task"

definition sq_broker_purge :: "task_id option \<Rightarrow> conn \<Rightarrow> unit result \<times> conn" where
  "sq_broker_purge task =
     locked (case task of
               Some t \<Rightarrow> execute (delete_queue (\<lambda>r. q_task r = Some (display_task_id t)))
             | None \<Rightarrow> execute (delete_queue (\<lambda>_. True)))"

section \<open>Selection\<close>

lemma first_by_priority_None: "first_by_priority rows = None \<longleftrightarrow> rows = []"
proof -
  have "sort_key k rows = [] \<longleftrightarrow> rows = []" for k :: "queue_row \<Rightarrow> int" by (metis length_0_conv length_sort)
  from this [of "\<lambda>r. - f64_rank (q_priority r)"] show ?thesis
    by (cases "sort_key (\<lambda>r. - f64_rank (q_priority r)) rows") (simp_all add: first_by_priority_def)
qed

lemma first_by_priority_Some:
  assumes "first_by_priority rows = Some r" "sorted_wrt (\<lambda>x y. q_id x < q_id y) rows"
  shows "r \<in> set rows" "x \<in> set rows \<Longrightarrow> f64_rank (q_priority x) < f64_rank (q_priority r) \<or>
           (f64_rank (q_priority x) = f64_rank (q_priority r) \<and> q_id r \<le> q_id x)"
proof -
  let ?k = "\<lambda>r. - f64_rank (q_priority r)"
  obtain rest where srt: "sort_key ?k rows = r # rest"
    using assms(1) by (auto simp: first_by_priority_def split: list.splits)
  then have mem: "set rows = set (r # rest)" by (metis set_sort)
  then show "r \<in> set rows" by simp
  assume x: "x \<in> set rows"
  have le: "?k r \<le> ?k x" using x sorted_sort_key [of ?k rows] by (auto simp: srt mem)
  have "q_id r \<le> q_id x" if "?k x = ?k r"
  proof -
    have "filter (\<lambda>y. ?k y = ?k r) rows = r # filter (\<lambda>y. ?k y = ?k r) rest"
      using sort_key_stable [of ?k "?k r" rows] srt by simp
    moreover have "sorted_wrt (\<lambda>x y. q_id x < q_id y) (filter (\<lambda>y. ?k y = ?k r) rows)"
      using assms(2) by (rule sorted_wrt_filter)
    moreover have "x \<in> set (filter (\<lambda>y. ?k y = ?k r) rows)" using x that by simp
    ultimately show ?thesis by auto
  qed
  then show "f64_rank (q_priority x) < f64_rank (q_priority r) \<or>
     (f64_rank (q_priority x) = f64_rank (q_priority r) \<and> q_id r \<le> q_id x)" using le by linarith
qed

end
