(* ===== verification/Sqlite_Orchestrator.thy ===== *)
theory Sqlite_Orchestrator
  imports Sqlite_Broker
begin

text \<open>
  The SQLite orchestrator, \<^verbatim>\<open>rustvello-sqlite/src/orchestrator/\<close>: status changes, concurrency control,
  blocking, heartbeats, recovery scans and queries, each as the statements and transactions of the code.
\<close>

section \<open>Status\<close>

definition new_invocation_row :: "time \<Rightarrow> call_dto \<Rightarrow> invocation_row" where
  "new_invocation_row t call =
     \<lparr>iv_task = display_task_id (cd_task_id call), iv_call = display_call_id (cd_call_id call),
      iv_status = Registered, iv_created = t, iv_updated = t, iv_parent = None, iv_workflow = None,
      iv_workflow_type = None, iv_workflow_depth = None, iv_workflow_parent = None,
      iv_trace = trace_context_default\<rparr>"

definition sq_register_invocation_with_id ::
    "env \<Rightarrow> str \<Rightarrow> call_dto \<Rightarrow> str option \<Rightarrow> conn \<Rightarrow> status_record result \<times> conn" where
  "sq_register_invocation_with_id e i call runner =
     (let record = \<lparr>sr_status = Registered, sr_runner = runner, sr_timestamp = now e\<rparr>
      in locked (transaction (\<lambda>c.
           and_then (execute (\<lambda>d. if db_invocations d i = None
                                  then d\<lparr>db_invocations := (db_invocations d)(i \<mapsto> new_invocation_row (now e) call)\<rparr>
                                  else d) c) (\<lambda>_ c.
           and_then (execute (\<lambda>d. d\<lparr>db_status := (db_status d)(i \<mapsto> record)\<rparr>) c) (\<lambda>_ c.
             (Inr (record, True), c))))))"

definition sq_register_invocation :: "env \<Rightarrow> str \<Rightarrow> call_dto \<Rightarrow> conn \<Rightarrow> str result \<times> conn" where
  "sq_register_invocation e fresh call c =
     and_then (sq_register_invocation_with_id e fresh call None c) (\<lambda>_ c. (Inr fresh, c))"

definition bump_retries :: "str \<Rightarrow> db \<Rightarrow> db" where
  "bump_retries i d =
     d\<lparr>db_retries := (db_retries d)(i \<mapsto> (case db_retries d i of None \<Rightarrow> 1 | Some n \<Rightarrow> n + 1))\<rparr>"

text \<open>Reading an \<^verbatim>\<open>INTEGER\<close> column as a \<^verbatim>\<open>u32\<close> fails outside its range.\<close>

definition read_u32 :: "int option \<Rightarrow> u32 option" where
  "read_u32 n = (case n of None \<Rightarrow> None | Some k \<Rightarrow> (if 0 \<le> k \<and> k < 2 ^ 32 then Some (word_of_int k) else None))"

definition sq_increment_invocation_retries :: "str \<Rightarrow> conn \<Rightarrow> u32 result \<times> conn" where
  "sq_increment_invocation_retries i =
     locked (transaction (\<lambda>c.
       and_then (execute (bump_retries i) c) (\<lambda>_ c.
       and_then (query (\<lambda>d. read_u32 (db_retries d i)) c) (\<lambda>found c.
         case found of None \<Rightarrow> (Inl sql_err, c) | Some n \<Rightarrow> (Inr (n, True), c)))))"

text \<open>Any failure of the query is a count of zero.\<close>

definition sq_get_invocation_retries :: "str \<Rightarrow> conn \<Rightarrow> u32 result \<times> conn" where
  "sq_get_invocation_retries i =
     locked (\<lambda>c. case query (\<lambda>d. read_u32 (db_retries d i)) c of
                   (Inr (Some n), c) \<Rightarrow> (Inr n, c)
                 | (_, c) \<Rightarrow> (Inr 0, c))"

text \<open>The tombstone that keeps a removed id from being submitted again.\<close>

definition bury :: "str \<Rightarrow> db \<Rightarrow> db" where
  "bury i d =
     (if db_invocations d i \<noteq> None then d\<lparr>db_submissions := (db_submissions d)(i \<mapsto> [])\<rparr> else d)"

definition delete_cc :: "str \<Rightarrow> db \<Rightarrow> db" where
  "delete_cc i d = d\<lparr>db_cc := (\<lambda>(j, k, v). if j = i then None else db_cc d (j, k, v))\<rparr>"

definition sq_remove_invocation :: "str \<Rightarrow> conn \<Rightarrow> unit result \<times> conn" where
  "sq_remove_invocation i =
     locked (transaction (\<lambda>c.
       and_then (execute_all
         [bury i,
          delete_queue (\<lambda>r. q_invocation r = i),
          \<lambda>d. d\<lparr>db_status := (db_status d)(i := None)\<rparr>,
          delete_cc i,
          \<lambda>d. d\<lparr>db_waiting := {(a, b) \<in> db_waiting d. a \<noteq> i \<and> b \<noteq> i}\<rparr>,
          \<lambda>d. d\<lparr>db_retries := (db_retries d)(i := None)\<rparr>,
          \<lambda>d. d\<lparr>db_invocations := (db_invocations d)(i := None)\<rparr>,
          \<lambda>d. d\<lparr>db_auto_purge := (db_auto_purge d)(i := None)\<rparr>] c) (\<lambda>_ c.
         (Inr ((), True), c))))"

text \<open>Any failure of the query is reported as a missing invocation.\<close>

definition sq_find_status :: "str \<Rightarrow> conn \<Rightarrow> status_record result \<times> conn" where
  "sq_find_status i c =
     (case query (\<lambda>d. db_status d i) c of
        (Inr (Some r), c) \<Rightarrow> (Inr r, c)
      | (_, c) \<Rightarrow> (Inl (InvocationNotFound i), c))"

definition sq_get_invocation_status :: "str \<Rightarrow> conn \<Rightarrow> status_record result \<times> conn" where
  "sq_get_invocation_status i = locked (sq_find_status i)"

definition update_status_row :: "str \<Rightarrow> status_record \<Rightarrow> db \<Rightarrow> db" where
  "update_status_row i r d =
     (if db_status d i = None then d else d\<lparr>db_status := (db_status d)(i \<mapsto> r)\<rparr>)"

definition update_invocation_row :: "str \<Rightarrow> status_record \<Rightarrow> db \<Rightarrow> db" where
  "update_invocation_row i r d =
     (case db_invocations d i of
        None \<Rightarrow> d
      | Some row \<Rightarrow> d\<lparr>db_invocations := (db_invocations d)(i \<mapsto> row\<lparr>iv_status := sr_status r, iv_updated := sr_timestamp r\<rparr>)\<rparr>)"

text \<open>A claim acknowledges the delivery in the same transaction: every queue row of the invocation goes.\<close>

definition sq_set_invocation_status ::
    "env \<Rightarrow> str \<Rightarrow> invocation_status \<Rightarrow> str option \<Rightarrow> conn \<Rightarrow> status_record result \<times> conn" where
  "sq_set_invocation_status e i status runner =
     locked (transaction (\<lambda>c.
       and_then (sq_find_status i c) (\<lambda>current c.
         case status_record_transition (now e) (Some current) status runner of
           Inl err \<Rightarrow> (Inl (status_machine_error_to_rustvello err i (sr_status current)), c)
         | Inr new_record \<Rightarrow>
             and_then (execute (update_status_row i new_record) c) (\<lambda>_ c.
             and_then (execute (update_invocation_row i new_record) c) (\<lambda>_ c.
             and_then (if status = Pending then execute (delete_queue (\<lambda>r. q_invocation r = i)) c else (Inr (), c)) (\<lambda>_ c.
               (Inr (new_record, True), c)))))))"

definition bury_all :: "db \<Rightarrow> db" where
  "bury_all d =
     d\<lparr>db_submissions := (\<lambda>i. if db_invocations d i \<noteq> None \<or> db_submissions d i \<noteq> None then Some [] else None)\<rparr>"

text \<open>The batch is one call; a failure inside it rolls the transaction back like any other.\<close>

definition sq_orch_purge :: "conn \<Rightarrow> unit result \<times> conn" where
  "sq_orch_purge =
     locked (transaction (\<lambda>c.
       and_then (execute (\<lambda>d. (bury_all d)\<lparr>db_cc := Map.empty, db_waiting := {}, db_status := Map.empty,
                   db_retries := Map.empty, db_heartbeats := Map.empty, db_auto_purge := Map.empty,
                   db_invocations := Map.empty\<rparr>) c) (\<lambda>_ c. (Inr ((), True), c))))"

definition sq_schedule_auto_purge :: "env \<Rightarrow> str \<Rightarrow> conn \<Rightarrow> unit result \<times> conn" where
  "sq_schedule_auto_purge e i =
     locked (execute (\<lambda>d. d\<lparr>db_auto_purge := (db_auto_purge d)(i \<mapsto> now e)\<rparr>))"

fun sq_purge_all :: "str list \<Rightarrow> conn \<Rightarrow> str list \<times> conn" where
  "sq_purge_all [] c = ([], c)"
| "sq_purge_all (i # is) c =
     (case sq_remove_invocation i c of
        (Inr _, c) \<Rightarrow> (case sq_purge_all is c of (purged, c) \<Rightarrow> (i # purged, c))
      | (Inl _, c) \<Rightarrow> sq_purge_all is c)"

text \<open>Here the date is computed before the mutex is taken, so a panic does not poison it.\<close>

definition sq_run_auto_purge :: "env \<Rightarrow> u64 \<Rightarrow> conn \<Rightarrow> str list result \<times> conn" where
  "sq_run_auto_purge e max_age_secs c =
     (case sub_secs e (now e) (clamp_i64 max_age_secs) of
        None \<Rightarrow> (Inl Internal, c)
      | Some threshold \<Rightarrow>
          and_then (locked (transaction (\<lambda>c.
              and_then (query (\<lambda>d. select_keys e (\<lambda>_ at. at \<le> threshold) (db_auto_purge d)) c) (\<lambda>rows c.
              and_then (execute (\<lambda>d. d\<lparr>db_auto_purge := (\<lambda>i. case db_auto_purge d i of
                                        None \<Rightarrow> None | Some at \<Rightarrow> if at \<le> threshold then None else Some at)\<rparr>) c) (\<lambda>_ c.
                (Inr (rows, True), c))))) c) (\<lambda>expired c.
            (case sq_purge_all expired c of (purged, c) \<Rightarrow> (Inr purged, c))))"

section \<open>Concurrency control\<close>

text \<open>
  \<^verbatim>\<open>GROUP BY cp.invocation_id HAVING COUNT(*) = n\<close> over the rows of a task that carry one of the pairs: the
  rows of a group are distinct pairs, by the primary key.
\<close>

definition cc_rows :: "db \<Rightarrow> str \<Rightarrow> (str \<times> str) list \<Rightarrow> str \<Rightarrow> (str \<times> str) set" where
  "cc_rows d t pairs i = {(k, v) \<in> set pairs. db_cc d (i, k, v) = Some t}"

definition cc_groups :: "db \<Rightarrow> str \<Rightarrow> (str \<times> str) list \<Rightarrow> str set" where
  "cc_groups d t pairs =
     {i \<in> fst ` dom (db_cc d). cc_rows d t pairs i \<noteq> {} \<and> card (cc_rows d t pairs i) = length pairs}"

definition active_row :: "db \<Rightarrow> str \<Rightarrow> bool" where
  "active_row d i \<longleftrightarrow> (case db_invocations d i of None \<Rightarrow> False | Some r \<Rightarrow> iv_status r \<in> {Pending, Running})"

definition sq_check_running_concurrency ::
    "task_id \<Rightarrow> task_config \<Rightarrow> serialized_arguments option \<Rightarrow> conn \<Rightarrow> bool result \<times> conn" where
  "sq_check_running_concurrency t config cc_args c =
     (if concurrency_control config = Unlimited then (Inr True, c)
      else
        locked (\<lambda>c.
          and_then (query (\<lambda>d. case cc_args of
              Some a \<Rightarrow> card {i \<in> cc_groups d (display_task_id t) (cc_arg_pairs a). active_row d i}
            | None \<Rightarrow> card {i. \<exists>r. db_invocations d i = Some r \<and> iv_task r = display_task_id t \<and>
                                    iv_status r \<in> {Pending, Running}}) c) (\<lambda>n c.
            (Inr (n < cc_limit config), c))) c)"

definition insert_cc :: "str \<Rightarrow> str \<Rightarrow> str \<times> str \<Rightarrow> db \<Rightarrow> db" where
  "insert_cc i t kv d = d\<lparr>db_cc := (db_cc d)((i, fst kv, snd kv) \<mapsto> t)\<rparr>"

text \<open>Not a transaction: a statement that fails leaves the pairs written before it.\<close>

definition sq_index_for_concurrency_control ::
    "str \<Rightarrow> task_id \<Rightarrow> serialized_arguments option \<Rightarrow> conn \<Rightarrow> unit result \<times> conn" where
  "sq_index_for_concurrency_control i t cc_args c =
     (case cc_args of
        None \<Rightarrow> (Inr (), c)
      | Some a \<Rightarrow> locked (execute_all (map (insert_cc i (display_task_id t)) (cc_arg_pairs a))) c)"

definition sq_try_acquire_concurrency_slot ::
    "str \<Rightarrow> task_id \<Rightarrow> task_config \<Rightarrow> serialized_arguments option \<Rightarrow> conn \<Rightarrow> bool result \<times> conn" where
  "sq_try_acquire_concurrency_slot i t config cc_args c =
     (if concurrency_control config = Unlimited then (Inr True, c)
      else
        (let pairs = cc_arg_pairs (or_else cc_args [])
         in locked (transaction (\<lambda>c.
              and_then (query (\<lambda>d. card (cc_groups d (display_task_id t) pairs - {i})) c) (\<lambda>n c.
                if cc_limit config \<le> n then (Inr (False, False), c)
                else and_then (execute_all (map (insert_cc i (display_task_id t)) pairs) c) (\<lambda>_ c.
                       (Inr (True, True), c))))) c))"

definition sq_remove_from_concurrency_index :: "str \<Rightarrow> conn \<Rightarrow> unit result \<times> conn" where
  "sq_remove_from_concurrency_index i = locked (execute (delete_cc i))"

section \<open>Blocking\<close>

definition sq_set_waiting_for :: "str \<Rightarrow> str \<Rightarrow> conn \<Rightarrow> unit result \<times> conn" where
  "sq_set_waiting_for waiter waited_on =
     locked (execute (\<lambda>d. d\<lparr>db_waiting := insert (waiter, waited_on) (db_waiting d)\<rparr>))"

definition waiters_of :: "db \<Rightarrow> str \<Rightarrow> str set" where
  "waiters_of d x = {w. (w, x) \<in> db_waiting d}"

definition sq_get_waiters :: "env \<Rightarrow> str \<Rightarrow> conn \<Rightarrow> str list result \<times> conn" where
  "sq_get_waiters e waited_on = locked (query (\<lambda>d. hash_order e (waiters_of d waited_on)))"

definition delete_waiters :: "str \<Rightarrow> db \<Rightarrow> db" where
  "delete_waiters x d = d\<lparr>db_waiting := {(a, b) \<in> db_waiting d. b \<noteq> x}\<rparr>"

definition sq_release_waiters :: "env \<Rightarrow> str \<Rightarrow> conn \<Rightarrow> str list result \<times> conn" where
  "sq_release_waiters e completed =
     locked (transaction (\<lambda>c.
       and_then (query (\<lambda>d. hash_order e (waiters_of d completed)) c) (\<lambda>ws c.
       and_then (execute (delete_waiters completed) c) (\<lambda>_ c.
         (Inr (ws, True), c)))))"

section \<open>Heartbeats and recovery\<close>

definition sq_register_heartbeat :: "env \<Rightarrow> str \<Rightarrow> bool \<Rightarrow> conn \<Rightarrow> unit result \<times> conn" where
  "sq_register_heartbeat e r can_run =
     locked (execute (\<lambda>d. d\<lparr>db_heartbeats := (db_heartbeats d)(r \<mapsto>
       (case db_heartbeats d r of
          None \<Rightarrow> \<lparr>hb_creation = now e, hb_last = now e, hb_can_run = can_run, hb_service_start = None,
                   hb_service_end = None\<rparr>
        | Some row \<Rightarrow> row\<lparr>hb_last := now e, hb_can_run := can_run\<rparr>))\<rparr>))"

text \<open>The scans compute their date with the mutex held.\<close>

definition with_threshold ::
    "env \<Rightarrow> u64 \<Rightarrow> (time \<Rightarrow> db \<Rightarrow> 'a) \<Rightarrow> conn \<Rightarrow> 'a result \<times> conn" where
  "with_threshold e secs f =
     locked (\<lambda>c. case sub_secs e (now e) (clamp_i64 secs) of
                   None \<Rightarrow> panics c
                 | Some threshold \<Rightarrow> query (f threshold) c)"

definition sq_get_stale_pending_invocations :: "env \<Rightarrow> u64 \<Rightarrow> conn \<Rightarrow> str list result \<times> conn" where
  "sq_get_stale_pending_invocations e max_secs =
     with_threshold e max_secs (\<lambda>threshold d.
       select_keys e (\<lambda>_ r. sr_status r = Pending \<and> sr_timestamp r < threshold) (db_status d))"

definition sq_running_stale :: "time \<Rightarrow> db \<Rightarrow> status_record \<Rightarrow> bool" where
  "sq_running_stale threshold d r \<longleftrightarrow>
     (case Option.bind (sr_runner r) (db_heartbeats d) of
        None \<Rightarrow> sr_timestamp r < threshold
      | Some hb \<Rightarrow> hb_last hb < threshold)"

definition sq_get_stale_running_invocations :: "env \<Rightarrow> u64 \<Rightarrow> conn \<Rightarrow> str list result \<times> conn" where
  "sq_get_stale_running_invocations e dead_after =
     with_threshold e dead_after (\<lambda>threshold d.
       select_keys e (\<lambda>_ r. sr_status r = Running \<and> sq_running_stale threshold d r) (db_status d))"

definition sq_get_active_runner_ids :: "env \<Rightarrow> u64 \<Rightarrow> conn \<Rightarrow> str list result \<times> conn" where
  "sq_get_active_runner_ids e timeout =
     with_threshold e timeout (\<lambda>threshold d. select_keys e (\<lambda>_ hb. threshold \<le> hb_last hb) (db_heartbeats d))"

definition sq_runner_info :: "db \<Rightarrow> str \<Rightarrow> active_runner_info list" where
  "sq_runner_info d r =
     (case db_heartbeats d r of
        None \<Rightarrow> []
      | Some hb \<Rightarrow> [\<lparr>ari_runner_id = r, ari_creation_time = hb_creation hb, ari_last_heartbeat = hb_last hb,
                    ari_can_run_atomic_service = hb_can_run hb, ari_last_service_start = hb_service_start hb,
                    ari_last_service_end = hb_service_end hb\<rparr>])"

definition sq_get_active_runners ::
    "env \<Rightarrow> u64 \<Rightarrow> bool option \<Rightarrow> conn \<Rightarrow> active_runner_info list result \<times> conn" where
  "sq_get_active_runners e timeout can_run =
     with_threshold e timeout (\<lambda>threshold d.
       concat (map (sq_runner_info d)
         (select_keys e (\<lambda>_ hb. threshold \<le> hb_last hb \<and> (case can_run of None \<Rightarrow> True | Some b \<Rightarrow> hb_can_run hb = b))
            (db_heartbeats d))))"

definition sq_record_atomic_service_execution :: "str \<Rightarrow> time \<Rightarrow> time \<Rightarrow> conn \<Rightarrow> unit result \<times> conn" where
  "sq_record_atomic_service_execution r start end_time =
     locked (execute (\<lambda>d. d\<lparr>db_heartbeats := (db_heartbeats d)(r \<mapsto>
       (case db_heartbeats d r of
          None \<Rightarrow> \<lparr>hb_creation = start, hb_last = end_time, hb_can_run = True, hb_service_start = Some start,
                   hb_service_end = Some end_time\<rparr>
        | Some row \<Rightarrow> row\<lparr>hb_service_start := Some start, hb_service_end := Some end_time\<rparr>))\<rparr>))"

definition service_rows :: "env \<Rightarrow> db \<Rightarrow> atomic_service_execution list" where
  "service_rows e d =
     List.map_filter (\<lambda>r. case db_heartbeats d r of
         None \<Rightarrow> None
       | Some hb \<Rightarrow> (case (hb_service_start hb, hb_service_end hb) of
             (Some a, Some b) \<Rightarrow> Some \<lparr>ase_runner_id = r, ase_start = a, ase_end = b\<rparr>
           | _ \<Rightarrow> None))
       (hash_order e (dom (db_heartbeats d)))"

definition sq_get_atomic_service_timeline :: "env \<Rightarrow> conn \<Rightarrow> atomic_service_execution list result \<times> conn" where
  "sq_get_atomic_service_timeline e = locked (query (\<lambda>d. sort_key (\<lambda>x. - ase_start x) (service_rows e d)))"

section \<open>Queries\<close>

definition sq_get_invocations_by_task :: "env \<Rightarrow> task_id \<Rightarrow> conn \<Rightarrow> str list result \<times> conn" where
  "sq_get_invocations_by_task e t =
     locked (query (\<lambda>d. select_keys e (\<lambda>_ r. iv_task r = display_task_id t) (db_invocations d)))"

definition sq_get_invocations_by_call :: "env \<Rightarrow> call_id \<Rightarrow> conn \<Rightarrow> str list result \<times> conn" where
  "sq_get_invocations_by_call e k =
     locked (query (\<lambda>d. select_keys e (\<lambda>_ r. iv_call r = display_call_id k) (db_invocations d)))"

definition sq_get_invocations_by_status ::
    "env \<Rightarrow> invocation_status \<Rightarrow> task_id option \<Rightarrow> conn \<Rightarrow> str list result \<times> conn" where
  "sq_get_invocations_by_status e st task =
     locked (query (\<lambda>d. select_keys e (\<lambda>_ r. iv_status r = st \<and>
       (case task of None \<Rightarrow> True | Some t \<Rightarrow> iv_task r = display_task_id t)) (db_invocations d)))"

definition matching_status ::
    "task_id option \<Rightarrow> invocation_status list option \<Rightarrow> db \<Rightarrow> str \<Rightarrow> status_record \<Rightarrow> bool" where
  "matching_status task sts d i r \<longleftrightarrow>
     (case task of
        None \<Rightarrow> True
      | Some t \<Rightarrow> (case db_invocations d i of None \<Rightarrow> False | Some row \<Rightarrow> iv_task row = display_task_id t)) \<and>
     (case sts of None \<Rightarrow> True | Some ss \<Rightarrow> ss = [] \<or> sr_status r \<in> set ss)"

definition sq_count_invocations ::
    "env \<Rightarrow> task_id option \<Rightarrow> invocation_status list option \<Rightarrow> conn \<Rightarrow> nat result \<times> conn" where
  "sq_count_invocations e task sts =
     locked (query (\<lambda>d. length (select_keys e (matching_status task sts d) (db_status d))))"

text \<open>There is no \<^verbatim>\<open>ORDER BY\<close>: a page is cut from whatever order the engine visits the rows in.\<close>

definition sq_get_invocation_ids_paginated ::
    "env \<Rightarrow> task_id option \<Rightarrow> invocation_status list option \<Rightarrow> nat \<Rightarrow> nat \<Rightarrow> conn \<Rightarrow> str list result \<times> conn" where
  "sq_get_invocation_ids_paginated e task sts limit offset =
     locked (query (\<lambda>d. take limit (drop offset (select_keys e (matching_status task sts d) (db_status d)))))"

definition sq_blocking :: "db \<Rightarrow> str set" where
  "sq_blocking d =
     {x. x \<in> snd ` db_waiting d \<and>
         (case db_status d x of None \<Rightarrow> False | Some r \<Rightarrow> sr_status r \<in> {Registered, Pending, Running}) \<and>
         x \<notin> fst ` db_waiting d}"

definition sq_get_blocking_invocations :: "env \<Rightarrow> nat \<Rightarrow> conn \<Rightarrow> str list result \<times> conn" where
  "sq_get_blocking_invocations e max_num = locked (query (\<lambda>d. take max_num (hash_order e (sq_blocking d))))"

definition sq_get_existing_invocations ::
    "env \<Rightarrow> task_id \<Rightarrow> serialized_arguments option \<Rightarrow> invocation_status list \<Rightarrow> conn \<Rightarrow> str list result \<times> conn" where
  "sq_get_existing_invocations e t cc_args sts =
     locked (query (\<lambda>d.
       case cc_args of
         Some a \<Rightarrow> filter (\<lambda>i. case db_invocations d i of
                                 None \<Rightarrow> False | Some r \<Rightarrow> sts = [] \<or> iv_status r \<in> set sts)
                     (hash_order e (cc_groups d (display_task_id t) (cc_arg_pairs a)))
       | None \<Rightarrow> select_keys e (\<lambda>_ r. iv_task r = display_task_id t \<and> (sts = [] \<or> iv_status r \<in> set sts))
                   (db_invocations d)))"

end
