(* ===== verification/Sqlite_Publication.thy ===== *)
theory Sqlite_Publication
  imports Sqlite_Orchestrator Execution
begin

text \<open>
  The transactional publication of the SQLite backend, \<^verbatim>\<open>rustvello-sqlite/src/publication.rs\<close> and
  \<^verbatim>\<open>completion.rs\<close>, behind the interface of \<^verbatim>\<open>rustvello-core/src/publication.rs\<close>: a
  submission, a status change with all its effects, the identity of an attempt and a payload write, each in
  one transaction. The fail points of the crash tests are absent from normal builds; a failing statement is
  a failing connection. The JSON texts are parameters.
\<close>

section \<open>Requests\<close>

record publication_route =
  pr_queue :: str
  pr_priority :: f64

record submission_publication =
  sp_invocation :: invocation_dto
  sp_call :: call_dto
  sp_runner :: str
  sp_runner_context :: "stored_runner_context option"
  sp_workflow_root :: bool
  sp_cc_arguments :: "serialized_arguments option"
  sp_route :: publication_route

datatype publication_change =
    PStatus invocation_status
  | PRetry publication_route
  | PDelayedRetry publication_route int
  | PReroute publication_route
  | PConcurrencyReroute publication_route
  | PRecover invocation_status u64 publication_route
  | PSuccess str
  | PFailure task_error

text \<open>
  \<open>sc_identity\<close> is the JSON object of what a submission id stands for: the call, the parent, the workflow,
  the trace, the route, whether it is a workflow root, and the concurrency arguments.
\<close>

record sq_codec =
  sc_identity :: "call_dto \<times> str option \<times> workflow_identity option \<times> trace_context \<times> publication_route \<times> bool
                  \<times> serialized_arguments option \<Rightarrow> str"
  sc_args :: "serialized_arguments \<Rightarrow> str"
  sc_parse_args :: "str \<Rightarrow> serialized_arguments option"

definition submission_identity :: "sq_codec \<Rightarrow> submission_publication \<Rightarrow> str" where
  "submission_identity k s =
     sc_identity k (sp_call s, inv_parent (sp_invocation s), inv_workflow (sp_invocation s),
       inv_trace (sp_invocation s), sp_route s, sp_workflow_root s, sp_cc_arguments s)"

section \<open>Steps inside a transaction\<close>

definition validate_route :: "publication_route \<Rightarrow> unit result" where
  "validate_route r =
     (if pr_queue r = [] \<or> \<not> f64_is_finite (pr_priority r) then Inl Configuration else Inr ())"

definition publish :: "str \<Rightarrow> str \<Rightarrow> publication_route \<Rightarrow> conn \<Rightarrow> unit result \<times> conn" where
  "publish i task route c =
     and_then (validate_route route, c) (\<lambda>_ c.
     and_then (execute (delete_queue (\<lambda>r. q_invocation r = i)) c) (\<lambda>_ c.
       execute (insert_queue i (Some task) (pr_queue route) (pr_priority route)) c))"

definition delay_rows :: "env \<Rightarrow> str \<Rightarrow> int \<Rightarrow> db \<Rightarrow> db" where
  "delay_rows e i delay d =
     d\<lparr>db_reservations := (\<lambda>k. if \<exists>r \<in> set (db_queue d). q_id r = k \<and> q_invocation r = i
                               then Some (not_before_ms e delay) else db_reservations d k)\<rparr>"

definition delay_delivery :: "env \<Rightarrow> str \<Rightarrow> int \<Rightarrow> conn \<Rightarrow> unit result \<times> conn" where
  "delay_delivery e i delay = execute (delay_rows e i delay)"

definition history_entry :: "str \<Rightarrow> status_record \<Rightarrow> str \<Rightarrow> history_row" where
  "history_entry i r runner =
     \<lparr>hr_invocation = i, hr_status = sr_status r, hr_runner = Some runner, hr_timestamp = sr_timestamp r,
      hr_message = None, hr_history_timestamp = Some (sr_timestamp r)\<rparr>"

definition insert_history :: "history_row \<Rightarrow> db \<Rightarrow> db" where
  "insert_history h d = d\<lparr>db_history := db_history d @ [h]\<rparr>"

definition pub_current :: "str \<Rightarrow> conn \<Rightarrow> status_record result \<times> conn" where
  "pub_current i c =
     and_then (query (\<lambda>d. db_status d i) c) (\<lambda>found c.
       case found of None \<Rightarrow> (Inl (InvocationNotFound i), c) | Some r \<Rightarrow> (Inr r, c))"

definition pub_transition ::
    "env \<Rightarrow> str \<Rightarrow> str \<Rightarrow> status_record \<Rightarrow> invocation_status \<Rightarrow> conn \<Rightarrow> status_record result \<times> conn" where
  "pub_transition e i runner old status c =
     (case status_record_transition (now e) (Some old) status (Some runner) of
        Inl err \<Rightarrow> (Inl (status_machine_error_to_rustvello err i (sr_status old)), c)
      | Inr rec \<Rightarrow>
          and_then (execute (update_status_row i rec) c) (\<lambda>_ c.
          and_then (execute (update_invocation_row i rec) c) (\<lambda>_ c.
          and_then (execute (insert_history (history_entry i rec runner)) c) (\<lambda>_ c.
          and_then (if status = Pending \<or> is_terminal status
                    then execute (delete_queue (\<lambda>r. q_invocation r = i)) c else (Inr (), c)) (\<lambda>_ c.
            (Inr rec, c))))))"

section \<open>The identity of an attempt\<close>

definition sq_begin_execution ::
    "runtime \<Rightarrow> str \<Rightarrow> str \<Rightarrow> u32 \<Rightarrow> trace_context \<Rightarrow> conn \<Rightarrow> execution_identity result \<times> conn" where
  "sq_begin_execution rt i runner retry_count incoming =
     locked (transaction (\<lambda>c.
       and_then (pub_current i c) (\<lambda>old c.
         if sr_status old \<noteq> Running \<or> sr_runner old \<noteq> Some runner then (Inl Configuration, c)
         else
           and_then (query (\<lambda>d. db_workflow_data d (i, IDENTITY_KEY)) c) (\<lambda>encoded c.
           and_then (case encoded of
                       None \<Rightarrow> (Inr None, c)
                     | Some v \<Rightarrow> (case rt_decode rt v of None \<Rightarrow> (Inl Configuration, c) | Some x \<Rightarrow> (Inr (Some x), c)))
             (\<lambda>previous c.
           and_then (next_execution_identity rt previous retry_count incoming, c) (\<lambda>identity c.
           and_then (execute (\<lambda>d. d\<lparr>db_workflow_data := (db_workflow_data d)((i, IDENTITY_KEY) \<mapsto> rt_encode rt identity)\<rparr>) c)
             (\<lambda>_ c. (Inr (identity, True), c))))))))"

section \<open>Submission\<close>

definition submitted_row :: "time \<Rightarrow> invocation_dto \<Rightarrow> invocation_row" where
  "submitted_row t dto =
     \<lparr>iv_task = display_task_id (inv_task_id dto), iv_call = display_call_id (inv_call_id dto),
      iv_status = Registered, iv_created = t, iv_updated = t, iv_parent = inv_parent dto,
      iv_workflow = map_option workflow_id (inv_workflow dto),
      iv_workflow_type = map_option (\<lambda>w. display_task_id (workflow_type w)) (inv_workflow dto),
      iv_workflow_depth = map_option (\<lambda>w. uint (wf_depth w)) (inv_workflow dto),
      iv_workflow_parent = None, iv_trace = inv_trace dto\<rparr>"

definition set_workflow_parent :: "str \<Rightarrow> str option \<Rightarrow> db \<Rightarrow> db" where
  "set_workflow_parent i p d =
     (case db_invocations d i of
        None \<Rightarrow> d
      | Some row \<Rightarrow> d\<lparr>db_invocations := (db_invocations d)(i \<mapsto> row\<lparr>iv_workflow_parent := p\<rparr>)\<rparr>)"

definition occupied :: "str \<Rightarrow> db \<Rightarrow> bool" where
  "occupied i d \<longleftrightarrow>
     db_invocations d i \<noteq> None \<or> (\<exists>h \<in> set (db_history d). hr_invocation h = i) \<or> db_results d i \<noteq> None \<or>
     db_errors d i \<noteq> None \<or> (\<exists>k. db_workflow_data d (i, k) \<noteq> None) \<or> db_workflow_runs d i \<noteq> None"

definition run_row :: "workflow_identity \<Rightarrow> workflow_run_row" where
  "run_row w = \<lparr>wr_type = display_task_id (workflow_type w), wr_parent = wf_parent_id w, wr_depth = uint (wf_depth w)\<rparr>"

fun insert_cc_pairs :: "str \<Rightarrow> str \<Rightarrow> (str \<times> str) list \<Rightarrow> conn \<Rightarrow> unit result \<times> conn" where
  "insert_cc_pairs i t [] c = (Inr (), c)"
| "insert_cc_pairs i t (kv # kvs) c =
     and_then (insert_row (\<lambda>d. db_cc d (i, fst kv, snd kv) \<noteq> None) (insert_cc i t kv) c) (\<lambda>_ c.
       insert_cc_pairs i t kvs c)"

text \<open>The writes of an accepted submission, in the order of the code.\<close>

definition submit_details ::
    "sq_codec \<Rightarrow> submission_publication \<Rightarrow> status_record \<Rightarrow> conn \<Rightarrow> unit result \<times> conn" where
  "submit_details k s record c =
     (let dto = sp_invocation s; i = inv_id dto; call = sp_call s; wf = inv_workflow dto
      in and_then (execute (set_workflow_parent i (Option.bind wf wf_parent_id)) c) (\<lambda>_ c.
         and_then (execute (\<lambda>d. if db_calls d (display_call_id (cd_call_id call)) = None
                     then d\<lparr>db_calls := (db_calls d)(display_call_id (cd_call_id call) \<mapsto>
                              (display_task_id (cd_task_id call), sc_args k (cd_serialized_arguments call)))\<rparr> else d) c) (\<lambda>_ c.
         and_then (case (if sp_workflow_root s then wf else None) of
                     Some w \<Rightarrow> insert_row (\<lambda>d. db_workflow_runs d (workflow_id w) \<noteq> None)
                        (\<lambda>d. d\<lparr>db_workflow_runs := (db_workflow_runs d)(workflow_id w \<mapsto> run_row w)\<rparr>) c
                   | None \<Rightarrow> (Inr (), c)) (\<lambda>_ c.
         and_then (case sp_runner_context s of
                     None \<Rightarrow> (Inr (), c)
                   | Some x \<Rightarrow> execute (\<lambda>d. if db_runner_contexts d (src_runner_id x) = None
                        then d\<lparr>db_runner_contexts := (db_runner_contexts d)(src_runner_id x \<mapsto> x)\<rparr> else d) c) (\<lambda>_ c.
         and_then (execute (insert_history (history_entry i record (sp_runner s))) c) (\<lambda>_ c.
           case sp_cc_arguments s of
             None \<Rightarrow> (Inr (), c)
           | Some a \<Rightarrow> insert_cc_pairs i (display_task_id (inv_task_id dto)) (cc_arg_pairs a) c))))))"

definition submit_writes ::
    "sq_codec \<Rightarrow> env \<Rightarrow> submission_publication \<Rightarrow> conn \<Rightarrow> unit result \<times> conn" where
  "submit_writes k e s c =
     (let dto = sp_invocation s; i = inv_id dto;
          record = \<lparr>sr_status = Registered, sr_runner = Some (sp_runner s), sr_timestamp = now e\<rparr>
      in and_then (insert_row (\<lambda>d. db_invocations d i \<noteq> None)
                     (\<lambda>d. d\<lparr>db_invocations := (db_invocations d)(i \<mapsto> submitted_row (now e) dto)\<rparr>) c) (\<lambda>_ c.
         and_then (insert_row (\<lambda>d. db_status d i \<noteq> None) (\<lambda>d. d\<lparr>db_status := (db_status d)(i \<mapsto> record)\<rparr>) c) (\<lambda>_ c.
         and_then (submit_details k s record c) (\<lambda>_ c.
         and_then (publish i (display_task_id (inv_task_id dto)) (sp_route s) c) (\<lambda>_ c.
           insert_row (\<lambda>d. db_submissions d i \<noteq> None)
             (\<lambda>d. d\<lparr>db_submissions := (db_submissions d)(i \<mapsto> submission_identity k s)\<rparr>) c)))))"

definition submit_body ::
    "sq_codec \<Rightarrow> env \<Rightarrow> submission_publication \<Rightarrow> conn \<Rightarrow> (bool \<times> bool) result \<times> conn" where
  "submit_body k e s c =
     (let i = inv_id (sp_invocation s)
      in and_then (query (\<lambda>d. db_submissions d i) c) (\<lambda>existing c.
           case existing of
             Some x \<Rightarrow> (if x = [] \<or> x \<noteq> submission_identity k s then (Inl Configuration, c) else (Inr (False, False), c))
           | None \<Rightarrow>
               and_then (query (occupied i) c) (\<lambda>taken c.
                 if taken then (Inl Configuration, c)
                 else and_then (submit_writes k e s c) (\<lambda>_ c. (Inr (True, True), c)))))"

definition sq_submit :: "sq_codec \<Rightarrow> env \<Rightarrow> submission_publication \<Rightarrow> conn \<Rightarrow> bool result \<times> conn" where
  "sq_submit k e s c =
     (case validate_route (sp_route s) of
        Inl err \<Rightarrow> (Inl err, c)
      | Inr _ \<Rightarrow>
          if inv_task_id (sp_invocation s) \<noteq> cd_task_id (sp_call s) \<or> inv_call_id (sp_invocation s) \<noteq> cd_call_id (sp_call s)
          then (Inl Configuration, c)
          else locked (transaction (submit_body k e s)) c)"

section \<open>Status changes\<close>

definition target_status :: "publication_change \<Rightarrow> invocation_status" where
  "target_status ch =
     (case ch of
        PStatus s \<Rightarrow> s
      | PRetry _ \<Rightarrow> Retry
      | PDelayedRetry _ _ \<Rightarrow> Retry
      | PSuccess _ \<Rightarrow> Success
      | PFailure _ \<Rightarrow> Failed
      | _ \<Rightarrow> Rerouted)"

definition is_completion :: "publication_change \<Rightarrow> bool" where
  "is_completion ch \<longleftrightarrow> (case ch of PSuccess _ \<Rightarrow> True | PFailure _ \<Rightarrow> True | _ \<Rightarrow> False)"

text \<open>
  What precedes the main transition: the record to start from and the route, \<^const>\<open>None\<close> for a recovery that is
  not due.
\<close>

definition last_seen :: "status_record \<Rightarrow> heartbeat_row option \<Rightarrow> time" where
  "last_seen old hb = (if sr_status old = Pending then sr_timestamp old
                       else case hb of None \<Rightarrow> sr_timestamp old | Some row \<Rightarrow> hb_last row)"

definition pub_recover ::
    "env \<Rightarrow> str \<Rightarrow> str \<Rightarrow> status_record \<Rightarrow> invocation_status \<Rightarrow> u64 \<Rightarrow> publication_route \<Rightarrow> conn
       \<Rightarrow> (status_record \<times> publication_route option) option result \<times> conn" where
  "pub_recover e i runner old status stale_after route c =
     (case (if status = PendingRecovery then Some Pending else if status = RunningRecovery then Some Running else None) of
        None \<Rightarrow> (Inl Configuration, c)
      | Some expected \<Rightarrow>
          if sr_status old \<noteq> expected then (Inr None, c)
          else
            (case sub_secs e (now e) (clamp_i64 stale_after) of
               None \<Rightarrow> panics c
             | Some cutoff \<Rightarrow>
                 and_then (query (\<lambda>d. Option.bind (sr_runner old) (db_heartbeats d)) c) (\<lambda>hb c.
                   if cutoff \<le> last_seen old hb then (Inr None, c)
                   else and_then (pub_transition e i runner old status c) (\<lambda>rec c. (Inr (Some (rec, Some route)), c)))))"

definition pub_prepare ::
    "env \<Rightarrow> str \<Rightarrow> str \<Rightarrow> status_record \<Rightarrow> publication_change \<Rightarrow> conn
       \<Rightarrow> (status_record \<times> publication_route option) option result \<times> conn" where
  "pub_prepare e i runner old ch c =
     (case ch of
        PRecover status stale_after route \<Rightarrow> pub_recover e i runner old status stale_after route c
      | PConcurrencyReroute route \<Rightarrow>
          and_then (pub_transition e i runner old ConcurrencyControlled c) (\<lambda>rec c. (Inr (Some (rec, Some route)), c))
      | PRetry route \<Rightarrow> (Inr (Some (old, Some route)), c)
      | PReroute route \<Rightarrow> (Inr (Some (old, Some route)), c)
      | PDelayedRetry route _ \<Rightarrow> (Inr (Some (old, Some route)), c)
      | _ \<Rightarrow> (Inr (Some (old, None)), c))"

definition pub_payload :: "str \<Rightarrow> publication_change \<Rightarrow> conn \<Rightarrow> unit result \<times> conn" where
  "pub_payload i ch c =
     (case ch of
        PRetry _ \<Rightarrow> execute (bump_retries i) c
      | PDelayedRetry _ _ \<Rightarrow> execute (bump_retries i) c
      | PSuccess result \<Rightarrow> execute (\<lambda>d. d\<lparr>db_results := (db_results d)(i \<mapsto> result)\<rparr>) c
      | PFailure err \<Rightarrow> execute (\<lambda>d. d\<lparr>db_errors := (db_errors d)(i \<mapsto> err)\<rparr>) c
      | _ \<Rightarrow> (Inr (), c))"

definition pub_queue ::
    "env \<Rightarrow> str \<Rightarrow> publication_change \<Rightarrow> publication_route option \<Rightarrow> conn \<Rightarrow> unit result \<times> conn" where
  "pub_queue e i ch route c =
     (case route of
        None \<Rightarrow> (Inr (), c)
      | Some r \<Rightarrow>
          and_then (query (\<lambda>d. db_invocations d i) c) (\<lambda>row c.
            case row of
              None \<Rightarrow> (Inl sql_err, c)
            | Some iv \<Rightarrow>
                and_then (publish i (iv_task iv) r c) (\<lambda>_ c.
                and_then (case ch of PDelayedRetry _ delay \<Rightarrow> delay_delivery e i delay c | _ \<Rightarrow> (Inr (), c)) (\<lambda>_ c.
                  execute (delete_cc i) c))))"

definition pub_terminal :: "str \<Rightarrow> status_record \<Rightarrow> bool \<Rightarrow> conn \<Rightarrow> unit result \<times> conn" where
  "pub_terminal i rec auto_purge c =
     (if is_terminal (sr_status rec) then
        and_then (execute (delete_waiters i) c) (\<lambda>_ c.
        and_then (execute (delete_cc i) c) (\<lambda>_ c.
          if auto_purge then execute (\<lambda>d. d\<lparr>db_auto_purge := (db_auto_purge d)(i \<mapsto> sr_timestamp rec)\<rparr>) c
          else (Inr (), c)))
      else (Inr (), c))"

definition change_body ::
    "env \<Rightarrow> str \<Rightarrow> str \<Rightarrow> publication_change \<Rightarrow> bool \<Rightarrow> conn \<Rightarrow> (status_record option \<times> bool) result \<times> conn" where
  "change_body e i runner ch auto_purge c =
     and_then (pub_current i c) (\<lambda>current c.
     and_then (pub_prepare e i runner current ch c) (\<lambda>prepared c.
       case prepared of
         None \<Rightarrow> (Inr (None, False), c)
       | Some (old, route) \<Rightarrow>
           if is_completion ch \<and> (sr_status old \<noteq> Running \<or> sr_runner old \<noteq> Some runner)
           then (Inl (OwnershipViolation i (sr_status old) (target_status ch) (or_else (sr_runner old) []) runner), c)
           else
             and_then (pub_transition e i runner old (target_status ch) c) (\<lambda>rec c.
             and_then (pub_payload i ch c) (\<lambda>_ c.
             and_then (pub_queue e i ch route c) (\<lambda>_ c.
             and_then (pub_terminal i rec auto_purge c) (\<lambda>_ c.
               (Inr (Some rec, True), c)))))))"

definition sq_change ::
    "env \<Rightarrow> str \<Rightarrow> str \<Rightarrow> publication_change \<Rightarrow> bool \<Rightarrow> conn \<Rightarrow> status_record option result \<times> conn" where
  "sq_change e i runner ch auto_purge = locked (transaction (change_body e i runner ch auto_purge))"

section \<open>Payloads fenced by ownership\<close>

definition write_owned ::
    "str \<Rightarrow> str \<Rightarrow> invocation_status \<Rightarrow> (db \<Rightarrow> db) \<Rightarrow> conn \<Rightarrow> unit result \<times> conn" where
  "write_owned i runner terminal write =
     locked (transaction (\<lambda>c.
       and_then (query (\<lambda>d. db_status d i) c) (\<lambda>found c.
         case found of
           None \<Rightarrow> (Inl sql_err, c)
         | Some r \<Rightarrow>
             if sr_status r \<noteq> Running \<or> sr_runner r \<noteq> Some runner
             then (Inl (OwnershipViolation i (sr_status r) terminal (or_else (sr_runner r) []) runner), c)
             else and_then (execute write c) (\<lambda>_ c. (Inr ((), True), c)))))"

definition sq_store_result_for_runner :: "str \<Rightarrow> str \<Rightarrow> str \<Rightarrow> conn \<Rightarrow> unit result \<times> conn" where
  "sq_store_result_for_runner i result runner =
     write_owned i runner Success (\<lambda>d. d\<lparr>db_results := (db_results d)(i \<mapsto> result)\<rparr>)"

definition sq_store_error_for_runner :: "str \<Rightarrow> task_error \<Rightarrow> str \<Rightarrow> conn \<Rightarrow> unit result \<times> conn" where
  "sq_store_error_for_runner i err runner =
     write_owned i runner Failed (\<lambda>d. d\<lparr>db_errors := (db_errors d)(i \<mapsto> err)\<rparr>)"

end
