(* ===== verification/Sqlite_State.thy ===== *)
theory Sqlite_State
  imports Sqlite_Publication
begin

text \<open>
  The SQLite state backend and client data store, \<^verbatim>\<open>rustvello-sqlite/src/state_backend/\<close> and
  \<^verbatim>\<open>client_data_store.rs\<close>. The backend shares the table of invocations with the orchestrator. Task and
  call ids are read back by parsing their texts.
\<close>

section \<open>Invocations and calls\<close>

definition upserted_row :: "invocation_dto \<Rightarrow> invocation_row" where
  "upserted_row dto =
     \<lparr>iv_task = display_task_id (inv_task_id dto), iv_call = display_call_id (inv_call_id dto),
      iv_status = inv_status dto, iv_created = inv_created_at dto, iv_updated = inv_updated_at dto,
      iv_parent = inv_parent dto, iv_workflow = map_option workflow_id (inv_workflow dto),
      iv_workflow_type = map_option (\<lambda>w. display_task_id (workflow_type w)) (inv_workflow dto),
      iv_workflow_depth = map_option (\<lambda>w. uint (wf_depth w)) (inv_workflow dto),
      iv_workflow_parent = None, iv_trace = inv_trace dto\<rparr>"

definition sq_upsert_invocation ::
    "sq_codec \<Rightarrow> invocation_dto \<Rightarrow> call_dto \<Rightarrow> conn \<Rightarrow> unit result \<times> conn" where
  "sq_upsert_invocation k dto call =
     locked (transaction (\<lambda>c.
       and_then (execute (\<lambda>d. d\<lparr>db_invocations := (db_invocations d)(inv_id dto \<mapsto> upserted_row dto)\<rparr>) c) (\<lambda>_ c.
       and_then (execute (\<lambda>d. d\<lparr>db_calls := (db_calls d)(display_call_id (cd_call_id call) \<mapsto>
           (display_task_id (cd_task_id call), sc_args k (cd_serialized_arguments call)))\<rparr>) c) (\<lambda>_ c.
       and_then (execute (set_workflow_parent (inv_id dto) (Option.bind (inv_workflow dto) wf_parent_id)) c) (\<lambda>_ c.
         (Inr ((), True), c))))))"

text \<open>A malformed id in a column is a query error.\<close>

definition read_task :: "str \<Rightarrow> task_id result" where
  "read_task s = (case parse_task_id s of Inl _ \<Rightarrow> Inl sql_err | Inr t \<Rightarrow> Inr t)"

definition read_depth :: "int option \<Rightarrow> u32" where
  "read_depth n = or_else (read_u32 n) 0"

definition read_workflow :: "invocation_row \<Rightarrow> workflow_identity option result" where
  "read_workflow r =
     (case (iv_workflow r, iv_workflow_type r) of
        (Some w, Some ty) \<Rightarrow>
          (case read_task ty of
             Inl err \<Rightarrow> Inl err
           | Inr t \<Rightarrow> Inr (Some \<lparr>workflow_id = w, workflow_type = t, wf_parent_id = iv_workflow_parent r,
                               wf_depth = read_depth (iv_workflow_depth r)\<rparr>))
      | _ \<Rightarrow> Inr None)"

text \<open>The arguments id is what follows the last colon of the printed call id.\<close>

definition read_call_id :: "task_id \<Rightarrow> str \<Rightarrow> call_id" where
  "read_call_id t s = call_id_new t (case rsplit_char (CHR '':'') s of None \<Rightarrow> s | Some (_, a) \<Rightarrow> a)"

definition read_invocation :: "str \<Rightarrow> invocation_row \<Rightarrow> invocation_dto result" where
  "read_invocation i r =
     (case read_task (iv_task r) of
        Inl err \<Rightarrow> Inl err
      | Inr t \<Rightarrow>
          (case read_workflow r of
             Inl err \<Rightarrow> Inl err
           | Inr wfl \<Rightarrow>
               Inr \<lparr>inv_id = i, inv_task_id = t, inv_call_id = read_call_id t (iv_call r), inv_status = iv_status r,
                    inv_created_at = iv_created r, inv_updated_at = iv_updated r, inv_parent = iv_parent r,
                    inv_workflow = wfl, inv_trace = iv_trace r\<rparr>))"

definition sq_get_invocation :: "str \<Rightarrow> conn \<Rightarrow> invocation_dto result \<times> conn" where
  "sq_get_invocation i =
     locked (\<lambda>c. case query (\<lambda>d. db_invocations d i) c of
                   (Inr (Some r), c) \<Rightarrow> (read_invocation i r, c)
                 | (_, c) \<Rightarrow> (Inl (InvocationNotFound i), c))"

definition sq_get_call :: "sq_codec \<Rightarrow> call_id \<Rightarrow> conn \<Rightarrow> call_dto result \<times> conn" where
  "sq_get_call k call_id =
     locked (\<lambda>c. case query (\<lambda>d. db_calls d (display_call_id call_id)) c of
                   (Inr (Some (task, args)), c) \<Rightarrow>
                     (case read_task task of
                        Inl err \<Rightarrow> (Inl err, c)
                      | Inr t \<Rightarrow>
                          (case sc_parse_args k args of
                             None \<Rightarrow> (Inl Serialization, c)
                           | Some a \<Rightarrow> (Inr \<lparr>cd_call_id = call_id, cd_task_id = t, cd_serialized_arguments = a\<rparr>, c)))
                 | (_, c) \<Rightarrow> (Inl sql_err, c))"

section \<open>Results, errors and history\<close>

definition sq_store_result :: "str \<Rightarrow> str \<Rightarrow> conn \<Rightarrow> unit result \<times> conn" where
  "sq_store_result i result = locked (execute (\<lambda>d. d\<lparr>db_results := (db_results d)(i \<mapsto> result)\<rparr>))"

text \<open>A query whose failure is the absence of a row (\<^verbatim>\<open>.ok()\<close>).\<close>

definition lookup :: "(db \<Rightarrow> 'a option) \<Rightarrow> conn \<Rightarrow> 'a option result \<times> conn" where
  "lookup f = locked (\<lambda>c. case query f c of (Inr x, c) \<Rightarrow> (Inr x, c) | (Inl _, c) \<Rightarrow> (Inr None, c))"

definition sq_get_result :: "str \<Rightarrow> conn \<Rightarrow> str option result \<times> conn" where
  "sq_get_result i = lookup (\<lambda>d. db_results d i)"

definition sq_store_error :: "str \<Rightarrow> task_error \<Rightarrow> conn \<Rightarrow> unit result \<times> conn" where
  "sq_store_error i err = locked (execute (\<lambda>d. d\<lparr>db_errors := (db_errors d)(i \<mapsto> err)\<rparr>))"

definition sq_get_error :: "str \<Rightarrow> conn \<Rightarrow> task_error option result \<times> conn" where
  "sq_get_error i = lookup (\<lambda>d. db_errors d i)"

text \<open>The runner of the entry itself and the registering invocation have no columns.\<close>

definition written_history :: "invocation_history \<Rightarrow> history_row" where
  "written_history h =
     \<lparr>hr_invocation = h_invocation_id h, hr_status = sr_status (h_status_record h),
      hr_runner = sr_runner (h_status_record h), hr_timestamp = sr_timestamp (h_status_record h),
      hr_message = h_message h, hr_history_timestamp = h_timestamp h\<rparr>"

definition read_history :: "history_row \<Rightarrow> invocation_history" where
  "read_history r =
     \<lparr>h_invocation_id = hr_invocation r,
      h_status_record = \<lparr>sr_status = hr_status r, sr_runner = hr_runner r, sr_timestamp = hr_timestamp r\<rparr>,
      h_message = hr_message r, h_runner_id = hr_runner r, h_registered_by = None,
      h_timestamp = hr_history_timestamp r\<rparr>"

definition sq_add_history :: "invocation_history \<Rightarrow> conn \<Rightarrow> unit result \<times> conn" where
  "sq_add_history h = locked (execute (insert_history (written_history h)))"

definition sq_get_history :: "str \<Rightarrow> conn \<Rightarrow> invocation_history list result \<times> conn" where
  "sq_get_history i =
     locked (query (\<lambda>d. map read_history (filter (\<lambda>r. hr_invocation r = i) (db_history d))))"

definition sq_state_purge :: "conn \<Rightarrow> unit result \<times> conn" where
  "sq_state_purge =
     locked (transaction (\<lambda>c.
       and_then (execute (\<lambda>d. (delete_queue (\<lambda>_. True) (bury_all d))\<lparr>db_invocations := Map.empty,
           db_calls := Map.empty, db_results := Map.empty, db_errors := Map.empty, db_history := [],
           db_status := Map.empty, db_waiting := {}, db_workflow_runs := Map.empty, db_workflow_data := Map.empty,
           db_app_infos := Map.empty, db_sub_invocations := {}, db_runner_contexts := Map.empty\<rparr>) c) (\<lambda>_ c.
         (Inr ((), True), c))))"

section \<open>Workflows and application data\<close>

definition runs_of :: "env \<Rightarrow> (str \<Rightarrow> workflow_run_row \<Rightarrow> bool) \<Rightarrow> db \<Rightarrow> (str \<times> workflow_run_row) list" where
  "runs_of e P d =
     List.map_filter (\<lambda>w. map_option (\<lambda>r. (w, r)) (db_workflow_runs d w)) (select_keys e P (db_workflow_runs d))"

fun read_runs :: "(str \<times> workflow_run_row) list \<Rightarrow> workflow_identity list result" where
  "read_runs [] = Inr []"
| "read_runs ((w, r) # rs) =
     (case read_task (wr_type r) of
        Inl err \<Rightarrow> Inl err
      | Inr t \<Rightarrow>
          (case read_runs rs of
             Inl err \<Rightarrow> Inl err
           | Inr ws \<Rightarrow> Inr (\<lparr>workflow_id = w, workflow_type = t, wf_parent_id = wr_parent r,
                           wf_depth = read_depth (Some (wr_depth r))\<rparr> # ws)))"

definition sq_get_workflow_run_offset ::
    "env \<Rightarrow> task_id \<Rightarrow> str \<Rightarrow> conn \<Rightarrow> nat option result \<times> conn" where
  "sq_get_workflow_run_offset e t w =
     locked (\<lambda>c.
       and_then (query (\<lambda>d. case db_workflow_runs d w of None \<Rightarrow> False | Some r \<Rightarrow> wr_type r = display_task_id t) c)
         (\<lambda>found c.
           if \<not> found then (Inr None, c)
           else and_then (query (\<lambda>d. length (select_keys e (\<lambda>x r. wr_type r = display_task_id t \<and> w < x)
                                        (db_workflow_runs d))) c) (\<lambda>n c. (Inr (Some n), c))))"

definition workflow_members :: "env \<Rightarrow> str \<Rightarrow> db \<Rightarrow> str list" where
  "workflow_members e w d = select_keys e (\<lambda>_ r. iv_workflow r = Some w) (db_invocations d)"

definition sq_get_workflow_invocations_page ::
    "env \<Rightarrow> str \<Rightarrow> nat \<Rightarrow> nat \<Rightarrow> conn \<Rightarrow> (str list \<times> nat) result \<times> conn" where
  "sq_get_workflow_invocations_page e w limit offset =
     locked (\<lambda>c.
       and_then (query (\<lambda>d. length (workflow_members e w d)) c) (\<lambda>total c.
       and_then (query (\<lambda>d. take limit (drop offset (sort (workflow_members e w d)))) c) (\<lambda>ids c.
         (Inr (ids, total), c))))"

definition sq_get_workflow_invocations :: "env \<Rightarrow> str \<Rightarrow> conn \<Rightarrow> str list result \<times> conn" where
  "sq_get_workflow_invocations e w = locked (query (workflow_members e w))"

definition sq_get_child_invocations :: "env \<Rightarrow> str \<Rightarrow> conn \<Rightarrow> str list result \<times> conn" where
  "sq_get_child_invocations e p =
     locked (query (\<lambda>d. select_keys e (\<lambda>_ r. iv_parent r = Some p) (db_invocations d)))"

definition sq_store_workflow_run :: "workflow_identity \<Rightarrow> conn \<Rightarrow> unit result \<times> conn" where
  "sq_store_workflow_run w =
     locked (execute (\<lambda>d. d\<lparr>db_workflow_runs := (db_workflow_runs d)(workflow_id w \<mapsto> run_row w)\<rparr>))"

fun read_tasks :: "str list \<Rightarrow> task_id list result" where
  "read_tasks [] = Inr []"
| "read_tasks (s # ss) =
     (case read_task s of
        Inl err \<Rightarrow> Inl err
      | Inr t \<Rightarrow> (case read_tasks ss of Inl err \<Rightarrow> Inl err | Inr ts \<Rightarrow> Inr (t # ts)))"

definition sq_get_all_workflow_types :: "env \<Rightarrow> conn \<Rightarrow> task_id list result \<times> conn" where
  "sq_get_all_workflow_types e =
     locked (\<lambda>c. and_then (query (\<lambda>d. hash_order e (wr_type ` ran (db_workflow_runs d))) c) (\<lambda>ss c. (read_tasks ss, c)))"

definition sq_get_workflow_runs :: "env \<Rightarrow> task_id \<Rightarrow> conn \<Rightarrow> workflow_identity list result \<times> conn" where
  "sq_get_workflow_runs e t =
     locked (\<lambda>c. and_then (query (runs_of e (\<lambda>_ r. wr_type r = display_task_id t)) c) (\<lambda>rs c. (read_runs rs, c)))"

definition sq_count_workflow_runs :: "env \<Rightarrow> task_id \<Rightarrow> conn \<Rightarrow> nat result \<times> conn" where
  "sq_count_workflow_runs e t =
     locked (query (\<lambda>d. length (runs_of e (\<lambda>_ r. wr_type r = display_task_id t) d)))"

definition sq_get_workflow_runs_paginated ::
    "env \<Rightarrow> task_id \<Rightarrow> nat \<Rightarrow> nat \<Rightarrow> conn \<Rightarrow> workflow_identity list result \<times> conn" where
  "sq_get_workflow_runs_paginated e t limit offset =
     locked (\<lambda>c. and_then (query (\<lambda>d. take limit (drop offset
                    (rev (sort_key fst (runs_of e (\<lambda>_ r. wr_type r = display_task_id t) d))))) c) (\<lambda>rs c.
                  (read_runs rs, c)))"

definition sq_get_all_workflow_runs :: "env \<Rightarrow> conn \<Rightarrow> workflow_identity list result \<times> conn" where
  "sq_get_all_workflow_runs e =
     locked (\<lambda>c. and_then (query (runs_of e (\<lambda>_ _. True)) c) (\<lambda>rs c. (read_runs rs, c)))"

definition sq_set_workflow_data :: "str \<Rightarrow> str \<Rightarrow> str \<Rightarrow> conn \<Rightarrow> unit result \<times> conn" where
  "sq_set_workflow_data w key v =
     locked (execute (\<lambda>d. d\<lparr>db_workflow_data := (db_workflow_data d)((w, key) \<mapsto> v)\<rparr>))"

definition sq_get_workflow_data :: "str \<Rightarrow> str \<Rightarrow> conn \<Rightarrow> str option result \<times> conn" where
  "sq_get_workflow_data w key = lookup (\<lambda>d. db_workflow_data d (w, key))"

definition sq_store_app_info :: "str \<Rightarrow> str \<Rightarrow> conn \<Rightarrow> unit result \<times> conn" where
  "sq_store_app_info a json = locked (execute (\<lambda>d. d\<lparr>db_app_infos := (db_app_infos d)(a \<mapsto> json)\<rparr>))"

definition sq_get_app_info :: "str \<Rightarrow> conn \<Rightarrow> str option result \<times> conn" where
  "sq_get_app_info a = lookup (\<lambda>d. db_app_infos d a)"

definition sq_get_all_app_infos :: "env \<Rightarrow> conn \<Rightarrow> (str \<times> str) list result \<times> conn" where
  "sq_get_all_app_infos e =
     locked (query (\<lambda>d. map (\<lambda>a. (a, or_else (db_app_infos d a) [])) (hash_order e (dom (db_app_infos d)))))"

definition sq_store_workflow_sub_invocation :: "str \<Rightarrow> str \<Rightarrow> conn \<Rightarrow> unit result \<times> conn" where
  "sq_store_workflow_sub_invocation w i =
     locked (execute (\<lambda>d. d\<lparr>db_sub_invocations := insert (w, i) (db_sub_invocations d)\<rparr>))"

definition sq_get_workflow_sub_invocations :: "env \<Rightarrow> str \<Rightarrow> conn \<Rightarrow> str list result \<times> conn" where
  "sq_get_workflow_sub_invocations e w =
     locked (query (\<lambda>d. hash_order e {i. (w, i) \<in> db_sub_invocations d}))"

section \<open>Runners\<close>

definition sq_store_runner_context :: "stored_runner_context \<Rightarrow> conn \<Rightarrow> unit result \<times> conn" where
  "sq_store_runner_context x =
     locked (execute (\<lambda>d. d\<lparr>db_runner_contexts := (db_runner_contexts d)(src_runner_id x \<mapsto> x)\<rparr>))"

text \<open>The thread id goes through a signed column; one above its range comes back as zero.\<close>

definition parse_runner_context :: "stored_runner_context \<Rightarrow> stored_runner_context" where
  "parse_runner_context x =
     (if uint (src_thread_id x) \<le> i64_max then x else x\<lparr>src_thread_id := 0\<rparr>)"

definition sq_get_runner_context :: "str \<Rightarrow> conn \<Rightarrow> stored_runner_context option result \<times> conn" where
  "sq_get_runner_context r = lookup (\<lambda>d. map_option parse_runner_context (db_runner_contexts d r))"

definition contexts_where ::
    "env \<Rightarrow> (str \<Rightarrow> stored_runner_context \<Rightarrow> bool) \<Rightarrow> db \<Rightarrow> stored_runner_context list" where
  "contexts_where e P d =
     map parse_runner_context (List.map_filter (db_runner_contexts d) (select_keys e P (db_runner_contexts d)))"

definition sq_get_runner_contexts_by_parent ::
    "env \<Rightarrow> str \<Rightarrow> conn \<Rightarrow> stored_runner_context list result \<times> conn" where
  "sq_get_runner_contexts_by_parent e p =
     locked (query (contexts_where e (\<lambda>_ x. src_parent_runner_id x = Some p)))"

definition sq_get_matching_runner_contexts ::
    "env \<Rightarrow> str \<Rightarrow> conn \<Rightarrow> stored_runner_context list result \<times> conn" where
  "sq_get_matching_runner_contexts e p =
     locked (query (contexts_where e (\<lambda>r _. like_match (''%'' @ p @ ''%'') r)))"

definition runner_history_ids :: "str \<Rightarrow> db \<Rightarrow> str list" where
  "runner_history_ids r d = remdups (map hr_invocation (filter (\<lambda>h. hr_runner h = Some r) (db_history d)))"

text \<open>\<open>pick\<close> is the order in which the engine returns distinct ids.\<close>

definition sq_get_invocation_ids_by_runner ::
    "(str list \<Rightarrow> str list) \<Rightarrow> str \<Rightarrow> nat \<Rightarrow> nat \<Rightarrow> conn \<Rightarrow> str list result \<times> conn" where
  "sq_get_invocation_ids_by_runner pick r limit offset =
     locked (query (\<lambda>d. let ids = drop offset (pick (runner_history_ids r d))
                        in if 0 < limit then take limit ids else ids))"

definition sq_count_invocations_by_runner :: "str \<Rightarrow> conn \<Rightarrow> nat result \<times> conn" where
  "sq_count_invocations_by_runner r = locked (query (\<lambda>d. length (runner_history_ids r d)))"

definition sq_history_time :: "history_row \<Rightarrow> time" where
  "sq_history_time h = or_else (hr_history_timestamp h) (hr_timestamp h)"

definition sq_get_history_in_timerange ::
    "time \<Rightarrow> time \<Rightarrow> nat \<Rightarrow> nat \<Rightarrow> conn \<Rightarrow> invocation_history list result \<times> conn" where
  "sq_get_history_in_timerange start end_time limit offset =
     locked (query (\<lambda>d.
       let rest = drop offset (sort_key sq_history_time
                    (filter (\<lambda>h. start \<le> sq_history_time h \<and> sq_history_time h \<le> end_time) (db_history d)))
       in map read_history (if 0 < limit then take limit rest else rest)))"

section \<open>Client data\<close>

definition sq_store_client_data :: "str \<Rightarrow> str \<Rightarrow> conn \<Rightarrow> unit result \<times> conn" where
  "sq_store_client_data key v = locked (execute (\<lambda>d. d\<lparr>db_client_data := (db_client_data d)(key \<mapsto> v)\<rparr>))"

definition sq_retrieve_client_data :: "str \<Rightarrow> conn \<Rightarrow> str result \<times> conn" where
  "sq_retrieve_client_data key =
     locked (\<lambda>c. and_then (query (\<lambda>d. db_client_data d key) c) (\<lambda>found c.
       case found of None \<Rightarrow> (Inl sql_err, c) | Some v \<Rightarrow> (Inr v, c)))"

definition sq_purge_client_data :: "conn \<Rightarrow> unit result \<times> conn" where
  "sq_purge_client_data = locked (execute (\<lambda>d. d\<lparr>db_client_data := Map.empty\<rparr>))"

end
