(* ===== verification/Sqlite_Trigger.thy ===== *)
theory Sqlite_Trigger
  imports Sqlite_State Mem_Trigger
begin

text \<open>
  The SQLite trigger store, \<^verbatim>\<open>rustvello-sqlite/src/trigger/\<close>. Conditions, contexts, events and runs are kept
  as JSON texts beside the columns the queries filter on; \<open>trg_codec\<close> stands for \<^verbatim>\<open>serde_json\<close> on
  these types. The argument template of a trigger is a JSON value and uses the JSON printer and parser.
\<close>

section \<open>Rows\<close>

record trg_codec =
  tk_condition :: "trigger_condition \<Rightarrow> str"
  tk_parse_condition :: "str \<Rightarrow> trigger_condition option"
  tk_context :: "condition_context \<Rightarrow> str"
  tk_parse_context :: "str \<Rightarrow> condition_context option"
  tk_event :: "event_record \<Rightarrow> str"
  tk_parse_event :: "str \<Rightarrow> event_record option"
  tk_run :: "trigger_run_record \<Rightarrow> str"
  tk_parse_run :: "str \<Rightarrow> trigger_run_record option"

definition parse_logic :: "str \<Rightarrow> trigger_logic result" where
  "parse_logic s = (if s = ''OR'' then Inr TOr else if s = ''AND'' then Inr TAnd else Inl sql_err)"

fun condition_type_tag :: "trigger_condition \<Rightarrow> str" where
  "condition_type_tag (CronCond _) = ''Cron''"
| "condition_type_tag (StatusCond _) = ''Status''"
| "condition_type_tag (EventCond _) = ''Event''"
| "condition_type_tag (ResultCond _) = ''Result''"
| "condition_type_tag (ExceptionCond _) = ''Exception''"
| "condition_type_tag (CompositeCond _ _) = ''Composite''"

definition on_trg :: "(trg_tables \<Rightarrow> trg_tables) \<Rightarrow> db \<Rightarrow> db" where
  "on_trg f d = d\<lparr>db_trg := f (db_trg d)\<rparr>"

text \<open>Rows are parsed one after the other; the first that does not parse ends the answer with an error.\<close>

fun parse_rows :: "('r \<Rightarrow> 'a result) \<Rightarrow> 'r list \<Rightarrow> 'a list result" where
  "parse_rows f [] = Inr []"
| "parse_rows f (r # rs) =
     (case f r of
        Inl err \<Rightarrow> Inl err
      | Inr x \<Rightarrow> (case parse_rows f rs of Inl err \<Rightarrow> Inl err | Inr xs \<Rightarrow> Inr (x # xs)))"

definition from_json :: "(str \<Rightarrow> 'a option) \<Rightarrow> str \<Rightarrow> 'a result" where
  "from_json parse s = (case parse s of None \<Rightarrow> Inl Serialization | Some x \<Rightarrow> Inr x)"

text \<open>A select whose rows are parsed.\<close>

definition select_rows :: "(db \<Rightarrow> 'r list) \<Rightarrow> ('r \<Rightarrow> 'a result) \<Rightarrow> conn \<Rightarrow> 'a list result \<times> conn" where
  "select_rows rows parse = locked (\<lambda>c. and_then (query rows c) (\<lambda>rs c. (parse_rows parse rs, c)))"

text \<open>One row or none, the error of the engine being an error of the call (\<^verbatim>\<open>.optional()?\<close>).\<close>

definition select_one :: "(db \<Rightarrow> 'r option) \<Rightarrow> ('r \<Rightarrow> 'a result) \<Rightarrow> conn \<Rightarrow> 'a option result \<times> conn" where
  "select_one row parse =
     locked (\<lambda>c. and_then (query row c) (\<lambda>found c.
       case found of
         None \<Rightarrow> (Inr None, c)
       | Some r \<Rightarrow> (case parse r of Inl err \<Rightarrow> (Inl err, c) | Inr x \<Rightarrow> (Inr (Some x), c))))"

section \<open>Conditions\<close>

definition sq_register_condition ::
    "libs \<Rightarrow> trg_codec \<Rightarrow> trigger_condition \<Rightarrow> conn \<Rightarrow> str result \<times> conn" where
  "sq_register_condition l k cond =
     (let cid = condition_id l cond;
          row = \<lparr>gc_type = condition_type_tag cond,
                 gc_event_code = (case cond of EventCond ev \<Rightarrow> Some (ec_event_code ev) | _ \<Rightarrow> None),
                 gc_json = tk_condition k cond\<rparr>
      in locked (transaction (\<lambda>c.
           and_then (execute (on_trg (\<lambda>g. g\<lparr>tg_conditions := (tg_conditions g)(cid \<mapsto> row)\<rparr>)) c) (\<lambda>_ c.
           and_then (execute_all (map (\<lambda>t. on_trg (\<lambda>g. g\<lparr>tg_source_tasks := insert (display_task_id t, cid) (tg_source_tasks g)\<rparr>))
                       (source_task_ids cond)) c) (\<lambda>_ c.
             (Inr (cid, True), c))))))"

definition sq_get_condition :: "trg_codec \<Rightarrow> str \<Rightarrow> conn \<Rightarrow> trigger_condition option result \<times> conn" where
  "sq_get_condition k cid =
     select_one (\<lambda>d. map_option gc_json (tg_conditions (db_trg d) cid)) (from_json (tk_parse_condition k))"

definition condition_rows ::
    "env \<Rightarrow> (str \<Rightarrow> trg_condition_row \<Rightarrow> bool) \<Rightarrow> trg_tables \<Rightarrow> (str \<times> str) list" where
  "condition_rows e P g =
     List.map_filter (\<lambda>cid. map_option (\<lambda>r. (cid, gc_json r)) (tg_conditions g cid)) (select_keys e P (tg_conditions g))"

definition read_condition :: "trg_codec \<Rightarrow> str \<times> str \<Rightarrow> (str \<times> trigger_condition) result" where
  "read_condition k row =
     (case from_json (tk_parse_condition k) (snd row) of Inl err \<Rightarrow> Inl err | Inr x \<Rightarrow> Inr (fst row, x))"

definition sq_get_conditions_for_task ::
    "env \<Rightarrow> trg_codec \<Rightarrow> task_id \<Rightarrow> conn \<Rightarrow> (str \<times> trigger_condition) list result \<times> conn" where
  "sq_get_conditions_for_task e k t =
     select_rows (\<lambda>d. condition_rows e (\<lambda>cid _. (display_task_id t, cid) \<in> tg_source_tasks (db_trg d)) (db_trg d))
       (read_condition k)"

definition sq_get_cron_conditions :: "env \<Rightarrow> trg_codec \<Rightarrow> conn \<Rightarrow> (str \<times> trigger_condition) list result \<times> conn" where
  "sq_get_cron_conditions e k =
     select_rows (\<lambda>d. condition_rows e (\<lambda>_ r. gc_type r = ''Cron'') (db_trg d)) (read_condition k)"

definition sq_get_all_conditions :: "env \<Rightarrow> trg_codec \<Rightarrow> conn \<Rightarrow> (str \<times> trigger_condition) list result \<times> conn" where
  "sq_get_all_conditions e k = select_rows (\<lambda>d. condition_rows e (\<lambda>_ _. True) (db_trg d)) (read_condition k)"

definition sq_get_event_conditions ::
    "env \<Rightarrow> trg_codec \<Rightarrow> str \<Rightarrow> conn \<Rightarrow> (str \<times> trigger_condition) list result \<times> conn" where
  "sq_get_event_conditions e k code =
     select_rows (\<lambda>d. condition_rows e (\<lambda>_ r. gc_type r = ''Event'' \<and> gc_event_code r = Some code) (db_trg d)) (read_condition k)"

section \<open>Triggers\<close>

definition sq_register_trigger :: "libs \<Rightarrow> trigger_definition \<Rightarrow> conn \<Rightarrow> unit result \<times> conn" where
  "sq_register_trigger l t =
     (let row = \<lparr>gt_task = display_task_id (td_task_id t), gt_logic = display_logic (td_logic t),
                 gt_template = map_option (json_to_string l) (td_argument_template t)\<rparr>
      in locked (transaction (\<lambda>c.
           and_then (execute (on_trg (\<lambda>g. g\<lparr>tg_triggers := (tg_triggers g)(td_trigger_id t \<mapsto> row)\<rparr>)) c) (\<lambda>_ c.
           and_then (execute_all (map (\<lambda>cid. on_trg (\<lambda>g. g\<lparr>tg_condition_triggers := insert (cid, td_trigger_id t) (tg_condition_triggers g)\<rparr>))
                       (td_condition_ids t)) c) (\<lambda>_ c.
             (Inr ((), True), c))))))"

definition get_condition_ids_for_trigger :: "env \<Rightarrow> str \<Rightarrow> conn \<Rightarrow> str list result \<times> conn" where
  "get_condition_ids_for_trigger e tid = query (\<lambda>d. hash_order e {cid. (cid, tid) \<in> tg_condition_triggers (db_trg d)})"

text \<open>The columns of a trigger, parsed; its condition ids are a query of their own.\<close>

definition read_trigger ::
    "env \<Rightarrow> libs \<Rightarrow> str \<Rightarrow> trg_trigger_row \<Rightarrow> conn \<Rightarrow> trigger_definition result \<times> conn" where
  "read_trigger e l tid row c =
     and_then (read_task (gt_task row), c) (\<lambda>t c.
     and_then (parse_logic (gt_logic row), c) (\<lambda>logic c.
     and_then (case gt_template row of
                 None \<Rightarrow> (Inr None, c)
               | Some s \<Rightarrow> (case json_from_str l s of None \<Rightarrow> (Inl Serialization, c) | Some v \<Rightarrow> (Inr (Some v), c))) (\<lambda>template c.
     and_then (get_condition_ids_for_trigger e tid c) (\<lambda>cids c.
       (Inr \<lparr>td_trigger_id = tid, td_task_id = t, td_condition_ids = cids, td_logic = logic,
             td_argument_template = template\<rparr>, c)))))"

definition sq_get_trigger :: "env \<Rightarrow> libs \<Rightarrow> str \<Rightarrow> conn \<Rightarrow> trigger_definition option result \<times> conn" where
  "sq_get_trigger e l tid =
     locked (\<lambda>c. and_then (query (\<lambda>d. tg_triggers (db_trg d) tid) c) (\<lambda>found c.
       case found of
         None \<Rightarrow> (Inr None, c)
       | Some row \<Rightarrow> and_then (read_trigger e l tid row c) (\<lambda>t c. (Inr (Some t), c))))"

fun read_triggers ::
    "env \<Rightarrow> libs \<Rightarrow> (str \<times> trg_trigger_row) list \<Rightarrow> conn \<Rightarrow> trigger_definition list result \<times> conn" where
  "read_triggers e l [] c = (Inr [], c)"
| "read_triggers e l ((tid, row) # rows) c =
     and_then (read_trigger e l tid row c) (\<lambda>t c.
     and_then (read_triggers e l rows c) (\<lambda>ts c. (Inr (t # ts), c)))"

definition sq_get_triggers_for_condition ::
    "env \<Rightarrow> libs \<Rightarrow> str \<Rightarrow> conn \<Rightarrow> trigger_definition list result \<times> conn" where
  "sq_get_triggers_for_condition e l cid =
     locked (\<lambda>c. and_then (query (\<lambda>d. List.map_filter (\<lambda>tid. map_option (Pair tid) (tg_triggers (db_trg d) tid))
                    (select_keys e (\<lambda>tid _. (cid, tid) \<in> tg_condition_triggers (db_trg d)) (tg_triggers (db_trg d)))) c) (\<lambda>rows c.
       read_triggers e l rows c))"

definition remove_trigger_rows :: "str \<Rightarrow> (db \<Rightarrow> db) list" where
  "remove_trigger_rows tid =
     [on_trg (\<lambda>g. g\<lparr>tg_condition_triggers := {(cid, x) \<in> tg_condition_triggers g. x \<noteq> tid}\<rparr>),
      on_trg (\<lambda>g. g\<lparr>tg_triggers := (tg_triggers g)(tid := None)\<rparr>)]"

definition sq_remove_triggers_for_task :: "env \<Rightarrow> task_id \<Rightarrow> conn \<Rightarrow> nat result \<times> conn" where
  "sq_remove_triggers_for_task e t =
     locked (transaction (\<lambda>c.
       and_then (query (\<lambda>d. select_keys e (\<lambda>_ r. gt_task r = display_task_id t) (tg_triggers (db_trg d))) c) (\<lambda>ids c.
       and_then (execute_all (concat (map remove_trigger_rows ids)) c) (\<lambda>_ c.
         (Inr (min (length ids) 4294967295, True), c)))))"

section \<open>Valid conditions and cron slots\<close>

definition sq_record_valid_condition :: "trg_codec \<Rightarrow> valid_condition \<Rightarrow> conn \<Rightarrow> unit result \<times> conn" where
  "sq_record_valid_condition k vc =
     locked (execute (on_trg (\<lambda>g. g\<lparr>tg_valid := (tg_valid g)(valid_condition_id vc \<mapsto>
       (vc_condition_id vc, tk_context k (vc_context vc)))\<rparr>)))"

definition read_valid :: "trg_codec \<Rightarrow> str \<times> str \<times> str \<Rightarrow> valid_condition result" where
  "read_valid k row =
     (case row of (vid, cid, json) \<Rightarrow>
        (case from_json (tk_parse_context k) json of
           Inl err \<Rightarrow> Inl err
         | Inr ctx \<Rightarrow> Inr \<lparr>valid_condition_id = vid, vc_condition_id = cid, vc_context = ctx\<rparr>))"

definition sq_get_valid_conditions :: "env \<Rightarrow> trg_codec \<Rightarrow> conn \<Rightarrow> valid_condition list result \<times> conn" where
  "sq_get_valid_conditions e k =
     select_rows (\<lambda>d. List.map_filter (\<lambda>vid. map_option (Pair vid) (tg_valid (db_trg d) vid))
                        (hash_order e (dom (tg_valid (db_trg d))))) (read_valid k)"

definition delete_valid :: "str \<Rightarrow> db \<Rightarrow> db" where
  "delete_valid vid = on_trg (\<lambda>g. g\<lparr>tg_valid := (tg_valid g)(vid := None)\<rparr>)"

text \<open>Not a transaction: a failure leaves the ids cleared so far cleared.\<close>

definition sq_clear_valid_conditions :: "str list \<Rightarrow> conn \<Rightarrow> unit result \<times> conn" where
  "sq_clear_valid_conditions ids = locked (execute_all (map delete_valid ids))"

definition sq_get_last_cron_execution :: "str \<Rightarrow> conn \<Rightarrow> time option result \<times> conn" where
  "sq_get_last_cron_execution cid = select_one (\<lambda>d. tg_cron (db_trg d) cid) Inr"

text \<open>The number of changed rows decides; the expected instant is compared in the statement.\<close>

definition sq_store_cron_execution :: "str \<Rightarrow> time \<Rightarrow> time option \<Rightarrow> conn \<Rightarrow> bool result \<times> conn" where
  "sq_store_cron_execution cid t expected_last =
     locked (statement (\<lambda>d.
       let g = db_trg d;
           hit = (case expected_last of None \<Rightarrow> tg_cron g cid = None | Some x \<Rightarrow> tg_cron g cid = Some x)
       in (hit, if hit then on_trg (\<lambda>g. g\<lparr>tg_cron := (tg_cron g)(cid \<mapsto> t)\<rparr>) d else d)))"

section \<open>Claims, events and runs\<close>

definition insert_claim :: "env \<Rightarrow> str \<Rightarrow> conn \<Rightarrow> bool result \<times> conn" where
  "insert_claim e run_id =
     statement (\<lambda>d. if tg_claims (db_trg d) run_id = None
                    then (True, on_trg (\<lambda>g. g\<lparr>tg_claims := (tg_claims g)(run_id \<mapsto> now e)\<rparr>) d) else (False, d))"

definition sq_claim_trigger_run :: "env \<Rightarrow> str \<Rightarrow> conn \<Rightarrow> bool result \<times> conn" where
  "sq_claim_trigger_run e run_id = locked (insert_claim e run_id)"

definition sq_store_event :: "trg_codec \<Rightarrow> event_record \<Rightarrow> conn \<Rightarrow> unit result \<times> conn" where
  "sq_store_event k v =
     locked (execute (on_trg (\<lambda>g. g\<lparr>tg_events := (tg_events g)(ev_event_id v \<mapsto>
       \<lparr>ge_code = ev_event_code v, ge_timestamp = ev_timestamp v, ge_emitter = ev_by_invocation_id v, ge_json = tk_event k v\<rparr>)\<rparr>)))"

definition sq_get_event :: "trg_codec \<Rightarrow> str \<Rightarrow> conn \<Rightarrow> event_record option result \<times> conn" where
  "sq_get_event k i =
     select_one (\<lambda>d. map_option ge_json (tg_events (db_trg d) i)) (from_json (tk_parse_event k))"

definition event_row_matches :: "event_query \<Rightarrow> trg_event_row \<Rightarrow> bool" where
  "event_row_matches q r \<longleftrightarrow>
     none_or (eq_event_code q) (\<lambda>c. ge_code r = c) \<and> none_or (eq_by_invocation_id q) (\<lambda>i. ge_emitter r = Some i) \<and>
     none_or (eq_start q) (\<lambda>t. t \<le> ge_timestamp r) \<and> none_or (eq_end q) (\<lambda>t. ge_timestamp r \<le> t)"

definition event_limit :: "event_query \<Rightarrow> nat" where
  "event_limit q =
     (if eq_matched q \<noteq> None \<or> eq_triggered q \<noteq> None then nat i64_max
      else min (nat i64_max) (or_else (eq_offset q) 0 + or_else (eq_limit q) 1000))"

definition event_rows :: "env \<Rightarrow> event_query \<Rightarrow> trg_tables \<Rightarrow> trg_event_row list" where
  "event_rows e q g =
     take (event_limit q) (sort_key (\<lambda>r. - ge_timestamp r)
       (List.map_filter (tg_events g) (select_keys e (\<lambda>_. event_row_matches q) (tg_events g))))"

definition sq_get_events :: "env \<Rightarrow> trg_codec \<Rightarrow> event_query \<Rightarrow> conn \<Rightarrow> event_record list result \<times> conn" where
  "sq_get_events e k q c =
     and_then (select_rows (\<lambda>d. event_rows e q (db_trg d)) (\<lambda>r. from_json (tk_parse_event k) (ge_json r)) c) (\<lambda>vs c.
       let kept = filter (\<lambda>v. none_or (eq_matched q) (\<lambda>b. is_matched v = b) \<and> none_or (eq_triggered q) (\<lambda>b. is_triggered v = b)) vs;
           rest = (case eq_offset q of None \<Rightarrow> kept | Some n \<Rightarrow> drop n kept)
       in (Inr (case eq_limit q of None \<Rightarrow> rest | Some n \<Rightarrow> take n rest), c))"

definition write_trigger_run :: "trg_codec \<Rightarrow> trigger_run_record \<Rightarrow> (db \<Rightarrow> db) list" where
  "write_trigger_run k r =
     [on_trg (\<lambda>g. g\<lparr>tg_runs := (tg_runs g)(tr_run_id r \<mapsto>
        \<lparr>gr_claimed = tr_claimed_at r, gr_triggered = tr_triggered_invocation_id r, gr_planned = tr_planned_invocation_id r,
         gr_json = tk_run k r\<rparr>)\<rparr>),
      on_trg (\<lambda>g. g\<lparr>tg_run_events := {(i, v) \<in> tg_run_events g. i \<noteq> tr_run_id r}\<rparr>),
      on_trg (\<lambda>g. g\<lparr>tg_run_sources := {(i, v) \<in> tg_run_sources g. i \<noteq> tr_run_id r}\<rparr>)] @
     map (\<lambda>v. on_trg (\<lambda>g. g\<lparr>tg_run_events := insert (tr_run_id r, v) (tg_run_events g)\<rparr>)) (run_event_ids r) @
     map (\<lambda>v. on_trg (\<lambda>g. g\<lparr>tg_run_sources := insert (tr_run_id r, v) (tg_run_sources g)\<rparr>)) (run_source_invocation_ids r)"

definition sq_store_trigger_run :: "trg_codec \<Rightarrow> trigger_run_record \<Rightarrow> conn \<Rightarrow> unit result \<times> conn" where
  "sq_store_trigger_run k r =
     locked (transaction (\<lambda>c. and_then (execute_all (write_trigger_run k r) c) (\<lambda>_ c. (Inr ((), True), c))))"

fun claim_rows ::
    "env \<Rightarrow> trg_codec \<Rightarrow> trigger_run_record list \<Rightarrow> conn \<Rightarrow> bool list result \<times> conn" where
  "claim_rows e k [] c = (Inr [], c)"
| "claim_rows e k (r # rs) c =
     and_then (insert_claim e (tr_run_id r) c) (\<lambda>first c.
     and_then (query (\<lambda>d. tg_runs (db_trg d) (tr_run_id r) \<noteq> None) c) (\<lambda>recorded c.
     and_then (if first \<or> \<not> recorded then execute_all (write_trigger_run k r) c else (Inr (), c)) (\<lambda>_ c.
     and_then (claim_rows e k rs c) (\<lambda>rest c. (Inr (first # rest), c)))))"

definition sq_claim_trigger_runs_with_records ::
    "env \<Rightarrow> trg_codec \<Rightarrow> trigger_run_record list \<Rightarrow> str list \<Rightarrow> conn \<Rightarrow> bool list result \<times> conn" where
  "sq_claim_trigger_runs_with_records e k records consumed =
     locked (transaction (\<lambda>c.
       and_then (claim_rows e k records c) (\<lambda>claimed c.
       and_then (execute_all (map delete_valid consumed) c) (\<lambda>_ c.
         (Inr (claimed, True), c)))))"

definition run_rows :: "env \<Rightarrow> (str \<Rightarrow> trg_run_row \<Rightarrow> bool) \<Rightarrow> trg_tables \<Rightarrow> trg_run_row list" where
  "run_rows e P g = List.map_filter (tg_runs g) (select_keys e P (tg_runs g))"

definition sq_get_pending_trigger_runs ::
    "env \<Rightarrow> trg_codec \<Rightarrow> nat \<Rightarrow> conn \<Rightarrow> trigger_run_record list result \<times> conn" where
  "sq_get_pending_trigger_runs e k limit =
     select_rows (\<lambda>d. take (min (nat i64_max) limit) (sort_key gr_claimed
       (run_rows e (\<lambda>_ r. gr_triggered r = None \<and> gr_planned r \<noteq> None) (db_trg d))))
       (\<lambda>r. from_json (tk_parse_run k) (gr_json r))"

definition sq_get_trigger_run :: "trg_codec \<Rightarrow> str \<Rightarrow> conn \<Rightarrow> trigger_run_record option result \<times> conn" where
  "sq_get_trigger_run k i =
     select_one (\<lambda>d. map_option gr_json (tg_runs (db_trg d) i)) (from_json (tk_parse_run k))"

definition run_row_matches :: "trigger_run_query \<Rightarrow> trg_tables \<Rightarrow> str \<Rightarrow> trg_run_row \<Rightarrow> bool" where
  "run_row_matches q g i r \<longleftrightarrow>
     none_or (tq_event_id q) (\<lambda>v. (i, v) \<in> tg_run_events g) \<and>
     none_or (tq_source_invocation_id q) (\<lambda>v. (i, v) \<in> tg_run_sources g) \<and>
     none_or (tq_triggered_invocation_id q) (\<lambda>v. gr_triggered r = Some v) \<and>
     none_or (tq_start q) (\<lambda>t. t \<le> gr_claimed r) \<and> none_or (tq_end q) (\<lambda>t. gr_claimed r \<le> t)"

definition sq_get_trigger_runs ::
    "env \<Rightarrow> trg_codec \<Rightarrow> trigger_run_query \<Rightarrow> conn \<Rightarrow> trigger_run_record list result \<times> conn" where
  "sq_get_trigger_runs e k q =
     select_rows (\<lambda>d. take (min (nat i64_max) (or_else (tq_limit q) 1000)) (sort_key (\<lambda>r. - gr_claimed r)
       (run_rows e (run_row_matches q (db_trg d)) (db_trg d))))
       (\<lambda>r. from_json (tk_parse_run k) (gr_json r))"

text \<open>A batch of statements outside a transaction: each deletion commits by itself.\<close>

definition sq_trigger_purge :: "conn \<Rightarrow> unit result \<times> conn" where
  "sq_trigger_purge =
     locked (execute_all (map on_trg
       [\<lambda>g. g\<lparr>tg_run_sources := {}\<rparr>, \<lambda>g. g\<lparr>tg_run_events := {}\<rparr>, \<lambda>g. g\<lparr>tg_runs := Map.empty\<rparr>,
        \<lambda>g. g\<lparr>tg_events := Map.empty\<rparr>, \<lambda>g. g\<lparr>tg_claims := Map.empty\<rparr>, \<lambda>g. g\<lparr>tg_cron := Map.empty\<rparr>,
        \<lambda>g. g\<lparr>tg_valid := Map.empty\<rparr>, \<lambda>g. g\<lparr>tg_source_tasks := {}\<rparr>, \<lambda>g. g\<lparr>tg_condition_triggers := {}\<rparr>,
        \<lambda>g. g\<lparr>tg_triggers := Map.empty\<rparr>, \<lambda>g. g\<lparr>tg_conditions := Map.empty\<rparr>]))"

end
