(* ===== verification/Sqlite_Mem_Equiv.thy ===== *)
theory Sqlite_Mem_Equiv
  imports Sqlite_Orchestrator Mem_Orchestrator_Props
begin

text \<open>
  The SQLite orchestrator behind the same interface as the in-memory one. It is a store of status records
  under the status machine (an instance of \<open>status_store\<close>), and for the operations the two promise in common
  it gives the same answers, request by request. \<open>shared_pre\<close> lists what the agreement needs. It excludes
  a registration of an id that is known, a retry counter at its maximum, an invocation
  under the slots of two tasks, and a bare change to a final status of an invocation that holds a slot: there the
  in-memory orchestrator frees the slot and the SQLite one keeps it (\<open>final_status_keeps_slot\<close>). \<open>args_wf\<close> holds of every argument list of the code, a map in key order.
\<close>

section \<open>Frames\<close>

lemma find_status_healthy [simp]:
  "sq_find_status i (healthy d) =
     (case db_status d i of None \<Rightarrow> (Inl (InvocationNotFound i), healthy d) | Some r \<Rightarrow> (Inr r, healthy d))"
  by (simp add: sq_find_status_def split: option.split)

lemma delete_queue_frame [simp]:
  "db_status (delete_queue P d) = db_status d" "db_invocations (delete_queue P d) = db_invocations d"
  "db_cc (delete_queue P d) = db_cc d" "db_retries (delete_queue P d) = db_retries d"
  "db_waiting (delete_queue P d) = db_waiting d" "db_auto_purge (delete_queue P d) = db_auto_purge d"
  by (simp_all add: delete_queue_def)

lemma update_status_row_frame [simp]:
  "db_invocations (update_status_row i r d) = db_invocations d" "db_cc (update_status_row i r d) = db_cc d"
  "db_retries (update_status_row i r d) = db_retries d" "db_waiting (update_status_row i r d) = db_waiting d"
  "db_queue (update_status_row i r d) = db_queue d"
  by (simp_all add: update_status_row_def)

lemma update_invocation_row_frame [simp]:
  "db_status (update_invocation_row i r d) = db_status d" "db_cc (update_invocation_row i r d) = db_cc d"
  "db_retries (update_invocation_row i r d) = db_retries d" "db_waiting (update_invocation_row i r d) = db_waiting d"
  "db_queue (update_invocation_row i r d) = db_queue d"
  by (simp_all add: update_invocation_row_def split: option.split)

text \<open>The writes of a status change.\<close>

definition status_writes :: "str \<Rightarrow> invocation_status \<Rightarrow> status_record \<Rightarrow> db \<Rightarrow> db" where
  "status_writes i status rec d =
     (let d1 = update_invocation_row i rec (update_status_row i rec d)
      in if status = Pending then delete_queue (\<lambda>r. q_invocation r = i) d1 else d1)"

lemma set_status_db:
  "on_db (sq_set_invocation_status e i status runner) d =
     (case db_status d i of
        None \<Rightarrow> (Inl (InvocationNotFound i), d)
      | Some cur \<Rightarrow>
          (case status_record_transition (now e) (Some cur) status runner of
             Inl err \<Rightarrow> (Inl (status_machine_error_to_rustvello err i (sr_status cur)), d)
           | Inr rec \<Rightarrow> (Inr rec, status_writes i status rec d)))"
  by (simp add: sq_set_invocation_status_def on_db_def transaction_healthy status_writes_def Let_def
      split: option.split sum.split)

lemma status_writes_frame [simp]:
  "db_status (status_writes i st rec d) = db_status (update_status_row i rec d)"
  "db_invocations (status_writes i st rec d) = db_invocations (update_invocation_row i rec d)"
  "db_cc (status_writes i st rec d) = db_cc d" "db_retries (status_writes i st rec d) = db_retries d"
  "db_waiting (status_writes i st rec d) = db_waiting d"
  by (simp_all add: status_writes_def Let_def update_invocation_row_def split: option.split)

interpretation sq: status_store db_status "\<lambda>e i st r. on_db (sq_set_invocation_status e i st r)"
  by unfold_locales
    (auto simp: set_status_db status_writes_def Let_def update_status_row_def split: option.splits sum.splits if_splits)

section \<open>The two states\<close>

definition same_rows :: "(str \<rightharpoonup> invocation_row) \<Rightarrow> (str \<rightharpoonup> invocation_dto) \<Rightarrow> bool" where
  "same_rows rows dtos \<longleftrightarrow>
     (\<forall>i. map_option (\<lambda>r. (iv_task r, iv_call r, iv_status r)) (rows i) =
          map_option (\<lambda>d. (task_key_of d, call_key_of d, inv_status d)) (dtos i))"

definition same_slots :: "(str \<times> str \<times> str \<rightharpoonup> str) \<Rightarrow> (cc_triple \<rightharpoonup> str set) \<Rightarrow> bool" where
  "same_slots cc idx \<longleftrightarrow> (\<forall>t k v. ms_get idx (t, k, v) = {i. cc (i, k, v) = Some t})"

definition exact_index :: "orch_state \<Rightarrow> bool" where
  "exact_index s \<longleftrightarrow>
     (\<forall>tk. ms_get (task_invocations s) tk = {i. \<exists>d. invocations s i = Some d \<and> task_key_of d = tk})"

definition sq_sim :: "db \<Rightarrow> orch_state \<Rightarrow> bool" where
  "sq_sim d s \<longleftrightarrow>
     db_status d = status_records s \<and> same_rows (db_invocations d) (invocations s) \<and>
     same_slots (db_cc d) (cc_index s) \<and>
     (\<forall>i. db_retries d i = map_option uint (retries s i)) \<and>
     (\<forall>x. waiters_of d x = ms_get (waiters s) x) \<and> exact_index s \<and> orch_inv s"

text \<open>The groups of the SQL query are the intersection the in-memory index computes.\<close>

lemma cc_rows_full: "distinct pairs \<Longrightarrow> card (cc_rows d t pairs i) = length pairs \<longleftrightarrow> cc_rows d t pairs i = set pairs"
proof -
  assume dist: "distinct pairs"
  have sub: "cc_rows d t pairs i \<subseteq> set pairs" by (auto simp: cc_rows_def)
  show ?thesis using sub dist by (metis List.finite_set card_subset_eq distinct_card)
qed

lemma cc_groups_eq:
  assumes "distinct pairs" "pairs \<noteq> []"
  shows "cc_groups d t pairs = {i. \<forall>(k, v) \<in> set pairs. db_cc d (i, k, v) = Some t}"
proof -
  have "i \<in> fst ` dom (db_cc d)" if "\<forall>(k, v) \<in> set pairs. db_cc d (i, k, v) = Some t" for i
  proof -
    obtain k v where "(k, v) \<in> set pairs" using assms(2) by (cases pairs) auto
    then have "(i, k, v) \<in> dom (db_cc d)" using that by auto
    then show ?thesis by (metis fst_conv imageI)
  qed
  moreover have "cc_rows d t pairs i = set pairs \<longleftrightarrow> (\<forall>(k, v) \<in> set pairs. db_cc d (i, k, v) = Some t)" for i
    by (auto simp: cc_rows_def)
  moreover have "cc_rows d t pairs i = set pairs \<Longrightarrow> cc_rows d t pairs i \<noteq> {}" for i using assms(2) by auto
  ultimately show ?thesis by (auto simp: cc_groups_def cc_rows_full [OF assms(1)])
qed

lemma same_slotsD: "same_slots cc idx \<Longrightarrow> ms_get idx (t, p) = {i. cc (i, p) = Some t}"
  by (cases p) (simp add: same_slots_def)

lemma arg_pairs_ok: "args_wf a \<Longrightarrow> distinct (cc_arg_pairs a)" "cc_arg_pairs a \<noteq> []"
  using args_wf_distinct [of a] by (auto simp: cc_arg_pairs_def distinct_map)

lemma groups_are_holders:
  assumes "same_slots (db_cc d) (cc_index s)" "args_wf a"
  shows "cc_groups d tk (cc_arg_pairs a) = slot_holders tk (cc_arg_pairs a) s"
  unfolding cc_groups_eq [OF arg_pairs_ok(1) [OF assms(2)] arg_pairs_ok(2)] slot_holders_def
  by (auto simp: same_slotsD [OF assms(1)])

section \<open>Shared requests\<close>

datatype shared_op =
    SRegister str call_dto "str option"
  | SStatus str invocation_status "str option"
  | SFinish str invocation_status "str option"
  | SGetStatus str
  | SRetry str
  | SGetRetries str
  | SCheck task_id task_config "serialized_arguments option"
  | SIndex str task_id serialized_arguments
  | SAcquire str task_id task_config "serialized_arguments option"
  | SRelease str
  | SWait str str
  | SWaiters str
  | SReleaseWaiters str

datatype answer =
    ARecord "status_record result"
  | ACount "u32 result"
  | ABool "bool result"
  | AUnit "unit result"
  | AIds "str list result"

text \<open>
  A terminal status frees the slots at once in memory; with SQLite the caller does it
  (\<open>SFinish\<close>), as the publication of a terminal status does.
\<close>

fun mem_answer :: "env \<Rightarrow> shared_op \<Rightarrow> orch_state \<Rightarrow> answer \<times> orch_state" where
  "mem_answer e (SRegister i call r) s = apfst ARecord (register_invocation_with_id e i call r s)"
| "mem_answer e (SStatus i st r) s = apfst ARecord (set_invocation_status e i st r s)"
| "mem_answer e (SFinish i st r) s = apfst AUnit
     (and_then (set_invocation_status e i st r s) (\<lambda>_ s. remove_from_concurrency_index i s))"
| "mem_answer e (SGetStatus i) s = (ARecord (get_invocation_status i s), s)"
| "mem_answer e (SRetry i) s = apfst ACount (increment_invocation_retries i s)"
| "mem_answer e (SGetRetries i) s = (ACount (Inr (get_invocation_retries i s)), s)"
| "mem_answer e (SCheck t c a) s = (ABool (Inr (check_running_concurrency t c a s)), s)"
| "mem_answer e (SIndex i t a) s = apfst AUnit (index_for_concurrency_control i t (Some a) s)"
| "mem_answer e (SAcquire i t c a) s = apfst ABool (try_acquire_concurrency_slot i t c a s)"
| "mem_answer e (SRelease i) s = apfst AUnit (remove_from_concurrency_index i s)"
| "mem_answer e (SWait w x) s = apfst AUnit (set_waiting_for w x s)"
| "mem_answer e (SWaiters x) s = (AIds (Inr (get_waiters e x s)), s)"
| "mem_answer e (SReleaseWaiters x) s = apfst AIds (release_waiters e x s)"

fun sq_answer :: "env \<Rightarrow> shared_op \<Rightarrow> db \<Rightarrow> answer \<times> db" where
  "sq_answer e (SRegister i call r) d = apfst ARecord (on_db (sq_register_invocation_with_id e i call r) d)"
| "sq_answer e (SStatus i st r) d = apfst ARecord (on_db (sq_set_invocation_status e i st r) d)"
| "sq_answer e (SFinish i st r) d = apfst AUnit
     (and_then (on_db (sq_set_invocation_status e i st r) d) (\<lambda>_ d. on_db (sq_remove_from_concurrency_index i) d))"
| "sq_answer e (SGetStatus i) d = apfst ARecord (on_db (sq_get_invocation_status i) d)"
| "sq_answer e (SRetry i) d = apfst ACount (on_db (sq_increment_invocation_retries i) d)"
| "sq_answer e (SGetRetries i) d = apfst ACount (on_db (sq_get_invocation_retries i) d)"
| "sq_answer e (SCheck t c a) d = apfst ABool (on_db (sq_check_running_concurrency t c a) d)"
| "sq_answer e (SIndex i t a) d = apfst AUnit (on_db (sq_index_for_concurrency_control i t (Some a)) d)"
| "sq_answer e (SAcquire i t c a) d = apfst ABool (on_db (sq_try_acquire_concurrency_slot i t c a) d)"
| "sq_answer e (SRelease i) d = apfst AUnit (on_db (sq_remove_from_concurrency_index i) d)"
| "sq_answer e (SWait w x) d = apfst AUnit (on_db (sq_set_waiting_for w x) d)"
| "sq_answer e (SWaiters x) d = apfst AIds (on_db (sq_get_waiters e x) d)"
| "sq_answer e (SReleaseWaiters x) d = apfst AIds (on_db (sq_release_waiters e x) d)"

definition one_task :: "str \<Rightarrow> task_id \<Rightarrow> orch_state \<Rightarrow> bool" where
  "one_task i t s \<longleftrightarrow> (\<forall>tk p. i \<in> ms_get (cc_index s) (tk, p) \<longrightarrow> tk = display_task_id t)"

fun shared_pre :: "shared_op \<Rightarrow> orch_state \<Rightarrow> bool" where
  "shared_pre (SRegister i call r) s \<longleftrightarrow> invocations s i = None"
| "shared_pre (SStatus i st r) s \<longleftrightarrow> is_terminal st \<longrightarrow> cc_reverse s i = None"
| "shared_pre (SRetry i) s \<longleftrightarrow> retries s i \<noteq> Some (- 1)"
| "shared_pre (SCheck t c a) s \<longleftrightarrow> (case a of None \<Rightarrow> True | Some x \<Rightarrow> args_wf x)"
| "shared_pre (SIndex i t a) s \<longleftrightarrow> args_wf a \<and> one_task i t s"
| "shared_pre (SAcquire i t c a) s \<longleftrightarrow> args_wf (or_else a []) \<and> one_task i t s"
| "shared_pre _ s \<longleftrightarrow> True"

section \<open>One request\<close>

definition agree :: "env \<Rightarrow> shared_op \<Rightarrow> db \<Rightarrow> orch_state \<Rightarrow> bool" where
  "agree e op d s \<longleftrightarrow>
     fst (sq_answer e op d) = fst (mem_answer e op s) \<and> sq_sim (snd (sq_answer e op d)) (snd (mem_answer e op s))"

lemma same_rows_update:
  assumes "same_rows rows dtos" "iv_task r = task_key_of x" "iv_call r = call_key_of x" "iv_status r = inv_status x"
  shows "same_rows (rows(i \<mapsto> r)) (dtos(i \<mapsto> x))"
  using assms by (simp add: same_rows_def)

lemma same_rows_None: "same_rows rows dtos \<Longrightarrow> rows i = None \<longleftrightarrow> dtos i = None"
  unfolding same_rows_def by (cases "rows i"; cases "dtos i") (auto dest!: spec [of _ i])

lemma same_rows_Some:
  assumes "same_rows rows dtos" "rows i = Some r" "dtos i = Some x"
  shows "iv_task r = task_key_of x \<and> iv_call r = call_key_of x \<and> iv_status r = inv_status x"
proof -
  have "map_option (\<lambda>r. (iv_task r, iv_call r, iv_status r)) (rows i) =
      map_option (\<lambda>d. (task_key_of d, call_key_of d, inv_status d)) (dtos i)"
    using assms(1) unfolding same_rows_def by blast
  then show ?thesis by (simp add: assms(2,3))
qed

lemma agree_register:
  assumes "sq_sim d s" "shared_pre (SRegister i call r) s"
  shows "agree e (SRegister i call r) d s"
proof -
  have inv: "orch_inv (snd (register_invocation_with_id e i call r s))" using assms(1) by (simp add: sq_sim_def register_inv)
  have rows: "same_rows ((db_invocations d)(i \<mapsto> new_invocation_row (now e) call))
      ((invocations s)(i \<mapsto> invocation_dto_new (now e) i (cd_task_id call) (cd_call_id call)))"
    using assms(1) by (intro same_rows_update) (simp_all add: sq_sim_def new_invocation_row_def invocation_dto_new_def)
  have none: "db_invocations d i = None" using assms same_rows_None by (auto simp: sq_sim_def)
  have idx: "exact_index (snd (register_invocation_with_id e i call r s))"
    using assms by (auto simp: sq_sim_def exact_index_def register_invocation_with_id_def Let_def ms_simps invocation_dto_new_def)
  show ?thesis
    using assms(1) inv rows idx
    by (simp add: agree_def sq_sim_def sq_register_invocation_with_id_def on_db_def transaction_healthy none
        register_invocation_with_id_def status_record_new_def Let_def waiters_of_def)
qed

lemma sim_status_writes:
  assumes "sq_sim d s" "status_records s i = Some cur" "sr_status rec = st" "sr_timestamp rec = now e"
    and "orch_inv (write_status e i st rec s)"
  shows "sq_sim (status_writes i st rec d) (write_status e i st rec s)"
proof -
  have st: "db_status d i = Some cur" using assms(1,2) by (simp add: sq_sim_def)
  have "same_rows (db_invocations (update_invocation_row i rec d)) (invocations (write_status e i st rec s))"
  proof (cases "invocations s i")
    case None
    then have "db_invocations d i = None" using assms(1) same_rows_None by (auto simp: sq_sim_def)
    then show ?thesis using assms(1) None by (simp add: sq_sim_def update_invocation_row_def write_status_def)
  next
    case (Some x)
    then obtain row where row: "db_invocations d i = Some row"
      using assms(1) same_rows_None [of "db_invocations d" "invocations s" i] by (auto simp: sq_sim_def)
    have sr: "same_rows (db_invocations d) (invocations s)" using assms(1) by (simp add: sq_sim_def)
    from same_rows_Some [OF this row Some] show ?thesis
      using same_rows_update [OF sr] Some row assms(3) by (simp add: update_invocation_row_def write_status_def)
  qed
  moreover have "exact_index (write_status e i st rec s)"
    using assms(1) by (auto simp: sq_sim_def exact_index_def write_status_def split: option.splits)
  moreover have "retries (write_status e i st rec s) = retries s" by (simp add: write_status_def)
  ultimately show ?thesis
    using assms(1,5) st
    by (simp add: sq_sim_def waiters_of_def) (simp add: update_status_row_def)
qed

text \<open>A status change without the release of slots, which memory makes part of a terminal change.\<close>

lemma sim_set_status:
  assumes "sq_sim d s"
  obtains (failed) err where "on_db (sq_set_invocation_status e i st r) d = (Inl err, d)"
      "set_invocation_status e i st r s = (Inl err, s)"
  | (changed) rec where "on_db (sq_set_invocation_status e i st r) d = (Inr rec, status_writes i st rec d)"
      "set_invocation_status e i st r s =
         (Inr rec, if is_terminal st then cc_unindex i (write_status e i st rec s) else write_status e i st rec s)"
      "sq_sim (status_writes i st rec d) (write_status e i st rec s)"
proof (cases "status_records s i")
  case None
  then show ?thesis using assms by (intro failed) (simp_all add: set_status_db set_invocation_status_def sq_sim_def)
next
  case (Some cur)
  then have st: "db_status d i = Some cur" using assms by (simp add: sq_sim_def)
  show ?thesis
  proof (cases "status_record_transition (now e) (Some cur) st r")
    case (Inl err)
    then show ?thesis using Some st by (intro failed) (simp_all add: set_status_db set_invocation_status_def)
  next
    case (Inr rec)
    have "orch_inv s" using assms by (simp add: sq_sim_def)
    then have "reachable_record cur" using Some by (auto simp: orch_inv_def owners_ok_def)
    then have "reachable_record rec" using Inr status_step.step reachable_record.stepped by blast
    moreover have stamp: "sr_status rec = st \<and> sr_timestamp rec = now e" using sm.stamps [OF Inr] .
    ultimately have "orch_inv (write_status e i st rec s)"
      using \<open>orch_inv s\<close> Some by (intro write_status_inv) auto
    then have "sq_sim (status_writes i st rec d) (write_status e i st rec s)"
      using sim_status_writes [OF assms Some] stamp by blast
    then show ?thesis using Some st Inr by (intro changed) (simp_all add: set_status_db set_invocation_status_def Let_def)
  qed
qed

lemma agree_status:
  assumes "sq_sim d s" "shared_pre (SStatus i st r) s"
  shows "agree e (SStatus i st r) d s"
  using assms(1)
proof (cases rule: sim_set_status [where e = e and i = i and st = st and r = r])
  case (failed err)
  then show ?thesis using assms by (simp add: agree_def)
next
  case (changed rec)
  have "is_terminal st \<Longrightarrow> cc_unindex i (write_status e i st rec s) = write_status e i st rec s"
    using assms(2) by (simp add: cc_unindex_def)
  then show ?thesis using assms changed by (simp add: agree_def)
qed

lemma sim_delete_cc:
  assumes "sq_sim d s"
  shows "sq_sim (delete_cc i d) (cc_unindex i s)"
proof -
  have "cc_ok (cc_index s) (cc_reverse s)" using assms by (simp add: sq_sim_def orch_inv_def)
  note idx = cc_unindex_index [OF this]
  have "same_slots (db_cc (delete_cc i d)) (cc_index (cc_unindex i s))"
    using assms by (auto simp: same_slots_def idx sq_sim_def delete_cc_def)
  moreover have "exact_index (cc_unindex i s)" using assms by (simp add: sq_sim_def exact_index_def)
  ultimately show ?thesis
    using assms cc_unindex_inv [of s i]
    by (simp add: sq_sim_def waiters_of_def) (simp add: delete_cc_def)
qed

lemma cc_unindex_twice:
  assumes "cc_ok (cc_index s) (cc_reverse s)"
  shows "cc_unindex i (cc_unindex i s) = cc_unindex i s"
  by (auto simp: cc_unindex_def split: option.splits)

lemma agree_finish:
  assumes "sq_sim d s"
  shows "agree e (SFinish i st r) d s"
  using assms
proof (cases rule: sim_set_status [where e = e and i = i and st = st and r = r])
  case (failed err)
  then show ?thesis using assms by (simp add: agree_def)
next
  case (changed rec)
  have "cc_ok (cc_index (write_status e i st rec s)) (cc_reverse (write_status e i st rec s))"
    using changed(3) by (simp add: sq_sim_def orch_inv_def)
  then have "sq_sim (delete_cc i (status_writes i st rec d))
      (cc_unindex i (if is_terminal st then cc_unindex i (write_status e i st rec s) else write_status e i st rec s))"
    using sim_delete_cc [OF changed(3)] by (simp add: cc_unindex_twice)
  then show ?thesis
    using changed by (simp add: agree_def sq_remove_from_concurrency_index_def remove_from_concurrency_index_def)
qed

lemma agree_release: "sq_sim d s \<Longrightarrow> agree e (SRelease i) d s"
  by (simp add: agree_def sq_remove_from_concurrency_index_def remove_from_concurrency_index_def sim_delete_cc)

lemma agree_get_status: "sq_sim d s \<Longrightarrow> agree e (SGetStatus i) d s"
  by (auto simp: agree_def sq_get_invocation_status_def get_invocation_status_def on_db_def sq_sim_def split: option.split)

lemma read_u32_uint: "read_u32 (Some (uint (n :: u32))) = Some n"
  using unsigned_less [of n, where ?'a = int] by (simp add: read_u32_def)

lemma agree_retries:
  assumes "sq_sim d s"
  shows "agree e (SGetRetries i) d s" "shared_pre (SRetry i) s \<Longrightarrow> agree e (SRetry i) d s"
proof -
  have r: "db_retries d i = map_option uint (retries s i)" using assms by (simp add: sq_sim_def)
  show "agree e (SGetRetries i) d s"
    using assms by (cases "retries s i")
      (simp_all add: agree_def sq_get_invocation_retries_def get_invocation_retries_def on_db_def r read_u32_uint,
       simp add: read_u32_def)
  assume pre: "shared_pre (SRetry i) s"
  let ?n = "or_else (retries s i) 0 + 1"
  have n: "(case db_retries d i of None \<Rightarrow> 1 | Some n \<Rightarrow> n + 1) = uint ?n"
  proof (cases "retries s i")
    case (Some n)
    then have "n \<noteq> - 1" using pre by simp
    then have "uint n \<noteq> 4294967295" by (auto simp: word_uint_eq_iff unsigned_minus_1_eq_mask mask_eq_exp_minus_1)
    then have "uint (n + 1) = uint n + 1"
      using unsigned_less [of n, where ?'a = int] by (simp add: uint_word_ariths)
    then show ?thesis using Some by (simp add: r)
  qed (simp add: r)
  have bump: "bump_retries i d = d\<lparr>db_retries := (db_retries d)(i \<mapsto> uint ?n)\<rparr>" by (simp only: bump_retries_def n)
  have "on_db (sq_increment_invocation_retries i) d = (Inr ?n, bump_retries i d)"
    by (simp add: sq_increment_invocation_retries_def on_db_def transaction_healthy bump read_u32_uint)
  moreover have "sq_sim (bump_retries i d) (s\<lparr>retries := (retries s)(i \<mapsto> ?n)\<rparr>)"
    using assms by (simp add: bump sq_sim_def waiters_of_def exact_index_def orch_inv_def)
  ultimately show "agree e (SRetry i) d s" by (simp add: agree_def increment_invocation_retries_def Let_def)
qed

lemma sim_insert_cc:
  assumes "sq_sim d s" "one_task i t s" "orch_inv s'"
    and "s' = s\<lparr>cc_index := ms_insert_keys (cc_triples t pairs) i (cc_index s), cc_reverse := cr\<rparr>"
  shows "sq_sim (fold (\<lambda>f. f) (map (insert_cc i (display_task_id t)) pairs) d) s'"
proof -
  let ?tk = "display_task_id t"
  have fold: "fold (\<lambda>f. f) (map (insert_cc i ?tk) ps) d0 =
      d0\<lparr>db_cc := (\<lambda>(j, p). if j = i \<and> p \<in> set ps then Some ?tk else db_cc d0 (j, p))\<rparr>" for ps d0
    by (induction ps arbitrary: d0) (auto simp: insert_cc_def fun_eq_iff)
  have sl: "same_slots (db_cc d) (cc_index s)" using assms(1) by (simp add: sq_sim_def)
  have "y = ?tk" if "db_cc d (i, p) = Some y" for p y
    using assms(2) that unfolding one_task_def by (cases p) (auto simp: same_slotsD [OF sl])
  then have "same_slots (\<lambda>(j, p). if j = i \<and> p \<in> set pairs then Some ?tk else db_cc d (j, p)) (cc_index s')"
    using sl by (force simp: same_slots_def assms(4) ms_simps cc_triples_def)
  then show ?thesis
    using assms(1,3) by (simp add: sq_sim_def fold assms(4) waiters_of_def exact_index_def)
qed

lemma agree_index:
  assumes "sq_sim d s" "shared_pre (SIndex i t a) s"
  shows "agree e (SIndex i t a) d s"
proof -
  have "orch_inv (snd (index_for_concurrency_control i t (Some a) s))"
    using orch_exec_inv [of s e "IndexCC i t (Some a)"] assms(1) by (simp add: sq_sim_def)
  moreover have "cc_triples t (cc_arg_pairs a) \<noteq> []" using arg_pairs_ok(2) by (simp add: cc_triples_def)
  moreover have "(if a \<noteq> [] then a else [([], [])]) = cc_arg_pairs a" by (simp add: cc_arg_pairs_def)
  ultimately show ?thesis
    using sim_insert_cc [OF assms(1), where i = i and t = t and pairs = "cc_arg_pairs a"] assms(2)
    by (simp add: agree_def sq_index_for_concurrency_control_def on_db_def index_for_concurrency_control_def Let_def)
qed

lemma agree_acquire:
  assumes "sq_sim d s" "shared_pre (SAcquire i t c a) s"
  shows "agree e (SAcquire i t c a) d s"
proof -
  let ?ps = "cc_arg_pairs (or_else a [])"
  have eq: "cc_groups d (display_task_id t) ?ps = slot_holders (display_task_id t) ?ps s"
    using groups_are_holders assms by (simp add: sq_sim_def)
  have int: "cc_intersection t ?ps s = Some (slot_holders (display_task_id t) ?ps s)"
    using cc_intersection_holders arg_pairs_ok(2) by blast
  let ?refused = "concurrency_control c = Unlimited \<or> cc_limit c \<le> card (slot_holders (display_task_id t) ?ps s - {i})"
  let ?s' = "s\<lparr>cc_index := ms_insert_keys (cc_triples t ?ps) i (cc_index s),
                 cc_reverse := ml_extend i (cc_triples t ?ps) (cc_reverse s)\<rparr>"
  show ?thesis
  proof (cases ?refused)
    case True
    then show ?thesis
      using assms(1)
      by (auto simp: agree_def sq_try_acquire_concurrency_slot_def on_db_def transaction_healthy eq
          try_acquire_concurrency_slot_def Let_def int)
  next
    case False
    then have mem: "try_acquire_concurrency_slot i t c a s = (Inr True, ?s')"
      by (simp add: try_acquire_concurrency_slot_def Let_def int)
    then have "orch_inv ?s'" using orch_exec_inv [of s e "AcquireSlot i t c a"] assms(1) by (simp add: sq_sim_def)
    then have "sq_sim (fold (\<lambda>f. f) (map (insert_cc i (display_task_id t)) ?ps) d) ?s'"
      using sim_insert_cc [OF assms(1)] assms(2) by simp
    then show ?thesis
      using False
      by (simp add: agree_def mem sq_try_acquire_concurrency_slot_def on_db_def transaction_healthy eq Let_def)
  qed
qed

lemma agree_check:
  assumes "sq_sim d s" "shared_pre (SCheck t c a) s"
  shows "agree e (SCheck t c a) d s"
proof -
  have rows: "same_rows (db_invocations d) (invocations s)" and dto: "dto_ok (invocations s) (status_records s)"
    using assms(1) by (simp_all add: sq_sim_def orch_inv_def)
  have act: "active_row d i = (case status_records s i of None \<Rightarrow> False | Some r \<Rightarrow> sr_status r = Pending \<or> sr_status r = Running)" for i
  proof (cases "invocations s i")
    case None
    then show ?thesis
      using dto_ok_dom [OF dto] same_rows_None [OF rows, of i] by (auto simp: active_row_def split: option.split)
  next
    case (Some x)
    then obtain row where row: "db_invocations d i = Some row" using same_rows_None [OF rows, of i] by auto
    obtain r where "status_records s i = Some r" "sr_status r = inv_status x" using dto_ok_lookup [OF dto Some] by blast
    then show ?thesis using same_rows_Some [OF rows row Some] row by (simp add: active_row_def)
  qed
  have "(\<exists>r. db_invocations d i = Some r \<and> iv_task r = display_task_id t \<and> iv_status r \<in> {Pending, Running}) =
      (i \<in> ms_get (task_invocations s) (display_task_id t) \<and> active_row d i)" for i
  proof (cases "invocations s i")
    case None
    then show ?thesis using same_rows_None [OF rows, of i] by (simp add: active_row_def)
  next
    case (Some x)
    then obtain row where row: "db_invocations d i = Some row" using same_rows_None [OF rows, of i] by auto
    have "(i \<in> ms_get (task_invocations s) (display_task_id t)) = (task_key_of x = display_task_id t)"
      using assms(1) Some by (simp add: sq_sim_def exact_index_def)
    then show ?thesis using same_rows_Some [OF rows row Some] row by (simp add: active_row_def)
  qed
  then have task: "{i. \<exists>r. db_invocations d i = Some r \<and> iv_task r = display_task_id t \<and> iv_status r \<in> {Pending, Running}} =
      {i \<in> ms_get (task_invocations s) (display_task_id t). active_row d i}" by blast
  have slots: "same_slots (db_cc d) (cc_index s)" using assms(1) by (simp add: sq_sim_def)
  show ?thesis
  proof (cases a)
    case None
    then show ?thesis
      using assms(1) task
      by (simp add: agree_def sq_check_running_concurrency_def on_db_def check_running_concurrency_def
          cc_candidates_def act)
  next
    case (Some x)
    then have "args_wf x" using assms(2) by simp
    then show ?thesis
      using assms(1)
      by (simp add: agree_def Some sq_check_running_concurrency_def on_db_def check_running_concurrency_def
          groups_are_holders [OF slots] cc_candidates_holders act)
  qed
qed

lemma agree_waiters:
  assumes "sq_sim d s" "hash_order_ok (hash_order e)"
  shows "agree e (SWait w x) d s" "agree e (SWaiters x) d s" "agree e (SReleaseWaiters x) d s"
proof -
  have ws: "waiters_of d y = ms_get (waiters s) y" for y using assms(1) by (simp add: sq_sim_def)
  have order: "hash_order e (waiters_of d x) = (case waiters s x of None \<Rightarrow> [] | Some ids \<Rightarrow> hash_order e ids)"
    using hash_order_empty [OF assms(2)] by (simp add: ws ms_get_def split: option.split)
  have "orch_inv (snd (set_waiting_for w x s))" "orch_inv (snd (release_waiters e x s))"
    using orch_exec_inv [of s e "SetWaitingFor w x"] orch_exec_inv [of s e "ReleaseWaiters x"] assms(1)
    by (simp_all add: sq_sim_def)
  moreover have "waiters_of (d\<lparr>db_waiting := insert (w, x) (db_waiting d)\<rparr>) y = ms_get (ms_insert x w (waiters s)) y" for y
    using ws [of y] by (auto simp: waiters_of_def ms_simps)
  moreover have "waiters_of (delete_waiters x d) y = ms_get ((waiters s)(x := None)) y" for y
    using ws [of y] by (auto simp: waiters_of_def ms_simps delete_waiters_def)
  ultimately show "agree e (SWait w x) d s" "agree e (SReleaseWaiters x) d s"
    using assms(1) order
    by (simp_all add: agree_def sq_set_waiting_for_def set_waiting_for_def sq_release_waiters_def release_waiters_def
        on_db_def transaction_healthy sq_sim_def exact_index_def Let_def)
      (auto simp: delete_waiters_def hash_order_empty [OF assms(2)] split: option.splits)
  show "agree e (SWaiters x) d s"
    using assms(1) order by (simp add: agree_def sq_get_waiters_def get_waiters_def)
qed

lemma requests_agree:
  assumes "sq_sim d s" "hash_order_ok (hash_order e)" "shared_pre op s"
  shows "agree e op d s"
  using assms
  by (cases op) (simp_all only: agree_register agree_status agree_finish agree_get_status agree_retries agree_check
      agree_index agree_acquire agree_release agree_waiters)

section \<open>Sequences of requests\<close>

fun mem_answers :: "(env \<times> shared_op) list \<Rightarrow> orch_state \<Rightarrow> answer list" where
  "mem_answers [] s = []"
| "mem_answers ((e, op) # ops) s = (case mem_answer e op s of (a, s') \<Rightarrow> a # mem_answers ops s')"

fun sq_answers :: "(env \<times> shared_op) list \<Rightarrow> db \<Rightarrow> answer list" where
  "sq_answers [] d = []"
| "sq_answers ((e, op) # ops) d = (case sq_answer e op d of (a, d') \<Rightarrow> a # sq_answers ops d')"

fun shared_run :: "(env \<times> shared_op) list \<Rightarrow> orch_state \<Rightarrow> bool" where
  "shared_run [] s \<longleftrightarrow> True"
| "shared_run ((e, op) # ops) s \<longleftrightarrow>
     hash_order_ok (hash_order e) \<and> shared_pre op s \<and> shared_run ops (snd (mem_answer e op s))"

lemma answers_agree:
  "sq_sim d s \<Longrightarrow> shared_run ops s \<Longrightarrow> sq_answers ops d = mem_answers ops s"
proof (induction ops arbitrary: d s)
  case (Cons x ops)
  obtain e op where x: "x = (e, op)" by force
  have "agree e op d s" using Cons.prems x by (intro requests_agree) simp_all
  then show ?case using Cons x by (auto simp: agree_def split: prod.split)
qed simp

lemma sim_initial: "sq_sim initialize_schema orch_new"
  using orch_new_inv
  by (simp add: sq_sim_def initialize_schema_def orch_new_def same_rows_def same_slots_def waiters_of_def exact_index_def
      ms_simps)

section \<open>Properties\<close>

text \<open>The case that is left out: a bare change to a final status. The row of the slot stays in the database, and
  the in-memory index forgets it.\<close>

lemma final_status_keeps_slot:
  assumes "sq_sim d s" "set_invocation_status e i st r s = (Inr rec, s')" "is_terminal st" "i \<in> ms_get (cc_index s) (tk, p)"
  shows "db_cc (snd (on_db (sq_set_invocation_status e i st r) d)) (i, p) = Some tk \<and> i \<notin> ms_get (cc_index s') (tk, p)"
proof -
  have "db_cc d (i, p) = Some tk" using same_slotsD [of "db_cc d" "cc_index s" tk p] assms(1,4) by (auto simp: sq_sim_def)
  moreover have "db_cc (snd (on_db (sq_set_invocation_status e i st r) d)) = db_cc d"
    by (simp add: set_status_db split: option.split sum.split)
  moreover have "cc_ok (cc_index (write_status e i st rec s)) (cc_reverse (write_status e i st rec s))"
    using assms(1) by (simp add: sq_sim_def orch_inv_def)
  then have "i \<notin> ms_get (cc_index (cc_unindex i (write_status e i st rec s))) (tk, p)"
    by (cases p) (simp only: cc_unindex_index, blast)
  moreover have "s' = cc_unindex i (write_status e i st rec s)"
    using assms(2,3) by (auto simp: set_invocation_status_def Let_def split: option.splits sum.splits)
  ultimately show ?thesis by simp
qed

text \<open>C19. The two orchestrators are interchangeable: from their empty states, for every sequence of
  registrations of new ids, status changes, retry counts, slot requests, slot releases and waits, the SQLite
  orchestrator and the in-memory one give the same answers, the refusals included. The SQL query that groups
  argument pairs admits exactly what the in-memory index admits. Left out (\<open>shared_pre\<close>): an invocation that holds a slot
  goes to a final status only together with the release of the slot, as the publication of a final status does it; no
  retry counter is raised past its maximum; an invocation takes the slots of one task only; argument
  lists are maps in key order, as the type of the code makes them.\<close>

theorem sqlite_agrees_with_memory:
  assumes "shared_run ops orch_new"
  shows "sq_answers ops initialize_schema = mem_answers ops orch_new"
  using answers_agree [OF sim_initial assms] .

definition ex_shared :: "(env \<times> shared_op) list" where
  "ex_shared =
     [(sorted_env 0, SRegister ''i'' (call_dto_new id id ex_task []) None),
      (sorted_env 1, SStatus ''i'' Pending (Some ''r'')), (sorted_env 2, SStatus ''i'' Pending (Some ''q''))]"

theorem sqlite_agrees_with_memory_witness:
  "\<exists>err. sq_answers ex_shared initialize_schema =
     [ARecord (Inr (status_record_new 0 Registered None)), ARecord (Inr (status_record_new 1 Pending (Some ''r''))),
      ARecord (Inl err)]"
proof -
  have "shared_run ex_shared orch_new"
    by (simp add: ex_shared_def orch_new_def machine_defs register_invocation_with_id_def Let_def set_invocation_status_def)
  from sqlite_agrees_with_memory [OF this] show ?thesis
    by (simp add: ex_shared_def orch_new_def machine_defs register_invocation_with_id_def Let_def set_invocation_status_def
        write_status_def status_record_new_def)
qed

end
