(* ===== verification/Sqlite_Requests.thy ===== *)
theory Sqlite_Requests
  imports Sqlite_Trigger Service_Spec
begin

text \<open>
  The requests that write to a SQLite database, from any number of processes. Each process has a connection
  of its own, and the engine serialises their transactions: a step of the database is one request on some
  connection whose engine may fail at any statement. What a request can leave behind is settled here once,
  for all of them: nothing, or what it does on a connection that does not fail.
\<close>

section \<open>Requests\<close>

datatype sq_request =
    QRoute str "task_id option" str f64
  | QRouteAfter str "task_id option" str f64 int
  | QReserve int "nat \<Rightarrow> nat" str "task_id option" "task_language option"
  | QBrokerPurge "task_id option"
  | QRegister str call_dto "str option"
  | QSetStatus str invocation_status "str option"
  | QIncrementRetries str
  | QRemove str
  | QOrchPurge
  | QScheduleAutoPurge str
  | QRunAutoPurge u64
  | QIndex str task_id "serialized_arguments option"
  | QAcquire str task_id task_config "serialized_arguments option"
  | QUnindex str
  | QWait str str
  | QReleaseWaiters str
  | QHeartbeat str bool
  | QServiceRun str time time
  | QBeginExecution runtime str str u32 trace_context
  | QSubmit sq_codec submission_publication
  | QChange str str publication_change bool
  | QStoreResultFor str str str
  | QStoreErrorFor str task_error str
  | QUpsert sq_codec invocation_dto call_dto
  | QStoreResult str str
  | QStoreError str task_error
  | QAddHistory invocation_history
  | QStatePurge
  | QWorkflowRun workflow_identity
  | QWorkflowData str str str
  | QAppInfo str str
  | QSubInvocation str str
  | QRunnerContext stored_runner_context
  | QStoreClientData str str
  | QPurgeClientData
  | QCondition libs trg_codec trigger_condition
  | QTrigger libs trigger_definition
  | QRemoveTriggers task_id
  | QValidCondition trg_codec valid_condition
  | QClearValid "str list"
  | QCronExecution str time "time option"
  | QClaimRun str
  | QEvent trg_codec event_record
  | QTriggerRun trg_codec trigger_run_record
  | QClaimRuns trg_codec "trigger_run_record list" "str list"
  | QTriggerPurge

definition no_answer :: "(conn \<Rightarrow> 'a result \<times> conn) \<Rightarrow> conn \<Rightarrow> unit result \<times> conn" where
  "no_answer f c = and_then (f c) (\<lambda>_ c. (Inr (), c))"

fun sq_perform :: "sq_request \<Rightarrow> env \<Rightarrow> conn \<Rightarrow> unit result \<times> conn" where
  "sq_perform (QRoute i t q p) e = sq_route_invocation_with_options i t q p"
| "sq_perform (QRouteAfter i t q p delay) e = sq_route_invocation_after e i t q p delay"
| "sq_perform (QReserve lease visit q t l) e = no_answer (reserve lease e visit q t l)"
| "sq_perform (QBrokerPurge t) e = sq_broker_purge t"
| "sq_perform (QRegister i call r) e = no_answer (sq_register_invocation_with_id e i call r)"
| "sq_perform (QSetStatus i st r) e = no_answer (sq_set_invocation_status e i st r)"
| "sq_perform (QIncrementRetries i) e = no_answer (sq_increment_invocation_retries i)"
| "sq_perform (QRemove i) e = sq_remove_invocation i"
| "sq_perform QOrchPurge e = sq_orch_purge"
| "sq_perform (QScheduleAutoPurge i) e = sq_schedule_auto_purge e i"
| "sq_perform (QRunAutoPurge age) e = no_answer (sq_run_auto_purge e age)"
| "sq_perform (QIndex i t a) e = sq_index_for_concurrency_control i t a"
| "sq_perform (QAcquire i t cfg a) e = no_answer (sq_try_acquire_concurrency_slot i t cfg a)"
| "sq_perform (QUnindex i) e = sq_remove_from_concurrency_index i"
| "sq_perform (QWait a b) e = sq_set_waiting_for a b"
| "sq_perform (QReleaseWaiters i) e = no_answer (sq_release_waiters e i)"
| "sq_perform (QHeartbeat r b) e = sq_register_heartbeat e r b"
| "sq_perform (QServiceRun r a b) e = sq_record_atomic_service_execution r a b"
| "sq_perform (QBeginExecution rt i r n tr) e = no_answer (sq_begin_execution rt i r n tr)"
| "sq_perform (QSubmit k s) e = no_answer (sq_submit k e s)"
| "sq_perform (QChange i r ch ap) e = no_answer (sq_change e i r ch ap)"
| "sq_perform (QStoreResultFor i x r) e = sq_store_result_for_runner i x r"
| "sq_perform (QStoreErrorFor i x r) e = sq_store_error_for_runner i x r"
| "sq_perform (QUpsert k dto call) e = sq_upsert_invocation k dto call"
| "sq_perform (QStoreResult i x) e = sq_store_result i x"
| "sq_perform (QStoreError i x) e = sq_store_error i x"
| "sq_perform (QAddHistory h) e = sq_add_history h"
| "sq_perform QStatePurge e = sq_state_purge"
| "sq_perform (QWorkflowRun w) e = sq_store_workflow_run w"
| "sq_perform (QWorkflowData w k v) e = sq_set_workflow_data w k v"
| "sq_perform (QAppInfo a j) e = sq_store_app_info a j"
| "sq_perform (QSubInvocation w i) e = sq_store_workflow_sub_invocation w i"
| "sq_perform (QRunnerContext x) e = sq_store_runner_context x"
| "sq_perform (QStoreClientData k v) e = sq_store_client_data k v"
| "sq_perform QPurgeClientData e = sq_purge_client_data"
| "sq_perform (QCondition l k x) e = no_answer (sq_register_condition l k x)"
| "sq_perform (QTrigger l t) e = sq_register_trigger l t"
| "sq_perform (QRemoveTriggers t) e = no_answer (sq_remove_triggers_for_task e t)"
| "sq_perform (QValidCondition k vc) e = sq_record_valid_condition k vc"
| "sq_perform (QClearValid ids) e = sq_clear_valid_conditions ids"
| "sq_perform (QCronExecution cid t x) e = no_answer (sq_store_cron_execution cid t x)"
| "sq_perform (QClaimRun r) e = no_answer (sq_claim_trigger_run e r)"
| "sq_perform (QEvent k v) e = sq_store_event k v"
| "sq_perform (QTriggerRun k r) e = sq_store_trigger_run k r"
| "sq_perform (QClaimRuns k rs ids) e = no_answer (sq_claim_trigger_runs_with_records e k rs ids)"
| "sq_perform QTriggerPurge e = sq_trigger_purge"

text \<open>The requests that are more than one transaction.\<close>

fun single_transaction :: "sq_request \<Rightarrow> bool" where
  "single_transaction (QRunAutoPurge _) = False"
| "single_transaction (QIndex _ _ _) = False"
| "single_transaction (QClearValid _) = False"
| "single_transaction QTriggerPurge = False"
| "single_transaction _ = True"

section \<open>A step of the database\<close>

text \<open>\<open>ok\<close> says which requests the processes make, and when.\<close>

inductive sq_step :: "(env \<Rightarrow> sq_request \<Rightarrow> bool) \<Rightarrow> db \<Rightarrow> db \<Rightarrow> bool" for ok where
  request: "ok e req \<Longrightarrow> sq_step ok (cn_db c) (cn_db (snd (sq_perform req e c)))"

inductive_cases sq_stepE: "sq_step ok d d'"

section \<open>Requests are atomic and faithful\<close>

lemma no_answer_db [simp]: "cn_db (snd (no_answer f c)) = cn_db (snd (f c))"
  by (cases "f c"; cases "fst (f c)") (auto simp: no_answer_def)

named_theorems atomic_intros \<open>atomic operations\<close>

lemmas atomic_base [atomic_intros] = atomic_statement atomic_transaction atomic_locked

lemma atomic_no_answer [atomic_intros]: "atomic f \<Longrightarrow> atomic (no_answer f)"
  by (auto simp: atomic_def no_answer_def and_then_def split: prod.splits sum.splits)

lemma atomic_cases [atomic_intros]:
  "atomic f \<Longrightarrow> atomic g \<Longrightarrow> atomic (\<lambda>c. if b then f c else g c)"
  "atomic f \<Longrightarrow> (\<And>x. atomic (h x)) \<Longrightarrow> atomic (\<lambda>c. case v of None \<Rightarrow> f c | Some x \<Rightarrow> h x c)"
  "(\<And>x. atomic (k x)) \<Longrightarrow> (\<And>x. atomic (h' x)) \<Longrightarrow> atomic (\<lambda>c. case w of Inl x \<Rightarrow> k x c | Inr x \<Rightarrow> h' x c)"
  by (cases b, simp_all) (cases v, simp_all, cases w, simp_all)

lemma atomic_pure [atomic_intros]: "atomic (\<lambda>c. (v, c))"
  by (simp add: atomic_def)

lemma faithful_no_answer [faithful_intros]: "faithful f \<Longrightarrow> faithful (no_answer f)"
  unfolding no_answer_def [abs_def] by (intro faithful_intros)

lemma faithful_find_status [faithful_intros]: "faithful (sq_find_status i)"
  unfolding faithful_def sq_find_status_def
  using faithfulD [OF faithful_statement(3)] by (fastforce split: prod.splits sum.splits option.splits)

lemma faithful_insert_cc_pairs [faithful_intros]: "faithful (insert_cc_pairs i t kvs)"
proof (induction kvs)
  case Nil
  then show ?case by (simp add: faithful_def)
next
  case (Cons kv kvs)
  have "insert_cc_pairs i t (kv # kvs) = (\<lambda>c. and_then
      (insert_row (\<lambda>d. db_cc d (i, fst kv, snd kv) \<noteq> None) (insert_cc i t kv) c) (\<lambda>_. insert_cc_pairs i t kvs))"
    by (simp add: fun_eq_iff)
  then show ?case using Cons by (simp only:) (intro faithful_intros)
qed

lemma faithful_publish [faithful_intros]: "faithful (publish i task route)"
  unfolding publish_def [abs_def] by (intro faithful_intros)

lemma faithful_transition [faithful_intros]: "faithful (pub_transition e i runner old status)"
  unfolding pub_transition_def [abs_def] by (intro faithful_intros)

lemma faithful_current [faithful_intros]: "faithful (pub_current i)"
  unfolding pub_current_def [abs_def] by (intro faithful_intros)

lemma faithful_recover [faithful_intros]: "faithful (pub_recover e i runner old status secs route)"
  unfolding pub_recover_def [abs_def] by (intro faithful_intros)

lemma faithful_delay [faithful_intros]:
  "faithful (\<lambda>c. case ch of PDelayedRetry _ delay \<Rightarrow> delay_delivery e i delay c | _ \<Rightarrow> (Inr (), c))"
  unfolding delay_delivery_def by (cases ch; simp; intro faithful_intros)

lemma faithful_prepare [faithful_intros]: "faithful (pub_prepare e i runner old ch)"
  unfolding pub_prepare_def [abs_def] by (cases ch; simp; intro faithful_intros)

lemma faithful_payload [faithful_intros]: "faithful (pub_payload i ch)"
  unfolding pub_payload_def [abs_def] by (cases ch; simp; intro faithful_intros)

lemma faithful_queue [faithful_intros]: "faithful (pub_queue e i ch route)"
  unfolding pub_queue_def [abs_def] by (intro faithful_intros)

lemma faithful_terminal [faithful_intros]: "faithful (pub_terminal i rec ap)"
  unfolding pub_terminal_def [abs_def] by (intro faithful_intros)

lemma faithful_submit_details [faithful_intros]: "faithful (submit_details k s r)"
  unfolding submit_details_def [abs_def] Let_def by (intro faithful_intros)

lemma faithful_submit_writes [faithful_intros]: "faithful (submit_writes k e s)"
  unfolding submit_writes_def [abs_def] Let_def by (intro faithful_intros)

lemma faithful_submit_body [faithful_intros]: "faithful (submit_body k e s)"
  unfolding submit_body_def [abs_def] Let_def by (intro faithful_intros)

lemma faithful_insert_claim [faithful_intros]: "faithful (insert_claim e r)"
  unfolding insert_claim_def by (intro faithful_intros)

lemma faithful_claim_rows [faithful_intros]: "faithful (claim_rows e k rs)"
proof (induction rs)
  case Nil
  then show ?case by (simp add: faithful_def)
next
  case (Cons r rs)
  have "claim_rows e k (r # rs) = (\<lambda>c. and_then (insert_claim e (tr_run_id r) c) (\<lambda>first c.
     and_then (query (\<lambda>d. tg_runs (db_trg d) (tr_run_id r) \<noteq> None) c) (\<lambda>recorded c.
     and_then (if first \<or> \<not> recorded then execute_all (write_trigger_run k r) c else (Inr (), c)) (\<lambda>_ c.
     and_then (claim_rows e k rs c) (\<lambda>rest c. (Inr (first # rest), c))))))"
    by (simp add: fun_eq_iff)
  then show ?case using Cons by (simp only:) (intro faithful_intros)
qed

lemma sq_broker_purge_eq:
  "sq_broker_purge task =
     locked (execute (delete_queue (\<lambda>r. case task of None \<Rightarrow> True | Some t \<Rightarrow> q_task r = Some (display_task_id t))))"
  by (cases task) (simp_all add: sq_broker_purge_def)

lemma faithful_change_body [faithful_intros]: "faithful (change_body e i runner ch ap)"
  unfolding change_body_def [abs_def] by (intro faithful_intros)

text \<open>The bodies of the requests.\<close>

lemmas request_defs =
  sq_route_invocation_with_options_def [abs_def] sq_route_invocation_after_def [abs_def] reserve_def [abs_def]
  sq_broker_purge_eq sq_register_invocation_with_id_def sq_set_invocation_status_def
  sq_increment_invocation_retries_def sq_remove_invocation_def sq_orch_purge_def sq_schedule_auto_purge_def
  sq_try_acquire_concurrency_slot_def [abs_def] sq_remove_from_concurrency_index_def sq_set_waiting_for_def
  sq_release_waiters_def sq_register_heartbeat_def sq_record_atomic_service_execution_def sq_begin_execution_def
  sq_submit_def [abs_def] sq_change_def sq_store_result_for_runner_def sq_store_error_for_runner_def write_owned_def
  sq_upsert_invocation_def sq_store_result_def sq_store_error_def sq_add_history_def sq_state_purge_def
  sq_store_workflow_run_def sq_set_workflow_data_def sq_store_app_info_def sq_store_workflow_sub_invocation_def
  sq_store_runner_context_def sq_store_client_data_def sq_purge_client_data_def sq_register_condition_def
  sq_register_trigger_def sq_remove_triggers_for_task_def sq_record_valid_condition_def sq_store_cron_execution_def
  sq_claim_trigger_run_def insert_claim_def sq_store_event_def sq_store_trigger_run_def
  sq_claim_trigger_runs_with_records_def Let_def

lemma request_atomic: "single_transaction req \<Longrightarrow> atomic (sq_perform req e)"
  by (cases req; simp; simp only: request_defs; intro atomic_intros)

lemma request_faithful: "single_transaction req \<Longrightarrow> faithful (sq_perform req e)"
  by (cases req; simp; simp only: request_defs; intro faithful_intros)

text \<open>The requests that are more than one transaction are chains of small ones.\<close>

lemma locked_execute_cases: "cn_db (snd (locked (execute f) c)) \<in> {cn_db c, f (cn_db c)}"
  by (auto simp: locked_def execute_def statement_def split: option.splits nat.splits)

lemma execute_all_prefix:
  "\<exists>n. cn_db (snd (execute_all fs c)) = fold (\<lambda>f. f) (take n fs) (cn_db c)"
proof (induction fs arbitrary: c)
  case (Cons f fs)
  show ?case
  proof (cases "execute f c")
    case (Pair r c1)
    show ?thesis
    proof (cases r)
      case (Inl err)
      then have "c1 = c" using Pair statement_fails by (auto simp: execute_def)
      then have "cn_db (snd (execute_all (f # fs) c)) = fold (\<lambda>f. f) (take 0 (f # fs)) (cn_db c)"
        using Pair Inl by simp
      then show ?thesis by blast
    next
      case (Inr u)
      then have "cn_db c1 = f (cn_db c)" using Pair faithfulD [OF faithful_statement(2)] by fastforce
      moreover obtain n where "cn_db (snd (execute_all fs c1)) = fold (\<lambda>f. f) (take n fs) (cn_db c1)"
        using Cons.IH by blast
      ultimately have "cn_db (snd (execute_all (f # fs) c)) = fold (\<lambda>f. f) (take (Suc n) (f # fs)) (cn_db c)"
        using Pair Inr by simp
      then show ?thesis by blast
    qed
  qed
qed simp

text \<open>The statements of those requests that make them one by one, outside a transaction.\<close>

fun loose_statements :: "sq_request \<Rightarrow> (db \<Rightarrow> db) list" where
  "loose_statements (QIndex i t a) =
     (case a of None \<Rightarrow> [] | Some args \<Rightarrow> map (insert_cc i (display_task_id t)) (cc_arg_pairs args))"
| "loose_statements (QClearValid ids) = map delete_valid ids"
| "loose_statements QTriggerPurge = map on_trg
     [\<lambda>g. g\<lparr>tg_run_sources := {}\<rparr>, \<lambda>g. g\<lparr>tg_run_events := {}\<rparr>, \<lambda>g. g\<lparr>tg_runs := Map.empty\<rparr>,
      \<lambda>g. g\<lparr>tg_events := Map.empty\<rparr>, \<lambda>g. g\<lparr>tg_claims := Map.empty\<rparr>, \<lambda>g. g\<lparr>tg_cron := Map.empty\<rparr>,
      \<lambda>g. g\<lparr>tg_valid := Map.empty\<rparr>, \<lambda>g. g\<lparr>tg_source_tasks := {}\<rparr>, \<lambda>g. g\<lparr>tg_condition_triggers := {}\<rparr>,
      \<lambda>g. g\<lparr>tg_triggers := Map.empty\<rparr>, \<lambda>g. g\<lparr>tg_conditions := Map.empty\<rparr>]"
| "loose_statements _ = []"

lemma loose_request:
  assumes "\<not> single_transaction req" "\<forall>age. req \<noteq> QRunAutoPurge age"
  shows "sq_perform req e c = (if loose_statements req = [] then (if \<exists>i t. req = QIndex i t None then (Inr (), c)
           else locked (execute_all []) c) else locked (execute_all (loose_statements req)) c)"
  using assms by (cases req) (auto simp: sq_index_for_concurrency_control_def sq_clear_valid_conditions_def sq_trigger_purge_def
      cc_arg_pairs_def split: option.splits)

lemma locked_all_prefix:
  "\<exists>n. cn_db (snd (locked (execute_all fs) c)) = fold (\<lambda>f. f) (take n fs) (cn_db c)"
  using execute_all_prefix [of fs c] by (auto simp: locked_def intro: exI [of _ 0])

lemma loose_prefix:
  assumes "\<not> single_transaction req" "\<forall>age. req \<noteq> QRunAutoPurge age"
  shows "\<exists>n. cn_db (snd (sq_perform req e c)) = fold (\<lambda>f. f) (take n (loose_statements req)) (cn_db c)"
  using locked_all_prefix [of "loose_statements req" c] locked_all_prefix [of "[]" c] by (simp add: loose_request [OF assms])

lemma atomic_then_total:
  assumes "atomic f" "\<And>x c. \<exists>y. fst (g x c) = Inr y"
  shows "atomic (\<lambda>c. and_then (f c) g)"
  unfolding atomic_def
proof (intro allI impI)
  fix c err c'
  assume "and_then (f c) g = (Inl err, c')"
  then show "cn_db c' = cn_db c"
    using assms(1) assms(2) by (cases "f c"; cases "fst (f c)") (auto simp: atomic_def, metis fst_conv sum.distinct(1))
qed

lemma auto_purge_atomic: "atomic (sq_perform (QRunAutoPurge age) e)"
proof -
  have "atomic (sq_run_auto_purge e age)"
    unfolding sq_run_auto_purge_def [abs_def]
    by (intro atomic_intros atomic_then_total) (auto split: prod.split)
  then show ?thesis by (simp add: atomic_no_answer)
qed

lemma loose_faithful:
  assumes "\<forall>age. req \<noteq> QRunAutoPurge age"
  shows "faithful (sq_perform req e)"
proof (cases "single_transaction req")
  case True
  then show ?thesis by (rule request_faithful)
next
  case False
  then show ?thesis using assms
    by (cases req) (auto simp: sq_index_for_concurrency_control_def [abs_def] sq_clear_valid_conditions_def sq_trigger_purge_def intro!: faithful_intros)
qed

section \<open>Properties\<close>

text \<open>C18. What a request leaves: whatever the engine does, at whichever statement it fails, with a
  poisoned mutex or without, a request that answers an error has left the database as it was, except for the three requests
  that are not one transaction in the code (indexing the concurrency arguments, clearing valid conditions, purging the
  triggers), which leave the effect of their first statements up to the failing one. And a request that
  answers a value has left exactly what it leaves on an engine that never fails, except for the automatic
  purge, which skips the invocations it could not remove.\<close>

theorem requests_are_transactions:
  "case fst (sq_perform req e c) of
     Inl err \<Rightarrow> (\<exists>n. cn_db (snd (sq_perform req e c)) = fold (\<lambda>f. f) (take n (loose_statements req)) (cn_db c)) \<and>
       (loose_statements req = [] \<longrightarrow> cn_db (snd (sq_perform req e c)) = cn_db c)
   | Inr _ \<Rightarrow> (\<forall>age. req \<noteq> QRunAutoPurge age) \<longrightarrow>
       on_db (sq_perform req e) (cn_db c) = (Inr (), cn_db (snd (sq_perform req e c)))"
proof (cases "fst (sq_perform req e c)")
  case (Inl err)
  have none: "loose_statements req = []" if "single_transaction req \<or> (\<exists>age. req = QRunAutoPurge age)"
    using that by (cases req) auto
  show ?thesis
  proof (cases "single_transaction req \<or> (\<exists>age. req = QRunAutoPurge age)")
    case True
    then have "cn_db (snd (sq_perform req e c)) = cn_db c"
      using request_atomic [of req e] auto_purge_atomic Inl unfolding atomic_def by (metis prod.collapse)
    then show ?thesis using Inl none [OF True] by simp
  next
    case False
    then have "\<exists>n. cn_db (snd (sq_perform req e c)) = fold (\<lambda>f. f) (take n (loose_statements req)) (cn_db c)"
      using loose_prefix by blast
    then show ?thesis using Inl by auto
  qed
next
  case (Inr u)
  then show ?thesis
    using faithfulD [OF loose_faithful [of req e]] by (cases "sq_perform req e c") (auto simp: on_db_def)
qed

theorem requests_are_transactions_witness:
  "cn_db (snd (sq_perform (QRemove ''i'') (sorted_env 3)
     \<lparr>cn_poisoned = False, cn_budget = Some 3, cn_db = initialize_schema\<rparr>)) = initialize_schema"
  using requests_are_transactions [of "QRemove ''i''" "sorted_env 3"
      "\<lparr>cn_poisoned = False, cn_budget = Some 3, cn_db = initialize_schema\<rparr>"]
  by (simp add: sq_remove_invocation_def locked_def transaction_def execute_def statement_def)

end
