(* ===== verification/Sqlite_Delivery.thy ===== *)
theory Sqlite_Delivery
  imports Sqlite_Requests Sqlite_Mem_Equiv
begin

text \<open>
  Delivery through a SQLite database. \<open>delivery\<close> is the part of the database that decides who runs what:
  the queue with its leases, the status records and the known submission ids. \<open>delivery_step\<close> is the abstract
  protocol on it, ten kinds of moves; every request of every process, failing or not, is a sequence of its
  moves, and the promises of the backend are invariants of the protocol.
\<close>

section \<open>The protocol\<close>

record delivery =
  dl_rows :: "queue_row list"
  dl_seq :: nat
  dl_leases :: "nat \<rightharpoonup> int"
  dl_status :: "str \<rightharpoonup> status_record"
  dl_submissions :: "str \<rightharpoonup> str"

definition delivery_of :: "db \<Rightarrow> delivery" where
  "delivery_of d =
     \<lparr>dl_rows = db_queue d, dl_seq = db_queue_seq d, dl_leases = db_reservations d, dl_status = db_status d,
      dl_submissions = db_submissions d\<rparr>"

definition available :: "invocation_status \<Rightarrow> bool" where
  "available st \<longleftrightarrow> st \<in> {Registered, Retry, Rerouted}"

definition dl_drop :: "(queue_row \<Rightarrow> bool) \<Rightarrow> delivery \<Rightarrow> delivery" where
  "dl_drop P a =
     a\<lparr>dl_rows := filter (\<lambda>r. \<not> P r) (dl_rows a),
       dl_leases := (\<lambda>k. if \<exists>r \<in> set (dl_rows a). q_id r = k \<and> P r then None else dl_leases a k)\<rparr>"

definition dl_add :: "str \<Rightarrow> str option \<Rightarrow> str \<Rightarrow> f64 \<Rightarrow> int option \<Rightarrow> delivery \<Rightarrow> delivery" where
  "dl_add i task q p lease a =
     a\<lparr>dl_rows := dl_rows a @ [\<lparr>q_id = Suc (dl_seq a), q_invocation = i, q_task = task, q_queue = q, q_priority = p\<rparr>],
       dl_seq := Suc (dl_seq a),
       dl_leases := (case lease of None \<Rightarrow> dl_leases a | Some x \<Rightarrow> (dl_leases a)(Suc (dl_seq a) \<mapsto> x))\<rparr>"

definition dl_settled :: "delivery \<Rightarrow> str \<Rightarrow> bool" where
  "dl_settled a i \<longleftrightarrow> (case dl_status a i of None \<Rightarrow> False | Some r \<Rightarrow> \<not> available (sr_status r))"

datatype delivery_label =
    Enqueue str
  | Lease int nat
  | Sweep
  | Discard
  | Move str invocation_status
  | Republish str
  | Born str
  | Submit str
  | Forget str
  | Wipe

inductive delivery_step :: "delivery \<Rightarrow> delivery_label \<Rightarrow> delivery \<Rightarrow> bool" where
  enqueue: "delivery_step a (Enqueue i) (dl_add i task q p lease a)"
| leased: "r \<in> set (dl_rows a) \<Longrightarrow> \<not> dl_settled a (q_invocation r) \<Longrightarrow>
    (\<And>x. dl_leases a (q_id r) = Some x \<Longrightarrow> x \<le> t) \<Longrightarrow>
    delivery_step a (Lease t (q_id r)) (a\<lparr>dl_leases := (dl_leases a)(q_id r \<mapsto> expires)\<rparr>)"
| swept: "(\<And>r. r \<in> set (dl_rows a) \<Longrightarrow> P r \<Longrightarrow> dl_settled a (q_invocation r)) \<Longrightarrow> delivery_step a Sweep (dl_drop P a)"
| discarded: "delivery_step a Discard (dl_drop P a)"
| moved: "dl_status a i = Some cur \<Longrightarrow> status_step cur rec \<Longrightarrow>
    delivery_step a (Move i (sr_status rec)) (a\<lparr>dl_status := (dl_status a)(i \<mapsto> rec)\<rparr>)"
| claimed: "dl_status a i = Some cur \<Longrightarrow> status_step cur rec \<Longrightarrow> \<not> available (sr_status rec) \<Longrightarrow>
    delivery_step a (Move i (sr_status rec))
      (dl_drop (\<lambda>r. q_invocation r = i) (a\<lparr>dl_status := (dl_status a)(i \<mapsto> rec)\<rparr>))"
| republished: "dl_status a i = Some cur \<Longrightarrow> status_step\<^sup>+\<^sup>+ cur rec \<Longrightarrow>
    delivery_step a (Republish i)
      (dl_add i task q p lease (dl_drop (\<lambda>r. q_invocation r = i) (a\<lparr>dl_status := (dl_status a)(i \<mapsto> rec)\<rparr>)))"
| born: "sr_status rec = Registered \<Longrightarrow> delivery_step a (Born i) (a\<lparr>dl_status := (dl_status a)(i \<mapsto> rec)\<rparr>)"
| submitted: "dl_status a i = None \<Longrightarrow> dl_submissions a i = None \<Longrightarrow> sr_status rec = Registered \<Longrightarrow>
    delivery_step a (Submit i)
      (dl_add i task q p None (dl_drop (\<lambda>r. q_invocation r = i)
         (a\<lparr>dl_status := (dl_status a)(i \<mapsto> rec), dl_submissions := (dl_submissions a)(i \<mapsto> x)\<rparr>)))"
| forgotten: "subs \<in> {dl_submissions a, (dl_submissions a)(i \<mapsto> [])} \<Longrightarrow>
    delivery_step a (Forget i)
      (dl_drop (\<lambda>r. q_invocation r = i) (a\<lparr>dl_status := (dl_status a)(i := None), dl_submissions := subs\<rparr>))"
| wiped: "(\<And>i. dl_submissions a i \<noteq> None \<Longrightarrow> subs i = Some []) \<Longrightarrow>
    delivery_step a Wipe (dl_drop (\<lambda>_. b) (a\<lparr>dl_status := Map.empty, dl_submissions := subs\<rparr>))"

inductive_cases delivery_stepE: "delivery_step a l a'"

text \<open>Sequences of moves with labels in a set.\<close>

definition dl_move :: "delivery_label set \<Rightarrow> delivery \<Rightarrow> delivery \<Rightarrow> bool" where
  "dl_move L a a' \<longleftrightarrow> (\<exists>l \<in> L. delivery_step a l a')"

text \<open>The labels of a request.\<close>

fun labels_of :: "env \<Rightarrow> sq_request \<Rightarrow> delivery_label set" where
  "labels_of e (QRoute i _ _ _) = {Enqueue i}"
| "labels_of e (QRouteAfter i _ _ _ _) = {Enqueue i}"
| "labels_of e (QReserve _ _ _ _ _) = insert Sweep (range (Lease (now_ms e)))"
| "labels_of e (QBrokerPurge _) = {Discard}"
| "labels_of e (QRegister i _ _) = {Born i}"
| "labels_of e (QSetStatus i st _) = {Move i st}"
| "labels_of e (QRemove i) = {Forget i}"
| "labels_of e QOrchPurge = {Wipe}"
| "labels_of e QStatePurge = {Wipe}"
| "labels_of e (QRunAutoPurge _) = range Forget"
| "labels_of e (QSubmit _ s) = {Submit (inv_id (sp_invocation s))}"
| "labels_of e (QChange i _ ch _) =
     (case ch of PStatus st \<Rightarrow> {Move i st} | PSuccess _ \<Rightarrow> {Move i Success} | PFailure _ \<Rightarrow> {Move i Failed}
      | _ \<Rightarrow> {Republish i})"
| "labels_of e _ = {}"

section \<open>Projections\<close>

lemma delivery_of_simps [simp]:
  "dl_rows (delivery_of d) = db_queue d" "dl_seq (delivery_of d) = db_queue_seq d"
  "dl_leases (delivery_of d) = db_reservations d" "dl_status (delivery_of d) = db_status d"
  "dl_submissions (delivery_of d) = db_submissions d"
  by (simp_all add: delivery_of_def)

lemma delivery_of_delete: "delivery_of (delete_queue P d) = dl_drop P (delivery_of d)"
  by (simp add: delivery_of_def delete_queue_def dl_drop_def cong: if_cong)

lemma delivery_of_insert: "delivery_of (insert_queue i t q p d) = dl_add i t q p None (delivery_of d)"
  by (simp add: delivery_of_def insert_queue_def dl_add_def)

lemma settled_dl: "settled d i \<longleftrightarrow> dl_settled (delivery_of d) i"
  by (simp add: settled_def dl_settled_def available_def split: option.split)

lemma delivery_of_eqI:
  "db_queue d' = db_queue d \<Longrightarrow> db_queue_seq d' = db_queue_seq d \<Longrightarrow> db_reservations d' = db_reservations d \<Longrightarrow>
   db_status d' = db_status d \<Longrightarrow> db_submissions d' = db_submissions d \<Longrightarrow> delivery_of d' = delivery_of d"
  by (simp add: delivery_of_def)

section \<open>Status changes on a connection that does not fail\<close>

definition transition_writes :: "str \<Rightarrow> str \<Rightarrow> status_record \<Rightarrow> db \<Rightarrow> db" where
  "transition_writes i runner rec d =
     (let d' = insert_history (history_entry i rec runner) (update_invocation_row i rec (update_status_row i rec d))
      in if sr_status rec = Pending \<or> is_terminal (sr_status rec) then delete_queue (\<lambda>r. q_invocation r = i) d' else d')"

lemma pub_current_Inr: "pub_current i (healthy d) = (Inr r, c) \<longleftrightarrow> db_status d i = Some r \<and> c = healthy d"
  by (auto simp: pub_current_def split: option.splits)

lemma pub_transition_Inr:
  "pub_transition e i runner old st (healthy d) = (Inr rec, c) \<longleftrightarrow>
     status_record_transition (now e) (Some old) st (Some runner) = Inr rec \<and>
     c = healthy (transition_writes i runner rec d)"
  using sm.stamps [of "now e" "Some old" st "Some runner" rec]
  by (auto simp: pub_transition_def transition_writes_def Let_def split: sum.splits)

definition payload_writes :: "str \<Rightarrow> publication_change \<Rightarrow> db \<Rightarrow> db" where
  "payload_writes i ch d =
     (case ch of
        PRetry _ \<Rightarrow> bump_retries i d
      | PDelayedRetry _ _ \<Rightarrow> bump_retries i d
      | PSuccess result \<Rightarrow> d\<lparr>db_results := (db_results d)(i \<mapsto> result)\<rparr>
      | PFailure err \<Rightarrow> d\<lparr>db_errors := (db_errors d)(i \<mapsto> err)\<rparr>
      | _ \<Rightarrow> d)"

lemma pub_payload_healthy [simp]: "pub_payload i ch (healthy d) = (Inr (), healthy (payload_writes i ch d))"
  by (simp add: pub_payload_def payload_writes_def split: publication_change.split)

definition terminal_writes :: "str \<Rightarrow> status_record \<Rightarrow> bool \<Rightarrow> db \<Rightarrow> db" where
  "terminal_writes i rec ap d =
     (if is_terminal (sr_status rec) then
        (let d' = delete_cc i (delete_waiters i d)
         in if ap then d'\<lparr>db_auto_purge := (db_auto_purge d')(i \<mapsto> sr_timestamp rec)\<rparr> else d')
      else d)"

lemma pub_terminal_healthy [simp]: "pub_terminal i rec ap (healthy d) = (Inr (), healthy (terminal_writes i rec ap d))"
  by (simp add: pub_terminal_def terminal_writes_def Let_def)

definition queue_writes :: "env \<Rightarrow> str \<Rightarrow> publication_change \<Rightarrow> publication_route \<Rightarrow> str \<Rightarrow> db \<Rightarrow> db" where
  "queue_writes e i ch r task d =
     delete_cc i ((case ch of PDelayedRetry _ delay \<Rightarrow> delay_rows e i delay | _ \<Rightarrow> id)
       (insert_queue i (Some task) (pr_queue r) (pr_priority r) (delete_queue (\<lambda>r. q_invocation r = i) d)))"

lemma pub_queue_Inr:
  "pub_queue e i ch route (healthy d) = (Inr u, c) \<longleftrightarrow>
     (case route of
        None \<Rightarrow> c = healthy d
      | Some r \<Rightarrow> validate_route r = Inr () \<and>
          (\<exists>iv. db_invocations d i = Some iv \<and> c = healthy (queue_writes e i ch r (iv_task iv) d)))"
  by (cases ch; cases route; cases "db_invocations d i")
    (auto simp: pub_queue_def publish_def queue_writes_def delay_delivery_def validate_route_def split: if_splits)

text \<open>What a change has done when it commits; \<open>mid\<close> is the record after the first of two transitions.\<close>

definition route_of :: "publication_change \<Rightarrow> publication_route option" where
  "route_of ch =
     (case ch of PRetry r \<Rightarrow> Some r | PDelayedRetry r _ \<Rightarrow> Some r | PReroute r \<Rightarrow> Some r
      | PConcurrencyReroute r \<Rightarrow> Some r | PRecover _ _ r \<Rightarrow> Some r | _ \<Rightarrow> None)"

definition first_stop :: "publication_change \<Rightarrow> invocation_status option" where
  "first_stop ch =
     (case ch of PConcurrencyReroute _ \<Rightarrow> Some ConcurrencyControlled | PRecover st _ _ \<Rightarrow> Some st | _ \<Rightarrow> None)"

lemma pub_prepare_Inr:
  assumes "pub_prepare e i runner cur ch (healthy d) = (Inr (Some (old, route)), c)"
  shows "route = route_of ch \<and>
         (case first_stop ch of
            None \<Rightarrow> old = cur \<and> c = healthy d
          | Some st \<Rightarrow> status_record_transition (now e) (Some cur) st (Some runner) = Inr old \<and>
                       c = healthy (transition_writes i runner old d))"
  using assms
  by (cases ch) (auto simp: pub_prepare_def route_of_def first_stop_def pub_recover_def panics_def and_then_Inr
      pub_transition_Inr split: if_splits option.splits)

lemma pub_prepare_None:
  assumes "pub_prepare e i runner cur ch (healthy d) = (Inr None, c)"
  shows "\<exists>st secs route. ch = PRecover st secs route"
  using assms by (cases ch) (auto simp: pub_prepare_def and_then_Inr)

lemma change_body_Inr:
  assumes "change_body e i runner ch ap (healthy d) = (Inr v, c)"
  obtains cur prepared c1 where "db_status d i = Some cur" "pub_prepare e i runner cur ch (healthy d) = (Inr prepared, c1)"
    "case prepared of
       None \<Rightarrow> v = (None, False)
     | Some (old, route) \<Rightarrow>
         (is_completion ch \<longrightarrow> sr_status old = Running \<and> sr_runner old = Some runner) \<and>
         (\<exists>rec c2 c3 c4. pub_transition e i runner old (target_status ch) c1 = (Inr rec, c2) \<and> pub_payload i ch c2 = (Inr (), c3) \<and>
            pub_queue e i ch route c3 = (Inr (), c4) \<and> pub_terminal i rec ap c4 = (Inr (), c) \<and> v = (Some rec, True))"
proof -
  obtain cur prepared c1 where st: "db_status d i = Some cur"
    and prep: "pub_prepare e i runner cur ch (healthy d) = (Inr prepared, c1)"
    and rest: "(case prepared of None \<Rightarrow> (Inr (None, False), c1)
      | Some (old, route) \<Rightarrow>
          if is_completion ch \<and> (sr_status old \<noteq> Running \<or> sr_runner old \<noteq> Some runner)
          then (Inl (OwnershipViolation i (sr_status old) (target_status ch) (or_else (sr_runner old) []) runner), c1)
          else
            and_then (pub_transition e i runner old (target_status ch) c1) (\<lambda>rec c.
            and_then (pub_payload i ch c) (\<lambda>_ c.
            and_then (pub_queue e i ch route c) (\<lambda>_ c.
            and_then (pub_terminal i rec ap c) (\<lambda>_ c. (Inr (Some rec, True), c)))))) = (Inr v, c)"
    using assms by (auto simp: change_body_def and_then_Inr pub_current_Inr)
  show thesis
    by (rule that [OF st prep]) (use rest in \<open>auto simp: and_then_Inr split: option.splits if_splits\<close>)
qed

lemma change_Inr:
  assumes "on_db (sq_change e i runner ch ap) d = (Inr answer, d')"
  obtains (not_due) st secs route where "ch = PRecover st secs route" "answer = None" "d' = d"
  | (changed) cur old rec d1 d2 where "answer = Some rec" "db_status d i = Some cur"
      "case first_stop ch of
         None \<Rightarrow> old = cur \<and> d1 = d
       | Some st \<Rightarrow> status_record_transition (now e) (Some cur) st (Some runner) = Inr old \<and>
                    d1 = transition_writes i runner old d"
      "is_completion ch \<Longrightarrow> sr_status old = Running \<and> sr_runner old = Some runner"
      "status_record_transition (now e) (Some old) (target_status ch) (Some runner) = Inr rec"
      "d2 = payload_writes i ch (transition_writes i runner rec d1)"
      "case route_of ch of
         None \<Rightarrow> d' = terminal_writes i rec ap d2
       | Some r \<Rightarrow> validate_route r = Inr () \<and> (\<exists>iv. db_invocations d2 i = Some iv \<and>
                    d' = terminal_writes i rec ap (queue_writes e i ch r (iv_task iv) d2))"
proof -
  have "on_db (transaction (change_body e i runner ch ap)) d = (Inr answer, d')"
    using assms by (simp add: sq_change_def)
  then consider c where "d' = d" "change_body e i runner ch ap (healthy d) = (Inr (answer, False), c)"
    | "change_body e i runner ch ap (healthy d) = (Inr (answer, True), healthy d')"
    unfolding on_db_transaction_Inr [OF faithful_change_body] by blast
  then show thesis
  proof cases
    case 1
    then obtain cur c1 where "pub_prepare e i runner cur ch (healthy d) = (Inr None, c1)" "answer = None"
      by (elim change_body_Inr) (auto split: option.splits)
    then show thesis using 1(1) pub_prepare_None not_due by blast
  next
    case 2
    then obtain cur old route c1 rec c2 c3 c4 where st: "db_status d i = Some cur"
      and prep: "pub_prepare e i runner cur ch (healthy d) = (Inr (Some (old, route)), c1)"
      and own: "is_completion ch \<Longrightarrow> sr_status old = Running \<and> sr_runner old = Some runner"
      and tr: "pub_transition e i runner old (target_status ch) c1 = (Inr rec, c2)"
      and pay: "pub_payload i ch c2 = (Inr (), c3)" and qu: "pub_queue e i ch route c3 = (Inr (), c4)"
      and te: "pub_terminal i rec ap c4 = (Inr (), healthy d')" and ans: "answer = Some rec"
      by (elim change_body_Inr) (auto split: option.splits)
    from pub_prepare_Inr [OF prep] obtain d1 where route: "route = route_of ch" and c1: "c1 = healthy d1"
      and d1: "case first_stop ch of None \<Rightarrow> old = cur \<and> d1 = d
         | Some st \<Rightarrow> status_record_transition (now e) (Some cur) st (Some runner) = Inr old \<and>
                      d1 = transition_writes i runner old d"
      by (auto split: option.splits)
    let ?d2 = "payload_writes i ch (transition_writes i runner rec d1)"
    have trn: "status_record_transition (now e) (Some old) (target_status ch) (Some runner) = Inr rec"
      and "c3 = healthy ?d2"
      using tr pay by (auto simp: c1 pub_transition_Inr)
    then have "case route_of ch of None \<Rightarrow> d' = terminal_writes i rec ap ?d2
       | Some r \<Rightarrow> validate_route r = Inr () \<and> (\<exists>iv. db_invocations ?d2 i = Some iv \<and>
                    d' = terminal_writes i rec ap (queue_writes e i ch r (iv_task iv) ?d2))"
      using qu te by (auto simp: pub_queue_Inr route split: option.splits)
    then show thesis using changed [OF ans st d1 own trn refl] by blast
  qed
qed

section \<open>Every request is a sequence of moves\<close>

lemma dl_drop_simps [simp]:
  "dl_status (dl_drop P a) = dl_status a" "dl_submissions (dl_drop P a) = dl_submissions a"
  "dl_seq (dl_drop P a) = dl_seq a"
  "(dl_drop P a)\<lparr>dl_status := st\<rparr> = dl_drop P (a\<lparr>dl_status := st\<rparr>)"
  "dl_drop P (dl_drop P a) = dl_drop P a" "dl_drop (\<lambda>_. False) a = a"
  by (auto simp: dl_drop_def fun_eq_iff intro!: delivery.equality)

lemma delivery_of_set_status: "db_status d i = Some cur \<Longrightarrow>
    delivery_of (update_status_row i rec d) = (delivery_of d)\<lparr>dl_status := (db_status d)(i \<mapsto> rec)\<rparr>"
  by (simp add: update_status_row_def delivery_of_def)

lemma delivery_of_frame [simp]:
  "delivery_of (update_invocation_row i rec d) = delivery_of d" "delivery_of (insert_history h d) = delivery_of d"
  "delivery_of (delete_cc i d) = delivery_of d" "delivery_of (delete_waiters i d) = delivery_of d"
  "delivery_of (bump_retries i d) = delivery_of d" "delivery_of (payload_writes i ch d) = delivery_of d"
  "delivery_of (terminal_writes i rec ap d) = delivery_of d"
  by (auto intro!: delivery_of_eqI simp: update_invocation_row_def insert_history_def delete_cc_def delete_waiters_def
      bump_retries_def payload_writes_def terminal_writes_def Let_def split: option.split publication_change.split)

abbreviation rows_of :: "str \<Rightarrow> queue_row \<Rightarrow> bool" where
  "rows_of i r \<equiv> q_invocation r = i"

lemma delivery_of_transition:
  assumes "db_status d i = Some cur"
  shows "delivery_of (transition_writes i runner rec d) =
           (let a = (delivery_of d)\<lparr>dl_status := (db_status d)(i \<mapsto> rec)\<rparr>
            in if sr_status rec = Pending \<or> is_terminal (sr_status rec) then dl_drop (rows_of i) a else a)"
  by (simp add: transition_writes_def Let_def delivery_of_delete delivery_of_set_status [OF assms])

definition lease_of :: "env \<Rightarrow> publication_change \<Rightarrow> int option" where
  "lease_of e ch = (case ch of PDelayedRetry _ delay \<Rightarrow> Some (not_before_ms e delay) | _ \<Rightarrow> None)"

lemma delivery_of_queue_writes:
  "delivery_of (queue_writes e i ch r task d) =
     dl_add i (Some task) (pr_queue r) (pr_priority r) (lease_of e ch) (dl_drop (rows_of i) (delivery_of d))"
proof -
  let ?d = "insert_queue i (Some task) (pr_queue r) (pr_priority r) (delete_queue (rows_of i) d)"
  have "delivery_of (delay_rows e i delay ?d) = dl_add i (Some task) (pr_queue r) (pr_priority r)
      (Some (not_before_ms e delay)) (dl_drop (rows_of i) (delivery_of d))" for delay
    by (auto simp: delay_rows_def insert_queue_def delete_queue_def delivery_of_def dl_add_def dl_drop_def fun_eq_iff)
  moreover have "delivery_of ?d = dl_add i (Some task) (pr_queue r) (pr_priority r) None (dl_drop (rows_of i) (delivery_of d))"
    by (simp add: delivery_of_insert delivery_of_delete)
  ultimately show ?thesis unfolding queue_writes_def lease_of_def by (cases ch) auto
qed

text \<open>A change without a route, and one with a route.\<close>

lemma change_unrouted:
  assumes "on_db (sq_change e i runner ch ap) d = (Inr (Some rec), d')" "route_of ch = None"
  obtains cur where "db_status d i = Some cur" "status_step cur rec" "sr_status rec = target_status ch"
    "delivery_of d' = delivery_of (transition_writes i runner rec d)"
  using assms(1)
proof (cases rule: change_Inr)
  case (changed cur old rec' d1 d2)
  have "first_stop ch = None" using assms(2) by (cases ch) (simp_all add: route_of_def first_stop_def)
  with changed(3) have start: "old = cur" "d1 = d" by simp_all
  then have "status_step cur rec" "sr_status rec = target_status ch"
    using changed(1,5) sm.stamps by (auto intro: status_step.step)
  then show thesis using that [OF changed(2)] changed(1,6,7) assms(2) start by simp
qed simp

lemma change_routed:
  assumes "on_db (sq_change e i runner ch ap) d = (Inr (Some rec), d')" "route_of ch = Some r"
  obtains cur task where "db_status d i = Some cur" "status_step\<^sup>+\<^sup>+ cur rec" "sr_status rec = target_status ch"
    "delivery_of d' = dl_add i (Some task) (pr_queue r) (pr_priority r) (lease_of e ch)
       (dl_drop (rows_of i) ((delivery_of d)\<lparr>dl_status := (db_status d)(i \<mapsto> rec)\<rparr>))"
    "\<exists>d1. db_retries d1 = db_retries d \<and> (\<exists>d2. d' = terminal_writes i rec ap (queue_writes e i ch r task d2) \<and>
       d2 = payload_writes i ch (transition_writes i runner rec d1))"
  using assms(1)
proof (cases rule: change_Inr)
  case (changed cur old rec' d1 d2)
  have to_rec: "status_step old rec" "sr_status rec = target_status ch"
    using changed(1,5) sm.stamps by (auto intro: status_step.step)
  have steps: "status_step\<^sup>+\<^sup>+ cur rec" and st1: "db_status d1 i = Some old"
    and d1: "dl_drop (rows_of i) ((delivery_of d1)\<lparr>dl_status := (db_status d1)(i \<mapsto> rec)\<rparr>) =
             dl_drop (rows_of i) ((delivery_of d)\<lparr>dl_status := (db_status d)(i \<mapsto> rec)\<rparr>)"
    using changed(2,3) to_rec(1) status_step.step [of "now e" cur _ "Some runner" old]
    by (auto split: option.splits simp: delivery_of_transition Let_def simp flip: delivery_of_simps(4) intro: tranclp.intros)
  have retries: "db_retries d1 = db_retries d"
    using changed(3) by (auto simp: transition_writes_def Let_def insert_history_def split: option.splits)
  have "dl_drop (rows_of i) (delivery_of d2) = dl_drop (rows_of i) ((delivery_of d1)\<lparr>dl_status := (db_status d1)(i \<mapsto> rec)\<rparr>)"
    using changed(1) by (simp add: changed(6) delivery_of_transition [OF st1] Let_def)
  moreover obtain task where d': "d' = terminal_writes i rec ap (queue_writes e i ch r task d2)"
    using changed(1,7) assms(2) by auto
  ultimately have "delivery_of d' = dl_add i (Some task) (pr_queue r) (pr_priority r) (lease_of e ch)
      (dl_drop (rows_of i) ((delivery_of d)\<lparr>dl_status := (db_status d)(i \<mapsto> rec)\<rparr>))"
    using d1 by (simp add: delivery_of_queue_writes)
  then show thesis using that [OF changed(2) steps to_rec(2)] retries d' changed(1,6) by blast
qed simp

lemma change_moves:
  assumes "on_db (sq_change e i runner ch ap) d = (Inr answer, d')"
  shows "(dl_move (labels_of e (QChange i runner ch ap)))\<^sup>*\<^sup>* (delivery_of d) (delivery_of d')"
proof (cases answer)
  case None
  show ?thesis using assms by (cases rule: change_Inr) (use None in simp_all)
next
  case (Some rec)
  note run = assms [unfolded Some]
  show ?thesis
  proof (cases "route_of ch")
    case None
    with run obtain cur where cur: "db_status d i = Some cur" "status_step cur rec" "sr_status rec = target_status ch"
      and d': "delivery_of d' = delivery_of (transition_writes i runner rec d)" by (rule change_unrouted)
    have "delivery_step (delivery_of d) (Move i (sr_status rec)) (delivery_of d')"
      using cur(1,2) delivery_step.moved [of "delivery_of d" i cur rec] delivery_step.claimed [of "delivery_of d" i cur rec]
      by (cases "sr_status rec") (simp_all add: d' delivery_of_transition Let_def is_terminal_simps available_def)
    moreover have "labels_of e (QChange i runner ch ap) = {Move i (sr_status rec)}"
      using None cur(3) by (cases ch) (simp_all add: route_of_def target_status_def)
    ultimately show ?thesis by (simp add: dl_move_def r_into_rtranclp)
  next
    case (Some r)
    with run obtain cur task where "db_status d i = Some cur" "status_step\<^sup>+\<^sup>+ cur rec"
      "delivery_of d' = dl_add i (Some task) (pr_queue r) (pr_priority r) (lease_of e ch)
         (dl_drop (rows_of i) ((delivery_of d)\<lparr>dl_status := (db_status d)(i \<mapsto> rec)\<rparr>))" by (rule change_routed)
    then have "delivery_step (delivery_of d) (Republish i) (delivery_of d')"
      using delivery_step.republished [of "delivery_of d" i cur rec] by simp
    moreover have "labels_of e (QChange i runner ch ap) = {Republish i}" using Some by (cases ch) (simp_all add: route_of_def)
    ultimately show ?thesis by (simp add: dl_move_def r_into_rtranclp)
  qed
qed

text \<open>Writes inside a request that the protocol does not see.\<close>

named_theorems unseen_intros \<open>operations without effect on delivery\<close>

definition unseen :: "(conn \<Rightarrow> 'a result \<times> conn) \<Rightarrow> bool" where
  "unseen f \<longleftrightarrow> (\<forall>d x c. f (healthy d) = (Inr x, c) \<longrightarrow> (\<exists>d'. c = healthy d' \<and> delivery_of d' = delivery_of d))"

lemma unseenD: "unseen f \<Longrightarrow> f (healthy d) = (Inr x, c) \<Longrightarrow> \<exists>d'. c = healthy d' \<and> delivery_of d' = delivery_of d"
  by (simp add: unseen_def)

lemma unseen_execute [unseen_intros]: "(\<And>d. delivery_of (f d) = delivery_of d) \<Longrightarrow> unseen (execute f)"
  by (auto simp: unseen_def)

lemma unseen_insert [unseen_intros]: "(\<And>d. delivery_of (f d) = delivery_of d) \<Longrightarrow> unseen (insert_row taken f)"
  by (auto simp: unseen_def split: if_splits)

lemma unseen_pure [unseen_intros]: "unseen (\<lambda>c. (v, c))"
  by (auto simp: unseen_def)

lemma unseen_and_then [unseen_intros]: "unseen f \<Longrightarrow> (\<And>x. unseen (g x)) \<Longrightarrow> unseen (\<lambda>c. and_then (f c) g)"
  unfolding unseen_def and_then_Inr by metis

lemma unseen_insert_cc_pairs [unseen_intros]: "unseen (insert_cc_pairs i t kvs)"
proof (induction kvs)
  case Nil
  then show ?case by (simp add: unseen_def)
next
  case (Cons kv kvs)
  have "insert_cc_pairs i t (kv # kvs) = (\<lambda>c. and_then
      (insert_row (\<lambda>d. db_cc d (i, fst kv, snd kv) \<noteq> None) (insert_cc i t kv) c) (\<lambda>_. insert_cc_pairs i t kvs))"
    by (simp add: fun_eq_iff)
  moreover have "unseen (insert_row (\<lambda>d. db_cc d (i, fst kv, snd kv) \<noteq> None) (insert_cc i t kv))"
    by (rule unseen_insert) (simp add: insert_cc_def delivery_of_def)
  ultimately show ?case using Cons by (simp only: unseen_and_then)
qed

lemma unseen_option [unseen_intros]:
  "unseen f \<Longrightarrow> (\<And>x. unseen (h x)) \<Longrightarrow> unseen (\<lambda>c. case v of None \<Rightarrow> f c | Some x \<Rightarrow> h x c)"
  by (cases v) simp_all

lemma unseen_submit_details [unseen_intros]: "unseen (submit_details k s r)"
  unfolding submit_details_def Let_def
  by (intro unseen_intros)
    (simp_all add: set_workflow_parent_def delivery_of_def insert_history_def split: option.split)

text \<open>An accepted submission.\<close>

lemma submit_writes_Inr:
  fixes s k
  defines "i \<equiv> inv_id (sp_invocation s)"
  assumes "submit_writes k e s (healthy d) = (Inr u, healthy d')"
  obtains rec task where "db_status d i = None" "sr_status rec = Registered"
    "delivery_of d' = dl_add i task (pr_queue (sp_route s)) (pr_priority (sp_route s)) None (dl_drop (rows_of i)
       ((delivery_of d)\<lparr>dl_status := (db_status d)(i \<mapsto> rec),
          dl_submissions := (db_submissions d)(i \<mapsto> submission_identity k s)\<rparr>))"
proof -
  let ?rec = "\<lparr>sr_status = Registered, sr_runner = Some (sp_runner s), sr_timestamp = now e\<rparr>"
  let ?task = "Some (display_task_id (inv_task_id (sp_invocation s)))"
  define d2 where "d2 = d\<lparr>db_invocations := (db_invocations d)(i \<mapsto> submitted_row (now e) (sp_invocation s)),
      db_status := (db_status d)(i \<mapsto> ?rec)\<rparr>"
  from assms(2) obtain c3 c4 where fresh: "db_status d i = None"
    and det: "submit_details k s ?rec (healthy d2) = (Inr (), c3)"
    and pub: "publish i (display_task_id (inv_task_id (sp_invocation s))) (sp_route s) c3 = (Inr (), c4)"
    and sub: "insert_row (\<lambda>d. db_submissions d i \<noteq> None)
             (\<lambda>d. d\<lparr>db_submissions := (db_submissions d)(i \<mapsto> submission_identity k s)\<rparr>) c4 = (Inr (), healthy d')"
    by (auto simp: submit_writes_def Let_def and_then_Inr i_def d2_def split: if_splits)
  obtain d3 where c3: "c3 = healthy d3" and d3: "delivery_of d3 = delivery_of d2"
    using unseenD [OF unseen_submit_details det] by blast
  let ?d4 = "insert_queue i ?task (pr_queue (sp_route s)) (pr_priority (sp_route s)) (delete_queue (rows_of i) d3)"
  have "c4 = healthy ?d4" using pub by (auto simp: c3 publish_def and_then_Inr)
  then have "d' = ?d4\<lparr>db_submissions := (db_submissions ?d4)(i \<mapsto> submission_identity k s)\<rparr>"
    using sub by (auto split: if_splits)
  moreover have "db_submissions d3 = db_submissions d" using arg_cong [OF d3, of dl_submissions] by (simp add: d2_def)
  ultimately have "delivery_of d' = (dl_add i ?task (pr_queue (sp_route s)) (pr_priority (sp_route s)) None
      (dl_drop (rows_of i) (delivery_of d3)))\<lparr>dl_submissions := (db_submissions d)(i \<mapsto> submission_identity k s)\<rparr>"
    by (simp add: insert_queue_def delete_queue_def dl_add_def dl_drop_def delivery_of_def cong: if_cong)
  then have "delivery_of d' = dl_add i ?task (pr_queue (sp_route s)) (pr_priority (sp_route s)) None (dl_drop (rows_of i)
       ((delivery_of d)\<lparr>dl_status := (db_status d)(i \<mapsto> ?rec),
          dl_submissions := (db_submissions d)(i \<mapsto> submission_identity k s)\<rparr>))"
    unfolding d3 by (simp add: d2_def dl_add_def dl_drop_def delivery_of_def cong: if_cong)
  then show thesis using that [OF fresh, of ?rec] by simp
qed

lemma submit_Inr:
  fixes s k
  defines "i \<equiv> inv_id (sp_invocation s)"
  assumes "on_db (sq_submit k e s) d = (Inr b, d')"
  shows "if b then db_submissions d i = None \<and> \<not> occupied i d \<and> submit_writes k e s (healthy d) = (Inr (), healthy d')
         else db_submissions d i = Some (submission_identity k s) \<and> submission_identity k s \<noteq> [] \<and> d' = d"
proof -
  have "on_db (transaction (submit_body k e s)) d = (Inr b, d')"
    using assms(2) by (simp add: on_db_def [of "sq_submit k e s"] sq_submit_def on_db_def split: sum.splits if_splits)
  then show ?thesis
    by (auto simp: on_db_transaction_Inr [OF faithful_submit_body] submit_body_def Let_def i_def and_then_Inr
        split: option.splits if_splits)
qed

lemma unseen_more [unseen_intros]:
  "unseen (query h)" "unseen panics" "unseen f \<Longrightarrow> unseen (locked f)" "unseen f \<Longrightarrow> unseen (no_answer f)"
  "unseen f \<Longrightarrow> unseen g \<Longrightarrow> unseen (\<lambda>c. if b then f c else g c)"
  by (auto simp: unseen_def panics_def no_answer_def and_then_Inr)

lemma unseen_transaction [unseen_intros]: "unseen body \<Longrightarrow> unseen (transaction body)"
  by (fastforce simp: unseen_def transaction_healthy split: prod.splits sum.splits bool.splits)

lemma unseen_execute_all [unseen_intros]:
  "(\<And>f d. f \<in> set fs \<Longrightarrow> delivery_of (f d) = delivery_of d) \<Longrightarrow> unseen (execute_all fs)"
proof -
  assume "\<And>f d. f \<in> set fs \<Longrightarrow> delivery_of (f d) = delivery_of d"
  then have "delivery_of (fold (\<lambda>f. f) fs d) = delivery_of d" for d by (induction fs arbitrary: d) simp_all
  then show ?thesis by (simp add: unseen_def)
qed

lemma unseen_sum [unseen_intros]:
  "(\<And>x. unseen (k x)) \<Longrightarrow> (\<And>x. unseen (h x)) \<Longrightarrow> unseen (\<lambda>c. case w of Inl x \<Rightarrow> k x c | Inr x \<Rightarrow> h x c)"
  by (cases w) simp_all

lemma unseen_current [unseen_intros]: "unseen (pub_current i)"
  unfolding pub_current_def by (intro unseen_intros)

lemma delivery_of_trg [simp]: "delivery_of (on_trg f d) = delivery_of d"
  by (simp add: on_trg_def delivery_of_def)

lemma trg_writes: "f \<in> set (write_trigger_run k r) \<Longrightarrow> delivery_of (f d) = delivery_of d"
  "f \<in> set (concat (map remove_trigger_rows ids)) \<Longrightarrow> delivery_of (f d) = delivery_of d"
  "f \<in> set (map delete_valid ids) \<Longrightarrow> delivery_of (f d) = delivery_of d"
  by (auto simp: write_trigger_run_def remove_trigger_rows_def delete_valid_def)

lemma unseen_statement [unseen_intros]: "(\<And>d. delivery_of (snd (f d)) = delivery_of d) \<Longrightarrow> unseen (statement f)"
  by (auto simp: unseen_def)

lemma unseen_claim_rows [unseen_intros]: "unseen (claim_rows e k rs)"
proof (induction rs)
  case Nil
  then show ?case by (simp add: unseen_def)
next
  case (Cons r rs)
  have "claim_rows e k (r # rs) = (\<lambda>c. and_then (insert_claim e (tr_run_id r) c) (\<lambda>first c.
     and_then (query (\<lambda>d. tg_runs (db_trg d) (tr_run_id r) \<noteq> None) c) (\<lambda>recorded c.
     and_then (if first \<or> \<not> recorded then execute_all (write_trigger_run k r) c else (Inr (), c)) (\<lambda>_ c.
     and_then (claim_rows e k rs c) (\<lambda>rest c. (Inr (first # rest), c))))))"
    by (simp add: fun_eq_iff)
  moreover have "unseen (insert_claim e (tr_run_id r))" unfolding insert_claim_def by (intro unseen_intros) simp
  ultimately show ?case using Cons by (simp only:) (intro unseen_intros; simp add: trg_writes)
qed

lemma quiet_request: "labels_of e req = {} \<Longrightarrow> unseen (sq_perform req e)"
  by (cases req; simp split: publication_change.splits;
      simp only: request_defs sq_index_for_concurrency_control_def [abs_def] sq_clear_valid_conditions_def sq_trigger_purge_def;
      intro unseen_intros; (erule trg_writes)?;
      auto simp: delivery_of_def on_trg_def bump_retries_def insert_cc_def delete_cc_def delete_waiters_def insert_history_def
        set_workflow_parent_def split: option.split)

section \<open>The other requests\<close>

lemma one_move: "delivery_step a l a' \<Longrightarrow> l \<in> L \<Longrightarrow> (dl_move L)\<^sup>*\<^sup>* a a'"
  by (rule r_into_rtranclp) (auto simp: dl_move_def)

lemma route_moves:
  "on_db (sq_route_invocation_with_options i t q p) d = (Inr u, d') \<Longrightarrow>
     delivery_step (delivery_of d) (Enqueue i) (delivery_of d')"
  "on_db (sq_route_invocation_after e i t q p delay) d = (Inr u, d') \<Longrightarrow>
     delivery_step (delivery_of d) (Enqueue i) (delivery_of d')"
proof -
  assume "on_db (sq_route_invocation_with_options i t q p) d = (Inr u, d')"
  then have "d' = insert_queue i (map_option display_task_id t) q p d"
    by (auto simp: on_db_def sq_route_invocation_with_options_def split: sum.splits)
  then show "delivery_step (delivery_of d) (Enqueue i) (delivery_of d')"
    by (simp add: delivery_of_insert delivery_step.enqueue)
next
  assume "on_db (sq_route_invocation_after e i t q p delay) d = (Inr u, d')"
  then have "delivery_of d' = dl_add i (map_option display_task_id t) q p (Some (not_before_ms e delay)) (delivery_of d)"
    by (auto simp: on_db_def sq_route_invocation_after_def transaction_healthy insert_queue_def set_reservation_def
        delivery_of_def dl_add_def split: sum.splits if_splits)
  then show "delivery_step (delivery_of d) (Enqueue i) (delivery_of d')"
    by (simp add: delivery_step.enqueue)
qed

text \<open>The rows of the queue have distinct ids, none of them beyond the greatest ever given, and a lease is for a row.\<close>

definition queue_wf :: "delivery \<Rightarrow> bool" where
  "queue_wf a \<longleftrightarrow>
     sorted_wrt (\<lambda>x y. q_id x < q_id y) (dl_rows a) \<and> (\<forall>r \<in> set (dl_rows a). q_id r \<le> dl_seq a) \<and>
     dom (dl_leases a) \<subseteq> q_id ` set (dl_rows a)"

lemma queue_wf_ids: "queue_wf a \<Longrightarrow> r \<in> set (dl_rows a) \<Longrightarrow> r' \<in> set (dl_rows a) \<Longrightarrow> q_id r = q_id r' \<Longrightarrow> r = r'"
  by (metis (no_types, lifting) in_set_conv_nth linorder_neqE_nat order_less_irrefl queue_wf_def sorted_wrt_nth_less)

lemma queue_wf_drop: "queue_wf a \<Longrightarrow> queue_wf (dl_drop P a)"
  by (auto simp: queue_wf_def dl_drop_def sorted_wrt_filter dom_def subset_iff split: if_splits)

lemma queue_wf_add: "queue_wf a \<Longrightarrow> queue_wf (dl_add i t q p lease a)"
  by (auto simp: queue_wf_def dl_add_def sorted_wrt_append dom_def subset_iff less_Suc_eq_le split: option.splits if_splits)

lemma queue_wf_frame [simp]: "queue_wf (a\<lparr>dl_status := st\<rparr>) = queue_wf a" "queue_wf (a\<lparr>dl_submissions := su\<rparr>) = queue_wf a"
  by (simp_all add: queue_wf_def)

lemma queue_wf_step: "delivery_step a l a' \<Longrightarrow> queue_wf a \<Longrightarrow> queue_wf a'"
  by (induction rule: delivery_step.induct) (auto intro!: queue_wf_drop queue_wf_add, auto simp: queue_wf_def)

lemma queue_wf_moves: "(dl_move L)\<^sup>*\<^sup>* a a' \<Longrightarrow> queue_wf a \<Longrightarrow> queue_wf a'"
  by (induction rule: rtranclp_induct) (auto simp: dl_move_def intro: queue_wf_step)

lemma sweep_moves:
  assumes "queue_wf (delivery_of d)"
  shows "delivery_step (delivery_of d) Sweep (delivery_of (sweep visit q d))"
  unfolding sweep_def Let_def delivery_of_delete
proof (rule delivery_step.swept)
  fix r
  assume r: "r \<in> set (dl_rows (delivery_of d))"
    "q_id r \<in> set (take 128 (sort_key visit (map q_id (filter (\<lambda>r. q_queue r = q \<and> settled d (q_invocation r)) (db_queue d)))))"
  then have "q_id r \<in> q_id ` {r \<in> set (db_queue d). q_queue r = q \<and> settled d (q_invocation r)}"
    by (auto dest!: in_set_takeD)
  then show "dl_settled (delivery_of d) (q_invocation r)"
    using queue_wf_ids [OF assms r(1)] by (auto simp: settled_dl)
qed

lemma sweep_frame [simp]: "db_status (sweep visit q d) = db_status d"
  by (simp add: sweep_def Let_def delete_queue_def)

lemma reserve_Inr:
  assumes "on_db (reserve lease e visit q task lang) d = (Inr answer, d')"
  defines "d1 \<equiv> sweep visit q d"
  shows "case answer of
           None \<Rightarrow> d' = d1 \<and> (\<forall>r \<in> set (db_queue d1). \<not> deliverable q (map_option display_task_id task)
                                (map_option language_as_str lang) (now_ms e) d1 r)
         | Some i \<Rightarrow> (\<exists>r. q_invocation r = i \<and> d' = set_reservation (q_id r) (now_ms e + lease_ms lease) d1 \<and>
             first_by_priority (filter (deliverable q (map_option display_task_id task) (map_option language_as_str lang)
                (now_ms e) d1) (db_queue d1)) = Some r)"
  using assms(1)
  by (auto simp: on_db_def reserve_def transaction_healthy d1_def [symmetric] first_by_priority_None filter_empty_conv
      split: sum.splits option.splits)

lemma first_by_priority_mem: "first_by_priority rows = Some r \<Longrightarrow> r \<in> set rows"
  by (auto simp: first_by_priority_def split: list.splits) (metis list.set_intros(1) set_sort)

lemma reserve_moves:
  assumes "on_db (reserve lease e visit q task lang) d = (Inr answer, d')" "queue_wf (delivery_of d)"
  shows "(dl_move (insert Sweep (range (Lease (now_ms e)))))\<^sup>*\<^sup>* (delivery_of d) (delivery_of d')"
proof -
  let ?L = "insert Sweep (range (Lease (now_ms e)))" and ?d1 = "sweep visit q d"
  have sw: "(dl_move ?L)\<^sup>*\<^sup>* (delivery_of d) (delivery_of ?d1)" using sweep_moves [OF assms(2)] by (auto intro: one_move)
  show ?thesis
  proof (cases answer)
    case None
    then show ?thesis using reserve_Inr [OF assms(1)] sw by simp
  next
    case (Some i)
    then obtain r where d': "d' = set_reservation (q_id r) (now_ms e + lease_ms lease) ?d1"
      and "first_by_priority (filter (deliverable q (map_option display_task_id task) (map_option language_as_str lang)
             (now_ms e) ?d1) (db_queue ?d1)) = Some r"
      using reserve_Inr [OF assms(1)] by auto
    then have "r \<in> set (db_queue ?d1)" "unleased (now_ms e) ?d1 r" "\<not> settled ?d1 (q_invocation r)"
      by (auto dest!: first_by_priority_mem simp: deliverable_def)
    then have "delivery_step (delivery_of ?d1) (Lease (now_ms e) (q_id r)) (delivery_of d')"
      using delivery_step.leased [of r "delivery_of ?d1" "now_ms e"]
      by (simp add: d' unleased_def settled_dl set_reservation_def delivery_of_def split: option.splits)
    then have "(dl_move ?L)\<^sup>*\<^sup>* (delivery_of ?d1) (delivery_of d')" by (auto intro: one_move)
    then show ?thesis using sw by simp
  qed
qed

lemma set_status_moves:
  assumes "on_db (sq_set_invocation_status e i st r) d = (Inr rec, d')"
  shows "delivery_step (delivery_of d) (Move i st) (delivery_of d')"
proof -
  obtain cur where cur: "db_status d i = Some cur" "status_record_transition (now e) (Some cur) st r = Inr rec"
    and d': "d' = status_writes i st rec d"
    using assms by (auto simp: set_status_db split: option.splits sum.splits)
  have step: "status_step cur rec" "sr_status rec = st" using cur(2) sm.stamps by (auto intro: status_step.step)
  show ?thesis
    using delivery_step.moved [of "delivery_of d" i cur rec] delivery_step.claimed [of "delivery_of d" i cur rec] cur(1) step
    by (cases "st = Pending")
      (simp_all add: d' status_writes_def Let_def delivery_of_delete delivery_of_set_status [OF cur(1)] available_def)
qed

lemma remove_db:
  "\<exists>d'. on_db (sq_remove_invocation i) d = (Inr (), d') \<and> delivery_step (delivery_of d) (Forget i) (delivery_of d')"
  using delivery_step.forgotten [of "db_submissions d" "delivery_of d" i]
    delivery_step.forgotten [of "(db_submissions d)(i \<mapsto> [])" "delivery_of d" i]
  by (cases "db_invocations d i") (simp_all add: on_db_def sq_remove_invocation_def transaction_healthy bury_def
      delete_queue_def delete_cc_def delivery_of_def dl_drop_def cong: if_cong)

lemma purge_moves:
  "on_db sq_orch_purge d = (Inr u, d') \<Longrightarrow> delivery_step (delivery_of d) Wipe (delivery_of d')"
  "on_db sq_state_purge d = (Inr u, d') \<Longrightarrow> delivery_step (delivery_of d) Wipe (delivery_of d')"
  using delivery_step.wiped [of "delivery_of d" "db_submissions (bury_all d)" False]
    delivery_step.wiped [of "delivery_of d" "db_submissions (bury_all d)" True]
  by (auto simp: on_db_def sq_orch_purge_def sq_state_purge_def transaction_healthy bury_all_def delete_queue_def
      delivery_of_def dl_drop_def cong: if_cong)

lemma on_db_no_answer: "on_db (no_answer f) d = (Inr u, d') \<Longrightarrow> \<exists>x. on_db f d = (Inr x, d')"
  by (auto simp: on_db_def no_answer_def and_then_Inr split: prod.splits)

lemma success_moves:
  assumes "on_db (sq_perform req e) d = (Inr (), d')" "single_transaction req" "queue_wf (delivery_of d)"
  shows "(dl_move (labels_of e req))\<^sup>*\<^sup>* (delivery_of d) (delivery_of d')"
proof (cases "labels_of e req = {}")
  case True
  then have "delivery_of d' = delivery_of d"
    using unseenD [OF quiet_request [OF True]] assms(1) by (fastforce simp: on_db_def split: prod.splits)
  then show ?thesis by simp
next
  case False
  then show ?thesis
  proof (cases req)
    case (QSubmit k s)
    then obtain b where b: "on_db (sq_submit k e s) d = (Inr b, d')" using assms(1) by (auto dest: on_db_no_answer)
    show ?thesis
    proof (cases b)
      case True
      then have "submit_writes k e s (healthy d) = (Inr (), healthy d')" "db_submissions d (inv_id (sp_invocation s)) = None"
        using submit_Inr [OF b] by simp_all
      then have "delivery_step (delivery_of d) (Submit (inv_id (sp_invocation s))) (delivery_of d')"
        using delivery_step.submitted [of "delivery_of d"] by (auto elim!: submit_writes_Inr)
      then show ?thesis using QSubmit by (simp add: one_move)
    next
      case False
      then show ?thesis using submit_Inr [OF b] by simp
    qed
  next
    case (QRegister i call r)
    then obtain rec where "on_db (sq_register_invocation_with_id e i call r) d = (Inr rec, d')"
      using assms(1) by (auto dest: on_db_no_answer)
    then have "sr_status rec = Registered" "delivery_of d' = (delivery_of d)\<lparr>dl_status := (db_status d)(i \<mapsto> rec)\<rparr>"
      by (auto simp: on_db_def sq_register_invocation_with_id_def Let_def transaction_healthy delivery_of_def)
    then show ?thesis using QRegister delivery_step.born [of rec "delivery_of d" i] by (simp add: one_move)
  next
    case (QBrokerPurge t)
    then show ?thesis
      using assms(1) by (auto simp: sq_broker_purge_eq delivery_of_delete intro!: one_move delivery_step.discarded)
  next
    case (QRemove i)
    then show ?thesis using assms(1) remove_db [of i d] by (auto intro: one_move)
  qed (use assms in \<open>auto dest!: on_db_no_answer dest: route_moves purge_moves set_status_moves change_moves reserve_moves intro: one_move\<close>)
qed

section \<open>Any connection\<close>

lemma atomic_moves:
  assumes "atomic f" "faithful f" "\<And>x d'. on_db f (cn_db c) = (Inr x, d') \<Longrightarrow> R (delivery_of (cn_db c)) (delivery_of d')"
    "\<And>a. R a a"
  shows "R (delivery_of (cn_db c)) (delivery_of (cn_db (snd (f c))))"
  using all_or_nothing [OF assms(1,2), of c] assms(3,4) by (metis prod.exhaust)

lemma remove_moves:
  "(dl_move (range Forget))\<^sup>*\<^sup>* (delivery_of (cn_db c)) (delivery_of (cn_db (snd (sq_remove_invocation i c))))"
proof (rule atomic_moves)
  show "atomic (sq_remove_invocation i)" "faithful (sq_remove_invocation i)"
    using request_atomic [of "QRemove i" undefined] request_faithful [of "QRemove i" undefined] by simp_all
  show "(dl_move (range Forget))\<^sup>*\<^sup>* (delivery_of (cn_db c)) (delivery_of d')"
    if "on_db (sq_remove_invocation i) (cn_db c) = (Inr x, d')" for x d'
    using that remove_db [of i "cn_db c"] by (auto intro!: one_move)
qed simp

lemma purge_all_moves:
  "(dl_move (range Forget))\<^sup>*\<^sup>* (delivery_of (cn_db c)) (delivery_of (cn_db (snd (sq_purge_all is c))))"
proof (induction "is" arbitrary: c)
  case (Cons i "is")
  have "cn_db (snd (sq_purge_all (i # is) c)) = cn_db (snd (sq_purge_all is (snd (sq_remove_invocation i c))))"
    by (simp split: prod.split sum.split)
  then show ?case using remove_moves [of c i] Cons.IH [of "snd (sq_remove_invocation i c)"] by simp
qed simp

lemma auto_purge_moves:
  "(dl_move (range Forget))\<^sup>*\<^sup>* (delivery_of (cn_db c)) (delivery_of (cn_db (snd (sq_run_auto_purge e age c))))"
proof (cases "sub_secs e (now e) (clamp_i64 age)")
  case None
  then show ?thesis by (simp add: sq_run_auto_purge_def)
next
  case (Some threshold)
  define tx where "tx = locked (transaction (\<lambda>c.
      and_then (query (\<lambda>d. select_keys e (\<lambda>_ at. at \<le> threshold) (db_auto_purge d)) c) (\<lambda>rows c.
      and_then (execute (\<lambda>d. d\<lparr>db_auto_purge := (\<lambda>i. case db_auto_purge d i of
                                None \<Rightarrow> None | Some at \<Rightarrow> if at \<le> threshold then None else Some at)\<rparr>) c) (\<lambda>_ c.
        (Inr (rows, True), c)))))"
  have "atomic tx" "faithful tx" "unseen tx"
    unfolding tx_def by (intro atomic_intros faithful_intros unseen_intros; simp add: delivery_of_def)+
  then have tx: "delivery_of (cn_db (snd (tx c))) = delivery_of (cn_db c)"
    using atomic_moves [of tx c "\<lambda>a b. b = a"] unseenD [of tx] by (fastforce simp: on_db_def split: prod.splits)
  have "sq_run_auto_purge e age c = and_then (tx c) (\<lambda>expired c. case sq_purge_all expired c of (purged, c) \<Rightarrow> (Inr purged, c))"
    by (simp add: sq_run_auto_purge_def Some tx_def)
  moreover have "cn_db (snd (and_then (tx c) (\<lambda>expired c. case sq_purge_all expired c of (purged, c) \<Rightarrow> (Inr purged, c)))) =
      (case tx c of (Inl _, c) \<Rightarrow> cn_db c | (Inr expired, c) \<Rightarrow> cn_db (snd (sq_purge_all expired c)))"
    by (simp add: and_then_def split: prod.split sum.split)
  moreover have "(dl_move (range Forget))\<^sup>*\<^sup>* (delivery_of (cn_db c)) (delivery_of
      (case tx c of (Inl _, c) \<Rightarrow> cn_db c | (Inr expired, c) \<Rightarrow> cn_db (snd (sq_purge_all expired c))))"
    using tx purge_all_moves [of "snd (tx c)"] by (cases "tx c"; cases "fst (tx c)") simp_all
  ultimately show ?thesis by simp
qed

lemma execute_all_unseen:
  assumes "\<And>f d. f \<in> set fs \<Longrightarrow> delivery_of (f d) = delivery_of d"
  shows "delivery_of (cn_db (snd (locked (execute_all fs) c))) = delivery_of (cn_db c)"
proof -
  have "delivery_of (fold (\<lambda>f. f) gs d) = delivery_of d" if "set gs \<subseteq> set fs" for gs d
    using that assms by (induction gs arbitrary: d) simp_all
  then have "delivery_of (fold (\<lambda>f. f) (take n fs) d) = delivery_of d" for n d by (simp add: set_take_subset)
  then show ?thesis using execute_all_prefix [of fs c] by (auto simp: locked_def)
qed

lemma chains_unseen:
  "delivery_of (cn_db (snd (sq_index_for_concurrency_control i t a c))) = delivery_of (cn_db c)"
  "delivery_of (cn_db (snd (sq_clear_valid_conditions ids c))) = delivery_of (cn_db c)"
  "delivery_of (cn_db (snd (sq_trigger_purge c))) = delivery_of (cn_db c)"
proof -
  have "delivery_of (cn_db (snd (locked (execute_all (map (insert_cc i tk) kvs)) c))) = delivery_of (cn_db c)" for tk kvs
    by (rule execute_all_unseen) (auto simp: insert_cc_def delivery_of_def)
  then show "delivery_of (cn_db (snd (sq_index_for_concurrency_control i t a c))) = delivery_of (cn_db c)"
    by (simp add: sq_index_for_concurrency_control_def split: option.split)
  show "delivery_of (cn_db (snd (sq_clear_valid_conditions ids c))) = delivery_of (cn_db c)"
    unfolding sq_clear_valid_conditions_def by (rule execute_all_unseen) (rule trg_writes)
  show "delivery_of (cn_db (snd (sq_trigger_purge c))) = delivery_of (cn_db c)"
    unfolding sq_trigger_purge_def by (rule execute_all_unseen) auto
qed

lemma request_moves:
  assumes "queue_wf (delivery_of (cn_db c))"
  shows "(dl_move (labels_of e req))\<^sup>*\<^sup>* (delivery_of (cn_db c)) (delivery_of (cn_db (snd (sq_perform req e c))))"
proof (cases "single_transaction req")
  case True
  show ?thesis
    by (rule atomic_moves [OF request_atomic [OF True] request_faithful [OF True]])
      (use success_moves [OF _ True assms] in auto)
next
  case False
  then show ?thesis
    by (cases req) (simp_all add: auto_purge_moves chains_unseen)
qed

definition permitted :: "(env \<Rightarrow> sq_request \<Rightarrow> bool) \<Rightarrow> delivery_label set" where
  "permitted ok = {l. \<exists>e req. ok e req \<and> l \<in> labels_of e req}"

lemma dl_move_mono: "(dl_move L)\<^sup>*\<^sup>* a a' \<Longrightarrow> L \<subseteq> L' \<Longrightarrow> (dl_move L')\<^sup>*\<^sup>* a a'"
  by (erule rtranclp_mono [THEN predicate2D, rotated]) (fastforce simp: dl_move_def)

lemma step_moves:
  assumes "sq_step ok d d'" "queue_wf (delivery_of d)"
  shows "(dl_move (permitted ok))\<^sup>*\<^sup>* (delivery_of d) (delivery_of d')"
  using assms
proof cases
  case (request e req c)
  then show ?thesis
    using request_moves [of c e req] assms(2) by (auto simp: permitted_def elim!: dl_move_mono)
qed

lemma run_moves:
  assumes "(sq_step ok)\<^sup>*\<^sup>* d d'" "queue_wf (delivery_of d)"
  shows "(dl_move (permitted ok))\<^sup>*\<^sup>* (delivery_of d) (delivery_of d') \<and> queue_wf (delivery_of d')"
  using assms
proof (induction rule: rtranclp_induct)
  case (step d' d'')
  then have "(dl_move (permitted ok))\<^sup>*\<^sup>* (delivery_of d') (delivery_of d'')" using step_moves by blast
  then show ?case using step queue_wf_moves by fastforce
qed simp

text \<open>
  Invariants of the protocol are invariants of the database: \<open>I\<close> has to hold at the start and survive every
  permitted move of a well-formed state.
\<close>

lemma run_invariant:
  assumes "(sq_step ok)\<^sup>*\<^sup>* d d'" "queue_wf (delivery_of d)" "I (delivery_of d)"
    and "\<And>a l a'. I a \<Longrightarrow> queue_wf a \<Longrightarrow> delivery_step a l a' \<Longrightarrow> l \<in> permitted ok \<Longrightarrow> I a'"
  shows "I (delivery_of d') \<and> queue_wf (delivery_of d')"
proof -
  have "(dl_move (permitted ok))\<^sup>*\<^sup>* (delivery_of d) (delivery_of d')" using run_moves [OF assms(1,2)] by simp
  then show ?thesis
    by (induction rule: rtranclp_induct) (use assms(2-4) queue_wf_step in \<open>auto simp: dl_move_def\<close>)
qed

end
