(* ===== verification/Sqlite_Props.thy ===== *)
theory Sqlite_Props
  imports Sqlite_Delivery
begin

text \<open>
  What the SQLite backend promises, whatever processes share the database and wherever their engines fail:
  deliveries are exclusive for the time of a lease, published work stays queued until it is claimed, a
  submission id is accepted once, and statuses move along the lifecycle.
\<close>

section \<open>Invariants of the protocol\<close>

lemma dl_drop_lease: "r \<in> set (dl_rows (dl_drop P a)) \<Longrightarrow> queue_wf a \<Longrightarrow>
    r \<in> set (dl_rows a) \<and> dl_leases (dl_drop P a) (q_id r) = dl_leases a (q_id r)"
  using queue_wf_ids by (fastforce simp: dl_drop_def)

lemma dl_add_rows: "dl_rows (dl_add i t q p lease a) =
    dl_rows a @ [\<lparr>q_id = Suc (dl_seq a), q_invocation = i, q_task = t, q_queue = q, q_priority = p\<rparr>]"
  by (simp add: dl_add_def)

lemma dl_add_lease: "r \<in> set (dl_rows a) \<Longrightarrow> queue_wf a \<Longrightarrow> dl_leases (dl_add i t q p lease a) (q_id r) = dl_leases a (q_id r)"
  by (fastforce simp: dl_add_def queue_wf_def split: option.split)

lemma dl_add_simps [simp]:
  "dl_status (dl_add i t q p lease a) = dl_status a" "dl_submissions (dl_add i t q p lease a) = dl_submissions a"
  by (simp_all add: dl_add_def)

text \<open>All queue rows of an invocation are leased at least until a given moment.\<close>

definition held_until :: "str \<Rightarrow> int \<Rightarrow> delivery \<Rightarrow> bool" where
  "held_until i x a \<longleftrightarrow> (\<forall>r \<in> set (dl_rows a). q_invocation r = i \<longrightarrow> (\<exists>y. dl_leases a (q_id r) = Some y \<and> x \<le> y))"

definition queues_again :: "str \<Rightarrow> delivery_label set" where
  "queues_again i = {Enqueue i, Republish i, Submit i}"

lemma lease_label: "Lease t k \<in> labels_of e req \<Longrightarrow> t = now_ms e"
  by (cases req) (auto split: publication_change.splits)

lemma held_drop: "held_until i x a \<Longrightarrow> queue_wf a \<Longrightarrow> held_until i x (dl_drop P a)"
  unfolding held_until_def using dl_drop_lease by metis

lemma held_add: "held_until i x a \<Longrightarrow> queue_wf a \<Longrightarrow> j \<noteq> i \<Longrightarrow> held_until i x (dl_add j t q p lease a)"
  by (auto simp: held_until_def dl_add_rows dl_add_lease)

lemma held_frame [simp]:
  "held_until i x (a\<lparr>dl_status := st\<rparr>) = held_until i x a" "held_until i x (a\<lparr>dl_submissions := su\<rparr>) = held_until i x a"
  by (simp_all add: held_until_def)

lemma held_step:
  assumes "delivery_step a l a'" "queue_wf a" "held_until i x a" "l \<notin> queues_again i" "\<And>t k. l = Lease t k \<Longrightarrow> t < x"
  shows "held_until i x a'"
  using assms
proof cases
  case (leased r t expires)
  then have "q_invocation r \<noteq> i" using assms(3,5) by (fastforce simp: held_until_def)
  then show ?thesis using leased assms(2,3) queue_wf_ids by (fastforce simp: held_until_def)
qed (auto simp: queues_again_def intro!: held_drop held_add queue_wf_drop)

text \<open>Every invocation that may be claimed has a row in the queue.\<close>

definition all_queued :: "delivery \<Rightarrow> bool" where
  "all_queued a \<longleftrightarrow>
     (\<forall>i rec. dl_status a i = Some rec \<and> available (sr_status rec) \<longrightarrow> (\<exists>r \<in> set (dl_rows a). q_invocation r = i))"

definition strands :: "delivery_label \<Rightarrow> bool" where
  "strands l \<longleftrightarrow> (\<exists>i. l = Born i) \<or> l = Discard \<or> (\<exists>i st. l = Move i st \<and> available st)"

lemma all_queued_step:
  assumes "delivery_step a l a'" "all_queued a" "\<not> strands l"
  shows "all_queued a'"
  using assms
proof cases
  case (swept P)
  then show ?thesis using assms(2) by (fastforce simp: all_queued_def dl_drop_def dl_settled_def)
qed (auto simp: all_queued_def strands_def dl_drop_def dl_add_def)

text \<open>Ids stay known, and buried ids stay buried.\<close>

lemma submissions_step:
  assumes "delivery_step a l a'"
  shows "dl_submissions a i = Some x \<Longrightarrow> dl_submissions a' i \<in> {Some x, Some []}"
  using assms by cases auto

text \<open>Moves that write the record of \<open>i\<close> anew or remove it; the others move it along the status machine.\<close>

definition resets :: "str \<Rightarrow> delivery_label \<Rightarrow> bool" where
  "resets i l \<longleftrightarrow> l \<in> {Born i, Forget i, Wipe}"

lemma life_moves:
  assumes "delivery_step a l a'" "\<not> resets i l" "moved_from cur (dl_status a i)"
  shows "moved_from cur (dl_status a' i)"
proof -
  have one: "moved_from cur (Some rec)" if "status_step old rec" "dl_status a i = Some old" for old rec
    using that assms(3) by (auto simp: moved_from_def intro: rtranclp.rtrancl_into_rtrancl)
  have many: "moved_from cur (Some rec)" if "status_step\<^sup>+\<^sup>+ old rec" "dl_status a i = Some old" for old rec
    using that assms(3) by (auto simp: moved_from_def dest: tranclp_into_rtranclp intro: rtranclp_trans)
  show ?thesis
    using assms by cases (auto simp: resets_def dl_add_def dl_drop_def moved_from_def [of _ None] intro: one many)
qed

section \<open>Polls and submissions on any connection\<close>

lemma reserve_transaction: "atomic (reserve lease e visit q task lang)" "faithful (reserve lease e visit q task lang)"
  unfolding reserve_def [abs_def] by (intro atomic_intros faithful_intros)+

lemma submit_transaction: "atomic (sq_submit k e s)" "faithful (sq_submit k e s)"
  unfolding sq_submit_def [abs_def] by (intro atomic_intros faithful_intros)+

lemma answered:
  assumes "faithful f" "fst (f c) = Inr x"
  shows "on_db f (cn_db c) = (Inr x, cn_db (snd (f c)))"
proof -
  obtain c' where "f c = (Inr x, c')" using assms(2) by (metis prod.collapse)
  then show ?thesis using faithfulD [OF assms(1)] by (simp add: on_db_def)
qed

lemma sweep_delivery: "queue_wf (delivery_of d) \<Longrightarrow> queue_wf (delivery_of (sweep visit q d))"
  by (simp add: sweep_def Let_def delivery_of_delete queue_wf_drop)

lemma sweep_keeps:
  assumes "queue_wf (delivery_of d)"
  shows "r \<in> set (db_queue (sweep visit q' d)) \<and> deliverable q task lang t (sweep visit q' d) r \<longleftrightarrow>
         r \<in> set (db_queue d) \<and> deliverable q task lang t d r"
proof -
  from sweep_moves [OF assms] obtain P where P: "\<And>r. r \<in> set (db_queue d) \<Longrightarrow> P r \<Longrightarrow> dl_settled (delivery_of d) (q_invocation r)"
    and sw: "delivery_of (sweep visit q' d) = dl_drop P (delivery_of d)"
    by cases auto
  have eqs: "db_queue (sweep visit q' d) = filter (\<lambda>r. \<not> P r) (db_queue d)"
    "db_reservations (sweep visit q' d) = dl_leases (dl_drop P (delivery_of d))"
    using arg_cong [OF sw, of dl_rows] arg_cong [OF sw, of dl_leases] by (simp_all add: dl_drop_def)
  have "settled (sweep visit q' d) i = settled d i" for i by (simp add: settled_def)
  moreover have "unleased t (sweep visit q' d) r = unleased t d r" if "r \<in> set (db_queue d)" "\<not> P r"
    using that dl_drop_lease [OF _ assms, of r P] by (simp add: unleased_def eqs) (simp add: dl_drop_def)
  ultimately show ?thesis using P by (auto simp: deliverable_def eqs settled_dl)
qed

lemma poll_row:
  assumes "on_db (reserve lease e visit q task lang) d = (Inr (Some i), d')" "queue_wf (delivery_of d)"
  obtains r where "r \<in> set (db_queue d)" "q_invocation r = i"
    "deliverable q (map_option display_task_id task) (map_option language_as_str lang) (now_ms e) d r"
    "d' = set_reservation (q_id r) (now_ms e + lease_ms lease) (sweep visit q d)"
    "\<And>x. x \<in> set (db_queue d) \<Longrightarrow>
       deliverable q (map_option display_task_id task) (map_option language_as_str lang) (now_ms e) d x \<Longrightarrow>
       f64_rank (q_priority x) < f64_rank (q_priority r) \<or>
       (f64_rank (q_priority x) = f64_rank (q_priority r) \<and> q_id r \<le> q_id x)"
proof -
  let ?P = "deliverable q (map_option display_task_id task) (map_option language_as_str lang) (now_ms e)"
  let ?rows = "filter (?P (sweep visit q d)) (db_queue (sweep visit q d))"
  obtain r where r: "q_invocation r = i" "d' = set_reservation (q_id r) (now_ms e + lease_ms lease) (sweep visit q d)"
    and first: "first_by_priority ?rows = Some r"
    using reserve_Inr [OF assms(1)] by auto
  have "sorted_wrt (\<lambda>x y. q_id x < q_id y) ?rows"
    using sweep_delivery [OF assms(2)] by (simp add: queue_wf_def sorted_wrt_filter)
  note best = first_by_priority_Some [OF first this]
  have mem: "x \<in> set ?rows \<longleftrightarrow> x \<in> set (db_queue d) \<and> ?P d x" for x using sweep_keeps [OF assms(2), of x] by auto
  show thesis by (rule that [of r]) (use r best mem in auto)
qed

lemma settled_held:
  assumes "held_until i x (delivery_of d)" "queue_wf (delivery_of d)" "now_ms e < x"
  shows "fst (on_db (reserve lease e visit q task lang) d) \<noteq> Inr (Some i)"
proof
  assume "fst (on_db (reserve lease e visit q task lang) d) = Inr (Some i)"
  then obtain d' where "on_db (reserve lease e visit q task lang) d = (Inr (Some i), d')" by (metis prod.collapse)
  then obtain r where "r \<in> set (db_queue d)" "q_invocation r = i" "unleased (now_ms e) d r"
    using poll_row [OF _ assms(2)] by (metis deliverable_def)
  then show False using assms(1,3) by (fastforce simp: held_until_def unleased_def)
qed

section \<open>Examples\<close>

lemma empty_wf: "queue_wf (delivery_of initialize_schema)"
  by (simp add: queue_wf_def initialize_schema_def)

definition ex_codec :: sq_codec where
  "ex_codec = \<lparr>sc_identity = (\<lambda>_. ''identity''), sc_args = (\<lambda>_. ''{}''), sc_parse_args = (\<lambda>_. Some [])\<rparr>"

definition ex_submission :: submission_publication where
  "ex_submission = \<lparr>sp_invocation = invocation_dto_new 0 ''i'' ex_task (cd_call_id ex_call), sp_call = ex_call,
     sp_runner = ''r'', sp_runner_context = None, sp_workflow_root = False, sp_cc_arguments = None,
     sp_route = \<lparr>pr_queue = DEFAULT_QUEUE, pr_priority = 0\<rparr>\<rparr>"

definition ex_submitted :: db where
  "ex_submitted = snd (on_db (sq_submit ex_codec (sorted_env 0) ex_submission) initialize_schema)"

lemma ex_submit: "on_db (sq_submit ex_codec (sorted_env 0) ex_submission) initialize_schema = (Inr True, ex_submitted)"
proof -
  have "fst (on_db (sq_submit ex_codec (sorted_env 0) ex_submission) initialize_schema) = Inr True"
    by (simp add: on_db_def sq_submit_def ex_submission_def validate_route_def submit_body_def submit_writes_def submit_details_def
        transaction_healthy initialize_schema_def occupied_def ex_codec_def invocation_dto_new_def ex_call_def call_dto_new_def
        insert_history_def set_workflow_parent_def publish_def delete_queue_def insert_queue_def f64_is_finite_def f64_magnitude_def f64_inf_magnitude_def Let_def)
  then show ?thesis unfolding ex_submitted_def by (metis prod.collapse)
qed

lemma ex_delivery:
  obtains rec task where "db_status ex_submitted = [''i'' \<mapsto> rec]" "sr_status rec = Registered" "db_reservations ex_submitted = Map.empty"
    "db_queue ex_submitted = [\<lparr>q_id = 1, q_invocation = ''i'', q_task = task, q_queue = DEFAULT_QUEUE, q_priority = 0\<rparr>]"
    "db_submissions ex_submitted ''i'' = Some ''identity''" "db_queue_seq ex_submitted = 1"
proof -
  have id: "inv_id (sp_invocation ex_submission) = ''i''" by (simp add: ex_submission_def invocation_dto_new_def)
  have ex_route: "sp_route ex_submission = \<lparr>pr_queue = DEFAULT_QUEUE, pr_priority = 0\<rparr>" by (simp add: ex_submission_def)
  have init: "db_status initialize_schema = Map.empty" "db_submissions initialize_schema = Map.empty"
    by (simp_all add: initialize_schema_def)
  have "submit_writes ex_codec (sorted_env 0) ex_submission (healthy initialize_schema) = (Inr (), healthy ex_submitted)"
    using submit_Inr [OF ex_submit] by simp
  then obtain rec task where rec: "sr_status rec = Registered"
    and del: "delivery_of ex_submitted = dl_add ''i'' task DEFAULT_QUEUE 0 None (dl_drop (rows_of ''i'')
       ((delivery_of initialize_schema)\<lparr>dl_status := [''i'' \<mapsto> rec], dl_submissions := [''i'' \<mapsto> ''identity'']\<rparr>))"
    by (elim submit_writes_Inr) (simp add: id init submission_identity_def ex_route, simp add: ex_codec_def)
  show thesis
    by (rule that [of rec task]) (use rec arg_cong [OF del, of dl_status] arg_cong [OF del, of dl_rows] arg_cong [OF del, of dl_leases]
        arg_cong [OF del, of dl_submissions] arg_cong [OF del, of dl_seq] in \<open>auto simp: dl_add_def dl_drop_def initialize_schema_def fun_eq_iff\<close>)
qed

lemma ex_wf: "queue_wf (delivery_of ex_submitted)"
  by (rule ex_delivery) (simp add: queue_wf_def)

section \<open>Properties\<close>

lemma run_life:
  assumes "(sq_step ok)\<^sup>*\<^sup>* d d'" "queue_wf (delivery_of d)" "\<forall>l \<in> permitted ok. \<not> resets i l" "db_status d i = Some cur"
  shows "\<exists>rec. db_status d' i = Some rec \<and> status_step\<^sup>*\<^sup>* cur rec"
proof -
  have "moved_from cur (dl_status (delivery_of d) i)" using assms(4) by (simp add: moved_from_def)
  then have "moved_from cur (dl_status (delivery_of d') i) \<and> queue_wf (delivery_of d')"
    by (rule run_invariant [OF assms(1,2)]) (use assms(3) in \<open>auto intro: life_moves\<close>)
  then show ?thesis by (simp add: moved_from_def)
qed

text \<open>C12. The backend implements the delivery protocol and the status machine: whatever requests any processes
  make, each on a connection of its own that may fail at any statement, the queue, the leases, the status
  records and the known submission ids change only by moves of the protocol, and only by the moves those
  requests stand for; queue ids stay distinct and increasing, a lease is always for a row of the queue, and
  when none of the requests registers an invocation anew or removes it, its status record stays and moves along edges of
  the status machine under the ownership rules.\<close>

theorem sqlite_refines_delivery:
  assumes "(sq_step ok)\<^sup>*\<^sup>* d d'" "queue_wf (delivery_of d)"
  shows "(dl_move (permitted ok))\<^sup>*\<^sup>* (delivery_of d) (delivery_of d') \<and> queue_wf (delivery_of d') \<and>
         (\<forall>i cur. db_status d i = Some cur \<and> (\<forall>l \<in> permitted ok. \<not> resets i l) \<longrightarrow>
            (\<exists>rec. db_status d' i = Some rec \<and> status_step\<^sup>*\<^sup>* cur rec))"
  using run_moves [OF assms] run_life [OF assms] by simp

theorem sqlite_refines_delivery_witness:
  "queue_wf (delivery_of (cn_db (snd (sq_perform (QSubmit ex_codec ex_submission) (sorted_env 0)
     \<lparr>cn_poisoned = False, cn_budget = Some 7, cn_db = initialize_schema\<rparr>))))"
  using sqlite_refines_delivery [OF r_into_rtranclp [where r = "sq_step (\<lambda>_ _. True)", OF sq_step.request [where ok = "\<lambda>_ _. True" and e = "sorted_env 0"
      and req = "QSubmit ex_codec ex_submission" and c = "\<lparr>cn_poisoned = False, cn_budget = Some 7, cn_db = initialize_schema\<rparr>"]]]
    empty_wf by simp

text \<open>C13. A delivery is exclusive until its lease runs out: after a poll has answered an invocation that had
  one row in the queue, no poll on any connection answers it again before the lease expires, whatever
  requests run in between, as long as nobody queues the invocation anew.\<close>

theorem deliveries_are_exclusive:
  assumes "queue_wf (delivery_of d0)"
    and "on_db (reserve lease e0 visit q task lang) d0 = (Inr (Some i), d)"
    and "\<And>r r'. r \<in> set (db_queue d0) \<Longrightarrow> r' \<in> set (db_queue d0) \<Longrightarrow> q_invocation r = i \<Longrightarrow> q_invocation r' = i \<Longrightarrow> r = r'"
    and "(sq_step (\<lambda>e req. now_ms e < now_ms e0 + lease_ms lease \<and> labels_of e req \<inter> queues_again i = {}))\<^sup>*\<^sup>* d (cn_db c)"
    and "now_ms e < now_ms e0 + lease_ms lease"
  shows "fst (reserve lease' e visit' q' task' lang' c) \<noteq> Inr (Some i)"
proof
  assume again: "fst (reserve lease' e visit' q' task' lang' c) = Inr (Some i)"
  let ?x = "now_ms e0 + lease_ms lease"
  obtain r where r: "r \<in> set (db_queue d0)" "q_invocation r = i" "d = set_reservation (q_id r) ?x (sweep visit q d0)"
    using poll_row [OF assms(2,1)] by metis
  have wfd: "queue_wf (delivery_of d)"
    using reserve_moves [OF assms(2,1)] assms(1) by (rule queue_wf_moves)
  have "set (db_queue d) \<subseteq> set (db_queue d0)" by (auto simp: r(3) set_reservation_def sweep_def Let_def delete_queue_def)
  then have "held_until i ?x (delivery_of d)"
    using assms(3) r by (auto simp: held_until_def set_reservation_def)
  moreover have "held_until i ?x a'" if "held_until i ?x a" "queue_wf a" "delivery_step a l a'"
      "l \<in> permitted (\<lambda>e req. now_ms e < ?x \<and> labels_of e req \<inter> queues_again i = {})" for a l a'
    using that(4) lease_label by (intro held_step [OF that(3,2,1)]) (fastforce simp: permitted_def)+
  ultimately have "held_until i ?x (delivery_of (cn_db c)) \<and> queue_wf (delivery_of (cn_db c))"
    by (rule run_invariant [OF assms(4) wfd])
  then show False
    using settled_held [of i ?x "cn_db c" e lease' visit' q' task' lang'] assms(5)
      answered [OF reserve_transaction(2) again] by simp
qed

lemma ex_poll:
  obtains d where "on_db (reserve (3000 * 1000000) (sorted_env 0) id DEFAULT_QUEUE None None) ex_submitted = (Inr (Some ''i''), d)"
proof (rule ex_delivery)
  fix rec task
  assume d: "db_status ex_submitted = [''i'' \<mapsto> rec]" "sr_status rec = Registered" "db_reservations ex_submitted = Map.empty"
    "db_queue ex_submitted = [\<lparr>q_id = 1, q_invocation = ''i'', q_task = task, q_queue = DEFAULT_QUEUE, q_priority = 0\<rparr>]"
  let ?e = "sorted_env 0"
  have "sweep id DEFAULT_QUEUE ex_submitted = ex_submitted"
    by (simp add: sweep_def d settled_def delete_queue_def flip: d(3))
  then have "fst (on_db (reserve (3000 * 1000000) ?e id DEFAULT_QUEUE None None) ex_submitted) = Inr (Some ''i'')"
    by (simp add: on_db_def reserve_def validate_routing_zero default_queue_ok transaction_healthy first_by_priority_def
        deliverable_def task_matches_def language_matches_def unleased_def settled_def d)
  then show thesis using that by (metis prod.collapse)
qed

theorem deliveries_are_exclusive_witness:
  "\<exists>d. on_db (reserve (3000 * 1000000) (sorted_env 0) id DEFAULT_QUEUE None None) ex_submitted = (Inr (Some ''i''), d) \<and>
     fst (reserve (3000 * 1000000) (sorted_env 2000000000) id DEFAULT_QUEUE None None (healthy d)) \<noteq> Inr (Some ''i'')"
proof (rule ex_poll)
  fix d
  assume poll: "on_db (reserve (3000 * 1000000) (sorted_env 0) id DEFAULT_QUEUE None None) ex_submitted = (Inr (Some ''i''), d)"
  have "r = r'" if "r \<in> set (db_queue ex_submitted)" "r' \<in> set (db_queue ex_submitted)" for r r'
    by (rule ex_delivery) (use that in simp)
  then show ?thesis
    using poll deliveries_are_exclusive [OF ex_wf poll, of "healthy d" "sorted_env 2000000000"]
    by (auto simp: now_ms_def lease_ms_def)
qed

text \<open>Published work is never lost: from an empty database, whatever processes do and wherever they fail,
  every invocation in a status that may be claimed has a row in the queue. This is the promise of the
  transactional path (submissions, status changes, polls, removals); registrations without a
  submission, status changes into a claimable status without a route, and purges of the queue are the
  requests that do not make it.\<close>

lemma safe_requests_keep_queued:
  assumes "(sq_step (\<lambda>e req. \<forall>l \<in> labels_of e req. \<not> strands l))\<^sup>*\<^sup>* initialize_schema d"
    and "db_status d i = Some rec" "sr_status rec \<in> {Registered, Retry, Rerouted}"
  shows "\<exists>r \<in> set (db_queue d). q_invocation r = i \<and> \<not> settled d i"
proof -
  have "all_queued (delivery_of initialize_schema)" by (simp add: all_queued_def initialize_schema_def)
  then have "all_queued (delivery_of d) \<and> queue_wf (delivery_of d)"
    by (rule run_invariant [OF assms(1) empty_wf]) (auto simp: permitted_def intro: all_queued_step)
  then show ?thesis using assms(2,3) by (auto simp: all_queued_def available_def settled_def)
qed

lemma sweep_keeps_others:
  assumes "queue_wf (delivery_of d)"
  shows "\<forall>x \<in> set (db_queue (sweep visit q d)). db_reservations (sweep visit q d) (q_id x) = db_reservations d (q_id x)"
    "set (db_queue (sweep visit q d)) \<subseteq> set (db_queue d)"
    "\<forall>x \<in> set (db_queue d) - set (db_queue (sweep visit q d)). settled d (q_invocation x)"
proof -
  from sweep_moves [OF assms] obtain P where P: "\<And>r. r \<in> set (db_queue d) \<Longrightarrow> P r \<Longrightarrow> dl_settled (delivery_of d) (q_invocation r)"
    and sw: "delivery_of (sweep visit q d) = dl_drop P (delivery_of d)"
    by cases auto
  have eqs: "db_queue (sweep visit q d) = filter (\<lambda>r. \<not> P r) (db_queue d)"
    "db_reservations (sweep visit q d) = dl_leases (dl_drop P (delivery_of d))"
    using arg_cong [OF sw, of dl_rows] arg_cong [OF sw, of dl_leases] by (simp_all add: dl_drop_def)
  show "\<forall>x \<in> set (db_queue (sweep visit q d)). db_reservations (sweep visit q d) (q_id x) = db_reservations d (q_id x)"
    using dl_drop_lease [OF _ assms, of _ P] arg_cong [OF sw, of dl_rows] by (simp add: eqs(2))
  show "set (db_queue (sweep visit q d)) \<subseteq> set (db_queue d)"
    "\<forall>x \<in> set (db_queue d) - set (db_queue (sweep visit q d)). settled d (q_invocation x)"
    using P by (auto simp: eqs settled_dl)
qed

text \<open>C20. What a poll answers: on an engine that does not fail, a poll of a valid queue answers nothing only
  if no row of that queue, task and language is free and unsettled; otherwise it answers such a row
  of the greatest priority, the oldest of those, and leases that row until now plus the lease. It leases no other row:
  every other row keeps the lease it had, or none. It removes only rows of settled invocations.\<close>

theorem poll_answers_first_free_row:
  assumes "queue_wf (delivery_of d)" "queue_name_ok q"
    and "on_db (reserve lease e visit q task lang) d = (answer, d')"
  defines "free \<equiv> \<lambda>r. r \<in> set (db_queue d) \<and>
     deliverable q (map_option display_task_id task) (map_option language_as_str lang) (now_ms e) d r"
  shows "case answer of
           Inl _ \<Rightarrow> False
         | Inr None \<Rightarrow> (\<forall>r. \<not> free r) \<and> (\<forall>x \<in> set (db_queue d'). db_reservations d' (q_id x) = db_reservations d (q_id x)) \<and>
             set (db_queue d') \<subseteq> set (db_queue d) \<and> (\<forall>x \<in> set (db_queue d) - set (db_queue d'). settled d (q_invocation x))
         | Inr (Some i) \<Rightarrow> (\<exists>r. free r \<and> q_invocation r = i \<and>
             db_reservations d' (q_id r) = Some (now_ms e + lease_ms lease) \<and>
             (\<forall>x \<in> set (db_queue d'). x \<noteq> r \<longrightarrow> db_reservations d' (q_id x) = db_reservations d (q_id x)) \<and>
             set (db_queue d') \<subseteq> set (db_queue d) \<and> (\<forall>x \<in> set (db_queue d) - set (db_queue d'). settled d (q_invocation x)) \<and>
             (\<forall>x. free x \<longrightarrow> f64_rank (q_priority x) < f64_rank (q_priority r) \<or>
                (f64_rank (q_priority x) = f64_rank (q_priority r) \<and> q_id r \<le> q_id x)))"
proof -
  obtain found where ok: "answer = Inr found"
    using assms(2,3) by (auto simp: on_db_def reserve_def validate_routing_zero transaction_healthy split: option.splits)
  show ?thesis
  proof (cases found)
    case None
    then show ?thesis
      using reserve_Inr [OF assms(3) [unfolded ok]] sweep_keeps [OF assms(1), of _ visit q q] ok sweep_keeps_others [OF assms(1), of visit q]
      by (simp add: free_def) blast
  next
    case (Some i)
    from poll_row [OF assms(3) [unfolded ok Some] assms(1)] obtain r where "free r" "q_invocation r = i"
      "d' = set_reservation (q_id r) (now_ms e + lease_ms lease) (sweep visit q d)"
      "\<And>x. free x \<Longrightarrow> f64_rank (q_priority x) < f64_rank (q_priority r) \<or>
         (f64_rank (q_priority x) = f64_rank (q_priority r) \<and> q_id r \<le> q_id x)"
      unfolding free_def by metis
    moreover have "q_id x \<noteq> q_id r" if "x \<in> set (db_queue (sweep visit q d))" "x \<noteq> r" for x
      using that \<open>free r\<close> sweep_keeps_others(2) [OF assms(1), of visit q] queue_wf_ids [OF assms(1)] unfolding free_def delivery_of_simps by blast
    ultimately show ?thesis
      using ok Some sweep_keeps_others [OF assms(1), of visit q] by (simp add: set_reservation_def) blast
  qed
qed

theorem poll_answers_first_free_row_witness:
  "\<exists>d. on_db (reserve (3000 * 1000000) (sorted_env 0) id DEFAULT_QUEUE None None) ex_submitted = (Inr (Some ''i''), d) \<and>
     (\<exists>r \<in> set (db_queue ex_submitted). q_invocation r = ''i'' \<and> db_reservations d (q_id r) = Some 3000)"
proof (rule ex_poll)
  fix d
  assume poll: "on_db (reserve (3000 * 1000000) (sorted_env 0) id DEFAULT_QUEUE None None) ex_submitted = (Inr (Some ''i''), d)"
  from poll_answers_first_free_row [OF ex_wf default_queue_ok poll] poll show ?thesis
    by (auto simp: now_ms_def lease_ms_def)
qed

text \<open>C16. A submission id is accepted once: after a submission has been accepted, no submission under its id
  is accepted again, whatever requests run in between, removals and purges included, and whatever
  the second submission says; the repeated submission changes nothing.\<close>

theorem submission_ids_are_accepted_once:
  assumes "on_db (sq_submit k e s) d0 = (Inr True, d)" "queue_wf (delivery_of d0)"
    and "(sq_step ok)\<^sup>*\<^sup>* d (cn_db c)" "inv_id (sp_invocation s') = inv_id (sp_invocation s)"
  shows "fst (sq_submit k' e' s' c) \<noteq> Inr True \<and> cn_db (snd (sq_submit k' e' s' c)) = cn_db c"
proof -
  let ?i = "inv_id (sp_invocation s)"
  have writes: "submit_writes k e s (healthy d0) = (Inr (), healthy d)" "db_submissions d0 ?i = None"
    using submit_Inr [OF assms(1)] by simp_all
  then have "\<exists>rec task. delivery_of d = dl_add ?i task (pr_queue (sp_route s)) (pr_priority (sp_route s)) None (dl_drop (rows_of ?i)
       ((delivery_of d0)\<lparr>dl_status := (db_status d0)(?i \<mapsto> rec), dl_submissions := (db_submissions d0)(?i \<mapsto> submission_identity k s)\<rparr>))"
    by (elim submit_writes_Inr) blast
  then have "dl_submissions (delivery_of d) ?i \<noteq> None" "queue_wf (delivery_of d)"
    using assms(2) by (auto simp: queue_wf_add queue_wf_drop simp del: delivery_of_simps)
  then have "dl_submissions (delivery_of (cn_db c)) ?i \<noteq> None \<and> queue_wf (delivery_of (cn_db c))"
    by (intro run_invariant [OF assms(3)]) (use submissions_step in fastforce)+
  then have known: "db_submissions (cn_db c) (inv_id (sp_invocation s')) \<noteq> None" using assms(4) by simp
  have refused: "b = False \<and> d' = cn_db c" if "on_db (sq_submit k' e' s') (cn_db c) = (Inr b, d')" for b d'
    using submit_Inr [OF that] known by (cases b) simp_all
  have "fst (sq_submit k' e' s' c) \<noteq> Inr True" using refused answered [OF submit_transaction(2)] by fastforce
  moreover have "cn_db (snd (sq_submit k' e' s' c)) = cn_db c"
    using all_or_nothing [OF submit_transaction, of k' e' s' c] refused by auto
  ultimately show ?thesis by blast
qed

theorem submission_ids_are_accepted_once_witness:
  "fst (sq_submit ex_codec (sorted_env 9) ex_submission
     (healthy (cn_db (snd (sq_perform (QRemove ''i'') (sorted_env 5) (healthy ex_submitted)))))) \<noteq> Inr True"
proof -
  have "sq_step (\<lambda>_ _. True) ex_submitted (cn_db (snd (sq_perform (QRemove ''i'') (sorted_env 5) (healthy ex_submitted))))"
    using sq_step.request [of "\<lambda>_ _. True" "sorted_env 5" "QRemove ''i''" "healthy ex_submitted"] by simp
  from r_into_rtranclp [where r = "sq_step (\<lambda>_ _. True)", OF this] show ?thesis
    using submission_ids_are_accepted_once [OF ex_submit empty_wf, where ok = "\<lambda>_ _. True" and s' = ex_submission
        and c = "healthy (cn_db (snd (sq_perform (QRemove ''i'') (sorted_env 5) (healthy ex_submitted))))"]
    by simp
qed

section \<open>One commit per change\<close>

definition queue_of :: "str \<Rightarrow> db \<Rightarrow> queue_row list" where
  "queue_of i d = filter (\<lambda>r. q_invocation r = i) (db_queue d)"

lemma change_transaction: "atomic (sq_change e i r ch ap)" "faithful (sq_change e i r ch ap)"
  unfolding sq_change_def by (intro atomic_intros faithful_intros)+

lemmas write_defs = transition_writes_def payload_writes_def terminal_writes_def queue_writes_def update_status_row_def
  update_invocation_row_def insert_history_def delete_queue_def delete_cc_def delete_waiters_def bump_retries_def
  insert_queue_def delay_rows_def Let_def

text \<open>C14. Success is one commit: on any connection, a success reported by a runner either answers an error and
  changes nothing, or the runner owned the running invocation, and at once the invocation is
  Success, its result is stored, its history has the new entry last, it has no queue row and no
  concurrency slot, and nobody waits for it.\<close>

theorem success_is_one_commit:
  assumes "sq_change e i runner (PSuccess result) ap c = (answer, c')"
  shows "case answer of
           Inl _ \<Rightarrow> cn_db c' = cn_db c
         | Inr None \<Rightarrow> False
         | Inr (Some rec) \<Rightarrow>
             (\<exists>cur. db_status (cn_db c) i = Some cur \<and> sr_status cur = Running \<and> sr_runner cur = Some runner) \<and>
             sr_status rec = Success \<and> db_status (cn_db c') = (db_status (cn_db c))(i \<mapsto> rec) \<and>
             db_results (cn_db c') = (db_results (cn_db c))(i \<mapsto> result) \<and>
             db_history (cn_db c') = db_history (cn_db c) @ [history_entry i rec runner] \<and>
             queue_of i (cn_db c') = [] \<and> (\<forall>k v. db_cc (cn_db c') (i, k, v) = None) \<and> waiters_of (cn_db c') i = {}"
proof (cases answer)
  case (Inl err)
  then show ?thesis using assms change_transaction(1) by (auto simp: atomic_def)
next
  case (Inr found)
  then have "on_db (sq_change e i runner (PSuccess result) ap) (cn_db c) = (Inr found, cn_db c')"
    using answered [OF change_transaction(2), of e i runner "PSuccess result" ap c found] assms by simp
  then show ?thesis
  proof (cases rule: change_Inr)
    case not_due
    then show ?thesis by simp
  next
    case (changed cur old rec d1 d2)
    then have "old = cur" "d1 = cn_db c" "sr_status rec = Success"
      using sm.stamps by (auto simp: first_stop_def target_status_def)
    with changed show ?thesis
      by (cases "db_invocations (cn_db c) i")
        (auto simp: Inr is_completion_def route_of_def write_defs is_terminal_simps queue_of_def waiters_of_def)
  qed
qed

definition ex_running :: db where
  "ex_running = initialize_schema\<lparr>db_status := [''i'' \<mapsto> status_record_new 2 Running (Some ''r'')]\<rparr>"

theorem success_is_one_commit_witness:
  "db_results (cn_db (snd (sq_change (sorted_env 3) ''i'' ''r'' (PSuccess ''42'') False (healthy ex_running)))) ''i'' = Some ''42''"
proof -
  obtain answer c' where run: "sq_change (sorted_env 3) ''i'' ''r'' (PSuccess ''42'') False (healthy ex_running) = (answer, c')"
    by force
  moreover have "\<exists>rec. answer = Inr rec"
    using arg_cong [OF run, of fst]
    by (auto simp: sq_change_def change_body_def transaction_healthy pub_current_def pub_prepare_def pub_transition_def
        pub_queue_def ex_running_def status_record_new_def machine_defs is_completion_def target_status_def split: sum.splits)
  ultimately show ?thesis using success_is_one_commit [OF run] by (auto split: option.splits)
qed

text \<open>C15. Sending an invocation back to the queue is one commit: on any connection a retry, a delayed retry,
  a reroute or a recovery either answers an error or that it is not due, and changes nothing, or at once the
  invocation has its new status, exactly one queue row, with the queue and the priority of the request and
  not deliverable before the delay is over, and no concurrency slot; a retry is counted, and the rows
  of other invocations are untouched.\<close>

theorem requeue_is_one_commit:
  assumes "queue_wf (delivery_of (cn_db c))" "route_of ch = Some r" "sq_change e i runner ch ap c = (answer, c')"
  shows "case answer of
           Inl _ \<Rightarrow> cn_db c' = cn_db c
         | Inr None \<Rightarrow> cn_db c' = cn_db c
         | Inr (Some rec) \<Rightarrow>
             sr_status rec = target_status ch \<and> db_status (cn_db c') = (db_status (cn_db c))(i \<mapsto> rec) \<and>
             (\<exists>row. queue_of i (cn_db c') = [row] \<and> q_queue row = pr_queue r \<and> q_priority row = pr_priority r \<and>
                db_reservations (cn_db c') (q_id row) =
                  (case ch of PDelayedRetry _ delay \<Rightarrow> Some (not_before_ms e delay) | _ \<Rightarrow> None)) \<and>
             (\<forall>k v. db_cc (cn_db c') (i, k, v) = None) \<and>
             db_retries (cn_db c') = (if target_status ch = Retry then db_retries (bump_retries i (cn_db c)) else db_retries (cn_db c)) \<and>
             (\<forall>j. j \<noteq> i \<longrightarrow> queue_of j (cn_db c') = queue_of j (cn_db c))"
proof (cases answer)
  case (Inl err)
  then show ?thesis using assms(3) change_transaction(1) by (auto simp: atomic_def)
next
  case (Inr found)
  then have "on_db (sq_change e i runner ch ap) (cn_db c) = (Inr found, cn_db c')"
    using answered [OF change_transaction(2), of e i runner ch ap c found] assms(3) by simp
  note run = this
  show ?thesis
  proof (cases found)
    case None
    show ?thesis using run by (cases rule: change_Inr) (use None Inr in simp_all)
  next
    case (Some rec)
    from run [unfolded Some] assms(2) obtain task where st: "sr_status rec = target_status ch"
      and del: "delivery_of (cn_db c') = dl_add i (Some task) (pr_queue r) (pr_priority r) (lease_of e ch)
         (dl_drop (rows_of i) ((delivery_of (cn_db c))\<lparr>dl_status := (db_status (cn_db c))(i \<mapsto> rec)\<rparr>))"
      and d': "\<exists>d1. db_retries d1 = db_retries (cn_db c) \<and> (\<exists>d2. cn_db c' = terminal_writes i rec ap (queue_writes e i ch r task d2) \<and>
         d2 = payload_writes i ch (transition_writes i runner rec d1))"
      by (rule change_routed)
    have rows: "db_queue (cn_db c') = filter (\<lambda>x. q_invocation x \<noteq> i) (db_queue (cn_db c)) @
        [\<lparr>q_id = Suc (db_queue_seq (cn_db c)), q_invocation = i, q_task = Some task, q_queue = pr_queue r, q_priority = pr_priority r\<rparr>]"
      and stat: "db_status (cn_db c') = (db_status (cn_db c))(i \<mapsto> rec)"
      using arg_cong [OF del, of dl_rows] arg_cong [OF del, of dl_status] by (simp_all add: dl_add_def dl_drop_def)
    have "db_reservations (cn_db c) (Suc (db_queue_seq (cn_db c))) = None"
      using assms(1) by (fastforce simp: queue_wf_def)
    then have lease: "db_reservations (cn_db c') (Suc (db_queue_seq (cn_db c))) = lease_of e ch"
      using arg_cong [OF del, of dl_leases] by (simp add: dl_add_def dl_drop_def split: option.split)
    have "db_cc (cn_db c') (i, k, v) = None" for k v
      using d' by (auto simp: terminal_writes_def queue_writes_def delete_cc_def delete_waiters_def Let_def)
    moreover have "db_retries (cn_db c') = (if target_status ch = Retry then db_retries (bump_retries i (cn_db c)) else db_retries (cn_db c))"
      using d' assms(2)
      by (cases ch) (auto simp: terminal_writes_def queue_writes_def delete_cc_def delete_waiters_def insert_queue_def
          delay_rows_def payload_writes_def transition_writes_def insert_history_def bump_retries_def Let_def target_status_def route_of_def)
    moreover have "queue_of j (cn_db c') = (if j = i then [last (db_queue (cn_db c'))] else queue_of j (cn_db c))" for j
      by (auto simp: queue_of_def rows intro: filter_cong)
    ultimately show ?thesis using st stat lease rows by (simp add: Inr Some lease_of_def)
  qed
qed

theorem requeue_is_one_commit_witness:
  "\<exists>row. queue_of ''i'' (cn_db (snd (sq_change (sorted_env 3) ''i'' ''r'' (PRetry \<lparr>pr_queue = DEFAULT_QUEUE, pr_priority = 0\<rparr>) False
     (healthy (ex_running\<lparr>db_invocations := [''i'' \<mapsto> new_invocation_row 0 ex_call]\<rparr>))))) = [row]"
proof -
  let ?d = "ex_running\<lparr>db_invocations := [''i'' \<mapsto> new_invocation_row 0 ex_call]\<rparr>"
  let ?ch = "PRetry \<lparr>pr_queue = DEFAULT_QUEUE, pr_priority = 0\<rparr>"
  obtain answer c' where run: "sq_change (sorted_env 3) ''i'' ''r'' ?ch False (healthy ?d) = (answer, c')"
    by force
  moreover have "\<exists>rec. answer = Inr (Some rec)"
    using arg_cong [OF run, of fst]
    by (auto simp: sq_change_def change_body_def transaction_healthy pub_current_def pub_prepare_def pub_transition_def
        pub_queue_def publish_def ex_running_def status_record_new_def machine_defs is_completion_def target_status_def
        validate_route_def f64_is_finite_def f64_magnitude_def f64_inf_magnitude_def update_status_row_def
        update_invocation_row_def insert_history_def pub_payload_def bump_retries_def split: sum.splits)
  moreover have "queue_wf (delivery_of ?d)" by (simp add: ex_running_def initialize_schema_def queue_wf_def)
  ultimately show ?thesis
    using requeue_is_one_commit [OF _ _ run, of "\<lparr>pr_queue = DEFAULT_QUEUE, pr_priority = 0\<rparr>"] by (auto simp: route_of_def)
qed

end
