(* ===== verification/Sqlite_State_Props.thy ===== *)
theory Sqlite_State_Props
  imports Sqlite_Requests
begin

text \<open>
  What the SQLite tables give back: invocations, calls, results and client data read back as they were
  written, and what a panic under the mutex does to the process.
\<close>

section \<open>Key-value tables\<close>

definition read_back :: "(conn \<Rightarrow> 'a option result \<times> conn) \<Rightarrow> db \<Rightarrow> 'a option" where
  "read_back f d = (case fst (on_db f d) of Inr x \<Rightarrow> x | Inl _ \<Rightarrow> None)"

lemma read_back_lookup [simp]: "read_back (lookup f) d = f d"
  by (simp add: read_back_def lookup_def on_db_def)

interpretation sq_results: kv_store "\<lambda>i v. on_db (sq_store_result i v)" "\<lambda>i. read_back (sq_get_result i)"
  by unfold_locales (simp_all add: sq_store_result_def sq_get_result_def)

interpretation sq_errors: kv_store "\<lambda>i v. on_db (sq_store_error i v)" "\<lambda>i. read_back (sq_get_error i)"
  by unfold_locales (simp_all add: sq_store_error_def sq_get_error_def)

interpretation sq_infos: kv_store "\<lambda>i v. on_db (sq_store_app_info i v)" "\<lambda>i. read_back (sq_get_app_info i)"
  by unfold_locales (simp_all add: sq_store_app_info_def sq_get_app_info_def)

interpretation sq_wf_data: kv_store "\<lambda>(w, k) v. on_db (sq_set_workflow_data w k v)" "\<lambda>(w, k). read_back (sq_get_workflow_data w k)"
  by unfold_locales (auto simp: sq_set_workflow_data_def sq_get_workflow_data_def)

section \<open>Invocations and calls\<close>

lemma read_task_display: "valid_task_id t \<Longrightarrow> read_task (display_task_id t) = Inr t"
  by (simp add: read_task_def parse_display_task_id)

lemma read_call_display: "valid_call_id c \<Longrightarrow> read_call_id (cid_task_id c) (display_call_id c) = c"
  by (simp add: read_call_id_def display_call_id_def valid_call_id_def call_id_new_def)

definition storable :: "invocation_dto \<Rightarrow> bool" where
  "storable dto \<longleftrightarrow>
     valid_call_id (inv_call_id dto) \<and> cid_task_id (inv_call_id dto) = inv_task_id dto \<and>
     (case inv_workflow dto of None \<Rightarrow> True | Some w \<Rightarrow> valid_task_id (workflow_type w))"

lemma read_depth_uint [simp]: "read_depth (Some (uint (n :: u32))) = n"
proof -
  have "uint n < 2 ^ 32" using uint_lt2p [of n] by simp
  then show ?thesis by (simp add: read_depth_def read_u32_def or_else_def)
qed

lemma read_upserted:
  assumes "storable dto"
  shows "read_invocation (inv_id dto) ((upserted_row dto)\<lparr>iv_workflow_parent := Option.bind (inv_workflow dto) wf_parent_id\<rparr>) = Inr dto"
proof -
  have t: "read_task (display_task_id (inv_task_id dto)) = Inr (inv_task_id dto)"
    using assms by (auto simp: storable_def valid_call_id_def read_task_display)
  have c: "read_call_id (inv_task_id dto) (display_call_id (inv_call_id dto)) = inv_call_id dto"
    using assms read_call_display [of "inv_call_id dto"] by (simp add: storable_def)
  show ?thesis
  proof (cases "inv_workflow dto")
    case None
    then show ?thesis by (simp add: read_invocation_def upserted_row_def read_workflow_def t c)
  next
    case (Some w)
    then have "read_task (display_task_id (workflow_type w)) = Inr (workflow_type w)"
      using assms by (simp add: storable_def read_task_display)
    then show ?thesis using Some by (simp add: read_invocation_def upserted_row_def read_workflow_def t c)
  qed
qed

section \<open>A poisoned connection\<close>

lemma poisoned_request:
  assumes "cn_poisoned c"
  shows "snd (sq_perform req e c) = c"
  using assms
  by (cases req) (auto simp: request_defs locked_def no_answer_def sq_run_auto_purge_def sq_index_for_concurrency_control_def
      sq_clear_valid_conditions_def sq_trigger_purge_def
      split: sum.splits option.splits)

section \<open>Properties\<close>

text \<open>Invocations and calls round trip through the tables: after an upsert both are read back as they were
  written, workflow identity, depth and trace included. The hypotheses are what the constructors of the
  ids give and that the JSON of the arguments parses back.\<close>

lemma sqlite_invocation_round_trip:
  assumes "storable dto" "valid_task_id (cd_task_id call)"
    and "sc_parse_args k (sc_args k (cd_serialized_arguments call)) = Some (cd_serialized_arguments call)"
    and "on_db (sq_upsert_invocation k dto call) d = (answer, d')"
  shows "answer = Inr () \<and> fst (on_db (sq_get_invocation (inv_id dto)) d') = Inr dto \<and>
         fst (on_db (sq_get_call k (cd_call_id call)) d') = Inr call"
proof -
  have d': "answer = Inr ()" "db_invocations d' (inv_id dto) =
      Some ((upserted_row dto)\<lparr>iv_workflow_parent := Option.bind (inv_workflow dto) wf_parent_id\<rparr>)"
    "db_calls d' (display_call_id (cd_call_id call)) =
      Some (display_task_id (cd_task_id call), sc_args k (cd_serialized_arguments call))"
    using assms(4) by (auto simp: on_db_def sq_upsert_invocation_def transaction_healthy set_workflow_parent_def)
  then show ?thesis
    using assms(2,3) by (simp add: on_db_def sq_get_invocation_def sq_get_call_def read_upserted [OF assms(1)] read_task_display)
qed

text \<open>C22. A scan whose age cannot be subtracted from the date panics with the connection locked and takes the
  process out of service: the scan answers an error, and from then on no request of this process writes
  anything, and no claim of work succeeds.\<close>

theorem scan_panic_disables_process:
  assumes "sub_secs e (now e) (clamp_i64 secs) = None" "\<not> cn_poisoned c"
  defines "c' \<equiv> snd (sq_get_stale_pending_invocations e secs c)"
  shows "fst (sq_get_stale_pending_invocations e secs c) = Inl Internal \<and>
         fold (\<lambda>(e, req) c. snd (sq_perform req e c)) reqs c' = c' \<and> cn_db c' = cn_db c \<and>
         fst (sq_set_invocation_status e' i st r c') = Inl lock_err"
proof -
  have p: "sq_get_stale_pending_invocations e secs c = (Inl Internal, c\<lparr>cn_poisoned := True\<rparr>)"
    using assms(1,2) by (simp add: sq_get_stale_pending_invocations_def with_threshold_def locked_def panics_def)
  have "fold (\<lambda>(e, req) c. snd (sq_perform req e c)) reqs x = x" if "cn_poisoned x" for x
    using that by (induction reqs) (auto simp: poisoned_request)
  then show ?thesis by (simp add: c'_def p sq_set_invocation_status_def locked_def)
qed

theorem scan_panic_disables_process_witness:
  "fst (sq_set_invocation_status (sorted_env 9) ''i'' Pending (Some ''r'')
     (snd (sq_get_stale_pending_invocations ((sorted_env 5)\<lparr>sub_secs := (\<lambda>_ _. None)\<rparr>) 7 (healthy initialize_schema)))) = Inl lock_err"
  using scan_panic_disables_process [of "(sorted_env 5)\<lparr>sub_secs := (\<lambda>_ _. None)\<rparr>" 7 "healthy initialize_schema"]
  by simp

end
