(* ===== verification/Sqlite_Invariants.thy ===== *)
theory Sqlite_Invariants
  imports Sqlite_Requests
begin

text \<open>
  Invariants of a SQLite database that every single statement keeps. The locale \<open>table_invariant\<close> asks for the
  writes that touch the invocation table; its lemma says that every request outside the trigger store keeps
  the invariant, on every connection, failed or not.
\<close>

section \<open>Statements that keep an invariant\<close>

named_theorems keeps_intros \<open>operations that keep an invariant\<close>

definition keeps :: "(db \<Rightarrow> bool) \<Rightarrow> (conn \<Rightarrow> 'a result \<times> conn) \<Rightarrow> bool" where
  "keeps I f \<longleftrightarrow> (\<forall>c. I (cn_db c) \<longrightarrow> I (cn_db (snd (f c))))"

lemma keepsD: "keeps I f \<Longrightarrow> I (cn_db c) \<Longrightarrow> I (cn_db (snd (f c)))"
  by (simp add: keeps_def)

lemma keeps_statement [keeps_intros]:
  "(\<And>d. I d \<Longrightarrow> I (snd (f d))) \<Longrightarrow> keeps I (statement f)"
  "(\<And>d. I d \<Longrightarrow> I (g d)) \<Longrightarrow> keeps I (execute g)"
  "keeps I (query h)"
  by (auto simp: keeps_def statement_def execute_def query_def split: option.splits nat.splits prod.splits) (metis snd_conv)+

lemma keeps_and_then [keeps_intros]:
  assumes "keeps I f" "\<And>x. keeps I (g x)"
  shows "keeps I (\<lambda>c. and_then (f c) g)"
  unfolding keeps_def
proof (intro allI impI)
  fix c :: conn
  assume "I (cn_db c)"
  then have "I (cn_db (snd (f c)))" using assms(1) by (simp add: keeps_def)
  then show "I (cn_db (snd (and_then (f c) g)))"
    using assms(2) by (cases "f c"; cases "fst (f c)") (simp_all add: keeps_def)
qed

lemma keeps_cases [keeps_intros]:
  "keeps I f \<Longrightarrow> keeps I g \<Longrightarrow> keeps I (\<lambda>c. if b then f c else g c)"
  "keeps I f \<Longrightarrow> (\<And>x. keeps I (h x)) \<Longrightarrow> keeps I (\<lambda>c. case v of None \<Rightarrow> f c | Some x \<Rightarrow> h x c)"
  "(\<And>x. keeps I (k x)) \<Longrightarrow> (\<And>x. keeps I (h' x)) \<Longrightarrow> keeps I (\<lambda>c. case w of Inl x \<Rightarrow> k x c | Inr x \<Rightarrow> h' x c)"
  "(\<And>x y. keeps I (m x y)) \<Longrightarrow> keeps I (\<lambda>c. case p of (x, y) \<Rightarrow> m x y c)"
  by (cases b, simp_all) (cases v, simp_all, cases w, simp_all, cases p, simp_all)

lemma keeps_pure [keeps_intros]: "keeps I (\<lambda>c. (v, c))" "keeps I panics"
  by (simp_all add: keeps_def panics_def)

lemma keeps_wrappers [keeps_intros]:
  "keeps I f \<Longrightarrow> keeps I (locked f)" "keeps I f \<Longrightarrow> keeps I (no_answer f)"
  "(\<And>d. I d \<Longrightarrow> \<not> taken d \<Longrightarrow> I (g d)) \<Longrightarrow> keeps I (insert_row taken g)"
proof -
  show "keeps I f \<Longrightarrow> keeps I (locked f)" by (simp add: keeps_def locked_def)
  show "keeps I f \<Longrightarrow> keeps I (no_answer f)" by (simp add: keeps_def)
  assume g: "\<And>d. I d \<Longrightarrow> \<not> taken d \<Longrightarrow> I (g d)"
  show "keeps I (insert_row taken g)"
    unfolding insert_row_def by (intro keeps_intros) (use g in auto)
qed

lemma keeps_transaction [keeps_intros]:
  assumes "keeps I body"
  shows "keeps I (transaction body)"
  unfolding keeps_def
proof (intro allI impI)
  fix c :: conn
  assume inv: "I (cn_db c)"
  obtain r c0 where bgn: "execute id c = (r, c0)" by force
  have db0: "cn_db c0 = cn_db c" using bgn by (auto simp: execute_def statement_def split: option.splits nat.splits)
  obtain v c1 where b: "body c0 = (v, c1)" by force
  have c1: "I (cn_db c1)" using keepsD [OF assms, of c0] inv b db0 by simp
  have "cn_db (snd (execute id c1)) = cn_db c1" by (simp add: execute_def statement_def split: option.splits nat.splits)
  then show "I (cn_db (snd (transaction body c)))"
    using inv c1 bgn db0 b
    by (cases r; cases v) (auto simp: transaction_def and_then_def split: prod.splits sum.splits bool.splits)
qed

lemma keeps_execute_all [keeps_intros]:
  "(\<And>f d. f \<in> set fs \<Longrightarrow> I d \<Longrightarrow> I (f d)) \<Longrightarrow> keeps I (execute_all fs)"
proof (induction fs)
  case Nil
  then show ?case by (simp add: keeps_def)
next
  case (Cons f fs)
  have "execute_all (f # fs) = (\<lambda>c. and_then (execute f c) (\<lambda>_. execute_all fs))" by (simp add: fun_eq_iff)
  then show ?case using Cons by (simp only:) (intro keeps_intros; simp)
qed

section \<open>The requests outside the trigger store\<close>

text \<open>Requests that write trigger tables.\<close>

fun trigger_request :: "sq_request \<Rightarrow> bool" where
  "trigger_request (QCondition _ _ _) = True"
| "trigger_request (QTrigger _ _) = True"
| "trigger_request (QRemoveTriggers _) = True"
| "trigger_request (QValidCondition _ _) = True"
| "trigger_request (QClearValid _) = True"
| "trigger_request (QCronExecution _ _ _) = True"
| "trigger_request (QClaimRun _) = True"
| "trigger_request (QEvent _ _) = True"
| "trigger_request (QTriggerRun _ _) = True"
| "trigger_request (QClaimRuns _ _ _) = True"
| "trigger_request QTriggerPurge = True"
| "trigger_request _ = False"

text \<open>The row a request inserts into the invocation table, before its columns are updated.\<close>

fun inserted_row :: "sq_request \<Rightarrow> env \<Rightarrow> invocation_row option" where
  "inserted_row (QRegister _ call _) e = Some (new_invocation_row (now e) call)"
| "inserted_row (QSubmit _ s) e = Some (submitted_row (now e) (sp_invocation s))"
| "inserted_row (QUpsert _ dto _) e = Some (upserted_row dto)"
| "inserted_row _ e = None"

lemma keeps_find_status [keeps_intros]: "keeps I (sq_find_status i)"
  by (auto simp: keeps_def sq_find_status_def query_def statement_def split: option.splits nat.splits)

lemma keeps_current [keeps_intros]: "keeps I (pub_current i)"
  unfolding pub_current_def [abs_def] by (intro keeps_intros)

lemma keeps_claim_rows:
  assumes "\<And>r. keeps I (execute_all (write_trigger_run k r))"
    and "\<And>d r. I d \<Longrightarrow> tg_claims (db_trg d) r = None \<Longrightarrow> I (on_trg (\<lambda>g. g\<lparr>tg_claims := (tg_claims g)(r \<mapsto> now e)\<rparr>) d)"
  shows "keeps I (claim_rows e k rs)"
proof (induction rs)
  case Nil
  then show ?case by (simp add: keeps_def)
next
  case (Cons r rs)
  have "claim_rows e k (r # rs) = (\<lambda>c. and_then (insert_claim e (tr_run_id r) c) (\<lambda>first c.
     and_then (query (\<lambda>d. tg_runs (db_trg d) (tr_run_id r) \<noteq> None) c) (\<lambda>recorded c.
     and_then (if first \<or> \<not> recorded then execute_all (write_trigger_run k r) c else (Inr (), c)) (\<lambda>_ c.
     and_then (claim_rows e k rs c) (\<lambda>rest c. (Inr (first # rest), c))))))"
    by (simp add: fun_eq_iff)
  moreover have "keeps I (insert_claim e (tr_run_id r))"
    unfolding insert_claim_def by (intro keeps_intros) (simp add: assms(2))
  ultimately show ?case using Cons by (simp only:) (intro assms(1) keeps_intros)
qed

lemma table_frame:
  "db_invocations (update_status_row i rec d) = db_invocations d" "db_trg (update_status_row i rec d) = db_trg d"
  "db_invocations (delete_queue P d) = db_invocations d" "db_trg (delete_queue P d) = db_trg d"
  "db_invocations (insert_queue i t q p d) = db_invocations d" "db_trg (insert_queue i t q p d) = db_trg d"
  "db_invocations (set_reservation k x d) = db_invocations d" "db_trg (set_reservation k x d) = db_trg d"
  "db_invocations (sweep visit q d) = db_invocations d" "db_trg (sweep visit q d) = db_trg d"
  "db_invocations (insert_history h d) = db_invocations d" "db_trg (insert_history h d) = db_trg d"
  "db_invocations (bury i d) = db_invocations d" "db_trg (bury i d) = db_trg d"
  "db_invocations (bury_all d) = db_invocations d" "db_trg (bury_all d) = db_trg d"
  "db_invocations (bump_retries i d) = db_invocations d" "db_trg (bump_retries i d) = db_trg d"
  "db_invocations (delete_cc i d) = db_invocations d" "db_trg (delete_cc i d) = db_trg d"
  "db_invocations (delete_waiters i d) = db_invocations d" "db_trg (delete_waiters i d) = db_trg d"
  "db_invocations (delay_rows e i delay d) = db_invocations d" "db_trg (delay_rows e i delay d) = db_trg d"
  "db_invocations (insert_cc i s kv d) = db_invocations d" "db_trg (insert_cc i s kv d) = db_trg d"
  by (simp_all add: update_status_row_def delete_queue_def insert_queue_def set_reservation_def sweep_def Let_def
      insert_history_def bury_def bury_all_def bump_retries_def delete_cc_def delete_waiters_def delay_rows_def insert_cc_def)

text \<open>
  What a write outside the trigger store does to the tables an invariant may speak of: the trigger tables stay,
  and a row of the invocation table is a fine new one or keeps its task and workflow type.
\<close>

definition derived :: "(invocation_row \<Rightarrow> bool) \<Rightarrow> db \<Rightarrow> db \<Rightarrow> bool" where
  "derived fine d d' \<longleftrightarrow>
     db_trg d' = db_trg d \<and>
     (\<forall>i r. db_invocations d' i = Some r \<longrightarrow> fine r \<or>
        (\<exists>r0. db_invocations d i = Some r0 \<and> iv_task r = iv_task r0 \<and> iv_workflow_type r = iv_workflow_type r0))"

lemma derived_same [simp]: "db_trg d' = db_trg d \<Longrightarrow> db_invocations d' = db_invocations d \<Longrightarrow> derived fine d d'"
  by (simp add: derived_def)

lemma derived_row_writes [simp]:
  "derived fine d (update_invocation_row i rec d)" "derived fine d (set_workflow_parent i p d)"
  "fine r \<Longrightarrow> derived fine d (d\<lparr>db_invocations := (db_invocations d)(i \<mapsto> r)\<rparr>)"
  "derived fine d (d\<lparr>db_invocations := (db_invocations d)(i := None)\<rparr>)"
  by (auto simp: derived_def update_invocation_row_def set_workflow_parent_def split: option.splits if_splits)

lemma derived_gone: "db_trg d' = db_trg d \<Longrightarrow> db_invocations d' = Map.empty \<Longrightarrow> derived fine d d'"
  by (simp add: derived_def)

locale table_invariant =
  fixes I :: "db \<Rightarrow> bool"
    and fine :: "invocation_row \<Rightarrow> bool"
  assumes step: "I d \<Longrightarrow> derived fine d d' \<Longrightarrow> I d'"
begin

lemma inv_transition [keeps_intros]: "keeps I (pub_transition e i runner old st)"
  unfolding pub_transition_def [abs_def] by (intro keeps_intros; erule step; simp add: table_frame)

lemma inv_publish [keeps_intros]: "keeps I (publish i task route)"
  unfolding publish_def [abs_def] by (intro keeps_intros; erule step; simp add: table_frame)

lemma inv_recover [keeps_intros]: "keeps I (pub_recover e i runner old st secs route)"
  unfolding pub_recover_def [abs_def] by (intro keeps_intros)

lemma inv_prepare [keeps_intros]: "keeps I (pub_prepare e i runner old ch)"
  unfolding pub_prepare_def [abs_def] by (cases ch; simp; intro keeps_intros)

lemma inv_payload [keeps_intros]: "keeps I (pub_payload i ch)"
  unfolding pub_payload_def [abs_def] by (cases ch; simp; intro keeps_intros; erule step; simp add: table_frame)

lemma inv_delay [keeps_intros]:
  "keeps I (\<lambda>c. case ch of PDelayedRetry _ delay \<Rightarrow> delay_delivery e i delay c | _ \<Rightarrow> (Inr (), c))"
  unfolding delay_delivery_def by (cases ch; simp; intro keeps_intros; erule step; simp add: table_frame)

lemma inv_queue [keeps_intros]: "keeps I (pub_queue e i ch route)"
  unfolding pub_queue_def [abs_def] by (intro keeps_intros; erule step; simp add: table_frame)

lemma inv_terminal [keeps_intros]: "keeps I (pub_terminal i rec ap)"
  unfolding pub_terminal_def [abs_def] by (intro keeps_intros; erule step; simp add: table_frame)

lemma inv_change [keeps_intros]: "keeps I (change_body e i runner ch ap)"
  unfolding change_body_def [abs_def] by (intro keeps_intros)

lemma inv_cc_pairs [keeps_intros]: "keeps I (insert_cc_pairs i t kvs)"
proof (induction kvs)
  case Nil
  then show ?case by (simp add: keeps_def)
next
  case (Cons kv kvs)
  have "insert_cc_pairs i t (kv # kvs) = (\<lambda>c. and_then
      (insert_row (\<lambda>d. db_cc d (i, fst kv, snd kv) \<noteq> None) (insert_cc i t kv) c) (\<lambda>_. insert_cc_pairs i t kvs))"
    by (simp add: fun_eq_iff)
  then show ?case using Cons by (simp only:) (intro keeps_intros; (assumption | erule step); simp add: table_frame)
qed

lemma inv_details [keeps_intros]: "keeps I (submit_details k s r)"
  unfolding submit_details_def [abs_def] Let_def by (intro keeps_intros; erule step; simp add: table_frame)

lemma inv_submit [keeps_intros]: "fine (submitted_row (now e) (sp_invocation s)) \<Longrightarrow> keeps I (submit_body k e s)"
  unfolding submit_body_def [abs_def] submit_writes_def Let_def by (intro keeps_intros; erule step; simp)

lemma inv_index: "keeps I (execute_all (map (insert_cc i t) kvs))"
  by (intro keeps_intros) (auto elim!: step simp: table_frame)

lemma inv_remove: "keeps I (sq_remove_invocation i)"
proof -
  have "keeps I (execute_all
     [bury i, delete_queue (\<lambda>r. q_invocation r = i), \<lambda>d. d\<lparr>db_status := (db_status d)(i := None)\<rparr>, delete_cc i,
      \<lambda>d. d\<lparr>db_waiting := {(a, b) \<in> db_waiting d. a \<noteq> i \<and> b \<noteq> i}\<rparr>,
      \<lambda>d. d\<lparr>db_retries := (db_retries d)(i := None)\<rparr>,
      \<lambda>d. d\<lparr>db_invocations := (db_invocations d)(i := None)\<rparr>,
      \<lambda>d. d\<lparr>db_auto_purge := (db_auto_purge d)(i := None)\<rparr>])"
    by (intro keeps_execute_all) (auto elim!: step simp: table_frame)
  then show ?thesis unfolding sq_remove_invocation_def by (intro keeps_wrappers(1) keeps_transaction keeps_and_then keeps_pure)
qed

lemma inv_purge_all: "I (cn_db c) \<Longrightarrow> I (cn_db (snd (sq_purge_all is c)))"
proof (induction "is" arbitrary: c)
  case (Cons i "is")
  have "snd (sq_purge_all (i # is) c) = snd (sq_purge_all is (snd (sq_remove_invocation i c)))"
    by (simp split: prod.split sum.split)
  then show ?case using Cons keepsD [OF inv_remove] by simp
qed simp

lemma inv_auto_purge: "keeps I (sq_run_auto_purge e age)"
proof -
  have purge: "keeps I (\<lambda>c. case sq_purge_all ids c of (purged, c) \<Rightarrow> (Inr purged, c))" for ids
    using inv_purge_all by (auto simp: keeps_def split: prod.split) (metis snd_conv)
  show ?thesis
    unfolding sq_run_auto_purge_def [abs_def] by (intro purge keeps_intros; erule step; simp)
qed

lemma inv_request:
  assumes "\<not> trigger_request req" "\<And>r. inserted_row req e = Some r \<Longrightarrow> fine r"
  shows "keeps I (sq_perform req e)"
  using assms
proof (cases req)
  case (QRemove i)
  then show ?thesis by (simp add: inv_remove)
next
  case (QRunAutoPurge age)
  then show ?thesis by (simp add: inv_auto_purge keeps_wrappers)
qed (simp; simp only: request_defs sq_index_for_concurrency_control_def [abs_def]; (intro inv_index keeps_intros)?;
      (erule step)?; (simp add: table_frame derived_gone)?)+

end

end
