(* ===== verification/Sqlite_Types.thy ===== *)
theory Sqlite_Types
  imports Sqlite_Invariants Sqlite_State_Props
begin

text \<open>
  The columns of the invocation table keep their types. Rows hold task ids as texts and are parsed when they
  are read; what the requests write always parses.
\<close>

section \<open>Rows of the invocation table\<close>

definition parses :: "str \<Rightarrow> bool" where
  "parses s \<longleftrightarrow> (case parse_task_id s of Inl _ \<Rightarrow> False | Inr t \<Rightarrow> display_task_id t = s)"

definition row_ok :: "invocation_row \<Rightarrow> bool" where
  "row_ok r \<longleftrightarrow> parses (iv_task r) \<and> (case iv_workflow_type r of None \<Rightarrow> True | Some s \<Rightarrow> parses s)"

definition rows_ok :: "db \<Rightarrow> bool" where
  "rows_ok d \<longleftrightarrow> (\<forall>i r. db_invocations d i = Some r \<longrightarrow> row_ok r)"

definition dto_typed :: "invocation_dto \<Rightarrow> bool" where
  "dto_typed dto \<longleftrightarrow> valid_task_id (inv_task_id dto) \<and>
     (case inv_workflow dto of None \<Rightarrow> True | Some w \<Rightarrow> valid_task_id (workflow_type w))"

text \<open>The ids a request carries were built by the constructors of ids.\<close>

fun request_typed :: "sq_request \<Rightarrow> bool" where
  "request_typed (QRegister _ call _) \<longleftrightarrow> valid_task_id (cd_task_id call)"
| "request_typed (QSubmit _ s) \<longleftrightarrow> dto_typed (sp_invocation s)"
| "request_typed (QUpsert _ dto _) \<longleftrightarrow> dto_typed dto"
| "request_typed _ \<longleftrightarrow> True"

lemma parses_display: "valid_task_id t \<Longrightarrow> parses (display_task_id t)"
  by (simp add: parses_def parse_display_task_id)

lemma row_ok_written:
  "valid_task_id (cd_task_id call) \<Longrightarrow> row_ok (new_invocation_row t call)"
  "dto_typed dto \<Longrightarrow> row_ok (submitted_row t dto)" "dto_typed dto \<Longrightarrow> row_ok (upserted_row dto)"
  by (auto simp: row_ok_def new_invocation_row_def submitted_row_def upserted_row_def dto_typed_def parses_display
      split: option.splits)

lemma row_ok_cong: "iv_task r = iv_task r0 \<Longrightarrow> iv_workflow_type r = iv_workflow_type r0 \<Longrightarrow> row_ok r = row_ok r0"
  by (simp add: row_ok_def)

interpretation rows: table_invariant rows_ok row_ok
  by unfold_locales (metis derived_def row_ok_cong rows_ok_def)

lemma rows_trg: "rows_ok (on_trg f d) = rows_ok d"
  by (simp add: rows_ok_def on_trg_def)

lemma rows_trg_writes:
  "keeps rows_ok (execute_all (write_trigger_run k r))" "keeps rows_ok (execute_all (concat (map remove_trigger_rows ids)))"
  "keeps rows_ok (execute_all (map delete_valid ids))" "keeps rows_ok (execute_all (map on_trg fs))"
  by (intro keeps_execute_all; auto simp: write_trigger_run_def remove_trigger_rows_def delete_valid_def rows_trg)+

lemma rows_claims: "keeps rows_ok (claim_rows e k rs)"
  by (rule keeps_claim_rows; (rule rows_trg_writes)?; simp add: rows_trg)

lemma rows_request:
  assumes "request_typed req"
  shows "keeps rows_ok (sq_perform req e)"
proof (cases "trigger_request req")
  case True
  then show ?thesis
    by (cases req; simp; simp only: request_defs sq_clear_valid_conditions_def sq_trigger_purge_def;
      (intro rows_claims rows_trg_writes keeps_intros)?; (auto simp: rows_trg)?)
next
  case False
  then show ?thesis using assms by (intro rows.inv_request) (cases req; auto simp: row_ok_written)+
qed

section \<open>Properties\<close>

text \<open>C21. The invocation table keeps its types: from an empty database, over any requests with well-formed ids on
  any connections, failing or not, every row that is there is read back as an invocation with its status
  and times; no stored text is a malformed id.\<close>

theorem stored_rows_are_readable:
  assumes "(sq_step (\<lambda>_ req. request_typed req))\<^sup>*\<^sup>* initialize_schema d" "db_invocations d i = Some r"
  shows "\<exists>dto. fst (on_db (sq_get_invocation i) d) = Inr dto \<and> inv_id dto = i \<and> inv_status dto = iv_status r \<and>
           inv_created_at dto = iv_created r \<and> inv_parent dto = iv_parent r \<and>
           display_task_id (inv_task_id dto) = iv_task r"
proof -
  have "rows_ok initialize_schema" by (simp add: initialize_schema_def rows_ok_def)
  with assms(1) have "rows_ok d"
    by (induction rule: rtranclp_induct) (auto elim!: sq_stepE intro: keepsD [OF rows_request])
  then have "row_ok r" using assms(2) by (auto simp: rows_ok_def)
  then obtain t where "parse_task_id (iv_task r) = Inr t" "display_task_id t = iv_task r" "\<exists>wfl. read_workflow r = Inr wfl"
    by (auto simp: row_ok_def parses_def read_workflow_def read_task_def split: sum.splits option.splits)
  then show ?thesis
    using assms(2) by (auto simp: on_db_def sq_get_invocation_def read_invocation_def read_task_def)
qed

theorem stored_rows_are_readable_witness:
  "\<exists>dto. fst (on_db (sq_get_invocation ''i'') (cn_db (snd (sq_perform
      (QRegister ''i'' \<lparr>cd_call_id = call_id_new ex_task ''a'', cd_task_id = ex_task, cd_serialized_arguments = []\<rparr> None)
      (sorted_env 3) (healthy initialize_schema))))) = Inr dto \<and> inv_status dto = Registered"
proof -
  let ?call = "\<lparr>cd_call_id = call_id_new ex_task ''a'', cd_task_id = ex_task, cd_serialized_arguments = []\<rparr>"
  let ?d = "cn_db (snd (sq_perform (QRegister ''i'' ?call None) (sorted_env 3) (healthy initialize_schema)))"
  have "sq_step (\<lambda>_ req. request_typed req) initialize_schema ?d"
    using sq_step.request [of "\<lambda>_ req. request_typed req" "sorted_env 3" "QRegister ''i'' ?call None" "healthy initialize_schema"]
    by (simp add: ex_task_valid)
  moreover have "db_invocations ?d ''i'' = Some (new_invocation_row 3 ?call)"
    by (simp add: sq_register_invocation_with_id_def transaction_healthy initialize_schema_def Let_def sorted_env_def)
  ultimately show ?thesis
    using stored_rows_are_readable [OF r_into_rtranclp, of ?d "''i''" "new_invocation_row 3 ?call"]
    by (auto simp: new_invocation_row_def)
qed

end
