(* ===== verification/Sqlite_Trigger_Props.thy ===== *)
theory Sqlite_Trigger_Props
  imports Sqlite_Invariants Sqlite_Props
begin

text \<open>
  The SQLite trigger store: claims of trigger runs are won once across processes and leave their record
  behind (an instance of \<open>claim_store\<close>, like the claims of the in-memory store).
\<close>

section \<open>Claims on a connection that does not fail\<close>

definition run_writes :: "trg_codec \<Rightarrow> trigger_run_record \<Rightarrow> db \<Rightarrow> db" where
  "run_writes k r d = fold (\<lambda>f. f) (write_trigger_run k r) d"

definition claim_row_db :: "env \<Rightarrow> trg_codec \<Rightarrow> trigger_run_record \<Rightarrow> db \<Rightarrow> bool \<times> db" where
  "claim_row_db e k r d =
     (let first = (tg_claims (db_trg d) (tr_run_id r) = None);
          d1 = (if first then on_trg (\<lambda>g. g\<lparr>tg_claims := (tg_claims g)(tr_run_id r \<mapsto> now e)\<rparr>) d else d)
      in (first, if first \<or> tg_runs (db_trg d1) (tr_run_id r) = None then run_writes k r d1 else d1))"

fun claim_rows_db :: "env \<Rightarrow> trg_codec \<Rightarrow> trigger_run_record list \<Rightarrow> db \<Rightarrow> bool list \<times> db" where
  "claim_rows_db e k [] d = ([], d)"
| "claim_rows_db e k (r # rs) d =
     (let (first, d1) = claim_row_db e k r d; (rest, d2) = claim_rows_db e k rs d1 in (first # rest, d2))"

lemma claim_rows_healthy [simp]:
  "claim_rows e k rs (healthy d) = (Inr (fst (claim_rows_db e k rs d)), healthy (snd (claim_rows_db e k rs d)))"
proof (induction rs arbitrary: d)
  case (Cons r rs)
  then show ?case
    by (auto simp: insert_claim_def claim_row_db_def run_writes_def Let_def split: prod.split)
qed simp

lemma claims_db:
  "on_db (sq_claim_trigger_runs_with_records e k rs ids) d =
     (Inr (fst (claim_rows_db e k rs d)), fold delete_valid ids (snd (claim_rows_db e k rs d)))"
  by (simp add: on_db_def sq_claim_trigger_runs_with_records_def transaction_healthy fold_map comp_def)

lemma claims_faithful: "faithful (sq_claim_trigger_runs_with_records e k rs ids)"
  unfolding sq_claim_trigger_runs_with_records_def by (intro faithful_intros)

lemma fold_keeps: "(\<And>f d. f \<in> set fs \<Longrightarrow> P (f d) = P d) \<Longrightarrow> P (fold (\<lambda>f. f) fs d) = P d"
  by (induction fs arbitrary: d) simp_all

lemma write_shape:
  "f \<in> set (write_trigger_run k r) \<Longrightarrow>
     tg_claims (db_trg (f d)) = tg_claims (db_trg d) \<and> dom (tg_runs (db_trg d)) \<subseteq> dom (tg_runs (db_trg (f d)))"
  by (auto simp: write_trigger_run_def on_trg_def)

lemma run_writes_claims [simp]: "tg_claims (db_trg (run_writes k r d)) = tg_claims (db_trg d)"
  unfolding run_writes_def
  by (rule fold_keeps [where P = "\<lambda>d. tg_claims (db_trg d) = C" for C, THEN iffD2]) (simp_all add: write_shape)

lemma fold_grows:
  "(\<And>f d. f \<in> set fs \<Longrightarrow> A d \<subseteq> A (f d)) \<Longrightarrow> A d \<subseteq> A (fold (\<lambda>f. f) fs d)"
proof (induction fs arbitrary: d)
  case (Cons f fs)
  have "A d \<subseteq> A (f d)" "A (f d) \<subseteq> A (fold (\<lambda>f. f) fs (f d))" using Cons by simp_all
  then show ?case by simp
qed simp

lemma run_writes_runs: "insert (tr_run_id r) (dom (tg_runs (db_trg d))) \<subseteq> dom (tg_runs (db_trg (run_writes k r d)))"
proof -
  obtain f fs where ws: "write_trigger_run k r = f # fs"
    and f: "\<And>d. dom (tg_runs (db_trg (f d))) = insert (tr_run_id r) (dom (tg_runs (db_trg d)))"
    by (simp add: write_trigger_run_def on_trg_def)
  have "dom (tg_runs (db_trg (f d))) \<subseteq> dom (tg_runs (db_trg (fold (\<lambda>f. f) fs (f d))))"
    by (rule fold_grows [where A = "\<lambda>d. dom (tg_runs (db_trg d))"]) (metis list.set_intros(2) write_shape ws)
  then show ?thesis by (simp add: run_writes_def ws f)
qed

interpretation sq_claims: claim_store "claim_row_db e k" tr_run_id "\<lambda>d. dom (tg_claims (db_trg d))" for e k
  by unfold_locales (auto simp: claim_row_db_def Let_def on_trg_def split: if_splits)

lemma claim_rows_seq:
  "claim_rows_db e k rs d = (fs, d') \<Longrightarrow>
     length fs = length rs \<and> claim_seq (claim_row_db e k) rs d = (map fst (filter snd (zip rs fs)), d')"
  by (induction rs arbitrary: d fs) (auto simp: Let_def split: prod.splits)

lemma claim_rows_record:
  assumes "claim_rows_db e k rs d = (fs, d')"
  shows "dom (tg_runs (db_trg d)) \<union> tr_run_id ` set rs \<subseteq> dom (tg_runs (db_trg d'))"
  using assms
proof (induction rs arbitrary: d fs)
  case (Cons r rs)
  obtain b d1 where r: "claim_row_db e k r d = (b, d1)" by force
  let ?d0 = "if tg_claims (db_trg d) (tr_run_id r) = None
    then on_trg (\<lambda>g. g\<lparr>tg_claims := (tg_claims g)(tr_run_id r \<mapsto> now e)\<rparr>) d else d"
  have "tg_runs (db_trg ?d0) = tg_runs (db_trg d)" by (simp add: on_trg_def)
  moreover have "d1 = run_writes k r ?d0 \<or> d1 = ?d0 \<and> tg_runs (db_trg ?d0) (tr_run_id r) \<noteq> None"
    using r by (auto simp: claim_row_db_def Let_def split: if_splits)
  ultimately have "insert (tr_run_id r) (dom (tg_runs (db_trg d))) \<subseteq> dom (tg_runs (db_trg d1))"
    using run_writes_runs [of r ?d0 k] by (elim disjE conjE) (simp_all add: domIff)
  moreover obtain gs d2 where rest: "claim_rows_db e k rs d1 = (gs, d2)" by force
  moreover have "d2 = d'" using Cons.prems r rest by (simp add: Let_def)
  ultimately show ?case using Cons.IH [of d1 gs] by auto
qed simp

section \<open>What stays claimed\<close>

definition run_started :: "str \<Rightarrow> db \<Rightarrow> bool" where
  "run_started x d \<longleftrightarrow> x \<in> dom (tg_claims (db_trg d)) \<and> x \<in> dom (tg_runs (db_trg d))"

interpretation started: table_invariant "run_started x" "\<lambda>_. True" for x
  by unfold_locales (simp add: derived_def run_started_def)

lemma started_writes:
  "keeps (run_started x) (execute_all (write_trigger_run k r))"
  "keeps (run_started x) (execute_all (concat (map remove_trigger_rows ids)))"
  "keeps (run_started x) (execute_all (map delete_valid ids))"
proof -
  show "keeps (run_started x) (execute_all (write_trigger_run k r))"
  proof (rule keeps_execute_all)
    fix f d
    assume "f \<in> set (write_trigger_run k r)" "run_started x d"
    then show "run_started x (f d)"
      using write_shape [of f k r d] unfolding run_started_def by (elim conjE) (simp only:, blast)
  qed
qed (intro keeps_execute_all; auto simp: remove_trigger_rows_def delete_valid_def on_trg_def run_started_def)+

lemma started_claims: "keeps (run_started x) (claim_rows e k rs)"
  by (rule keeps_claim_rows; (rule started_writes)?; auto simp: run_started_def on_trg_def)

lemma started_request:
  assumes "req \<noteq> QTriggerPurge"
  shows "keeps (run_started x) (sq_perform req e)"
proof (cases "trigger_request req")
  case True
  then show ?thesis using assms
    by (cases req; simp; simp only: request_defs sq_clear_valid_conditions_def;
      (intro started_claims started_writes keeps_intros)?; (auto simp: run_started_def on_trg_def Let_def)?)
qed (rule started.inv_request; simp)

lemma started_stays: "(sq_step (\<lambda>_ req. req \<noteq> QTriggerPurge))\<^sup>*\<^sup>* d d' \<Longrightarrow> run_started x d \<Longrightarrow> run_started x d'"
  by (induction rule: rtranclp_induct) (auto elim!: sq_stepE intro: keepsD [OF started_request])

definition won :: "trigger_run_record list \<Rightarrow> bool list \<Rightarrow> str list" where
  "won rs fs = map tr_run_id (map fst (filter snd (zip rs fs)))"

lemma claims_won:
  assumes "on_db (sq_claim_trigger_runs_with_records e k rs ids) d = (Inr fs, d')"
  shows "length fs = length rs" "distinct (won rs fs)"
    "set (won rs fs) = tr_run_id ` set rs - dom (tg_claims (db_trg d))" "\<And>r. r \<in> set rs \<Longrightarrow> run_started (tr_run_id r) d'"
proof -
  obtain d1 where rows: "claim_rows_db e k rs d = (fs, d1)" and d': "d' = fold delete_valid ids d1"
    using assms by (cases "claim_rows_db e k rs d") (simp add: claims_db)
  have valid: "tg_claims (db_trg (fold delete_valid ids d1)) = tg_claims (db_trg d1)"
    "tg_runs (db_trg (fold delete_valid ids d1)) = tg_runs (db_trg d1)"
    by (induction ids arbitrary: d1) (simp_all add: delete_valid_def on_trg_def)
  note seq = claim_rows_seq [OF rows] and spec = sq_claims.claim_seq_spec [OF claim_rows_seq [OF rows, THEN conjunct2]]
  show "length fs = length rs" "distinct (won rs fs)" "set (won rs fs) = tr_run_id ` set rs - dom (tg_claims (db_trg d))"
    using seq spec by (simp_all add: won_def)
  show "run_started (tr_run_id r) d'" if "r \<in> set rs" for r
    using that spec claim_rows_record [OF rows] by (auto simp: run_started_def d' valid simp del: set_map)
qed

section \<open>Properties\<close>

text \<open>C17. A trigger run starts once across processes: after a batch of claims has been committed, each run it won
  is won once in it and is recorded; whatever requests any processes make then, on connections that may fail
  at any statement, short of purging the trigger store, the run stays recorded and no claim on any
  connection, alone or in a batch, wins it again.\<close>

theorem sqlite_trigger_runs_start_once:
  assumes "on_db (sq_claim_trigger_runs_with_records e k rs ids) d0 = (Inr fs, d)" "x \<in> set (won rs fs)"
    and "(sq_step (\<lambda>_ req. req \<noteq> QTriggerPurge))\<^sup>*\<^sup>* d (cn_db c)"
  shows "distinct (won rs fs) \<and> (\<exists>row. tg_runs (db_trg (cn_db c)) x = Some row) \<and>
         fst (sq_claim_trigger_run e' x c) \<noteq> Inr True \<and>
         (\<forall>fs'. fst (sq_claim_trigger_runs_with_records e' k' rs' ids' c) = Inr fs' \<longrightarrow> x \<notin> set (won rs' fs'))"
proof -
  from assms(2) obtain r where r: "r \<in> set rs" "x = tr_run_id r" using claims_won(3) [OF assms(1)] by auto
  then have started: "run_started x (cn_db c)" using started_stays [OF assms(3)] claims_won(4) [OF assms(1)] by simp
  have "x \<notin> set (won rs' fs')" if "fst (sq_claim_trigger_runs_with_records e' k' rs' ids' c) = Inr fs'" for fs'
  proof -
    have "on_db (sq_claim_trigger_runs_with_records e' k' rs' ids') (cn_db c) =
        (Inr fs', cn_db (snd (sq_claim_trigger_runs_with_records e' k' rs' ids' c)))"
      using that by (intro answered) (auto intro: claims_faithful)
    then show ?thesis using claims_won(3) started by (auto simp: run_started_def)
  qed
  moreover have "fst (sq_claim_trigger_run e' x c) \<noteq> Inr True"
    using started by (auto simp: sq_claim_trigger_run_def locked_def insert_claim_def statement_def run_started_def
        split: option.splits nat.splits)
  ultimately show ?thesis using claims_won(2) [OF assms(1)] started by (auto simp: run_started_def)
qed

definition ex_run :: trigger_run_record where
  "ex_run = \<lparr>tr_run_id = ''run'', tr_trigger_id = ''t'', tr_task_id = ex_task, tr_logic = TOr, tr_arguments = JNull,
     tr_participants = [], tr_claimed_at = 0, tr_executed_at = None, tr_planned_invocation_id = Some ''i'',
     tr_triggered_invocation_id = None, tr_atomic_service_run_id = None, tr_atomic_service_runner_id = None\<rparr>"

definition ex_trg_codec :: trg_codec where
  "ex_trg_codec = \<lparr>tk_condition = (\<lambda>_. []), tk_parse_condition = (\<lambda>_. None), tk_context = (\<lambda>_. []),
     tk_parse_context = (\<lambda>_. None), tk_event = (\<lambda>_. []), tk_parse_event = (\<lambda>_. None), tk_run = (\<lambda>_. ''{}''),
     tk_parse_run = (\<lambda>_. Some ex_run)\<rparr>"

theorem sqlite_trigger_runs_start_once_witness:
  "\<exists>d fs. on_db (sq_claim_trigger_runs_with_records (sorted_env 0) ex_trg_codec [ex_run] []) initialize_schema = (Inr fs, d) \<and>
     won [ex_run] fs = [''run''] \<and> fst (sq_claim_trigger_run (sorted_env 9) ''run'' (healthy d)) \<noteq> Inr True"
proof -
  obtain d where run: "on_db (sq_claim_trigger_runs_with_records (sorted_env 0) ex_trg_codec [ex_run] []) initialize_schema = (Inr [True], d)"
    by (simp add: claims_db claim_row_db_def Let_def initialize_schema_def empty_trg_tables_def)
  moreover have "won [ex_run] [True] = [''run'']" by (simp add: won_def ex_run_def)
  ultimately show ?thesis
    using sqlite_trigger_runs_start_once [OF run, of "''run''" "healthy d"] by auto
qed

end
