(* ===== verification/Sqlite_Node.thy ===== *)
theory Sqlite_Node
  imports Sqlite_Trigger Sqlite_Publication Maintenance Dispatch
begin

text \<open>
  A process attached to a SQLite database. Its use cases are sequences of requests to the database; between two
  of them other processes make theirs. \<open>nd_others\<close> lists what the others do to the database before each of the
  following requests of this process (nothing, when the list is exhausted), so that a use case is modelled under
  any interleaving at the granularity of requests, which are the transactions. A process that dies is one whose
  connection carries out no further statement.
\<close>

record deployment =
  dp_service :: service
  dp_codec :: sq_codec
  dp_triggers :: "trg_codec option"
  dp_lease :: int
  dp_visit :: "nat \<Rightarrow> nat"

record node =
  nd_conn :: conn
  nd_others :: "(db \<Rightarrow> db) list"
  nd_catalog :: task_catalog
  nd_next_queue_index :: u64

definition others_act :: "node \<Rightarrow> node" where
  "others_act n =
     (case nd_others n of
        [] \<Rightarrow> n
      | g # gs \<Rightarrow> n\<lparr>nd_conn := (nd_conn n)\<lparr>cn_db := g (cn_db (nd_conn n))\<rparr>, nd_others := gs\<rparr>)"

definition on_conn :: "(conn \<Rightarrow> 'a result \<times> conn) \<Rightarrow> node \<Rightarrow> 'a result \<times> node" where
  "on_conn f n = (let n = others_act n in case f (nd_conn n) of (r, c) \<Rightarrow> (r, n\<lparr>nd_conn := c\<rparr>))"

text \<open>\<^verbatim>\<open>.ok()\<close>: an error is the missing value.\<close>

definition optional :: "'a result \<times> 's \<Rightarrow> 'a option result \<times> 's" where
  "optional r = (case r of (Inl _, s) \<Rightarrow> (Inr None, s) | (Inr x, s) \<Rightarrow> (Inr (Some x), s))"

text \<open>A change that someone else has already made is no error.\<close>

definition unless_invalid :: "'a \<Rightarrow> 'b result \<times> 's \<Rightarrow> ('b \<Rightarrow> 's \<Rightarrow> 'a result \<times> 's) \<Rightarrow> 'a result \<times> 's" where
  "unless_invalid skipped r next_step =
     (case r of
        (Inr x, s) \<Rightarrow> next_step x s
      | (Inl err, s) \<Rightarrow> (if is_invalid_transition err then (Inr skipped, s) else (Inl err, s)))"

abbreviation libs_of :: "deployment \<Rightarrow> libs" where
  "libs_of dp \<equiv> sv_libs (dp_service dp)"

abbreviation purges :: "deployment \<Rightarrow> bool" where
  "purges dp \<equiv> 0 < sv_auto_purge_delay_secs (dp_service dp)"

definition tx_routing :: "deployment \<Rightarrow> task_id \<Rightarrow> node \<Rightarrow> (str \<times> f64) result \<times> node" where
  "tx_routing dp t n =
     (case routing_for (sv_host (dp_service dp)) (sv_app (dp_service dp)) t (nd_catalog n) of
        (None, cat) \<Rightarrow> (Inl (TaskNotRegistered t), n\<lparr>nd_catalog := cat\<rparr>)
      | (Some route, cat) \<Rightarrow> (Inr route, n\<lparr>nd_catalog := cat\<rparr>))"

end
