(* ===== verification/Sqlite_Trigger_Manager.thy ===== *)
theory Sqlite_Trigger_Manager
  imports Sqlite_Node
begin

text \<open>
  The trigger manager, \<^verbatim>\<open>rustvello-core/src/trigger.rs\<close>, over the SQLite trigger store: reporting, events,
  cron slots, the claim of runs and their completion. The plans are those of \<open>Trigger_Manager\<close>; what differs is
  the store, where every call may fail and ends the operation there.
\<close>

section \<open>Reporting\<close>

fun sq_record_satisfied ::
    "libs \<Rightarrow> trg_codec \<Rightarrow> condition_context \<Rightarrow> (str \<times> trigger_condition) list \<Rightarrow> node
       \<Rightarrow> valid_condition list result \<times> node" where
  "sq_record_satisfied l k ctx [] n = (Inr [], n)"
| "sq_record_satisfied l k ctx ((cid, cond) # cs) n =
     (if is_satisfied_by l cond ctx then
        (let vc = valid_condition_new l cid ctx
         in and_then (on_conn (sq_record_valid_condition k vc) n) (\<lambda>_ n.
            and_then (sq_record_satisfied l k ctx cs n) (\<lambda>vs n. (Inr (vc # vs), n))))
      else sq_record_satisfied l k ctx cs n)"

definition sq_evaluate_task_conditions ::
    "libs \<Rightarrow> env \<Rightarrow> trg_codec \<Rightarrow> task_id \<Rightarrow> condition_context \<Rightarrow> node \<Rightarrow> valid_condition list result \<times> node" where
  "sq_evaluate_task_conditions l e k t ctx n =
     and_then (on_conn (sq_get_conditions_for_task e k t) n) (\<lambda>conds n. sq_record_satisfied l k ctx conds n)"

definition sq_report_status_change ::
    "libs \<Rightarrow> env \<Rightarrow> trg_codec \<Rightarrow> status_context \<Rightarrow> node \<Rightarrow> valid_condition list result \<times> node" where
  "sq_report_status_change l e k ctx = sq_evaluate_task_conditions l e k (sx_task_id ctx) (StatusCtx ctx)"

definition sq_report_result ::
    "libs \<Rightarrow> env \<Rightarrow> trg_codec \<Rightarrow> result_context \<Rightarrow> node \<Rightarrow> valid_condition list result \<times> node" where
  "sq_report_result l e k ctx = sq_evaluate_task_conditions l e k (rx_task_id ctx) (ResultCtx ctx)"

definition sq_report_failure ::
    "libs \<Rightarrow> env \<Rightarrow> trg_codec \<Rightarrow> exception_context \<Rightarrow> node \<Rightarrow> valid_condition list result \<times> node" where
  "sq_report_failure l e k ctx = sq_evaluate_task_conditions l e k (xx_task_id ctx) (ExceptionCtx ctx)"

text \<open>Errors of the monitoring record are dropped, those of the conditions are not.\<close>

definition sq_emit_event ::
    "libs \<Rightarrow> env \<Rightarrow> trg_codec \<Rightarrow> str \<Rightarrow> (str \<times> task_id) option \<Rightarrow> str \<Rightarrow> str \<Rightarrow> json \<Rightarrow> node \<Rightarrow> str result \<times> node" where
  "sq_emit_event l e k fresh emitter runner code payload n =
     (let ctx = EventCtx \<lparr>ex_event_id = fresh, ex_event_code = code, ex_payload = payload\<rparr>;
          record0 = \<lparr>ev_event_id = fresh, ev_event_code = code, ev_payload = payload,
                     ev_timestamp = now e, ev_matched_condition_ids = [],
                     ev_valid_condition_ids = [], ev_triggered_invocation_ids = [],
                     ev_by_invocation_id = map_option fst emitter,
                     ev_by_task_id = map_option snd emitter, ev_by_runner_id = Some runner\<rparr>
      in and_then (on_conn (sq_get_event_conditions e k code) (snd (on_conn (sq_store_event k record0) n))) (\<lambda>conds n.
         and_then (sq_record_satisfied l k ctx conds n) (\<lambda>vcs n.
           let record1 = record0\<lparr>ev_matched_condition_ids := map vc_condition_id vcs,
                                 ev_valid_condition_ids := map valid_condition_id vcs\<rparr>
           in (Inr fresh, if is_matched record1 then snd (on_conn (sq_store_event k record1) n) else n))))"

section \<open>Cron\<close>

definition sq_cron_try ::
    "libs \<Rightarrow> env \<Rightarrow> trg_codec \<Rightarrow> str \<Rightarrow> cron_condition \<Rightarrow> (time \<Rightarrow> time option) \<Rightarrow> time option \<Rightarrow> node
       \<Rightarrow> valid_condition list result \<times> node" where
  "sq_cron_try l e k cid cond schedule last_exec n =
     (if \<not> interval_ok e cond last_exec then (Inr [], n)
      else if cron_slot_due e schedule (now e) last_exec \<noteq> Some True then (Inr [], n)
      else and_then (on_conn (sq_store_cron_execution cid (now e) last_exec) n) (\<lambda>claimed n.
        if claimed then
          (let vc = valid_condition_new l cid (CronCtx \<lparr>cc_timestamp = now e, cc_last_execution = last_exec\<rparr>)
           in and_then (on_conn (sq_record_valid_condition k vc) n) (\<lambda>_ n. (Inr [vc], n)))
        else (Inr [], n)))"

definition sq_evaluate_cron ::
    "libs \<Rightarrow> env \<Rightarrow> trg_codec \<Rightarrow> str \<times> trigger_condition \<Rightarrow> node \<Rightarrow> valid_condition list result \<times> node" where
  "sq_evaluate_cron l e k cond n =
     (case cond of
        (cid, CronCond x) \<Rightarrow>
          (case cron_parse l (cron_expression x) of
             None \<Rightarrow> (Inr [], n)
           | Some schedule \<Rightarrow>
               and_then (on_conn (sq_get_last_cron_execution cid) n) (\<lambda>last_exec n. sq_cron_try l e k cid x schedule last_exec n))
      | _ \<Rightarrow> (Inr [], n))"

fun sq_evaluate_crons ::
    "libs \<Rightarrow> env \<Rightarrow> trg_codec \<Rightarrow> (str \<times> trigger_condition) list \<Rightarrow> node \<Rightarrow> valid_condition list result \<times> node" where
  "sq_evaluate_crons l e k [] n = (Inr [], n)"
| "sq_evaluate_crons l e k (x # xs) n =
     and_then (sq_evaluate_cron l e k x n) (\<lambda>vs n.
     and_then (sq_evaluate_crons l e k xs n) (\<lambda>ws n. (Inr (vs @ ws), n)))"

definition sq_evaluate_cron_conditions ::
    "libs \<Rightarrow> env \<Rightarrow> trg_codec \<Rightarrow> node \<Rightarrow> valid_condition list result \<times> node" where
  "sq_evaluate_cron_conditions l e k n =
     and_then (on_conn (sq_get_cron_conditions e k) n) (\<lambda>conds n. sq_evaluate_crons l e k conds n)"

section \<open>Trigger runs\<close>

text \<open>The triggers of the conditions, one query per condition.\<close>

fun sq_trigger_map ::
    "libs \<Rightarrow> env \<Rightarrow> str list \<Rightarrow> (str \<rightharpoonup> trigger_definition) \<Rightarrow> node \<Rightarrow> (str \<rightharpoonup> trigger_definition) result \<times> node" where
  "sq_trigger_map l e [] m n = (Inr m, n)"
| "sq_trigger_map l e (cid # cids) m n =
     and_then (on_conn (sq_get_triggers_for_condition e l cid) n) (\<lambda>ts n. sq_trigger_map l e cids (fold or_insert_trigger ts m) n)"

definition sq_evaluate_trigger_runs ::
    "libs \<Rightarrow> env \<Rightarrow> trg_codec \<Rightarrow> node \<Rightarrow> trigger_execution list result \<times> node" where
  "sq_evaluate_trigger_runs l e k n =
     and_then (on_conn (sq_get_valid_conditions e k) n) (\<lambda>vcs n.
       if vcs = [] then (Inr [], n)
       else
         and_then (sq_trigger_map l e (hash_order e (set (map vc_condition_id vcs))) Map.empty n) (\<lambda>m n.
           let plans = map (plan_trigger l e vcs) (List.map_filter m (hash_order e (dom m)));
               candidates = concat (map fst plans);
               consumed = sorted_list_of_set (set (concat (map snd plans)))
           in if candidates = [] then (Inr [], n)
              else and_then (on_conn (sq_claim_trigger_runs_with_records e k (map fst candidates) consumed) n) (\<lambda>claimed n.
                (Inr (map (snd \<circ> fst) (filter snd (zip candidates claimed))), n))))"

fun sq_mark_events :: "trg_codec \<Rightarrow> str list \<Rightarrow> str \<Rightarrow> node \<Rightarrow> unit result \<times> node" where
  "sq_mark_events k [] i n = (Inr (), n)"
| "sq_mark_events k (v # vs) i n =
     and_then (on_conn (sq_get_event k v) n) (\<lambda>found n.
       case found of
         None \<Rightarrow> sq_mark_events k vs i n
       | Some ev \<Rightarrow>
           (if i \<in> set (ev_triggered_invocation_ids ev) then sq_mark_events k vs i n
            else and_then
              (on_conn (sq_store_event k (ev\<lparr>ev_triggered_invocation_ids := ev_triggered_invocation_ids ev @ [i]\<rparr>)) n)
              (\<lambda>_ n. sq_mark_events k vs i n)))"

definition sq_complete_trigger_run :: "env \<Rightarrow> trg_codec \<Rightarrow> str \<Rightarrow> str \<Rightarrow> node \<Rightarrow> unit result \<times> node" where
  "sq_complete_trigger_run e k run_id i n =
     and_then (on_conn (sq_get_trigger_run k run_id) n) (\<lambda>found n.
       case found of
         None \<Rightarrow> (Inr (), n)
       | Some run \<Rightarrow>
           (let run' = run\<lparr>tr_triggered_invocation_id := Some i, tr_executed_at := Some (now e)\<rparr>
            in and_then (on_conn (sq_store_trigger_run k run') n) (\<lambda>_ n. sq_mark_events k (run_event_ids run') i n)))"

end
