(* ===== verification/Sqlite_Service.thy ===== *)
theory Sqlite_Service
  imports Sqlite_Trigger_Manager Sqlite_State
begin

text \<open>
  The service of \<^verbatim>\<open>rustvello/src/orchestration/\<close> over the SQLite backends: the branches of its use cases
  for a backend with transactional publication. Broker, control and state ports share one database, so
  \<^verbatim>\<open>publication()\<close> always finds it. A use case is the sequence of its requests to the
  database, each of which may fail, and what it does with a failure is the code's. One use case reads the clock
  once. \<open>tx_\<close> marks the transactional form of a use case of \<open>Orchestration\<close>, \<open>Dispatch\<close>,
  \<open>Maintenance\<close> and \<open>Execution\<close>.
\<close>

section \<open>Status, results, exceptions, retries\<close>

definition tx_invocation_arguments :: "deployment \<Rightarrow> str \<Rightarrow> node \<Rightarrow> serialized_arguments result \<times> node" where
  "tx_invocation_arguments dp i n =
     and_then (optional (on_conn (sq_get_invocation i) n)) (\<lambda>dto n.
       case dto of
         None \<Rightarrow> (Inr [], n)
       | Some dto \<Rightarrow>
           and_then (optional (on_conn (sq_get_call (dp_codec dp) (inv_call_id dto)) n)) (\<lambda>call n.
             (Inr (case call of None \<Rightarrow> [] | Some x \<Rightarrow> cd_serialized_arguments x), n)))"

definition tx_trigger_context :: "deployment \<Rightarrow> str \<Rightarrow> node \<Rightarrow> (task_id \<times> serialized_arguments) result \<times> node" where
  "tx_trigger_context dp i n =
     and_then (optional (on_conn (sq_get_invocation i) n)) (\<lambda>dto n.
       case dto of
         None \<Rightarrow> (Inr (rust_task ''unknown'' ''unknown'', []), n)
       | Some dto \<Rightarrow>
           and_then (optional (on_conn (sq_get_call (dp_codec dp) (inv_call_id dto)) n)) (\<lambda>call n.
             (Inr (inv_task_id dto, case call of None \<Rightarrow> [] | Some x \<Rightarrow> cd_serialized_arguments x), n)))"

definition tx_status_context :: "deployment \<Rightarrow> str \<Rightarrow> node \<Rightarrow> (task_id \<times> serialized_arguments) result \<times> node" where
  "tx_status_context dp i n =
     (if dp_triggers dp \<noteq> None then tx_trigger_context dp i n else (Inr (rust_task ''_'' ''_'', []), n))"

text \<open>A call of the trigger manager, when one is configured; its value is dropped.\<close>

definition tx_notify :: "deployment \<Rightarrow> (trg_codec \<Rightarrow> node \<Rightarrow> 'a result \<times> node) \<Rightarrow> node \<Rightarrow> unit result \<times> node" where
  "tx_notify dp f n =
     (case dp_triggers dp of
        None \<Rightarrow> (Inr (), n)
      | Some k \<Rightarrow> and_then (f k n) (\<lambda>_ n. (Inr (), n)))"

definition report_published_status ::
    "deployment \<Rightarrow> env \<Rightarrow> str \<Rightarrow> invocation_status \<Rightarrow> task_id \<Rightarrow> serialized_arguments \<Rightarrow> node \<Rightarrow> unit result \<times> node" where
  "report_published_status dp e i status t args n =
     tx_notify dp (\<lambda>k. sq_report_status_change (libs_of dp) e k
       \<lparr>sx_invocation_id = i, sx_task_id = t, sx_status = status, sx_arguments = args\<rparr>) n"

text \<open>The \<^verbatim>\<open>expect\<close> of the code panics when an ordinary status change answers no record.\<close>

definition tx_set_status_with_context ::
    "deployment \<Rightarrow> env \<Rightarrow> str \<Rightarrow> invocation_status \<Rightarrow> str \<Rightarrow> task_id \<Rightarrow> serialized_arguments \<Rightarrow> node
       \<Rightarrow> status_record result \<times> node" where
  "tx_set_status_with_context dp e i status runner t args n =
     and_then (on_conn (sq_change e i runner (PStatus status) (purges dp)) n) (\<lambda>rec n.
       case rec of
         None \<Rightarrow> (Inl Panic, n)
       | Some rec \<Rightarrow> and_then (report_published_status dp e i status t args n) (\<lambda>_ n. (Inr rec, n)))"

definition tx_set_status ::
    "deployment \<Rightarrow> env \<Rightarrow> str \<Rightarrow> invocation_status \<Rightarrow> str \<Rightarrow> node \<Rightarrow> status_record result \<times> node" where
  "tx_set_status dp e i status runner n =
     and_then (tx_status_context dp i n) (\<lambda>(t, args) n. tx_set_status_with_context dp e i status runner t args n)"

definition tx_set_result_with_context ::
    "deployment \<Rightarrow> env \<Rightarrow> str \<Rightarrow> str \<Rightarrow> str \<Rightarrow> task_id \<Rightarrow> serialized_arguments \<Rightarrow> node \<Rightarrow> unit result \<times> node" where
  "tx_set_result_with_context dp e i result runner t args n =
     and_then (on_conn (sq_change e i runner (PSuccess result) (purges dp)) n) (\<lambda>_ n.
     and_then (report_published_status dp e i Success t args n) (\<lambda>_ n.
       tx_notify dp (\<lambda>k. sq_report_result (libs_of dp) e k
         \<lparr>rx_invocation_id = i, rx_task_id = t,
          rx_result = or_else (json_from_str (libs_of dp) result) (JString result), rx_arguments = args\<rparr>) n))"

definition tx_set_result :: "deployment \<Rightarrow> env \<Rightarrow> str \<Rightarrow> str \<Rightarrow> str \<Rightarrow> node \<Rightarrow> unit result \<times> node" where
  "tx_set_result dp e i result runner n =
     and_then (tx_status_context dp i n) (\<lambda>(t, args) n. tx_set_result_with_context dp e i result runner t args n)"

definition tx_set_exception_with_context ::
    "deployment \<Rightarrow> env \<Rightarrow> str \<Rightarrow> str \<Rightarrow> str \<Rightarrow> str \<Rightarrow> task_id \<Rightarrow> serialized_arguments \<Rightarrow> node \<Rightarrow> unit result \<times> node" where
  "tx_set_exception_with_context dp e i error_type error_message runner t args n =
     and_then (on_conn (sq_change e i runner
         (PFailure \<lparr>err_type = error_type, err_message = error_message, err_traceback = None\<rparr>) (purges dp)) n) (\<lambda>_ n.
     and_then (report_published_status dp e i Failed t args n) (\<lambda>_ n.
       tx_notify dp (\<lambda>k. sq_report_failure (libs_of dp) e k
         \<lparr>xx_invocation_id = i, xx_task_id = t, xx_error_type = error_type,
          xx_error_message = error_message, xx_arguments = args\<rparr>) n))"

definition tx_set_exception ::
    "deployment \<Rightarrow> env \<Rightarrow> str \<Rightarrow> str \<Rightarrow> str \<Rightarrow> str \<Rightarrow> node \<Rightarrow> unit result \<times> node" where
  "tx_set_exception dp e i error_type error_message runner n =
     and_then (tx_status_context dp i n) (\<lambda>(t, args) n.
       tx_set_exception_with_context dp e i error_type error_message runner t args n)"

definition tx_set_retry_with_context ::
    "deployment \<Rightarrow> env \<Rightarrow> str \<Rightarrow> str \<Rightarrow> task_id \<Rightarrow> serialized_arguments \<Rightarrow> str \<Rightarrow> f64 \<Rightarrow> node \<Rightarrow> unit result \<times> node" where
  "tx_set_retry_with_context dp e i runner t args q p n =
     and_then (on_conn (sq_change e i runner (PRetry \<lparr>pr_queue = q, pr_priority = p\<rparr>) False) n) (\<lambda>_ n.
       report_published_status dp e i Retry t args n)"

definition tx_set_retry :: "deployment \<Rightarrow> env \<Rightarrow> str \<Rightarrow> str \<Rightarrow> str \<Rightarrow> f64 \<Rightarrow> node \<Rightarrow> unit result \<times> node" where
  "tx_set_retry dp e i runner q p n =
     and_then (on_conn (sq_get_invocation i) n) (\<lambda>dto n.
     and_then (tx_invocation_arguments dp i n) (\<lambda>args n.
       tx_set_retry_with_context dp e i runner (inv_task_id dto) args q p n))"

definition tx_retry_invocation :: "deployment \<Rightarrow> env \<Rightarrow> str \<Rightarrow> str \<Rightarrow> node \<Rightarrow> unit result \<times> node" where
  "tx_retry_invocation dp e i runner n =
     and_then (on_conn (sq_get_invocation i) n) (\<lambda>dto n.
     and_then (tx_routing dp (inv_task_id dto) n) (\<lambda>(q, p) n. tx_set_retry dp e i runner q p n))"

definition tx_set_retry_after_with_context ::
    "deployment \<Rightarrow> env \<Rightarrow> str \<Rightarrow> str \<Rightarrow> task_id \<Rightarrow> serialized_arguments \<Rightarrow> str \<Rightarrow> f64 \<Rightarrow> int \<Rightarrow> node
       \<Rightarrow> unit result \<times> node" where
  "tx_set_retry_after_with_context dp e i runner t args q p delay n =
     (if delay = 0 then tx_set_retry_with_context dp e i runner t args q p n
      else
        and_then (on_conn (sq_change e i runner (PDelayedRetry \<lparr>pr_queue = q, pr_priority = p\<rparr> delay) False) n) (\<lambda>_ n.
          report_published_status dp e i Retry t args n))"

definition tx_cancel_invocation :: "deployment \<Rightarrow> env \<Rightarrow> str \<Rightarrow> str \<Rightarrow> node \<Rightarrow> cancel_outcome result \<times> node" where
  "tx_cancel_invocation dp e i runner n =
     and_then (on_conn (sq_get_invocation_status i) n) (\<lambda>current n.
       if is_terminal (sr_status current) then (Inr (AlreadyFinal (sr_status current)), n)
       else
         (case tx_set_status dp e i Cancelled runner n of
            (Inr _, n) \<Rightarrow> (Inr CancelledNow, n)
          | (Inl err, n) \<Rightarrow>
              (if is_invalid_transition err \<or> is_race err then
                 and_then (on_conn (sq_get_invocation_status i) n) (\<lambda>rec n.
                   (Inr (if sr_status rec = Cancelled then CancelledNow else AlreadyFinal (sr_status rec)), n))
               else (Inl err, n))))"

section \<open>Registration and routing\<close>

text \<open>A submission and, when it was the first under its id, the report of the registration.\<close>

definition tx_publish ::
    "deployment \<Rightarrow> env \<Rightarrow> submission_publication \<Rightarrow> node \<Rightarrow> unit result \<times> node" where
  "tx_publish dp e s n =
     and_then (on_conn (sq_submit (dp_codec dp) e s) n) (\<lambda>created n.
       if created then
         report_published_status dp e (inv_id (sp_invocation s)) Registered (cd_task_id (sp_call s))
           (cd_serialized_arguments (sp_call s)) n
       else (Inr (), n))"

fun tx_register_all ::
    "deployment \<Rightarrow> env \<Rightarrow> str \<Rightarrow> ((invocation_dto \<times> call_dto) \<times> (str \<times> f64)) list \<Rightarrow> node \<Rightarrow> unit result \<times> node" where
  "tx_register_all dp e runner [] n = (Inr (), n)"
| "tx_register_all dp e runner (((dto, call), (q, p)) # rest) n =
     and_then (tx_publish dp e
       \<lparr>sp_invocation = dto, sp_call = call, sp_runner = runner, sp_runner_context = None,
        sp_workflow_root = (case inv_workflow dto of None \<Rightarrow> False | Some w \<Rightarrow> workflow_id w = inv_id dto),
        sp_cc_arguments = None, sp_route = \<lparr>pr_queue = q, pr_priority = p\<rparr>\<rparr> n) (\<lambda>_ n.
       tx_register_all dp e runner rest n)"

definition tx_register_invocations ::
    "deployment \<Rightarrow> env \<Rightarrow> (invocation_dto \<times> call_dto) list \<Rightarrow> str \<Rightarrow> (str \<times> f64) list \<Rightarrow> node \<Rightarrow> unit result \<times> node" where
  "tx_register_invocations dp e invs runner routes n =
     (if length invs \<noteq> length routes then (Inl Internal, n) else tx_register_all dp e runner (zip invs routes) n)"

definition tx_create_and_route ::
    "deployment \<Rightarrow> env \<Rightarrow> str \<Rightarrow> call_dto \<Rightarrow> serialized_arguments option \<Rightarrow> bool \<Rightarrow> str \<Rightarrow> str \<Rightarrow> f64 \<Rightarrow> node
       \<Rightarrow> str result \<times> node" where
  "tx_create_and_route dp e i call cc_args index_cc runner q p n =
     and_then (tx_publish dp e
       \<lparr>sp_invocation = invocation_dto_new (now e) i (cd_task_id call) (cd_call_id call), sp_call = call,
        sp_runner = runner, sp_runner_context = None, sp_workflow_root = False,
        sp_cc_arguments = (if index_cc then cc_args else None), sp_route = \<lparr>pr_queue = q, pr_priority = p\<rparr>\<rparr> n) (\<lambda>_ n.
       (Inr i, n))"

definition tx_route_call ::
    "deployment \<Rightarrow> env \<Rightarrow> str \<Rightarrow> call_dto \<Rightarrow> serialized_arguments option \<Rightarrow> concurrency_control_type \<Rightarrow> bool
       \<Rightarrow> str \<Rightarrow> str \<Rightarrow> f64 \<Rightarrow> node \<Rightarrow> route_call_result result \<times> node" where
  "tx_route_call dp e i call cc_args registration_cc index_cc runner q p n =
     (let create = (\<lambda>n. and_then (tx_create_and_route dp e i call cc_args index_cc runner q p n)
                           (\<lambda>i n. (Inr (NewInvocation i), n)))
      in if registration_cc = Unlimited then create n
         else
           and_then (on_conn (sq_get_existing_invocations e (cd_task_id call) cc_args [Registered]) n) (\<lambda>existing n.
             case existing of
               [] \<Rightarrow> create n
             | j # _ \<Rightarrow>
                 and_then (on_conn (sq_get_invocation j) n) (\<lambda>dto n.
                   if inv_call_id dto = cd_call_id call then (Inr (Reused j), n)
                   else (Inr (ReusedDifferentCall j (inv_call_id dto)), n))))"

definition tx_route_catalog_call ::
    "deployment \<Rightarrow> env \<Rightarrow> str \<Rightarrow> call_dto \<Rightarrow> serialized_arguments option \<Rightarrow> concurrency_control_type \<Rightarrow> bool
       \<Rightarrow> str \<Rightarrow> node \<Rightarrow> route_call_result result \<times> node" where
  "tx_route_catalog_call dp e i call cc_args registration_cc index_cc runner n =
     and_then (tx_routing dp (cd_task_id call) n) (\<lambda>(q, p) n.
       tx_route_call dp e i call cc_args registration_cc index_cc runner q p n)"

fun tx_reroute_invocations ::
    "deployment \<Rightarrow> env \<Rightarrow> str \<Rightarrow> (str \<rightharpoonup> str \<times> f64) \<Rightarrow> str list \<Rightarrow> node \<Rightarrow> unit result \<times> node" where
  "tx_reroute_invocations dp e runner routes [] n = (Inr (), n)"
| "tx_reroute_invocations dp e runner routes (i # is) n =
     (case routes i of
        None \<Rightarrow> (Inl Internal, n)
      | Some (q, p) \<Rightarrow>
          and_then (unless_invalid ()
            (on_conn (sq_change e i runner (PReroute \<lparr>pr_queue = q, pr_priority = p\<rparr>) False) n) (\<lambda>_ n. (Inr (), n)))
            (\<lambda>_ n. tx_reroute_invocations dp e runner routes is n))"

fun tx_catalog_routes ::
    "deployment \<Rightarrow> str list \<Rightarrow> (str \<rightharpoonup> str \<times> f64) \<Rightarrow> node \<Rightarrow> (str \<rightharpoonup> str \<times> f64) result \<times> node" where
  "tx_catalog_routes dp [] m n = (Inr m, n)"
| "tx_catalog_routes dp (i # is) m n =
     and_then (on_conn (sq_get_invocation i) n) (\<lambda>dto n.
     and_then (tx_routing dp (inv_task_id dto) n) (\<lambda>route n. tx_catalog_routes dp is (m(i \<mapsto> route)) n))"

definition tx_reroute_catalog_invocations ::
    "deployment \<Rightarrow> env \<Rightarrow> str list \<Rightarrow> str \<Rightarrow> node \<Rightarrow> unit result \<times> node" where
  "tx_reroute_catalog_invocations dp e ids runner n =
     and_then (tx_catalog_routes dp ids Map.empty n) (\<lambda>routes n. tx_reroute_invocations dp e runner routes ids n)"

end
