(* ===== verification/Sqlite_Runner.thy ===== *)
theory Sqlite_Runner
  imports Sqlite_Service Sqlite_Broker Sqlite_Orchestrator Sqlite_Publication Execution
begin

text \<open>
  Recovery, submission, retrieval, the trigger loop and the execution of an attempt over the SQLite backends:
  \<^verbatim>\<open>maintenance.rs\<close>, \<^verbatim>\<open>submission.rs\<close>, \<^verbatim>\<open>dispatch.rs\<close>, \<^verbatim>\<open>retrieval.rs\<close>,
  \<^verbatim>\<open>triggers.rs\<close> of \<^verbatim>\<open>rustvello/src/orchestration/\<close> and
  \<^verbatim>\<open>rustvello/src/runner/executor_common.rs\<close>. Concurrency slots are released by the transactions
  (\<^verbatim>\<open>release_nontransactional_concurrency_slot\<close> does nothing here). Fail points are not armed.
\<close>

section \<open>Recovery\<close>

definition tx_recovery_count :: "str \<Rightarrow> node \<Rightarrow> nat result \<times> node" where
  "tx_recovery_count i n =
     and_then (optional (on_conn (sq_get_history i) n)) (\<lambda>h n.
       (Inr (case h of None \<Rightarrow> 0 | Some hs \<Rightarrow> length (filter (\<lambda>h. is_recovery_status (sr_status (h_status_record h))) hs)), n))"

definition tx_fail_recovery_limit ::
    "deployment \<Rightarrow> env \<Rightarrow> str \<Rightarrow> str \<Rightarrow> invocation_status \<Rightarrow> bool \<Rightarrow> nat \<Rightarrow> node \<Rightarrow> recovery_outcome result \<times> node" where
  "tx_fail_recovery_limit dp e i runner recovery_status resuming previous n =
     (let fail = (\<lambda>n.
        and_then (on_conn (sq_store_error i
            \<lparr>err_type = RECOVERY_LIMIT_ERROR, err_message = recovery_limit_message i previous, err_traceback = None\<rparr>) n) (\<lambda>_ n.
        and_then (tx_set_status dp e i Failed runner n) (\<lambda>_ n. (Inr RecFailed, n))))
      in if resuming then fail n
         else unless_invalid RecSkipped (tx_set_status dp e i recovery_status runner n) (\<lambda>_ n. fail n))"

fun tx_report_statuses ::
    "deployment \<Rightarrow> env \<Rightarrow> str \<Rightarrow> invocation_status list \<Rightarrow> task_id \<Rightarrow> serialized_arguments \<Rightarrow> node \<Rightarrow> unit result \<times> node" where
  "tx_report_statuses dp e i [] t args n = (Inr (), n)"
| "tx_report_statuses dp e i (st # sts) t args n =
     and_then (report_published_status dp e i st t args n) (\<lambda>_ n. tx_report_statuses dp e i sts t args n)"

definition tx_recover_one ::
    "deployment \<Rightarrow> env \<Rightarrow> str \<Rightarrow> str \<Rightarrow> invocation_status \<Rightarrow> node \<Rightarrow> recovery_outcome result \<times> node" where
  "tx_recover_one dp e runner i recovery_status n =
     and_then (on_conn (sq_get_invocation i) n) (\<lambda>dto n.
     and_then (on_conn (sq_get_invocation_status i) n) (\<lambda>current n.
     and_then (tx_recovery_count i n) (\<lambda>previous n.
       let app = sv_app (dp_service dp);
           resuming = is_recovery_status (sr_status current);
           limit = unat (max_invocation_recoveries app);
           attempts = (if resuming then previous else previous + 1)
       in if 0 < limit \<and> limit < attempts
          then tx_fail_recovery_limit dp e i runner recovery_status resuming previous n
          else
            and_then (tx_routing dp (inv_task_id dto) n) (\<lambda>(q, p) n.
              let route = \<lparr>pr_queue = q, pr_priority = p\<rparr>;
                  change = (if resuming then PReroute route
                            else PRecover recovery_status
                              (if recovery_status = PendingRecovery then max_pending_seconds app
                               else runner_dead_after_seconds app) route)
              in and_then (on_conn (sq_change e i runner change False) n) (\<lambda>recovered n.
                   if recovered = None then (Inr RecSkipped, n)
                   else
                     and_then (tx_invocation_arguments dp i n) (\<lambda>args n.
                     and_then (tx_report_statuses dp e i (if resuming then [Rerouted] else [recovery_status, Rerouted])
                         (inv_task_id dto) args n) (\<lambda>_ n.
                       (Inr RecRerouted, n))))))))"

fun tx_still_in ::
    "invocation_status \<Rightarrow> time \<Rightarrow> str list \<Rightarrow> node \<Rightarrow> (str \<times> invocation_status) list result \<times> node" where
  "tx_still_in status cutoff [] n = (Inr [], n)"
| "tx_still_in status cutoff (i # is) n =
     and_then (optional (on_conn (sq_get_invocation_status i) n)) (\<lambda>rec n.
     and_then (tx_still_in status cutoff is n) (\<lambda>rest n.
       (Inr (case rec of
               None \<Rightarrow> rest
             | Some r \<Rightarrow> (if sr_status r = status \<and> sr_timestamp r < cutoff then (i, status) # rest else rest)), n)))"

text \<open>A list that cannot be read is skipped; the cutoff is computed after it was read.\<close>

definition tx_interrupted_in ::
    "env \<Rightarrow> invocation_status \<Rightarrow> u64 \<Rightarrow> node \<Rightarrow> (str \<times> invocation_status) list result \<times> node" where
  "tx_interrupted_in e status stale_after n =
     and_then (optional (on_conn (sq_get_invocations_by_status e status None) n)) (\<lambda>ids n.
       case ids of
         None \<Rightarrow> (Inr [], n)
       | Some ids \<Rightarrow>
           (case sub_secs e (now e) (clamp_i64 stale_after) of
              None \<Rightarrow> (Inl Panic, n)
            | Some cutoff \<Rightarrow> tx_still_in status cutoff ids n))"

fun tx_recover_all ::
    "deployment \<Rightarrow> env \<Rightarrow> str \<Rightarrow> (str \<times> invocation_status) list \<Rightarrow> node \<Rightarrow> nat result \<times> node" where
  "tx_recover_all dp e runner [] n = (Inr 0, n)"
| "tx_recover_all dp e runner ((i, status) # rest) n =
     and_then (optional (tx_recover_one dp e runner i status n)) (\<lambda>outcome n.
     and_then (tx_recover_all dp e runner rest n) (\<lambda>k n.
       (Inr (if outcome = Some RecRerouted then Suc k else k), n)))"

definition tx_recover_stale_invocations :: "deployment \<Rightarrow> env \<Rightarrow> str \<Rightarrow> node \<Rightarrow> nat result \<times> node" where
  "tx_recover_stale_invocations dp e runner n =
     (let app = sv_app (dp_service dp)
      in and_then (on_conn (sq_get_stale_pending_invocations e (max_pending_seconds app)) n) (\<lambda>pending n.
         and_then (on_conn (sq_get_stale_running_invocations e (runner_dead_after_seconds app)) n) (\<lambda>running n.
         and_then (tx_interrupted_in e PendingRecovery (max_pending_seconds app) n) (\<lambda>xs n.
         and_then (tx_interrupted_in e RunningRecovery (runner_dead_after_seconds app) n) (\<lambda>ys n.
           tx_recover_all dp e runner
             (map (\<lambda>i. (i, PendingRecovery)) pending @ map (\<lambda>i. (i, RunningRecovery)) running @ xs @ ys) n)))))"

section \<open>Submission\<close>

definition tx_submit_with_id ::
    "deployment \<Rightarrow> env \<Rightarrow> caller_info \<Rightarrow> str \<Rightarrow> call_dto \<Rightarrow> trace_context option \<Rightarrow> str option \<Rightarrow> node \<Rightarrow> str result \<times> node" where
  "tx_submit_with_id dp e ci fresh call explicit_trace requested_id n =
     (case registry_get_dyn (cd_task_id call) (registry (nd_catalog n)) of
        None \<Rightarrow> (Inl (TaskNotRegistered (cd_task_id call)), n)
      | Some base \<Rightarrow>
          (let app = sv_app (dp_service dp);
               (c, cat) = resolve_config (sv_host (dp_service dp)) app (cd_task_id call) base (nd_catalog n);
               n = n\<lparr>nd_catalog := cat\<rparr>;
               i = or_else requested_id fresh;
               (parent, wfl) = resolve_workflow ci i (cd_task_id call) (is_workflow_task c)
           in and_then (resolve_trace_context ci explicit_trace, n) (\<lambda>trace n.
                let caller = (if ci_app_id ci = app_id app then ci_runner ci else ci_external ci)
                in and_then (on_conn (sq_submit (dp_codec dp) e
                     \<lparr>sp_invocation = with_trace_context trace (submitted_dto e i (cd_task_id call) (cd_call_id call) parent wfl),
                      sp_call = call, sp_runner = src_runner_id caller, sp_runner_context = Some caller,
                      sp_workflow_root = is_workflow_task c, sp_cc_arguments = None,
                      sp_route = \<lparr>pr_queue = queue c, pr_priority = priority c\<rparr>\<rparr>) n) (\<lambda>_ n. (Inr i, n)))))"

fun tx_find_registered ::
    "deployment \<Rightarrow> concurrency_control_type \<Rightarrow> str list \<Rightarrow> serialized_arguments option \<Rightarrow> str list \<Rightarrow> node
       \<Rightarrow> str option result \<times> node" where
  "tx_find_registered dp mode keys requested [] n = (Inr None, n)"
| "tx_find_registered dp mode keys requested (i # is) n =
     (if mode = TaskCC then (Inr (Some i), n)
      else
        and_then (on_conn (sq_get_invocation i) n) (\<lambda>dto n.
        and_then (on_conn (sq_get_call (dp_codec dp) (inv_call_id dto)) n) (\<lambda>call n.
          if concurrency_arguments mode keys (cd_serialized_arguments call) = requested then (Inr (Some i), n)
          else tx_find_registered dp mode keys requested is n)))"

definition tx_submit_with_registration_control ::
    "deployment \<Rightarrow> env \<Rightarrow> caller_info \<Rightarrow> str \<Rightarrow> task_id \<Rightarrow> serialized_arguments \<Rightarrow> node \<Rightarrow> str result \<times> node" where
  "tx_submit_with_registration_control dp e ci fresh t args n =
     (case registry_get_dyn t (registry (nd_catalog n)) of
        None \<Rightarrow> (Inl (TaskNotRegistered t), n)
      | Some base \<Rightarrow>
          (let (c, cat) = resolve_config (sv_host (dp_service dp)) (sv_app (dp_service dp)) t base (nd_catalog n);
               n = n\<lparr>nd_catalog := cat\<rparr>;
               call = call_dto_new (sha256 (libs_of dp)) (json_str (libs_of dp)) t args;
               mode = registration_concurrency c
           in if mode = Unlimited then tx_submit_with_id dp e ci fresh call None None n
              else
                and_then (on_conn (sq_get_existing_invocations e t None (filter (\<lambda>st. \<not> is_terminal st) ALL_STATUSES)) n)
                  (\<lambda>existing n.
                and_then (tx_find_registered dp mode (key_arguments c)
                    (concurrency_arguments mode (key_arguments c) args) existing n) (\<lambda>found n.
                  case found of
                    Some i \<Rightarrow> (Inr i, n)
                  | None \<Rightarrow> tx_submit_with_id dp e ci fresh call None None n))))"

section \<open>Admission and claim\_next\<close>

definition tx_refuse_candidate ::
    "env \<Rightarrow> str \<Rightarrow> task_config \<Rightarrow> str \<Rightarrow> node \<Rightarrow> bool result \<times> node" where
  "tx_refuse_candidate e caller c i n =
     (if reroute_on_cc c then
        unless_invalid False
          (on_conn (sq_change e i caller (PConcurrencyReroute \<lparr>pr_queue = queue c, pr_priority = priority c\<rparr>) False) n)
          (\<lambda>_ n. (Inr False, n))
      else
        unless_invalid False (on_conn (sq_set_invocation_status e i ConcurrencyControlledFinal None) n) (\<lambda>_ n. (Inr False, n)))"

definition tx_admit_candidate ::
    "deployment \<Rightarrow> env \<Rightarrow> str \<Rightarrow> task_registry \<Rightarrow> str \<Rightarrow> node \<Rightarrow> bool result \<times> node" where
  "tx_admit_candidate dp e caller reg i n =
     and_then (optional (on_conn (sq_get_invocation i) n)) (\<lambda>dto n.
       case dto of
         None \<Rightarrow> (Inr True, n)
       | Some dto \<Rightarrow>
           (case registry_get_dyn (inv_task_id dto) reg of
              None \<Rightarrow> (Inr True, n)
            | Some c \<Rightarrow>
                (if concurrency_control c = Unlimited then (Inr True, n)
                 else
                   and_then (optional (on_conn (sq_get_call (dp_codec dp) (inv_call_id dto)) n)) (\<lambda>call n.
                     case call of
                       None \<Rightarrow> (Inr True, n)
                     | Some call \<Rightarrow>
                         and_then (on_conn (sq_try_acquire_concurrency_slot i (inv_task_id dto) c
                             (concurrency_arguments (concurrency_control c) (key_arguments c) (cd_serialized_arguments call))) n)
                           (\<lambda>admitted n. if admitted then (Inr True, n) else tx_refuse_candidate e caller c i n)))))"

fun tx_claim_blocking ::
    "deployment \<Rightarrow> env \<Rightarrow> str \<Rightarrow> task_registry \<Rightarrow> task_language \<Rightarrow> str list \<Rightarrow> node \<Rightarrow> str option result \<times> node" where
  "tx_claim_blocking dp e caller reg lang [] n = (Inr None, n)"
| "tx_claim_blocking dp e caller reg lang (i # is) n =
     and_then (optional (on_conn (sq_get_invocation i) n)) (\<lambda>dto n.
       if (case dto of None \<Rightarrow> True | Some dto \<Rightarrow> tid_language (inv_task_id dto) = lang) then
         and_then (tx_admit_candidate dp e caller reg i n) (\<lambda>admitted n.
           if admitted then (Inr (Some i), n) else tx_claim_blocking dp e caller reg lang is n)
       else tx_claim_blocking dp e caller reg lang is n)"

fun tx_retrieve_first ::
    "(str \<Rightarrow> conn \<Rightarrow> str option result \<times> conn) \<Rightarrow> str list \<Rightarrow> node \<Rightarrow> str option result \<times> node" where
  "tx_retrieve_first take_from [] n = (Inr None, n)"
| "tx_retrieve_first take_from (q # qs) n =
     and_then (on_conn (take_from q) n) (\<lambda>found n.
       case found of None \<Rightarrow> tx_retrieve_first take_from qs n | Some i \<Rightarrow> (Inr (Some i), n))"

fun tx_claim_rounds ::
    "deployment \<Rightarrow> env \<Rightarrow> str \<Rightarrow> task_registry \<Rightarrow> task_language \<Rightarrow> (nat \<Rightarrow> str list \<Rightarrow> str list) \<Rightarrow> nat \<Rightarrow> node
       \<Rightarrow> str option result \<times> node" where
  "tx_claim_rounds dp e caller reg lang shuffle 0 n = (Inr None, n)"
| "tx_claim_rounds dp e caller reg lang shuffle (Suc k) n =
     (let (queues, idx) = queue_names_for_retrieval (sv_app (dp_service dp)) (shuffle k) (nd_next_queue_index n)
      in and_then (tx_retrieve_first (\<lambda>q. reserve (dp_lease dp) e (dp_visit dp) q None (Some lang)) queues
             (n\<lparr>nd_next_queue_index := idx\<rparr>)) (\<lambda>candidate n.
           case candidate of
             None \<Rightarrow> (Inr None, n)
           | Some i \<Rightarrow>
               and_then (tx_admit_candidate dp e caller reg i n) (\<lambda>admitted n.
                 if admitted then (Inr (Some i), n) else tx_claim_rounds dp e caller reg lang shuffle k n)))"

definition tx_claim_next ::
    "deployment \<Rightarrow> env \<Rightarrow> str \<Rightarrow> task_registry \<Rightarrow> task_language \<Rightarrow> (nat \<Rightarrow> str list \<Rightarrow> str list) \<Rightarrow> node
       \<Rightarrow> str option result \<times> node" where
  "tx_claim_next dp e caller reg lang shuffle n =
     and_then (optional (on_conn (sq_get_blocking_invocations e MAX_BLOCKING_CANDIDATES) n)) (\<lambda>blocking n.
     and_then (tx_claim_blocking dp e caller reg lang (or_else blocking []) n) (\<lambda>found n.
       case found of
         Some i \<Rightarrow> (Inr (Some i), n)
       | None \<Rightarrow> tx_claim_rounds dp e caller reg lang shuffle MAX_CC_RETRIES n))"

section \<open>get\_invocations\_to\_run\<close>

definition tx_check_cc ::
    "deployment \<Rightarrow> str \<Rightarrow> (task_id \<Rightarrow> task_config option) \<Rightarrow> node \<Rightarrow> bool result \<times> node" where
  "tx_check_cc dp i conf n =
     and_then (optional (on_conn (sq_get_invocation i) n)) (\<lambda>dto n.
       case dto of
         None \<Rightarrow> (Inr True, n)
       | Some dto \<Rightarrow>
           (case conf (inv_task_id dto) of
              None \<Rightarrow> (Inr True, n)
            | Some c \<Rightarrow>
                (if concurrency_control c = Unlimited then (Inr True, n)
                 else
                   and_then (optional (on_conn (sq_get_call (dp_codec dp) (inv_call_id dto)) n)) (\<lambda>call n.
                     case call of
                       None \<Rightarrow> (Inr True, n)
                     | Some call \<Rightarrow>
                         on_conn (sq_check_running_concurrency (inv_task_id dto) c
                           (concurrency_arguments (concurrency_control c) (key_arguments c) (cd_serialized_arguments call))) n))))"

text \<open>The claim is the status change of the control port; its history entry and its report may be lost.\<close>

definition tx_try_transition_to_pending ::
    "deployment \<Rightarrow> env \<Rightarrow> str \<Rightarrow> str \<Rightarrow> str list \<Rightarrow> node \<Rightarrow> str list result \<times> node" where
  "tx_try_transition_to_pending dp e i runner result n =
     unless_invalid result (on_conn (sq_set_invocation_status e i Pending (Some runner)) n) (\<lambda>rec n.
       and_then (optional (on_conn (sq_get_invocation i) n)) (\<lambda>dto n.
       and_then (optional (on_conn (sq_add_history (with_runner runner (history_new i rec None))) n)) (\<lambda>_ n.
       and_then (case (dp_triggers dp, dto) of
                   (Some _, Some dto) \<Rightarrow>
                     and_then (tx_invocation_arguments dp i n) (\<lambda>args n.
                     and_then (optional (report_published_status dp e i Pending (inv_task_id dto) args n)) (\<lambda>_ n. (Inr (), n)))
                 | _ \<Rightarrow> (Inr (), n)) (\<lambda>_ n.
         (Inr (result @ [i]), n)))))"

fun tx_run_blocking ::
    "deployment \<Rightarrow> env \<Rightarrow> nat \<Rightarrow> str \<Rightarrow> (task_id \<Rightarrow> task_config option) \<Rightarrow> str list \<Rightarrow> str list \<Rightarrow> node
       \<Rightarrow> str list result \<times> node" where
  "tx_run_blocking dp e max_n runner conf [] result n = (Inr result, n)"
| "tx_run_blocking dp e max_n runner conf (i # is) result n =
     (if max_n \<le> length result then (Inr result, n)
      else
        and_then (optional (on_conn (sq_get_invocation_status i) n)) (\<lambda>rec n.
          case rec of
            None \<Rightarrow> tx_run_blocking dp e max_n runner conf is result n
          | Some r \<Rightarrow>
              (if sr_status r = Retry \<or> \<not> can_transition_to (sr_status r) Pending
               then tx_run_blocking dp e max_n runner conf is result n
               else
                 and_then (tx_check_cc dp i conf n) (\<lambda>cleared n.
                   if \<not> cleared then tx_run_blocking dp e max_n runner conf is result n
                   else and_then (tx_try_transition_to_pending dp e i runner result n) (\<lambda>result n.
                     tx_run_blocking dp e max_n runner conf is result n)))))"

definition tx_run_queued ::
    "deployment \<Rightarrow> env \<Rightarrow> str \<Rightarrow> (task_id \<Rightarrow> task_config option) \<Rightarrow> str \<Rightarrow> str list \<Rightarrow> node \<Rightarrow> str list result \<times> node" where
  "tx_run_queued dp e runner conf i result n =
     (if i \<in> set result then (Inr result, n)
      else
        and_then (optional (on_conn (sq_get_invocation_status i) n)) (\<lambda>rec n.
          case rec of
            None \<Rightarrow> (Inr result, n)
          | Some r \<Rightarrow>
              (if \<not> is_available_for_run (sr_status r) then (Inr result, n)
               else
                 and_then (tx_check_cc dp i conf n) (\<lambda>cleared n.
                   if cleared then tx_try_transition_to_pending dp e i runner result n
                   else
                     and_then (optional (on_conn (sq_get_invocation i) n)) (\<lambda>dto n.
                       case dto of
                         None \<Rightarrow> (Inr result, n)
                       | Some dto \<Rightarrow>
                           (case conf (inv_task_id dto) of
                              Some c \<Rightarrow>
                                (if reroute_on_cc c then
                                   unless_invalid result (on_conn (sq_change e i runner
                                     (PConcurrencyReroute \<lparr>pr_queue = queue c, pr_priority = priority c\<rparr>) False) n)
                                     (\<lambda>_ n. (Inr result, n))
                                 else
                                   unless_invalid result
                                     (on_conn (sq_set_invocation_status e i ConcurrencyControlledFinal (Some runner)) n)
                                     (\<lambda>_ n. (Inr result, n)))
                            | None \<Rightarrow>
                                unless_invalid result
                                  (on_conn (sq_set_invocation_status e i ConcurrencyControlledFinal (Some runner)) n)
                                  (\<lambda>_ n. (Inr result, n))))))))"

fun tx_run_queue_rounds ::
    "deployment \<Rightarrow> env \<Rightarrow> nat \<Rightarrow> str \<Rightarrow> str list \<Rightarrow> (task_id \<Rightarrow> task_config option) \<Rightarrow> nat \<Rightarrow> str list \<Rightarrow> node
       \<Rightarrow> str list result \<times> node" where
  "tx_run_queue_rounds dp e max_n runner queues conf 0 result n = (Inr result, n)"
| "tx_run_queue_rounds dp e max_n runner queues conf (Suc attempts) result n =
     (if max_n \<le> length result then (Inr result, n)
      else
        and_then (tx_retrieve_first (\<lambda>q. reserve (dp_lease dp) e (dp_visit dp) q None None) queues n) (\<lambda>candidate n.
          case candidate of
            None \<Rightarrow> (Inr result, n)
          | Some i \<Rightarrow>
              and_then (tx_run_queued dp e runner conf i result n) (\<lambda>result n.
                tx_run_queue_rounds dp e max_n runner queues conf attempts result n)))"

text \<open>The third phase has nothing to do: a refused invocation was rerouted in its transaction.\<close>

definition tx_get_invocations_to_run ::
    "deployment \<Rightarrow> env \<Rightarrow> nat \<Rightarrow> str \<Rightarrow> str list \<Rightarrow> (task_id \<Rightarrow> task_config option) \<Rightarrow> node \<Rightarrow> str list result \<times> node" where
  "tx_get_invocations_to_run dp e max_n runner queues conf n =
     and_then (optional (on_conn (sq_get_blocking_invocations e max_n) n)) (\<lambda>blocking n.
     and_then (tx_run_blocking dp e max_n runner conf (or_else blocking []) [] n) (\<lambda>result n.
       tx_run_queue_rounds dp e max_n runner queues conf (max_n * 2 + 8) result n))"

end
