(* ===== verification/Sqlite_Attempt.thy ===== *)
theory Sqlite_Attempt
  imports Sqlite_Runner
begin

text \<open>
  The trigger loop (\<^verbatim>\<open>orchestration/triggers.rs\<close>) and one attempt
  (\<^verbatim>\<open>runner/executor_common.rs\<close>) over the SQLite backends.
\<close>

section \<open>The trigger loop\<close>

definition tx_publish_trigger_run ::
    "deployment \<Rightarrow> env \<Rightarrow> trigger_run_record \<Rightarrow> str \<Rightarrow> str \<Rightarrow> str \<times> f64 \<Rightarrow> node \<Rightarrow> unit result \<times> node" where
  "tx_publish_trigger_run dp e run i runner route n =
     (let call = call_dto_new (sha256 (libs_of dp)) (json_str (libs_of dp)) (tr_task_id run)
                   (json_value_to_serialized_args (libs_of dp) (tr_arguments run))
      in case on_conn (sq_get_invocation_status i) n of
           (Inr _, n) \<Rightarrow> (Inr (), n)
         | (Inl (InvocationNotFound _), n) \<Rightarrow>
             and_then (on_conn (sq_submit (dp_codec dp) e
               \<lparr>sp_invocation = invocation_dto_new (now e) i (tr_task_id run) (cd_call_id call), sp_call = call,
                sp_runner = runner, sp_runner_context = None, sp_workflow_root = False, sp_cc_arguments = None,
                sp_route = \<lparr>pr_queue = fst route, pr_priority = snd route\<rparr>\<rparr>) n) (\<lambda>_ n. (Inr (), n))
         | (Inl err, n) \<Rightarrow> (Inl err, n))"

fun tx_publish_runs ::
    "deployment \<Rightarrow> env \<Rightarrow> trg_codec \<Rightarrow> str \<Rightarrow> (task_id \<rightharpoonup> str \<times> f64) \<Rightarrow> trigger_run_record list \<Rightarrow> node
       \<Rightarrow> str list result \<times> node" where
  "tx_publish_runs dp e k runner routes [] n = (Inr [], n)"
| "tx_publish_runs dp e k runner routes (run # runs) n =
     (case (tr_planned_invocation_id run, routes (tr_task_id run)) of
        (Some i, Some route) \<Rightarrow>
          and_then (tx_publish_trigger_run dp e run i runner route n) (\<lambda>_ n.
          and_then (sq_complete_trigger_run e k (tr_run_id run) i n) (\<lambda>_ n.
          and_then (tx_publish_runs dp e k runner routes runs n) (\<lambda>is n. (Inr (i # is), n))))
      | _ \<Rightarrow> tx_publish_runs dp e k runner routes runs n)"

definition tx_trigger_loop_iteration ::
    "deployment \<Rightarrow> env \<Rightarrow> str \<Rightarrow> (task_id \<rightharpoonup> str \<times> f64) \<Rightarrow> node \<Rightarrow> str list result \<times> node" where
  "tx_trigger_loop_iteration dp e runner routes n =
     (case dp_triggers dp of
        None \<Rightarrow> (Inr [], n)
      | Some k \<Rightarrow>
          and_then (sq_evaluate_cron_conditions (libs_of dp) e k n) (\<lambda>_ n.
          and_then (sq_evaluate_trigger_runs (libs_of dp) e k n) (\<lambda>_ n.
          and_then (on_conn (sq_get_pending_trigger_runs e k PENDING_TRIGGER_RUN_BATCH) n) (\<lambda>runs n.
            tx_publish_runs dp e k runner routes runs n))))"

section \<open>One attempt\<close>

definition tx_claim_ownership :: "deployment \<Rightarrow> env \<Rightarrow> str \<Rightarrow> str \<Rightarrow> node \<Rightarrow> bool result \<times> node" where
  "tx_claim_ownership dp e i runner n =
     (case tx_set_status dp e i Pending runner n of
        (Inr _, n) \<Rightarrow> and_then (tx_set_status dp e i Running runner n) (\<lambda>_ n. (Inr True, n))
      | (Inl err, n) \<Rightarrow>
          (if is_invalid_transition err \<or> is_ownership_violation err then (Inr False, n) else (Inl err, n)))"

text \<open>Whether a rejected outcome write means that the attempt is discarded; what cannot be read counts as not there.\<close>

definition tx_discarded_outcome :: "str \<Rightarrow> str \<Rightarrow> unit result \<Rightarrow> node \<Rightarrow> discarded option result \<times> node" where
  "tx_discarded_outcome i runner written n =
     (case written of
        Inr _ \<Rightarrow> (Inr None, n)
      | Inl err \<Rightarrow>
          (if is_invalid_transition err \<or> is_ownership_violation err \<or> is_race err then
             and_then (optional (on_conn (sq_get_invocation_status i) n)) (\<lambda>rec n.
               if (case rec of None \<Rightarrow> False | Some r \<Rightarrow> sr_status r = Cancelled) then (Inr (Some DiscardCancelled), n)
               else
                 and_then (optional (on_conn (sq_get_invocation_status i) n)) (\<lambda>rec n.
                   let holder_running = (case rec of None \<Rightarrow> False | Some r \<Rightarrow> sr_status r = Pending \<or> sr_status r = Running)
                   in if holder_running \<and> Option.bind rec sr_runner = Some runner then (Inl err, n)
                      else (Inr (Some (TakenOver holder_running)), n)))
           else (Inl err, n)))"

text \<open>A discarded outcome ends the attempt quietly; there is no slot to release.\<close>

definition tx_settle :: "str \<Rightarrow> str \<Rightarrow> unit result \<times> node \<Rightarrow> unit result \<times> node" where
  "tx_settle i runner write =
     (case write of (written, n) \<Rightarrow> and_then (tx_discarded_outcome i runner written n) (\<lambda>_ n. (Inr (), n)))"

definition tx_finish_attempt ::
    "deployment \<Rightarrow> env \<Rightarrow> (rv_error \<Rightarrow> str) \<Rightarrow> str \<Rightarrow> str \<Rightarrow> task_id \<Rightarrow> serialized_arguments \<Rightarrow> task_config \<Rightarrow> task_config
       \<Rightarrow> u32 \<Rightarrow> u32 \<Rightarrow> bool \<Rightarrow> int \<Rightarrow> str result \<Rightarrow> node \<Rightarrow> unit result \<times> node" where
  "tx_finish_attempt dp e to_string i runner t args c rc num_retries attempt timed_out delay outcome n =
     (case outcome of
        Inr result \<Rightarrow> tx_settle i runner (tx_set_result_with_context dp e i result runner t args n)
      | Inl err \<Rightarrow>
          (let te = task_error_of to_string err
           in if should_retry c rc num_retries timed_out (err_type te) then
                (if attempt = -1 then (Inl (Infrastructure Query), n)
                 else tx_settle i runner
                   (tx_set_retry_after_with_context dp e i runner t args (queue rc) (priority rc) delay n))
              else tx_settle i runner
                (tx_set_exception_with_context dp e i (err_type te) (err_message te) runner t args n)))"

definition tx_retry_count_of :: "str \<Rightarrow> node \<Rightarrow> u32 result \<times> node" where
  "tx_retry_count_of i n =
     and_then (on_conn (sq_get_history i) n) (\<lambda>hs n.
       (Inr (of_nat (length (filter (\<lambda>h. sr_status (h_status_record h) = Retry) hs))), n))"

definition tx_prepare_attempt ::
    "deployment \<Rightarrow> runtime \<Rightarrow> env \<Rightarrow> str \<Rightarrow> str \<Rightarrow> node \<Rightarrow> attempt option result \<times> node" where
  "tx_prepare_attempt dp rt e i runner n =
     and_then (tx_claim_ownership dp e i runner n) (\<lambda>owned n.
       if \<not> owned then (Inr None, n)
       else
         and_then (on_conn (sq_get_invocation i) n) (\<lambda>dto n.
         and_then (on_conn (sq_get_call (dp_codec dp) (inv_call_id dto)) n) (\<lambda>call n.
           case registry_get_dyn (inv_task_id dto) (registry (nd_catalog n)) of
             None \<Rightarrow>
               and_then (tx_settle i runner (tx_set_exception_with_context dp e i ''TaskNotRegistered''
                   (unregistered_message (inv_task_id dto)) runner (inv_task_id dto) (cd_serialized_arguments call) n))
                 (\<lambda>_ n. (Inr None, n))
           | Some c \<Rightarrow>
               (let (rc, cat) = resolve_config (sv_host (dp_service dp)) (sv_app (dp_service dp)) (inv_task_id dto) c
                                  (nd_catalog n)
                in and_then (tx_retry_count_of i (n\<lparr>nd_catalog := cat\<rparr>)) (\<lambda>num_retries n.
                   and_then (on_conn (sq_begin_execution rt i runner num_retries (inv_trace dto)) n) (\<lambda>identity n.
                   and_then (run_before (rt_before rt) i (inv_task_id dto), n) (\<lambda>_ n.
                     (Inr (Some \<lparr>at_task = inv_task_id dto, at_arguments = cd_serialized_arguments call,
                                 at_config = c, at_resolved = rc, at_num_retries = num_retries,
                                 at_number = ei_attempt identity\<rparr>), n))))))))"

definition tx_conclude_attempt ::
    "deployment \<Rightarrow> runtime \<Rightarrow> env \<Rightarrow> str \<Rightarrow> str \<Rightarrow> attempt \<Rightarrow> str result \<times> interruption option \<Rightarrow> node
       \<Rightarrow> unit result \<times> node" where
  "tx_conclude_attempt dp rt e i runner x r n =
     (if snd r = Some InterruptedByCancel then (Inr (), n)
      else tx_finish_attempt dp e (rt_to_string rt) i runner (at_task x) (at_arguments x) (at_config x) (at_resolved x)
             (at_num_retries x) (at_number x) (snd r \<noteq> None)
             (rt_delay rt (at_resolved x) (at_num_retries x)) (fst r) n)"

end
