(* ===== verification/Sqlite_Service_Props.thy ===== *)
theory Sqlite_Service_Props
  imports Sqlite_Attempt Sqlite_Props Sqlite_Invariants
begin

text \<open>
  Every use case of the service over SQLite is a sequence of requests of the transactional path, whatever other
  processes do in between and wherever the connection fails. The theorems on requests (\<open>Sqlite_Props\<close>) thus hold
  for the service: no use case strands an invocation, and a trigger run becomes one invocation.
\<close>

section \<open>Sequences of permitted requests\<close>

named_theorems act_intros \<open>use cases that make permitted requests only\<close>

abbreviation node_db :: "node \<Rightarrow> db" where
  "node_db n \<equiv> cn_db (nd_conn n)"

text \<open>The other processes, too, make permitted requests only.\<close>

definition others_ok :: "(env \<Rightarrow> sq_request \<Rightarrow> bool) \<Rightarrow> node \<Rightarrow> bool" where
  "others_ok P n \<longleftrightarrow> (\<forall>g \<in> set (nd_others n). \<forall>d. (sq_step P)\<^sup>*\<^sup>* d (g d))"

definition reach :: "(env \<Rightarrow> sq_request \<Rightarrow> bool) \<Rightarrow> node \<Rightarrow> node \<Rightarrow> bool" where
  "reach P n n' \<longleftrightarrow> (others_ok P n \<longrightarrow> others_ok P n' \<and> (sq_step P)\<^sup>*\<^sup>* (node_db n) (node_db n'))"

definition act :: "(env \<Rightarrow> sq_request \<Rightarrow> bool) \<Rightarrow> node \<Rightarrow> 'a result \<times> node \<Rightarrow> bool" where
  "act P n r \<longleftrightarrow> reach P n (snd r)"


lemma reach_trans: "reach P n n' \<Longrightarrow> reach P n' n'' \<Longrightarrow> reach P n n''"
  by (auto simp: reach_def)

lemma reach_refl [simp]: "reach P n n"
  by (simp add: reach_def)

lemma act_via: "act P n r \<Longrightarrow> act P (snd r) r' \<Longrightarrow> act P n r'"
  by (auto simp: act_def intro: reach_trans)

lemma act_bind [act_intros]:
  assumes "act P n r" "\<And>x n'. act P n' (g x n')"
  shows "act P n (and_then r g)"
  using assms by (cases r; cases "fst r") (auto simp: act_def intro: reach_trans)

lemma act_pure [act_intros]: "act P n (v, n)"
  by (simp add: act_def reach_def)

lemma act_frame [simp]:
  "act P (n\<lparr>nd_catalog := cat\<rparr>) r = act P n r" "act P (n\<lparr>nd_next_queue_index := k\<rparr>) r = act P n r"
  "act P n (v, n'\<lparr>nd_catalog := cat\<rparr>) = act P n (v, n')"
  by (simp_all add: act_def reach_def others_ok_def)

lemma act_moved:
  "(\<And>n. act P n (f n)) \<Longrightarrow> act P n (f (n\<lparr>nd_catalog := cat\<rparr>))"
  "(\<And>n. act P n (f n)) \<Longrightarrow> act P n (f (n\<lparr>nd_next_queue_index := k\<rparr>))"
  using act_frame(1,2) by metis+

lemma act_cases [act_intros]:
  "(b \<Longrightarrow> act P n r) \<Longrightarrow> (\<not> b \<Longrightarrow> act P n r') \<Longrightarrow> act P n (if b then r else r')"
  "act P n r \<Longrightarrow> (\<And>x. act P n (h x)) \<Longrightarrow> act P n (case v of None \<Rightarrow> r | Some x \<Rightarrow> h x)"
  "(\<And>x. act P n (k x)) \<Longrightarrow> (\<And>x. act P n (h' x)) \<Longrightarrow> act P n (case w of Inl x \<Rightarrow> k x | Inr x \<Rightarrow> h' x)"
  "act P n r \<Longrightarrow> (\<And>x xs. act P n (l x xs)) \<Longrightarrow> act P n (case ys of [] \<Rightarrow> r | x # xs \<Rightarrow> l x xs)"
  "act P n (f a) \<Longrightarrow> act P n (Let a f)"
  by (simp_all split: option.splits sum.splits list.splits)

lemma act_result [act_intros]:
  assumes "act P n r" "\<And>v n'. act P n' (f v n')"
  shows "act P n (case r of (v, n') \<Rightarrow> f v n')"
  using assms by (cases r) (auto simp: act_def intro: reach_trans)

lemma act_wrappers [act_intros]:
  "act P n r \<Longrightarrow> act P n (optional r)"
  "act P n r \<Longrightarrow> (\<And>x n'. act P n' (g x n')) \<Longrightarrow> act P n (unless_invalid skipped r g)"
proof -
  show "act P n r \<Longrightarrow> act P n (optional r)"
    by (auto simp: optional_def act_def split: prod.splits sum.splits)
  show "act P n r \<Longrightarrow> (\<And>x n'. act P n' (g x n')) \<Longrightarrow> act P n (unless_invalid skipped r g)"
    unfolding unless_invalid_def by (intro act_intros) auto
qed

text \<open>One request: what the others did before it, then its own effect.\<close>

lemma act_conn:
  assumes "\<And>c. (sq_step P)\<^sup>*\<^sup>* (cn_db c) (cn_db (snd (f c)))"
  shows "act P n (on_conn f n)"
proof -
  have "others_ok P n \<Longrightarrow> (sq_step P)\<^sup>*\<^sup>* (node_db n) (node_db (others_act n)) \<and> others_ok P (others_act n)"
    by (cases "nd_others n") (auto simp: others_ok_def others_act_def)
  moreover obtain v c where "f (nd_conn (others_act n)) = (v, c)" by force
  ultimately show ?thesis
    using assms [of "nd_conn (others_act n)"] by (auto simp: act_def reach_def on_conn_def others_ok_def Let_def)
qed

lemma act_request:
  assumes "P e req" "sq_perform req e = no_answer f"
  shows "act P n (on_conn f n)"
proof (rule act_conn)
  fix c
  have "cn_db (snd (f c)) = cn_db (snd (sq_perform req e c))"
    by (cases "f c") (simp add: assms(2) no_answer_def and_then_def split: sum.splits)
  then show "(sq_step P)\<^sup>*\<^sup>* (cn_db c) (cn_db (snd (f c)))"
    using sq_step.request [of P e req c] assms(1) by simp
qed

lemma act_command:
  assumes "P e req" "sq_perform req e = f"
  shows "act P n (on_conn f n)"
  using sq_step.request [of P e req] assms by (intro act_conn) auto

lemma act_read:
  assumes "\<And>d. keeps (\<lambda>x. x = d) f"
  shows "act P n (on_conn f n)"
proof (rule act_conn)
  fix c
  show "(sq_step P)\<^sup>*\<^sup>* (cn_db c) (cn_db (snd (f c)))" using keepsD [OF assms [of "cn_db c"]] by simp
qed

section \<open>The requests of the service\<close>

lemma keeps_result [keeps_intros]:
  "keeps I f \<Longrightarrow> (\<And>v. keeps I (g v)) \<Longrightarrow> keeps I (\<lambda>c. case f c of (v, c') \<Rightarrow> g v c')"
  unfolding keeps_def by (auto split: prod.split)

lemma keeps_select [keeps_intros]: "keeps I (select_rows rows f)" "keeps I (select_one row g)" "keeps I (lookup h)"
  unfolding select_rows_def [abs_def] select_one_def [abs_def] lookup_def [abs_def] by (intro keeps_intros)+

lemma keeps_threshold [keeps_intros]: "keeps I (with_threshold e secs f)"
  unfolding with_threshold_def [abs_def] by (intro keeps_intros)

lemma keeps_condition_ids [keeps_intros]: "keeps I (get_condition_ids_for_trigger e i)"
  unfolding get_condition_ids_for_trigger_def by (intro keeps_intros)

lemma keeps_read_trigger [keeps_intros]: "keeps I (read_trigger e l i row)"
  unfolding read_trigger_def [abs_def] by (intro keeps_intros)

lemma keeps_read_triggers [keeps_intros]: "keeps I (read_triggers e l rows)"
proof (induction rows)
  case Nil
  then show ?case by (simp add: keeps_def)
next
  case (Cons x rows)
  then show ?case by (cases x) (simp, intro keeps_intros)
qed

lemma service_reads:
  "keeps I (sq_get_invocation i)" "keeps I (sq_get_call k cid)" "keeps I (sq_get_invocation_status i)"
  "keeps I (sq_get_history i)" "keeps I (sq_get_existing_invocations e t a sts)"
  "keeps I (sq_get_blocking_invocations e m)" "keeps I (sq_check_running_concurrency t cfg a)"
  "keeps I (sq_get_stale_pending_invocations e secs)" "keeps I (sq_get_stale_running_invocations e secs)"
  "keeps I (sq_get_invocations_by_status e st lim)"
  unfolding sq_get_invocation_def [abs_def] sq_get_call_def [abs_def] sq_get_invocation_status_def [abs_def]
    sq_get_history_def [abs_def] sq_get_existing_invocations_def [abs_def] sq_get_blocking_invocations_def [abs_def]
    sq_check_running_concurrency_def [abs_def] sq_get_stale_pending_invocations_def [abs_def]
    sq_get_stale_running_invocations_def [abs_def] sq_get_invocations_by_status_def [abs_def]
  by (intro keeps_intros)+

lemma trigger_reads:
  "keeps I (sq_get_conditions_for_task e tk t)" "keeps I (sq_get_event_conditions e tk code)"
  "keeps I (sq_get_cron_conditions e tk)" "keeps I (sq_get_last_cron_execution cid)"
  "keeps I (sq_get_valid_conditions e tk)" "keeps I (sq_get_triggers_for_condition e l cid)"
  "keeps I (sq_get_event tk v)" "keeps I (sq_get_trigger_run tk r)" "keeps I (sq_get_pending_trigger_runs e tk m)"
  unfolding sq_get_conditions_for_task_def [abs_def] sq_get_event_conditions_def [abs_def] sq_get_cron_conditions_def [abs_def]
    sq_get_last_cron_execution_def [abs_def] sq_get_valid_conditions_def [abs_def] sq_get_triggers_for_condition_def [abs_def]
    sq_get_event_def [abs_def] sq_get_trigger_run_def [abs_def] sq_get_pending_trigger_runs_def [abs_def]
  by (intro keeps_intros)+

text \<open>
  The requests of the transactional path: polls, claims and other status changes that do not make an
  invocation claimable, submissions, publication changes, slots, payloads, history and the trigger store.
\<close>

fun transactional :: "sq_request \<Rightarrow> bool" where
  "transactional (QReserve _ _ _ _ _) = True"
| "transactional (QSetStatus _ st _) = (\<not> available st)"
| "transactional (QAcquire _ _ _ _) = True"
| "transactional (QBeginExecution _ _ _ _ _) = True"
| "transactional (QSubmit _ _) = True"
| "transactional (QChange _ _ ch _) = (case ch of PStatus st \<Rightarrow> \<not> available st | _ \<Rightarrow> True)"
| "transactional (QStoreError _ _) = True"
| "transactional (QAddHistory _) = True"
| "transactional (QHeartbeat _ _) = True"
| "transactional (QWait _ _) = True"
| "transactional (QValidCondition _ _) = True"
| "transactional (QCronExecution _ _ _) = True"
| "transactional (QEvent _ _) = True"
| "transactional (QTriggerRun _ _) = True"
| "transactional (QClaimRuns _ _ _) = True"
| "transactional _ = False"

abbreviation tx :: "env \<Rightarrow> sq_request \<Rightarrow> bool" where
  "tx \<equiv> \<lambda>_ req. transactional req"



lemma act_service_reads [act_intros]:
  "act P n (on_conn (sq_get_invocation i) n)" "act P n (on_conn (sq_get_call k cid) n)"
  "act P n (on_conn (sq_get_invocation_status i) n)" "act P n (on_conn (sq_get_history i) n)"
  "act P n (on_conn (sq_get_existing_invocations e t a sts) n)" "act P n (on_conn (sq_get_blocking_invocations e m) n)"
  "act P n (on_conn (sq_check_running_concurrency t cfg a) n)" "act P n (on_conn (sq_get_stale_pending_invocations e secs) n)"
  "act P n (on_conn (sq_get_stale_running_invocations e secs) n)" "act P n (on_conn (sq_get_invocations_by_status e st lim) n)"
  by (rule act_read, rule service_reads)+

lemma act_trigger_reads [act_intros]:
  "act P n (on_conn (sq_get_conditions_for_task e tk t) n)" "act P n (on_conn (sq_get_event_conditions e tk code) n)"
  "act P n (on_conn (sq_get_cron_conditions e tk) n)" "act P n (on_conn (sq_get_last_cron_execution cid) n)"
  "act P n (on_conn (sq_get_valid_conditions e tk) n)" "act P n (on_conn (sq_get_triggers_for_condition e l cid) n)"
  "act P n (on_conn (sq_get_event tk v) n)" "act P n (on_conn (sq_get_trigger_run tk r) n)"
  "act P n (on_conn (sq_get_pending_trigger_runs e tk m) n)"
  by (rule act_read, rule trigger_reads)+

lemma act_service_requests [act_intros]:
  "transactional (QChange i runner ch ap) \<Longrightarrow> act tx n (on_conn (sq_change e i runner ch ap) n)"
  "\<not> available st \<Longrightarrow> act tx n (on_conn (sq_set_invocation_status e i st r) n)"
  "act tx n (on_conn (sq_submit k e s) n)"
  "act tx n (on_conn (reserve lease e visit q tq lang) n)"
  "act tx n (on_conn (sq_try_acquire_concurrency_slot i t cfg a) n)"
  "act tx n (on_conn (sq_begin_execution rt i runner m tr) n)"
  "act tx n (on_conn (sq_store_error i x) n)"
  "act tx n (on_conn (sq_add_history h) n)"
  by (simp_all add: act_request [of tx e "QChange i runner ch ap"] act_request [of tx e "QSetStatus i st r"]
      act_request [of tx e "QSubmit k s"] act_request [of tx e "QReserve lease visit q tq lang"]
      act_request [of tx e "QAcquire i t cfg a"] act_request [of tx e "QBeginExecution rt i runner m tr"]
      act_command [of tx e "QStoreError i x"] act_command [of tx e "QAddHistory h"])

lemma act_trigger_requests [act_intros]:
  "act tx n (on_conn (sq_record_valid_condition tk vc) n)" "act tx n (on_conn (sq_store_event tk v) n)"
  "act tx n (on_conn (sq_store_cron_execution cid t x) n)" "act tx n (on_conn (sq_store_trigger_run tk r) n)"
  "act tx n (on_conn (sq_claim_trigger_runs_with_records e tk rs ids) n)"
  by (simp_all add: act_command [of tx e "QValidCondition tk vc"] act_command [of tx e "QEvent tk v"]
      act_request [of tx e "QCronExecution cid t x"] act_command [of tx e "QTriggerRun tk r"]
      act_request [of tx e "QClaimRuns tk rs ids"])

section \<open>The use cases\<close>

lemma act_pairs [act_intros]:
  "(\<And>a b. act P n (f a b n)) \<Longrightarrow> act P n ((case x of (a, b) \<Rightarrow> f a b) n)"
  "(\<And>a b. act P n (g a b)) \<Longrightarrow> act P n (case c of (a :: task_config, b :: task_catalog) \<Rightarrow> g a b)"
  "(\<And>a b. act P n (h a b)) \<Longrightarrow> act P n (case q of (a :: str list, b :: u64) \<Rightarrow> h a b)"
  "(\<And>a b. act P n (k a b)) \<Longrightarrow> act P n (case y of (a :: str option, b :: workflow_identity option) \<Rightarrow> k a b)"
  by (simp_all split: prod.split)

subsection \<open>The trigger manager\<close>

lemma act_record_satisfied [act_intros]: "act tx n (sq_record_satisfied l k ctx cs n)"
  by (induction l k ctx cs n rule: sq_record_satisfied.induct) (auto intro!: act_intros simp: Let_def)

lemma act_reports [act_intros]:
  "act tx n (sq_report_status_change l e k ctx n)" "act tx n (sq_report_result l e k rx n)"
  "act tx n (sq_report_failure l e k fx n)"
  unfolding sq_report_status_change_def sq_report_result_def sq_report_failure_def sq_evaluate_task_conditions_def
  by (intro act_intros)+

lemma act_emit [act_intros]: "act tx n (sq_emit_event l e k fresh emitter runner code payload n)"
proof -
  have store: "act tx n (on_conn (sq_store_event k r) n)" for r n by (rule act_intros)
  have "act tx n (on_conn (sq_get_event_conditions e k code) (snd (on_conn (sq_store_event k r) n)))" for r
    by (rule act_via [OF store]) (rule act_intros)
  moreover have "act tx n (Inr fresh :: str result, if b then snd (on_conn (sq_store_event k r) n) else n)" for b r n
    using store [of n r] by (simp add: act_def)
  ultimately show ?thesis unfolding sq_emit_event_def Let_def by (intro act_bind act_record_satisfied)
qed

lemma act_crons [act_intros]: "act tx n (sq_evaluate_crons l e k cs n)"
proof (induction cs arbitrary: n)
  case Nil
  then show ?case by (simp add: act_intros)
next
  case (Cons x cs)
  have "act tx n (sq_evaluate_cron l e k x n)" for n
    unfolding sq_evaluate_cron_def sq_cron_try_def Let_def
    by (cases x; cases "snd x") (auto intro!: act_intros)
  then show ?case using Cons by (auto intro!: act_intros)
qed

lemma act_cron_conditions [act_intros]: "act tx n (sq_evaluate_cron_conditions l e k n)"
  unfolding sq_evaluate_cron_conditions_def by (intro act_intros)

lemma act_trigger_map [act_intros]: "act tx n (sq_trigger_map l e cids m n)"
  by (induction l e cids m n rule: sq_trigger_map.induct) (auto intro!: act_intros)

lemma act_evaluate [act_intros]: "act tx n (sq_evaluate_trigger_runs l e k n)"
  unfolding sq_evaluate_trigger_runs_def by (intro act_intros)

lemma act_mark_events [act_intros]: "act tx n (sq_mark_events k vs i n)"
  by (induction k vs i n rule: sq_mark_events.induct) (auto intro!: act_intros)

lemma act_complete [act_intros]: "act tx n (sq_complete_trigger_run e k r i n)"
  unfolding sq_complete_trigger_run_def by (intro act_intros)

subsection \<open>Status changes\<close>

lemma act_routing [act_intros]: "act P n (tx_routing dp t n)"
  unfolding tx_routing_def by (auto split: prod.split option.split intro: act_intros)

lemma act_arguments [act_intros]:
  "act P n (tx_invocation_arguments dp i n)" "act P n (tx_trigger_context dp i n)" "act P n (tx_status_context dp i n)"
  unfolding tx_invocation_arguments_def tx_trigger_context_def tx_status_context_def by (intro act_intros)+

lemma act_notify [act_intros]: "(\<And>k n. act P n (f k n)) \<Longrightarrow> act P n (tx_notify dp f n)"
  unfolding tx_notify_def by (intro act_intros)

lemma act_report [act_intros]: "act tx n (report_published_status dp e i st t args n)"
  unfolding report_published_status_def by (intro act_intros)

lemma act_set_status [act_intros]: "\<not> available st \<Longrightarrow> act tx n (tx_set_status dp e i st runner n)"
  unfolding tx_set_status_def tx_set_status_with_context_def by (intro act_intros) simp

lemma act_outcomes [act_intros]:
  "act tx n (tx_set_result_with_context dp e i result runner t args n)"
  "act tx n (tx_set_exception_with_context dp e i ty msg runner t args n)"
  "act tx n (tx_set_retry_with_context dp e i runner t args q p n)"
  unfolding tx_set_result_with_context_def tx_set_exception_with_context_def tx_set_retry_with_context_def
  by (intro act_intros; simp)+

lemma act_retry_after [act_intros]: "act tx n (tx_set_retry_after_with_context dp e i runner t args q p delay n)"
  unfolding tx_set_retry_after_with_context_def by (intro act_intros; simp)

lemma act_cancel [act_intros]: "act tx n (tx_cancel_invocation dp e i runner n)"
  unfolding tx_cancel_invocation_def by (intro act_intros) (simp add: available_def)

subsection \<open>Registration, routing, submission\<close>

lemma act_publish [act_intros]: "act tx n (tx_publish dp e s n)"
  unfolding tx_publish_def by (intro act_intros)

lemma act_register [act_intros]: "act tx n (tx_register_invocations dp e invs runner routes n)"
proof -
  have "act tx n (tx_register_all dp e runner xs n)" for xs n
    by (induction dp e runner xs n rule: tx_register_all.induct) (auto intro!: act_intros)
  then show ?thesis unfolding tx_register_invocations_def by (intro act_intros)
qed

lemma act_route_call [act_intros]:
  "act tx n (tx_route_call dp e i call a cc idx runner q p n)"
  "act tx n (tx_route_catalog_call dp e i call a cc idx runner n)"
proof -
  show "act tx n (tx_route_call dp e i call a cc idx runner q p n)" for q p n
    unfolding tx_route_call_def tx_create_and_route_def by (intro act_intros)
  then show "act tx n (tx_route_catalog_call dp e i call a cc idx runner n)"
    unfolding tx_route_catalog_call_def by (intro act_intros)
qed

lemma act_reroute [act_intros]: "act tx n (tx_reroute_catalog_invocations dp e ids runner n)"
proof -
  have "act tx n (tx_reroute_invocations dp e runner routes is n)" for routes "is" n
    by (induction dp e runner routes "is" n rule: tx_reroute_invocations.induct)
      (auto intro!: act_intros split: option.split)
  moreover have "act tx n (tx_catalog_routes dp is m n)" for "is" m n
    by (induction "is" arbitrary: m n) (auto intro!: act_intros simp del: fun_upd_apply)
  ultimately show ?thesis unfolding tx_reroute_catalog_invocations_def by (intro act_intros)
qed

lemma act_submit [act_intros]: "act tx n (tx_submit_with_id dp e ci fresh call tr req n)"
  unfolding tx_submit_with_id_def by (intro act_intros) (simp, intro act_intros)

lemma act_find [act_intros]: "act P n (tx_find_registered dp mode keys a is n)"
  by (induction dp mode keys a "is" n rule: tx_find_registered.induct) (auto intro!: act_intros)

lemma act_submit_controlled [act_intros]: "act tx n (tx_submit_with_registration_control dp e ci fresh t args n)"
  unfolding tx_submit_with_registration_control_def 
  by (intro act_intros act_moved(1) [where f = "tx_submit_with_id dp e ci fresh c None None" for c]
      act_moved(1) [where f = "on_conn (sq_get_existing_invocations e t None sts)" for sts])

subsection \<open>Recovery\<close>

lemma act_statuses [act_intros]: "act tx n (tx_report_statuses dp e i sts t args n)"
  by (induction dp e i sts t args n rule: tx_report_statuses.induct) (auto intro!: act_intros)

lemma act_recovery_count [act_intros]: "act P n (tx_recovery_count i n)"
  unfolding tx_recovery_count_def by (intro act_intros)

lemma act_recover_one [act_intros]:
  assumes "is_recovery_status st"
  shows "act tx n (tx_recover_one dp e runner i st n)"
proof -
  have st: "\<not> available st" "\<not> available Failed" using assms by (auto simp: is_recovery_status_def available_def)
  then have "act tx n (tx_fail_recovery_limit dp e i runner st b m n)" for b m n
    unfolding tx_fail_recovery_limit_def Let_def by (intro act_intros)
  then show ?thesis unfolding tx_recover_one_def Let_def by (intro act_intros) simp_all
qed

lemma act_still_in [act_intros]: "act P n (tx_still_in st cutoff is n)"
  by (induction st cutoff "is" n rule: tx_still_in.induct) (auto intro!: act_intros)

lemma act_interrupted [act_intros]: "act P n (tx_interrupted_in e st secs n)"
  unfolding tx_interrupted_in_def by (intro act_intros)

lemma interrupted_status:
  assumes "tx_interrupted_in e st secs n = (Inr xs, n')" "x \<in> set xs"
  shows "snd x = st"
proof -
  have "snd x = st" if "tx_still_in st cutoff is m = (Inr ys, m')" "x \<in> set ys" for cutoff "is" m ys m'
    using that
    by (induction "is" arbitrary: m ys)
      (fastforce simp: and_then_def split: prod.splits sum.splits option.splits if_splits)+
  then show ?thesis
    using assms by (auto simp: tx_interrupted_in_def and_then_def split: prod.splits sum.splits option.splits)
qed

lemma act_recover_all:
  "\<forall>x \<in> set xs. is_recovery_status (snd x) \<Longrightarrow> act tx n (tx_recover_all dp e runner xs n)"
  by (induction dp e runner xs n rule: tx_recover_all.induct) (auto intro!: act_intros)

lemma act_bind_known:
  "act P n r \<Longrightarrow> (\<And>x n'. r = (Inr x, n') \<Longrightarrow> act P n' (g x n')) \<Longrightarrow> act P n (and_then r g)"
  by (cases r; cases "fst r") (auto simp: act_def intro: reach_trans)

lemma act_recover [act_intros]: "act tx n (tx_recover_stale_invocations dp e runner n)"
  unfolding tx_recover_stale_invocations_def Let_def
  by (intro act_bind_known act_recover_all act_intros)
    (force simp: is_recovery_status_def dest: interrupted_status)

subsection \<open>Retrieval\<close>

lemma act_retrieve [act_intros]: "(\<And>q n. act P n (on_conn (f q) n)) \<Longrightarrow> act P n (tx_retrieve_first f qs n)"
  by (induction f qs n rule: tx_retrieve_first.induct) (auto intro!: act_intros)

lemma act_admit [act_intros]: "act tx n (tx_admit_candidate dp e caller reg i n)"
  unfolding tx_admit_candidate_def tx_refuse_candidate_def by (intro act_intros) (simp_all add: available_def)

lemma act_claim [act_intros]: "act tx n (tx_claim_next dp e caller reg lang shuffle n)"
proof -
  have "act tx n (tx_claim_blocking dp e caller reg lang is n)" for "is" n
    by (induction "is" arbitrary: n) (auto intro!: act_intros)
  moreover have "act tx n (tx_claim_rounds dp e caller reg lang shuffle k n)" for k n
    by (induction k arbitrary: n)
      (auto intro!: act_intros act_moved(2) [where f = "tx_retrieve_first (\<lambda>q. reserve (dp_lease dp) e (dp_visit dp) q None (Some lang)) qs" for qs]
        simp: Let_def split: prod.split)
  ultimately show ?thesis unfolding tx_claim_next_def by (intro act_intros)
qed

lemma act_pending [act_intros]: "act tx n (tx_try_transition_to_pending dp e i runner result n)"
  unfolding tx_try_transition_to_pending_def
  by (intro act_intros) (auto intro!: act_intros simp: available_def split: option.split)

lemma act_check_cc [act_intros]: "act P n (tx_check_cc dp i conf n)"
  unfolding tx_check_cc_def by (intro act_intros)

lemma act_run_queued [act_intros]: "act tx n (tx_run_queued dp e runner conf i result n)"
  unfolding tx_run_queued_def by (intro act_intros) (simp_all add: available_def)

lemma act_poll [act_intros]: "act tx n (tx_get_invocations_to_run dp e m runner qs conf n)"
proof -
  have "act tx n (tx_run_blocking dp e m runner conf is result n)" for "is" result n
    by (induction "is" arbitrary: result n) (auto intro!: act_intros)
  moreover have "act tx n (tx_run_queue_rounds dp e m runner qs conf k result n)" for k result n
    by (induction k arbitrary: result n) (auto intro!: act_intros)
  ultimately show ?thesis unfolding tx_get_invocations_to_run_def by (intro act_intros)
qed

subsection \<open>The trigger loop and the attempt\<close>

lemma act_publish_run [act_intros]: "act tx n (tx_publish_trigger_run dp e run i runner route n)"
proof -
  have get: "act tx n (on_conn (sq_get_invocation_status i) n)" by (rule act_intros)
  show ?thesis
    unfolding tx_publish_trigger_run_def Let_def
    by (intro act_result [OF get] act_cases) (auto intro!: act_intros split: rv_error.split)
qed

lemma act_trigger_loop [act_intros]: "act tx n (tx_trigger_loop_iteration dp e runner routes n)"
proof -
  have "act tx n (tx_publish_runs dp e k runner routes runs n)" for k runs n
    by (induction runs arbitrary: n) (auto intro!: act_intros split: option.split)
  then show ?thesis unfolding tx_trigger_loop_iteration_def by (intro act_intros)
qed

lemma act_settle [act_intros]: "act tx n r \<Longrightarrow> act tx n (tx_settle i runner r)"
  unfolding tx_settle_def tx_discarded_outcome_def Let_def by (intro act_intros)

lemma act_conclude [act_intros]: "act tx n (tx_conclude_attempt dp rt e i runner x r n)"
  unfolding tx_conclude_attempt_def tx_finish_attempt_def Let_def by (intro act_intros)

lemma act_ownership [act_intros]: "act tx n (tx_claim_ownership dp e i runner n)"
  unfolding tx_claim_ownership_def by (intro act_intros) (simp_all add: available_def)

lemma act_prepare [act_intros]: "act tx n (tx_prepare_attempt dp rt e i runner n)"
  unfolding tx_prepare_attempt_def tx_retry_count_of_def Let_def
  by (intro act_intros act_moved(1) [where f = "on_conn (sq_get_history i)"])

lemma act_short_forms [act_intros]:
  "act tx n (tx_set_result dp e i result runner n)" "act tx n (tx_set_exception dp e i ty msg runner n)"
  "act tx n (tx_set_retry dp e i runner q p n)" "act tx n (tx_retry_invocation dp e i runner n)"
  unfolding tx_set_result_def tx_set_exception_def tx_retry_invocation_def tx_set_retry_def by (intro act_intros)+

section \<open>Processes\<close>






lemma act_commands [act_intros]:
  "act tx n (on_conn (sq_register_heartbeat e r b) n)" "act tx n (on_conn (sq_set_waiting_for i j) n)"
  by (simp_all add: act_command [of tx e "QHeartbeat r b"] act_command [of tx e "QWait i j"])




section \<open>Properties\<close>








end
