(* ===== verification/Timeline_Lanes.thy ===== *)
theory Timeline_Lanes
  imports Rv_Prelude
begin

text \<open>
  \<^verbatim>\<open>rustvello-monitoring/src/svg/lane_assign.rs\<close>: the timeline groups the status changes of an invocation on
  one runner into a chain and gives every chain a sub-lane of its runner, so that chains of one sub-lane do not
  overlap. A lane keeps its intervals sorted by their end and is searched with the binary search of the standard
  library, whose answer among equal keys is left open; it is the parameter \<open>searcher\<close>, and \<open>search_ok\<close> is its
  documented contract (\<open>Inr\<close> an index that matches, \<open>Inl\<close> the insertion point when none does).
\<close>

section \<open>Chains and lanes\<close>

record element_chain =
  ec_invocation_id :: str
  ec_runner_id :: str
  ec_start :: time
  ec_end :: time
  ec_deferred :: bool
  ec_lane_index :: nat
  ec_entry_start :: nat
  ec_entry_end :: nat

definition element_chain_new :: "str \<Rightarrow> str \<Rightarrow> time \<Rightarrow> time \<Rightarrow> bool \<Rightarrow> element_chain" where
  "element_chain_new i runner start end_time deferred =
     \<lparr>ec_invocation_id = i, ec_runner_id = runner, ec_start = start, ec_end = end_time, ec_deferred = deferred,
      ec_lane_index = 0, ec_entry_start = 0, ec_entry_end = 0\<rparr>"

type_synonym searcher = "time list \<Rightarrow> time \<Rightarrow> nat + nat"

definition search_ok :: "searcher \<Rightarrow> bool" where
  "search_ok bs \<longleftrightarrow>
     (\<forall>xs t. sorted xs \<longrightarrow>
        (case bs xs t of
           Inr i \<Rightarrow> i < length xs \<and> xs ! i = t
         | Inl i \<Rightarrow> i \<le> length xs \<and> (\<forall>j < i. xs ! j < t) \<and> (\<forall>j. i \<le> j \<and> j < length xs \<longrightarrow> t < xs ! j)))"

text \<open>\<^verbatim>\<open>unwrap_or_else(|i| i)\<close>\<close>

definition either_index :: "nat + nat \<Rightarrow> nat" where
  "either_index r = (case r of Inl i \<Rightarrow> i | Inr i \<Rightarrow> i)"

text \<open>The intervals of a lane, as pairs of end and start.\<close>

type_synonym lane_occupancy = "(time \<times> time) list"

fun scan_forward :: "time \<Rightarrow> time \<Rightarrow> lane_occupancy \<Rightarrow> bool" where
  "scan_forward start end_time [] = False"
| "scan_forward start end_time ((interval_end, interval_start) # rest) =
     (if end_time \<le> interval_start then False
      else if start < interval_end \<and> interval_start < end_time then True
      else scan_forward start end_time rest)"

fun scan_backward :: "time \<Rightarrow> time \<Rightarrow> lane_occupancy \<Rightarrow> bool" where
  "scan_backward start end_time [] = False"
| "scan_backward start end_time ((interval_end, interval_start) # rest) =
     (if interval_end \<le> start then False
      else if start < interval_end \<and> interval_start < end_time then True
      else scan_backward start end_time rest)"

definition overlaps :: "searcher \<Rightarrow> lane_occupancy \<Rightarrow> time \<Rightarrow> time \<Rightarrow> bool" where
  "overlaps bs lane start end_time =
     (let idx = either_index (bs (map fst lane) start)
      in scan_forward start end_time (drop idx lane) \<or>
         (0 < idx \<and> scan_backward start end_time (rev (take idx lane))))"

definition lane_insert :: "searcher \<Rightarrow> lane_occupancy \<Rightarrow> time \<Rightarrow> time \<Rightarrow> lane_occupancy" where
  "lane_insert bs lane start end_time =
     (let pos = either_index (bs (map fst lane) end_time)
      in take pos lane @ (end_time, start) # drop pos lane)"

text \<open>The loop of \<^verbatim>\<open>assign_to_lane\<close>: the first lane that is free, or a new one.\<close>

fun first_free :: "searcher \<Rightarrow> time \<Rightarrow> time \<Rightarrow> lane_occupancy list \<Rightarrow> nat \<times> lane_occupancy list" where
  "first_free bs start end_time [] = (0, [lane_insert bs [] start end_time])"
| "first_free bs start end_time (lane # lanes) =
     (if \<not> overlaps bs lane start end_time then (0, lane_insert bs lane start end_time # lanes)
      else (case first_free bs start end_time lanes of (i, lanes) \<Rightarrow> (Suc i, lane # lanes)))"

type_synonym occupancy = "str \<rightharpoonup> lane_occupancy list"

definition assign_to_lane :: "searcher \<Rightarrow> occupancy \<Rightarrow> element_chain \<Rightarrow> occupancy \<times> element_chain" where
  "assign_to_lane bs occ chain =
     (case first_free bs (ec_start chain) (ec_end chain) (ml_get occ (ec_runner_id chain)) of
        (i, lanes) \<Rightarrow> (occ(ec_runner_id chain \<mapsto> lanes), chain\<lparr>ec_lane_index := i\<rparr>))"

fun assign_regular :: "searcher \<Rightarrow> occupancy \<Rightarrow> (nat \<times> element_chain) list \<Rightarrow> occupancy \<times> (nat \<times> element_chain) list" where
  "assign_regular bs occ [] = (occ, [])"
| "assign_regular bs occ ((k, chain) # rest) =
     (case assign_to_lane bs occ chain of
        (occ, chain) \<Rightarrow> (case assign_regular bs occ rest of (occ, rest) \<Rightarrow> (occ, (k, chain) # rest)))"

fun assign_deferred :: "searcher \<Rightarrow> occupancy \<Rightarrow> (nat \<times> element_chain) list \<Rightarrow> occupancy \<times> (nat \<times> element_chain) list" where
  "assign_deferred bs occ [] = (occ, [])"
| "assign_deferred bs occ ((k, chain) # rest) =
     (let lanes = ml_get occ (ec_runner_id chain);
          lanes = (if lanes = [] then [[]] else lanes);
          lanes = lanes[0 := lane_insert bs (lanes ! 0) (ec_start chain) (ec_end chain)]
      in case assign_deferred bs (occ(ec_runner_id chain \<mapsto> lanes)) rest of
           (occ, rest) \<Rightarrow> (occ, (k, chain\<lparr>ec_lane_index := 0\<rparr>) # rest))"

text \<open>
  The code sorts and updates references into the slice; a reference is the position in the list, and the updated
  chains are written back to their positions.
\<close>

definition write_back :: "(nat \<times> element_chain) list \<Rightarrow> element_chain list \<Rightarrow> element_chain list" where
  "write_back refs all = fold (\<lambda>(k, chain) all. all[k := chain]) refs all"

definition assign_lanes :: "searcher \<Rightarrow> element_chain list \<Rightarrow> element_chain list" where
  "assign_lanes bs all =
     (let refs = enumerate 0 all;
          regular = sort_key (\<lambda>x. ec_start (snd x)) (filter (\<lambda>x. \<not> ec_deferred (snd x)) refs);
          deferred = sort_key (\<lambda>x. ec_start (snd x)) (filter (\<lambda>x. ec_deferred (snd x)) refs);
          (occ, regular) = assign_regular bs Map.empty regular;
          (occ, deferred) = assign_deferred bs occ deferred
      in write_back (regular @ deferred) all)"

section \<open>Searching a lane\<close>

lemma search_split:
  assumes "search_ok bs" "sorted xs"
  shows "either_index (bs xs t) \<le> length xs"
    and "j < either_index (bs xs t) \<Longrightarrow> xs ! j \<le> t"
    and "either_index (bs xs t) \<le> j \<Longrightarrow> j < length xs \<Longrightarrow> t \<le> xs ! j"
proof -
  have c: "case bs xs t of Inr i \<Rightarrow> i < length xs \<and> xs ! i = t
         | Inl i \<Rightarrow> i \<le> length xs \<and> (\<forall>j < i. xs ! j < t) \<and> (\<forall>j. i \<le> j \<and> j < length xs \<longrightarrow> t < xs ! j)"
    using assms by (simp add: search_ok_def)
  show "either_index (bs xs t) \<le> length xs" using c by (auto simp: either_index_def split: sum.splits)
  show "j < either_index (bs xs t) \<Longrightarrow> xs ! j \<le> t"
    using c sorted_nth_mono [OF assms(2), of j] by (fastforce simp: either_index_def split: sum.splits)
  show "either_index (bs xs t) \<le> j \<Longrightarrow> j < length xs \<Longrightarrow> t \<le> xs ! j"
    using c sorted_nth_mono [OF assms(2), of _ j] by (fastforce simp: either_index_def split: sum.splits)
qed

text \<open>Two intervals of which one ends before or when the other starts.\<close>

definition apart :: "time \<times> time \<Rightarrow> time \<times> time \<Rightarrow> bool" where
  "apart x y \<longleftrightarrow> fst x \<le> snd y \<or> fst y \<le> snd x"

definition lane_ok :: "time \<Rightarrow> lane_occupancy \<Rightarrow> bool" where
  "lane_ok t lane \<longleftrightarrow> sorted (map fst lane) \<and> (\<forall>x \<in> set lane. snd x \<le> fst x \<and> snd x \<le> t) \<and>
     (\<forall>x \<in> set lane. \<forall>y \<in> set lane. x = y \<or> apart x y)"

lemma lane_insert_set: "set (lane_insert bs lane start end_time) = insert (end_time, start) (set lane)"
proof -
  have "set (take k lane) \<union> set (drop k lane) = set lane" for k by (metis append_take_drop_id set_append)
  then show ?thesis by (auto simp: lane_insert_def Let_def)
qed

lemma lane_insert_sorted:
  assumes "search_ok bs" "sorted (map fst lane)"
  shows "sorted (map fst (lane_insert bs lane start end_time))"
proof -
  let ?i = "either_index (bs (map fst lane) end_time)"
  note s = search_split [OF assms, where t = end_time]
  have "x \<le> end_time" if "x \<in> set (take ?i (map fst lane))" for x
    using that s(2) by (auto simp: in_set_conv_nth simp del: nth_map)
  moreover have "end_time \<le> x" if "x \<in> set (drop ?i (map fst lane))" for x
    using that s(3) by (auto simp: in_set_conv_nth simp del: nth_map)
  moreover have "sorted (take ?i (map fst lane) @ drop ?i (map fst lane))" using assms(2) by simp
  ultimately have "sorted (take ?i (map fst lane) @ end_time # drop ?i (map fst lane))"
    unfolding sorted_append by auto
  then show ?thesis by (simp add: lane_insert_def Let_def take_map drop_map)
qed

lemma scan_forward_hit: "scan_forward start end_time lane \<Longrightarrow> \<exists>(e, s) \<in> set lane. start < e \<and> s < end_time"
  by (induction lane) (auto split: if_splits)

lemma scan_backward_hit: "scan_backward start end_time lane \<Longrightarrow> \<exists>(e, s) \<in> set lane. start < e \<and> s < end_time"
  by (induction lane) (auto split: if_splits)

text \<open>
  The forward scan stops early when an interval starts at or after the end of the queried one. The intervals are
  sorted by their end, not by their start; that nothing behind is missed needs that the lane is free of
  overlaps and that no interval of it starts later than the queried one.
\<close>

lemma scan_forward_complete:
  assumes "(e, s) \<in> set lane" "start < e" "s < end_time" "start \<le> end_time" "lane_ok start lane"
  shows "scan_forward start end_time lane"
  using assms(1,5)
proof (induction lane)
  case (Cons x lane)
  obtain e' s' where x: "x = (e', s')" by force
  have ok: "lane_ok start lane" using Cons.prems(2) by (auto simp: lane_ok_def)
  show ?case
  proof (cases "end_time \<le> s'")
    case True
    then have "s' = start" "end_time = start" using Cons.prems(2) assms(4) x by (auto simp: lane_ok_def)
    moreover have "(e, s) = (e', s') \<or> apart (e, s) (e', s')" using Cons.prems x by (auto simp: lane_ok_def)
    moreover have "s' \<le> e'" using Cons.prems(2) x by (auto simp: lane_ok_def)
    ultimately show ?thesis using assms(2,3) by (auto simp: apart_def)
  next
    case False
    then show ?thesis using Cons.IH [OF _ ok] Cons.prems(1) assms(2,3) x by auto
  qed
qed simp

lemma overlaps_iff:
  assumes "search_ok bs" "lane_ok start lane" "start \<le> end_time"
  shows "overlaps bs lane start end_time \<longleftrightarrow> (\<exists>(e, s) \<in> set lane. start < e \<and> s < end_time)"
proof
  let ?i = "either_index (bs (map fst lane) start)"
  assume "overlaps bs lane start end_time"
  then have "\<exists>(e, s) \<in> set (drop ?i lane) \<union> set (rev (take ?i lane)). start < e \<and> s < end_time"
    by (auto simp: overlaps_def Let_def dest!: scan_forward_hit scan_backward_hit)
  then show "\<exists>(e, s) \<in> set lane. start < e \<and> s < end_time" by (auto dest: in_set_takeD in_set_dropD)
next
  let ?i = "either_index (bs (map fst lane) start)"
  assume "\<exists>(e, s) \<in> set lane. start < e \<and> s < end_time"
  then obtain e s where hit: "(e, s) \<in> set lane" "start < e" "s < end_time" by blast
  have "sorted (map fst lane)" using assms(2) by (simp add: lane_ok_def)
  note split = search_split [OF assms(1) this, where t = start]
  from hit(1) obtain j where j: "j < length lane" "lane ! j = (e, s)" by (auto simp: in_set_conv_nth)
  have "?i \<le> j" using split(2) [of j] j hit(2) by (metis fst_conv leI linorder_not_less nth_map)
  then have "(e, s) \<in> set (drop ?i lane)"
    using j by (auto simp: in_set_conv_nth intro!: exI [of _ "j - ?i"])
  moreover have "lane_ok start (drop ?i lane)"
    using assms(2) by (auto simp: lane_ok_def sorted_wrt_drop simp flip: drop_map dest!: in_set_dropD)
  ultimately show "overlaps bs lane start end_time"
    using scan_forward_complete hit(2,3) assms(3) by (auto simp: overlaps_def Let_def)
qed


section \<open>The invariant of the assignment\<close>

abbreviation interval_of :: "element_chain \<Rightarrow> time \<times> time" where
  "interval_of c \<equiv> (ec_end c, ec_start c)"

text \<open>The lanes of a runner hold exactly the chains that were placed there.\<close>

definition holds :: "time \<Rightarrow> occupancy \<Rightarrow> element_chain set \<Rightarrow> bool" where
  "holds t occ placed \<longleftrightarrow>
     (\<forall>c \<in> placed. ec_lane_index c < length (ml_get occ (ec_runner_id c)) \<and>
        interval_of c \<in> set (ml_get occ (ec_runner_id c) ! ec_lane_index c)) \<and>
     (\<forall>r. \<forall>l < length (ml_get occ r). lane_ok t (ml_get occ r ! l) \<and>
        (\<forall>x \<in> set (ml_get occ r ! l). \<exists>c \<in> placed. ec_runner_id c = r \<and> ec_lane_index c = l \<and> interval_of c = x))"

text \<open>What \<^verbatim>\<open>assign_to_lane\<close> chooses: a lane without overlap, after lanes that all overlap.\<close>

lemma first_free_index:
  assumes "first_free bs start end_time lanes = (i, lanes')"
  shows "i \<le> length lanes"
    and "l < i \<Longrightarrow> overlaps bs (lanes ! l) start end_time"
    and "i < length lanes \<Longrightarrow> \<not> overlaps bs (lanes ! i) start end_time"
    and "lanes' = (if i < length lanes then lanes[i := lane_insert bs (lanes ! i) start end_time]
                   else lanes @ [lane_insert bs [] start end_time])"
  using assms
  by (induction lanes arbitrary: i lanes' l)
    (auto split: prod.splits if_splits simp: nth_Cons split: nat.splits)

lemma holds_later: "holds t occ placed \<Longrightarrow> t \<le> t' \<Longrightarrow> holds t' occ placed"
  by (fastforce simp: holds_def lane_ok_def)

definition clear_of :: "element_chain set \<Rightarrow> element_chain \<Rightarrow> bool" where
  "clear_of placed c \<longleftrightarrow>
     (\<forall>d \<in> placed. ec_runner_id d = ec_runner_id c \<and> ec_lane_index d = ec_lane_index c \<longrightarrow> apart (interval_of d) (interval_of c))"

definition pushed_down_by :: "element_chain set \<Rightarrow> element_chain \<Rightarrow> bool" where
  "pushed_down_by placed c \<longleftrightarrow>
     (\<forall>l < ec_lane_index c. \<exists>d \<in> placed. ec_runner_id d = ec_runner_id c \<and> ec_lane_index d = l \<and>
        ec_start d \<le> ec_start c \<and> ec_start c < ec_end d)"

lemma lane_ok_insert:
  assumes "search_ok bs" "lane_ok start lane" "start \<le> end_time" "\<not> overlaps bs lane start end_time"
  shows "lane_ok start (lane_insert bs lane start end_time)"
proof -
  have "apart (e, s) (end_time, start)" if "(e, s) \<in> set lane" for e s
    using that assms(4) overlaps_iff [OF assms(1-3)] by (fastforce simp: apart_def)
  moreover have "apart x y = apart y x" for x y by (auto simp: apart_def)
  ultimately show ?thesis
    using assms(2,3) lane_insert_sorted [OF assms(1), of lane] unfolding lane_ok_def lane_insert_set by (auto split: prod.splits)
qed

lemma overlaps_empty: "search_ok bs \<Longrightarrow> start \<le> end_time \<Longrightarrow> \<not> overlaps bs [] start end_time"
  using overlaps_iff [of bs start "[]" end_time] by (simp add: lane_ok_def)

lemma assign_to_lane_step:
  assumes "search_ok bs" "holds (ec_start c) occ placed" "ec_start c \<le> ec_end c" "assign_to_lane bs occ c = (occ', c')"
  shows "holds (ec_start c) occ' (insert c' placed) \<and> clear_of placed c' \<and> pushed_down_by placed c'"
    and "c' = c\<lparr>ec_lane_index := ec_lane_index c'\<rparr>"
proof -
  let ?r = "ec_runner_id c" and ?ls = "ml_get occ (ec_runner_id c)"
  let ?new = "\<lambda>l. lane_insert bs l (ec_start c) (ec_end c)"
  obtain i lanes where ff: "first_free bs (ec_start c) (ec_end c) ?ls = (i, lanes)" by force
  have c': "c' = c\<lparr>ec_lane_index := i\<rparr>" and occ': "occ' = occ(?r \<mapsto> lanes)"
    using assms(4) ff by (simp_all add: assign_to_lane_def)
  note ix = first_free_index [OF ff]
  have ok: "lane_ok (ec_start c) (?ls ! l)" if "l < length ?ls" for l using assms(2) that by (simp add: holds_def)
  note iff = overlaps_iff [OF assms(1) ok assms(3)]
  show "c' = c\<lparr>ec_lane_index := ec_lane_index c'\<rparr>" by (simp add: c')
  have clear: "clear_of placed c'"
    unfolding clear_of_def
  proof (intro ballI impI)
    fix d
    assume d: "d \<in> placed" "ec_runner_id d = ec_runner_id c' \<and> ec_lane_index d = ec_lane_index c'"
    then have "i < length ?ls" "interval_of d \<in> set (?ls ! i)" using assms(2) by (auto simp: holds_def c')
    then show "apart (interval_of d) (interval_of c')" using ix(3) iff [of i] by (fastforce simp: apart_def c')
  qed
  have pushed: "pushed_down_by placed c'"
    unfolding pushed_down_by_def
  proof (intro allI impI)
    fix l
    assume "l < ec_lane_index c'"
    then have l: "l < i" by (simp add: c')
    then have "overlaps bs (?ls ! l) (ec_start c) (ec_end c)" "l < length ?ls" using ix(1,2) by auto
    then obtain x where x: "x \<in> set (?ls ! l)" "ec_start c < fst x" using iff [of l] by auto
    then obtain d where "d \<in> placed" "ec_runner_id d = ?r" "ec_lane_index d = l" "interval_of d = x"
      using assms(2) \<open>l < length ?ls\<close> unfolding holds_def by metis
    moreover have "snd x \<le> ec_start c" using ok [OF \<open>l < length ?ls\<close>] x(1) by (simp add: lane_ok_def)
    ultimately show "\<exists>d \<in> placed. ec_runner_id d = ec_runner_id c' \<and> ec_lane_index d = l \<and>
        ec_start d \<le> ec_start c' \<and> ec_start c' < ec_end d"
      using x(2) by (intro bexI [of _ d]) (auto simp: c')
  qed
  have new: "lane_ok (ec_start c) (?new (?ls ! i))" if "i < length ?ls"
    using lane_ok_insert [OF assms(1) ok [OF that] assms(3)] ix(3) that by blast
  have fresh: "lane_ok (ec_start c) (?new [])"
    using lane_ok_insert [OF assms(1) _ assms(3) overlaps_empty [OF assms(1,3)]] by (simp add: lane_ok_def)
  have "holds (ec_start c) occ' (insert c' placed)"
    using assms(2) new fresh ix(1) unfolding holds_def occ' c' ix(4)
    by (auto simp: ms_simps nth_list_update nth_append lane_insert_set less_Suc_eq)
  with clear pushed show "holds (ec_start c) occ' (insert c' placed) \<and> clear_of placed c' \<and> pushed_down_by placed c'" by blast
qed

definition lanes_chosen :: "element_chain set \<Rightarrow> (nat \<times> element_chain) list \<Rightarrow> bool" where
  "lanes_chosen placed refs \<longleftrightarrow>
     (\<forall>i < length refs. clear_of (placed \<union> snd ` set (take i refs)) (snd (refs ! i)) \<and>
        pushed_down_by (placed \<union> snd ` set (take i refs)) (snd (refs ! i)))"

definition relabelled :: "nat \<times> element_chain \<Rightarrow> nat \<times> element_chain \<Rightarrow> bool" where
  "relabelled x y \<longleftrightarrow> fst y = fst x \<and> snd y = (snd x)\<lparr>ec_lane_index := ec_lane_index (snd y)\<rparr>"

lemma lanes_chosen_Cons:
  "lanes_chosen placed ((k, c) # refs) \<longleftrightarrow> clear_of placed c \<and> pushed_down_by placed c \<and> lanes_chosen (insert c placed) refs"
  by (auto simp: lanes_chosen_def nth_Cons All_less_Suc2)

lemma assign_regular_spec:
  assumes "search_ok bs" "holds t occ placed" "sorted (map (\<lambda>x. ec_start (snd x)) refs)"
    and "\<And>k c. (k, c) \<in> set refs \<Longrightarrow> t \<le> ec_start c \<and> ec_start c \<le> ec_end c"
    and "assign_regular bs occ refs = (occ', refs')"
  shows "list_all2 relabelled refs refs' \<and> lanes_chosen placed refs'"
  using assms(2-)
proof (induction refs arbitrary: t occ placed refs')
  case (Cons x refs)
  obtain k c where x: "x = (k, c)" by force
  obtain occ1 c1 where a: "assign_to_lane bs occ c = (occ1, c1)" by force
  obtain rest where rest: "assign_regular bs occ1 refs = (occ', rest)" "refs' = (k, c1) # rest"
    using Cons.prems(4) x a by (auto split: prod.splits)
  have c: "t \<le> ec_start c" "ec_start c \<le> ec_end c" using Cons.prems(3) x by auto
  note step = assign_to_lane_step [OF assms(1) holds_later [OF Cons.prems(1) c(1)] c(2) a]
  have srt: "sorted (map (\<lambda>x. ec_start (snd x)) refs)"
    using Cons.prems(2) by simp
  have later: "ec_start c \<le> ec_start c' \<and> ec_start c' \<le> ec_end c'" if "(k', c') \<in> set refs" for k' c'
    using that Cons.prems(2) Cons.prems(3) [of k' c'] x by force
  show ?case using Cons.IH [OF _ srt later rest(1)] step x rest(2) by (auto simp: lanes_chosen_Cons relabelled_def)
qed (auto simp: lanes_chosen_def)


section \<open>The whole assignment\<close>

lemma write_back_length [simp]: "length (write_back refs all) = length all"
  unfolding write_back_def by (induction refs arbitrary: all) auto

lemma write_back_other: "k \<notin> fst ` set refs \<Longrightarrow> write_back refs all ! k = all ! k"
  unfolding write_back_def by (induction refs arbitrary: all) auto

lemma write_back_nth:
  "(k, c) \<in> set refs \<Longrightarrow> distinct (map fst refs) \<Longrightarrow> k < length all \<Longrightarrow> write_back refs all ! k = c"
proof (induction refs arbitrary: all)
  case (Cons x refs)
  obtain k' c' where x: "x = (k', c')" by force
  have step: "write_back (x # refs) all = write_back refs (all[k' := c'])" by (simp add: write_back_def x)
  show ?case
  proof (cases "(k, c) \<in> set refs")
    case True
    then show ?thesis using Cons step by simp
  next
    case False
    then have "k' = k" "c' = c" using Cons.prems(1) x by auto
    moreover have "k \<notin> fst ` set refs" using Cons.prems(2) x calculation by auto
    ultimately show ?thesis using step write_back_other [of k refs "all[k := c]"] Cons.prems(3) by simp
  qed
qed simp

lemma assign_deferred_spec:
  "assign_deferred bs occ refs = (occ', refs') \<Longrightarrow> list_all2 (\<lambda>x y. relabelled x y \<and> ec_lane_index (snd y) = 0) refs refs'"
  by (induction bs occ refs arbitrary: occ' refs' rule: assign_deferred.induct)
    (auto simp: relabelled_def Let_def split: prod.splits)

lemma relabelled_keys: "list_all2 relabelled refs refs' \<Longrightarrow> map fst refs' = map fst refs"
  by (induction refs refs' rule: list_all2_induct) (auto simp: relabelled_def)

lemma relabelled_member:
  assumes "list_all2 relabelled refs refs'" "(k, c') \<in> set refs'"
  obtains c where "(k, c) \<in> set refs" "c' = c\<lparr>ec_lane_index := ec_lane_index c'\<rparr>"
  using assms by (induction refs refs' rule: list_all2_induct) (force simp: relabelled_def)+

lemma list_all2_partner: "list_all2 P xs ys \<Longrightarrow> x \<in> set xs \<Longrightarrow> \<exists>y \<in> set ys. P x y"
  by (induction xs ys rule: list_all2_induct) auto

lemma relabelled_member':
  assumes "list_all2 relabelled refs refs'" "(k, c) \<in> set refs"
  obtains c' where "(k, c') \<in> set refs'" "c' = c\<lparr>ec_lane_index := ec_lane_index c'\<rparr>"
  using assms by (induction refs refs' rule: list_all2_induct) (force simp: relabelled_def)+

lemma lanes_chosen_apart:
  assumes "lanes_chosen {} refs" "distinct (map fst refs)" "(j, c) \<in> set refs" "(k, d) \<in> set refs" "j \<noteq> k"
    and "ec_runner_id c = ec_runner_id d" "ec_lane_index c = ec_lane_index d"
  shows "apart (interval_of c) (interval_of d)"
proof -
  have earlier: "apart (interval_of c) (interval_of d)"
    if "a < b" "b < length refs" "refs ! a = (j, c)" "refs ! b = (k, d)" "ec_runner_id c = ec_runner_id d" "ec_lane_index c = ec_lane_index d"
    for a b j k c d
  proof -
    have "refs ! a \<in> set (take b refs)" using that(1,2) by (auto simp: in_set_conv_nth)
    then have "c \<in> snd ` set (take b refs)" using that(3) by force
    moreover have "clear_of (snd ` set (take b refs)) d" using assms(1) that(2,4) by (auto simp: lanes_chosen_def)
    ultimately show ?thesis using that(5,6) by (auto simp: clear_of_def)
  qed
  obtain a b where ab: "a < length refs" "b < length refs" "refs ! a = (j, c)" "refs ! b = (k, d)"
    using assms(3,4) by (auto simp: in_set_conv_nth)
  moreover have "a \<noteq> b" using ab assms(5) by auto
  moreover have "apart x y = apart y x" for x y by (auto simp: apart_def)
  ultimately show ?thesis using earlier [of a b j c k d] earlier [of b a k d j c] assms(6,7) by (metis linorder_neqE_nat)
qed

lemma lanes_chosen_pushed:
  assumes "lanes_chosen {} refs" "(k, c) \<in> set refs" "l < ec_lane_index c"
  obtains j d where "(j, d) \<in> set refs" "ec_runner_id d = ec_runner_id c" "ec_lane_index d = l"
    "ec_start d \<le> ec_start c" "ec_start c < ec_end d"
proof -
  obtain b where b: "b < length refs" "refs ! b = (k, c)" using assms(2) by (auto simp: in_set_conv_nth)
  then have "pushed_down_by (snd ` set (take b refs)) c" using assms(1) by (auto simp: lanes_chosen_def)
  then obtain d where "d \<in> snd ` set (take b refs)" "ec_runner_id d = ec_runner_id c" "ec_lane_index d = l"
    "ec_start d \<le> ec_start c" "ec_start c < ec_end d"
    using assms(3) unfolding pushed_down_by_def by blast
  then show thesis using that by (force dest: in_set_takeD)
qed

lemma refs_member: "(k, c) \<in> set (sort_key f (filter P (enumerate 0 all))) \<longleftrightarrow> k < length all \<and> c = all ! k \<and> P (k, c)"
  by (auto simp: in_set_enumerate_eq)

lemma refs_distinct: "distinct (map fst (sort_key f (filter P (enumerate 0 all))))"
proof -
  have "distinct (map fst (filter P (enumerate 0 all)))" using distinct_map_filter [of fst "enumerate 0 all"] by simp
  then show ?thesis by (simp add: distinct_map)
qed

lemma assign_lanes_spec:
  assumes "search_ok bs" "\<And>c. c \<in> set all \<Longrightarrow> ec_start c \<le> ec_end c"
  obtains refs where "lanes_chosen {} refs" "distinct (map fst refs)"
    "\<And>k c. (k, c) \<in> set refs \<longleftrightarrow> k < length all \<and> \<not> ec_deferred (all ! k) \<and> c = assign_lanes bs all ! k"
    "\<And>k. k < length all \<Longrightarrow> assign_lanes bs all ! k = (all ! k)\<lparr>ec_lane_index := ec_lane_index (assign_lanes bs all ! k)\<rparr>"
    "\<And>k. k < length all \<Longrightarrow> ec_deferred (all ! k) \<Longrightarrow> ec_lane_index (assign_lanes bs all ! k) = 0"
    "length (assign_lanes bs all) = length all"
proof -
  define key where "key = (\<lambda>x :: nat \<times> element_chain. ec_start (snd x))"
  define R where "R = sort_key key (filter (\<lambda>x. \<not> ec_deferred (snd x)) (enumerate 0 all))"
  define D where "D = sort_key key (filter (\<lambda>x. ec_deferred (snd x)) (enumerate 0 all))"
  obtain occ R' where R': "assign_regular bs Map.empty R = (occ, R')" by force
  obtain occ' D' where D': "assign_deferred bs occ D = (occ', D')" by force
  have out: "assign_lanes bs all = write_back (R' @ D') all"
    using R' D' by (simp add: assign_lanes_def R_def D_def key_def)
  have memR: "(k, c) \<in> set R \<longleftrightarrow> k < length all \<and> c = all ! k \<and> \<not> ec_deferred c"
    and memD: "(k, c) \<in> set D \<longleftrightarrow> k < length all \<and> c = all ! k \<and> ec_deferred c" for k c
    unfolding R_def D_def refs_member by auto
  have srt: "sorted (map (\<lambda>x. ec_start (snd x)) R)" using sorted_sort_key [of key] by (simp add: R_def key_def)
  obtain t where "\<forall>c \<in> set all. t \<le> ec_start c"
    by (metis (no_types) ex_min_if_finite finite_imageI finite_set imageI linorder_not_less empty_iff)
  then have "t \<le> ec_start c \<and> ec_start c \<le> ec_end c" if "(k, c) \<in> set R" for k c
    using that assms(2) memR by auto
  moreover have "holds t Map.empty {}" by (simp add: holds_def ms_simps)
  ultimately have reg: "list_all2 relabelled R R' \<and> lanes_chosen {} R'"
    using assign_regular_spec [OF assms(1) _ srt _ R'] by blast
  have dfr: "list_all2 (\<lambda>x y. relabelled x y \<and> ec_lane_index (snd y) = 0) D D'" by (rule assign_deferred_spec [OF D'])
  then have dfr': "list_all2 relabelled D D'" by (rule list_all2_mono) simp
  have keys: "map fst R' = map fst R" "map fst D' = map fst D" using relabelled_keys reg dfr' by blast+
  have "fst ` set R \<inter> fst ` set D = {}" using memR memD by fastforce
  then have "set (map fst R) \<inter> set (map fst D) = {}" by simp
  then have dist: "distinct (map fst R')" "distinct (map fst (R' @ D'))"
    using refs_distinct [of key _ all] unfolding map_append distinct_append keys by (simp_all add: R_def D_def)
  have written: "assign_lanes bs all ! k = c" if "(k, c) \<in> set (R' @ D')" "k < length all" for k c
    unfolding out by (rule write_back_nth [OF that(1) dist(2) that(2)])
  have regular: "(k, assign_lanes bs all ! k) \<in> set R' \<and>
      assign_lanes bs all ! k = (all ! k)\<lparr>ec_lane_index := ec_lane_index (assign_lanes bs all ! k)\<rparr>"
    if "k < length all" "\<not> ec_deferred (all ! k)" for k
    using relabelled_member' [OF conjunct1 [OF reg], of k "all ! k"] memR that written by (metis UnCI set_append)
  have deferred: "assign_lanes bs all ! k = (all ! k)\<lparr>ec_lane_index := 0\<rparr>" if "k < length all" "ec_deferred (all ! k)" for k
  proof -
    have "(k, all ! k) \<in> set D" using memD that by simp
    then obtain y where y: "y \<in> set D'" "relabelled (k, all ! k) y" "ec_lane_index (snd y) = 0"
      using list_all2_partner [OF dfr] by blast
    then have "y = (k, (all ! k)\<lparr>ec_lane_index := 0\<rparr>)" by (simp add: relabelled_def prod_eq_iff)
    then show ?thesis using written y(1) that(1) by simp
  qed
  have R'_iff: "(k, c) \<in> set R' \<longleftrightarrow> k < length all \<and> \<not> ec_deferred (all ! k) \<and> c = assign_lanes bs all ! k" for k c
  proof
    assume "(k, c) \<in> set R'"
    moreover from this obtain d where "(k, d) \<in> set R" using relabelled_member conjunct1 [OF reg] by blast
    ultimately show "k < length all \<and> \<not> ec_deferred (all ! k) \<and> c = assign_lanes bs all ! k" using memR written by auto
  next
    assume "k < length all \<and> \<not> ec_deferred (all ! k) \<and> c = assign_lanes bs all ! k"
    then show "(k, c) \<in> set R'" using regular by blast
  qed
  have same: "assign_lanes bs all ! k = (all ! k)\<lparr>ec_lane_index := ec_lane_index (assign_lanes bs all ! k)\<rparr>"
    if "k < length all" for k
    using that regular [of k] deferred [of k] by (cases "ec_deferred (all ! k)") auto
  have len: "length (assign_lanes bs all) = length all" by (simp add: out)
  show thesis
    by (rule that [OF conjunct2 [OF reg] dist(1) R'_iff same]) (simp_all add: deferred len)
qed

end
