(* ===== verification/Timeline.thy ===== *)
theory Timeline
  imports Timeline_Lanes Mem_State Mem_Orchestrator "HOL-Library.Multiset"
begin

text \<open>
  \<^verbatim>\<open>rustvello-monitoring/src/svg/builder/\<close> and the models it fills: the histories of invocations become chains,
  lanes of runners and groups of lanes with a point for every status change and a bar for every status
  with a duration. Pixel coordinates and colours (floating point) are left out, and with them the connecting
  lines. An index out of range is \<open>Panic\<close>.
\<close>

section \<open>The builder\<close>

record timeline_builder =
  tb_histories :: "str \<rightharpoonup> invocation_history list"
  tb_task_ids :: "str \<rightharpoonup> str"
  tb_runner_contexts :: "str \<rightharpoonup> stored_runner_context"
  tb_worker_lane_offsets :: "str \<times> nat \<rightharpoonup> nat"
  tb_explicit_start :: "time option"
  tb_explicit_end :: "time option"
  tb_atomic :: "atomic_service_execution list"

definition timeline_builder_new :: timeline_builder where
  "timeline_builder_new =
     \<lparr>tb_histories = Map.empty, tb_task_ids = Map.empty, tb_runner_contexts = Map.empty,
      tb_worker_lane_offsets = Map.empty, tb_explicit_start = None, tb_explicit_end = None, tb_atomic = []\<rparr>"

definition set_time_bounds :: "time \<Rightarrow> time \<Rightarrow> timeline_builder \<Rightarrow> timeline_builder" where
  "set_time_bounds start end_time b = b\<lparr>tb_explicit_start := Some start, tb_explicit_end := Some end_time\<rparr>"

definition set_runner_contexts :: "(str \<rightharpoonup> stored_runner_context) \<Rightarrow> timeline_builder \<Rightarrow> timeline_builder" where
  "set_runner_contexts contexts b = b\<lparr>tb_runner_contexts := contexts\<rparr>"

definition set_atomic_service_executions :: "atomic_service_execution list \<Rightarrow> timeline_builder \<Rightarrow> timeline_builder" where
  "set_atomic_service_executions executions b = b\<lparr>tb_atomic := executions\<rparr>"

definition add_history_batch_for_task :: "invocation_history list \<Rightarrow> str \<Rightarrow> timeline_builder \<Rightarrow> timeline_builder" where
  "add_history_batch_for_task entries task b =
     fold (\<lambda>h b. b\<lparr>tb_task_ids := (tb_task_ids b)(h_invocation_id h \<mapsto> (case tb_task_ids b (h_invocation_id h) of None \<Rightarrow> task | Some t \<Rightarrow> t)),
                  tb_histories := ml_push (h_invocation_id h) h (tb_histories b)\<rparr>) entries b"

definition add_history_batch :: "invocation_history list \<Rightarrow> timeline_builder \<Rightarrow> timeline_builder" where
  "add_history_batch entries b =
     fold (\<lambda>h b. b\<lparr>tb_histories := ml_push (h_invocation_id h) h (tb_histories b)\<rparr>) entries b"

section \<open>Runners\<close>

record runner_info =
  ri_runner_cls :: str
  ri_runner_language :: str
  ri_executor_kind :: str
  ri_runner_id :: str
  ri_hostname :: str
  ri_pid :: u32
  ri_thread_id :: u64
  ri_parent_runner_cls :: "str option"
  ri_parent_runner_id :: "str option"

definition runner_from_id :: "str \<Rightarrow> runner_info" where
  "runner_from_id r =
     \<lparr>ri_runner_cls = ''Unknown'', ri_runner_language = ''unknown'', ri_executor_kind = ''unknown'', ri_runner_id = r,
      ri_hostname = ''unknown'', ri_pid = 0, ri_thread_id = 0, ri_parent_runner_cls = None, ri_parent_runner_id = None\<rparr>"

definition runner_from_context :: "stored_runner_context \<Rightarrow> runner_info" where
  "runner_from_context c =
     \<lparr>ri_runner_cls = src_runner_cls c, ri_runner_language = language_as_str (src_language c),
      ri_executor_kind = executor_as_str (src_executor c), ri_runner_id = src_runner_id c, ri_hostname = src_hostname c,
      ri_pid = src_pid c, ri_thread_id = src_thread_id c, ri_parent_runner_cls = src_parent_runner_cls c,
      ri_parent_runner_id = src_parent_runner_id c\<rparr>"

abbreviation unassigned :: str where
  "unassigned \<equiv> ''unassigned''"

definition external_runner :: runner_info where
  "external_runner =
     \<lparr>ri_runner_cls = ''ExternalRunner'', ri_runner_language = ''external'', ri_executor_kind = ''external'',
      ri_runner_id = unassigned, ri_hostname = [], ri_pid = 0, ri_thread_id = 0, ri_parent_runner_cls = None,
      ri_parent_runner_id = None\<rparr>"

section \<open>Lanes\<close>

record status_point =
  pt_invocation_id :: str
  pt_task_id :: str
  pt_status :: invocation_status
  pt_timestamp :: time
  pt_runner_id :: "str option"
  pt_atomic_origin :: bool

record status_segment =
  sg_invocation_id :: str
  sg_task_id :: str
  sg_status :: invocation_status
  sg_color_status :: invocation_status
  sg_start :: time
  sg_end :: time
  sg_runner_id :: "str option"
  sg_is_ongoing :: bool

record runner_lane =
  rl_points :: "status_point list"
  rl_segments :: "status_segment list"
  rl_worker_info :: "runner_info option"

definition runner_lane_new :: runner_lane where
  "runner_lane_new = \<lparr>rl_points = [], rl_segments = [], rl_worker_info = None\<rparr>"

record lane_group =
  lg_runner_info :: runner_info
  lg_control_plane :: "runner_lane option"
  lg_lanes :: "runner_lane list"

definition lane_group_new :: "runner_info \<Rightarrow> lane_group" where
  "lane_group_new info = \<lparr>lg_runner_info = info, lg_control_plane = None, lg_lanes = []\<rparr>"

definition SEGMENT_STATUSES :: "invocation_status list" where
  "SEGMENT_STATUSES = [Pending, Running, Paused]"

section \<open>Chains\<close>

abbreviation entry_time :: "invocation_history \<Rightarrow> time" where
  "entry_time h \<equiv> sr_timestamp (h_status_record h)"

abbreviation entry_status :: "invocation_history \<Rightarrow> invocation_status" where
  "entry_status h \<equiv> sr_status (h_status_record h)"

definition entry_runner :: "invocation_history \<Rightarrow> str option" where
  "entry_runner h = (case h_runner_id h of Some r \<Rightarrow> Some r | None \<Rightarrow> sr_runner (h_status_record h))"

definition effective_runner :: "invocation_history \<Rightarrow> str" where
  "effective_runner h = (case entry_runner h of None \<Rightarrow> unassigned | Some r \<Rightarrow> r)"

definition group_chain :: "str \<Rightarrow> invocation_history list \<Rightarrow> nat \<Rightarrow> nat \<Rightarrow> element_chain" where
  "group_chain i entries group_start k =
     (element_chain_new i (effective_runner (entries ! group_start)) (entry_time (entries ! group_start))
        (entry_time (entries ! (k - 1))) (k - group_start = 1 \<and> entry_status (entries ! group_start) = Registered))
       \<lparr>ec_entry_start := group_start, ec_entry_end := k\<rparr>"

definition group_step ::
    "str \<Rightarrow> invocation_history list \<Rightarrow> nat \<Rightarrow> nat \<times> element_chain list \<Rightarrow> nat \<times> element_chain list" where
  "group_step i entries k = (\<lambda>(group_start, cs).
     if k = length entries \<or> effective_runner (entries ! k) \<noteq> effective_runner (entries ! group_start)
     then (k, cs @ [group_chain i entries group_start k]) else (group_start, cs))"

definition invocation_chains :: "str \<Rightarrow> invocation_history list \<Rightarrow> element_chain list" where
  "invocation_chains i entries = snd (fold (group_step i entries) [1..<Suc (length entries)] (0, []))"

definition build_chains :: "env \<Rightarrow> timeline_builder \<Rightarrow> element_chain list" where
  "build_chains e b =
     concat (map (\<lambda>i. invocation_chains i (ml_get (tb_histories b) i)) (hash_order e (dom (tb_histories b))))"

section \<open>Lane groups\<close>

text \<open>\<^verbatim>\<open>populate_lane_elements\<close>; a missing next entry leaves the bar open to the end of the window.\<close>

fun populate_lane_elements ::
    "timeline_builder \<Rightarrow> str \<Rightarrow> str \<Rightarrow> time \<Rightarrow> bool \<Rightarrow> invocation_history list \<Rightarrow> runner_lane \<Rightarrow> runner_lane" where
  "populate_lane_elements b i task window_end control_plane [] lane = lane"
| "populate_lane_elements b i task window_end control_plane (h # rest) lane =
     (let status = entry_status h;
          point = \<lparr>pt_invocation_id = i, pt_task_id = task, pt_status = status, pt_timestamp = entry_time h,
                   pt_runner_id = entry_runner h,
                   pt_atomic_origin = (control_plane \<and> status = Registered \<and>
                     (case entry_runner h of
                        None \<Rightarrow> False
                      | Some r \<Rightarrow> list_ex (\<lambda>x. ase_runner_id x = r \<and> ase_start x \<le> entry_time h \<and> entry_time h \<le> ase_end x) (tb_atomic b)))\<rparr>;
          lane = lane\<lparr>rl_points := rl_points lane @ [point]\<rparr>;
          segment = (\<lambda>color end_time ongoing.
            \<lparr>sg_invocation_id = i, sg_task_id = task, sg_status = status, sg_color_status = color,
             sg_start = entry_time h, sg_end = end_time, sg_runner_id = entry_runner h, sg_is_ongoing = ongoing\<rparr>);
          lane = (if status \<in> set SEGMENT_STATUSES then
                    lane\<lparr>rl_segments := rl_segments lane @
                      [case rest of
                         [] \<Rightarrow> segment status window_end True
                       | next_entry # _ \<Rightarrow>
                           segment (if entry_status next_entry \<in> {Success, Failed} then entry_status next_entry else status)
                             (entry_time next_entry) False]\<rparr>
                  else lane)
      in populate_lane_elements b i task window_end control_plane rest lane)"

definition group_key :: "timeline_builder \<Rightarrow> str \<Rightarrow> str" where
  "group_key b r =
     (if r = unassigned then r
      else case tb_runner_contexts b r of
             None \<Rightarrow> r
           | Some c \<Rightarrow> (case src_parent_runner_id c of Some parent \<Rightarrow> parent | None \<Rightarrow> r))"

text \<open>The chains of a chain's invocation; the slice of its history is checked as the code's indexing is.\<close>

definition draw_chain :: "timeline_builder \<Rightarrow> time \<Rightarrow> bool \<Rightarrow> element_chain \<Rightarrow> runner_lane \<Rightarrow> runner_lane result" where
  "draw_chain b window_end control_plane c lane =
     (case tb_histories b (ec_invocation_id c) of
        None \<Rightarrow> Inr lane
      | Some entries \<Rightarrow>
          (if ec_entry_start c \<le> ec_entry_end c \<and> ec_entry_end c \<le> length entries then
             Inr (populate_lane_elements b (ec_invocation_id c)
               (case tb_task_ids b (ec_invocation_id c) of None \<Rightarrow> [] | Some t \<Rightarrow> t) window_end control_plane
               (take (ec_entry_end c - ec_entry_start c) (drop (ec_entry_start c) entries)) lane)
           else Inl Panic))"

fun draw_control :: "timeline_builder \<Rightarrow> time \<Rightarrow> element_chain list \<Rightarrow> runner_lane \<Rightarrow> runner_lane result" where
  "draw_control b window_end [] lane = Inr lane"
| "draw_control b window_end (c # cs) lane =
     (case draw_chain b window_end True c lane of Inl err \<Rightarrow> Inl err | Inr lane \<Rightarrow> draw_control b window_end cs lane)"

fun draw_lanes :: "timeline_builder \<Rightarrow> time \<Rightarrow> nat \<Rightarrow> element_chain list \<Rightarrow> runner_lane list \<Rightarrow> runner_lane list result" where
  "draw_lanes b window_end offset [] lanes = Inr lanes"
| "draw_lanes b window_end offset (c # cs) lanes =
     (let k = ec_lane_index c + offset
      in if k < length lanes then
           (case draw_chain b window_end False c (lanes ! k) of
              Inl err \<Rightarrow> Inl err
            | Inr lane \<Rightarrow> draw_lanes b window_end offset cs (lanes[k := lane]))
         else Inl Panic)"

definition USIZE_MAX :: nat where
  "USIZE_MAX = 2 ^ 64 - 1"

definition max_lane :: "element_chain list \<Rightarrow> nat" where
  "max_lane cs = foldr max (map ec_lane_index cs) 0"

type_synonym group_state = "lane_group \<times> nat \<times> (str \<times> nat \<rightharpoonup> nat)"

definition add_worker ::
    "timeline_builder \<Rightarrow> time \<Rightarrow> str \<Rightarrow> bool \<Rightarrow> str \<times> element_chain list \<Rightarrow> group_state \<Rightarrow> group_state result" where
  "add_worker b window_end key has_child_workers w st =
     (case (w, st) of
        ((worker, cs), (grp, lane_offset, offsets)) \<Rightarrow>
          (if has_child_workers \<and> worker = key then
             (case draw_control b window_end cs (case lg_control_plane grp of None \<Rightarrow> runner_lane_new | Some lane \<Rightarrow> lane) of
                Inl err \<Rightarrow> Inl err
              | Inr lane \<Rightarrow>
                  Inr (grp\<lparr>lg_control_plane := Some lane\<rparr>, lane_offset,
                       fold (\<lambda>c m. m((worker, ec_lane_index c) \<mapsto> USIZE_MAX)) cs offsets))
           else
             (let num_lanes = max_lane cs + 1;
                  offsets = fold (\<lambda>l m. m((worker, l) \<mapsto> l + lane_offset)) [0..<num_lanes] offsets;
                  info = map_option runner_from_context (tb_runner_contexts b worker);
                  lanes = lg_lanes grp @ replicate num_lanes (runner_lane_new\<lparr>rl_worker_info := info\<rparr>)
              in case draw_lanes b window_end lane_offset cs lanes of
                   Inl err \<Rightarrow> Inl err
                 | Inr lanes \<Rightarrow> Inr (grp\<lparr>lg_lanes := lanes\<rparr>, lane_offset + num_lanes, offsets))))"

fun add_workers ::
    "timeline_builder \<Rightarrow> time \<Rightarrow> str \<Rightarrow> bool \<Rightarrow> (str \<times> element_chain list) list \<Rightarrow> group_state \<Rightarrow> group_state result" where
  "add_workers b window_end key has_child_workers [] st = Inr st"
| "add_workers b window_end key has_child_workers (w # ws) st =
     (case add_worker b window_end key has_child_workers w st of
        Inl err \<Rightarrow> Inl err
      | Inr st \<Rightarrow> add_workers b window_end key has_child_workers ws st)"

definition header_info :: "timeline_builder \<Rightarrow> str \<Rightarrow> (str \<times> element_chain list) list \<Rightarrow> runner_info" where
  "header_info b key workers =
     (if key = unassigned then external_runner
      else case tb_runner_contexts b key of
             Some c \<Rightarrow> runner_from_context c
           | None \<Rightarrow>
               (case find (\<lambda>c. src_parent_runner_id c = Some key) (List.map_filter (\<lambda>(r, _). tb_runner_contexts b r) workers) of
                  Some child \<Rightarrow>
                    \<lparr>ri_runner_cls = (case src_parent_runner_cls child of None \<Rightarrow> ''Runner'' | Some cls \<Rightarrow> cls),
                     ri_runner_language = language_as_str (src_language child),
                     ri_executor_kind = executor_as_str (src_executor child), ri_runner_id = key,
                     ri_hostname = src_hostname child, ri_pid = src_pid child, ri_thread_id = 0,
                     ri_parent_runner_cls = None, ri_parent_runner_id = None\<rparr>
                | None \<Rightarrow> runner_from_id key))"

text \<open>The runners with their chains, in the order of the hash map, and the keys in the order of the groups.\<close>

definition workers_of :: "env \<Rightarrow> timeline_builder \<Rightarrow> element_chain list \<Rightarrow> str \<Rightarrow> (str \<times> element_chain list) list" where
  "workers_of e b cs key =
     map (\<lambda>r. (r, filter (\<lambda>c. ec_runner_id c = r) cs))
       (filter (\<lambda>r. group_key b r = key) (hash_order e (ec_runner_id ` set cs)))"

definition group_keys :: "timeline_builder \<Rightarrow> element_chain list \<Rightarrow> str list" where
  "group_keys b cs =
     (let keys = sorted_list_of_set (group_key b ` ec_runner_id ` set cs)
      in filter (\<lambda>k. k \<noteq> unassigned) keys @ filter (\<lambda>k. k = unassigned) keys)"

definition build_group ::
    "env \<Rightarrow> timeline_builder \<Rightarrow> time \<Rightarrow> element_chain list \<Rightarrow> str \<Rightarrow> (str \<times> nat \<rightharpoonup> nat)
       \<Rightarrow> (lane_group \<times> (str \<times> nat \<rightharpoonup> nat)) result" where
  "build_group e b window_end cs key offsets =
     (let workers = workers_of e b cs key;
          has_child_workers = list_ex (\<lambda>(r, _). Option.bind (tb_runner_contexts b r) src_parent_runner_id = Some key) workers
      in case add_workers b window_end key has_child_workers (sort_key fst workers)
                (lane_group_new (header_info b key workers), 0, offsets) of
           Inl err \<Rightarrow> Inl err
         | Inr (grp, _, offsets) \<Rightarrow> Inr (grp, offsets))"

fun build_groups ::
    "env \<Rightarrow> timeline_builder \<Rightarrow> time \<Rightarrow> element_chain list \<Rightarrow> str list \<Rightarrow> (str \<times> nat \<rightharpoonup> nat)
       \<Rightarrow> (lane_group list \<times> (str \<times> nat \<rightharpoonup> nat)) result" where
  "build_groups e b window_end cs [] offsets = Inr ([], offsets)"
| "build_groups e b window_end cs (key # keys) offsets =
     (case build_group e b window_end cs key offsets of
        Inl err \<Rightarrow> Inl err
      | Inr (grp, offsets) \<Rightarrow>
          (case build_groups e b window_end cs keys offsets of
             Inl err \<Rightarrow> Inl err
           | Inr (groups, offsets) \<Rightarrow> Inr (grp # groups, offsets)))"

definition build_lane_groups ::
    "env \<Rightarrow> timeline_builder \<Rightarrow> time \<Rightarrow> element_chain list \<Rightarrow> (lane_group list \<times> timeline_builder) result" where
  "build_lane_groups e b window_end cs =
     (case build_groups e b window_end cs (group_keys b cs) (tb_worker_lane_offsets b) of
        Inl err \<Rightarrow> Inl err
      | Inr (groups, offsets) \<Rightarrow> Inr (groups, b\<lparr>tb_worker_lane_offsets := offsets\<rparr>))"

section \<open>The timeline\<close>

record timeline_data =
  td_start :: time
  td_end :: time
  td_groups :: "lane_group list"
  td_atomic :: "atomic_service_execution list"

definition atomic_group :: "timeline_builder \<Rightarrow> str \<Rightarrow> lane_group" where
  "atomic_group b r =
     (lane_group_new (case tb_runner_contexts b r of None \<Rightarrow> runner_from_id r | Some c \<Rightarrow> runner_from_context c))
       \<lparr>lg_control_plane := Some runner_lane_new\<rparr>"

text \<open>Sorting and \<^verbatim>\<open>dedup\<close> list the ids once, in order.\<close>

definition atomic_lane_groups :: "timeline_builder \<Rightarrow> lane_group list" where
  "atomic_lane_groups b = map (atomic_group b) (sorted_list_of_set (ase_runner_id ` set (tb_atomic b)))"

definition add_missing_atomic_lane_groups :: "timeline_builder \<Rightarrow> lane_group list \<Rightarrow> lane_group list" where
  "add_missing_atomic_lane_groups b groups =
     groups @ map (atomic_group b)
       (sorted_list_of_set (ase_runner_id ` set (tb_atomic b) - (ri_runner_id \<circ> lg_runner_info) ` set groups))"

definition compute_time_bounds :: "env \<Rightarrow> timeline_builder \<Rightarrow> time \<times> time" where
  "compute_time_bounds e b =
     (case concat (map (\<lambda>i. map entry_time (ml_get (tb_histories b) i)) (hash_order e (dom (tb_histories b)))) of
        [] \<Rightarrow> (now e - ns_per_sec, now e)
      | t # ts \<Rightarrow>
          (let lo = fold min ts t; hi = fold max ts t
           in if hi \<le> lo then (now e - ns_per_sec, now e) else (lo, hi)))"

definition restrict_to_window :: "timeline_builder \<Rightarrow> timeline_builder" where
  "restrict_to_window b =
     (case (tb_explicit_start b, tb_explicit_end b) of
        (Some start, Some end_time) \<Rightarrow>
          b\<lparr>tb_histories := (\<lambda>i. case tb_histories b i of
              None \<Rightarrow> None
            | Some entries \<Rightarrow>
                (case filter (\<lambda>h. start \<le> entry_time h \<and> entry_time h \<le> end_time) entries of
                   [] \<Rightarrow> None
                 | kept \<Rightarrow> Some kept))\<rparr>
      | _ \<Rightarrow> b)"

definition sort_histories :: "timeline_builder \<Rightarrow> timeline_builder" where
  "sort_histories b = b\<lparr>tb_histories := map_option (sort_key entry_time) \<circ> tb_histories b\<rparr>"

definition build_timeline :: "searcher \<Rightarrow> env \<Rightarrow> timeline_builder \<Rightarrow> timeline_data result" where
  "build_timeline bs e b =
     (let b = restrict_to_window b
      in if tb_histories b = Map.empty then
           (case (tb_explicit_start b, tb_explicit_end b) of
              (Some start, Some end_time) \<Rightarrow>
                Inr \<lparr>td_start = start, td_end = end_time, td_groups = atomic_lane_groups b, td_atomic = tb_atomic b\<rparr>
            | _ \<Rightarrow> Inr \<lparr>td_start = now e, td_end = now e, td_groups = atomic_lane_groups b, td_atomic = tb_atomic b\<rparr>)
         else
           (let b = sort_histories b;
                (lo, hi) = compute_time_bounds e b;
                start = (case tb_explicit_start b of None \<Rightarrow> lo | Some t \<Rightarrow> t);
                end_time = (case tb_explicit_end b of None \<Rightarrow> hi | Some t \<Rightarrow> t);
                cs = assign_lanes bs (build_chains e b)
            in case build_lane_groups e b end_time cs of
                 Inl err \<Rightarrow> Inl err
               | Inr (groups, b) \<Rightarrow>
                   Inr \<lparr>td_start = start, td_end = end_time, td_groups = add_missing_atomic_lane_groups b groups,
                        td_atomic = tb_atomic b\<rparr>))"

end
