(* ===== verification/Timeline_Props.thy ===== *)
theory Timeline_Props
  imports Timeline
begin

text \<open>
  What the timeline shows: chains of one sub-lane never overlap and no sub-lane is opened without need; every status
  change in the window appears exactly once; and where the drawing falls short of it.
\<close>

section \<open>Chains partition a history\<close>

definition slice_of :: "invocation_history list \<Rightarrow> element_chain \<Rightarrow> invocation_history list" where
  "slice_of entries c = take (ec_entry_end c - ec_entry_start c) (drop (ec_entry_start c) entries)"

definition chain_of_history :: "str \<Rightarrow> invocation_history list \<Rightarrow> element_chain \<Rightarrow> bool" where
  "chain_of_history i entries c \<longleftrightarrow>
     ec_invocation_id c = i \<and> ec_entry_start c < ec_entry_end c \<and> ec_entry_end c \<le> length entries \<and>
     ec_start c = entry_time (entries ! ec_entry_start c) \<and> ec_end c = entry_time (entries ! (ec_entry_end c - 1)) \<and>
     (\<forall>k. ec_entry_start c \<le> k \<and> k < ec_entry_end c \<longrightarrow> effective_runner (entries ! k) = ec_runner_id c)"

lemma group_chain_simps [simp]:
  "ec_invocation_id (group_chain i entries a k) = i" "ec_entry_start (group_chain i entries a k) = a"
  "ec_entry_end (group_chain i entries a k) = k" "ec_start (group_chain i entries a k) = entry_time (entries ! a)"
  "ec_end (group_chain i entries a k) = entry_time (entries ! (k - 1))"
  "ec_runner_id (group_chain i entries a k) = effective_runner (entries ! a)"
  by (simp_all add: group_chain_def element_chain_new_def)

lemma group_loop:
  assumes "fold (group_step i entries) [1..<Suc k] (0, []) = (a, cs)" "k \<le> length entries" "entries \<noteq> []"
  shows "(if k = length entries then a = k else a \<le> k) \<and> concat (map (slice_of entries) cs) = take a entries \<and>
    (\<forall>c \<in> set cs. chain_of_history i entries c) \<and>
    (\<forall>j. a \<le> j \<and> j \<le> k \<and> j < length entries \<longrightarrow> effective_runner (entries ! j) = effective_runner (entries ! a))"
  using assms(1,2)
proof (induction k arbitrary: a cs)
  case 0
  then show ?case using assms(3) by auto
next
  case (Suc k)
  obtain a' cs' where prev: "fold (group_step i entries) [1..<Suc k] (0, []) = (a', cs')" by force
  have upt: "[1..<Suc (Suc k)] = [1..<Suc k] @ [Suc k]" by simp
  have step: "group_step i entries (Suc k) (a', cs') = (a, cs)"
    using Suc.prems(1) unfolding upt fold_append by (simp only: comp_apply prev fold.simps id_apply)
  have k: "k < length entries" using Suc.prems(2) by simp
  note IH = Suc.IH [OF prev less_imp_le [OF k]]
  have a': "a' \<le> k" using conjunct1 [OF IH] by (simp split: if_splits)
  have cs': "concat (map (slice_of entries) cs') = take a' entries" "\<forall>c \<in> set cs'. chain_of_history i entries c"
    using IH by blast+
  have same: "effective_runner (entries ! j) = effective_runner (entries ! a')" if "a' \<le> j" "j \<le> k" for j
    using IH that k by (meson le_less_trans)
  have cut: "take a' entries @ slice_of entries (group_chain i entries a' (Suc k)) = take (Suc k) entries"
    using a' take_add [of a' "Suc k - a'" entries] by (simp add: slice_of_def)
  have chain: "chain_of_history i entries (group_chain i entries a' (Suc k))"
    unfolding chain_of_history_def group_chain_simps using a' k by (auto intro: same)
  show ?case
  proof (cases "Suc k = length entries \<or> effective_runner (entries ! Suc k) \<noteq> effective_runner (entries ! a')")
    case True
    then have "a = Suc k" "cs = cs' @ [group_chain i entries a' (Suc k)]" using step by (auto simp: group_step_def)
    then show ?thesis using cut cs' chain by (intro conjI) auto
  next
    case False
    then have eqs: "a = a'" "cs = cs'" using step by (simp_all add: group_step_def)
    have "effective_runner (entries ! j) = effective_runner (entries ! a')" if "a' \<le> j" "j \<le> Suc k" for j
      using that same False by (metis le_SucE)
    moreover have "if Suc k = length entries then a' = Suc k else a' \<le> Suc k" using a' False by simp
    ultimately show ?thesis using cs' unfolding eqs by blast
  qed
qed

lemma invocation_chains_spec:
  "concat (map (slice_of entries) (invocation_chains i entries)) = entries"
  "c \<in> set (invocation_chains i entries) \<Longrightarrow> chain_of_history i entries c"
proof -
  obtain a cs where l: "fold (group_step i entries) [1..<Suc (length entries)] (0, []) = (a, cs)" by force
  have "concat (map (slice_of entries) cs) = entries \<and> (\<forall>c \<in> set cs. chain_of_history i entries c)"
    using group_loop [OF l] l by (cases "entries = []") auto
  then show "concat (map (slice_of entries) (invocation_chains i entries)) = entries"
    "c \<in> set (invocation_chains i entries) \<Longrightarrow> chain_of_history i entries c"
    using l by (auto simp: invocation_chains_def)
qed

lemma chain_forward: "chain_of_history i entries c \<Longrightarrow> sorted (map entry_time entries) \<Longrightarrow> ec_start c \<le> ec_end c"
  using sorted_nth_mono [of "map entry_time entries" "ec_entry_start c" "ec_entry_end c - 1"]
  by (auto simp: chain_of_history_def)

section \<open>Points on lanes\<close>

abbreviation entry_key :: "str \<Rightarrow> invocation_history \<Rightarrow> str \<times> invocation_status \<times> time \<times> str option" where
  "entry_key i h \<equiv> (i, entry_status h, entry_time h, entry_runner h)"

abbreviation point_key :: "status_point \<Rightarrow> str \<times> invocation_status \<times> time \<times> str option" where
  "point_key p \<equiv> (pt_invocation_id p, pt_status p, pt_timestamp p, pt_runner_id p)"

abbreviation lane_shows :: "runner_lane \<Rightarrow> (str \<times> invocation_status \<times> time \<times> str option) multiset" where
  "lane_shows lane \<equiv> mset (map point_key (rl_points lane))"

definition group_shows :: "lane_group \<Rightarrow> (str \<times> invocation_status \<times> time \<times> str option) multiset" where
  "group_shows g = (case lg_control_plane g of None \<Rightarrow> {#} | Some lane \<Rightarrow> lane_shows lane) + sum_list (map lane_shows (lg_lanes g))"

definition chain_entries :: "timeline_builder \<Rightarrow> element_chain \<Rightarrow> (str \<times> invocation_status \<times> time \<times> str option) multiset" where
  "chain_entries b c = mset (map (entry_key (ec_invocation_id c)) (slice_of (ml_get (tb_histories b) (ec_invocation_id c)) c))"

definition drawable :: "timeline_builder \<Rightarrow> element_chain \<Rightarrow> bool" where
  "drawable b c \<longleftrightarrow> (\<exists>entries. tb_histories b (ec_invocation_id c) = Some entries \<and>
     ec_entry_start c \<le> ec_entry_end c \<and> ec_entry_end c \<le> length entries)"

lemma populate_points:
  "map point_key (rl_points (populate_lane_elements b i task w cp entries lane)) =
     map point_key (rl_points lane) @ map (entry_key i) entries"
  by (induction entries arbitrary: lane) (simp_all add: Let_def)

lemma draw_chain_ok:
  "drawable b c \<Longrightarrow> \<exists>lane'. draw_chain b w cp c lane = Inr lane' \<and> lane_shows lane' = lane_shows lane + chain_entries b c"
  by (auto simp: drawable_def draw_chain_def chain_entries_def slice_of_def populate_points ml_get_def simp del: map_map mset_map)

lemma sum_list_update_add:
  "k < length xs \<Longrightarrow> f y = f (xs ! k) + m \<Longrightarrow> sum_list (map f (xs[k := y])) = sum_list (map f xs) + (m :: 'a :: comm_monoid_add)"
  by (induction xs arbitrary: k) (auto simp: nth_Cons add_ac split: nat.splits)

lemma draw_control_ok:
  assumes "\<forall>c \<in> set cs. drawable b c"
  shows "\<exists>lane'. draw_control b w cs lane = Inr lane' \<and> lane_shows lane' = lane_shows lane + sum_list (map (chain_entries b) cs)"
  using assms
proof (induction cs arbitrary: lane)
  case (Cons c cs)
  obtain l where l: "draw_chain b w True c lane = Inr l" "lane_shows l = lane_shows lane + chain_entries b c"
    using draw_chain_ok [of b c] Cons.prems by fastforce
  from Cons.IH [of l] Cons.prems obtain l' where
    "draw_control b w cs l = Inr l'" "lane_shows l' = lane_shows l + sum_list (map (chain_entries b) cs)" by auto
  then show ?case using l by (simp add: add_ac)
qed simp

lemma draw_lanes_ok:
  assumes "\<forall>c \<in> set cs. drawable b c \<and> ec_lane_index c + offset < length lanes"
  shows "\<exists>lanes'. draw_lanes b w offset cs lanes = Inr lanes' \<and> length lanes' = length lanes \<and>
    sum_list (map lane_shows lanes') = sum_list (map lane_shows lanes) + sum_list (map (chain_entries b) cs)"
  using assms
proof (induction cs arbitrary: lanes)
  case (Cons c cs)
  let ?k = "ec_lane_index c + offset"
  have k: "?k < length lanes" using Cons.prems by simp
  obtain l where l: "draw_chain b w False c (lanes ! ?k) = Inr l" "lane_shows l = lane_shows (lanes ! ?k) + chain_entries b c"
    using draw_chain_ok [of b c] Cons.prems by fastforce
  from Cons.IH [of "lanes[?k := l]"] Cons.prems obtain lanes' where
    "draw_lanes b w offset cs (lanes[?k := l]) = Inr lanes'" "length lanes' = length lanes"
    "sum_list (map lane_shows lanes') = sum_list (map lane_shows (lanes[?k := l])) + sum_list (map (chain_entries b) cs)"
    by auto
  then show ?case using l k sum_list_update_add [OF k, of lane_shows l] by (simp add: add_ac)
qed simp

lemma max_lane_ge: "c \<in> set cs \<Longrightarrow> ec_lane_index c \<le> max_lane cs"
  unfolding max_lane_def by (induction cs) auto

text \<open>A worker's chains fall into the lanes that were appended for it.\<close>

lemma add_worker_ok:
  assumes "\<forall>c \<in> set cs. drawable b c" "off = length (lg_lanes g)"
  shows "\<exists>g' off' m'. add_worker b w key hc (worker, cs) (g, off, m) = Inr (g', off', m') \<and> off' = length (lg_lanes g') \<and>
    group_shows g' = group_shows g + sum_list (map (chain_entries b) cs)"
proof (cases "hc \<and> worker = key")
  case True
  obtain lane where lane: "draw_control b w cs (case lg_control_plane g of None \<Rightarrow> runner_lane_new | Some l \<Rightarrow> l) = Inr lane"
    "lane_shows lane = lane_shows (case lg_control_plane g of None \<Rightarrow> runner_lane_new | Some l \<Rightarrow> l) + sum_list (map (chain_entries b) cs)"
    using draw_control_ok [OF assms(1)] by blast
  then show ?thesis using True assms(2)
    by (auto simp: add_worker_def group_shows_def runner_lane_new_def add_ac split: option.splits)
next
  case False
  let ?lane = "runner_lane_new\<lparr>rl_worker_info := map_option runner_from_context (tb_runner_contexts b worker)\<rparr>"
  let ?lanes = "lg_lanes g @ replicate (max_lane cs + 1) ?lane"
  have "\<forall>c \<in> set cs. drawable b c \<and> ec_lane_index c + off < length ?lanes"
    using assms max_lane_ge by (auto simp: less_Suc_eq_le)
  from draw_lanes_ok [OF this, of w] obtain lanes' where lanes: "draw_lanes b w off cs ?lanes = Inr lanes'" "length lanes' = length ?lanes"
    "sum_list (map lane_shows lanes') = sum_list (map lane_shows ?lanes) + sum_list (map (chain_entries b) cs)" by blast
  have empties: "sum_list (replicate k {#}) = {#}" for k by (induction k) simp_all
  have "lane_shows ?lane = {#}" by (simp add: runner_lane_new_def)
  then have "sum_list (map lane_shows ?lanes) = sum_list (map lane_shows (lg_lanes g))"
    by (simp add: empties)
  moreover have "add_worker b w key hc (worker, cs) (g, off, m) =
      Inr (g\<lparr>lg_lanes := lanes'\<rparr>, off + (max_lane cs + 1), fold (\<lambda>l m. m((worker, l) \<mapsto> l + off)) [0..<max_lane cs + 1] m)"
    using False lanes(1) unfolding add_worker_def prod.case Let_def by (simp only: if_False sum.case)
  ultimately show ?thesis using lanes(2,3) assms(2) by (simp add: group_shows_def add_ac empties)
qed

lemma add_workers_ok:
  assumes "\<forall>(r, cs) \<in> set ws. \<forall>c \<in> set cs. drawable b c" "off = length (lg_lanes g)"
  shows "\<exists>g' off' m'. add_workers b w key hc ws (g, off, m) = Inr (g', off', m') \<and>
    group_shows g' = group_shows g + sum_list (map (\<lambda>(r, cs). sum_list (map (chain_entries b) cs)) ws)"
  using assms
proof (induction ws arbitrary: g off m)
  case (Cons x ws)
  obtain r cs where x: "x = (r, cs)" by force
  obtain g1 o1 m1 where s1: "add_worker b w key hc x (g, off, m) = Inr (g1, o1, m1)" "o1 = length (lg_lanes g1)"
    "group_shows g1 = group_shows g + sum_list (map (chain_entries b) cs)"
    using add_worker_ok [of cs b off g w key hc r m] Cons.prems x by auto
  from Cons.IH [of o1 g1 m1] Cons.prems(1) s1(2) obtain g2 o2 m2 where
    "add_workers b w key hc ws (g1, o1, m1) = Inr (g2, o2, m2)"
    "group_shows g2 = group_shows g1 + sum_list (map (\<lambda>(r, cs). sum_list (map (chain_entries b) cs)) ws)" by auto
  then show ?case using s1 x by (simp add: add_ac)
qed simp

abbreviation shown_of :: "timeline_builder \<Rightarrow> (str \<times> element_chain list) list \<Rightarrow> (str \<times> invocation_status \<times> time \<times> str option) multiset" where
  "shown_of b ws \<equiv> sum_list (map (\<lambda>(r, cs). sum_list (map (chain_entries b) cs)) ws)"

lemma sum_list_sort_key: "sum_list (map f (sort_key k xs)) = (sum_list (map f xs) :: 'a :: comm_monoid_add)"
  by (simp flip: sum_mset_sum_list)

lemma build_group_ok:
  assumes "\<forall>c \<in> set cs. drawable b c"
  shows "\<exists>g m'. build_group e b w cs key m = Inr (g, m') \<and> group_shows g = shown_of b (workers_of e b cs key)"
proof -
  let ?ws = "workers_of e b cs key"
  have ok: "\<forall>(r, cs) \<in> set (sort_key fst ?ws). \<forall>c \<in> set cs. drawable b c"
    using assms by (auto simp: workers_of_def)
  have new: "0 = length (lg_lanes (lane_group_new (header_info b key ?ws)))" by (simp add: lane_group_new_def)
  have none: "group_shows (lane_group_new (header_info b key ?ws)) = {#}" by (simp add: lane_group_new_def group_shows_def)
  show ?thesis
    using add_workers_ok [OF ok new, of w key "list_ex (\<lambda>(r, _). Option.bind (tb_runner_contexts b r) src_parent_runner_id = Some key) ?ws" m]
    by (auto simp: build_group_def none sum_list_sort_key)
qed

lemma build_groups_ok:
  assumes "\<forall>c \<in> set cs. drawable b c"
  shows "\<exists>gs m'. build_groups e b w cs keys m = Inr (gs, m') \<and>
    sum_list (map group_shows gs) = sum_list (map (\<lambda>key. shown_of b (workers_of e b cs key)) keys)"
proof (induction keys arbitrary: m)
  case (Cons key keys)
  obtain g m1 where g: "build_group e b w cs key m = Inr (g, m1)" "group_shows g = shown_of b (workers_of e b cs key)"
    using build_group_ok [OF assms] by blast
  obtain gs m2 where "build_groups e b w cs keys m1 = Inr (gs, m2)"
    "sum_list (map group_shows gs) = sum_list (map (\<lambda>key. shown_of b (workers_of e b cs key)) keys)"
    using Cons.IH by blast
  then show ?case using g by simp
qed simp

text \<open>Every chain belongs to one runner and every runner to one group.\<close>

lemma sum_by_runner:
  assumes "finite R" "ec_runner_id ` set cs \<subseteq> R"
  shows "(\<Sum>r \<in> R. sum_list (map f (filter (\<lambda>c. ec_runner_id c = r) cs))) = (sum_list (map f cs) :: 'a :: comm_monoid_add)"
  using assms(2)
proof (induction cs)
  case (Cons c cs)
  have "(\<Sum>r \<in> R. sum_list (map f (filter (\<lambda>d. ec_runner_id d = r) (c # cs)))) =
      (\<Sum>r \<in> R. (if ec_runner_id c = r then f c else 0) + sum_list (map f (filter (\<lambda>d. ec_runner_id d = r) cs)))"
    by (rule sum.cong) simp_all
  also have "\<dots> = f c + sum_list (map f cs)" using Cons assms(1) by (simp add: sum.distrib sum.delta')
  finally show ?case by simp
qed simp

lemma group_keys_once: "distinct (group_keys b cs)" "set (group_keys b cs) = group_key b ` ec_runner_id ` set cs"
  by (auto simp: group_keys_def Let_def)

lemma all_groups_sum:
  assumes "hash_order_ok (hash_order e)"
  shows "sum_list (map (\<lambda>key. shown_of b (workers_of e b cs key)) (group_keys b cs)) = sum_list (map (chain_entries b) cs)"
proof -
  let ?R = "ec_runner_id ` set cs" and ?f = "\<lambda>r. sum_list (map (chain_entries b) (filter (\<lambda>c. ec_runner_id c = r) cs))"
  have ord: "distinct (hash_order e ?R)" "set (hash_order e ?R) = ?R"
    using hash_order_set [OF assms] hash_order_distinct [OF assms] by auto
  have "shown_of b (workers_of e b cs key) = (\<Sum>r \<in> {r \<in> ?R. group_key b r = key}. ?f r)" for key
    using ord by (simp add: workers_of_def comp_def sum_list_distinct_conv_sum_set)
  then have "sum_list (map (\<lambda>key. shown_of b (workers_of e b cs key)) (group_keys b cs)) =
      (\<Sum>key \<in> group_key b ` ?R. \<Sum>r \<in> {r \<in> ?R. group_key b r = key}. ?f r)"
    using group_keys_once by (simp add: sum_list_distinct_conv_sum_set)
  also have "\<dots> = (\<Sum>r \<in> ?R. ?f r)" by (rule sum.image_gen [symmetric]) simp
  also have "\<dots> = sum_list (map (chain_entries b) cs)" by (rule sum_by_runner) simp_all
  finally show ?thesis .
qed

section \<open>The chains of a builder\<close>

lemma build_chains_member:
  assumes "hash_order_ok (hash_order e)" "finite (dom (tb_histories b))" "c \<in> set (build_chains e b)"
  obtains i entries where "tb_histories b i = Some entries" "chain_of_history i entries c"
proof -
  have "set (hash_order e (dom (tb_histories b))) = dom (tb_histories b)" using hash_order_set [OF assms(1,2)] .
  then obtain i entries where i: "tb_histories b i = Some entries" "c \<in> set (invocation_chains i (ml_get (tb_histories b) i))"
    using assms(3) by (auto simp: build_chains_def)
  moreover have "ml_get (tb_histories b) i = entries" using i(1) by (simp add: ml_get_def)
  ultimately show thesis using that invocation_chains_spec(2) by metis
qed

lemma invocation_chains_entries:
  assumes "ml_get (tb_histories b) i = entries"
  shows "sum_list (map (chain_entries b) (invocation_chains i entries)) = mset (map (entry_key i) entries)"
proof -
  have "sum_list (map (chain_entries b) cs) = mset (map (entry_key i) (concat (map (slice_of entries) cs)))"
    if "\<forall>c \<in> set cs. ec_invocation_id c = i" for cs
    using that assms by (induction cs) (simp_all add: chain_entries_def)
  moreover have "\<forall>c \<in> set (invocation_chains i entries). ec_invocation_id c = i"
    using invocation_chains_spec(2) by (auto simp: chain_of_history_def)
  ultimately show ?thesis by (simp add: invocation_chains_spec(1))
qed

lemma build_chains_entries:
  assumes "hash_order_ok (hash_order e)" "finite (dom (tb_histories b))"
  shows "sum_list (map (chain_entries b) (build_chains e b)) = (\<Sum>i \<in> dom (tb_histories b). mset (map (entry_key i) (ml_get (tb_histories b) i)))"
proof -
  have "sum_list (map (chain_entries b) (concat (map f is))) = sum_list (map (\<lambda>i. sum_list (map (chain_entries b) (f i))) is)" for f and "is" :: "str list"
    by (induction "is") simp_all
  then show ?thesis
    using hash_order_set [OF assms] hash_order_distinct [OF assms]
    by (simp add: build_chains_def invocation_chains_entries sum_list_distinct_conv_sum_set)
qed

lemma relabelled_entries:
  "chain_entries b (c\<lparr>ec_lane_index := l\<rparr>) = chain_entries b c" "drawable b (c\<lparr>ec_lane_index := l\<rparr>) = drawable b c"
  by (simp_all add: chain_entries_def drawable_def slice_of_def)

lemma chain_drawable: "tb_histories b i = Some entries \<Longrightarrow> chain_of_history i entries c \<Longrightarrow> drawable b c"
  by (auto simp: drawable_def chain_of_history_def)

lemma restricted_histories:
  "ml_get (tb_histories (restrict_to_window b)) i =
     (case (tb_explicit_start b, tb_explicit_end b) of
        (Some t, Some t') \<Rightarrow> filter (\<lambda>h. t \<le> entry_time h \<and> entry_time h \<le> t') (ml_get (tb_histories b) i)
      | _ \<Rightarrow> ml_get (tb_histories b) i)"
  by (auto simp: restrict_to_window_def ml_get_def split: option.split list.split)

lemma restricted_dom: "dom (tb_histories (restrict_to_window b)) \<subseteq> dom (tb_histories b)"
  by (auto simp: restrict_to_window_def split: option.splits)

lemma sorted_histories:
  "ml_get (tb_histories (sort_histories b)) i = sort_key entry_time (ml_get (tb_histories b) i)"
  "dom (tb_histories (sort_histories b)) = dom (tb_histories b)"
  "tb_histories (sort_histories b) i = Some entries \<Longrightarrow> sorted (map entry_time entries)"
  by (auto simp: sort_histories_def ml_get_def split: option.splits)

abbreviation prepared :: "timeline_builder \<Rightarrow> timeline_builder" where
  "prepared b \<equiv> sort_histories (restrict_to_window b)"

lemma prepared_chains:
  assumes "search_ok bs" "hash_order_ok (hash_order e)" "finite (dom (tb_histories b))"
  shows "\<forall>c \<in> set (build_chains e (prepared b)). ec_start c \<le> ec_end c"
    and "\<forall>c \<in> set (assign_lanes bs (build_chains e (prepared b))). drawable (prepared b) c"
    and "map (chain_entries b') (assign_lanes bs (build_chains e (prepared b))) = map (chain_entries b') (build_chains e (prepared b))"
proof -
  have fin: "finite (dom (tb_histories (prepared b)))"
    using assms(3) restricted_dom finite_subset by (metis sorted_histories(2))
  show fwd: "\<forall>c \<in> set (build_chains e (prepared b)). ec_start c \<le> ec_end c"
    using build_chains_member [OF assms(2) fin] chain_forward sorted_histories(3) by metis
  have draw: "\<forall>c \<in> set (build_chains e (prepared b)). drawable (prepared b) c"
    using build_chains_member [OF assms(2) fin] chain_drawable by metis
  let ?cs = "build_chains e (prepared b)"
  have same: "length (assign_lanes bs ?cs) = length ?cs"
    "\<And>k. k < length ?cs \<Longrightarrow> \<exists>l. assign_lanes bs ?cs ! k = (?cs ! k)\<lparr>ec_lane_index := l\<rparr>"
    using assign_lanes_spec [OF assms(1), of ?cs] fwd by metis+
  show "\<forall>c \<in> set (assign_lanes bs ?cs). drawable (prepared b) c"
    using same draw by (metis in_set_conv_nth relabelled_entries(2))
  show "map (chain_entries b') (assign_lanes bs ?cs) = map (chain_entries b') ?cs"
    using same by (auto simp: list_eq_iff_nth_eq) (metis relabelled_entries(1))
qed

section \<open>Examples\<close>

definition linear_search :: searcher where
  "linear_search xs t =
     (let i = length (takeWhile (\<lambda>x. x < t) xs) in if i < length xs \<and> xs ! i = t then Inr i else Inl i)"

lemma linear_search_ok: "search_ok linear_search"
  unfolding search_ok_def
proof (intro allI impI)
  fix xs :: "time list" and t
  assume s: "sorted xs"
  let ?i = "length (takeWhile (\<lambda>x. x < t) xs)"
  have before: "\<forall>j < ?i. xs ! j < t" by (metis nth_mem set_takeWhileD takeWhile_nth)
  have "\<not> xs ! ?i < t" if "?i < length xs" using that nth_length_takeWhile by blast
  then have after: "t < xs ! j" if "xs ! ?i \<noteq> t" "?i \<le> j" "j < length xs" for j
    using that sorted_nth_mono [OF s, of ?i j] by force
  show "case linear_search xs t of Inr i \<Rightarrow> i < length xs \<and> xs ! i = t
      | Inl i \<Rightarrow> i \<le> length xs \<and> (\<forall>j < i. xs ! j < t) \<and> (\<forall>j. i \<le> j \<and> j < length xs \<longrightarrow> t < xs ! j)"
    using before after length_takeWhile_le [of "\<lambda>x. x < t" xs] by (fastforce simp: linear_search_def Let_def)
qed

definition ex_status :: "str \<Rightarrow> invocation_status \<Rightarrow> time \<Rightarrow> invocation_history" where
  "ex_status i st t = history_new i \<lparr>sr_status = st, sr_runner = Some ''r'', sr_timestamp = t\<rparr> None"

text \<open>Two invocations that one runner is executing: the second was claimed while the first was running.\<close>

definition ex_timeline :: timeline_builder where
  "ex_timeline = add_history_batch
     [ex_status ''a'' Pending 1, ex_status ''a'' Running 2, ex_status ''b'' Pending 3, ex_status ''b'' Running 4]
     (set_time_bounds 0 10 timeline_builder_new)"

lemma ex_timeline_histories: "tb_histories ex_timeline =
    [''a'' \<mapsto> [ex_status ''a'' Pending 1, ex_status ''a'' Running 2], ''b'' \<mapsto> [ex_status ''b'' Pending 3, ex_status ''b'' Running 4]]"
  by (auto simp: ex_timeline_def add_history_batch_def set_time_bounds_def timeline_builder_new_def ml_push_def ml_get_def
      ex_status_def history_new_def fun_eq_iff)

section \<open>Properties\<close>

text \<open>The points of a timeline.\<close>

definition group_points :: "lane_group \<Rightarrow> status_point list" where
  "group_points g = (case lg_control_plane g of None \<Rightarrow> [] | Some lane \<Rightarrow> rl_points lane) @ concat (map rl_points (lg_lanes g))"

definition timeline_points :: "timeline_data \<Rightarrow> status_point list" where
  "timeline_points data = concat (map group_points (td_groups data))"

lemma group_points_shown: "mset (map point_key (group_points g)) = group_shows g"
proof -
  have "mset (map point_key (concat (map rl_points ls))) = sum_list (map lane_shows ls)" for ls by (induction ls) simp_all
  then show ?thesis by (simp add: group_points_def group_shows_def split: option.split)
qed

lemma timeline_points_shown: "mset (map point_key (timeline_points data)) = sum_list (map group_shows (td_groups data))"
proof -
  have "mset (map point_key (concat (map group_points gs))) = sum_list (map group_shows gs)" for gs
    by (induction gs) (simp_all flip: group_points_shown)
  then show ?thesis by (simp add: timeline_points_def)
qed

lemma atomic_group_shows: "sum_list (map group_shows (map (atomic_group b) rs)) = {#}"
  by (induction rs) (simp_all add: atomic_group_def group_shows_def lane_group_new_def runner_lane_new_def)

lemma build_timeline_shows:
  assumes "search_ok bs" "hash_order_ok (hash_order e)" "finite (dom (tb_histories b))"
  obtains data where "build_timeline bs e b = Inr data"
    "mset (map point_key (timeline_points data)) =
       (\<Sum>i \<in> dom (tb_histories (prepared b)). mset (map (entry_key i) (ml_get (tb_histories (prepared b)) i)))"
proof (cases "tb_histories (restrict_to_window b) = Map.empty")
  case True
  have "\<exists>data. build_timeline bs e b = Inr data \<and> td_groups data = atomic_lane_groups (restrict_to_window b)"
    using True by (auto simp: build_timeline_def Let_def split: option.splits)
  then obtain data where data: "build_timeline bs e b = Inr data" "td_groups data = atomic_lane_groups (restrict_to_window b)" by blast
  have "mset (map point_key (timeline_points data)) = {#}"
    unfolding timeline_points_shown data(2) atomic_lane_groups_def by (rule atomic_group_shows)
  then show thesis using that data(1) True by (simp add: sorted_histories(2))
next
  case False
  let ?cs = "assign_lanes bs (build_chains e (prepared b))"
  note pc = prepared_chains [OF assms]
  have fin: "finite (dom (tb_histories (prepared b)))"
    using assms(3) restricted_dom finite_subset by (metis sorted_histories(2))
  obtain lo hi where b: "compute_time_bounds e (prepared b) = (lo, hi)" by force
  define w where "w = (case tb_explicit_end (prepared b) of None \<Rightarrow> hi | Some t \<Rightarrow> t)"
  obtain gs m where gs: "build_groups e (prepared b) w ?cs (group_keys (prepared b) ?cs) (tb_worker_lane_offsets (prepared b)) = Inr (gs, m)"
    "sum_list (map group_shows gs) = sum_list (map (chain_entries (prepared b)) ?cs)"
    using build_groups_ok [OF pc(2)] all_groups_sum [OF assms(2)] by metis
  have "\<exists>data b'. build_timeline bs e b = Inr data \<and> td_groups data = add_missing_atomic_lane_groups b' gs"
    using False gs(1) b by (auto simp: build_timeline_def Let_def build_lane_groups_def w_def [symmetric])
  then obtain data b' where data: "build_timeline bs e b = Inr data" "td_groups data = add_missing_atomic_lane_groups b' gs" by blast
  have "mset (map point_key (timeline_points data)) = sum_list (map group_shows gs)"
    unfolding timeline_points_shown data(2) add_missing_atomic_lane_groups_def map_append sum_list_append atomic_group_shows by simp
  then show thesis using that [OF data(1)] gs(2) pc(3) build_chains_entries [OF assms(2) fin] by metis
qed

definition in_window :: "timeline_builder \<Rightarrow> invocation_history \<Rightarrow> bool" where
  "in_window b h =
     (case (tb_explicit_start b, tb_explicit_end b) of
        (Some t, Some t') \<Rightarrow> t \<le> entry_time h \<and> entry_time h \<le> t'
      | _ \<Rightarrow> True)"

lemma prepared_entries: "mset (ml_get (tb_histories (prepared b)) i) = mset (filter (in_window b) (ml_get (tb_histories b) i))"
  by (auto simp: sorted_histories(1) restricted_histories in_window_def [abs_def] split: option.split)

text \<open>C33. The timeline shows every status change exactly once: building it never panics, and the points it
  draws for an invocation, on whatever lanes of whatever groups, are the entries of its history in the window,
  each with its status, time and runner, none missing and none twice.\<close>

theorem timeline_shows_every_entry:
  assumes "search_ok bs" "hash_order_ok (hash_order e)" "finite (dom (tb_histories b))"
  shows "\<exists>data. build_timeline bs e b = Inr data \<and>
    (\<forall>i. mset (map point_key (filter (\<lambda>p. pt_invocation_id p = i) (timeline_points data))) =
         mset (map (entry_key i) (filter (in_window b) (ml_get (tb_histories b) i))))"
proof -
  let ?H = "tb_histories (prepared b)"
  obtain data where data: "build_timeline bs e b = Inr data"
    "mset (map point_key (timeline_points data)) = (\<Sum>i \<in> dom ?H. mset (map (entry_key i) (ml_get ?H i)))"
    using build_timeline_shows [OF assms] by blast
  have fin: "finite (dom ?H)" using assms(3) restricted_dom finite_subset by (metis sorted_histories(2))
  have split: "mset (map point_key (filter (\<lambda>p. pt_invocation_id p = i) ps)) = filter_mset (\<lambda>k. fst k = i) (mset (map point_key ps))"
    for i ps by (induction ps) auto
  have own: "filter_mset (\<lambda>k. fst k = i) (mset (map (entry_key j) hs)) = (if j = i then mset (map (entry_key i) hs) else {#})"
    for i j hs by (induction hs) auto
  have sums: "filter_mset P (sum f A) = (\<Sum>a \<in> A. filter_mset P (f a))" if "finite A" for P A and f :: "str \<Rightarrow> 'x multiset"
    using that by (induction A rule: finite_induct) auto
  have "mset (map point_key (filter (\<lambda>p. pt_invocation_id p = i) (timeline_points data))) = mset (map (entry_key i) (ml_get ?H i))" for i
    using fin unfolding split data(2) sums [OF fin] own by (auto simp: sum.delta' ml_get_def split: option.split)
  then have "mset (map point_key (filter (\<lambda>p. pt_invocation_id p = i) (timeline_points data))) =
      mset (map (entry_key i) (filter (in_window b) (ml_get (tb_histories b) i)))" for i
    unfolding mset_map prepared_entries [symmetric] by simp
  then show ?thesis using data(1) by blast
qed

theorem timeline_shows_every_entry_witness:
  "\<exists>data. build_timeline linear_search (sorted_env 0) ex_timeline = Inr data \<and>
     mset (map point_key (filter (\<lambda>p. pt_invocation_id p = ''b'') (timeline_points data))) =
       {#(''b'', Pending, 3, Some ''r''), (''b'', Running, 4, Some ''r'')#}"
proof -
  have fin: "finite (dom (tb_histories ex_timeline))" by (simp add: ex_timeline_histories)
  have ord: "hash_order_ok (hash_order (sorted_env 0))" by (simp add: sorted_env_def sorted_env_ok)
  have win: "in_window ex_timeline = (\<lambda>h. 0 \<le> entry_time h \<and> entry_time h \<le> 10)"
    by (simp add: in_window_def [abs_def] ex_timeline_def add_history_batch_def set_time_bounds_def)
  show ?thesis
    using timeline_shows_every_entry [OF linear_search_ok ord fin]
    by (auto simp: win ex_timeline_histories ml_get_def ex_status_def history_new_def entry_runner_def)
qed

text \<open>C34. Lanes: on the chains of any histories, the assignment only chooses lanes. Two chains of one runner on
  one lane never overlap, chains that hold registrations only apart; and any other chain is on a lower lane only because every lane above it holds a chain of
  the same runner that is in progress when it starts, so the lanes of a runner are never more than the chains it
  has at one moment. Chains that hold registrations only are always put on the first lane, over whatever is there: the code
  means them to overlap.\<close>

theorem timeline_lanes:
  assumes "search_ok bs" "hash_order_ok (hash_order e)" "finite (dom (tb_histories b))"
  defines "cs \<equiv> build_chains e (prepared b)"
  defines "out \<equiv> assign_lanes bs cs"
  shows "length out = length cs \<and> (\<forall>k < length cs. out ! k = (cs ! k)\<lparr>ec_lane_index := ec_lane_index (out ! k)\<rparr>) \<and>
    (\<forall>k < length cs. ec_deferred (cs ! k) \<longrightarrow> ec_lane_index (out ! k) = 0) \<and>
    (\<forall>j < length cs. \<forall>k < length cs. j \<noteq> k \<and> \<not> ec_deferred (out ! j) \<and> \<not> ec_deferred (out ! k) \<and>
       ec_runner_id (out ! j) = ec_runner_id (out ! k) \<and> ec_lane_index (out ! j) = ec_lane_index (out ! k) \<longrightarrow>
       ec_end (out ! j) \<le> ec_start (out ! k) \<or> ec_end (out ! k) \<le> ec_start (out ! j)) \<and>
    (\<forall>k < length cs. \<not> ec_deferred (out ! k) \<longrightarrow> (\<forall>l < ec_lane_index (out ! k). \<exists>j < length cs.
       \<not> ec_deferred (out ! j) \<and> ec_runner_id (out ! j) = ec_runner_id (out ! k) \<and> ec_lane_index (out ! j) = l \<and>
       ec_start (out ! j) \<le> ec_start (out ! k) \<and> ec_start (out ! k) < ec_end (out ! j)))"
proof -
  have fwd: "\<And>c. c \<in> set cs \<Longrightarrow> ec_start c \<le> ec_end c" using prepared_chains(1) [OF assms(1-3)] by (simp add: cs_def)
  obtain refs where refs: "lanes_chosen {} refs" "distinct (map fst refs)"
    and mem: "\<And>k c. (k, c) \<in> set refs \<longleftrightarrow> k < length cs \<and> \<not> ec_deferred (cs ! k) \<and> c = out ! k"
    and same: "\<And>k. k < length cs \<Longrightarrow> out ! k = (cs ! k)\<lparr>ec_lane_index := ec_lane_index (out ! k)\<rparr>"
    and rest: "\<And>k. k < length cs \<Longrightarrow> ec_deferred (cs ! k) \<Longrightarrow> ec_lane_index (out ! k) = 0" "length out = length cs"
    using assign_lanes_spec [OF assms(1) fwd] unfolding out_def by blast
  have dfr: "ec_deferred (out ! k) = ec_deferred (cs ! k)" if "k < length cs" for k
    using same [OF that] by (metis element_chain.select_convs(5) element_chain.surjective element_chain.update_convs(6))
  have "ec_end (out ! j) \<le> ec_start (out ! k) \<or> ec_end (out ! k) \<le> ec_start (out ! j)"
    if "j < length cs" "k < length cs" "j \<noteq> k" "\<not> ec_deferred (out ! j)" "\<not> ec_deferred (out ! k)"
      "ec_runner_id (out ! j) = ec_runner_id (out ! k)" "ec_lane_index (out ! j) = ec_lane_index (out ! k)" for j k
    using lanes_chosen_apart [OF refs, of j "out ! j" k "out ! k"] that mem dfr by (simp add: apart_def)
  moreover have "\<exists>j < length cs. \<not> ec_deferred (out ! j) \<and> ec_runner_id (out ! j) = ec_runner_id (out ! k) \<and>
      ec_lane_index (out ! j) = l \<and> ec_start (out ! j) \<le> ec_start (out ! k) \<and> ec_start (out ! k) < ec_end (out ! j)"
    if "k < length cs" "\<not> ec_deferred (out ! k)" "l < ec_lane_index (out ! k)" for k l
    using lanes_chosen_pushed [OF refs(1), of k "out ! k" l] that mem dfr by metis
  ultimately show ?thesis using same rest by blast
qed

lemma ex_timeline_prepared: "tb_histories (prepared ex_timeline) = tb_histories ex_timeline"
  "tb_explicit_end (prepared ex_timeline) = Some 10" "tb_runner_contexts (prepared ex_timeline) = Map.empty"
proof -
  have bounds: "tb_explicit_start ex_timeline = Some 0" "tb_explicit_end ex_timeline = Some 10" "tb_runner_contexts ex_timeline = Map.empty"
    by (simp_all add: ex_timeline_def add_history_batch_def set_time_bounds_def timeline_builder_new_def)
  show "tb_histories (prepared ex_timeline) = tb_histories ex_timeline"
    "tb_explicit_end (prepared ex_timeline) = Some 10" "tb_runner_contexts (prepared ex_timeline) = Map.empty"
    by (auto simp: sort_histories_def restrict_to_window_def ex_timeline_histories bounds ex_status_def history_new_def fun_eq_iff)
qed

lemma ex_names: "sorted_list_of_set {''a'', ''b''} = [''a'', ''b'']" "{''b'', ''a''} = {''a'', ''b''}"
  by (auto simp: sorted_list_of_set_sort_remdups [of "[''a'', ''b'']", simplified])

lemma ex_chains: "build_chains (sorted_env 0) (prepared ex_timeline) =
    [(element_chain_new ''a'' ''r'' 1 2 False)\<lparr>ec_entry_end := 2\<rparr>, (element_chain_new ''b'' ''r'' 3 4 False)\<lparr>ec_entry_end := 2\<rparr>]"
proof -
  have "[1..<Suc (length [x, y])] = [1, 2]" for x y :: invocation_history by (simp add: upt_rec)
  then have "invocation_chains i [ex_status i Pending t, ex_status i Running u] =
      [(element_chain_new i ''r'' t u False)\<lparr>ec_entry_end := 2\<rparr>]" for i t u
    by (simp add: invocation_chains_def group_step_def group_chain_def ex_status_def history_new_def effective_runner_def entry_runner_def
        element_chain_new_def)
  then show ?thesis
    by (simp add: build_chains_def ex_timeline_prepared ex_timeline_histories sorted_env_def ex_names ml_get_def)
qed

lemma ex_assigned: "assign_lanes linear_search (build_chains (sorted_env 0) (prepared ex_timeline)) = build_chains (sorted_env 0) (prepared ex_timeline)"
  by (simp add: ex_chains assign_lanes_def assign_to_lane_def linear_search_def lane_insert_def overlaps_def either_index_def
      element_chain_new_def ml_get_def write_back_def)

lemma ex_fin: "finite (dom (tb_histories ex_timeline))" "hash_order_ok (hash_order (sorted_env 0))"
  by (simp_all add: ex_timeline_histories sorted_env_def sorted_env_ok)

theorem timeline_lanes_witness:
  "let out = assign_lanes linear_search (build_chains (sorted_env 0) (prepared ex_timeline))
   in ec_runner_id (out ! 0) = ec_runner_id (out ! 1) \<and> ec_lane_index (out ! 0) = ec_lane_index (out ! 1) \<and>
      (ec_end (out ! 0) \<le> ec_start (out ! 1) \<or> ec_end (out ! 1) \<le> ec_start (out ! 0))"
proof -
  let ?cs = "build_chains (sorted_env 0) (prepared ex_timeline)"
  let ?out = "assign_lanes linear_search ?cs"
  have len: "0 < length ?cs" "1 < length ?cs" by (simp_all add: ex_chains)
  have same: "\<not> ec_deferred (?out ! 0)" "\<not> ec_deferred (?out ! 1)" "ec_runner_id (?out ! 0) = ec_runner_id (?out ! 1)"
    "ec_lane_index (?out ! 0) = ec_lane_index (?out ! 1)"
    unfolding ex_assigned by (simp_all add: ex_chains element_chain_new_def)
  have "ec_end (?out ! 0) \<le> ec_start (?out ! 1) \<or> ec_end (?out ! 1) \<le> ec_start (?out ! 0)"
    using timeline_lanes [OF linear_search_ok ex_fin(2,1)] len same by (metis zero_neq_one)
  then show ?thesis using same by simp
qed

text \<open>
  The bars do overlap: a status that is still current is drawn to the end of the window, but the chain that was
  assigned a lane ends with its last status change. Two invocations that a runner is executing at the same time
  share a lane, and their bars cover each other.
\<close>

theorem running_bars_overlap:
  "\<exists>data. build_timeline linear_search (sorted_env 0) ex_timeline = Inr data \<and>
     (\<exists>g \<in> set (td_groups data). \<exists>lane \<in> set (lg_lanes g). \<exists>x \<in> set (rl_segments lane). \<exists>y \<in> set (rl_segments lane).
     sg_invocation_id x = ''a'' \<and> sg_invocation_id y = ''b'' \<and> sg_is_ongoing x \<and> sg_is_ongoing y \<and>
     sg_start x < sg_start y \<and> sg_end x = sg_end y)"
proof -
  have ex_order: "hash_order (sorted_env 0) = sorted_list_of_set" by (simp add: sorted_env_def)
  have keys: "group_keys (prepared ex_timeline) (build_chains (sorted_env 0) (prepared ex_timeline)) = [''r'']"
    by (simp add: group_keys_def group_key_def ex_timeline_prepared ex_chains element_chain_new_def)
  have ws: "workers_of (sorted_env 0) (prepared ex_timeline) (build_chains (sorted_env 0) (prepared ex_timeline)) ''r'' =
      [(''r'', build_chains (sorted_env 0) (prepared ex_timeline))]"
    by (simp add: workers_of_def group_key_def ex_timeline_prepared ex_chains element_chain_new_def ex_order)
  obtain lo hi where b: "compute_time_bounds (sorted_env 0) (prepared ex_timeline) = (lo, hi)" by force
  have ne: "tb_histories (restrict_to_window ex_timeline) \<noteq> Map.empty"
  proof
    assume "tb_histories (restrict_to_window ex_timeline) = Map.empty"
    then have "dom (tb_histories (prepared ex_timeline)) = {}" unfolding sorted_histories(2) by simp
    then show False unfolding ex_timeline_prepared(1) ex_timeline_histories by simp
  qed
  obtain gs b' where g: "build_lane_groups (sorted_env 0) (prepared ex_timeline) 10 (build_chains (sorted_env 0) (prepared ex_timeline)) = Inr (gs, b')"
    "\<exists>g \<in> set gs. \<exists>lane \<in> set (lg_lanes g). \<exists>x \<in> set (rl_segments lane). \<exists>y \<in> set (rl_segments lane).
     sg_invocation_id x = ''a'' \<and> sg_invocation_id y = ''b'' \<and> sg_is_ongoing x \<and> sg_is_ongoing y \<and>
     sg_start x < sg_start y \<and> sg_end x = sg_end y"
    by (simp add: build_lane_groups_def build_group_def keys ws ex_timeline_prepared)
      (simp add: add_worker_def ex_chains max_lane_def element_chain_new_def draw_chain_def ex_timeline_prepared ex_timeline_histories
        SEGMENT_STATUSES_def ex_status_def history_new_def lane_group_new_def Let_def)
  then show ?thesis
    using ne b by (auto simp: build_timeline_def Let_def ex_timeline_prepared ex_assigned add_missing_atomic_lane_groups_def)
qed

end
