(* ===== verification/Family_Tree.thy ===== *)
theory Family_Tree
  imports Histogram "HOL-Library.Sublist"
begin

text \<open>
  \<^verbatim>\<open>rustvello-monitoring/src/family_tree/tree.rs\<close>: the tree of invocations around a given one, and
  \<^verbatim>\<open>query/page.rs\<close>. The tree is read through the backend traits, so the lookups are parameters (any answers,
  errors included): \<open>get\<close> an invocation, \<open>stat\<close> its status, \<open>kids\<close> the invocations it
  started. Walking to the root may not end on an endless chain of parents and is a partial function; the tree
  below has the depth limit of the code.
\<close>

section \<open>The tree\<close>

datatype family_tree_node = FamilyTreeNode
  (ft_invocation_id: str) (ft_task_module: str) (ft_task_func: str) (ft_status: invocation_status)
  (ft_created_at: time) (ft_elapsed_ms: int) (ft_children: "family_tree_node list") (ft_truncated: bool)

definition MAX_DEPTH :: nat where
  "MAX_DEPTH = 8"

definition MAX_NODES :: nat where
  "MAX_NODES = 60"

partial_function (option) root_loop :: "(str \<Rightarrow> invocation_dto result) \<Rightarrow> str set \<Rightarrow> str \<Rightarrow> str option" where
  "root_loop get visited current =
     (if current \<in> visited then Some current
      else case get current of
             Inl _ \<Rightarrow> Some current
           | Inr dto \<Rightarrow>
               (case inv_parent dto of
                  None \<Rightarrow> Some current
                | Some parent \<Rightarrow> root_loop get (insert current visited) parent))"

definition find_root :: "(str \<Rightarrow> invocation_dto result) \<Rightarrow> str \<Rightarrow> str option" where
  "find_root get i = root_loop get {} i"

definition child_list :: "(str \<Rightarrow> str list result) \<Rightarrow> str \<Rightarrow> str list" where
  "child_list kids i = (case kids i of Inl _ \<Rightarrow> [] | Inr ids \<Rightarrow> ids)"

definition should_expand :: "str list \<Rightarrow> nat \<Rightarrow> str \<Rightarrow> bool" where
  "should_expand expand_ids depth i \<longleftrightarrow> depth < MAX_DEPTH \<and> (depth < 2 \<or> i \<in> set expand_ids)"

definition tree_node ::
    "(str \<Rightarrow> status_record result) \<Rightarrow> invocation_dto \<Rightarrow> str \<Rightarrow> family_tree_node list \<Rightarrow> bool \<Rightarrow> family_tree_node" where
  "tree_node stat dto i children truncated =
     FamilyTreeNode i (language_as_str (tid_language (inv_task_id dto)) @ ''::'' @ tid_module (inv_task_id dto)) (tid_name (inv_task_id dto))
       (case stat i of Inl _ \<Rightarrow> Registered | Inr r \<Rightarrow> sr_status r) (inv_created_at dto)
       (num_milliseconds (inv_updated_at dto - inv_created_at dto)) children truncated"

text \<open>
  \<^verbatim>\<open>build_node\<close> and the loop over the children in it: the children, whether the loop ran out of nodes, and the
  number of nodes visited.
\<close>

function build_node ::
    "(str \<Rightarrow> invocation_dto result) \<Rightarrow> (str \<Rightarrow> status_record result) \<Rightarrow> (str \<Rightarrow> str list result) \<Rightarrow> str list \<Rightarrow> nat \<Rightarrow> str \<Rightarrow> nat
       \<Rightarrow> family_tree_node option \<times> nat"
and build_children ::
    "(str \<Rightarrow> invocation_dto result) \<Rightarrow> (str \<Rightarrow> status_record result) \<Rightarrow> (str \<Rightarrow> str list result) \<Rightarrow> str list \<Rightarrow> nat \<Rightarrow> str list \<Rightarrow> nat
       \<Rightarrow> family_tree_node list \<times> bool \<times> nat" where
  "build_node get stat kids expand_ids depth i node_count =
     (if MAX_NODES \<le> node_count then (None, node_count)
      else
        (case get i of
           Inl _ \<Rightarrow> (None, node_count + 1)
         | Inr dto \<Rightarrow>
             (if should_expand expand_ids depth i then
                (case build_children get stat kids expand_ids (depth + 1) (child_list kids i) (node_count + 1) of
                   (children, truncated, node_count) \<Rightarrow>
                     (Some (tree_node stat dto i children (truncated \<or> length children < length (child_list kids i))), node_count))
              else
                (Some (tree_node stat dto i [] (MAX_DEPTH \<le> depth \<and> child_list kids i \<noteq> [])), node_count + 1))))"
| "build_children get stat kids expand_ids depth [] node_count = ([], False, node_count)"
| "build_children get stat kids expand_ids depth (child # rest) node_count =
     (if MAX_NODES \<le> node_count then ([], True, node_count)
      else
        (case build_node get stat kids expand_ids depth child node_count of
           (built, node_count) \<Rightarrow>
             (case build_children get stat kids expand_ids depth rest node_count of
                (children, truncated, node_count) \<Rightarrow>
                  (case built of None \<Rightarrow> children | Some node \<Rightarrow> node # children, truncated, node_count))))"
  by pat_completeness auto

termination
  by (relation "measures [\<lambda>x. case x of Inl (_, _, _, _, d, _, _) \<Rightarrow> Suc MAX_DEPTH - d | Inr (_, _, _, _, d, _, _) \<Rightarrow> Suc MAX_DEPTH - d,
       \<lambda>x. case x of Inl _ \<Rightarrow> 0 | Inr (_, _, _, _, _, ids, _) \<Rightarrow> Suc (length ids)]")
    (auto simp: should_expand_def)

declare build_node.simps [simp del] build_children.simps(2) [simp del]

definition build_family_tree ::
    "(str \<Rightarrow> invocation_dto result) \<Rightarrow> (str \<Rightarrow> status_record result) \<Rightarrow> (str \<Rightarrow> str list result) \<Rightarrow> str list \<Rightarrow> str
       \<Rightarrow> family_tree_node option option" where
  "build_family_tree get stat kids expand_ids i =
     (case find_root get i of
        None \<Rightarrow> None
      | Some root \<Rightarrow> Some (fst (build_node get stat kids expand_ids 0 root 0)))"

section \<open>Pages\<close>

record page_request =
  pg_page :: nat
  pg_limit :: nat

abbreviation usize_max :: nat where
  "usize_max \<equiv> 2 ^ 64 - 1"

definition DEFAULT_PAGE_SIZE :: nat where
  "DEFAULT_PAGE_SIZE = 50"

definition page_request_new :: "nat option \<Rightarrow> nat option \<Rightarrow> page_request" where
  "page_request_new page limit =
     \<lparr>pg_page = max (case page of None \<Rightarrow> 1 | Some p \<Rightarrow> p) 1,
      pg_limit = min (max (case limit of None \<Rightarrow> DEFAULT_PAGE_SIZE | Some l \<Rightarrow> l) 1) 200\<rparr>"

text \<open>\<^verbatim>\<open>saturating_mul\<close> and \<^verbatim>\<open>saturating_add\<close> on \<^verbatim>\<open>usize\<close>.\<close>

definition page_offset :: "page_request \<Rightarrow> nat" where
  "page_offset r = min ((pg_page r - 1) * pg_limit r) usize_max"

datatype total_count = Exact nat | AtLeast nat | Unknown

record 'a page =
  pg_items :: "'a list"
  pg_request :: page_request
  pg_total :: total_count
  pg_has_next :: bool

definition from_offset_items :: "'a list \<Rightarrow> page_request \<Rightarrow> nat \<Rightarrow> 'a page" where
  "from_offset_items xs r n =
     (let start = min (page_offset r) (length xs);
          end_index = min (min (start + pg_limit r) usize_max) (length xs)
      in \<lparr>pg_items = take (end_index - start) (drop start xs), pg_request = r, pg_total = Exact n,
          pg_has_next = (end_index < n)\<rparr>)"

section \<open>Walking to the root\<close>

definition parent_of :: "(str \<Rightarrow> invocation_dto result) \<Rightarrow> str \<Rightarrow> str \<Rightarrow> bool" where
  "parent_of get i j \<longleftrightarrow> (\<exists>dto. get i = Inr dto \<and> inv_parent dto = Some j)"

lemma root_loop_ok:
  assumes "finite {i. \<exists>dto. get i = Inr dto}" "finite visited" "\<forall>v \<in> visited. (parent_of get)\<^sup>+\<^sup>+ v current"
  shows "\<exists>root. root_loop get visited current = Some root \<and> (parent_of get)\<^sup>*\<^sup>* current root \<and>
    ((\<forall>j. \<not> parent_of get root j) \<or> (parent_of get)\<^sup>+\<^sup>+ root root)"
  using assms(2,3)
proof (induction "card ({i. \<exists>dto. get i = Inr dto} - visited)" arbitrary: visited current rule: less_induct)
  case less
  show ?case
  proof (cases "current \<in> visited \<or> (\<forall>j. \<not> parent_of get current j)")
    case True
    then have "root_loop get visited current = Some current"
      by (subst root_loop.simps) (auto simp: parent_of_def split: sum.split option.split)
    then show ?thesis using True less.prems by auto
  next
    case False
    then obtain dto j where j: "get current = Inr dto" "inv_parent dto = Some j" "current \<notin> visited"
      by (auto simp: parent_of_def)
    then have up: "parent_of get current j" by (auto simp: parent_of_def)
    have "card ({i. \<exists>dto. get i = Inr dto} - insert current visited) < card ({i. \<exists>dto. get i = Inr dto} - visited)"
      using assms(1) j by (intro psubset_card_mono) auto
    moreover have "\<forall>v \<in> insert current visited. (parent_of get)\<^sup>+\<^sup>+ v j"
      using less.prems(2) up by (auto intro: tranclp.trancl_into_trancl)
    ultimately obtain root where "root_loop get (insert current visited) j = Some root" "(parent_of get)\<^sup>*\<^sup>* j root"
      "(\<forall>k. \<not> parent_of get root k) \<or> (parent_of get)\<^sup>+\<^sup>+ root root"
      using less.hyps [of "insert current visited" j] less.prems(1) by auto
    moreover from this have "root_loop get visited current = Some root"
      using j by (subst root_loop.simps) simp
    ultimately show ?thesis using up by (metis converse_rtranclp_into_rtranclp)
  qed
qed

section \<open>The limits of the tree\<close>

fun tree_size :: "family_tree_node \<Rightarrow> nat" where
  "tree_size (FamilyTreeNode i m f st t el cs trunc) = Suc (sum_list (map tree_size cs))"

fun tree_height :: "family_tree_node \<Rightarrow> nat" where
  "tree_height (FamilyTreeNode i m f st t el cs trunc) = Suc (foldr (max \<circ> tree_height) cs 0)"

text \<open>
  What a node shows of its children: some of them, in their order; all of them, if it was to be expanded and is not
  marked as truncated; and at the depth limit the mark says exactly whether there are any.
\<close>

fun shown :: "(str \<Rightarrow> str list result) \<Rightarrow> str list \<Rightarrow> nat \<Rightarrow> family_tree_node \<Rightarrow> bool" where
  "shown kids expand_ids depth (FamilyTreeNode i m f st t el cs trunc) \<longleftrightarrow>
     subseq (map ft_invocation_id cs) (child_list kids i) \<and>
     (should_expand expand_ids depth i \<and> \<not> trunc \<longrightarrow> map ft_invocation_id cs = child_list kids i) \<and>
     (depth = MAX_DEPTH \<longrightarrow> cs = [] \<and> (trunc \<longleftrightarrow> child_list kids i \<noteq> [])) \<and>
     (\<forall>c \<in> set cs. shown kids expand_ids (Suc depth) c)"

lemma height_bound: "(\<And>c. c \<in> set cs \<Longrightarrow> tree_height c \<le> k) \<Longrightarrow> foldr (max \<circ> tree_height) cs 0 \<le> k"
  by (induction cs) auto

definition node_ok :: "(str \<Rightarrow> str list result) \<Rightarrow> str list \<Rightarrow> nat \<Rightarrow> family_tree_node \<Rightarrow> bool" where
  "node_ok kids expand_ids depth t \<longleftrightarrow>
     (depth \<le> MAX_DEPTH \<longrightarrow> depth + tree_height t \<le> Suc MAX_DEPTH) \<and> shown kids expand_ids depth t"

lemma build_limits:
  "build_node get stat kids expand_ids depth i n = (r, n') \<Longrightarrow>
     n \<le> n' \<and> n' \<le> max n MAX_NODES \<and>
     (\<forall>t. r = Some t \<longrightarrow> n + tree_size t \<le> n' \<and> ft_invocation_id t = i \<and> node_ok kids expand_ids depth t)"
  "build_children get stat kids expand_ids depth ids n = (cs, trunc, n') \<Longrightarrow>
     n \<le> n' \<and> n' \<le> max n MAX_NODES \<and> n + sum_list (map tree_size cs) \<le> n' \<and>
     subseq (map ft_invocation_id cs) ids \<and> (\<forall>t \<in> set cs. node_ok kids expand_ids depth t)"
proof (induction get stat kids expand_ids depth i n and get stat kids expand_ids depth ids n
    arbitrary: r n' and cs trunc n' rule: build_node_build_children.induct)
  case (1 get stat kids expand_ids depth i n)
  show ?case
  proof (cases "MAX_NODES \<le> n \<or> (\<exists>err. get i = Inl err)")
    case True
    then show ?thesis using "1.prems" by (auto simp: build_node.simps [of _ _ _ _ _ i] split: if_splits)
  next
    case False
    then obtain dto where dto: "\<not> MAX_NODES \<le> n" "get i = Inr dto" by (cases "get i") auto
    show ?thesis
    proof (cases "should_expand expand_ids depth i")
      case True
      obtain cs trunc n1 where b: "build_children get stat kids expand_ids (depth + 1) (child_list kids i) (n + 1) = (cs, trunc, n1)"
        using prod_cases3 by blast
      note IH = "1.IH" [OF dto True b]
      have eqs: "r = Some (tree_node stat dto i cs (trunc \<or> length cs < length (child_list kids i)))" "n' = n1"
        using "1.prems" dto True b by (simp_all add: build_node.simps [of _ _ _ _ _ i])
      have "tree_height c \<le> MAX_DEPTH - depth" if "c \<in> set cs" for c
        using IH that True by (force simp: node_ok_def should_expand_def)
      then have "foldr (max \<circ> tree_height) cs 0 \<le> MAX_DEPTH - depth" by (rule height_bound)
      moreover have "map ft_invocation_id cs = child_list kids i" if "\<not> length cs < length (child_list kids i)"
        using IH that subseq_same_length [of "map ft_invocation_id cs" "child_list kids i"] list_emb_length [of "(=)" "map ft_invocation_id cs"]
        by (metis length_map linorder_neqE_nat not_less)
      ultimately show ?thesis using IH dto(1) True by (auto simp: eqs tree_node_def node_ok_def should_expand_def)
    next
      case ne: False
      then show ?thesis using "1.prems" dto
        by (auto simp: build_node.simps [of _ _ _ _ _ i] tree_node_def node_ok_def should_expand_def)
    qed
  qed
next
  case (2 get stat kids expand_ids depth n)
  then show ?case by auto
next
  case (3 get stat kids expand_ids depth child rest n)
  show ?case
  proof (cases "MAX_NODES \<le> n")
    case True
    then show ?thesis using "3.prems" by (auto simp: build_children.simps(2))
  next
    case False
    obtain built n1 where b: "build_node get stat kids expand_ids depth child n = (built, n1)" by force
    obtain cs1 t1 n2 where c: "build_children get stat kids expand_ids depth rest n1 = (cs1, t1, n2)" using prod_cases3 by blast
    note IH = "3.IH"(1) [OF False b] "3.IH"(2) [OF False b [symmetric] c]
    show ?thesis
      using IH "3.prems" False b c by (cases built) (auto simp: build_children.simps(2))
  qed
qed

section \<open>Properties\<close>

text \<open>C35. The family tree of an invocation is built whenever the backend knows finitely many invocations, even if
  parents form a cycle. It starts at an ancestor that has no known parent or lies on a cycle of parents; it is
  missing exactly if that ancestor cannot be read; it has at most 60 nodes on at most 9 levels; the children
  of a node are children the backend reports, in order, and all of them where the node was to be expanded and
  is not marked as truncated.\<close>

theorem family_tree_is_bounded:
  assumes "finite {i. \<exists>dto. get i = Inr dto}"
  shows "\<exists>root tree. find_root get i = Some root \<and> build_family_tree get stat kids expand_ids i = Some tree \<and>
    (parent_of get)\<^sup>*\<^sup>* i root \<and> ((\<forall>j. \<not> parent_of get root j) \<or> (parent_of get)\<^sup>+\<^sup>+ root root) \<and>
    (tree = None \<longleftrightarrow> (\<exists>err. get root = Inl err)) \<and>
    (\<forall>t. tree = Some t \<longrightarrow> ft_invocation_id t = root \<and> tree_size t \<le> 60 \<and> tree_height t \<le> 9 \<and> shown kids expand_ids 0 t)"
proof -
  obtain root where root: "find_root get i = Some root" "(parent_of get)\<^sup>*\<^sup>* i root"
    "(\<forall>j. \<not> parent_of get root j) \<or> (parent_of get)\<^sup>+\<^sup>+ root root"
    using root_loop_ok [OF assms, of "{}" i] by (auto simp: find_root_def)
  obtain tree n where b: "build_node get stat kids expand_ids 0 root 0 = (tree, n)" by force
  have "tree = None \<longleftrightarrow> (\<exists>err. get root = Inl err)"
    using b by (auto simp: build_node.simps [of _ _ _ _ _ root] MAX_NODES_def split: sum.splits if_splits prod.splits)
  moreover have "ft_invocation_id t = root \<and> tree_size t \<le> 60 \<and> tree_height t \<le> 9 \<and> shown kids expand_ids 0 t" if "tree = Some t" for t
    using build_limits(1) [OF b] that by (auto simp: node_ok_def MAX_NODES_def MAX_DEPTH_def)
  moreover have "build_family_tree get stat kids expand_ids i = Some tree" using root(1) b by (simp add: build_family_tree_def)
  ultimately show ?thesis using root by blast
qed

text \<open>Two invocations that name each other as their parent.\<close>

definition ex_cycle :: "str \<Rightarrow> invocation_dto result" where
  "ex_cycle i =
     (if i = ''a'' then Inr ((invocation_dto_new 0 ''a'' ex_task \<lparr>cid_task_id = ex_task, cid_args_id = []\<rparr>)\<lparr>inv_parent := Some ''b''\<rparr>)
      else if i = ''b'' then Inr ((invocation_dto_new 0 ''b'' ex_task \<lparr>cid_task_id = ex_task, cid_args_id = []\<rparr>)\<lparr>inv_parent := Some ''a''\<rparr>)
      else Inl (InvocationNotFound i))"

theorem family_tree_is_bounded_witness:
  "\<exists>t. build_family_tree ex_cycle (\<lambda>i. Inl (InvocationNotFound i)) (\<lambda>i. Inr (if i = ''a'' then [''b''] else [''a''])) [] ''a'' = Some (Some t) \<and>
     tree_size t \<le> 60"
proof -
  have fin: "finite {i. \<exists>dto. ex_cycle i = Inr dto}"
    by (rule finite_subset [of _ "{''a'', ''b''}"]) (auto simp: ex_cycle_def split: if_splits)
  have known: "i \<in> {''a'', ''b''}" if "(parent_of ex_cycle)\<^sup>*\<^sup>* ''a'' i" for i
    using that by (induction rule: rtranclp_induct) (auto simp: parent_of_def ex_cycle_def split: if_splits)
  have readable: "\<nexists>err. ex_cycle i = Inl err" if "i \<in> {''a'', ''b''}" for i using that by (auto simp: ex_cycle_def)
  show ?thesis
    using family_tree_is_bounded [OF fin, of "''a''" "\<lambda>i. Inl (InvocationNotFound i)" "\<lambda>i. Inr (if i = ''a'' then [''b''] else [''a''])" "[]"]
      readable known by (metis option.exhaust)
qed

lemma page_slice:
  assumes "length xs \<le> usize_max" "0 < p"
  shows "pg_items (from_offset_items xs \<lparr>pg_page = p, pg_limit = l\<rparr> (length xs)) = take l (drop ((p - 1) * l) xs)"
    and "pg_has_next (from_offset_items xs \<lparr>pg_page = p, pg_limit = l\<rparr> (length xs)) \<longleftrightarrow> p * l < length xs"
proof -
  obtain k where k: "p = Suc k" using assms(2) by (cases p) auto
  have start: "min (min (k * l) usize_max) (length xs) = min (k * l) (length xs)" using assms(1) by simp
  have "min (min (min (k * l) (length xs) + l) usize_max) (length xs) = min (k * l + l) (length xs)" using assms(1) by simp
  note eqs = start this
  show "pg_items (from_offset_items xs \<lparr>pg_page = p, pg_limit = l\<rparr> (length xs)) = take l (drop ((p - 1) * l) xs)"
    unfolding from_offset_items_def page_offset_def Let_def k using eqs by (cases "k * l \<le> length xs") (auto simp: min_def)
  show "pg_has_next (from_offset_items xs \<lparr>pg_page = p, pg_limit = l\<rparr> (length xs)) \<longleftrightarrow> p * l < length xs"
    unfolding from_offset_items_def page_offset_def Let_def k using eqs by (auto simp: add.commute min_def)
qed

text \<open>Following the pages to the last one lists every item once, in order.\<close>

lemma pages_list_everything:
  fixes xs :: "'a list" and limit :: "nat option"
  assumes "length xs \<le> usize_max"
  defines "page \<equiv> \<lambda>p. from_offset_items xs (page_request_new (Some p) limit) (length xs)"
  assumes "0 < n" "\<not> pg_has_next (page n)"
  shows "concat (map (\<lambda>p. pg_items (page p)) [1..<Suc n]) = xs"
proof -
  define l where "l = pg_limit (page_request_new None limit)"
  have page: "page p = from_offset_items xs \<lparr>pg_page = p, pg_limit = l\<rparr> (length xs)" if "0 < p" for p
    using that by (simp add: page_def page_request_new_def l_def)
  have "concat (map (\<lambda>p. pg_items (page p)) [1..<Suc k]) = take (k * l) xs" for k
  proof (induction k)
    case (Suc k)
    have "pg_items (page (Suc k)) = take l (drop (k * l) xs)" using page [of "Suc k"] page_slice(1) [OF assms(1), of "Suc k" l] by simp
    then show ?case using Suc take_add [of "k * l" l xs] by (simp add: add.commute)
  qed simp
  moreover have "length xs \<le> n * l" using assms(3,4) page [of n] page_slice(2) [OF assms(1,3), of l] by simp
  ultimately show ?thesis by simp
qed

end
