(* ===== verification/Telemetry_Export.thy ===== *)
theory Telemetry_Export
  imports Rv_Prelude "HOL-Library.Sublist"
begin

text \<open>
  \<^verbatim>\<open>BoundedAsyncEmitter\<close> of \<^verbatim>\<open>rustvello-core/src/observability.rs\<close>: task threads put lifecycle events into a bounded
  channel without waiting, one worker thread exports them in batches, and \<^verbatim>\<open>flush\<close> and \<^verbatim>\<open>shutdown\<close> wait for it.
  A call is a program counter, and each atomic operation, channel operation or lock of the code is one step; the
  calls and the worker interleave in any order. An interleaving makes the atomics sequentially consistent, which the code's orderings
  do not: an enqueue increments \<^verbatim>\<open>in_flight_enqueues\<close> and then loads the state, a shutdown writes the state and then loads
  \<^verbatim>\<open>in_flight_enqueues\<close>, with AcqRel and Acquire, so that either load may still see an older value. Here these two loads may be
  \<open>stale\<close>: the state reads as open, or no enqueue as in flight. \<open>xp_raced\<close> records that a stale load saw a value that was no
  longer true. Timeouts and the outcomes of the exporter are arguments of a step. Counters are
  unbounded (the code's have 64 bits); the two counters of enqueueing times are left out. A snapshot of the counters is
  one step; panics of the destructor of the exporter, which end the thread, are left out. \<open>xp_sent\<close>, \<open>xp_handed\<close>,
  \<open>xp_quiet\<close>, \<open>xp_raced\<close> and \<open>xp_holder\<close> are history variables, and so is the number in the program counters of a flush:
  the events that were in the channel or beyond when it was called.
\<close>

section \<open>State\<close>

record async_export_config =
  ac_queue_capacity :: nat
  ac_control_capacity :: nat
  ac_max_batch_size :: nat
  ac_scheduled_delay :: nat

record export_stats =
  xs_accepted :: nat
  xs_dropped :: nat
  xs_exported :: nat
  xs_export_failed :: nat
  xs_rejected :: nat

datatype export_state = ExportOpen | ExportClosing | ExportClosed

datatype 'e export_worker =
    WShutdowns
  | WFlushes
  | WRecv
  | WCollect "'e list"
  | WExport "'e list"
  | WAnswer
  | WCheck
  | WFinish
  | WClose
  | WExit
  | WDone

record 'e exporter =
  xp_events :: "'e list"
  xp_flushes :: "(nat \<times> nat) list"
  xp_shutdowns :: "nat option"
  xp_responses :: "nat \<rightharpoonup> export_stats"
  xp_senders :: bool
  xp_receiving :: bool
  xp_stats :: export_stats
  xp_state :: export_state
  xp_in_flight :: nat
  xp_admitted :: bool
  xp_error :: "str option"
  xp_joined :: bool
  xp_worker :: "'e export_worker"
  xp_processed :: nat
  xp_pending_flush :: "(nat \<times> nat) option"
  xp_pending_shutdown :: "nat option"
  xp_sent :: "'e list"
  xp_handed :: "'e list"
  xp_quiet :: bool
  xp_holder :: "nat option"
  xp_raced :: bool

definition exporter_new :: "'e exporter" where
  "exporter_new =
     \<lparr>xp_events = [], xp_flushes = [], xp_shutdowns = None, xp_responses = Map.empty, xp_senders = True, xp_receiving = True,
      xp_stats = \<lparr>xs_accepted = 0, xs_dropped = 0, xs_exported = 0, xs_export_failed = 0, xs_rejected = 0\<rparr>,
      xp_state = ExportOpen, xp_in_flight = 0, xp_admitted = False, xp_error = None, xp_joined = False,
      xp_worker = WShutdowns, xp_processed = 0, xp_pending_flush = None, xp_pending_shutdown = None,
      xp_sent = [], xp_handed = [], xp_quiet = False, xp_holder = None, xp_raced = False\<rparr>"

text \<open>\<^verbatim>\<open>BoundedAsyncEmitter::new\<close> panics on a limit of zero.\<close>

definition emitter_new :: "async_export_config \<Rightarrow> str + 'e exporter" where
  "emitter_new k =
     (if ac_queue_capacity k = 0 then Inl ''queue_capacity must be positive''
      else if ac_control_capacity k = 0 then Inl ''control_capacity must be positive''
      else if ac_max_batch_size k = 0 then Inl ''max_batch_size must be positive''
      else if ac_scheduled_delay k = 0 then Inl ''scheduled_delay must be positive''
      else Inr exporter_new)"

abbreviation accepted :: "'e exporter \<Rightarrow> nat" where
  "accepted x \<equiv> xs_accepted (xp_stats x)"

section \<open>Calls\<close>

datatype 'e export_call =
    EEnter 'e | ELoad 'e | ESend 'e | ECount | EReject | EDrop | ELeave | EDone
  | FState nat | FWait nat | FTarget nat | FSend nat nat | FRecv nat | FDone nat "str + export_stats"
  | SClose | SWait | SAdmit | STarget | SSend nat | SForce | SPoll | SJoin | SResult | SDone "str + export_stats"

fun enqueue_step :: "async_export_config \<Rightarrow> bool \<Rightarrow> 'e export_call \<Rightarrow> 'e exporter \<Rightarrow> 'e export_call \<times> 'e exporter" where
  "enqueue_step k stale (EEnter ev) x = (ELoad ev, x\<lparr>xp_in_flight := xp_in_flight x + 1\<rparr>)"
| "enqueue_step k stale (ELoad ev) x =
     (if xp_state x \<noteq> ExportOpen \<and> \<not> stale then (EReject, x)
      else (ESend ev, x\<lparr>xp_raced := xp_raced x \<or> xp_state x \<noteq> ExportOpen\<rparr>))"
| "enqueue_step k stale (ESend ev) x =
     (if xp_receiving x \<and> length (xp_events x) < ac_queue_capacity k
      then (ECount, x\<lparr>xp_events := xp_events x @ [ev], xp_sent := xp_sent x @ [ev]\<rparr>)
      else (EDrop, x))"
| "enqueue_step k stale ECount x = (ELeave, x\<lparr>xp_stats := (xp_stats x)\<lparr>xs_accepted := xs_accepted (xp_stats x) + 1\<rparr>\<rparr>)"
| "enqueue_step k stale EReject x = (EDrop, x\<lparr>xp_stats := (xp_stats x)\<lparr>xs_rejected := xs_rejected (xp_stats x) + 1\<rparr>\<rparr>)"
| "enqueue_step k stale EDrop x = (ELeave, x\<lparr>xp_stats := (xp_stats x)\<lparr>xs_dropped := xs_dropped (xp_stats x) + 1\<rparr>\<rparr>)"
| "enqueue_step k stale ELeave x = (EDone, x\<lparr>xp_in_flight := xp_in_flight x - 1\<rparr>)"
| "enqueue_step k stale pc x = (pc, x)"

fun flush_step ::
    "async_export_config \<Rightarrow> nat \<Rightarrow> bool \<Rightarrow> 'e export_call \<Rightarrow> 'e exporter \<Rightarrow> 'e export_call \<times> 'e exporter" where
  "flush_step k c timed_out (FState n) x =
     (if xp_state x \<noteq> ExportOpen then FDone n (Inl ''telemetry exporter is shutting down'') else FWait n, x)"
| "flush_step k c timed_out (FWait n) x =
     (if xp_in_flight x = 0 then FTarget n
      else if timed_out then FDone n (Inl ''telemetry flush timed out'') else FWait n, x)"
| "flush_step k c timed_out (FTarget n) x = (FSend n (xs_accepted (xp_stats x)), x)"
| "flush_step k c timed_out (FSend n target) x =
     (if \<not> xp_receiving x then (FDone n (Inl ''export worker stopped''), x)
      else if length (xp_flushes x) < ac_control_capacity k
      then (FRecv n, x\<lparr>xp_flushes := xp_flushes x @ [(target, c)]\<rparr>)
      else (FDone n (Inl ''telemetry control queue is full''), x))"
| "flush_step k c timed_out (FRecv n) x =
     (case xp_responses x c of
        Some st \<Rightarrow> FDone n (Inr st)
      | None \<Rightarrow> (if timed_out \<or> \<not> xp_receiving x then FDone n (Inl ''telemetry flush timed out'') else FRecv n), x)"
| "flush_step k c timed_out pc x = (pc, x)"

fun shutdown_step :: "nat \<Rightarrow> bool \<Rightarrow> bool \<Rightarrow> 'e export_call \<Rightarrow> 'e exporter \<Rightarrow> 'e export_call \<times> 'e exporter" where
  "shutdown_step c timed_out stale SClose x =
     (SWait, x\<lparr>xp_state := (if xp_state x = ExportOpen then ExportClosing else xp_state x)\<rparr>)"
| "shutdown_step c timed_out stale SWait x =
     (if xp_in_flight x = 0 \<or> stale then (SAdmit, x\<lparr>xp_quiet := True, xp_raced := xp_raced x \<or> xp_in_flight x \<noteq> 0\<rparr>)
      else (if timed_out then SDone (Inl ''telemetry shutdown timed out'') else SWait, x))"
| "shutdown_step c timed_out stale SAdmit x =
     (if xp_admitted x then (SPoll, x) else (STarget, x\<lparr>xp_admitted := True, xp_holder := Some c\<rparr>))"
| "shutdown_step c timed_out stale STarget x = (SSend (xs_accepted (xp_stats x)), x)"
| "shutdown_step c timed_out stale (SSend target) x =
     (if xp_receiving x \<and> xp_shutdowns x = None then (SPoll, x\<lparr>xp_shutdowns := Some target\<rparr>)
      else (SForce, x\<lparr>xp_error := Some ''export worker stopped''\<rparr>))"
| "shutdown_step c timed_out stale SForce x = (SPoll, x\<lparr>xp_state := ExportClosed\<rparr>)"
| "shutdown_step c timed_out stale SPoll x =
     (if xp_state x = ExportClosed then SJoin
      else if timed_out then SDone (Inl ''telemetry shutdown timed out'') else SPoll, x)"
| "shutdown_step c timed_out stale SJoin x =
     (if xp_joined x then (SResult, x)
      else if xp_worker x = WDone then (SResult, x\<lparr>xp_joined := True\<rparr>)
      else (if timed_out then SDone (Inl ''telemetry thread shutdown timed out'') else SJoin, x))"
| "shutdown_step c timed_out stale SResult x =
     (SDone (case xp_error x of Some err \<Rightarrow> Inl err | None \<Rightarrow> Inr (xp_stats x)), x)"
| "shutdown_step c timed_out stale pc x = (pc, x)"

section \<open>The worker\<close>

datatype export_outcome = ExportOk | ExportFailed str

fun worker_step :: "async_export_config \<Rightarrow> export_outcome \<Rightarrow> 'e exporter \<Rightarrow> 'e exporter" where
  "worker_step k out x =
     (case xp_worker x of
        WShutdowns \<Rightarrow>
          (if xp_pending_shutdown x = None
           then x\<lparr>xp_pending_shutdown := xp_shutdowns x, xp_shutdowns := None, xp_worker := WFlushes\<rparr>
           else x\<lparr>xp_worker := WFlushes\<rparr>)
      | WFlushes \<Rightarrow>
          (if xp_pending_flush x = None \<and> xp_pending_shutdown x = None then
             (case xp_flushes x of
                [] \<Rightarrow> x\<lparr>xp_worker := WRecv\<rparr>
              | command # rest \<Rightarrow> x\<lparr>xp_pending_flush := Some command, xp_flushes := rest, xp_worker := WRecv\<rparr>)
           else x\<lparr>xp_worker := WRecv\<rparr>)
      | WRecv \<Rightarrow>
          (case xp_events x of
             ev # rest \<Rightarrow> x\<lparr>xp_events := rest, xp_worker := WCollect [ev]\<rparr>
           | [] \<Rightarrow> x\<lparr>xp_worker := (if xp_senders x then WCollect [] else WFinish)\<rparr>)
      | WCollect batch \<Rightarrow>
          (case xp_events x of
             ev # rest \<Rightarrow>
               (if length batch < ac_max_batch_size k then x\<lparr>xp_events := rest, xp_worker := WCollect (batch @ [ev])\<rparr>
                else x\<lparr>xp_worker := WExport batch\<rparr>)
           | [] \<Rightarrow> x\<lparr>xp_worker := WExport batch\<rparr>)
      | WExport batch \<Rightarrow>
          x\<lparr>xp_stats := (case out of
               ExportOk \<Rightarrow> (xp_stats x)\<lparr>xs_exported := xs_exported (xp_stats x) + length batch\<rparr>
             | ExportFailed _ \<Rightarrow> (xp_stats x)\<lparr>xs_export_failed := xs_export_failed (xp_stats x) + length batch\<rparr>),
            xp_processed := xp_processed x + length batch, xp_handed := xp_handed x @ batch, xp_worker := WAnswer\<rparr>
      | WAnswer \<Rightarrow>
          (case xp_pending_flush x of
             Some (target, c) \<Rightarrow>
               (if target \<le> xp_processed x
                then x\<lparr>xp_pending_flush := None, xp_responses := (xp_responses x)(c \<mapsto> xp_stats x), xp_worker := WCheck\<rparr>
                else x\<lparr>xp_worker := WCheck\<rparr>)
           | None \<Rightarrow> x\<lparr>xp_worker := WCheck\<rparr>)
      | WCheck \<Rightarrow>
          x\<lparr>xp_worker := (case xp_pending_shutdown x of
                             Some target \<Rightarrow> (if target \<le> xp_processed x then WFinish else WShutdowns)
                           | None \<Rightarrow> WShutdowns)\<rparr>
      | WFinish \<Rightarrow> x\<lparr>xp_error := (case out of ExportOk \<Rightarrow> None | ExportFailed err \<Rightarrow> Some err), xp_worker := WClose\<rparr>
      | WClose \<Rightarrow> x\<lparr>xp_state := ExportClosed, xp_worker := WExit\<rparr>
      | WExit \<Rightarrow> x\<lparr>xp_receiving := False, xp_worker := WDone\<rparr>
      | WDone \<Rightarrow> x)"

section \<open>The system\<close>

type_synonym 'e export_calls = "nat \<rightharpoonup> 'e export_call"

fun is_enqueue :: "'e export_call \<Rightarrow> bool" where
  "is_enqueue (EEnter _) = True" | "is_enqueue (ELoad _) = True" | "is_enqueue (ESend _) = True" | "is_enqueue ECount = True"
| "is_enqueue EReject = True" | "is_enqueue EDrop = True" | "is_enqueue ELeave = True" | "is_enqueue EDone = True"
| "is_enqueue _ = False"

fun is_flush :: "'e export_call \<Rightarrow> bool" where
  "is_flush (FState _) = True" | "is_flush (FWait _) = True" | "is_flush (FTarget _) = True" | "is_flush (FSend _ _) = True"
| "is_flush (FRecv _) = True" | "is_flush (FDone _ _) = True" | "is_flush _ = False"

fun returned :: "'e export_call \<Rightarrow> bool" where
  "returned EDone = True" | "returned (FDone _ _) = True" | "returned (SDone _) = True" | "returned _ = False"

definition call_step ::
    "async_export_config \<Rightarrow> nat \<Rightarrow> bool \<Rightarrow> bool \<Rightarrow> 'e export_call \<Rightarrow> 'e exporter \<Rightarrow> 'e export_call \<times> 'e exporter" where
  "call_step k c timed_out stale pc x =
     (if is_enqueue pc then enqueue_step k stale pc x
      else if is_flush pc then flush_step k c timed_out pc x
      else shutdown_step c timed_out stale pc x)"

text \<open>
  Calls are made while the emitter is held by somebody; the channels are disconnected when the last
  holder drops it, which none does during a call.
\<close>

inductive export_step :: "async_export_config \<Rightarrow> 'e exporter \<times> 'e export_calls \<Rightarrow> 'e exporter \<times> 'e export_calls \<Rightarrow> bool" for k where
  call_made: "m c = None \<Longrightarrow> xp_senders x \<Longrightarrow> pc \<in> {EEnter ev, FState (length (xp_sent x)), SClose} \<Longrightarrow>
    export_step k (x, m) (x, m(c \<mapsto> pc))"
| call_moves: "m c = Some pc \<Longrightarrow> call_step k c timed_out stale pc x = (pc', x') \<Longrightarrow> export_step k (x, m) (x', m(c \<mapsto> pc'))"
| worker_moves: "export_step k (x, m) (worker_step k out x, m)"
| emitter_dropped: "\<forall>pc \<in> ran m. returned pc \<Longrightarrow> export_step k (x, m) (x\<lparr>xp_senders := False\<rparr>, m)"

end
