(* ===== verification/Telemetry_Export_Props.thy ===== *)
theory Telemetry_Export_Props
  imports Telemetry_Export
begin

text \<open>
  The emitter under any interleaving: an assertion for each program counter, an invariant of the shared state, and the
  interference between calls (\<open>rely_state\<close>, \<open>rely_entry\<close>), in the style of Owicki and Gries; then a measure for the progress of the worker.
\<close>

section \<open>Counting calls\<close>

lemma card_calls_update:
  assumes "finite (dom m)" "\<not> P None"
  shows "card {c. P ((m(k \<mapsto> pc)) c)} + of_bool (P (m k)) = card {c. P (m c)} + of_bool (P (Some pc))"
proof -
  let ?A = "{c. P (m c)}"
  have "?A \<subseteq> dom m" using assms(2) by (auto simp: domIff) (metis option.exhaust)
  then have fin: "finite ?A" using assms(1) finite_subset by blast
  have "{c. P ((m(k \<mapsto> pc)) c)} = (if P (Some pc) then insert k (?A - {k}) else ?A - {k})" by auto
  then have "card {c. P ((m(k \<mapsto> pc)) c)} = card (?A - {k}) + of_bool (P (Some pc))"
    using fin by (simp del: insert_Diff_single)
  moreover have "card (?A - {k}) + of_bool (P (m k)) = card ?A"
    using fin card_Suc_Diff1 [of ?A k] by (cases "P (m k)") auto
  ultimately show ?thesis by simp
qed

fun in_flight_pc :: "'e export_call \<Rightarrow> bool" where
  "in_flight_pc (ELoad _) = True" | "in_flight_pc (ESend _) = True" | "in_flight_pc ECount = True"
| "in_flight_pc EReject = True" | "in_flight_pc EDrop = True" | "in_flight_pc ELeave = True" | "in_flight_pc _ = False"

definition enqueuing :: "'e export_call option \<Rightarrow> bool" where
  "enqueuing p = (case p of None \<Rightarrow> False | Some pc \<Rightarrow> in_flight_pc pc)"

definition counting :: "'e export_call option \<Rightarrow> bool" where
  "counting p \<longleftrightarrow> p = Some ECount"

lemma counting_simps [simp]:
  "\<not> enqueuing None" "\<not> counting None" "enqueuing (Some pc) = in_flight_pc pc" "counting (Some pc) = (pc = ECount)"
  by (simp_all add: enqueuing_def counting_def)

section \<open>The invariant\<close>

fun held_batch :: "'e export_worker \<Rightarrow> 'e list" where
  "held_batch (WCollect batch) = batch" | "held_batch (WExport batch) = batch" | "held_batch _ = []"

definition finishing :: "'e export_worker \<Rightarrow> bool" where
  "finishing w \<longleftrightarrow> w \<in> {WFinish, WClose, WExit, WDone}"

definition total_of :: "export_stats \<Rightarrow> nat" where
  "total_of st = xs_exported st + xs_export_failed st"

text \<open>No shutdown has reached the worker.\<close>

definition unsent :: "'e exporter \<Rightarrow> bool" where
  "unsent x \<longleftrightarrow> xp_shutdowns x = None \<and> xp_pending_shutdown x = None \<and> \<not> finishing (xp_worker x)"

definition flush_entry :: "'e exporter \<Rightarrow> nat \<Rightarrow> nat \<Rightarrow> bool" where
  "flush_entry x t c \<longleftrightarrow> (t, c) \<in> set (xp_flushes x) \<or> xp_pending_flush x = Some (t, c)"

definition no_entry :: "'e exporter \<Rightarrow> nat \<Rightarrow> bool" where
  "no_entry x c \<longleftrightarrow> (\<forall>t. \<not> flush_entry x t c) \<and> xp_responses x c = None"

definition shared_ok :: "'e exporter \<Rightarrow> bool" where
  "shared_ok x \<longleftrightarrow>
     xp_handed x @ held_batch (xp_worker x) @ xp_events x = xp_sent x \<and>
     xp_processed x = length (xp_handed x) \<and> total_of (xp_stats x) = length (xp_handed x) \<and>
     (xp_quiet x \<longrightarrow> xp_state x \<noteq> ExportOpen) \<and> (xp_holder x \<noteq> None \<longrightarrow> xp_quiet x) \<and> (xp_admitted x \<longleftrightarrow> xp_holder x \<noteq> None) \<and>
     (\<forall>t. xp_shutdowns x = Some t \<or> xp_pending_shutdown x = Some t \<longrightarrow>
        xp_admitted x \<and> t \<le> length (xp_sent x) \<and> (xp_raced x \<or> t = length (xp_sent x))) \<and>
     (finishing (xp_worker x) \<longrightarrow> (xp_raced x \<or> xp_handed x = xp_sent x) \<and> (xp_admitted x \<or> \<not> xp_senders x)) \<and>
     (xp_state x = ExportClosed \<longleftrightarrow> xp_worker x \<in> {WExit, WDone}) \<and> (xp_joined x \<longrightarrow> xp_worker x = WDone) \<and>
     (xp_receiving x \<longleftrightarrow> xp_worker x \<noteq> WDone)"

fun call_ok :: "'e exporter \<Rightarrow> nat \<Rightarrow> 'e export_call \<Rightarrow> bool" where
  "call_ok x c (ESend _) = (xp_raced x \<or> \<not> xp_quiet x)"
| "call_ok x c ECount = (xp_raced x \<or> \<not> xp_quiet x)"
| "call_ok x c (FState n) = (n \<le> length (xp_sent x) \<and> no_entry x c)"
| "call_ok x c (FWait n) = (n \<le> length (xp_sent x) \<and> no_entry x c)"
| "call_ok x c (FTarget n) = (n \<le> accepted x \<and> no_entry x c)"
| "call_ok x c (FSend n t) = (n \<le> t \<and> no_entry x c)"
| "call_ok x c (FRecv n) = ((\<forall>t. flush_entry x t c \<longrightarrow> n \<le> t) \<and>
     (\<forall>st. xp_responses x c = Some st \<longrightarrow> n \<le> total_of st \<and> total_of st \<le> length (xp_handed x)))"
| "call_ok x c (FDone n (Inr st)) = (n \<le> total_of st \<and> total_of st \<le> length (xp_handed x))"
| "call_ok x c SWait = (xp_state x \<noteq> ExportOpen)"
| "call_ok x c SAdmit = xp_quiet x"
| "call_ok x c STarget = (xp_holder x = Some c \<and> unsent x)"
| "call_ok x c (SSend t) = (xp_holder x = Some c \<and> unsent x \<and> t \<le> length (xp_sent x) \<and> (xp_raced x \<or> t = length (xp_sent x)))"
| "call_ok x c SForce = False"
| "call_ok x c SPoll = xp_quiet x"
| "call_ok x c SJoin = xp_quiet x"
| "call_ok x c SResult = (xp_quiet x \<and> xp_worker x = WDone)"
| "call_ok x c (SDone (Inr st)) = (xp_quiet x \<and> xp_worker x = WDone \<and>
     (xp_raced x \<or> xs_accepted st = length (xp_sent x) \<and> total_of st = length (xp_sent x)))"
| "call_ok x c _ = True"

definition calls_ok :: "'e exporter \<Rightarrow> 'e export_calls \<Rightarrow> bool" where
  "calls_ok x m \<longleftrightarrow>
     finite (dom m) \<and> xp_in_flight x = card {c. enqueuing (m c)} \<and>
     length (xp_sent x) = accepted x + card {c. counting (m c)} \<and>
     (\<forall>t c. flush_entry x t c \<longrightarrow> c \<in> dom m) \<and> dom (xp_responses x) \<subseteq> dom m \<and>
     (\<not> xp_senders x \<longrightarrow> (\<forall>pc \<in> ran m. returned pc)) \<and>
     (\<forall>c pc. m c = Some pc \<longrightarrow> call_ok x c pc)"

definition export_ok :: "'e exporter \<times> 'e export_calls \<Rightarrow> bool" where
  "export_ok s \<longleftrightarrow> shared_ok (fst s) \<and> calls_ok (fst s) (snd s)"

section \<open>Interference\<close>

text \<open>What the steps of the others may do to a call: to the shared state, and to the flush command it sent.\<close>

definition rely_state :: "nat \<Rightarrow> 'e exporter \<Rightarrow> 'e exporter \<Rightarrow> bool" where
  "rely_state c x x' \<longleftrightarrow>
     length (xp_sent x) \<le> length (xp_sent x') \<and> accepted x \<le> accepted x' \<and> length (xp_handed x) \<le> length (xp_handed x') \<and>
     (xp_state x \<noteq> ExportOpen \<longrightarrow> xp_state x' \<noteq> ExportOpen) \<and>
     (xp_quiet x \<longrightarrow> xp_quiet x' \<and> (xp_raced x' \<or> xp_sent x' = xp_sent x)) \<and> (xp_raced x \<longrightarrow> xp_raced x') \<and>
     (xp_quiet x' \<longrightarrow> xp_quiet x \<or> xp_in_flight x = 0 \<or> xp_raced x') \<and>
     (xp_holder x = Some c \<longrightarrow> xp_holder x' = Some c \<and> (unsent x \<and> xp_senders x \<longrightarrow> unsent x')) \<and>
     (xp_worker x = WDone \<longrightarrow> xp_worker x' = WDone)"

definition rely_entry :: "nat \<Rightarrow> 'e exporter \<Rightarrow> 'e exporter \<Rightarrow> bool" where
  "rely_entry c x x' \<longleftrightarrow>
     (\<forall>t. flush_entry x' t c \<longrightarrow> flush_entry x t c) \<and>
     (xp_responses x' c = xp_responses x c \<or>
        (\<exists>t st. flush_entry x t c \<and> xp_responses x' c = Some st \<and> t \<le> total_of st \<and> total_of st \<le> length (xp_handed x')))"

lemma rely_no_entry: "rely_entry c x x' \<Longrightarrow> no_entry x c \<Longrightarrow> no_entry x' c"
  by (auto simp: rely_entry_def no_entry_def)

lemma rely_recv:
  assumes "rely_entry c x x'" "rely_state c x x'" "call_ok x c (FRecv n)"
  shows "call_ok x' c (FRecv n)"
proof -
  have "n \<le> t" if "flush_entry x' t c" for t using assms(1,3) that by (auto simp: rely_entry_def)
  moreover have "n \<le> total_of st \<and> total_of st \<le> length (xp_handed x')" if r: "xp_responses x' c = Some st" for st
  proof (cases "xp_responses x' c = xp_responses x c")
    case True
    with assms(3) r have "n \<le> total_of st" "total_of st \<le> length (xp_handed x)" by simp_all
    moreover have "length (xp_handed x) \<le> length (xp_handed x')" using assms(2) by (simp add: rely_state_def)
    ultimately show ?thesis by simp
  next
    case False
    then obtain t where "flush_entry x t c" "t \<le> total_of st" "total_of st \<le> length (xp_handed x')"
      using assms(1) r by (auto simp: rely_entry_def)
    then show ?thesis using assms(3) by fastforce
  qed
  ultimately show ?thesis by simp
qed

lemma rely_call_ok:
  assumes "call_ok x c pc" "rely_state c x x'" "rely_entry c x x'"
    and "in_flight_pc pc \<Longrightarrow> 0 < xp_in_flight x" "\<not> returned pc \<Longrightarrow> xp_senders x" "shared_ok x"
  shows "call_ok x' c pc"
proof (cases pc)
  case (FRecv n)
  then show ?thesis using assms rely_recv by blast
next
  case (FDone n r)
  then show ?thesis using assms(1,2) by (cases r) (auto simp: rely_state_def)
next
  case (SDone r)
  then show ?thesis using assms(1,2) by (cases r) (auto simp: rely_state_def)
next
  case STarget
  then show ?thesis using assms(1,2,5) by (auto simp: rely_state_def)
next
  case (SSend t)
  then show ?thesis using assms(1,2,5,6) by (auto simp: rely_state_def shared_ok_def)
next
  case (FState n)
  then show ?thesis using assms(1-3) rely_no_entry by (auto simp: rely_state_def)
next
  case (FWait n)
  then show ?thesis using assms(1-3) rely_no_entry by (auto simp: rely_state_def)
next
  case (FTarget n)
  then show ?thesis using assms(1-3) rely_no_entry by (auto simp: rely_state_def)
next
  case (FSend n t)
  then show ?thesis using assms(1-3) rely_no_entry by auto
qed (use assms(1,2,4) in \<open>auto simp: rely_state_def\<close>)

section \<open>Steps of a call\<close>

text \<open>What one step of a call \<open>c\<close> keeps; the numbers of calls in flight and between sending and counting are given.\<close>

definition counts_move :: "'e export_call \<Rightarrow> 'e export_call \<Rightarrow> 'e exporter \<Rightarrow> 'e exporter \<Rightarrow> bool" where
  "counts_move pc pc' x x' \<longleftrightarrow>
     xp_in_flight x' + of_bool (in_flight_pc pc) = xp_in_flight x + of_bool (in_flight_pc pc') \<and>
     length (xp_sent x') + accepted x + of_bool (pc = ECount) = length (xp_sent x) + accepted x' + of_bool (pc' = ECount)"

definition keeps_frame :: "nat \<Rightarrow> 'e exporter \<Rightarrow> 'e exporter \<Rightarrow> bool" where
  "keeps_frame c x x' \<longleftrightarrow>
     xp_senders x' = xp_senders x \<and> xp_responses x' = xp_responses x \<and>
     (\<forall>t d. flush_entry x' t d \<longrightarrow> flush_entry x t d \<or> d = c)"

lemmas export_defs = shared_ok_def rely_state_def rely_entry_def counts_move_def keeps_frame_def unsent_def no_entry_def
  flush_entry_def finishing_def total_of_def

text \<open>The fields the invariant of the shared state does not read.\<close>

lemma shared_ok_frame [simp]:
  "shared_ok (x\<lparr>xp_in_flight := n\<rparr>) = shared_ok x"
  "shared_ok (x\<lparr>xp_stats := (xp_stats x)\<lparr>xs_accepted := n\<rparr>\<rparr>) = shared_ok x"
  "shared_ok (x\<lparr>xp_stats := (xp_stats x)\<lparr>xs_dropped := n\<rparr>\<rparr>) = shared_ok x"
  "shared_ok (x\<lparr>xp_stats := (xp_stats x)\<lparr>xs_rejected := n\<rparr>\<rparr>) = shared_ok x"
  "shared_ok (x\<lparr>xp_flushes := q\<rparr>) = shared_ok x"
  by (simp_all add: shared_ok_def total_of_def)

lemma flush_entry_frame [simp]:
  "flush_entry (x\<lparr>xp_in_flight := n\<rparr>) = flush_entry x"
  "flush_entry (x\<lparr>xp_stats := st\<rparr>) = flush_entry x"
  "flush_entry (x\<lparr>xp_events := es, xp_sent := l\<rparr>) = flush_entry x"
  "flush_entry (x\<lparr>xp_state := s\<rparr>) = flush_entry x"
  "flush_entry (x\<lparr>xp_quiet := b\<rparr>) = flush_entry x"
  "flush_entry (x\<lparr>xp_raced := b\<rparr>) = flush_entry x"
  "flush_entry (x\<lparr>xp_quiet := b, xp_raced := b'\<rparr>) = flush_entry x"
  "flush_entry (x\<lparr>xp_admitted := b, xp_holder := h\<rparr>) = flush_entry x"
  "flush_entry (x\<lparr>xp_shutdowns := sd\<rparr>) = flush_entry x"
  "flush_entry (x\<lparr>xp_joined := b\<rparr>) = flush_entry x"
  "flush_entry (x\<lparr>xp_senders := b\<rparr>) = flush_entry x"
  by (auto simp: flush_entry_def fun_eq_iff)

lemma shared_okD:
  assumes "shared_ok x"
  shows "xp_handed x @ held_batch (xp_worker x) @ xp_events x = xp_sent x"
    "xp_processed x = length (xp_handed x)" "total_of (xp_stats x) = length (xp_handed x)"
    "xp_quiet x \<Longrightarrow> xp_state x \<noteq> ExportOpen" "xp_admitted x \<Longrightarrow> xp_quiet x" "xp_admitted x \<longleftrightarrow> xp_holder x \<noteq> None"
    "xp_shutdowns x = Some t \<Longrightarrow> xp_admitted x \<and> t \<le> length (xp_sent x) \<and> (xp_raced x \<or> t = length (xp_sent x))"
    "xp_pending_shutdown x = Some t \<Longrightarrow> xp_admitted x \<and> t \<le> length (xp_sent x) \<and> (xp_raced x \<or> t = length (xp_sent x))"
    "finishing (xp_worker x) \<Longrightarrow> xp_raced x \<or> xp_handed x = xp_sent x" "finishing (xp_worker x) \<Longrightarrow> xp_senders x \<Longrightarrow> xp_admitted x"
    "xp_state x = ExportClosed \<longleftrightarrow> xp_worker x \<in> {WExit, WDone}" "xp_joined x \<Longrightarrow> xp_worker x = WDone"
    "xp_receiving x \<longleftrightarrow> xp_worker x \<noteq> WDone"
  using assms unfolding shared_ok_def by blast+

lemma not_admitted_unsent:
  assumes "shared_ok x" "\<not> xp_admitted x" "xp_senders x"
  shows "unsent x"
  using shared_okD(7,8,10) [OF assms(1)] assms(2,3) unfolding unsent_def by (metis option.exhaust)

lemma shared_ok_open: "shared_ok x \<Longrightarrow> xp_state x = ExportOpen \<Longrightarrow> \<not> xp_quiet x"
  using shared_okD(4) by blast

lemma enqueue_step_frame:
  assumes "enqueue_step k stale pc x = (pc', x')"
  shows "keeps_frame c x x'" "rely_entry d x x'"
  using assms by (cases pc; auto simp: keeps_frame_def rely_entry_def split: if_splits)+

lemma enqueue_step_counts:
  assumes "enqueue_step k stale pc x = (pc', x')" "is_enqueue pc" "in_flight_pc pc \<Longrightarrow> 0 < xp_in_flight x"
  shows "counts_move pc pc' x x'"
  using assms by (cases pc; auto simp: counts_move_def split: if_splits)

lemma enqueue_step_rely:
  assumes "enqueue_step k stale pc x = (pc', x')" "call_ok x c pc"
  shows "rely_state d x x'"
  using assms by (cases pc; auto simp: rely_state_def unsent_def split: if_splits)

lemma enqueue_step_call:
  assumes "enqueue_step k stale pc x = (pc', x')" "call_ok x c pc" "shared_ok x" "is_enqueue pc"
  shows "call_ok x' c pc'"
  using assms by (cases pc; auto dest: shared_ok_open split: if_splits)

lemma raced_shared: "shared_ok x \<Longrightarrow> shared_ok (x\<lparr>xp_raced := xp_raced x \<or> b\<rparr>)"
  unfolding shared_ok_def by (simp, blast)

lemma send_shared:
  assumes "shared_ok x" "xp_raced x \<or> \<not> xp_quiet x" "xp_senders x"
  shows "shared_ok (x\<lparr>xp_events := xp_events x @ [ev], xp_sent := xp_sent x @ [ev]\<rparr>)"
proof (cases "xp_raced x")
  case True
  then show ?thesis using assms(1) unfolding shared_ok_def by (auto simp: le_SucI)
next
  case False
  then have "\<not> xp_admitted x" using shared_okD(5) [OF assms(1)] assms(2) by blast
  then have "unsent x" using not_admitted_unsent assms(1,3) by blast
  then show ?thesis using assms(1) unfolding shared_ok_def unsent_def by simp
qed

lemma enqueue_step_shared:
  assumes "enqueue_step k stale pc x = (pc', x')" "call_ok x c pc" "shared_ok x" "xp_senders x"
  shows "shared_ok x'"
  using assms raced_shared [OF assms(3), of "xp_state x \<noteq> ExportOpen"] raced_shared [OF assms(3), of False]
  by (cases pc; auto simp: send_shared split: if_splits)

text \<open>A flush.\<close>

lemma flush_step_state:
  assumes "flush_step k c timed_out pc x = (pc', x')"
  obtains "x' = x" | t where "x' = x\<lparr>xp_flushes := xp_flushes x @ [(t, c)]\<rparr>"
  using assms by (cases pc) (auto split: if_splits)

lemma flush_step_frame:
  assumes "flush_step k c timed_out pc x = (pc', x')"
  shows "keeps_frame c x x'" "rely_state d x x'" "d \<noteq> c \<Longrightarrow> rely_entry d x x'" "shared_ok x \<Longrightarrow> shared_ok x'"
    "xp_in_flight x' = xp_in_flight x" "xp_sent x' = xp_sent x" "accepted x' = accepted x"
  using assms by (auto elim!: flush_step_state simp: keeps_frame_def rely_state_def rely_entry_def flush_entry_def unsent_def)

lemma flush_step_counts:
  assumes "flush_step k c timed_out pc x = (pc', x')" "is_flush pc"
  shows "counts_move pc pc' x x'" "is_flush pc'"
  using assms by (cases pc; auto simp: counts_move_def split: if_splits option.splits)+

lemma flush_step_call:
  assumes "flush_step k c timed_out pc x = (pc', x')" "call_ok x c pc" "is_flush pc"
    and "xp_in_flight x = 0 \<Longrightarrow> length (xp_sent x) = accepted x"
  shows "call_ok x' c pc'"
  using assms by (cases pc) (auto simp: no_entry_def flush_entry_def split: if_splits option.splits)

text \<open>A shutdown. Its error branch is not reached: the holder sends to a worker that still receives.\<close>

definition is_shutdown :: "'e export_call \<Rightarrow> bool" where
  "is_shutdown pc \<longleftrightarrow> \<not> is_enqueue pc \<and> \<not> is_flush pc"

lemma unsent_receiving:
  assumes "shared_ok x" "unsent x"
  shows "xp_receiving x" "xp_shutdowns x = None"
  using shared_okD(13) [OF assms(1)] assms(2) by (auto simp: unsent_def finishing_def)

lemma shutdown_step_frame:
  assumes "shutdown_step c timed_out stale pc x = (pc', x')"
  shows "keeps_frame c x x'" "rely_entry d x x'" "xp_in_flight x' = xp_in_flight x" "xp_sent x' = xp_sent x"
    "accepted x' = accepted x"
  using assms by (cases pc; auto simp: keeps_frame_def rely_entry_def flush_entry_def split: if_splits)+

lemma shutdown_step_counts:
  assumes "shutdown_step c timed_out stale pc x = (pc', x')" "is_shutdown pc"
  shows "counts_move pc pc' x x'"
  using assms by (cases pc) (auto simp: counts_move_def is_shutdown_def split: if_splits option.splits)

lemma shutdown_step_rely:
  assumes "shutdown_step c timed_out stale pc x = (pc', x')" "call_ok x c pc" "shared_ok x" "d \<noteq> c"
  shows "rely_state d x x'"
  using assms shared_okD(6) [OF assms(3)]
  by (cases pc) (auto simp: rely_state_def unsent_def split: if_splits)

lemma shutdown_step_call:
  assumes "shutdown_step c timed_out stale pc x = (pc', x')" "call_ok x c pc" "shared_ok x" "is_shutdown pc" "xp_senders x"
    and "xp_quiet x \<Longrightarrow> xp_raced x \<or> length (xp_sent x) = accepted x" "accepted x \<le> length (xp_sent x)"
  shows "call_ok x' c pc'"
proof (cases pc)
  case SAdmit
  then show ?thesis using assms not_admitted_unsent [OF assms(3)] by (auto simp: unsent_def split: if_splits)
next
  case STarget
  have "xp_quiet x" using shared_okD(5,6) [OF assms(3)] assms(2) STarget by auto
  then show ?thesis using assms STarget by auto
next
  case (SSend t)
  have "xp_quiet x" using shared_okD(5,6) [OF assms(3)] assms(2) SSend by auto
  then show ?thesis using assms SSend unsent_receiving [OF assms(3)] by auto
next
  case SJoin
  then show ?thesis using assms shared_okD(12) [OF assms(3)] by (auto split: if_splits)
next
  case SResult
  then have "finishing (xp_worker x)" using assms(2) by (simp add: finishing_def)
  then have "xp_raced x \<or> total_of (xp_stats x) = length (xp_sent x)" using shared_okD(3,9) [OF assms(3)] by auto
  then show ?thesis using assms SResult by (auto split: option.splits)
qed (use assms in \<open>auto simp: is_shutdown_def split: if_splits\<close>)

lemma close_shared:
  assumes "shared_ok x"
  shows "xp_state x = ExportOpen \<Longrightarrow> shared_ok (x\<lparr>xp_state := ExportClosing\<rparr>)"
    "shared_ok (x\<lparr>xp_state := xp_state x\<rparr>)"
  using assms unfolding shared_ok_def by (simp, blast)+

lemma quiet_shared:
  assumes "shared_ok x" "xp_state x \<noteq> ExportOpen"
  shows "shared_ok (x\<lparr>xp_quiet := True, xp_raced := xp_raced x \<or> b\<rparr>)"
  using assms unfolding shared_ok_def by (simp, blast?)

lemma quiet_shared_same: "shared_ok x \<Longrightarrow> xp_state x \<noteq> ExportOpen \<Longrightarrow> shared_ok (x\<lparr>xp_quiet := True\<rparr>)"
  using quiet_shared [of x False] by simp

lemma admit_shared:
  assumes "shared_ok x" "xp_quiet x" "\<not> xp_admitted x"
  shows "shared_ok (x\<lparr>xp_admitted := True, xp_holder := Some c\<rparr>)"
  using assms unfolding shared_ok_def by (simp, blast?)

lemma target_shared:
  assumes "shared_ok x" "xp_holder x = Some c" "t \<le> length (xp_sent x)" "xp_raced x \<or> t = length (xp_sent x)"
  shows "shared_ok (x\<lparr>xp_shutdowns := Some t\<rparr>)"
  using assms unfolding shared_ok_def by (simp, blast?)

lemma joined_shared:
  assumes "shared_ok x" "xp_worker x = WDone"
  shows "shared_ok (x\<lparr>xp_joined := True\<rparr>)"
  using assms unfolding shared_ok_def by (simp, blast?)

lemma shutdown_step_shared:
  assumes "shutdown_step c timed_out stale pc x = (pc', x')" "call_ok x c pc" "shared_ok x"
  shows "shared_ok x'"
proof (cases pc)
  case (SSend t)
  then show ?thesis using assms unsent_receiving [OF assms(3)] target_shared by auto
qed (use assms in \<open>auto simp: close_shared quiet_shared quiet_shared_same admit_shared joined_shared split: if_splits\<close>)

section \<open>Steps of the worker\<close>

lemma worker_step_frame:
  "xp_senders (worker_step k out x) = xp_senders x" "xp_in_flight (worker_step k out x) = xp_in_flight x"
  "xp_sent (worker_step k out x) = xp_sent x" "xp_quiet (worker_step k out x) = xp_quiet x"
  "xp_holder (worker_step k out x) = xp_holder x" "xp_admitted (worker_step k out x) = xp_admitted x"
  "xp_joined (worker_step k out x) = xp_joined x" "xp_raced (worker_step k out x) = xp_raced x" "accepted (worker_step k out x) = accepted x"
  by (auto split: export_worker.splits option.splits list.splits export_outcome.splits)

lemma worker_step_entry:
  "flush_entry (worker_step k out x) t c \<Longrightarrow> flush_entry x t c"
  by (auto simp: flush_entry_def split: export_worker.splits option.splits list.splits export_outcome.splits if_splits)

lemma worker_step_responses:
  assumes "shared_ok x"
  shows "xp_responses (worker_step k out x) c = xp_responses x c \<or>
    (\<exists>t st. flush_entry x t c \<and> xp_responses (worker_step k out x) c = Some st \<and> t \<le> total_of st \<and>
       total_of st \<le> length (xp_handed (worker_step k out x)))"
  using shared_okD(2,3) [OF assms]
  by (auto simp: flush_entry_def split: export_worker.splits option.splits list.splits export_outcome.splits if_splits)

lemma worker_step_entry_rely: "shared_ok x \<Longrightarrow> rely_entry c x (worker_step k out x)"
  using worker_step_entry worker_step_responses unfolding rely_entry_def by blast

lemma worker_step_state_rely:
  assumes "shared_ok x"
  shows "rely_state c x (worker_step k out x)"
proof -
  have "length (xp_handed x) \<le> length (xp_handed (worker_step k out x))"
    by (auto split: export_worker.splits option.splits list.splits)
  moreover have "xp_state x \<noteq> ExportOpen \<longrightarrow> xp_state (worker_step k out x) \<noteq> ExportOpen"
    by (auto split: export_worker.splits option.splits list.splits)
  moreover have "unsent x \<and> xp_senders x \<longrightarrow> unsent (worker_step k out x)"
    by (auto simp: unsent_def finishing_def split: export_worker.splits option.splits list.splits)
  moreover have "xp_worker x = WDone \<longrightarrow> xp_worker (worker_step k out x) = WDone" by simp
  ultimately show ?thesis unfolding rely_state_def worker_step_frame by blast
qed

text \<open>The shared state, one program counter of the worker at a time.\<close>

lemma shared_ok_target_met:
  assumes "shared_ok x" "xp_pending_shutdown x = Some t" "t \<le> xp_processed x" "held_batch (xp_worker x) = []"
  shows "xp_raced x \<or> xp_handed x = xp_sent x"
proof (cases "xp_raced x")
  case False
  then have "length (xp_sent x) \<le> length (xp_handed x)" using shared_okD(2,8) [OF assms(1)] assms(2,3) by fastforce
  moreover have "xp_sent x = xp_handed x @ xp_events x" using shared_okD(1) [OF assms(1)] assms(4) by simp
  ultimately show ?thesis by simp
qed simp

lemma worker_step_shared:
  assumes ok: "shared_ok x"
  shows "shared_ok (worker_step k out x)"
proof (cases "xp_worker x")
  case WShutdowns
  then show ?thesis using ok by (auto simp: shared_ok_def finishing_def)
next
  case WFlushes
  then show ?thesis using ok by (auto simp: shared_ok_def finishing_def split: list.splits)
next
  case WRecv
  then show ?thesis using ok by (auto simp: shared_ok_def finishing_def split: list.splits)
next
  case (WCollect batch)
  then show ?thesis using ok by (auto simp: shared_ok_def finishing_def split: list.splits)
next
  case (WExport batch)
  then show ?thesis using ok by (auto simp: shared_ok_def finishing_def total_of_def split: export_outcome.splits)
next
  case WAnswer
  then show ?thesis using ok by (auto simp: shared_ok_def finishing_def split: option.splits)
next
  case WCheck
  have "xp_raced x \<or> xp_handed x = xp_sent x" if "xp_pending_shutdown x = Some t" "t \<le> xp_processed x" for t
    using shared_ok_target_met [OF ok that] WCheck by simp
  with WCheck show ?thesis using ok by (auto simp: shared_ok_def finishing_def split: option.splits)
qed (use ok in \<open>auto simp: shared_ok_def finishing_def\<close>)

section \<open>The invariant holds under any interleaving\<close>

lemma counted_calls:
  assumes "calls_ok x m" "m c = Some pc"
  shows "in_flight_pc pc \<Longrightarrow> 0 < xp_in_flight x" "\<not> returned pc \<Longrightarrow> xp_senders x" "call_ok x c pc"
proof -
  have "finite {c. enqueuing (m c)}"
    using assms(1) by (auto simp: calls_ok_def enqueuing_def split: option.splits elim!: rev_finite_subset)
  moreover have "c \<in> {c. enqueuing (m c)}" if "in_flight_pc pc" using assms(2) that by simp
  ultimately have "0 < card {c. enqueuing (m c)}" if "in_flight_pc pc" using that card_gt_0_iff by blast
  then show "0 < xp_in_flight x" if "in_flight_pc pc" using assms(1) that by (simp add: calls_ok_def)
  show "xp_senders x" if "\<not> returned pc" using assms that by (auto simp: calls_ok_def intro: ranI)
  show "call_ok x c pc" using assms by (simp add: calls_ok_def)
qed

lemma sent_are_accepted:
  assumes "calls_ok x m" "xp_in_flight x = 0 \<or> xp_quiet x \<and> \<not> xp_raced x"
  shows "length (xp_sent x) = accepted x"
proof -
  have "m c \<noteq> Some ECount" for c
  proof
    assume "m c = Some ECount"
    with counted_calls [OF assms(1)] assms(2) show False by fastforce
  qed
  then have "{c. counting (m c)} = {}" by (simp add: counting_def)
  then show ?thesis using assms(1) by (simp add: calls_ok_def)
qed

lemma calls_ok_update:
  assumes ok: "calls_ok x m" "shared_ok x" and c: "m c = Some pc" "\<not> returned pc"
    and own: "call_ok x' c pc'" "counts_move pc pc' x x'" "keeps_frame c x x'"
    and others: "\<And>d. d \<noteq> c \<Longrightarrow> rely_state d x x' \<and> rely_entry d x x'"
  shows "calls_ok x' (m(c \<mapsto> pc'))"
proof -
  have fin: "finite (dom m)" using ok(1) by (simp add: calls_ok_def)
  have "xp_in_flight x' = card {d. enqueuing ((m(c \<mapsto> pc')) d)}"
    using card_calls_update [OF fin, of enqueuing c pc'] c ok(1) own(2) by (simp add: calls_ok_def counts_move_def)
  moreover have "length (xp_sent x') = accepted x' + card {d. counting ((m(c \<mapsto> pc')) d)}"
    using card_calls_update [OF fin, of counting c pc'] c ok(1) own(2) by (simp add: calls_ok_def counts_move_def)
  moreover have "flush_entry x' t d \<longrightarrow> d \<in> dom (m(c \<mapsto> pc'))" for t d
    using ok(1) own(3) unfolding calls_ok_def keeps_frame_def by (metis domIff fun_upd_apply option.distinct(1))
  moreover have "dom (xp_responses x') \<subseteq> dom (m(c \<mapsto> pc'))" using ok(1) own(3) by (auto simp: calls_ok_def keeps_frame_def)
  moreover have "xp_senders x'" using counted_calls(2) [OF ok(1) c(1)] c(2) own(3) by (simp add: keeps_frame_def)
  moreover have "call_ok x' d p" if "(m(c \<mapsto> pc')) d = Some p" for d p
  proof (cases "d = c")
    case False
    then show ?thesis using that counted_calls [OF ok(1)] others rely_call_ok ok(2) by (metis fun_upd_apply)
  qed (use that own(1) in simp)
  ultimately show ?thesis using fin by (simp add: calls_ok_def)
qed

lemma returned_stays: "returned pc \<Longrightarrow> call_step k c timed_out stale pc x = (pc, x)"
  by (cases pc) (auto simp: call_step_def)

lemma call_moves_ok:
  assumes ok: "shared_ok x" "calls_ok x m" and mv: "m c = Some pc" "call_step k c timed_out stale pc x = (pc', x')"
  shows "shared_ok x' \<and> calls_ok x' (m(c \<mapsto> pc'))"
proof (cases "returned pc")
  case True
  then have "pc' = pc" "x' = x" using returned_stays mv(2) by (metis prod.inject)+
  then show ?thesis using ok mv(1) by (simp add: fun_upd_idem)
next
  case False
  note q = counted_calls [OF ok(2) mv(1)] and n = sent_are_accepted [OF ok(2)]
  have le: "accepted x \<le> length (xp_sent x)" using ok(2) by (simp add: calls_ok_def)
  note upd = calls_ok_update [OF ok(2,1) mv(1) False]
  consider (enqueue) "is_enqueue pc" "enqueue_step k stale pc x = (pc', x')"
    | (flush) "is_flush pc" "flush_step k c timed_out pc x = (pc', x')"
    | (shutdown) "is_shutdown pc" "shutdown_step c timed_out stale pc x = (pc', x')"
    using mv(2) by (auto simp: call_step_def is_shutdown_def split: if_splits)
  then show ?thesis
  proof cases
    case enqueue
    then show ?thesis using upd q ok(1) False enqueue_step_call enqueue_step_counts enqueue_step_frame enqueue_step_rely
        enqueue_step_shared by metis
  next
    case flush
    then show ?thesis using upd q n ok(1) False flush_step_call flush_step_counts flush_step_frame by metis
  next
    case shutdown
    then show ?thesis using upd q n le ok(1) False shutdown_step_call shutdown_step_counts shutdown_step_frame shutdown_step_rely
        shutdown_step_shared by metis
  qed
qed

lemma worker_moves_ok:
  assumes "shared_ok x" "calls_ok x m"
  shows "shared_ok (worker_step k out x) \<and> calls_ok (worker_step k out x) m"
proof -
  have "call_ok (worker_step k out x) c pc" if "m c = Some pc" for c pc
    using counted_calls [OF assms(2) that] rely_call_ok worker_step_state_rely worker_step_entry_rely assms(1) by metis
  moreover have "dom (xp_responses (worker_step k out x)) \<subseteq> dom m"
    using worker_step_responses [OF assms(1), of k out] assms(2) unfolding calls_ok_def dom_def by (smt (verit) mem_Collect_eq subset_iff)
  ultimately show ?thesis
    using assms worker_step_entry worker_step_shared unfolding calls_ok_def worker_step_frame by metis
qed

lemma call_made_ok:
  assumes "shared_ok x" "calls_ok x m" "m c = None" "xp_senders x" "pc \<in> {EEnter ev, FState (length (xp_sent x)), SClose}"
  shows "calls_ok x (m(c \<mapsto> pc))"
proof -
  have fin: "finite (dom m)" using assms(2) by (simp add: calls_ok_def)
  have "c \<notin> dom m" using assms(3) by auto
  then have new: "no_entry x c" using assms(2) unfolding calls_ok_def no_entry_def by blast
  have "\<not> in_flight_pc pc" "pc \<noteq> ECount" "call_ok x c pc" using assms(5) new by auto
  then show ?thesis
    using card_calls_update [OF fin, of enqueuing c pc] card_calls_update [OF fin, of counting c pc] assms
    by (simp add: calls_ok_def) blast
qed

lemma emitter_dropped_ok:
  assumes "shared_ok x" "calls_ok x m" "\<forall>pc \<in> ran m. returned pc"
  shows "shared_ok (x\<lparr>xp_senders := False\<rparr>) \<and> calls_ok (x\<lparr>xp_senders := False\<rparr>) m"
proof -
  let ?x = "x\<lparr>xp_senders := False\<rparr>"
  have "shared_ok ?x" using assms(1) unfolding shared_ok_def by (simp, blast?)
  moreover have "rely_state c x ?x" "rely_entry c x ?x" for c by (auto simp: rely_state_def rely_entry_def unsent_def)
  then have "call_ok ?x c pc" if "m c = Some pc" for c pc
    using counted_calls [OF assms(2) that] rely_call_ok assms(1) by metis
  ultimately show ?thesis using assms(2,3) unfolding calls_ok_def by simp
qed

lemma export_ok_step: "export_step k s s' \<Longrightarrow> export_ok s \<Longrightarrow> export_ok s'"
  by (induction rule: export_step.induct)
    (auto simp: export_ok_def simp del: worker_step.simps dest: call_made_ok call_moves_ok emitter_dropped_ok worker_moves_ok)

lemma export_ok_reachable:
  assumes "emitter_new k = Inr x0" "(export_step k)\<^sup>*\<^sup>* (x0, Map.empty) s"
  shows "export_ok s"
  using assms(2)
proof (induction rule: rtranclp_induct)
  case base
  have "x0 = exporter_new" using assms(1) by (simp add: emitter_new_def split: if_splits)
  then show ?case by (simp add: export_ok_def shared_ok_def calls_ok_def exporter_new_def flush_entry_def finishing_def total_of_def)
qed (rule export_ok_step)

lemma handed_prefix:
  assumes "shared_ok x"
  shows "prefix (xp_handed x) (xp_sent x)"
  using shared_okD(1) [OF assms] by (metis prefixI)

section \<open>Progress of the worker\<close>

text \<open>
  An upper bound of the steps the worker has left once a shutdown was sent: it makes at most one round without an event, to fetch
  the command, and each further round takes an event.
\<close>

fun worker_rank :: "bool \<Rightarrow> 'e export_worker \<Rightarrow> nat" where
  "worker_rank idle WShutdowns = (if idle then 12 else 3)"
| "worker_rank idle WFlushes = (if idle then 11 else 2)"
| "worker_rank idle WRecv = (if idle then 10 else 1)"
| "worker_rank idle (WCollect _) = 8"
| "worker_rank idle (WExport _) = 7"
| "worker_rank idle WAnswer = 6"
| "worker_rank idle WCheck = 5"
| "worker_rank idle WFinish = 4"
| "worker_rank idle WClose = 3"
| "worker_rank idle WExit = 2"
| "worker_rank idle WDone = 1"

definition worker_left :: "'e exporter \<Rightarrow> nat" where
  "worker_left x = (if xp_worker x = WDone then 0 else (if xp_pending_shutdown x = None \<and> xp_worker x \<noteq> WShutdowns then 20 else 0) +
     10 * length (xp_events x) + worker_rank (xp_events x = []) (xp_worker x))"

definition shutdown_sent :: "'e exporter \<Rightarrow> bool" where
  "shutdown_sent x \<longleftrightarrow> xp_shutdowns x \<noteq> None \<or> xp_pending_shutdown x \<noteq> None"

lemma worker_left_bound: "worker_left x \<le> 10 * length (xp_events x) + 32"
  by (cases "xp_worker x") (simp_all add: worker_left_def)

lemma worker_step_sent: "shutdown_sent x \<Longrightarrow> shutdown_sent (worker_step k out x)"
  by (auto simp: shutdown_sent_def split: export_worker.splits option.splits list.splits)

lemma worker_step_left:
  assumes "shared_ok x" "shutdown_sent x" "xp_worker x \<noteq> WDone"
  shows "worker_left (worker_step k out x) < worker_left x"
proof (cases "xp_worker x")
  case WCheck
  have "xp_events x \<noteq> []" if "xp_pending_shutdown x = Some t" "\<not> t \<le> xp_processed x" for t
    using shared_okD(1,2) [OF assms(1)] shared_okD(8) [OF assms(1) that(1)] that(2) WCheck by auto
  with WCheck show ?thesis by (auto simp: worker_left_def split: option.splits)
qed (use assms in \<open>auto simp: worker_left_def shutdown_sent_def split: list.splits option.splits\<close>)

lemma worker_run_ends:
  assumes "shared_ok x" "shutdown_sent x" "worker_left x \<le> length outs"
  shows "xp_worker (fold (worker_step k) outs x) = WDone \<and> shared_ok (fold (worker_step k) outs x)"
  using assms
proof (induction outs arbitrary: x)
  case Nil
  then show ?case by (cases "xp_worker x") (auto simp: worker_left_def split: if_splits)
next
  case (Cons out outs)
  have "worker_left (worker_step k out x) \<le> length outs"
  proof (cases "xp_worker x = WDone")
    case False
    then show ?thesis using worker_step_left [OF Cons.prems(1,2) False, of k out] Cons.prems(3) by simp
  next
    case True
    then show ?thesis by (simp add: worker_left_def)
  qed
  then show ?case
    using Cons.IH [OF worker_step_shared worker_step_sent] Cons.prems by (simp del: worker_step.simps)
qed

section \<open>Schedules\<close>

datatype 'e export_act = Make nat "'e export_call" | Move nat bool | Stale nat | Work export_outcome

fun perform_act :: "async_export_config \<Rightarrow> 'e export_act \<Rightarrow> 'e exporter \<times> 'e export_calls \<Rightarrow> 'e exporter \<times> 'e export_calls" where
  "perform_act k (Make c pc) (x, m) =
     (if m c = None \<and> xp_senders x \<and> (case pc of EEnter _ \<Rightarrow> True | FState n \<Rightarrow> n = length (xp_sent x) | _ \<Rightarrow> pc = SClose)
      then (x, m(c \<mapsto> pc)) else (x, m))"
| "perform_act k (Move c timed_out) (x, m) =
     (case m c of None \<Rightarrow> (x, m) | Some pc \<Rightarrow> (case call_step k c timed_out False pc x of (pc', x') \<Rightarrow> (x', m(c \<mapsto> pc'))))"
| "perform_act k (Stale c) (x, m) =
     (case m c of None \<Rightarrow> (x, m) | Some pc \<Rightarrow> (case call_step k c False True pc x of (pc', x') \<Rightarrow> (x', m(c \<mapsto> pc'))))"
| "perform_act k (Work out) (x, m) = (worker_step k out x, m)"

lemma perform_act_step: "(export_step k)\<^sup>*\<^sup>* s (perform_act k a s)"
proof (cases "(k, a, s)" rule: perform_act.cases)
  case (1 k' c pc x m)
  then show ?thesis by (cases pc) (auto intro!: r_into_rtranclp call_made)
qed (auto intro!: r_into_rtranclp call_moves worker_moves simp del: worker_step.simps split: option.splits prod.splits)

lemma export_run_reachable: "(export_step k)\<^sup>*\<^sup>* s (fold (perform_act k) as s)"
proof (induction as arbitrary: s)
  case (Cons a as)
  then show ?case using rtranclp_trans [OF perform_act_step] by (metis fold_simps(2))
qed simp

text \<open>Two events and a shutdown; two events and a flush between them.\<close>

definition demo_config :: async_export_config where
  "demo_config = \<lparr>ac_queue_capacity = 4, ac_control_capacity = 1, ac_max_batch_size = 2, ac_scheduled_delay = 5\<rparr>"

definition run_acts :: "nat export_act list \<Rightarrow> nat exporter \<times> nat export_calls" where
  "run_acts as = fold (perform_act demo_config) as (exporter_new, Map.empty)"

definition sending_acts :: "nat export_act list" where
  "sending_acts = [Make 0 (EEnter 7), Make 1 (EEnter 8), Make 2 SClose] @ concat (replicate 5 [Move 0 False, Move 1 False]) @
     replicate 5 (Move 2 False)"

definition shutdown_acts :: "nat export_act list" where
  "shutdown_acts = sending_acts @ replicate 11 (Work ExportOk) @ replicate 3 (Move 2 False)"

definition flush_acts :: "nat export_act list" where
  "flush_acts = Make 0 (EEnter 7) # replicate 5 (Move 0 False) @ Make 1 (FState 1) # replicate 4 (Move 1 False) @
     replicate 3 (Work ExportOk) @ Make 2 (EEnter 8) # replicate 5 (Move 2 False) @
     replicate 4 (Work (ExportFailed ''offline'')) @ [Move 1 False]"

lemma run_acts_reachable: "(export_step demo_config)\<^sup>*\<^sup>* (exporter_new, Map.empty) (fst (run_acts as), snd (run_acts as))"
  using export_run_reachable by (simp add: run_acts_def)

lemma demo_config_new: "emitter_new demo_config = Inr exporter_new"
  by (simp add: emitter_new_def demo_config_def)

section \<open>Properties\<close>

text \<open>C36. A shutdown that returns its statistics has lost nothing, unless a load raced: every event that was put into the queue, by any
  call and in any interleaving, was handed to the exporter, in order and once; the statistics count all of them as
  accepted, and each as exported or failed. The hypothesis \<open>\<not> xp_raced x\<close> says that no enqueue read the state as open after a shutdown had
  closed it, and no shutdown missed an enqueue in flight, as on a platform where the code's atomics are sequentially
  consistent; the orderings of the code do not promise it.\<close>

theorem telemetry_shutdown_loses_nothing:
  assumes "emitter_new k = Inr x0" "(export_step k)\<^sup>*\<^sup>* (x0, Map.empty) (x, m)" "m c = Some (SDone (Inr st))" "\<not> xp_raced x"
  shows "xp_handed x = xp_sent x \<and> xp_events x = [] \<and> xs_accepted st = length (xp_sent x) \<and>
    xs_exported st + xs_export_failed st = xs_accepted st \<and> xp_worker x = WDone"
proof -
  have ok: "shared_ok x" "calls_ok x m" using export_ok_reachable [OF assms(1,2)] by (simp_all add: export_ok_def)
  have st: "xp_worker x = WDone" "xs_accepted st = length (xp_sent x)" "total_of st = length (xp_sent x)"
    using counted_calls(3) [OF ok(2) assms(3)] assms(4) by simp_all
  have handed: "xp_handed x = xp_sent x" using shared_okD(9) [OF ok(1)] st(1) assms(4) by (simp add: finishing_def)
  then have "xp_events x = []" using shared_okD(1) [OF ok(1)] st(1) by simp
  with handed st show ?thesis by (simp add: total_of_def)
qed

theorem telemetry_shutdown_loses_nothing_witness:
  "snd (run_acts shutdown_acts) 2 =
     Some (SDone (Inr \<lparr>xs_accepted = 2, xs_dropped = 0, xs_exported = 2, xs_export_failed = 0, xs_rejected = 0\<rparr>)) \<and>
   xp_handed (fst (run_acts shutdown_acts)) = xp_sent (fst (run_acts shutdown_acts)) \<and> xp_sent (fst (run_acts shutdown_acts)) = [7, 8]"
proof -
  have r: "snd (run_acts shutdown_acts) 2 =
    Some (SDone (Inr \<lparr>xs_accepted = 2, xs_dropped = 0, xs_exported = 2, xs_export_failed = 0, xs_rejected = 0\<rparr>))" by code_simp
  have "xp_sent (fst (run_acts shutdown_acts)) = [7, 8]" by code_simp
  moreover have "\<not> xp_raced (fst (run_acts shutdown_acts))" by code_simp
  ultimately show ?thesis using r telemetry_shutdown_loses_nothing [OF demo_config_new run_acts_reachable r] by blast
qed

text \<open>The race is real in the model: an enqueue that reads the state as open after the shutdown has closed it puts its event into the
  queue when the worker is about to end; the shutdown succeeds and its statistics show an accepted event that was neither exported
  nor failed.\<close>

definition race_acts :: "nat export_act list" where
  "race_acts = Make 0 (EEnter 7) # Make 2 SClose # replicate 5 (Move 2 False) @ [Move 0 False, Stale 0] @
     replicate 7 (Work ExportOk) @ replicate 3 (Move 0 False) @ replicate 3 (Work ExportOk) @ replicate 3 (Move 2 False)"

lemma telemetry_race_loses_event:
  "(export_step demo_config)\<^sup>*\<^sup>* (exporter_new, Map.empty) (fst (run_acts race_acts), snd (run_acts race_acts)) \<and>
   snd (run_acts race_acts) 2 =
     Some (SDone (Inr \<lparr>xs_accepted = 1, xs_dropped = 0, xs_exported = 0, xs_export_failed = 0, xs_rejected = 0\<rparr>)) \<and>
   xp_sent (fst (run_acts race_acts)) = [7] \<and> xp_handed (fst (run_acts race_acts)) = []"
  by (intro conjI run_acts_reachable) code_simp+

text \<open>C37. A flush that returns statistics waited for the events before it: the exporter was handed every event queued before
  the flush was called (their number is \<open>n\<close>), the statistics count at least \<open>n\<close> of them as exported or failed, and
  the exporter gets the events in the order they were sent, without gap or repetition, at every moment.
\<close>

theorem telemetry_flush_waits:
  assumes "emitter_new k = Inr x0" "(export_step k)\<^sup>*\<^sup>* (x0, Map.empty) (x, m)" "m c = Some (FDone n (Inr st))"
  shows "n \<le> xs_exported st + xs_export_failed st \<and> n \<le> length (xp_handed x) \<and> prefix (xp_handed x) (xp_sent x) \<and>
    take n (xp_handed x) = take n (xp_sent x)"
proof -
  have ok: "shared_ok x" "calls_ok x m" using export_ok_reachable [OF assms(1,2)] by (simp_all add: export_ok_def)
  have n: "n \<le> total_of st" "total_of st \<le> length (xp_handed x)" using counted_calls(3) [OF ok(2) assms(3)] by simp_all
  moreover have "take n (xp_handed x) = take n (xp_sent x)"
    using n shared_okD(1) [OF ok(1)] by (metis append_Nil2 diff_is_0_eq le_trans take0 take_append)
  ultimately show ?thesis using handed_prefix [OF ok(1)] by (simp add: total_of_def)
qed

theorem telemetry_flush_waits_witness:
  "snd (run_acts flush_acts) 1 =
     Some (FDone 1 (Inr \<lparr>xs_accepted = 2, xs_dropped = 0, xs_exported = 0, xs_export_failed = 2, xs_rejected = 0\<rparr>)) \<and>
   take 1 (xp_handed (fst (run_acts flush_acts))) = take 1 (xp_sent (fst (run_acts flush_acts)))"
proof -
  have r: "snd (run_acts flush_acts) 1 =
    Some (FDone 1 (Inr \<lparr>xs_accepted = 2, xs_dropped = 0, xs_exported = 0, xs_export_failed = 2, xs_rejected = 0\<rparr>))" by code_simp
  with telemetry_flush_waits [OF demo_config_new run_acts_reachable r] show ?thesis by blast
qed

text \<open>C38. Once a shutdown was sent to it, the worker ends after at most ten steps for each event in the queue and 32 more, whatever the exporter
  answers, and then the emitter is closed, so that the shutdown that waits for it can return; and everything was handed over, unless a
  load raced (\<open>xp_raced\<close>).\<close>

theorem telemetry_worker_finishes:
  assumes "emitter_new k = Inr x0" "(export_step k)\<^sup>*\<^sup>* (x0, Map.empty) (x, m)" "xp_shutdowns x \<noteq> None \<or> xp_pending_shutdown x \<noteq> None"
    and "10 * length (xp_events x) + 32 \<le> length outs"
  shows "xp_worker (fold (worker_step k) outs x) = WDone \<and> xp_state (fold (worker_step k) outs x) = ExportClosed \<and>
    (xp_raced x \<or> xp_handed (fold (worker_step k) outs x) = xp_sent x)"
proof -
  let ?y = "fold (worker_step k) outs x"
  have "shared_ok x" using export_ok_reachable [OF assms(1,2)] by (simp add: export_ok_def)
  then have y: "xp_worker ?y = WDone" "shared_ok ?y"
    using worker_run_ends [of x outs k] worker_left_bound [of x] assms(3,4) by (simp_all add: shutdown_sent_def)
  moreover have "xp_raced (fold (worker_step k) outs y) = xp_raced y \<and> xp_sent (fold (worker_step k) outs y) = xp_sent y" for y
    by (induction outs arbitrary: y) (simp_all add: worker_step_frame del: worker_step.simps)
  moreover have "finishing (xp_worker ?y)" using y(1) by (simp add: finishing_def)
  ultimately have "xp_raced x \<or> xp_handed ?y = xp_sent x" using shared_okD(9) [OF y(2)] by metis
  moreover have "xp_state ?y = ExportClosed" using shared_okD(11) [OF y(2)] y(1) by blast
  ultimately show ?thesis using y(1) by blast
qed

theorem telemetry_worker_finishes_witness:
  "xp_shutdowns (fst (run_acts sending_acts)) = Some 2 \<and> length (xp_events (fst (run_acts sending_acts))) = 2 \<and>
   xp_worker (fold (worker_step demo_config) (replicate 52 (ExportFailed ''offline'')) (fst (run_acts sending_acts))) = WDone"
proof -
  have r: "xp_shutdowns (fst (run_acts sending_acts)) = Some 2" "length (xp_events (fst (run_acts sending_acts))) = 2"
    by code_simp+
  then have "xp_shutdowns (fst (run_acts sending_acts)) \<noteq> None \<or> xp_pending_shutdown (fst (run_acts sending_acts)) \<noteq> None"
    "10 * length (xp_events (fst (run_acts sending_acts))) + 32 \<le> length (replicate 52 (ExportFailed ''offline''))" by simp_all
  from r telemetry_worker_finishes [OF demo_config_new run_acts_reachable this] show ?thesis by blast
qed

end
