(* ===== verification/Spec2Isabelle.thy ===== *)
theory Spec2Isabelle
  imports Rv_Prelude Status_Machine Identifiers Calls F64_Bits Protocol Task_Config
    Mem_Orchestrator Mem_Orchestrator_Inv Mem_Orchestrator_Props Mem_Orchestrator_Query
    Mem_Broker Mem_State Triggers Mem_Trigger Trigger_Manager Orchestration Dispatch Maintenance
    Execution Service_Props Service_Spec Service_Outcomes Attempt_Props Retrieval_Props Publication_Props
    Workflow_Root Client_Data App_Calls Trigger_Builder Histogram Runner_Pool
    Sqlite_Db Sqlite_Broker Sqlite_Orchestrator Sqlite_Publication Sqlite_State Sqlite_Trigger Sqlite_Mem_Equiv
    Sqlite_Requests Sqlite_Delivery Sqlite_Props Sqlite_State_Props Sqlite_Invariants Sqlite_Types Sqlite_Trigger_Props
    Sqlite_Node Sqlite_Trigger_Manager Sqlite_Service Sqlite_Runner Sqlite_Attempt Sqlite_Service_Props
    Timeline_Lanes Timeline Timeline_Props Family_Tree Telemetry_Export Telemetry_Export_Props
begin

text \<open>
  A verification of rustvello, a distributed task system. A task is registered in a catalog; a call of it
  becomes an \<^emph>\<open>invocation\<close> that is registered, queued in a broker, claimed by a runner, executed, and
  then succeeds, fails, is retried, recovered or cancelled; triggers start further invocations.

  \<^bold>\<open>Parts of the program and their theories.\<close>

  \<^item> \<^verbatim>\<open>rustvello-proto\<close>, the protocol. \<open>Status_Machine\<close>: \<^verbatim>\<open>status/mod.rs\<close> (the statuses and
    the configuration table) and \<^verbatim>\<open>status/machine.rs\<close> (transition, ownership, new owner).
    \<open>Identifiers\<close>: \<^verbatim>\<open>identifiers.rs\<close>. \<open>Calls\<close>: \<^verbatim>\<open>call.rs\<close>, \<^verbatim>\<open>hex.rs\<close>,
    \<^verbatim>\<open>status/concurrency.rs\<close>. \<open>Protocol\<close>: \<^verbatim>\<open>invocation.rs\<close> and the errors of
    \<^verbatim>\<open>rustvello-core/src/error.rs\<close>. \<open>F64_Bits\<close>: the bit pattern and total order of \<^verbatim>\<open>f64\<close>
    that priorities need. \<open>Triggers\<close>: \<^verbatim>\<open>trigger/\<close> (conditions, contexts, filters, ids, records).
  \<^item> Configuration. \<open>Task_Config\<close>: \<^verbatim>\<open>config.rs\<close>, \<^verbatim>\<open>task_config.rs\<close>,
    \<^verbatim>\<open>task_catalog.rs\<close> and the registry of \<^verbatim>\<open>rustvello-core/src/task.rs\<close>.
  \<^item> \<^verbatim>\<open>rustvello-mem\<close>, the in-memory backends, each a record of its maps behind one mutex and one
    definition per operation. \<open>Mem_Orchestrator\<close> (state, status, concurrency, blocking), with its
    invariant in \<open>Mem_Orchestrator_Inv\<close>, the queries and recovery scans in
    \<open>Mem_Orchestrator_Query\<close> and its properties in \<open>Mem_Orchestrator_Props\<close>; \<open>Mem_Broker\<close>;
    \<open>Mem_State\<close> (state backend and client data store); \<open>Mem_Trigger\<close>.
  \<^item> \<open>Trigger_Manager\<close>: \<^verbatim>\<open>rustvello-core/src/trigger.rs\<close>, reporting, events, cron slots, and the
    claim of trigger runs.
  \<^item> \<^verbatim>\<open>rustvello/src/orchestration/\<close>, the service over the backends. \<open>Orchestration\<close>:
    \<^verbatim>\<open>mod.rs\<close>, \<^verbatim>\<open>control.rs\<close>, \<^verbatim>\<open>routing.rs\<close>, \<^verbatim>\<open>backends.rs\<close>.
    \<open>Dispatch\<close>: \<^verbatim>\<open>dispatch.rs\<close>, \<^verbatim>\<open>retrieval.rs\<close>, and the ends of an attempt.
    \<open>Maintenance\<close>: \<^verbatim>\<open>maintenance.rs\<close>, \<^verbatim>\<open>submission.rs\<close>, \<^verbatim>\<open>triggers.rs\<close>.
    The state is the record \<open>world\<close> of the backends' states; a use case is the sequence of backend calls of
    the code, and an error returns with the writes made so far (\<open>and_then\<close> is the \<^verbatim>\<open>?\<close> operator).
  \<^item> \<^verbatim>\<open>rustvello/src/runner/\<close>. \<open>Execution\<close>: \<^verbatim>\<open>executor_common.rs\<close> (the whole flow),
    \<^verbatim>\<open>attempt.rs\<close>, \<^verbatim>\<open>control_plane.rs\<close>, \<^verbatim>\<open>failure_log.rs\<close>, and
    \<^verbatim>\<open>rustvello-core/src/execution.rs\<close>. \<open>Runner_Pool\<close>: \<^verbatim>\<open>persistent_tokio/\<close>, a process
    whose workers poll, execute and change identity after an error, as a step relation that interleaves them
    with the management loop and with other processes.

  \<^item> \<^verbatim>\<open>rustvello-core\<close>, aids of a task body. \<open>Workflow_Root\<close>: \<^verbatim>\<open>workflow.rs\<close>, the replay of
    random numbers, times and UUIDs. \<open>Client_Data\<close>: \<^verbatim>\<open>client_data_store.rs\<close>, values kept outside
    the call behind references. \<open>App_Calls\<close>: \<^verbatim>\<open>call.rs\<close>, the adapters of \<^verbatim>\<open>task.rs\<close>, the
    handles of \<^verbatim>\<open>invocation.rs\<close> and \<^verbatim>\<open>rustvello/src/app/submission.rs\<close>, the interface an
    application calls. \<open>Trigger_Builder\<close>: \<^verbatim>\<open>rustvello/src/trigger_builder.rs\<close>.

  \<^item> \<^verbatim>\<open>rustvello-sqlite/src/\<close>, the backends over one database file shared by processes.
    \<open>Sqlite_Db\<close>: \<^verbatim>\<open>db.rs\<close>, the tables (record \<open>db\<close>), the locked connection (record \<open>conn\<close>) on
    which any statement may fail, transactions and rollback. \<open>Sqlite_Broker\<close>: \<^verbatim>\<open>broker.rs\<close>, leases.
    \<open>Sqlite_Orchestrator\<close>: \<^verbatim>\<open>orchestrator/\<close>. \<open>Sqlite_Publication\<close>: \<^verbatim>\<open>publication.rs\<close> and
    \<^verbatim>\<open>completion.rs\<close>, the transactions that change status, payload, history and queue at once.
    \<open>Sqlite_State\<close>: \<^verbatim>\<open>state_backend/\<close> and \<^verbatim>\<open>client_data_store.rs\<close>. \<open>Sqlite_Trigger\<close>:
    \<^verbatim>\<open>trigger/\<close>. \<open>Sqlite_Requests\<close> collects the operations that write as one datatype of requests and
    a step of the shared database: some process performs some request on a connection that may fail.
  \<^item> The service over SQLite: the same use cases on a backend with transactional publication. \<open>Sqlite_Node\<close>:
    a process (record \<open>node\<close>), its connection and what other processes do between its requests.
    \<open>Sqlite_Trigger_Manager\<close>: \<^verbatim>\<open>rustvello-core/src/trigger.rs\<close>. \<open>Sqlite_Service\<close>: \<^verbatim>\<open>mod.rs\<close>,
    \<^verbatim>\<open>control.rs\<close>, \<^verbatim>\<open>routing.rs\<close>. \<open>Sqlite_Runner\<close>: \<^verbatim>\<open>maintenance.rs\<close>, \<^verbatim>\<open>submission.rs\<close>,
    \<^verbatim>\<open>dispatch.rs\<close>, \<^verbatim>\<open>retrieval.rs\<close>. \<open>Sqlite_Attempt\<close>: \<^verbatim>\<open>triggers.rs\<close> and
    \<^verbatim>\<open>executor_common.rs\<close>. A definition \<open>tx_f\<close> is the form of \<open>f\<close> that makes requests to the database.

  \<^item> \<open>Histogram\<close>: \<^verbatim>\<open>rustvello-monitoring/src/histogram/mod.rs\<close>, the occupancy of a time window.
    \<open>Timeline_Lanes\<close>, \<open>Timeline\<close>: \<^verbatim>\<open>rustvello-monitoring/src/svg/\<close>, the chains, lanes and lane groups of the
    timeline. \<open>Family_Tree\<close>: \<^verbatim>\<open>family_tree/tree.rs\<close> and \<^verbatim>\<open>query/page.rs\<close>.

  \<^item> \<open>Telemetry_Export\<close>: \<^verbatim>\<open>BoundedAsyncEmitter\<close> of \<^verbatim>\<open>rustvello-core/src/observability.rs\<close>, the bounded queue between
    task threads and the exporting thread. A call is a program counter, each atomic or channel operation a step, and
    \<open>export_step\<close> interleaves calls and worker. Where the orderings of the code let a load read an old value (the state in an
    enqueue, the calls in flight in a shutdown), the step takes it as a choice, and \<open>xp_raced\<close> records that it mattered.

  \<^bold>\<open>Conventions.\<close> Rust integers keep their width as words; durations and instants are integers in
  nanoseconds. Strings are lists of characters. Maps are partial functions; where the code iterates over a
  hash container, the order is a parameter of the surroundings \<open>env\<close> together with the clock, and the
  hypothesis \<open>hash_order_ok\<close> says only that it lists the elements once. Errors are the values of
  \<open>rv_error\<close>; a panic is the error \<open>Panic\<close>. Serialisation, SHA-256, UUID v5, cron schedules, glob
  matching, the answer of a binary search among equal keys (\<open>search_ok\<close>), float parsing, the process environment, OpenTelemetry ids, the retry delay (floating-point
  arithmetic), middlewares and task bodies are parameters (records \<open>libs\<close>, \<open>host\<close>, \<open>runtime\<close>).
  Loops of the code are recursion over the data they walk; the only counted loops are those the code itself
  counts (\<^verbatim>\<open>MAX_CC_RETRIES\<close>, \<^verbatim>\<open>max_num_invocations * 2 + 8\<close>), with the code's numbers.

  \<^bold>\<open>Interfaces.\<close> Locales state what one part relies on: \<open>status_rules\<close> (the status machine),
  \<open>status_store\<close> (a store of records under the machine), \<open>work_queue\<close> (a broker), \<open>kv_store\<close> (a
  key-value backend), \<open>claim_store\<close> (at most one successful claim), \<open>table_invariant\<close> (a property of rows that every
  request keeps), \<open>steady\<close> (a predicate that the backend calls other than heartbeats, removals and purge keep is kept by
  the use cases made of them; a parameter says which registrations are among them) and its extensions \<open>beating\<close> (heartbeats
  too), \<open>living\<close> (a predicate about one invocation that is not registered anew), \<open>quiet\<close> (removals too) and \<open>kept\<close>
  (every backend call, so every use case). Each is interpreted on the model's definitions in the
  theory that provides them; \<open>status_store\<close> and \<open>kv_store\<close> both for the in-memory and for the SQLite
  backends.

  \<^bold>\<open>What is shown.\<close>

  \<^item> The status machine: owners are stored exactly in owned statuses; an outsider can only recover or
    cancel. Ids and calls print and parse back; argument hashes do not depend on order and collide only with
    SHA-256; argument keys agree exactly on the configured arguments.
  \<^item> The orchestrator: its invariant under any operations; a claim excludes every other until it is given up; terminal records are
    frozen; the holders of a concurrency key never exceed the limit; waiters are released; queries, pages and stale scans are exact.
  \<^item> The broker: highest priority, oldest first; nothing lost or duplicated; languages are isolated; no
    missed wake-up. The state backend: its invariant and time-range queries.
  \<^item> Triggers: a cron slot fires once; an evaluation loses no firing; a run starts once; the store's
    invariant.
  \<^item> The service: the joint invariant and append-only histories through any interleaving of use cases
    (\<open>Service_Spec\<close>); records move only along the status machine until they are registered anew or removed; cancellation; recovery and its limit
    (\<open>Service_Outcomes\<close>); the end of an attempt, no retry past the limit, deadlines (\<open>Attempt_Props\<close>);
    work handed to a runner (\<open>Retrieval_Props\<close>); publication of trigger runs through crashes
    (\<open>Publication_Props\<close>); recovery of what a worker that gave up left running (\<open>Runner_Pool\<close>).
  \<^item> Workflows replay the values of their first run; externalised values come back unchanged. The
    result of a call reaches the caller's handle; the local retry loop stops; a trigger built on an event
    gets a run for each such event. The histogram shows exactly what its rule selects, related to the statuses held during
    a bucket, and its bars add up. The timeline shows every status change once, on lanes whose chains, registrations apart, do not overlap and that are no more than
    needed (\<open>Timeline_Props\<close>); the family tree is built within its limits, also on cycles of parents.
    A shutdown of the telemetry emitter that succeeds has lost no event unless a load raced, a flush waited for the events before it, and the
    worker ends after a number of steps bounded by the queue (\<open>Telemetry_Export_Props\<close>).
  \<^item> The SQLite backend, under any interleaving of requests of any processes and engine failures at any
    statement: a request is all or nothing, but for three that are not one transaction (\<open>Sqlite_Requests\<close>); queue, leases and records refine an abstract
    delivery protocol (\<open>Sqlite_Delivery\<close>), so a delivery is exclusive while its lease lasts, published work
    stays queued, also under the use cases of the service (\<open>Sqlite_Service_Props\<close>), and a submission id is accepted once; a success and a return to the queue are one commit
    (\<open>Sqlite_Props\<close>); rows read back as they were written (\<open>Sqlite_State_Props\<close>) and stay readable
    (\<open>Sqlite_Invariants\<close>, \<open>Sqlite_Types\<close>); a trigger run starts once (\<open>Sqlite_Trigger_Props\<close>); its orchestrator answers like the in-memory one,
    slots kept past a bare final status apart (\<open>Sqlite_Mem_Equiv\<close>).
  \<^item> Some theorems record where the code falls short of its documentation: late
    results, lost claims, stranded waiters, the zero bound, panicking constructors, a scan that takes its process out of service, bars that cover each other.

  \<^bold>\<open>Not modelled.\<close> The PostgreSQL, Redis, MongoDB and RabbitMQ backends (commands and scripts
  executed by external servers); opening a SQLite file, its pragmas, schema migrations and fail points; the thread pool, executors, signals, intervals and idle waits of the runners; logging, metrics, the contents of telemetry events, their OpenTelemetry mapping
  and the in-process worker table; the monitoring web interface but for its histogram, timeline (without coordinates), family tree and pages, the Python bindings, the procedural macros,
  the builder and the command line; the timing of atomic services (floating-point arithmetic).
\<close>

end
